(* ===== verification/Kernel_Prelude.thy ===== *)
theory Kernel_Prelude
  imports Main "HOL-Library.Word"
begin

unbundle bit_operations_syntax

text \<open>
  What every component of the development shares: machine integers at the widths of
  \<^verbatim>\<open>lib/stdint.h\<close>, the result type of kernel code, buffers with a pointer offset,
  little-endian fields of on-disk structures, and the generic lemmas the component
  proofs rest on.

  Kernel code that returns is \<open>Inr v\<close>. What stops it from returning is a value of
  \<open>kerror\<close>: an \<^verbatim>\<open>ASSERT\<close> or \<^verbatim>\<open>PANIC\<close> of \<^verbatim>\<open>kernel/debug.h\<close> that spins for ever,
  an access outside the object the code was given, a loop that never ends, or a call that
  gives the processor away because the resource is held by another thread.
\<close>

section \<open>Machine integers\<close>

type_synonym u8 = "8 word"
type_synonym u16 = "16 word"
type_synonym u32 = "32 word"

text \<open>\<^verbatim>\<open>PAGE_SIZE\<close> and \<^verbatim>\<open>DIV_ROUND_UP\<close> of \<^verbatim>\<open>kernel/global.h\<close>.\<close>

definition PAGE_SIZE :: u32 where
  "PAGE_SIZE = 4096"

definition DIV_ROUND_UP :: "u32 \<Rightarrow> u32 \<Rightarrow> u32" where
  "DIV_ROUND_UP X STEP = (X + STEP - 1) div STEP"

section \<open>Results of kernel code\<close>

datatype kerror =
    Panic        \<comment> \<open>\<^verbatim>\<open>panic_spin\<close>: a failed \<^verbatim>\<open>ASSERT\<close> or a \<^verbatim>\<open>PANIC\<close>\<close>
  | OutOfBounds  \<comment> \<open>a read or write outside the object a pointer points into\<close>
  | Diverges     \<comment> \<open>a loop whose condition never changes\<close>
  | Blocks       \<comment> \<open>the running thread is taken off the processor\<close>

type_synonym 'a res = "kerror + 'a"

definition bindE :: "'a res \<Rightarrow> ('a \<Rightarrow> 'b res) \<Rightarrow> 'b res" where
  "bindE m f = (case m of Inl e \<Rightarrow> Inl e | Inr x \<Rightarrow> f x)"

definition mapE :: "('a \<Rightarrow> 'b) \<Rightarrow> 'a res \<Rightarrow> 'b res" where
  "mapE f m = (case m of Inl e \<Rightarrow> Inl e | Inr x \<Rightarrow> Inr (f x))"

text \<open>\<^verbatim>\<open>ASSERT\<close> of \<^verbatim>\<open>kernel/debug.h\<close> (the makefile never sets \<^verbatim>\<open>NDEBUG\<close>).\<close>

definition ASSERT :: "bool \<Rightarrow> unit res" where
  "ASSERT c = (if c then Inr () else Inl Panic)"

text \<open>A pointer that may be \<^verbatim>\<open>NULL\<close>: dereferencing \<^verbatim>\<open>NULL\<close> is outside every object.\<close>

definition deref :: "'a option \<Rightarrow> 'a res" where
  "deref p = (case p of None \<Rightarrow> Inl OutOfBounds | Some x \<Rightarrow> Inr x)"

named_theorems res_simps \<open>evaluation and inversion of kernel results\<close>

lemma bindE_simps [simp]:
  "bindE (Inl e) f = Inl e"
  "bindE (Inr x) f = f x"
  by (simp_all add: bindE_def)

lemma mapE_simps [simp]:
  "mapE f (Inl e) = Inl e"
  "mapE f (Inr x) = Inr (f x)"
  by (simp_all add: mapE_def)

lemma ASSERT_simps [simp]:
  "ASSERT True = Inr ()"
  "ASSERT False = Inl Panic"
  by (simp_all add: ASSERT_def)

lemma deref_simps [simp]:
  "deref None = Inl OutOfBounds"
  "deref (Some x) = Inr x"
  by (simp_all add: deref_def)

lemma bindE_eq_Inr [res_simps]:
  "bindE m f = Inr y \<longleftrightarrow> (\<exists>x. m = Inr x \<and> f x = Inr y)"
  by (cases m) simp_all

lemma mapE_eq_Inr [res_simps]:
  "mapE f m = Inr y \<longleftrightarrow> (\<exists>x. m = Inr x \<and> y = f x)"
  by (cases m) auto

lemma ASSERT_eq_Inr [res_simps]: "ASSERT c = Inr u \<longleftrightarrow> c"
  by (simp add: ASSERT_def)

lemma deref_eq_Inr [res_simps]: "deref p = Inr x \<longleftrightarrow> p = Some x"
  by (cases p) simp_all

lemma bindE_assoc: "bindE (bindE m f) g = bindE m (\<lambda>x. bindE (f x) g)"
  by (cases m) simp_all

lemma bindE_cong [fundef_cong]:
  "m = m' \<Longrightarrow> (\<And>x. m' = Inr x \<Longrightarrow> f x = f' x) \<Longrightarrow> bindE m f = bindE m' f'"
  by (cases m') simp_all

lemma bindE_InrE:
  assumes "bindE m f = Inr y"
  obtains x where "m = Inr x" and "f x = Inr y"
  using assms by (auto simp: bindE_eq_Inr)

section \<open>Buffers and offsets\<close>

text \<open>
  A pointer into the middle of a buffer: \<open>at_off i f b\<close> runs \<open>f\<close> on the bytes from
  offset \<open>i\<close> on and leaves the bytes before it alone.
\<close>

definition at_off :: "nat \<Rightarrow> ('a list \<Rightarrow> 'a list res) \<Rightarrow> 'a list \<Rightarrow> 'a list res" where
  "at_off i f b =
     (if i \<le> length b then mapE (\<lambda>b'. take i b @ b') (f (drop i b)) else Inl OutOfBounds)"

definition read_at :: "'a list \<Rightarrow> nat \<Rightarrow> 'a res" where
  "read_at b i = (if i < length b then Inr (b ! i) else Inl OutOfBounds)"

definition write_at :: "'a list \<Rightarrow> nat \<Rightarrow> 'a \<Rightarrow> 'a list res" where
  "write_at b i v = (if i < length b then Inr (b[i := v]) else Inl OutOfBounds)"

text \<open>\<open>n\<close> bytes from offset \<open>i\<close>, and the buffer with \<open>bs\<close> stored at offset \<open>i\<close>.\<close>

definition sub_buf :: "nat \<Rightarrow> nat \<Rightarrow> 'a list \<Rightarrow> 'a list" where
  "sub_buf i n b = take n (drop i b)"

definition patch :: "nat \<Rightarrow> 'a list \<Rightarrow> 'a list \<Rightarrow> 'a list" where
  "patch i bs b = take i b @ bs @ drop (i + length bs) b"

lemma read_at_eq_Inr [res_simps]: "read_at b i = Inr v \<longleftrightarrow> i < length b \<and> v = b ! i"
  by (auto simp: read_at_def)

lemma write_at_eq_Inr [res_simps]: "write_at b i v = Inr b' \<longleftrightarrow> i < length b \<and> b' = b[i := v]"
  by (auto simp: write_at_def)

lemma read_at_in [simp]: "i < length b \<Longrightarrow> read_at b i = Inr (b ! i)"
  by (simp add: read_at_def)

lemma write_at_in [simp]: "i < length b \<Longrightarrow> write_at b i v = Inr (b[i := v])"
  by (simp add: write_at_def)

lemma length_sub_buf [simp]: "length (sub_buf i n b) = min n (length b - i)"
  by (simp add: sub_buf_def)

lemma length_patch: "i + length bs \<le> length b \<Longrightarrow> length (patch i bs b) = length b"
  by (simp add: patch_def)

lemma sub_buf_patch_same: "i \<le> length b \<Longrightarrow> sub_buf i (length bs) (patch i bs b) = bs"
  by (simp add: sub_buf_def patch_def)

lemma nth_patch:
  assumes "i + length bs \<le> length b" "j < length b"
  shows "patch i bs b ! j = (if i \<le> j \<and> j < i + length bs then bs ! (j - i) else b ! j)"
  using assms by (auto simp: patch_def nth_append min_def)

lemma nth_sub_buf: "j < n \<Longrightarrow> i + j < length b \<Longrightarrow> sub_buf i n b ! j = b ! (i + j)"
  by (simp add: sub_buf_def add.commute)

lemma sub_buf_patch_other:
  assumes "i + length bs \<le> length b" "j + n \<le> i \<or> i + length bs \<le> j" "j + n \<le> length b"
  shows "sub_buf j n (patch i bs b) = sub_buf j n b"
  using assms by (intro nth_equalityI) (auto simp: nth_sub_buf nth_patch length_patch)

section \<open>Little-endian fields\<close>

text \<open>The processor stores a \<^verbatim>\<open>uint32_t\<close> as four bytes, the least significant first.\<close>

definition le32 :: "u32 \<Rightarrow> u8 list" where
  "le32 w = [ucast w, ucast (drop_bit 8 w), ucast (drop_bit 16 w), ucast (drop_bit 24 w)]"

definition get32 :: "u8 list \<Rightarrow> u32" where
  "get32 b = (ucast (b ! 0) OR push_bit 8 (ucast (b ! 1)) OR push_bit 16 (ucast (b ! 2))
              OR push_bit 24 (ucast (b ! 3)))"

lemma length_le32 [simp]: "length (le32 w) = 4"
  by (simp add: le32_def)

lemma get32_byte:
  "n < 32 \<Longrightarrow> bit (get32 [a, b, c, d]) n =
     (if n < 8 then bit a n else if n < 16 then bit b (n - 8)
      else if n < 24 then bit c (n - 16) else bit d (n - 24))"
  by (cases "n < 8"; cases "n < 16"; cases "n < 24")
     (auto simp: get32_def bit_simps impossible_bit dest: bit_imp_le_length)

lemma get32_append: "length b = 4 \<Longrightarrow> get32 (b @ r) = get32 b"
  by (simp add: get32_def nth_append)

lemma get32_le32 [simp]: "get32 (le32 w @ r) = w"
proof (rule bit_word_eqI)
  fix n assume n: "n < LENGTH(32)"
  then have "bit (get32 (le32 w)) n = bit w n"
    unfolding le32_def by (subst get32_byte) (auto simp: bit_simps)
  then show "bit (get32 (le32 w @ r)) n = bit w n"
    by (simp add: get32_append)
qed

lemmas get32_le32_Nil [simp] = get32_le32 [of w "[]" for w, simplified]

section \<open>Words and naturals\<close>

lemma unat_of_nat32: "n < 2 ^ 32 \<Longrightarrow> unat (of_nat n :: u32) = n"
  by (simp add: unat_of_nat take_bit_nat_eq_self_iff)

lemma unat_u32_lt: "unat (w :: u32) < 2 ^ 32"
  using unsigned_less [of w] by simp

lemma unat_u8_lt: "unat (w :: u8) < 256"
  using unsigned_less [of w] by simp

lemma unat_eq_1_iff: "unat (w :: 'a::len word) = 1 \<longleftrightarrow> w = 1"
  by (metis unsigned_1 unsigned_word_eqI)

lemma word_gt_1_unat: "(w :: 'a::len word) \<noteq> 0 \<Longrightarrow> w \<noteq> 1 \<Longrightarrow> 1 < unat w"
  using unat_eq_1_iff [of w] unsigned_eq_0_iff [of w, where 'a = nat]
  by (metis less_one linorder_neqE_nat)

lemma unat_ucast_small: "unat (w :: u32) < 256 \<Longrightarrow> unat (ucast w :: u8) = unat w"
  by (simp add: unsigned_ucast_eq take_bit_nat_eq_self)

lemma unat_ucast_u8 [simp]: "unat (ucast (b :: u8) :: u32) = unat b"
  using unat_u8_lt [of b] by (simp add: unsigned_ucast_eq take_bit_nat_eq_self)

lemma unat_minus_1: "unat (-1 :: u32) = 4294967295"
  by (simp add: unsigned_minus_1_eq_mask mask_eq_exp_minus_1)

lemma unat_lt_not_minus_1: "unat (w :: u32) < 4294967295 \<Longrightarrow> w \<noteq> -1"
  using unat_minus_1 by auto

lemma unat_add_no_wrap32:
  "unat (a :: u32) + unat b < 2 ^ 32 \<Longrightarrow> unat (a + b) = unat a + unat b"
  by (simp add: unat_word_ariths)

lemma unat_mult_no_wrap32:
  "unat (a :: u32) * unat b < 2 ^ 32 \<Longrightarrow> unat (a * b) = unat a * unat b"
  by (simp add: unat_word_ariths)

lemma unat_sub_no_wrap32: "b \<le> (a :: u32) \<Longrightarrow> unat (a - b) = unat a - unat b"
  by (rule unat_sub)

section \<open>First-in first-out queues\<close>

text \<open>
  The contract of the kernel's queues, the linked lists and the ring buffers alike. A queue
  has contents \<open>xs\<close> in state \<open>s\<close> when \<open>contents s xs\<close>; \<open>admits s xs\<close> says that the state has
  room for \<open>xs\<close> as the contents. \<open>feed\<close> and \<open>drain\<close> are runs of the two operations.
\<close>

fun feed :: "('e \<Rightarrow> 's \<Rightarrow> 's res) \<Rightarrow> 'e list \<Rightarrow> 's \<Rightarrow> 's res" where
  "feed put [] s = Inr s"
| "feed put (e # es) s = bindE (put e s) (feed put es)"

fun drain :: "('s \<Rightarrow> ('e \<times> 's) res) \<Rightarrow> nat \<Rightarrow> 's \<Rightarrow> ('e list \<times> 's) res" where
  "drain get 0 s = Inr ([], s)"
| "drain get (Suc n) s =
     bindE (get s) (\<lambda>(e, s). mapE (\<lambda>(es, s). (e # es, s)) (drain get n s))"

locale fifo =
  fixes contents :: "'s \<Rightarrow> 'e list \<Rightarrow> bool"
    and admits :: "'s \<Rightarrow> 'e list \<Rightarrow> bool"
    and put :: "'e \<Rightarrow> 's \<Rightarrow> 's res"
    and get :: "'s \<Rightarrow> ('e \<times> 's) res"
  assumes put_end: "contents s xs \<Longrightarrow> admits s (xs @ [e]) \<Longrightarrow>
      \<exists>s'. put e s = Inr s' \<and> contents s' (xs @ [e]) \<and> admits s' = admits s"
    and get_front: "contents s (x # xs) \<Longrightarrow>
      \<exists>s'. get s = Inr (x, s') \<and> contents s' xs \<and> admits s' = admits s"
    and admits_prefix: "admits s (xs @ ys) \<Longrightarrow> admits s xs"
begin

lemma feed_end:
  "contents s xs \<Longrightarrow> admits s (xs @ es) \<Longrightarrow>
     \<exists>s'. feed put es s = Inr s' \<and> contents s' (xs @ es) \<and> admits s' = admits s"
proof (induction es arbitrary: s xs)
  case (Cons e es)
  from Cons.prems(2) have "admits s (xs @ [e])" using admits_prefix [of s "xs @ [e]" es] by simp
  with put_end Cons.prems(1) obtain s1 where s1:
    "put e s = Inr s1" "contents s1 (xs @ [e])" "admits s1 = admits s" by blast
  with Cons.IH [of s1 "xs @ [e]"] Cons.prems(2) show ?case by auto
qed simp

lemma drain_front:
  "contents s (xs @ ys) \<Longrightarrow>
     \<exists>s'. drain get (length xs) s = Inr (xs, s') \<and> contents s' ys \<and> admits s' = admits s"
proof (induction xs arbitrary: s)
  case (Cons x xs)
  with get_front [of s x "xs @ ys"] obtain s1 where
    "get s = Inr (x, s1)" "contents s1 (xs @ ys)" "admits s1 = admits s" by auto
  with Cons.IH [of s1] show ?case by auto
qed simp

text \<open>What goes in comes out, in the same order, behind what was there.\<close>

lemma feed_drain:
  assumes "contents s xs" "admits s (xs @ es)"
  shows "\<exists>s' s''. feed put es s = Inr s' \<and>
           drain get (length xs + length es) s' = Inr (xs @ es, s'') \<and> contents s'' []"
proof -
  from feed_end [OF assms] obtain s' where s': "feed put es s = Inr s'" "contents s' (xs @ es)"
    by blast
  with drain_front [of s' "xs @ es" "[]"] show ?thesis by auto
qed

end

end
