(* ===== verification/Interrupt.thy ===== *)
theory Interrupt
  imports Kernel_Prelude
begin

text \<open>
  \<^verbatim>\<open>kernel/interrupt.c\<close>: the interrupt flag of the \<^verbatim>\<open>eflags\<close> register and the four
  functions that read and change it, and the gate descriptors of the interrupt table.
  The lemmas show that the bracket every critical section uses (\<^verbatim>\<open>intr_disable\<close> \<dots>
  \<^verbatim>\<open>intr_set_status(old)\<close>) runs with interrupts off and restores the register, also when
  brackets nest.
\<close>

section \<open>The interrupt flag\<close>

datatype intr_status = INTR_OFF | INTR_ON

definition EFLAGS_IF :: u32 where
  "EFLAGS_IF = 0x00000200"

text \<open>The instructions \<^verbatim>\<open>sti\<close> and \<^verbatim>\<open>cli\<close>.\<close>

definition sti :: "u32 \<Rightarrow> u32" where
  "sti eflags = eflags OR EFLAGS_IF"

definition cli :: "u32 \<Rightarrow> u32" where
  "cli eflags = eflags AND NOT EFLAGS_IF"

definition intr_get_status :: "u32 \<Rightarrow> intr_status" where
  "intr_get_status eflags = (if EFLAGS_IF AND eflags \<noteq> 0 then INTR_ON else INTR_OFF)"

definition intr_enable :: "u32 \<Rightarrow> intr_status \<times> u32" where
  "intr_enable eflags =
     (if INTR_ON = intr_get_status eflags then (INTR_ON, eflags) else (INTR_OFF, sti eflags))"

definition intr_disable :: "u32 \<Rightarrow> intr_status \<times> u32" where
  "intr_disable eflags =
     (if INTR_ON = intr_get_status eflags then (INTR_ON, cli eflags) else (INTR_OFF, eflags))"

definition intr_set_status :: "intr_status \<Rightarrow> u32 \<Rightarrow> intr_status \<times> u32" where
  "intr_set_status status eflags =
     (if status = INTR_ON then intr_enable eflags else intr_disable eflags)"

lemma bit_EFLAGS_IF [simp]: "bit EFLAGS_IF n \<longleftrightarrow> n = 9"
proof -
  have "EFLAGS_IF = push_bit 9 1" by (simp add: EFLAGS_IF_def)
  then have "bit EFLAGS_IF n \<longleftrightarrow> bit (push_bit 9 (1 :: u32)) n" by (rule arg_cong)
  also have "\<dots> \<longleftrightarrow> n = 9" unfolding bit_push_bit_iff by (auto simp: bit_1_iff)
  finally show ?thesis .
qed

lemma get_status_bit: "intr_get_status eflags = (if bit eflags 9 then INTR_ON else INTR_OFF)"
proof -
  have "EFLAGS_IF AND eflags = 0 \<longleftrightarrow> \<not> bit eflags 9"
    by (subst bit_eq_iff) (auto simp: bit_and_iff)
  then show ?thesis by (simp add: intr_get_status_def)
qed

lemma bit_sti: "bit (sti f) n \<longleftrightarrow> bit f n \<or> n = 9"
  by (simp add: sti_def bit_or_iff)

lemma bit_cli: "bit (cli f) n \<longleftrightarrow> bit f n \<and> n \<noteq> 9"
  by (auto simp: cli_def bit_and_iff bit_not_iff dest: bit_imp_le_length)

named_theorems intr_simps \<open>the interrupt flag through the four operations\<close>

lemma status_sti [intr_simps]: "intr_get_status (sti f) = INTR_ON"
  and status_cli [intr_simps]: "intr_get_status (cli f) = INTR_OFF"
  by (simp_all add: get_status_bit bit_sti bit_cli)

lemma sti_cli [intr_simps]: "intr_get_status f = INTR_ON \<Longrightarrow> sti (cli f) = f"
  by (rule bit_word_eqI) (auto simp: bit_sti bit_cli get_status_bit split: if_splits)

lemma disable_off [intr_simps]: "intr_get_status (snd (intr_disable f)) = INTR_OFF"
  by (cases "intr_get_status f") (simp_all add: intr_disable_def intr_simps)

lemma enable_on [intr_simps]: "intr_get_status (snd (intr_enable f)) = INTR_ON"
  by (cases "intr_get_status f") (simp_all add: intr_enable_def intr_simps)

lemma disable_fst [intr_simps]: "fst (intr_disable f) = intr_get_status f"
  by (cases "intr_get_status f") (simp_all add: intr_disable_def)

lemma set_status_status [intr_simps]: "intr_get_status (snd (intr_set_status st f)) = st"
  by (cases st) (simp_all add: intr_set_status_def intr_simps)

lemma disable_restore [intr_simps]:
  "snd (intr_set_status (fst (intr_disable f)) (snd (intr_disable f))) = f"
  by (cases "intr_get_status f")
     (simp_all add: intr_set_status_def intr_disable_def intr_enable_def intr_simps)

section \<open>Gate descriptors\<close>

record gate_desc =
  func_offset_low_word :: u16
  selector :: u16
  dcount :: u8
  attribute :: u8
  func_offset_high_word :: u16

definition SELECTOR_K_CODE :: u16 where
  "SELECTOR_K_CODE = push_bit 3 1 + push_bit 2 0 + 0"

definition IDT_DESC_ATTR_DPL0 :: u8 where
  "IDT_DESC_ATTR_DPL0 = push_bit 7 1 + push_bit 5 0 + 0xE"

definition IDT_DESC_ATTR_DPL3 :: u8 where
  "IDT_DESC_ATTR_DPL3 = push_bit 7 1 + push_bit 5 3 + 0xE"

definition IDT_DESC_CNT :: nat where
  "IDT_DESC_CNT = 0x81"

definition make_idt_desc :: "u8 \<Rightarrow> u32 \<Rightarrow> gate_desc" where
  "make_idt_desc attr function =
     \<lparr>func_offset_low_word = ucast (function AND 0x0000FFFF),
      selector = SELECTOR_K_CODE,
      dcount = 0,
      attribute = attr,
      func_offset_high_word = ucast (drop_bit 16 (function AND 0xFFFF0000))\<rparr>"

text \<open>
  Entry \<open>i\<close> of the array \<^verbatim>\<open>intr_entry_table\<close> as C reads it: \<^verbatim>\<open>kernel.s\<close> defines the entries of the vectors 0 to \<open>0x2f\<close>, and a larger
  index reads one of the words \<open>behind\<close> the table in the data section.
\<close>

definition entry_word :: "u32 list \<Rightarrow> (nat \<Rightarrow> u32) \<Rightarrow> nat \<Rightarrow> u32" where
  "entry_word intr_entry_table behind i =
     (if i < length intr_entry_table then intr_entry_table ! i else behind (i - length intr_entry_table))"

text \<open>The table after \<^verbatim>\<open>idt_desc_init\<close>: entry \<^verbatim>\<open>0x80\<close>, the last, is the system call gate.\<close>

definition idt_desc_init :: "u32 list \<Rightarrow> (nat \<Rightarrow> u32) \<Rightarrow> u32 \<Rightarrow> gate_desc list" where
  "idt_desc_init intr_entry_table behind syscall_handler =
     (let last_index = IDT_DESC_CNT - 1;
          idt = map (\<lambda>i. make_idt_desc IDT_DESC_ATTR_DPL0 (entry_word intr_entry_table behind i)) [0..<IDT_DESC_CNT]
      in idt[last_index := make_idt_desc IDT_DESC_ATTR_DPL3 syscall_handler])"

text \<open>The address and the privilege level the processor takes from a gate.\<close>

definition gate_target :: "gate_desc \<Rightarrow> u32" where
  "gate_target g = ucast (func_offset_low_word g) OR push_bit 16 (ucast (func_offset_high_word g))"

definition gate_dpl :: "gate_desc \<Rightarrow> u8" where
  "gate_dpl g = drop_bit 5 (attribute g) AND 3"

lemma mask16: "(0x0000FFFF :: u32) = mask 16" by (simp add: mask_eq_exp_minus_1)

lemma high16: "(0xFFFF0000 :: u32) = NOT (mask 16)" by (simp add: mask_eq_exp_minus_1)

lemma gate_target_make: "gate_target (make_idt_desc attr f) = f"
  unfolding gate_target_def make_idt_desc_def mask16 high16
  by (rule bit_word_eqI) (auto simp: bit_simps not_less)

section \<open>Properties\<close>

text \<open>
  A critical section, from \<^verbatim>\<open>intr_disable\<close> to \<^verbatim>\<open>intr_set_status\<close> of the status it
  returned, runs with interrupts off and ends with the \<^verbatim>\<open>eflags\<close> it started from; a section
  nested in it leaves the interrupts off.
\<close>

theorem critical_section_restores_eflags:
  "let (old, f1) = intr_disable f; (old2, f2) = intr_disable f1 in
     intr_get_status f1 = INTR_OFF \<and> snd (intr_set_status old2 f2) = f1 \<and>
     snd (intr_set_status old f1) = f"
  using disable_off [of f] disable_restore [of f] disable_restore [of "snd (intr_disable f)"]
  by (simp add: case_prod_beta Let_def)

text \<open>
  C29: the gates after \<^verbatim>\<open>idt_desc_init\<close>, with the \<open>0x30\<close> entry points \<^verbatim>\<open>kernel.s\<close> defines. The gates of the vectors 0 to \<open>0x2f\<close> lead
  to their entry points with privilege level 0, and \<open>0x80\<close>, the last, leads to the system call handler and may be used from
  user mode. The vectors \<open>0x30\<close> to \<open>0x7f\<close> have no entry point: the loop reads past the end of the table, and their gates, all
  present, lead wherever the words behind the table point.
\<close>

theorem idt_gates_lead_to_handlers:
  assumes "length entries = 0x30" "v < IDT_DESC_CNT"
  shows "length (idt_desc_init entries behind sc) = IDT_DESC_CNT \<and>
     gate_target (idt_desc_init entries behind sc ! v) =
       (if v = 0x80 then sc else if v < 0x30 then entries ! v else behind (v - 0x30)) \<and>
     gate_dpl (idt_desc_init entries behind sc ! v) = (if v = 0x80 then 3 else 0) \<and>
     bit (attribute (idt_desc_init entries behind sc ! v)) 7"
proof -
  have "gate_dpl (make_idt_desc IDT_DESC_ATTR_DPL0 f) = 0" "bit (attribute (make_idt_desc IDT_DESC_ATTR_DPL0 f)) 7"
    "gate_dpl (make_idt_desc IDT_DESC_ATTR_DPL3 f) = 3" "bit (attribute (make_idt_desc IDT_DESC_ATTR_DPL3 f)) 7" for f
    by (simp_all add: gate_dpl_def make_idt_desc_def IDT_DESC_ATTR_DPL0_def IDT_DESC_ATTR_DPL3_def)
  with assms show ?thesis
    by (auto simp: idt_desc_init_def IDT_DESC_CNT_def entry_word_def gate_target_make nth_list_update)
qed

theorem idt_gates_lead_to_handlers_witness:
  "gate_target (idt_desc_init (map (\<lambda>i. 0xc0001000 + of_nat i) [0..<0x30]) (\<lambda>_. 0x25) 0xc0002000 ! 0x21) = 0xc0001021"
  using idt_gates_lead_to_handlers [of "map (\<lambda>i. 0xc0001000 + of_nat i) [0..<0x30]" "0x21" "\<lambda>_. 0x25" "0xc0002000"]
  by (simp add: IDT_DESC_CNT_def)

end
