(* ===== verification/Kernel_List.thy ===== *)
theory Kernel_List
  imports Interrupt
begin

text \<open>
  The intrusive doubly linked lists of \<^verbatim>\<open>lib/kernel/list.c\<close>, which hold the ready threads,
  the waiters of a semaphore, the free memory blocks and the open inodes. The links are in
  memory, a map from addresses to \<^verbatim>\<open>struct list_elem\<close>; a list is the address of its
  \<^verbatim>\<open>struct list\<close>, whose \<^verbatim>\<open>head\<close> is at that address and whose \<^verbatim>\<open>tail\<close> is 8 bytes further.
  The operations read and write the links one field at a time, in the order of the code, so
  that aliasing is what it is there. A walk along the links that never meets the tail has
  the result \<open>Diverges\<close>.

  \<open>dlist m l xs\<close> says that the list at \<open>l\<close> holds the elements \<open>xs\<close>; the lemmas give every
  operation in terms of \<open>xs\<close>, with what happens to the rest of the memory. The locale
  \<open>intrusive_list\<close> states that contract for the clients and is interpreted by the
  operations of this theory.
\<close>

section \<open>Memory and operations\<close>

record list_elem =
  le_prev :: u32
  le_next :: u32

type_synonym links = "u32 \<rightharpoonup> list_elem"

text \<open>The part of the machine every kernel function works on; the components extend it.\<close>

record machine =
  eflags :: u32
  lmem :: links

definition NULL :: u32 where
  "NULL = 0"

definition list_head :: "u32 \<Rightarrow> u32" where
  "list_head l = l"

definition list_tail :: "u32 \<Rightarrow> u32" where
  "list_tail l = l + 8"

definition get_next :: "links \<Rightarrow> u32 \<Rightarrow> u32 res" where
  "get_next m p = mapE le_next (deref (m p))"

definition get_prev :: "links \<Rightarrow> u32 \<Rightarrow> u32 res" where
  "get_prev m p = mapE le_prev (deref (m p))"

definition set_next :: "u32 \<Rightarrow> u32 \<Rightarrow> links \<Rightarrow> links res" where
  "set_next p v m = mapE (\<lambda>e. m(p \<mapsto> e\<lparr>le_next := v\<rparr>)) (deref (m p))"

definition set_prev :: "u32 \<Rightarrow> u32 \<Rightarrow> links \<Rightarrow> links res" where
  "set_prev p v m = mapE (\<lambda>e. m(p \<mapsto> e\<lparr>le_prev := v\<rparr>)) (deref (m p))"

definition list_init :: "u32 \<Rightarrow> ('z) machine_scheme \<Rightarrow> ('z) machine_scheme" where
  "list_init l s = s\<lparr>lmem := (lmem s)
     (list_head l \<mapsto> \<lparr>le_prev = NULL, le_next = list_tail l\<rparr>,
      list_tail l \<mapsto> \<lparr>le_prev = list_head l, le_next = NULL\<rparr>)\<rparr>"

definition insert_links :: "u32 \<Rightarrow> u32 \<Rightarrow> links \<Rightarrow> links res" where
  "insert_links before elem m =
     bindE (get_prev m before) (\<lambda>p.
     bindE (set_next p elem m) (\<lambda>m.
     bindE (get_prev m before) (\<lambda>p.
     bindE (set_prev elem p m) (\<lambda>m.
     bindE (set_next elem before m) (\<lambda>m.
     set_prev before elem m)))))"

definition list_insert_before ::
  "u32 \<Rightarrow> u32 \<Rightarrow> ('z) machine_scheme \<Rightarrow> ('z) machine_scheme res" where
  "list_insert_before before elem s =
     (let (old_status, f) = intr_disable (eflags s) in
      bindE (insert_links before elem (lmem s)) (\<lambda>m.
      Inr (s\<lparr>eflags := snd (intr_set_status old_status f), lmem := m\<rparr>)))"

definition list_push :: "u32 \<Rightarrow> u32 \<Rightarrow> ('z) machine_scheme \<Rightarrow> ('z) machine_scheme res" where
  "list_push plist elem s =
     bindE (get_next (lmem s) (list_head plist)) (\<lambda>before. list_insert_before before elem s)"

definition list_append :: "u32 \<Rightarrow> u32 \<Rightarrow> ('z) machine_scheme \<Rightarrow> ('z) machine_scheme res" where
  "list_append plist elem s = list_insert_before (list_tail plist) elem s"

definition remove_links :: "u32 \<Rightarrow> links \<Rightarrow> links res" where
  "remove_links pelem m =
     bindE (get_prev m pelem) (\<lambda>p.
     bindE (get_next m pelem) (\<lambda>n.
     bindE (set_next p n m) (\<lambda>m.
     bindE (get_next m pelem) (\<lambda>n.
     bindE (get_prev m pelem) (\<lambda>p.
     set_prev n p m)))))"

definition list_remove :: "u32 \<Rightarrow> ('z) machine_scheme \<Rightarrow> ('z) machine_scheme res" where
  "list_remove pelem s =
     (let (old_status, f) = intr_disable (eflags s) in
      bindE (remove_links pelem (lmem s)) (\<lambda>m.
      Inr (s\<lparr>eflags := snd (intr_set_status old_status f), lmem := m\<rparr>)))"

definition list_pop :: "u32 \<Rightarrow> ('z) machine_scheme \<Rightarrow> (u32 \<times> ('z) machine_scheme) res" where
  "list_pop plist s =
     bindE (get_next (lmem s) (list_head plist)) (\<lambda>elem.
     mapE (\<lambda>s. (elem, s)) (list_remove elem s))"

definition list_empty :: "u32 \<Rightarrow> ('z) machine_scheme \<Rightarrow> bool res" where
  "list_empty plist s = mapE (\<lambda>n. n = list_tail plist) (get_next (lmem s) (list_head plist))"

text \<open>
  The loops that follow the links. \<open>None\<close> is a walk that never ends; \<open>run_loop\<close> turns it
  into the error value.
\<close>

definition run_loop :: "'a res option \<Rightarrow> 'a res" where
  "run_loop r = (case r of None \<Rightarrow> Inl Diverges | Some v \<Rightarrow> v)"

partial_function (option) find_loop :: "links \<Rightarrow> u32 \<Rightarrow> u32 \<Rightarrow> u32 \<Rightarrow> bool res option" where
  "find_loop m tail obj elem =
     (if elem = tail then Some (Inr False)
      else if elem = obj then Some (Inr True)
      else (case m elem of None \<Rightarrow> Some (Inl OutOfBounds)
            | Some e \<Rightarrow> find_loop m tail obj (le_next e)))"

definition elem_find :: "u32 \<Rightarrow> u32 \<Rightarrow> ('z) machine_scheme \<Rightarrow> bool res" where
  "elem_find plist obj_elem s =
     bindE (get_next (lmem s) (list_head plist)) (\<lambda>elem.
     run_loop (find_loop (lmem s) (list_tail plist) obj_elem elem))"

text \<open>The callback \<open>func\<close> sees an element and a state of its own (what it prints or fills in).\<close>

partial_function (option) traversal_loop ::
  "links \<Rightarrow> u32 \<Rightarrow> (u32 \<Rightarrow> 's \<Rightarrow> (bool \<times> 's) res) \<Rightarrow> u32 \<Rightarrow> 's \<Rightarrow> (u32 \<times> 's) res option" where
  "traversal_loop m tail func elem st =
     (if elem = tail then Some (Inr (NULL, st))
      else (case func elem st of
              Inl e \<Rightarrow> Some (Inl e)
            | Inr (hit, st') \<Rightarrow>
                if hit then Some (Inr (elem, st'))
                else (case m elem of None \<Rightarrow> Some (Inl OutOfBounds)
                      | Some e \<Rightarrow> traversal_loop m tail func (le_next e) st')))"

definition list_traversal ::
  "u32 \<Rightarrow> (u32 \<Rightarrow> 's \<Rightarrow> (bool \<times> 's) res) \<Rightarrow> ('z) machine_scheme \<Rightarrow> 's \<Rightarrow> (u32 \<times> 's) res" where
  "list_traversal plist func s st =
     bindE (get_next (lmem s) (list_head plist)) (\<lambda>elem.
     bindE (list_empty plist s) (\<lambda>empty.
     if empty then Inr (NULL, st)
     else run_loop (traversal_loop (lmem s) (list_tail plist) func elem st)))"

partial_function (option) len_loop :: "links \<Rightarrow> u32 \<Rightarrow> u32 \<Rightarrow> u32 \<Rightarrow> u32 res option" where
  "len_loop m tail elem len =
     (if elem = tail then Some (Inr len)
      else (case m elem of None \<Rightarrow> Some (Inl OutOfBounds)
            | Some e \<Rightarrow> len_loop m tail (le_next e) (len + 1)))"

definition list_len :: "u32 \<Rightarrow> ('z) machine_scheme \<Rightarrow> u32 res" where
  "list_len plist s =
     bindE (get_next (lmem s) (list_head plist)) (\<lambda>elem.
     run_loop (len_loop (lmem s) (list_tail plist) elem 0))"

section \<open>Chains of links\<close>

definition linked :: "links \<Rightarrow> u32 \<Rightarrow> u32 \<Rightarrow> bool" where
  "linked m p q \<longleftrightarrow>
     (\<exists>a b. m p = Some a \<and> le_next a = q \<and> m q = Some b \<and> le_prev b = p)"

abbreviation chain :: "u32 \<Rightarrow> u32 list \<Rightarrow> u32 list" where
  "chain l xs \<equiv> list_head l # xs @ [list_tail l]"

definition nodes :: "u32 \<Rightarrow> u32 list \<Rightarrow> u32 set" where
  "nodes l xs = set (chain l xs)"

definition dlist :: "links \<Rightarrow> u32 \<Rightarrow> u32 list \<Rightarrow> bool" where
  "dlist m l xs \<longleftrightarrow> distinct (chain l xs) \<and> successively (linked m) (chain l xs)"

lemma in_set_tlD: "x \<in> set (tl xs) \<Longrightarrow> x \<in> set xs"
  by (cases xs) auto

lemma successively_mono_ends:
  assumes "successively P xs"
    and "\<And>x y. P x y \<Longrightarrow> x \<in> set (butlast xs) \<Longrightarrow> y \<in> set (tl xs) \<Longrightarrow> Q x y"
  shows "successively Q xs"
  using assms by (induction xs rule: induct_list012) auto

lemma linked_next: "linked m p q \<Longrightarrow> get_next m p = Inr q"
  by (auto simp: linked_def get_next_def)

lemma linked_prev: "linked m p q \<Longrightarrow> get_prev m q = Inr p"
  by (auto simp: linked_def get_prev_def)

lemma linked_dom: "linked m p q \<Longrightarrow> p \<in> dom m \<and> q \<in> dom m"
  by (auto simp: linked_def)

lemma linked_other:
  assumes "linked m x y" "x \<noteq> p" "y \<noteq> b" "x \<noteq> e" "y \<noteq> e"
    and "\<And>a. a \<notin> {p, e, b} \<Longrightarrow> m' a = m a"
    and "map_option le_prev (m' p) = map_option le_prev (m p)"
    and "map_option le_next (m' b) = map_option le_next (m b)"
  shows "linked m' x y"
proof -
  have "map_option le_next (m' x) = map_option le_next (m x)"
    using assms(2,4,6,8) by (cases "x = b") auto
  moreover have "map_option le_prev (m' y) = map_option le_prev (m y)"
    using assms(3,5,6,7) by (cases "y = p") auto
  ultimately show ?thesis using assms(1) by (auto simp: linked_def)
qed

lemma insert_links_chain:
  assumes ch: "successively (linked m) (as @ p # b # bs)" and dist: "distinct (as @ p # b # bs)"
    and e: "e \<notin> set (as @ p # b # bs)" "e \<in> dom m"
  shows "\<exists>m'. insert_links b e m = Inr m' \<and> successively (linked m') (as @ p # e # b # bs) \<and>
           (\<forall>a. a \<notin> {p, e, b} \<longrightarrow> m' a = m a) \<and> dom m' = dom m"
proof -
  have "linked m p b" using ch by (simp add: successively_append_iff)
  then obtain P B where P: "m p = Some P" "le_next P = b" and B: "m b = Some B" "le_prev B = p"
    by (auto simp: linked_def)
  obtain E where E: "m e = Some E" using e by auto
  have ne: "p \<noteq> b" "e \<noteq> p" "e \<noteq> b" using dist e by auto
  define m' where "m' = m(p \<mapsto> P\<lparr>le_next := e\<rparr>, e \<mapsto> E\<lparr>le_prev := p, le_next := b\<rparr>,
                          b \<mapsto> B\<lparr>le_prev := e\<rparr>)"
  have run: "insert_links b e m = Inr m'"
    using P B E ne
    by (simp add: insert_links_def get_prev_def set_next_def set_prev_def m'_def fun_upd_twist)
  have frame: "m' a = m a" if "a \<notin> {p, e, b}" for a
    using that by (simp add: m'_def)
  have step: "linked m' x y" if "linked m x y" "x \<noteq> p" "y \<noteq> b" "x \<noteq> e" "y \<noteq> e" for x y
    using that by (rule linked_other [OF _ _ _ _ _ frame]) (use P B E ne in \<open>auto simp: m'_def\<close>)
  have "successively (linked m') (as @ [p])"
    by (rule successively_mono_ends [of "linked m"])
       (use ch dist e in \<open>auto simp: successively_append_iff butlast_append
          intro!: step dest: in_set_tlD\<close>)
  moreover have "successively (linked m') (b # bs)"
    by (rule successively_mono_ends [of "linked m"])
       (use ch dist e in \<open>auto simp: successively_append_iff split: if_splits
          intro!: step dest: in_set_butlastD\<close>)
  moreover have "linked m' p e" "linked m' e b"
    using ne by (auto simp: linked_def m'_def)
  ultimately have "successively (linked m') (as @ p # e # b # bs)"
    by (simp add: successively_append_iff)
  moreover have "dom m' = dom m" using P B E by (auto simp: m'_def)
  ultimately show ?thesis using run frame by auto
qed

lemma remove_links_chain:
  assumes ch: "successively (linked m) (as @ p # e # b # bs)"
    and dist: "distinct (as @ p # e # b # bs)"
  shows "\<exists>m'. remove_links e m = Inr m' \<and> successively (linked m') (as @ p # b # bs) \<and>
           (\<forall>a. a \<notin> {p, b} \<longrightarrow> m' a = m a) \<and> dom m' = dom m"
proof -
  have "linked m p e" "linked m e b" using ch by (simp_all add: successively_append_iff)
  then obtain P E B where P: "m p = Some P" "le_next P = e" and B: "m b = Some B" "le_prev B = e"
    and E: "m e = Some E" "le_prev E = p" "le_next E = b" by (auto simp: linked_def)
  have ne: "p \<noteq> b" "e \<noteq> p" "e \<noteq> b" using dist by auto
  define m' where "m' = m(p \<mapsto> P\<lparr>le_next := b\<rparr>, b \<mapsto> B\<lparr>le_prev := p\<rparr>)"
  have run: "remove_links e m = Inr m'"
    using P B E ne
    by (simp add: remove_links_def get_prev_def get_next_def set_next_def set_prev_def m'_def)
  have frame: "m' a = m a" if "a \<notin> {p, b}" for a
    using that by (simp add: m'_def)
  have step: "linked m' x y" if "linked m x y" "x \<noteq> p" "y \<noteq> b" "x \<noteq> e" "y \<noteq> e" for x y
    using that by (rule linked_other) (use P B E ne in \<open>auto simp: m'_def\<close>)
  have "successively (linked m') (as @ [p])"
    by (rule successively_mono_ends [of "linked m"])
       (use ch dist in \<open>auto simp: successively_append_iff butlast_append
          intro!: step dest: in_set_tlD\<close>)
  moreover have "successively (linked m') (b # bs)"
    by (rule successively_mono_ends [of "linked m"])
       (use ch dist in \<open>auto simp: successively_append_iff split: if_splits
          intro!: step dest: in_set_butlastD\<close>)
  moreover have "linked m' p b"
    using ne by (auto simp: linked_def m'_def)
  ultimately have "successively (linked m') (as @ p # b # bs)"
    by (simp add: successively_append_iff)
  moreover have "dom m' = dom m" using P B E by (auto simp: m'_def)
  ultimately show ?thesis using run frame by auto
qed

section \<open>The contents of all lists\<close>

text \<open>
  A family \<open>F\<close> gives the contents of every list of the memory by its address; no element and
  no sentinel is in two lists.
\<close>

type_synonym family = "u32 \<rightharpoonup> u32 list"

definition lists_at :: "links \<Rightarrow> family \<Rightarrow> bool" where
  "lists_at m F \<longleftrightarrow>
     (\<forall>l xs. F l = Some xs \<longrightarrow> dlist m l xs) \<and>
     (\<forall>l l' xs xs'. F l = Some xs \<longrightarrow> F l' = Some xs' \<longrightarrow> l \<noteq> l' \<longrightarrow>
        nodes l xs \<inter> nodes l' xs' = {})"

definition unlisted :: "family \<Rightarrow> u32 \<Rightarrow> bool" where
  "unlisted F e \<longleftrightarrow> (\<forall>l xs. F l = Some xs \<longrightarrow> e \<notin> nodes l xs)"

lemma nodes_simps [simp]:
  "x \<in> nodes l xs \<longleftrightarrow> x = list_head l \<or> x \<in> set xs \<or> x = list_tail l"
  by (auto simp: nodes_def)

lemma lists_atD: "lists_at m F \<Longrightarrow> F l = Some xs \<Longrightarrow> dlist m l xs"
  by (simp add: lists_at_def)

lemma lists_at_disjoint:
  "lists_at m F \<Longrightarrow> F l = Some xs \<Longrightarrow> F l' = Some xs' \<Longrightarrow> l \<noteq> l' \<Longrightarrow> x \<in> nodes l xs \<Longrightarrow>
     x \<notin> nodes l' xs'"
  unfolding lists_at_def by blast

lemma lists_at_distinct: "lists_at m F \<Longrightarrow> F l = Some xs \<Longrightarrow> distinct xs"
  using lists_atD [of m F l xs] by (simp add: dlist_def)

lemma lists_at_dom:
  assumes "lists_at m F" "F l = Some xs" "x \<in> set xs"
  shows "x \<in> dom m"
proof -
  obtain as bs where "xs = as @ x # bs" using assms(3) split_list by metis
  moreover have "successively (linked m) (chain l xs)"
    using assms(1,2) lists_atD by (simp add: dlist_def)
  ultimately have "linked m x (hd (bs @ [list_tail l]))"
    by (cases bs) (auto simp: successively_append_iff successively_Cons)
  then show ?thesis using linked_dom by blast
qed

lemma dlist_frame:
  assumes "dlist m l xs" "\<And>a. a \<in> nodes l xs \<Longrightarrow> m' a = m a"
  shows "dlist m' l xs"
proof -
  have "linked m' x y" if "linked m x y" "x \<in> set (chain l xs)" "y \<in> set (chain l xs)" for x y
    using that assms(2) [of x] assms(2) [of y] by (simp add: linked_def nodes_def)
  then have "successively (linked m') (chain l xs)"
    using assms(1) successively_mono [of "linked m" "chain l xs" "linked m'"]
    unfolding dlist_def by blast
  with assms(1) show ?thesis by (simp add: dlist_def)
qed

lemma lists_at_upd:
  assumes F: "lists_at m F" "F l = Some xs" and d: "dlist m' l ys"
    and new: "\<And>a. a \<in> nodes l ys \<Longrightarrow> a \<notin> nodes l xs \<Longrightarrow> unlisted F a"
    and frame: "\<And>a. a \<notin> nodes l xs \<Longrightarrow> a \<notin> nodes l ys \<Longrightarrow> m' a = m a"
  shows "lists_at m' (F(l \<mapsto> ys))"
proof -
  have sep: "a \<notin> nodes l' xs'" if "F l' = Some xs'" "l' \<noteq> l" "a \<in> nodes l xs \<or> a \<in> nodes l ys" for l' xs' a
  proof (cases "a \<in> nodes l xs")
    case True
    with F that(1,2) show ?thesis by (metis lists_at_disjoint)
  next
    case False
    with that new have "unlisted F a" by blast
    with that(1) show ?thesis by (simp add: unlisted_def)
  qed
  have "dlist m' l' xs'" if "F l' = Some xs'" "l' \<noteq> l" for l' xs'
  proof (rule dlist_frame [of m])
    show "dlist m l' xs'" using F(1) that(1) by (rule lists_atD)
    show "m' a = m a" if "a \<in> nodes l' xs'" for a
      using sep [OF \<open>F l' = Some xs'\<close> \<open>l' \<noteq> l\<close>, of a] that frame by blast
  qed
  with d have 1: "dlist m' l' zs" if "(F(l \<mapsto> ys)) l' = Some zs" for l' zs
    using that by (auto split: if_splits)
  have "nodes l' xs' \<inter> nodes l'' xs'' = {}"
    if two: "(F(l \<mapsto> ys)) l' = Some xs'" "(F(l \<mapsto> ys)) l'' = Some xs''" "l' \<noteq> l''" for l' l'' xs' xs''
  proof -
    consider "l' = l" "xs' = ys" "F l'' = Some xs''" "l'' \<noteq> l"
      | "l'' = l" "xs'' = ys" "F l' = Some xs'" "l' \<noteq> l" | "F l' = Some xs'" "F l'' = Some xs''"
      using two by (cases "l' = l"; cases "l'' = l") auto
    then show ?thesis
    proof cases
      case 1 then show ?thesis using sep [of l'' xs''] by (auto simp del: nodes_simps)
    next
      case 2 then show ?thesis using sep [of l' xs'] by (auto simp del: nodes_simps)
    next
      case 3 then show ?thesis using lists_at_disjoint [OF F(1) 3 \<open>l' \<noteq> l''\<close>]
        by (auto simp del: nodes_simps)
    qed
  qed
  with 1 show ?thesis by (simp add: lists_at_def)
qed

section \<open>The operations on a family\<close>

lemma insert_before_machine:
  "list_insert_before b e s = mapE (\<lambda>m. s\<lparr>lmem := m\<rparr>) (insert_links b e (lmem s))"
  using disable_restore [of "eflags s"]
  by (cases "insert_links b e (lmem s)") (simp_all add: list_insert_before_def case_prod_beta)

lemma remove_machine:
  "list_remove e s = mapE (\<lambda>m. s\<lparr>lmem := m\<rparr>) (remove_links e (lmem s))"
  using disable_restore [of "eflags s"]
  by (cases "remove_links e (lmem s)") (simp_all add: list_remove_def case_prod_beta)

lemma chain_split:
  "\<exists>as p bs. (\<forall>zs. chain l (xs @ zs @ ys) = as @ p # zs @ hd (ys @ [list_tail l]) # bs) \<and>
     p \<in> nodes l (xs @ ys)"
proof (intro exI conjI allI)
  fix zs
  have "list_head l # xs = butlast (list_head l # xs) @ [last (list_head l # xs)]"
    by (rule append_butlast_last_id [symmetric]) simp
  moreover have "ys @ [list_tail l] = hd (ys @ [list_tail l]) # tl (ys @ [list_tail l])"
    by (cases ys) simp_all
  ultimately show "chain l (xs @ zs @ ys) = butlast (list_head l # xs) @ last (list_head l # xs) #
      zs @ hd (ys @ [list_tail l]) # tl (ys @ [list_tail l])"
    by (metis append.assoc append_Cons append_Nil)
  show "last (list_head l # xs) \<in> nodes l (xs @ ys)"
    by (cases xs rule: rev_cases) auto
qed

lemma hd_tail_nodes: "hd (ys @ [list_tail l]) \<in> nodes l (xs @ ys)"
  by (cases ys) auto

lemma list_insert_family:
  assumes F: "lists_at (lmem s) F" "F l = Some (xs @ ys)" and e: "unlisted F e" "e \<in> dom (lmem s)"
    and b: "b = hd (ys @ [list_tail l])"
  shows "\<exists>m'. list_insert_before b e s = Inr (s\<lparr>lmem := m'\<rparr>) \<and>
           lists_at m' (F(l \<mapsto> xs @ e # ys)) \<and> dom m' = dom (lmem s)"
proof -
  obtain as p bs where split: "\<And>zs. chain l (xs @ zs @ ys) = as @ p # zs @ b # bs"
    and p: "p \<in> nodes l (xs @ ys)" unfolding b using chain_split by meson
  have e': "e \<notin> nodes l (xs @ ys)" using e(1) F(2) unfolding unlisted_def by blast
  have d: "dlist (lmem s) l (xs @ ys)" using F by (rule lists_atD)
  have eq: "chain l (xs @ ys) = as @ p # b # bs" using split [of "[]"] by simp
  have "distinct (as @ p # b # bs)" "successively (linked (lmem s)) (as @ p # b # bs)"
    using d unfolding dlist_def eq by blast+
  moreover have "e \<notin> set (as @ p # b # bs)" using e' unfolding nodes_def eq by blast
  ultimately obtain m' where
    m': "insert_links b e (lmem s) = Inr m'" "successively (linked m') (as @ p # e # b # bs)"
      "\<And>a. a \<notin> {p, e, b} \<Longrightarrow> m' a = lmem s a" "dom m' = dom (lmem s)"
    using insert_links_chain [of "lmem s" as p b bs e] e(2) by blast
  have "distinct (chain l (xs @ e # ys))" using d e' by (auto simp: dlist_def)
  moreover have "chain l (xs @ e # ys) = as @ p # e # b # bs" using split [of "[e]"] by simp
  ultimately have "dlist m' l (xs @ e # ys)" using m'(2) unfolding dlist_def by metis
  moreover have "m' a = lmem s a" if "a \<notin> nodes l (xs @ ys)" "a \<notin> nodes l (xs @ e # ys)" for a
  proof (rule m'(3))
    have "b \<in> nodes l (xs @ ys)" unfolding b by (rule hd_tail_nodes)
    then show "a \<notin> {p, e, b}" using that p by auto
  qed
  ultimately have "lists_at m' (F(l \<mapsto> xs @ e # ys))"
    by (intro lists_at_upd [OF F]) (use e in auto)
  with m'(1,4) show ?thesis by (auto simp: insert_before_machine)
qed

lemma list_remove_family:
  assumes F: "lists_at (lmem s) F" "F l = Some (xs @ e # ys)"
  shows "\<exists>m'. list_remove e s = Inr (s\<lparr>lmem := m'\<rparr>) \<and>
           lists_at m' (F(l \<mapsto> xs @ ys)) \<and> dom m' = dom (lmem s)"
proof -
  let ?b = "hd (ys @ [list_tail l])"
  obtain as p bs where split: "\<And>zs. chain l (xs @ zs @ ys) = as @ p # zs @ ?b # bs"
    and p: "p \<in> nodes l (xs @ ys)" using chain_split by meson
  have d: "dlist (lmem s) l (xs @ e # ys)" using F by (rule lists_atD)
  have eq: "chain l (xs @ e # ys) = as @ p # e # ?b # bs" using split [of "[e]"] by simp
  have "distinct (as @ p # e # ?b # bs)" "successively (linked (lmem s)) (as @ p # e # ?b # bs)"
    using d unfolding dlist_def eq by blast+
  then obtain m' where
    m': "remove_links e (lmem s) = Inr m'" "successively (linked m') (as @ p # ?b # bs)"
      "\<And>a. a \<notin> {p, ?b} \<Longrightarrow> m' a = lmem s a" "dom m' = dom (lmem s)"
    using remove_links_chain [of "lmem s" as p e ?b bs] by blast
  have "distinct (chain l (xs @ ys))" using d by (simp add: dlist_def)
  moreover have "chain l (xs @ ys) = as @ p # ?b # bs" using split [of "[]"] by simp
  ultimately have "dlist m' l (xs @ ys)" using m'(2) unfolding dlist_def by metis
  moreover have "m' a = lmem s a" if "a \<notin> nodes l (xs @ e # ys)" "a \<notin> nodes l (xs @ ys)" for a
    using that p hd_tail_nodes [of ys l xs] by (intro m'(3)) auto
  ultimately have "lists_at m' (F(l \<mapsto> xs @ ys))"
    by (intro lists_at_upd [OF F]) auto
  with m'(1,4) show ?thesis by (auto simp: remove_machine)
qed

lemma first_next:
  assumes "lists_at m F" "F l = Some xs"
  shows "get_next m (list_head l) = Inr (hd (xs @ [list_tail l]))"
proof -
  have "linked m (list_head l) (hd (xs @ [list_tail l]))"
    using lists_atD [OF assms] by (cases xs) (simp_all add: dlist_def)
  then show ?thesis by (rule linked_next)
qed

lemma list_append_family:
  assumes "lists_at (lmem s) F" "F l = Some xs" "unlisted F e" "e \<in> dom (lmem s)"
  shows "\<exists>m'. list_append l e s = Inr (s\<lparr>lmem := m'\<rparr>) \<and>
           lists_at m' (F(l \<mapsto> xs @ [e])) \<and> dom m' = dom (lmem s)"
  using list_insert_family [of s F l xs "[]" e "list_tail l"] assms by (simp add: list_append_def)

lemma list_push_family:
  assumes "lists_at (lmem s) F" "F l = Some xs" "unlisted F e" "e \<in> dom (lmem s)"
  shows "\<exists>m'. list_push l e s = Inr (s\<lparr>lmem := m'\<rparr>) \<and>
           lists_at m' (F(l \<mapsto> e # xs)) \<and> dom m' = dom (lmem s)"
  using list_insert_family [of s F l "[]" xs e] first_next assms by (simp add: list_push_def)

lemma list_pop_family:
  assumes "lists_at (lmem s) F" "F l = Some (x # xs)"
  shows "\<exists>m'. list_pop l s = Inr (x, s\<lparr>lmem := m'\<rparr>) \<and>
           lists_at m' (F(l \<mapsto> xs)) \<and> dom m' = dom (lmem s)"
  using list_remove_family [of s F l "[]" x xs] first_next [OF assms] assms
  by (auto simp: list_pop_def)

lemma list_empty_family:
  assumes "lists_at (lmem s) F" "F l = Some xs"
  shows "list_empty l s = Inr (xs = [])"
  using first_next [OF assms] lists_atD [OF assms]
  by (cases xs) (auto simp: list_empty_def dlist_def)

lemma list_init_family:
  assumes "lists_at (lmem s) F" "unlisted F (list_head l)" "unlisted F (list_tail l)" "F l = None"
  shows "lists_at (lmem (list_init l s)) (F(l \<mapsto> []))"
proof -
  let ?m = "lmem (list_init l s)"
  have ne: "list_head l \<noteq> list_tail l" by (simp add: list_head_def list_tail_def)
  then have "dlist ?m l []"
    by (simp add: dlist_def list_init_def linked_def)
  moreover have "dlist ?m l' xs" if "F l' = Some xs" for l' xs
  proof (rule dlist_frame)
    show "dlist (lmem s) l' xs" using assms(1) that by (rule lists_atD)
    show "?m a = lmem s a" if "a \<in> nodes l' xs" for a
    proof -
      have "a \<noteq> list_head l" "a \<noteq> list_tail l"
        using assms(2,3) \<open>F l' = Some xs\<close> that unfolding unlisted_def by blast+
      then show ?thesis by (simp add: list_init_def)
    qed
  qed
  moreover have "nodes l [] \<inter> nodes l' xs = {}" "nodes l' xs \<inter> nodes l [] = {}"
    if "F l' = Some xs" for l' xs
    using assms(2,3) that unfolding unlisted_def by (fastforce simp: nodes_def)+
  ultimately show ?thesis
    using assms(1) unfolding lists_at_def fun_upd_apply
    by (simp del: nodes_simps split: if_split)
qed

subsection \<open>Walks along the links\<close>

lemma run_loop_Some [simp]: "run_loop (Some v) = v"
  by (simp add: run_loop_def)

lemma find_loop_chain:
  "successively (linked m) (ys @ [t]) \<Longrightarrow> t \<notin> set ys \<Longrightarrow>
     find_loop m t obj (hd (ys @ [t])) = Some (Inr (obj \<in> set ys))"
proof (induction ys)
  case Nil
  then show ?case by (simp add: find_loop.simps)
next
  case (Cons y ys)
  then have "linked m y (hd (ys @ [t]))" by (cases ys) auto
  moreover have "successively (linked m) (ys @ [t])" using Cons.prems by (cases ys) auto
  ultimately show ?case using Cons by (subst find_loop.simps) (auto simp: linked_def)
qed

lemma elem_find_family:
  assumes "lists_at (lmem s) F" "F l = Some xs"
  shows "elem_find l e s = Inr (e \<in> set xs)"
proof -
  have "successively (linked (lmem s)) (xs @ [list_tail l])" "list_tail l \<notin> set xs"
    using lists_atD [OF assms] by (cases xs; auto simp: dlist_def)+
  then show ?thesis using first_next [OF assms] by (simp add: elem_find_def find_loop_chain)
qed

lemma len_loop_chain:
  "successively (linked m) (ys @ [t]) \<Longrightarrow> t \<notin> set ys \<Longrightarrow>
     len_loop m t (hd (ys @ [t])) n = Some (Inr (n + of_nat (length ys)))"
proof (induction ys arbitrary: n)
  case Nil
  then show ?case by (simp add: len_loop.simps)
next
  case (Cons y ys)
  then have "linked m y (hd (ys @ [t]))" by (cases ys) auto
  moreover have "successively (linked m) (ys @ [t])" using Cons.prems by (cases ys) auto
  ultimately show ?case using Cons by (subst len_loop.simps) (auto simp: linked_def)
qed

lemma list_len_family:
  assumes "lists_at (lmem s) F" "F l = Some xs"
  shows "list_len l s = Inr (of_nat (length xs))"
proof -
  have "successively (linked (lmem s)) (xs @ [list_tail l])" "list_tail l \<notin> set xs"
    using lists_atD [OF assms] by (cases xs; auto simp: dlist_def)+
  then show ?thesis using first_next [OF assms] by (simp add: list_len_def len_loop_chain)
qed

text \<open>What the traversal does with the elements: stop at the first one the callback accepts.\<close>

fun visit :: "('e \<Rightarrow> 's \<Rightarrow> (bool \<times> 's) res) \<Rightarrow> 'e list \<Rightarrow> 's \<Rightarrow> ('e option \<times> 's) res" where
  "visit func [] st = Inr (None, st)"
| "visit func (x # xs) st =
     bindE (func x st) (\<lambda>(hit, st). if hit then Inr (Some x, st) else visit func xs st)"

definition found :: "u32 option \<times> 's \<Rightarrow> u32 \<times> 's" where
  "found r = (case fst r of None \<Rightarrow> NULL | Some e \<Rightarrow> e, snd r)"

lemma traversal_loop_chain:
  "successively (linked m) (ys @ [t]) \<Longrightarrow> t \<notin> set ys \<Longrightarrow>
     traversal_loop m t func (hd (ys @ [t])) st = Some (mapE found (visit func ys st))"
proof (induction ys arbitrary: st)
  case Nil
  then show ?case by (simp add: traversal_loop.simps found_def)
next
  case (Cons y ys)
  then have "linked m y (hd (ys @ [t]))" by (cases ys) auto
  moreover have "successively (linked m) (ys @ [t])" using Cons.prems by (cases ys) auto
  ultimately show ?case using Cons
    by (subst traversal_loop.simps)
       (auto simp: linked_def found_def [of "(_, _)"] split: sum.split)
qed

lemma list_traversal_family:
  assumes "lists_at (lmem s) F" "F l = Some xs"
  shows "list_traversal l func s st = mapE found (visit func xs st)"
proof -
  have "successively (linked (lmem s)) (xs @ [list_tail l])" "list_tail l \<notin> set xs"
    using lists_atD [OF assms] by (cases xs; auto simp: dlist_def)+
  then have "run_loop (traversal_loop (lmem s) (list_tail l) func (hd (xs @ [list_tail l])) st) =
      mapE found (visit func xs st)"
    by (subst traversal_loop_chain) simp_all
  then show ?thesis using first_next [OF assms] list_empty_family [OF assms]
    by (cases "xs = []") (simp_all add: list_traversal_def found_def)
qed

lemmas list_family =
  list_append_family list_push_family list_pop_family list_remove_family list_init_family
  list_empty_family elem_find_family list_len_family list_traversal_family

section \<open>The queue contract\<close>

text \<open>
  A list with the other lists \<open>F\<close> of the memory beside it is a first-in first-out queue under
  \<^verbatim>\<open>list_append\<close> and \<^verbatim>\<open>list_pop\<close>. It has room for any elements that exist and are in no list.
\<close>

definition list_admits :: "family \<Rightarrow> u32 \<Rightarrow> ('z) machine_scheme \<Rightarrow> u32 list \<Rightarrow> bool" where
  "list_admits F l s es \<longleftrightarrow>
     distinct es \<and> (\<forall>e\<in>set es. e \<in> dom (lmem s) \<and> unlisted (F(l \<mapsto> [])) e)"

interpretation lq: fifo "\<lambda>s xs. lists_at (lmem s) (F(l \<mapsto> xs))" "list_admits F l"
  "list_append l" "list_pop l" for F l
proof
  fix s :: "('z) machine_scheme" and xs e
  assume a: "lists_at (lmem s) (F(l \<mapsto> xs))" "list_admits F l s (xs @ [e])"
  then have "unlisted (F(l \<mapsto> xs)) e" "e \<in> dom (lmem s)"
    unfolding list_admits_def unlisted_def by (auto split: if_splits)
  with list_append_family [OF a(1), of l xs e]
  show "\<exists>s'. list_append l e s = Inr s' \<and> lists_at (lmem s') (F(l \<mapsto> xs @ [e])) \<and>
          list_admits F l s' = list_admits F l s"
    by (auto simp: list_admits_def fun_eq_iff)
next
  fix s :: "('z) machine_scheme" and x xs
  assume "lists_at (lmem s) (F(l \<mapsto> x # xs))"
  from list_pop_family [OF this, of l x xs]
  show "\<exists>s'. list_pop l s = Inr (x, s') \<and> lists_at (lmem s') (F(l \<mapsto> xs)) \<and>
          list_admits F l s' = list_admits F l s"
    by (auto simp: list_admits_def fun_eq_iff)
qed (auto simp: list_admits_def)

section \<open>Properties\<close>

text \<open>
  C24: in a memory whose lists have the contents \<open>F\<close>, the operations on the list at \<open>l\<close> with
  contents \<open>xs @ e # ys\<close> do to the links what they mean for the contents and keep every other
  list: \<^verbatim>\<open>list_remove\<close> takes an element out wherever it stands, \<^verbatim>\<open>list_push\<close> and \<^verbatim>\<open>list_append\<close>
  then put it back at the front and at the end, and \<^verbatim>\<open>elem_find\<close> and \<^verbatim>\<open>list_len\<close> see the contents.
\<close>

theorem list_operations_refine_contents:
  assumes "lists_at (lmem s) F" "F l = Some (xs @ e # ys)"
  shows "\<exists>m1 m2 m3. list_remove e s = Inr (s\<lparr>lmem := m1\<rparr>) \<and> lists_at m1 (F(l \<mapsto> xs @ ys)) \<and>
           list_push l e (s\<lparr>lmem := m1\<rparr>) = Inr (s\<lparr>lmem := m2\<rparr>) \<and> lists_at m2 (F(l \<mapsto> e # xs @ ys)) \<and>
           list_append l e (s\<lparr>lmem := m1\<rparr>) = Inr (s\<lparr>lmem := m3\<rparr>) \<and> lists_at m3 (F(l \<mapsto> xs @ ys @ [e])) \<and>
           elem_find l e s = Inr True \<and> elem_find l e (s\<lparr>lmem := m1\<rparr>) = Inr False \<and>
           list_len l s = Inr (of_nat (length xs + length ys + 1))"
proof -
  from list_remove_family [OF assms] obtain m1 where m1:
    "list_remove e s = Inr (s\<lparr>lmem := m1\<rparr>)" "lists_at m1 (F(l \<mapsto> xs @ ys))" "dom m1 = dom (lmem s)"
    by blast
  have dl: "dlist (lmem s) l (xs @ e # ys)" using assms by (rule lists_atD)
  have un: "unlisted (F(l \<mapsto> xs @ ys)) e"
    unfolding unlisted_def
  proof (intro allI impI)
    fix l' zs assume "(F(l \<mapsto> xs @ ys)) l' = Some zs"
    then show "e \<notin> nodes l' zs"
      using dl lists_at_disjoint [OF assms, of l' zs e]
      by (cases "l' = l") (auto simp: dlist_def)
  qed
  have dom: "e \<in> dom m1" using lists_at_dom [OF assms, of e] m1(3) by simp
  from list_push_family [of "s\<lparr>lmem := m1\<rparr>" _ l "xs @ ys" e] obtain m2 where m2:
    "list_push l e (s\<lparr>lmem := m1\<rparr>) = Inr (s\<lparr>lmem := m2\<rparr>)" "lists_at m2 (F(l \<mapsto> e # xs @ ys))"
    using m1(2) un dom by fastforce
  from list_append_family [of "s\<lparr>lmem := m1\<rparr>" _ l "xs @ ys" e] obtain m3 where m3:
    "list_append l e (s\<lparr>lmem := m1\<rparr>) = Inr (s\<lparr>lmem := m3\<rparr>)" "lists_at m3 (F(l \<mapsto> xs @ ys @ [e]))"
    using m1(2) un dom by fastforce
  have "elem_find l e (s\<lparr>lmem := m1\<rparr>) = Inr False"
    using elem_find_family [of "s\<lparr>lmem := m1\<rparr>" _ l "xs @ ys" e] m1(2) dl by (auto simp: dlist_def)
  then show ?thesis
    using m1 m2 m3 elem_find_family [OF assms, of e] list_len_family [OF assms]
    by (intro exI [of _ m1] exI [of _ m2] exI [of _ m3]) (simp add: add.commute add.left_commute)
qed

definition two_elems :: machine where
  "two_elems = \<lparr>eflags = 0x202, lmem =
     [0x100 \<mapsto> \<lparr>le_prev = 0, le_next = 0x200\<rparr>, 0x200 \<mapsto> \<lparr>le_prev = 0x100, le_next = 0x300\<rparr>,
      0x300 \<mapsto> \<lparr>le_prev = 0x200, le_next = 0x108\<rparr>, 0x108 \<mapsto> \<lparr>le_prev = 0x300, le_next = 0\<rparr>]\<rparr>"

lemma two_elems_lists: "lists_at (lmem two_elems) [0x100 \<mapsto> [0x200, 0x300]]"
  by (auto simp: lists_at_def dlist_def linked_def two_elems_def list_head_def list_tail_def
           split: if_splits)

theorem list_operations_refine_contents_witness:
  "\<exists>s'. list_remove 0x300 two_elems = Inr s' \<and> elem_find 0x100 0x300 s' = Inr False"
  using list_operations_refine_contents [OF two_elems_lists, of "0x100" "[0x200]" "0x300" "[]"]
  by auto

text \<open>
  A list is a first-in first-out queue: elements appended with \<^verbatim>\<open>list_append\<close> behind the
  contents \<open>xs\<close> are returned by \<^verbatim>\<open>list_pop\<close> after \<open>xs\<close>, in the order they were appended, for any
  elements that exist and are in no list of the memory.
\<close>

theorem list_append_pop_fifo:
  assumes "lists_at (lmem s) (F(l \<mapsto> xs))" "list_admits F l s (xs @ es)"
  shows "\<exists>s' s''. feed (list_append l) es s = Inr s' \<and>
           drain (list_pop l) (length xs + length es) s' = Inr (xs @ es, s'') \<and>
           list_empty l s'' = Inr True"
proof -
  from lq.feed_drain [OF assms] obtain s' s'' where "feed (list_append l) es s = Inr s'"
    "drain (list_pop l) (length xs + length es) s' = Inr (xs @ es, s'')"
    "lists_at (lmem s'') (F(l \<mapsto> []))" by blast
  then show ?thesis using list_empty_family [of s'' "F(l \<mapsto> [])" l "[]"] by auto
qed

theorem list_append_pop_fifo_witness:
  "\<exists>s' s''. feed (list_append 0x100) [] two_elems = Inr s' \<and>
     drain (list_pop 0x100) 2 s' = Inr ([0x200, 0x300], s'')"
proof -
  have "list_admits Map.empty 0x100 two_elems ([0x200, 0x300] @ [])"
    by (auto simp: list_admits_def unlisted_def two_elems_def list_head_def list_tail_def
             split: if_splits)
  with list_append_pop_fifo [of two_elems Map.empty "0x100" "[0x200, 0x300]" "[]"]
    two_elems_lists show ?thesis by (simp add: numeral_2_eq_2) blast
qed

end
