(* ===== verification/Paging.thy ===== *)
theory Paging
  imports Kernel_List
begin

text \<open>
  Two-level page tables, the part of \<^verbatim>\<open>kernel/memory.c\<close> that computes the addresses of table
  entries and reads and clears them. The tables are words of physical memory; \<open>translate\<close> is
  the walk the processor makes from \<^verbatim>\<open>cr3\<close>. The kernel reaches the tables through the last
  directory entry, which points to the directory itself: \<^verbatim>\<open>*pde_ptr(v)\<close> and \<^verbatim>\<open>*pte_ptr(v)\<close>
  are loads and stores at virtual addresses that go through the same walk. The lemmas show
  that they reach the very entries the walk of \<open>v\<close> uses.

  The processor may keep translations in its cache (the TLB) after the tables have changed, until it is told to
  forget a page by \<^verbatim>\<open>invlpg\<close>. The cache is not part of the state, and \<open>translate\<close> is what the tables say;
  \<open>invlpgs\<close> lists the addresses given to \<^verbatim>\<open>invlpg\<close>, the last one first.
\<close>

section \<open>Memory and the processor's walk\<close>

record cpu = machine +
  cr3 :: u32
  pmem :: "u32 \<Rightarrow> u32"
  invlpgs :: "u32 list"

definition PDE_IDX :: "u32 \<Rightarrow> u32" where
  "PDE_IDX addr = drop_bit 22 (addr AND 0xffc00000)"

definition PTE_IDX :: "u32 \<Rightarrow> u32" where
  "PTE_IDX addr = drop_bit 12 (addr AND 0x003ff000)"

definition page_frame :: "u32 \<Rightarrow> u32" where
  "page_frame w = w AND 0xfffff000"

definition page_off :: "u32 \<Rightarrow> u32" where
  "page_off w = w AND 0x00000fff"

definition present :: "u32 \<Rightarrow> bool" where
  "present e \<longleftrightarrow> e AND 0x00000001 \<noteq> 0"

text \<open>The physical addresses of the two entries the walk of \<open>v\<close> looks at.\<close>

definition pde_phys :: "('z) cpu_scheme \<Rightarrow> u32 \<Rightarrow> u32" where
  "pde_phys s v = page_frame (cr3 s) + PDE_IDX v * 4"

definition pte_phys :: "('z) cpu_scheme \<Rightarrow> u32 \<Rightarrow> u32" where
  "pte_phys s v = page_frame (pmem s (pde_phys s v)) + PTE_IDX v * 4"

definition translate :: "('z) cpu_scheme \<Rightarrow> u32 \<Rightarrow> u32 option" where
  "translate s v =
     (if present (pmem s (pde_phys s v)) \<and> present (pmem s (pte_phys s v))
      then Some (page_frame (pmem s (pte_phys s v)) + page_off v) else None)"

text \<open>A load or store at a virtual address; one that is not mapped raises the page fault.\<close>

definition load32 :: "u32 \<Rightarrow> ('z) cpu_scheme \<Rightarrow> u32 res" where
  "load32 v s = mapE (pmem s) (deref (translate s v))"

definition store32 :: "u32 \<Rightarrow> u32 \<Rightarrow> ('z) cpu_scheme \<Rightarrow> ('z) cpu_scheme res" where
  "store32 v w s = mapE (\<lambda>a. s\<lparr>pmem := (pmem s)(a := w)\<rparr>) (deref (translate s v))"

section \<open>Table entries through the directory's own entry\<close>

definition PG_P_1 :: u32 where "PG_P_1 = 1"
definition PG_RW_W :: u32 where "PG_RW_W = 2"
definition PG_US_U :: u32 where "PG_US_U = 4"

definition pte_ptr :: "u32 \<Rightarrow> u32" where
  "pte_ptr vaddr = 0xffc00000 + drop_bit 10 (vaddr AND 0xffc00000) + PTE_IDX vaddr * 4"

definition pde_ptr :: "u32 \<Rightarrow> u32" where
  "pde_ptr vaddr = 0xfffff000 + PDE_IDX vaddr * 4"

definition addr_v2p :: "u32 \<Rightarrow> ('z) cpu_scheme \<Rightarrow> u32 res" where
  "addr_v2p vaddr s =
     mapE (\<lambda>pte. (pte AND 0xfffff000) + (vaddr AND 0x00000fff)) (load32 (pte_ptr vaddr) s)"

text \<open>
  \<^verbatim>\<open>invlpg %0\<close> with the operand \<^verbatim>\<open>"m" (vaddr)\<close> is given the address of the variable \<^verbatim>\<open>vaddr\<close>, not its value: \<open>local\<close>, a word
  of the kernel stack.
\<close>

definition invlpg :: "u32 \<Rightarrow> ('z) cpu_scheme \<Rightarrow> ('z) cpu_scheme" where
  "invlpg a s = s\<lparr>invlpgs := a # invlpgs s\<rparr>"

definition page_table_pte_remove :: "u32 \<Rightarrow> u32 \<Rightarrow> ('z) cpu_scheme \<Rightarrow> ('z) cpu_scheme res" where
  "page_table_pte_remove local vaddr s =
     bindE (load32 (pte_ptr vaddr) s) (\<lambda>pte.
     bindE (store32 (pte_ptr vaddr) (pte AND NOT PG_P_1) s) (\<lambda>s.
     Inr (invlpg local s)))"

text \<open>Whether the processor was told to forget the page of \<open>v\<close>.\<close>

definition flushed :: "('z) cpu_scheme \<Rightarrow> u32 \<Rightarrow> bool" where
  "flushed s v \<longleftrightarrow> page_frame v \<in> page_frame ` set (invlpgs s)"

lemma invlpg_fields [simp]:
  "pmem (invlpg a s) = pmem s" "cr3 (invlpg a s) = cr3 s" "invlpgs (invlpg a s) = a # invlpgs s"
  by (simp_all add: invlpg_def)

lemma translate_invlpg [simp]: "translate (invlpg a s) v = translate s v"
  by (simp add: translate_def pde_phys_def pte_phys_def)

section \<open>The two indices and the offset\<close>

lemma page_masks:
  "(0xffc00000 :: u32) = NOT (mask 22)" "(0x003ff000 :: u32) = push_bit 12 (mask 10)"
  "(0xfffff000 :: u32) = NOT (mask 12)" "(0x00000fff :: u32) = mask 12" "(0x3ff :: u32) = mask 10"
  by (simp_all add: mask_eq_exp_minus_1 push_bit_eq_mult)

named_theorems page_bits \<open>page table addresses bit by bit\<close>

lemma bit_PDE_IDX [page_bits]: "bit (PDE_IDX v) n \<longleftrightarrow> n < 10 \<and> bit v (n + 22)"
  unfolding PDE_IDX_def page_masks by (auto simp: bit_simps ac_simps dest: bit_imp_le_length)

lemma bit_PTE_IDX [page_bits]: "bit (PTE_IDX v) n \<longleftrightarrow> n < 10 \<and> bit v (n + 12)"
  unfolding PTE_IDX_def page_masks by (auto simp: bit_simps ac_simps dest: bit_imp_le_length)

lemma times4: "(w :: u32) * 4 = push_bit 2 w"
  by (simp add: push_bit_eq_mult)

lemma bit_times4 [page_bits]: "bit ((w :: u32) * 4) n \<longleftrightarrow> 2 \<le> n \<and> n < 32 \<and> bit w (n - 2)"
  by (auto simp: times4 bit_push_bit_iff dest: bit_imp_le_length)

lemma bit_page_frame [page_bits]: "bit (page_frame w) n \<longleftrightarrow> 12 \<le> n \<and> bit w n"
  unfolding page_frame_def page_masks by (auto simp: bit_simps dest: bit_imp_le_length)

lemma bit_page_off [page_bits]: "bit (page_off w) n \<longleftrightarrow> n < 12 \<and> bit w n"
  unfolding page_off_def page_masks by (auto simp: bit_simps dest: bit_imp_le_length)

lemma add_disjoint_bits:
  "(\<And>n. \<not> (bit (a :: u32) n \<and> bit b n)) \<Longrightarrow> bit (a + b) n \<longleftrightarrow> bit a n \<or> bit b n"
  by (subst disjunctive_add_eq_or) (auto simp: bit_or_iff intro!: bit_word_eqI simp: bit_and_iff)

lemma bit_entry [page_bits]:
  "bit (page_frame f + PDE_IDX v * 4) n \<longleftrightarrow> (if n < 12 then 2 \<le> n \<and> bit v (n + 20) else bit f n)"
  "bit (page_frame f + PTE_IDX v * 4) n \<longleftrightarrow> (if n < 12 then 2 \<le> n \<and> bit v (n + 10) else bit f n)"
  by (subst add_disjoint_bits; auto simp: page_bits ac_simps dest: bit_imp_le_length)+

lemma bit_frame_off [page_bits]:
  "bit (page_frame f + page_off v) n \<longleftrightarrow> (if n < 12 then bit v n else bit f n)"
  by (subst add_disjoint_bits) (auto simp: page_bits)

lemma bit_pde_ptr [page_bits]:
  "bit (pde_ptr v) n \<longleftrightarrow> n < 32 \<and> (if n < 12 then 2 \<le> n \<and> bit v (n + 20) else True)"
proof -
  have "pde_ptr v = page_frame (- 1) + PDE_IDX v * 4" by (simp add: pde_ptr_def page_frame_def)
  then show ?thesis by (simp add: page_bits bit_minus_1_iff not_le)
qed

lemma bit_pte_ptr [page_bits]:
  "bit (pte_ptr v) n \<longleftrightarrow> n < 32 \<and> (if n < 22 then 2 \<le> n \<and> bit v (n + 10) else True)"
proof -
  have d: "bit (drop_bit 10 (v AND 0xffc00000)) k \<longleftrightarrow> 12 \<le> k \<and> k < 22 \<and> bit v (k + 10)" for k
    unfolding page_masks by (auto simp: bit_simps ac_simps dest: bit_imp_le_length)
  have c: "bit (0xffc00000 :: u32) k \<longleftrightarrow> 22 \<le> k \<and> k < 32" for k
    unfolding page_masks by (auto simp: bit_simps)
  have 1: "bit (0xffc00000 + drop_bit 10 (v AND 0xffc00000)) k \<longleftrightarrow>
             (22 \<le> k \<and> k < 32) \<or> (12 \<le> k \<and> k < 22 \<and> bit v (k + 10))" for k
    by (subst add_disjoint_bits; unfold c d; auto)
  show ?thesis
    unfolding pte_ptr_def
    by (subst add_disjoint_bits; unfold 1; auto simp: page_bits ac_simps dest: bit_imp_le_length)
qed

lemma pde_ptr_indices:
  "PDE_IDX (pde_ptr v) = 0x3ff" "PTE_IDX (pde_ptr v) = 0x3ff" "page_off (pde_ptr v) = PDE_IDX v * 4"
  unfolding page_masks by (rule bit_word_eqI; auto simp: page_bits bit_mask_iff ac_simps)+

lemma pte_ptr_indices:
  "PDE_IDX (pte_ptr v) = 0x3ff" "PTE_IDX (pte_ptr v) = PDE_IDX v" "page_off (pte_ptr v) = PTE_IDX v * 4"
  unfolding page_masks by (rule bit_word_eqI; auto simp: page_bits bit_mask_iff ac_simps)+

section \<open>The window onto the tables\<close>

text \<open>The directory's last entry points to the directory.\<close>

definition self_mapped :: "('z) cpu_scheme \<Rightarrow> bool" where
  "self_mapped s \<longleftrightarrow>
     (let e = pmem s (page_frame (cr3 s) + 0x3ff * 4) in
      present e \<and> page_frame e = page_frame (cr3 s))"

lemma translate_pde_ptr:
  assumes "self_mapped s"
  shows "translate s (pde_ptr v) = Some (pde_phys s v)"
  using assms
  by (simp add: translate_def self_mapped_def pde_phys_def pte_phys_def pde_ptr_indices Let_def)

lemma translate_pte_ptr:
  assumes "self_mapped s"
  shows "translate s (pte_ptr v) =
           (if present (pmem s (pde_phys s v)) then Some (pte_phys s v) else None)"
  using assms
  by (simp add: translate_def self_mapped_def pde_phys_def pte_phys_def pte_ptr_indices Let_def)

lemma load_pde: "self_mapped s \<Longrightarrow> load32 (pde_ptr v) s = Inr (pmem s (pde_phys s v))"
  by (simp add: load32_def translate_pde_ptr)

lemma load_pte:
  "self_mapped s \<Longrightarrow> present (pmem s (pde_phys s v)) \<Longrightarrow>
     load32 (pte_ptr v) s = Inr (pmem s (pte_phys s v))"
  by (simp add: load32_def translate_pte_ptr)

lemma store_pde:
  "self_mapped s \<Longrightarrow> store32 (pde_ptr v) w s = Inr (s\<lparr>pmem := (pmem s)(pde_phys s v := w)\<rparr>)"
  by (simp add: store32_def translate_pde_ptr)

lemma store_pte:
  "self_mapped s \<Longrightarrow> present (pmem s (pde_phys s v)) \<Longrightarrow>
     store32 (pte_ptr v) w s = Inr (s\<lparr>pmem := (pmem s)(pte_phys s v := w)\<rparr>)"
  by (simp add: store32_def translate_pte_ptr)

lemmas window = load_pde load_pte store_pde store_pte

section \<open>What a write to an entry does to the walk\<close>

lemma present_and_not_P [simp]: "\<not> present (w AND NOT PG_P_1)"
  by (simp add: present_def PG_P_1_def and.assoc)

lemma translate_pmem_other:
  assumes "a \<noteq> pde_phys s v" "a \<noteq> pte_phys s v"
  shows "translate (s\<lparr>pmem := (pmem s)(a := w)\<rparr>) v = translate s v"
proof -
  let ?s = "s\<lparr>pmem := (pmem s)(a := w)\<rparr>"
  have pde: "pde_phys ?s v = pde_phys s v" by (simp add: pde_phys_def)
  moreover have pte: "pte_phys ?s v = pte_phys s v" using assms pde by (simp add: pte_phys_def)
  ultimately show ?thesis using assms by (simp add: translate_def)
qed

lemma translate_pte_cleared:
  assumes "\<not> present w"
  shows "translate (s\<lparr>pmem := (pmem s)(pte_phys s v := w)\<rparr>) v = None"
proof -
  let ?s = "s\<lparr>pmem := (pmem s)(pte_phys s v := w)\<rparr>"
  have pde: "pde_phys ?s v = pde_phys s v" by (simp add: pde_phys_def)
  show ?thesis
  proof (cases "pte_phys s v = pde_phys s v")
    case True
    with assms pde show ?thesis by (simp add: translate_def)
  next
    case False
    with pde have "pte_phys ?s v = pte_phys s v" by (simp add: pte_phys_def)
    with assms pde show ?thesis by (simp add: translate_def)
  qed
qed

lemma translate_pte_set:
  assumes "present (pmem s (pde_phys s v))" "present w" "pte_phys s v \<noteq> pde_phys s v"
  shows "translate (s\<lparr>pmem := (pmem s)(pte_phys s v := w)\<rparr>) v = Some (page_frame w + page_off v)"
proof -
  let ?s = "s\<lparr>pmem := (pmem s)(pte_phys s v := w)\<rparr>"
  have pde: "pde_phys ?s v = pde_phys s v" by (simp add: pde_phys_def)
  with assms(3) have "pte_phys ?s v = pte_phys s v" by (simp add: pte_phys_def)
  with assms pde show ?thesis by (simp add: translate_def)
qed

section \<open>Properties\<close>

text \<open>
  C30: with the directory mapped to itself, \<^verbatim>\<open>addr_v2p(v)\<close> returns the physical address the
  processor translates \<open>v\<close> to, for every mapped \<open>v\<close>; a load through \<^verbatim>\<open>pde_ptr(v)\<close> or
  \<^verbatim>\<open>pte_ptr(v)\<close> reads the directory or table entry of \<open>v\<close> itself.
\<close>

theorem addr_v2p_is_translation:
  assumes "self_mapped s" "translate s v = Some p"
  shows "addr_v2p v s = Inr p \<and> load32 (pde_ptr v) s = Inr (pmem s (pde_phys s v)) \<and>
         load32 (pte_ptr v) s = Inr (pmem s (pte_phys s v))"
  using assms by (auto simp: addr_v2p_def window translate_def page_frame_def page_off_def
                       split: if_splits)

definition boot_tables :: cpu where
  "boot_tables = \<lparr>eflags = 0x202, lmem = Map.empty, cr3 = 0x100000,
     pmem = (\<lambda>_. 0)(0x100ffc := 0x100007, 0x100c00 := 0x101007, 0x101004 := 0x1007), invlpgs = []\<rparr>"

theorem addr_v2p_is_translation_witness:
  "addr_v2p 0xc0001234 boot_tables = Inr 0x1234"
  using addr_v2p_is_translation [of boot_tables "0xc0001234" "0x1234"]
  by (simp add: boot_tables_def self_mapped_def translate_def pde_phys_def pte_phys_def PDE_IDX_def
      PTE_IDX_def page_frame_def page_off_def present_def)

text \<open>
  C31: what \<^verbatim>\<open>page_table_pte_remove(v)\<close> does, in the tables and to the processor's cache. For a \<open>v\<close> with a page table, the tables no
  longer map \<open>v\<close>. Every address whose walk ends at the same entry, in \<open>v\<close>'s page or in another directory slot that shares the
  page table (as the loader's slots 0 and 768 do), is unmapped with it; every other address is translated as before, but for those that use the
  entry as a directory entry. The processor is told to forget the page of the local variable and no other: unless \<open>v\<close> lies in that page,
  a cached translation of \<open>v\<close> stays in use.
\<close>

theorem pte_remove_unmaps:
  assumes "self_mapped s" "present (pmem s (pde_phys s v))"
  shows "\<exists>s'. page_table_pte_remove local v s = Inr s' \<and> translate s' v = None \<and>
           (\<forall>v'. pde_phys s v' \<noteq> pte_phys s v \<longrightarrow>
              translate s' v' = (if pte_phys s v' = pte_phys s v then None else translate s v')) \<and>
           invlpgs s' = local # invlpgs s \<and> (flushed s' v \<longleftrightarrow> flushed s v \<or> page_frame local = page_frame v)"
proof -
  let ?s = "s\<lparr>pmem := (pmem s)(pte_phys s v := pmem s (pte_phys s v) AND NOT PG_P_1)\<rparr>"
  have "page_table_pte_remove local v s = Inr (invlpg local ?s)"
    using assms by (simp add: page_table_pte_remove_def window)
  moreover have "translate ?s v = None" by (simp add: translate_pte_cleared)
  moreover have "translate ?s v' = (if pte_phys s v' = pte_phys s v then None else translate s v')"
    if "pde_phys s v' \<noteq> pte_phys s v" for v'
  proof (cases "pte_phys s v' = pte_phys s v")
    case True
    then show ?thesis using translate_pte_cleared [of _ s v'] by simp
  next
    case False
    then show ?thesis using that by (simp add: translate_pmem_other)
  qed
  ultimately show ?thesis by (auto simp: flushed_def)
qed

theorem pte_remove_unmaps_witness:
  "\<exists>s'. page_table_pte_remove 0xc009ed00 0xc0001234 boot_tables = Inr s' \<and> translate s' 0xc0001234 = None \<and>
     \<not> flushed s' 0xc0001234"
  using pte_remove_unmaps [of boot_tables "0xc0001234" "0xc009ed00"]
  by (auto simp: boot_tables_def self_mapped_def pde_phys_def PDE_IDX_def page_frame_def present_def flushed_def)

end
