(* ===== verification/Lib_String.thy ===== *)
theory Lib_String
  imports Kernel_Prelude
begin

text \<open>
  The byte and string routines of \<^verbatim>\<open>lib/string.c\<close>. A pointer argument is \<open>None\<close> for
  \<^verbatim>\<open>NULL\<close> or \<open>Some b\<close>, where \<open>b\<close> holds the bytes from the pointer to the end of the
  object it points into; a routine that writes returns the new bytes, one that returns a
  pointer into its argument returns the offset of that pointer. \<^verbatim>\<open>char\<close> is signed, as
  on the 32-bit x86 target.

  The lemmas describe each routine on strings that end in a zero byte. The main result is
  about \<^verbatim>\<open>strncmp\<close>, which the file system and the shell use for every name comparison:
  with \<^verbatim>\<open>size = strlen(b)\<close> it compares the terminating byte too, so it returns 0 exactly
  for equal strings.
\<close>

section \<open>Memory blocks\<close>

fun memset_loop :: "u8 list \<Rightarrow> u8 \<Rightarrow> nat \<Rightarrow> u8 list res" where
  "memset_loop b v 0 = Inr b"
| "memset_loop [] v (Suc n) = Inl OutOfBounds"
| "memset_loop (x # b) v (Suc n) = mapE (Cons v) (memset_loop b v n)"

definition memset :: "u8 list option \<Rightarrow> u8 \<Rightarrow> u32 \<Rightarrow> u8 list res" where
  "memset dst v sz =
     bindE (ASSERT (dst \<noteq> None)) (\<lambda>_.
     bindE (deref dst) (\<lambda>b. memset_loop b v (unat sz)))"

fun memcpy_loop :: "u8 list \<Rightarrow> u8 list \<Rightarrow> nat \<Rightarrow> u8 list res" where
  "memcpy_loop d s 0 = Inr d"
| "memcpy_loop (x # d) (y # s) (Suc n) = mapE (Cons y) (memcpy_loop d s n)"
| "memcpy_loop d s (Suc n) = Inl OutOfBounds"

definition memcpy :: "u8 list option \<Rightarrow> u8 list option \<Rightarrow> u32 \<Rightarrow> u8 list res" where
  "memcpy dst src sz =
     bindE (ASSERT (dst \<noteq> None \<and> src \<noteq> None)) (\<lambda>_.
     bindE (deref dst) (\<lambda>d. bindE (deref src) (\<lambda>s. memcpy_loop d s (unat sz))))"

fun memcmp_loop :: "u8 list \<Rightarrow> u8 list \<Rightarrow> nat \<Rightarrow> int res" where
  "memcmp_loop a b 0 = Inr 0"
| "memcmp_loop (x # a) (y # b) (Suc n) =
     (if x \<noteq> y then Inr (if sint x > sint y then 1 else -1) else memcmp_loop a b n)"
| "memcmp_loop a b (Suc n) = Inl OutOfBounds"

definition memcmp :: "u8 list option \<Rightarrow> u8 list option \<Rightarrow> u32 \<Rightarrow> int res" where
  "memcmp a b sz =
     bindE (ASSERT (a \<noteq> None \<or> b \<noteq> None)) (\<lambda>_.
     if sz = 0 then Inr 0
     else bindE (deref a) (\<lambda>x. bindE (deref b) (\<lambda>y. memcmp_loop x y (unat sz))))"

section \<open>Strings\<close>

fun strncpy_loop :: "u8 list \<Rightarrow> u8 list \<Rightarrow> nat \<Rightarrow> u8 list res" where
  "strncpy_loop d s 0 = Inr d"
| "strncpy_loop (x # d) (y # s) (Suc n) =
     (if y = 0 then Inr (0 # d) else mapE (Cons y) (strncpy_loop d s n))"
| "strncpy_loop d s (Suc n) = Inl OutOfBounds"

definition strncpy :: "u8 list option \<Rightarrow> u8 list option \<Rightarrow> u32 \<Rightarrow> u8 list res" where
  "strncpy dst src sz =
     bindE (ASSERT (dst \<noteq> None \<and> src \<noteq> None)) (\<lambda>_.
     bindE (deref dst) (\<lambda>d. bindE (deref src) (\<lambda>s. strncpy_loop d s (unat sz))))"

fun strlen_loop :: "u8 list \<Rightarrow> nat res" where
  "strlen_loop [] = Inl OutOfBounds"
| "strlen_loop (c # s) = (if c = 0 then Inr 0 else mapE Suc (strlen_loop s))"

definition strlen :: "u8 list option \<Rightarrow> u32 res" where
  "strlen str =
     bindE (ASSERT (str \<noteq> None)) (\<lambda>_.
     bindE (deref str) (\<lambda>s. mapE of_nat (strlen_loop s)))"

text \<open>The comparison after the loop of \<^verbatim>\<open>strncmp\<close>: \<^verbatim>\<open>*a < *b ? -1 : *a > *b\<close>.\<close>

fun cmp_first :: "u8 list \<Rightarrow> u8 list \<Rightarrow> int res" where
  "cmp_first (x # a) (y # b) = Inr (if sint x < sint y then -1 else if sint x > sint y then 1 else 0)"
| "cmp_first a b = Inl OutOfBounds"

fun strncmp_loop :: "u8 list \<Rightarrow> u8 list \<Rightarrow> nat \<Rightarrow> int res" where
  "strncmp_loop a b 0 = cmp_first a b"
| "strncmp_loop [] b (Suc n) = Inl OutOfBounds"
| "strncmp_loop (x # a) b (Suc n) =
     (if x = 0 then cmp_first (x # a) b
      else (case b of [] \<Rightarrow> Inl OutOfBounds
            | y # b' \<Rightarrow> if x = y then strncmp_loop a b' n else cmp_first (x # a) b))"

definition strncmp :: "u8 list option \<Rightarrow> u8 list option \<Rightarrow> u32 \<Rightarrow> int res" where
  "strncmp a b sz =
     bindE (ASSERT (a \<noteq> None \<and> b \<noteq> None)) (\<lambda>_.
     bindE (deref a) (\<lambda>x. bindE (deref b) (\<lambda>y. strncmp_loop x y (unat sz))))"

text \<open>
  \<^verbatim>\<open>*str == ch\<close> compares a signed \<^verbatim>\<open>char\<close> with a \<^verbatim>\<open>uint8_t\<close>, both widened to \<^verbatim>\<open>int\<close>.
\<close>

definition char_is :: "u8 \<Rightarrow> u8 \<Rightarrow> bool" where
  "char_is c ch \<longleftrightarrow> sint c = uint ch"

fun strchr_loop :: "u8 list \<Rightarrow> u8 \<Rightarrow> nat \<Rightarrow> nat option res" where
  "strchr_loop [] ch i = Inl OutOfBounds"
| "strchr_loop (c # s) ch i =
     (if c = 0 then Inr None else if char_is c ch then Inr (Some i) else strchr_loop s ch (Suc i))"

definition strchr :: "u8 list option \<Rightarrow> u8 \<Rightarrow> nat option res" where
  "strchr str ch =
     bindE (ASSERT (str \<noteq> None)) (\<lambda>_. bindE (deref str) (\<lambda>s. strchr_loop s ch 0))"

fun strrchr_loop :: "u8 list \<Rightarrow> u8 \<Rightarrow> nat \<Rightarrow> nat option \<Rightarrow> nat option res" where
  "strrchr_loop [] ch i lc = Inl OutOfBounds"
| "strrchr_loop (c # s) ch i lc =
     (if c = 0 then Inr lc
      else strrchr_loop s ch (Suc i) (if char_is c ch then Some i else lc))"

definition strrchr :: "u8 list option \<Rightarrow> u8 \<Rightarrow> nat option res" where
  "strrchr str ch =
     bindE (ASSERT (str \<noteq> None)) (\<lambda>_. bindE (deref str) (\<lambda>s. strrchr_loop s ch 0 None))"

text \<open>The second loop of \<^verbatim>\<open>strcat\<close> copies up to and including the zero byte of \<open>src\<close>.\<close>

fun strcpy_loop :: "u8 list \<Rightarrow> u8 list \<Rightarrow> u8 list res" where
  "strcpy_loop (x # d) (y # s) =
     (if y = 0 then Inr (0 # d) else mapE (Cons y) (strcpy_loop d s))"
| "strcpy_loop d s = Inl OutOfBounds"

definition strcat :: "u8 list option \<Rightarrow> u8 list option \<Rightarrow> u8 list res" where
  "strcat dst src =
     bindE (ASSERT (dst \<noteq> None \<and> src \<noteq> None)) (\<lambda>_.
     bindE (deref dst) (\<lambda>d. bindE (deref src) (\<lambda>s.
     bindE (strlen_loop d) (\<lambda>n. at_off n (\<lambda>b. strcpy_loop b s) d))))"

fun strchrs_loop :: "u8 list \<Rightarrow> u8 \<Rightarrow> u32 \<Rightarrow> u32 res" where
  "strchrs_loop [] ch n = Inl OutOfBounds"
| "strchrs_loop (c # s) ch n =
     (if c = 0 then Inr n else strchrs_loop s ch (if char_is c ch then n + 1 else n))"

definition strchrs :: "u8 list option \<Rightarrow> u8 \<Rightarrow> u32 res" where
  "strchrs str ch =
     bindE (ASSERT (str \<noteq> None)) (\<lambda>_. bindE (deref str) (\<lambda>s. strchrs_loop s ch 0))"

section \<open>C strings\<close>

text \<open>Bytes of a string literal, and a string held in a buffer with \<open>r\<close> after it.\<close>

definition str :: "string \<Rightarrow> u8 list" where
  "str s = map of_char s"

definition nul_free :: "u8 list \<Rightarrow> bool" where
  "nul_free s \<longleftrightarrow> 0 \<notin> set s"

lemma nul_free_simps [simp]:
  "nul_free []"
  "nul_free (c # s) \<longleftrightarrow> c \<noteq> 0 \<and> nul_free s"
  "nul_free (s @ t) \<longleftrightarrow> nul_free s \<and> nul_free t"
  by (auto simp: nul_free_def)

text \<open>Literals: bytes and characters correspond.\<close>

lemma of_char_word_eq: "(of_char c :: u8) = of_char d \<longleftrightarrow> c = d"
proof
  assume "(of_char c :: u8) = of_char d"
  then have "(of_nat (of_char c) :: u8) = of_nat (of_char d)" by (simp add: of_nat_of_char)
  moreover have "(of_char c :: nat) < 256" "(of_char d :: nat) < 256" by (simp_all add: nat_of_char_less_256)
  ultimately have "(of_char c :: nat) = of_char d"
    by (auto simp: of_nat_eq_iff dest!: arg_cong [of _ _ unat] simp: unat_of_nat)
  then show "c = d" by simp
qed simp

lemma str_eq_iff: "str a = str b \<longleftrightarrow> a = b"
  unfolding str_def by (rule inj_map_eq_map) (simp add: inj_def of_char_word_eq)

lemma nul_free_str: "nul_free (str n) \<longleftrightarrow> CHR 0x00 \<notin> set n"
proof -
  have "(of_char c :: u8) = 0 \<longleftrightarrow> c = CHR 0x00" for c
    using of_char_word_eq [of c "CHR 0x00"] by (simp add: of_char_def [of "CHR 0x00"])
  then show ?thesis by (auto simp: nul_free_def str_def image_iff)
qed

section \<open>What the routines compute\<close>

lemma memset_loop_eq: "n \<le> length b \<Longrightarrow> memset_loop b v n = Inr (replicate n v @ drop n b)"
  by (induction b v n rule: memset_loop.induct) simp_all

lemma memset_eq [simp]:
  "unat sz \<le> length b \<Longrightarrow> memset (Some b) v sz = Inr (replicate (unat sz) v @ drop (unat sz) b)"
  by (simp add: memset_def memset_loop_eq)

lemma memset_loop_overrun: "length b < n \<Longrightarrow> memset_loop b v n = Inl OutOfBounds"
  by (induction b v n rule: memset_loop.induct) simp_all

lemma memcpy_loop_eq:
  "n \<le> length d \<Longrightarrow> n \<le> length s \<Longrightarrow> memcpy_loop d s n = Inr (take n s @ drop n d)"
  by (induction d s n rule: memcpy_loop.induct) auto

lemma memcpy_eq [simp]:
  "unat sz \<le> length d \<Longrightarrow> unat sz \<le> length s \<Longrightarrow>
     memcpy (Some d) (Some s) sz = Inr (take (unat sz) s @ drop (unat sz) d)"
  by (simp add: memcpy_def memcpy_loop_eq)

lemma memcmp_loop_zero_iff:
  "n \<le> length a \<Longrightarrow> n \<le> length b \<Longrightarrow> memcmp_loop a b n = Inr 0 \<longleftrightarrow> take n a = take n b"
  by (induction a b n rule: memcmp_loop.induct) auto

lemma memcmp_zero_iff:
  "unat sz \<le> length a \<Longrightarrow> unat sz \<le> length b \<Longrightarrow>
     memcmp (Some a) (Some b) sz = Inr 0 \<longleftrightarrow> take (unat sz) a = take (unat sz) b"
  by (simp add: memcmp_def memcmp_loop_zero_iff)

lemma strlen_loop_cstr [simp]: "nul_free s \<Longrightarrow> strlen_loop (s @ 0 # r) = Inr (length s)"
  by (induction s) auto

lemma strlen_loop_iff:
  "strlen_loop b = Inr n \<longleftrightarrow> (\<exists>s r. b = s @ 0 # r \<and> nul_free s \<and> length s = n)"
proof
  show "strlen_loop b = Inr n \<Longrightarrow> \<exists>s r. b = s @ 0 # r \<and> nul_free s \<and> length s = n"
  proof (induction b arbitrary: n)
    case (Cons c b)
    show ?case
    proof (cases "c = 0")
      case True
      with Cons.prems show ?thesis by (intro exI [of _ "[]"] exI [of _ b]) simp
    next
      case False
      with Cons obtain s r where "b = s @ 0 # r" "nul_free s" "n = Suc (length s)"
        by (fastforce simp: res_simps)
      with False show ?thesis by (intro exI [of _ "c # s"] exI [of _ r]) simp
    qed
  qed simp
qed auto

lemma strlen_cstr [simp]: "nul_free s \<Longrightarrow> strlen (Some (s @ 0 # r)) = Inr (of_nat (length s))"
  by (simp add: strlen_def)

lemma strncpy_loop_cstr:
  "nul_free s \<Longrightarrow> n \<le> length s \<Longrightarrow> n \<le> length d \<Longrightarrow>
     strncpy_loop d (s @ t) n = Inr (take n s @ drop n d)"
  by (induction d s n rule: strncpy_loop.induct) auto

lemma strncpy_loop_whole:
  "nul_free s \<Longrightarrow> length s < n \<Longrightarrow> length s < length d \<Longrightarrow>
     strncpy_loop d (s @ 0 # t) n = Inr (s @ 0 # drop (Suc (length s)) d)"
proof (induction s arbitrary: d n)
  case Nil
  then show ?case by (cases d; cases n) auto
next
  case (Cons c s)
  then show ?case by (cases d; cases n) auto
qed

text \<open>
  The loop of \<^verbatim>\<open>strncmp\<close> leaves \<open>a\<close> and \<open>b\<close> one past the last equal byte, so the final
  comparison looks at byte number \<open>size\<close>: the routine compares \<open>size + 1\<close> bytes.
\<close>

lemma sint_inj [simp]: "sint (x :: u8) = sint y \<longleftrightarrow> x = y"
  by (auto intro: signed_word_eqI)

lemma sint_zero_iff [simp]: "sint (x :: u8) = 0 \<longleftrightarrow> x = 0" "0 = sint (x :: u8) \<longleftrightarrow> x = 0"
  using sint_inj [of x 0] by (auto simp del: sint_inj)

lemma cmp_first_zero_iff: "cmp_first (x # a) (y # b) = Inr 0 \<longleftrightarrow> x = y"
  by (auto simp: not_less antisym)

lemma strncmp_loop_zero_iff:
  assumes "nul_free s" "nul_free t"
  shows "strncmp_loop (s @ 0 # r) (t @ 0 # r') n = Inr 0 \<longleftrightarrow> take (Suc n) s = take (Suc n) t"
  using assms
proof (induction n arbitrary: s t)
  case 0
  then show ?case by (cases s; cases t) auto
next
  case (Suc n)
  then show ?case by (cases s; cases t) (auto simp del: take_Suc_Cons simp: take_Suc_Cons)
qed

lemma strncmp_zero_iff:
  "nul_free s \<Longrightarrow> nul_free t \<Longrightarrow>
     strncmp (Some (s @ 0 # r)) (Some (t @ 0 # r')) sz = Inr 0 \<longleftrightarrow>
     take (Suc (unat sz)) s = take (Suc (unat sz)) t"
  by (simp add: strncmp_def strncmp_loop_zero_iff)

lemma strncmp_name_eq:
  assumes "nul_free s" "nul_free t" "length t < 2 ^ 32"
  shows "strncmp (Some (s @ 0 # r)) (Some (t @ 0 # r')) (of_nat (length t)) = Inr 0 \<longleftrightarrow> s = t"
    (is "?cmp \<longleftrightarrow> _")
proof -
  have "?cmp \<longleftrightarrow> take (Suc (length t)) s = t"
    using assms by (simp add: strncmp_zero_iff unat_of_nat32)
  also have "\<dots> \<longleftrightarrow> s = t"
  proof
    assume eq: "take (Suc (length t)) s = t"
    from arg_cong [OF this, of length] have "length s = length t"
      by (simp add: min_def split: if_splits)
    with eq show "s = t" by simp
  qed simp
  finally show ?thesis .
qed

lemma strncmp_loop_returns: "\<exists>c. strncmp_loop (s @ 0 # r) (t @ 0 # r') n = Inr c"
proof (induction n arbitrary: s t)
  case 0
  then show ?case by (cases s; cases t) auto
next
  case (Suc n)
  then show ?case by (cases s; cases t) auto
qed

text \<open>With the length of one of the strings for its size, the routine tells whether the strings are equal.\<close>

lemma strncmp_is_eq:
  assumes "nul_free s" "nul_free t" "unat sz = length s \<or> unat sz = length t"
  obtains c where "strncmp (Some (s @ 0 # r)) (Some (t @ 0 # r')) sz = Inr c" "c = 0 \<longleftrightarrow> s = t"
proof -
  obtain c where c: "strncmp (Some (s @ 0 # r)) (Some (t @ 0 # r')) sz = Inr c"
    using strncmp_loop_returns [of s r t r' "unat sz"] by (auto simp: strncmp_def)
  then have "c = 0 \<longleftrightarrow> take (Suc (unat sz)) s = take (Suc (unat sz)) t"
    using strncmp_zero_iff [OF assms(1,2), of r r' sz] by simp
  also have "\<dots> \<longleftrightarrow> s = t"
  proof
    assume eq: "take (Suc (unat sz)) s = take (Suc (unat sz)) t"
    from arg_cong [OF this, of length] have "length s = length t" using assms(3) by (auto simp: min_def split: if_splits)
    with eq assms(3) show "s = t" by auto
  qed simp
  finally show thesis using that c by blast
qed

lemma strchr_loop_none:
  "nul_free s \<Longrightarrow> \<forall>c\<in>set s. \<not> char_is c ch \<Longrightarrow> strchr_loop (s @ 0 # r) ch i = Inr None"
  by (induction s arbitrary: i) auto

lemma strchr_loop_first:
  "nul_free (s @ [c]) \<Longrightarrow> char_is c ch \<Longrightarrow> \<forall>c\<in>set s. \<not> char_is c ch \<Longrightarrow>
     strchr_loop (s @ c # r) ch i = Inr (Some (i + length s))"
  by (induction s arbitrary: i) auto

lemma strrchr_loop_none:
  "nul_free s \<Longrightarrow> \<forall>c\<in>set s. \<not> char_is c ch \<Longrightarrow> strrchr_loop (s @ 0 # r) ch i lc = Inr lc"
  by (induction s arbitrary: i) auto

lemma strrchr_loop_last:
  "nul_free (s @ c # t) \<Longrightarrow> char_is c ch \<Longrightarrow> \<forall>c\<in>set t. \<not> char_is c ch \<Longrightarrow>
     strrchr_loop (s @ c # t @ 0 # r) ch i lc = Inr (Some (i + length s))"
  by (induction s arbitrary: i lc) (auto simp: strrchr_loop_none)

lemma strrchr_last:
  "nul_free (s @ c # t) \<Longrightarrow> char_is c ch \<Longrightarrow> \<forall>c\<in>set t. \<not> char_is c ch \<Longrightarrow>
     strrchr (Some (s @ c # t @ 0 # r)) ch = Inr (Some (length s))"
  by (simp add: strrchr_def strrchr_loop_last)

lemma strcpy_loop_cstr:
  "nul_free s \<Longrightarrow> length s < length d \<Longrightarrow>
     strcpy_loop d (s @ 0 # r) = Inr (s @ 0 # drop (Suc (length s)) d)"
proof (induction s arbitrary: d)
  case Nil
  then show ?case by (cases d) auto
next
  case (Cons c s)
  then show ?case by (cases d) auto
qed

lemma strcat_cstr:
  assumes "nul_free s" "nul_free t" "length t \<le> length r"
  shows "strcat (Some (s @ 0 # r)) (Some (t @ 0 # r')) =
         Inr (s @ t @ 0 # drop (length t) r)"
  using assms by (simp add: strcat_def at_off_def strcpy_loop_cstr)

lemma strcat_overrun:
  assumes "nul_free s" "nul_free t" "length r < length t"
  shows "strcat (Some (s @ 0 # r)) (Some (t @ 0 # r')) = Inl OutOfBounds"
proof -
  have "strcpy_loop d (t @ 0 # r') = Inl OutOfBounds" if "length d \<le> length t" for d
    using that assms(2)
  proof (induction t arbitrary: d)
    case (Cons c t)
    then show ?case by (cases d) auto
  qed auto
  with assms show ?thesis by (simp add: strcat_def at_off_def)
qed

lemma strchrs_loop_cstr:
  "nul_free s \<Longrightarrow> strchrs_loop (s @ 0 # r) ch n =
     Inr (n + of_nat (length (filter (\<lambda>c. char_is c ch) s)))"
  by (induction s arbitrary: n) auto

lemma char_is_ascii: "ch < 128 \<Longrightarrow> char_is c ch \<longleftrightarrow> c = ch"
proof -
  assume "ch < 128"
  then have "uint ch < 128" by (simp add: word_less_def)
  moreover have "- 128 \<le> uint ch" by (rule order_trans [OF _ uint_ge_0]) simp
  ultimately have "sint ch = uint ch"
    by (simp add: sint_uint signed_take_bit_int_eq_self_iff)
  then show ?thesis by (metis char_is_def sint_inj)
qed

lemma char_is_high: "128 \<le> ch \<Longrightarrow> \<not> char_is c ch"
proof -
  assume "128 \<le> ch"
  then have "128 \<le> uint ch" by (simp add: word_le_def)
  moreover have "sint c < 128" using sint_lt [of c] by simp
  ultimately show ?thesis by (simp add: char_is_def)
qed

section \<open>Properties\<close>

text \<open>
  The comparison the directory code makes, \<^verbatim>\<open>strncmp(a, name, strlen(name))\<close>, is zero
  exactly when the two strings are equal: the byte after the last one of \<open>name\<close> is compared
  too, so a longer string that starts with \<open>name\<close> is told apart.
\<close>

theorem strncmp_strlen_is_equality:
  assumes "nul_free s" "nul_free name" "length name < 2 ^ 32"
  shows "bindE (strlen (Some (name @ 0 # r')))
           (\<lambda>n. strncmp (Some (s @ 0 # r)) (Some (name @ 0 # r')) n) = Inr 0 \<longleftrightarrow> s = name"
  using assms by (simp add: strncmp_name_eq)

theorem strncmp_strlen_is_equality_witness:
  "bindE (strlen (Some (str ''dir'' @ [0])))
     (\<lambda>n. strncmp (Some (str ''dir1'' @ [0])) (Some (str ''dir'' @ [0])) n) \<noteq> Inr 0"
  using strncmp_strlen_is_equality [of "str ''dir1''" "str ''dir''" "[]" "[]"]
  by (simp add: str_def nul_free_def of_char_def)

text \<open>
  On strings, \<^verbatim>\<open>strncmp(a, b, size)\<close> is zero exactly when the first \<open>size + 1\<close> bytes
  agree, one more than \<^verbatim>\<open>string.h\<close> documents.
\<close>

theorem strncmp_compares_one_more:
  assumes "nul_free s" "nul_free t"
  shows "strncmp (Some (s @ 0 # r)) (Some (t @ 0 # r')) sz = Inr 0 \<longleftrightarrow>
         take (Suc (unat sz)) s = take (Suc (unat sz)) t"
  using assms by (rule strncmp_zero_iff)

theorem strncmp_compares_one_more_witness:
  "strncmp (Some (str ''ab'' @ [0])) (Some (str ''ac'' @ [0])) 1 \<noteq> Inr 0"
  using strncmp_compares_one_more [of "str ''ab''" "str ''ac''" "[]" "[]" 1]
  by (simp add: str_def nul_free_def of_char_def)

end
