(* ===== verification/Bitmap.thy ===== *)
theory Bitmap
  imports Lib_String
begin

text \<open>
  The bitmaps of \<^verbatim>\<open>lib/kernel/bitmap.c\<close>, which hand out physical pages, virtual pages,
  inodes and disk blocks. The field \<open>bits\<close> holds the memory from the pointer on: at least
  \<open>bmap_bytes_len\<close> bytes, and whatever follows them in the same object, because the scan
  for several bits looks one bit past the end. An \<^verbatim>\<open>int\<close> result is a 32-bit word, \<open>-1\<close>
  for the failure value.

  \<open>bit_used\<close> is the abstract view: the set of bits that are taken. The lemmas give each
  operation in terms of it; the locale \<open>slot_pool\<close> is the contract the page, inode and
  block allocators build on.
\<close>

section \<open>Operations\<close>

record bitmap =
  bmap_bytes_len :: u32
  bits :: "u8 list"

definition BITMAP_MASK :: u8 where
  "BITMAP_MASK = 1"

definition bitmap_init :: "bitmap \<Rightarrow> bitmap res" where
  "bitmap_init bm = mapE (\<lambda>b. bm\<lparr>bits := b\<rparr>) (memset (Some (bits bm)) 0 (bmap_bytes_len bm))"

definition bitmap_scan_test :: "bitmap \<Rightarrow> u32 \<Rightarrow> bool res" where
  "bitmap_scan_test bm bit_idx =
     (let byte_idx = bit_idx div 8; bit_odd = bit_idx mod 8 in
      bindE (read_at (bits bm) (unat byte_idx)) (\<lambda>b.
      Inr (b AND push_bit (unat bit_odd) BITMAP_MASK \<noteq> 0)))"

text \<open>The first loop of \<^verbatim>\<open>bitmap_scan\<close>; the byte is read before the index is checked.\<close>

function scan_byte :: "u8 list \<Rightarrow> nat \<Rightarrow> nat \<Rightarrow> nat res" where
  "scan_byte b len idx =
     (if idx < length b
      then (if b ! idx = 0xff \<and> idx < len then scan_byte b len (Suc idx) else Inr idx)
      else Inl OutOfBounds)"
  by pat_completeness auto
termination
  by (relation "measure (\<lambda>(b, len, idx). length b - idx)") auto

text \<open>The second loop: \<^verbatim>\<open>(uint8_t)(1 << idx_bit)\<close> is 0 from \<open>idx_bit = 8\<close> on.\<close>

function scan_bit :: "u8 \<Rightarrow> nat \<Rightarrow> nat" where
  "scan_bit b idx = (if push_bit idx BITMAP_MASK AND b \<noteq> 0 then scan_bit b (Suc idx) else idx)"
  by pat_completeness auto
termination
proof (relation "measure (\<lambda>(b, idx). 8 - idx)", goal_cases)
  case (2 b idx)
  have "idx < 8"
  proof (rule ccontr)
    assume "\<not> idx < 8"
    then have "push_bit idx BITMAP_MASK = 0"
      by (intro bit_word_eqI) (auto simp: bit_simps BITMAP_MASK_def)
    with 2 show False by simp
  qed
  then show ?case by simp
qed simp

text \<open>The third loop; \<open>n\<close> counts \<^verbatim>\<open>bit_left\<close> down.\<close>

fun scan_run :: "bitmap \<Rightarrow> u32 \<Rightarrow> nat \<Rightarrow> u32 \<Rightarrow> u32 \<Rightarrow> u32 res" where
  "scan_run bm cnt 0 next_bit count = Inr (-1)"
| "scan_run bm cnt (Suc n) next_bit count =
     bindE (bitmap_scan_test bm next_bit) (\<lambda>t.
     let count = (if \<not> t then count + 1 else 0) in
     if count = cnt then Inr (next_bit - cnt + 1)
     else scan_run bm cnt n (next_bit + 1) count)"

definition bitmap_scan :: "bitmap \<Rightarrow> u32 \<Rightarrow> u32 res" where
  "bitmap_scan bm cnt =
     bindE (scan_byte (bits bm) (unat (bmap_bytes_len bm)) 0) (\<lambda>idx_byte.
     bindE (ASSERT (idx_byte < unat (bmap_bytes_len bm))) (\<lambda>_.
     if idx_byte = unat (bmap_bytes_len bm) then Inr (-1)
     else
       let idx_bit = scan_bit (bits bm ! idx_byte) 0;
           bit_idx_start = of_nat idx_byte * 8 + of_nat idx_bit
       in if cnt = 1 then Inr bit_idx_start
          else scan_run bm cnt (unat (bmap_bytes_len bm * 8 - bit_idx_start))
                 (bit_idx_start + 1) 1))"

definition bitmap_set :: "bitmap \<Rightarrow> u32 \<Rightarrow> u8 \<Rightarrow> bitmap res" where
  "bitmap_set bm bit_idx v =
     bindE (ASSERT (v = 0 \<or> v = 1)) (\<lambda>_.
     let byte_idx = bit_idx div 8; bit_odd = bit_idx mod 8;
         mask = push_bit (unat bit_odd) BITMAP_MASK
     in bindE (read_at (bits bm) (unat byte_idx)) (\<lambda>b.
        bindE (write_at (bits bm) (unat byte_idx)
                 (if v \<noteq> 0 then b OR mask else b AND NOT mask)) (\<lambda>bs.
        Inr (bm\<lparr>bits := bs\<rparr>))))"

declare scan_byte.simps [simp del] scan_bit.simps [simp del]

section \<open>The set of used bits\<close>

text \<open>
  A bitmap is well formed when its bytes exist and every bit has an index that fits an
  \<^verbatim>\<open>int\<close>: the kernel's largest bitmap has \<open>2 ^ 20\<close> bits.
\<close>

definition bitmap_ok :: "bitmap \<Rightarrow> bool" where
  "bitmap_ok bm \<longleftrightarrow> unat (bmap_bytes_len bm) \<le> length (bits bm) \<and> unat (bmap_bytes_len bm) < 2 ^ 28"

definition bit_at :: "u8 list \<Rightarrow> nat \<Rightarrow> bool" where
  "bit_at b i \<longleftrightarrow> bit (b ! (i div 8)) (i mod 8)"

definition nbits :: "bitmap \<Rightarrow> nat" where
  "nbits bm = 8 * unat (bmap_bytes_len bm)"

definition bit_used :: "bitmap \<Rightarrow> nat set" where
  "bit_used bm = {i. i < nbits bm \<and> bit_at (bits bm) i}"

named_theorems bitmap_simps \<open>operations on bitmaps in terms of the used bits\<close>

lemma mask_and_nonzero: "(b :: u8) AND push_bit n BITMAP_MASK \<noteq> 0 \<longleftrightarrow> bit b n"
  by (simp only: BITMAP_MASK_def bit_iff_and_push_bit_not_eq_0)

lemma finite_bit_used [simp]: "finite (bit_used bm)"
  by (simp add: bit_used_def)

lemma bitmap_ok_index:
  "bitmap_ok bm \<Longrightarrow> i < nbits bm \<Longrightarrow> i div 8 < length (bits bm) \<and> i < 2 ^ 31"
  by (auto simp: bitmap_ok_def nbits_def)

lemma scan_test_eq:
  assumes "unat i div 8 < length (bits bm)"
  shows "bitmap_scan_test bm i = Inr (bit_at (bits bm) (unat i))"
  using assms mask_and_nonzero [of _ "unat i mod 8"]
  by (simp add: bitmap_scan_test_def Let_def bit_at_def unat_div unat_mod)

lemma scan_test_used [bitmap_simps]:
  "bitmap_ok bm \<Longrightarrow> unat i < nbits bm \<Longrightarrow> bitmap_scan_test bm i = Inr (unat i \<in> bit_used bm)"
  using bitmap_ok_index [of bm "unat i"] by (simp add: scan_test_eq bit_used_def)

section \<open>Setting a bit\<close>

lemma bit_at_update:
  assumes "i div 8 < length b"
  shows "bit_at (b[i div 8 := x]) j =
         (if j div 8 = i div 8 then bit x (j mod 8) else bit_at b j)"
  using assms by (auto simp: bit_at_def)

lemma div_mod_8_eq: "j div 8 = i div 8 \<Longrightarrow> j mod 8 = i mod 8 \<longleftrightarrow> j = (i :: nat)"
  by (metis mult_div_mod_eq)

lemma bitmap_set_bits:
  assumes "unat i div 8 < length (bits bm)"
  shows "\<exists>b. bitmap_set bm i (if v then 1 else 0) = Inr (bm\<lparr>bits := b\<rparr>) \<and>
             length b = length (bits bm) \<and>
             (\<forall>j. bit_at b j = (if j = unat i then v else bit_at (bits bm) j))"
proof -
  define k where "k = unat i"
  let ?b = "(bits bm)[k div 8 := (if v then bits bm ! (k div 8) OR push_bit (k mod 8) BITMAP_MASK
      else bits bm ! (k div 8) AND NOT (push_bit (k mod 8) BITMAP_MASK))]"
  have "bitmap_set bm i (if v then 1 else 0) = Inr (bm\<lparr>bits := ?b\<rparr>)"
    using assms by (simp add: bitmap_set_def Let_def unat_div unat_mod k_def)
  moreover have "bit_at ?b j = (if j = k then v else bit_at (bits bm) j)" for j
  proof (cases "j div 8 = k div 8")
    case True
    then have "j mod 8 < 8" "j mod 8 = k mod 8 \<longleftrightarrow> j = k" by (auto simp: div_mod_8_eq)
    with True assms show ?thesis
      by (auto simp: bit_at_update bit_simps BITMAP_MASK_def bit_at_def k_def)
  next
    case False
    with assms show ?thesis by (auto simp: bit_at_update k_def)
  qed
  ultimately show ?thesis
    by (intro exI [of _ ?b] conjI) (simp_all only: k_def length_list_update simp_thms)
qed

text \<open>
  Inside the bitmap, \<^verbatim>\<open>bitmap_set\<close> adds or removes one index and touches nothing else.
\<close>

lemma bitmap_set_used:
  assumes "bitmap_ok bm" "unat i < nbits bm"
  obtains bm' where "bitmap_set bm i (if v then 1 else 0) = Inr bm'" "bitmap_ok bm'"
    "nbits bm' = nbits bm" "bmap_bytes_len bm' = bmap_bytes_len bm"
    "length (bits bm') = length (bits bm)"
    "bit_used bm' = (if v then insert (unat i) (bit_used bm) else bit_used bm - {unat i})"
    "\<forall>j. j \<noteq> unat i \<longrightarrow> bit_at (bits bm') j = bit_at (bits bm) j"
proof -
  obtain b where b: "bitmap_set bm i (if v then 1 else 0) = Inr (bm\<lparr>bits := b\<rparr>)"
    "length b = length (bits bm)"
    "\<And>j. bit_at b j = (if j = unat i then v else bit_at (bits bm) j)"
    using bitmap_set_bits bitmap_ok_index [OF assms] by blast
  have "bit_used (bm\<lparr>bits := b\<rparr>) = (if v then insert (unat i) (bit_used bm) else bit_used bm - {unat i})"
    using assms(2) by (auto simp: bit_used_def nbits_def b)
  with b assms show ?thesis
    by (intro that [of "bm\<lparr>bits := b\<rparr>"]) (auto simp: bitmap_ok_def nbits_def)
qed

lemma bitmap_set_1:
  assumes "bitmap_ok bm" "unat i < nbits bm"
  shows "\<exists>bm'. bitmap_set bm i 1 = Inr bm' \<and> bitmap_ok bm' \<and> nbits bm' = nbits bm \<and>
           bmap_bytes_len bm' = bmap_bytes_len bm \<and> length (bits bm') = length (bits bm) \<and>
           bit_used bm' = insert (unat i) (bit_used bm)"
  by (rule bitmap_set_used [OF assms, of True]) simp

lemma bitmap_set_0:
  assumes "bitmap_ok bm" "unat i < nbits bm"
  shows "\<exists>bm'. bitmap_set bm i 0 = Inr bm' \<and> bitmap_ok bm' \<and> nbits bm' = nbits bm \<and>
           bmap_bytes_len bm' = bmap_bytes_len bm \<and> length (bits bm') = length (bits bm) \<and>
           bit_used bm' = bit_used bm - {unat i}"
  by (rule bitmap_set_used [OF assms, of False]) simp

section \<open>Scanning for one bit\<close>

lemma scan_byte_found:
  assumes "idx \<le> k" "k < len" "k < length b" "b ! k \<noteq> 0xff" "\<forall>j. idx \<le> j \<and> j < k \<longrightarrow> b ! j = 0xff"
  shows "scan_byte b len idx = Inr k"
  using assms
proof (induction b len idx rule: scan_byte.induct)
  case (1 b len idx)
  show ?case
  proof (cases "idx = k")
    case True
    with 1 show ?thesis by (simp add: scan_byte.simps [of b len k])
  next
    case False
    with 1 have "idx < length b" "b ! idx = 0xff \<and> idx < len" "Suc idx \<le> k" by auto
    with 1 show ?thesis by (simp add: scan_byte.simps [of b len idx])
  qed
qed

lemma scan_byte_full:
  assumes "idx \<le> len" "len < length b" "\<forall>j. idx \<le> j \<and> j < len \<longrightarrow> b ! j = 0xff"
  shows "scan_byte b len idx = Inr len"
  using assms
proof (induction b len idx rule: scan_byte.induct)
  case (1 b len idx)
  then show ?case
    by (cases "idx = len") (simp_all add: scan_byte.simps [of b len idx] scan_byte.simps [of b len len])
qed

lemma scan_bit_least:
  assumes "idx \<le> k" "k < 8" "\<not> bit b k" "\<forall>j. idx \<le> j \<and> j < k \<longrightarrow> bit b j"
  shows "scan_bit b idx = k"
  using assms
proof (induction b idx rule: scan_bit.induct)
  case (1 b idx)
  have "push_bit idx BITMAP_MASK AND b \<noteq> 0 \<longleftrightarrow> bit b idx"
    using mask_and_nonzero [of b idx] by (simp add: and.commute)
  with 1 show ?case
    by (cases "idx = k") (simp_all add: scan_bit.simps [of b idx] scan_bit.simps [of b k])
qed

lemma u8_full_iff: "b = (0xff :: u8) \<longleftrightarrow> (\<forall>n<8. bit b n)"
proof -
  have "(0xff :: u8) = - 1" by simp
  then show ?thesis by (simp only:) (auto simp: bit_eq_iff)
qed

definition first_free :: "bitmap \<Rightarrow> nat" where
  "first_free bm = (LEAST i. i \<notin> bit_used bm)"

lemma first_free_le: "first_free bm \<le> nbits bm"
  unfolding first_free_def by (rule Least_le) (simp add: bit_used_def)

lemma first_free_notin: "first_free bm \<notin> bit_used bm"
  unfolding first_free_def by (rule LeastI [of _ "nbits bm"]) (simp add: bit_used_def)

lemma first_free_below: "j < first_free bm \<Longrightarrow> j \<in> bit_used bm"
  unfolding first_free_def using not_less_Least by blast

lemma first_free_lt: "i < nbits bm \<Longrightarrow> i \<notin> bit_used bm \<Longrightarrow> first_free bm < nbits bm"
  by (metis first_free_below linorder_not_le order_le_less_trans)

lemma bitmap_scan_one:
  assumes ok: "bitmap_ok bm" and free: "first_free bm < nbits bm"
  shows "bitmap_scan bm 1 = Inr (of_nat (first_free bm))"
proof -
  let ?k = "first_free bm" and ?b = "bits bm" and ?len = "unat (bmap_bytes_len bm)"
  have k: "?k div 8 < ?len" "?k div 8 < length ?b" "?k mod 8 < 8"
    using ok free by (auto simp: bitmap_ok_def nbits_def)
  have used: "bit_at ?b j" if "j < ?k" for j
    using first_free_below [OF that] by (simp add: bit_used_def)
  have not: "\<not> bit_at ?b ?k"
    using first_free_notin [of bm] free by (simp add: bit_used_def)
  have before: "?b ! j = 0xff" if "j < ?k div 8" for j
  proof -
    have "bit_at ?b (8 * j + n)" if "n < 8" for n
      using used [of "8 * j + n"] that \<open>j < ?k div 8\<close> by linarith
    then show ?thesis by (simp add: u8_full_iff bit_at_def)
  qed
  have cur: "?b ! (?k div 8) \<noteq> 0xff"
    using not k(3) unfolding u8_full_iff bit_at_def by blast
  have "scan_byte ?b ?len 0 = Inr (?k div 8)"
    using k before cur by (intro scan_byte_found) auto
  moreover have "scan_bit (?b ! (?k div 8)) 0 = ?k mod 8"
  proof (rule scan_bit_least)
    show "\<forall>j. 0 \<le> j \<and> j < ?k mod 8 \<longrightarrow> bit (?b ! (?k div 8)) j"
    proof (intro allI impI)
      fix j assume "0 \<le> j \<and> j < ?k mod 8"
      then have "8 * (?k div 8) + j < ?k" "j < 8"
        by (metis add_less_cancel_left mult_div_mod_eq, simp)
      then show "bit (?b ! (?k div 8)) j" using used [of "8 * (?k div 8) + j"] by (simp add: bit_at_def)
    qed
  qed (use not k in \<open>auto simp: bit_at_def\<close>)
  moreover have "of_nat (?k div 8) * 8 + of_nat (?k mod 8) = (of_nat ?k :: u32)"
    by (metis div_mult_mod_eq of_nat_add of_nat_mult of_nat_numeral)
  ultimately show ?thesis
    using k by (simp add: bitmap_scan_def Let_def)
qed

text \<open>
  A full bitmap stops the kernel: the \<^verbatim>\<open>ASSERT\<close> before the test for \<^verbatim>\<open>-1\<close> fails first, so
  the failure value the header promises is never returned.
\<close>

lemma full_bytes:
  assumes "bit_used bm = {..<nbits bm}" "j < unat (bmap_bytes_len bm)"
  shows "bits bm ! j = 0xff"
proof -
  have "8 * j + n \<in> bit_used bm" if "n < 8" for n
    using that assms(2) by (simp add: assms(1) nbits_def)
  then show ?thesis by (auto simp: u8_full_iff bit_used_def bit_at_def)
qed

lemma bitmap_scan_full:
  assumes "bit_used bm = {..<nbits bm}" "unat (bmap_bytes_len bm) < length (bits bm)"
  shows "bitmap_scan bm cnt = Inl Panic"
  using assms full_bytes [OF assms(1)] by (simp add: bitmap_scan_def scan_byte_full)

lemma scan_byte_overrun:
  assumes "length b \<le> len" "\<forall>j < length b. b ! j = 0xff"
  shows "scan_byte b len idx = Inl OutOfBounds"
  using assms
proof (induction b len idx rule: scan_byte.induct)
  case (1 b len idx)
  show ?case
  proof (cases "idx < length b")
    case True
    with 1 have "b ! idx = 0xff \<and> idx < len" by simp
    with True 1 show ?thesis by (simp add: scan_byte.simps [of b len idx])
  qed (simp add: scan_byte.simps [of b len idx])
qed

lemma bitmap_scan_full_error:
  assumes "bitmap_ok bm" "bit_used bm = {..<nbits bm}"
  shows "\<exists>e. bitmap_scan bm cnt = Inl e"
proof (cases "unat (bmap_bytes_len bm) < length (bits bm)")
  case True
  with bitmap_scan_full [OF assms(2)] show ?thesis by simp
next
  case False
  with assms have "scan_byte (bits bm) (unat (bmap_bytes_len bm)) 0 = Inl OutOfBounds"
    by (intro scan_byte_overrun allI impI full_bytes) (simp_all add: bitmap_ok_def)
  then show ?thesis by (simp add: bitmap_scan_def)
qed

section \<open>Scanning for a run of bits\<close>

text \<open>A run of \<open>n\<close> clear bits from \<open>s\<close> on.\<close>

definition clear_run :: "bitmap \<Rightarrow> nat \<Rightarrow> nat \<Rightarrow> bool" where
  "clear_run bm s n \<longleftrightarrow> (\<forall>j. s \<le> j \<and> j < s + n \<longrightarrow> \<not> bit_at (bits bm) j)"

definition run_result :: "bitmap \<Rightarrow> nat \<Rightarrow> nat \<Rightarrow> nat \<Rightarrow> u32 \<Rightarrow> bool" where
  "run_result bm cnt lo hi r \<longleftrightarrow>
     (if r = -1 then \<forall>s. lo \<le> s \<and> s + cnt \<le> hi \<longrightarrow> \<not> clear_run bm s cnt
      else lo \<le> unat r \<and> unat r + cnt \<le> hi \<and> clear_run bm (unat r) cnt \<and>
           (\<forall>s. lo \<le> s \<and> s < unat r \<longrightarrow> \<not> clear_run bm s cnt))"

lemma run_result_lower:
  "run_result bm cnt lo' hi r \<Longrightarrow> lo \<le> lo' \<Longrightarrow>
     (\<And>s. lo \<le> s \<Longrightarrow> s < lo' \<Longrightarrow> \<not> clear_run bm s cnt) \<Longrightarrow> run_result bm cnt lo hi r"
  unfolding run_result_def by (metis (no_types, lifting) linorder_not_le order_trans)

lemma scan_run_correct:
  assumes "unat nb + n < 2 ^ 31" "unat nb + n \<le> 8 * length (bits bm)"
    and "unat count < unat cnt" "unat count \<le> unat nb"
    and "clear_run bm (unat nb - unat count) (unat count)"
  shows "\<exists>r. scan_run bm cnt n nb count = Inr r \<and>
           run_result bm (unat cnt) (unat nb - unat count) (unat nb + n) r"
  using assms
proof (induction n arbitrary: nb count)
  case 0
  then show ?case by (auto simp: run_result_def)
next
  case (Suc n)
  have nb1: "unat (nb + 1) = unat nb + 1" using Suc.prems by (simp add: unat_word_ariths)
  have test: "bitmap_scan_test bm nb = Inr (bit_at (bits bm) (unat nb))"
    using Suc.prems by (intro scan_test_eq) linarith
  show ?case
  proof (cases "bit_at (bits bm) (unat nb)")
    case True
    have "cnt \<noteq> 0" using Suc.prems(3) by auto
    with True test have run: "scan_run bm cnt (Suc n) nb count = scan_run bm cnt n (nb + 1) 0"
      by (auto simp: Let_def)
    have "clear_run bm (unat nb + 1) 0" by (auto simp: clear_run_def)
    then obtain r where r: "scan_run bm cnt n (nb + 1) 0 = Inr r"
      "run_result bm (unat cnt) (unat nb + 1) (unat nb + 1 + n) r"
      using Suc.IH [of "nb + 1" 0] Suc.prems nb1 by auto
    have "\<not> clear_run bm s (unat cnt)" if "unat nb - unat count \<le> s" "s < unat nb + 1" for s
    proof -
      have "s \<le> unat nb \<and> unat nb < s + unat cnt" using that Suc.prems(3,4) by linarith
      with True show ?thesis unfolding clear_run_def by blast
    qed
    from run_result_lower [OF r(2) _ this] r(1) run show ?thesis by auto
  next
    case False
    have c1: "unat (count + 1) = unat count + 1"
      using Suc.prems(3) unat_u32_lt [of cnt] by (simp add: unat_word_ariths)
    have clear: "clear_run bm (unat nb - unat count) (unat count + 1)"
      using Suc.prems(4,5) False by (auto simp: clear_run_def less_Suc_eq)
    show ?thesis
    proof (cases "count + 1 = cnt")
      case True
      have cn: "unat cnt = unat count + 1" using c1 True by simp
      have "cnt \<le> nb + 1" using cn nb1 Suc.prems(4) by (simp add: word_le_nat_alt)
      then have r: "unat (nb - cnt + 1) = unat nb - unat count"
        using unat_sub_no_wrap32 [of cnt "nb + 1"] cn nb1 by (simp add: algebra_simps)
      moreover have "nb - cnt + 1 \<noteq> -1"
        using r Suc.prems(1) by (intro unat_lt_not_minus_1) simp
      ultimately have "run_result bm (unat cnt) (unat nb - unat count) (unat nb + Suc n) (nb - cnt + 1)"
        using clear cn Suc.prems by (auto simp: run_result_def)
      with True False test show ?thesis by (auto simp: Let_def)
    next
      case no: False
      with False test have run: "scan_run bm cnt (Suc n) nb count = scan_run bm cnt n (nb + 1) (count + 1)"
        by (auto simp: Let_def)
      have "unat (count + 1) \<noteq> unat cnt" using no unsigned_word_eqI by blast
      with Suc.prems nb1 c1 clear Suc.IH [of "nb + 1" "count + 1"] run show ?thesis by simp
    qed
  qed
qed

text \<open>
  The whole scan for two or more bits. The loop tests the bits after the first free one,
  up to and including bit number \<open>nbits\<close>: one past the end of the bitmap.
\<close>

lemma bitmap_scan_many:
  assumes ok: "bitmap_ok bm" and free: "first_free bm < nbits bm" and cnt: "1 < unat cnt"
    and tail: "unat (bmap_bytes_len bm) < length (bits bm)"
  shows "\<exists>r. bitmap_scan bm cnt = Inr r \<and>
             run_result bm (unat cnt) (first_free bm) (nbits bm + 1) r"
proof -
  let ?k = "first_free bm" and ?len = "bmap_bytes_len bm"
  obtain idx where idx: "scan_byte (bits bm) (unat ?len) 0 = Inr idx" "idx < unat ?len"
    "of_nat idx * 8 + of_nat (scan_bit (bits bm ! idx) 0) = (of_nat ?k :: u32)"
    using bitmap_scan_one [OF ok free]
    by (auto simp: bitmap_scan_def res_simps Let_def split: if_splits)
  have k: "unat (of_nat ?k :: u32) = ?k" "?k < 2 ^ 31"
    using ok free by (auto simp: bitmap_ok_def nbits_def intro!: unat_of_nat32)
  have k1: "unat (of_nat ?k + 1 :: u32) = ?k + 1"
    using k by (simp add: unat_word_ariths)
  have len8: "unat (?len * 8) = nbits bm"
    using ok by (simp add: bitmap_ok_def nbits_def unat_word_ariths)
  have left: "unat (?len * 8 - of_nat ?k) = nbits bm - ?k"
    using len8 k free by (subst unat_sub_no_wrap32) (auto simp: word_le_nat_alt)
  have "\<exists>r. scan_run bm cnt (nbits bm - ?k) (of_nat ?k + 1) 1 = Inr r \<and>
     run_result bm (unat cnt) (unat (of_nat ?k + 1 :: u32) - unat (1 :: u32))
       (unat (of_nat ?k + 1 :: u32) + (nbits bm - ?k)) r"
  proof (rule scan_run_correct)
    have "\<not> bit_at (bits bm) ?k" using first_free_notin [of bm] free by (simp add: bit_used_def)
    then show "clear_run bm (unat (of_nat ?k + 1 :: u32) - unat (1 :: u32)) (unat (1 :: u32))"
      unfolding k1 by (auto simp: clear_run_def less_Suc_eq_le dest: le_antisym)
  qed (use ok free cnt tail k1 in \<open>auto simp: bitmap_ok_def nbits_def\<close>)
  moreover have "cnt \<noteq> 1" using cnt by auto
  ultimately show ?thesis
    using idx left k1 free by (simp add: bitmap_scan_def Let_def)
qed

section \<open>The contract of the allocators\<close>

text \<open>
  Page frames, inodes and disk blocks are handed out the same way: find the first free slot,
  mark it, return it. What such an allocator promises, over any state that has slots:
\<close>

text \<open>\<open>n\<close> allocations in a row.\<close>

fun alloc_many :: "('s \<Rightarrow> (nat \<times> 's) res) \<Rightarrow> nat \<Rightarrow> 's \<Rightarrow> (nat list \<times> 's) res" where
  "alloc_many alloc 0 s = Inr ([], s)"
| "alloc_many alloc (Suc n) s =
     bindE (alloc s) (\<lambda>(i, s'). mapE (\<lambda>(ks, s''). (i # ks, s'')) (alloc_many alloc n s'))"

locale slot_pool =
  fixes invar :: "'s \<Rightarrow> bool"
    and capacity :: "'s \<Rightarrow> nat"
    and used :: "'s \<Rightarrow> nat set"
    and alloc :: "'s \<Rightarrow> (nat \<times> 's) res"
    and release :: "'s \<Rightarrow> nat \<Rightarrow> 's res"
  assumes used_bound: "invar s \<Longrightarrow> used s \<subseteq> {..<capacity s}"
    and alloc_ok: "invar s \<Longrightarrow> used s \<noteq> {..<capacity s} \<Longrightarrow>
      \<exists>s'. alloc s = Inr (LEAST i. i \<notin> used s, s') \<and> invar s' \<and> capacity s' = capacity s \<and>
           used s' = insert (LEAST i. i \<notin> used s) (used s)"
    and alloc_full: "invar s \<Longrightarrow> used s = {..<capacity s} \<Longrightarrow> \<exists>e. alloc s = Inl e"
    and release_ok: "invar s \<Longrightarrow> i < capacity s \<Longrightarrow>
      \<exists>s'. release s i = Inr s' \<and> invar s' \<and> capacity s' = capacity s \<and> used s' = used s - {i}"
begin

lemma least_free:
  assumes "invar s" "used s \<noteq> {..<capacity s}"
  shows "(LEAST i. i \<notin> used s) \<notin> used s" "(LEAST i. i \<notin> used s) < capacity s"
proof -
  obtain i where i: "i \<notin> used s" "i < capacity s"
    using assms used_bound by blast
  from i(1) show "(LEAST i. i \<notin> used s) \<notin> used s" by (rule LeastI)
  have "(LEAST i. i \<notin> used s) \<le> i" using i(1) by (rule Least_le)
  with i(2) show "(LEAST i. i \<notin> used s) < capacity s" by simp
qed

lemma alloc_fresh:
  assumes "invar s" "alloc s = Inr (i, s')"
  shows "i \<notin> used s \<and> i < capacity s \<and> used s' = insert i (used s) \<and> invar s' \<and>
         capacity s' = capacity s"
proof -
  have "used s \<noteq> {..<capacity s}" using assms alloc_full by fastforce
  with assms alloc_ok [of s] least_free [of s] show ?thesis by auto
qed

lemma alloc_release:
  assumes "invar s" "alloc s = Inr (i, s')"
  shows "\<exists>s''. release s' i = Inr s'' \<and> invar s'' \<and> capacity s'' = capacity s \<and> used s'' = used s"
  using alloc_fresh [OF assms] release_ok [of s' i] by auto

lemma alloc_many_distinct:
  assumes "invar s" "alloc_many alloc n s = Inr (ks, s')"
  shows "distinct ks \<and> length ks = n \<and> set ks \<inter> used s = {} \<and> set ks \<subseteq> {..<capacity s} \<and>
         used s' = used s \<union> set ks \<and> invar s' \<and> capacity s' = capacity s"
  using assms
proof (induction n arbitrary: s ks)
  case (Suc n)
  then obtain i s1 ks' where "alloc s = Inr (i, s1)" "alloc_many alloc n s1 = Inr (ks', s')" "ks = i # ks'"
    by (auto simp: res_simps split: prod.splits)
  with Suc.IH [of s1 ks'] alloc_fresh [OF Suc.prems(1)] show ?case by auto
qed simp

lemma alloc_many_total:
  "invar s \<Longrightarrow> card (used s) + n \<le> capacity s \<Longrightarrow> \<exists>ks s'. alloc_many alloc n s = Inr (ks, s')"
proof (induction n arbitrary: s)
  case (Suc n)
  have "card (used s) \<noteq> card {..<capacity s}" using Suc.prems(2) by simp
  then have "used s \<noteq> {..<capacity s}" by metis
  from alloc_ok [OF Suc.prems(1) this] obtain i s1 where a: "alloc s = Inr (i, s1)" by blast
  have "finite (used s)" by (rule finite_subset [OF used_bound [OF Suc.prems(1)]]) simp
  with alloc_fresh [OF Suc.prems(1) a] Suc.prems(2) have "invar s1" "card (used s1) + n \<le> capacity s1"
    by auto
  then obtain ks s2 where "alloc_many alloc n s1 = Inr (ks, s2)" using Suc.IH by blast
  with a show ?case by simp
qed simp

end

text \<open>The bitmap itself, allocating one bit with \<^verbatim>\<open>bitmap_scan(bmap, 1)\<close> and \<^verbatim>\<open>bitmap_set\<close>.\<close>

definition bitmap_take :: "bitmap \<Rightarrow> (u32 \<times> bitmap) res" where
  "bitmap_take bm = bindE (bitmap_scan bm 1) (\<lambda>i. mapE (\<lambda>bm'. (i, bm')) (bitmap_set bm i 1))"

lemma not_full_first_free: "bit_used bm \<noteq> {..<nbits bm} \<Longrightarrow> first_free bm < nbits bm"
  using first_free_lt [of _ bm] by (auto simp: bit_used_def)

lemma bitmap_take_ok:
  assumes ok: "bitmap_ok bm" and free: "first_free bm < nbits bm"
  obtains bm' where "bitmap_take bm = Inr (of_nat (first_free bm), bm')" "bitmap_ok bm'"
    "nbits bm' = nbits bm" "bmap_bytes_len bm' = bmap_bytes_len bm"
    "length (bits bm') = length (bits bm)"
    "bit_used bm' = insert (first_free bm) (bit_used bm)"
proof -
  have k: "unat (of_nat (first_free bm) :: u32) = first_free bm"
    using bitmap_ok_index [OF ok free] by (intro unat_of_nat32) simp
  with bitmap_set_1 [OF ok, of "of_nat (first_free bm)"] free obtain bm' where
    "bitmap_set bm (of_nat (first_free bm)) 1 = Inr bm'" "bitmap_ok bm'" "nbits bm' = nbits bm"
    "bmap_bytes_len bm' = bmap_bytes_len bm" "length (bits bm') = length (bits bm)"
    "bit_used bm' = insert (first_free bm) (bit_used bm)"
    by auto
  then show ?thesis
    by (intro that [of bm']) (simp_all add: bitmap_take_def bitmap_scan_one [OF ok free])
qed

interpretation bm: slot_pool bitmap_ok nbits bit_used
  "\<lambda>bm. mapE (\<lambda>(i, bm'). (unat i, bm')) (bitmap_take bm)"
  "\<lambda>bm i. bitmap_set bm (of_nat i) 0"
proof (unfold_locales, goal_cases)
  case (1 s)
  then show ?case by (auto simp: bit_used_def)
next
  case (2 s)
  then have free: "first_free s < nbits s" by (intro not_full_first_free)
  then have "unat (of_nat (first_free s) :: u32) = first_free s"
    using bitmap_ok_index [OF 2(1) free] by (intro unat_of_nat32) simp
  with bitmap_take_ok [OF 2(1) free] show ?case
    by (metis (no_types, lifting) case_prod_conv first_free_def mapE_simps(2))
next
  case (3 s)
  with bitmap_scan_full_error [of s 1] show ?case by (auto simp: bitmap_take_def)
next
  case (4 s i)
  then have "unat (of_nat i :: u32) = i"
    using bitmap_ok_index [of s i] by (intro unat_of_nat32) simp
  with 4 bitmap_set_0 [of s "of_nat i"] show ?case by auto
qed

section \<open>Properties\<close>

text \<open>
  Setting a bit of a well-formed bitmap to 0 or 1 makes exactly that bit read back as the
  value; every other bit of the bitmap reads as before, and the bitmap stays well formed.
\<close>

theorem bitmap_set_test_roundtrip:
  assumes "bitmap_ok bm" "unat i < nbits bm" "unat j < nbits bm"
  shows "\<exists>bm'. bitmap_set bm i (if v then 1 else 0) = Inr bm' \<and> bitmap_ok bm' \<and>
           bitmap_scan_test bm' j = (if j = i then Inr v else bitmap_scan_test bm j)"
proof -
  obtain bm' where bm': "bitmap_set bm i (if v then 1 else 0) = Inr bm'" "bitmap_ok bm'"
    "nbits bm' = nbits bm"
    "bit_used bm' = (if v then insert (unat i) (bit_used bm) else bit_used bm - {unat i})"
    by (rule bitmap_set_used [OF assms(1,2), of v])
  have "bitmap_scan_test bm' j = Inr (unat j \<in> bit_used bm')"
    using bm' assms by (intro scan_test_used) simp_all
  moreover have "bitmap_scan_test bm j = Inr (unat j \<in> bit_used bm)"
    using assms by (intro scan_test_used)
  moreover have "unat j = unat i \<longleftrightarrow> j = i" by (metis unsigned_word_eqI)
  ultimately have "bitmap_scan_test bm' j = (if j = i then Inr v else bitmap_scan_test bm j)"
    by (simp add: bm'(4))
  with bm'(1,2) show ?thesis by blast
qed

theorem bitmap_set_test_roundtrip_witness:
  "\<exists>bm'. bitmap_set \<lparr>bmap_bytes_len = 2, bits = [5, 0]\<rparr> 9 1 = Inr bm' \<and> bitmap_ok bm' \<and>
     bitmap_scan_test bm' 2 = Inr True"
  using bitmap_set_test_roundtrip [of "\<lparr>bmap_bytes_len = 2, bits = [5, 0]\<rparr>" 9 2 True]
  by (simp add: bitmap_ok_def nbits_def bitmap_scan_test_def BITMAP_MASK_def)

text \<open>
  On a well-formed bitmap with a free bit, \<^verbatim>\<open>bitmap_scan(bmap, 1)\<close> returns the smallest
  index that is free, and on a full bitmap (with a byte of memory after it) it panics: the
  documented failure value -1 is never returned.
\<close>

theorem bitmap_scan_one_first_free:
  assumes "bitmap_ok bm"
  shows "if \<exists>i < nbits bm. i \<notin> bit_used bm
         then bitmap_scan bm 1 = Inr (of_nat (LEAST i. i \<notin> bit_used bm))
         else unat (bmap_bytes_len bm) < length (bits bm) \<longrightarrow> bitmap_scan bm 1 = Inl Panic"
proof (cases "\<exists>i < nbits bm. i \<notin> bit_used bm")
  case True
  with assms show ?thesis
    using bitmap_scan_one first_free_lt first_free_def by auto
next
  case False
  then have "bit_used bm = {..<nbits bm}" by (auto simp: bit_used_def)
  with False show ?thesis using bitmap_scan_full by simp
qed

theorem bitmap_scan_one_first_free_witness:
  "bitmap_scan \<lparr>bmap_bytes_len = 2, bits = [0xff, 0x05]\<rparr> 1 =
     Inr (of_nat (LEAST i. i \<notin> bit_used \<lparr>bmap_bytes_len = 2, bits = [0xff, 0x05]\<rparr>))"
proof -
  have "\<exists>i < nbits \<lparr>bmap_bytes_len = 2, bits = [0xff, 0x05]\<rparr>.
          i \<notin> bit_used \<lparr>bmap_bytes_len = 2, bits = [0xff, 0x05]\<rparr>"
    by (rule exI [of _ 9]) (simp add: nbits_def bit_used_def bit_at_def)
  then show ?thesis
    using bitmap_scan_one_first_free [of "\<lparr>bmap_bytes_len = 2, bits = [0xff, 0x05]\<rparr>"]
    by (simp add: bitmap_ok_def)
qed

text \<open>
  C25: \<^verbatim>\<open>bitmap_scan(bmap, cnt)\<close>, for \<open>cnt\<close> at least 1 and a bitmap with a byte of memory behind it. A full bitmap stops the kernel, although
  \<^verbatim>\<open>bitmap.h\<close> promises \<open>-1\<close>. Otherwise the result is the first run of \<open>cnt\<close> clear bits, or \<open>-1\<close> when there is none, among the bits the function
  looks at: for one bit those of the bitmap, for more than one also the bit just behind the end, so that
  the last bit of the run need not belong to the bitmap (\<open>bitmap_scan_past_end\<close> is such a case).
\<close>

theorem bitmap_scan_run_correct:
  assumes "bitmap_ok bm" "0 < unat cnt" "unat (bmap_bytes_len bm) < length (bits bm)"
  shows "if bit_used bm = {..<nbits bm} then bitmap_scan bm cnt = Inl Panic
         else \<exists>r. bitmap_scan bm cnt = Inr r \<and>
           (let seen = (if cnt = 1 then nbits bm else nbits bm + 1) in
            if r = -1 then \<forall>s. s + unat cnt \<le> seen \<longrightarrow> \<not> clear_run bm s (unat cnt)
            else unat r + unat cnt \<le> seen \<and> clear_run bm (unat r) (unat cnt) \<and>
                 (\<forall>s < unat r. \<not> clear_run bm s (unat cnt)))"
proof (cases "bit_used bm = {..<nbits bm}")
  case True
  then show ?thesis using bitmap_scan_full assms(3) by simp
next
  case False
  then have free: "first_free bm < nbits bm" using first_free_lt [of _ bm] by (auto simp: bit_used_def)
  have below: "\<not> clear_run bm s (unat cnt)" if "s < first_free bm" for s
    using first_free_below [OF that] assms(2) unfolding clear_run_def bit_used_def by fastforce
  have clear: "\<not> bit_at (bits bm) (first_free bm)"
    using first_free_notin [of bm] free by (simp add: bit_used_def)
  show ?thesis
  proof (cases "cnt = 1")
    case True
    have "unat (of_nat (first_free bm) :: u32) = first_free bm" "(of_nat (first_free bm) :: u32) \<noteq> -1"
      using bitmap_ok_index [OF assms(1) free] by (auto intro!: unat_of_nat32 unat_lt_not_minus_1 simp: unat_of_nat32)
    moreover have "clear_run bm (first_free bm) 1" using clear by (auto simp: clear_run_def less_Suc_eq_le dest: le_antisym)
    ultimately show ?thesis
      using bitmap_scan_one [OF assms(1) free] False free below True
      by (intro if_not_P [THEN iffD2] exI [of _ "of_nat (first_free bm)"]) (simp_all add: Let_def)
  next
    case many: False
    then have "1 < unat cnt" using assms(2) by (metis less_one linorder_neqE_nat not_less_eq One_nat_def unat_1 unsigned_word_eqI less_antisym)
    with bitmap_scan_many [OF assms(1) free _ assms(3)] obtain r where r: "bitmap_scan bm cnt = Inr r"
      "run_result bm (unat cnt) (first_free bm) (nbits bm + 1) r" by blast
    then have "run_result bm (unat cnt) 0 (nbits bm + 1) r" by (rule_tac run_result_lower) (auto dest: below)
    with r(1) many False show ?thesis by (auto simp: run_result_def Let_def)
  qed
qed

theorem bitmap_scan_run_correct_witness:
  "\<exists>r. bitmap_scan \<lparr>bmap_bytes_len = 2, bits = [0x3f, 0xfe, 0xff]\<rparr> 3 = Inr r \<and>
     (if r = -1 then \<forall>s. s + 3 \<le> 17 \<longrightarrow> \<not> clear_run \<lparr>bmap_bytes_len = 2, bits = [0x3f, 0xfe, 0xff]\<rparr> s 3
      else clear_run \<lparr>bmap_bytes_len = 2, bits = [0x3f, 0xfe, 0xff]\<rparr> (unat r) 3)"
proof -
  define bm where "bm = \<lparr>bmap_bytes_len = (2 :: u32), bits = [0x3f, 0xfe, 0xff]\<rparr>"
  have n: "nbits bm = 16" by (simp add: nbits_def bm_def)
  have "6 \<notin> bit_used bm" by (simp add: bit_used_def bit_at_def bm_def)
  moreover have "6 \<in> {..<nbits bm}" by (simp add: n)
  ultimately have full: "bit_used bm \<noteq> {..<nbits bm}" by metis
  have "bitmap_ok bm" "0 < unat (3 :: u32)" "unat (bmap_bytes_len bm) < length (bits bm)"
    and three: "(3 :: u32) \<noteq> 1" by (simp_all add: bitmap_ok_def bm_def)
  from bitmap_scan_run_correct [OF this(1-3)] obtain r where r: "bitmap_scan bm 3 = Inr r"
    "if r = -1 then \<forall>s. s + unat (3 :: u32) \<le> nbits bm + 1 \<longrightarrow> \<not> clear_run bm s (unat (3 :: u32))
     else unat r + unat (3 :: u32) \<le> nbits bm + 1 \<and> clear_run bm (unat r) (unat (3 :: u32)) \<and>
       (\<forall>s < unat r. \<not> clear_run bm s (unat (3 :: u32)))"
    unfolding if_not_P [OF full] Let_def if_not_P [OF three] by (elim exE conjE)
  then have "bitmap_scan bm 3 = Inr r \<and> (if r = -1 then \<forall>s. s + 3 \<le> 17 \<longrightarrow> \<not> clear_run bm s 3 else clear_run bm (unat r) 3)"
    by (cases "r = -1") (simp_all add: n)
  then show ?thesis unfolding bm_def by blast
qed

text \<open>
  The scan for a run looks one bit past the end: with one bitmap byte whose last bit is
  free and a clear bit in the byte after it, a request for two bits returns index 7, a run
  whose second bit is outside the bitmap.
\<close>

theorem bitmap_scan_past_end:
  "bitmap_scan \<lparr>bmap_bytes_len = 1, bits = [0x7f, 0x00]\<rparr> 2 = Inr 7 \<and>
   nbits \<lparr>bmap_bytes_len = 1, bits = [0x7f, 0x00]\<rparr> = 8"
  by code_simp

end
