(* ===== verification/Thread.thy ===== *)
theory Thread
  imports Paging Bitmap
begin

text \<open>
  The scheduler: \<^verbatim>\<open>thread/thread.c\<close> from \<^verbatim>\<open>running_thread\<close> to \<^verbatim>\<open>thread_yield\<close>, with the parts of
  \<^verbatim>\<open>user_process/process.c\<close> and \<^verbatim>\<open>user_process/tss.c\<close> a switch goes through. A thread is the
  address of its \<^verbatim>\<open>task_struct\<close>, the start of its page; the queues hold the addresses of the
  \<^verbatim>\<open>list_elem\<close> tags inside it. Which thread runs is read from the stack pointer, as in the
  code.

  A function that calls \<^verbatim>\<open>schedule\<close> does not return to its caller until the thread is
  scheduled again. Its result here is the state in which the processor goes on, in the next
  thread: that thread comes out of its own switch and restores the interrupt status it had
  saved, the field \<open>saved_intr\<close> of the model (a new thread starts with interrupts on).

  \<open>sched_spec\<close> is the scheduler seen from above, on a list of ready threads. The refinement
  lemma says that \<^verbatim>\<open>schedule\<close> does exactly that, with no failed assertion, from every state
  that satisfies the invariant, which it keeps.
\<close>

section \<open>Threads\<close>

datatype task_status =
  TASK_RUNNING | TASK_READY | TASK_BLOCKED | TASK_WAITING | TASK_HANGING | TASK_DIED

record virtual_addr =
  vaddr_bitmap :: bitmap
  vaddr_start :: u32

text \<open>
  The links of the two tags are in the list memory, and the seven block descriptors are at their
  own addresses, 68 bytes into the structure (see the memory component).
\<close>

record task_struct =
  self_kernel_stack :: u32
  pid :: "16 word"
  status :: task_status
  tname :: "u8 list"
  priority :: u8
  ticks :: u8
  elapsed_ticks :: u32
  pg_dir :: u32
  user_process_vaddr :: virtual_addr
  fd_table :: "u32 list"
  cwd_inode_nr :: u32
  parent_pid :: "16 word"
  stack_magic :: u32

text \<open>\<open>thread_ready_list\<close> and \<open>thread_all_list\<close> are the addresses of the two static lists.\<close>

record tstate = cpu +
  esp :: u32
  tss_esp0 :: u32
  tasks :: "u32 \<rightharpoonup> task_struct"
  main_thread :: u32
  idle_thread :: u32
  thread_ready_list :: u32
  thread_all_list :: u32
  saved_intr :: "u32 \<Rightarrow> intr_status"

text \<open>The offsets of the tags in \<^verbatim>\<open>struct task_struct\<close>.\<close>

definition general_tag :: "u32 \<Rightarrow> u32" where
  "general_tag pcb = pcb + 36"

definition all_list_tag :: "u32 \<Rightarrow> u32" where
  "all_list_tag pcb = pcb + 44"

definition elem2entry_general :: "u32 \<Rightarrow> u32" where
  "elem2entry_general e = e - 36"

definition elem2entry_all :: "u32 \<Rightarrow> u32" where
  "elem2entry_all e = e - 44"

definition get_task :: "u32 \<Rightarrow> ('z) tstate_scheme \<Rightarrow> task_struct res" where
  "get_task p s = deref (tasks s p)"

definition upd_task ::
  "u32 \<Rightarrow> (task_struct \<Rightarrow> task_struct) \<Rightarrow> ('z) tstate_scheme \<Rightarrow> ('z) tstate_scheme res" where
  "upd_task p f s = mapE (\<lambda>t. s\<lparr>tasks := (tasks s)(p \<mapsto> f t)\<rparr>) (get_task p s)"

definition running_thread :: "('z) tstate_scheme \<Rightarrow> u32" where
  "running_thread s = esp s AND 0xfffff000"

section \<open>Switching\<close>

definition update_tss_esp :: "u32 \<Rightarrow> ('z) tstate_scheme \<Rightarrow> ('z) tstate_scheme" where
  "update_tss_esp pthread s = s\<lparr>tss_esp0 := pthread + PAGE_SIZE\<rparr>"

definition page_dir_activate :: "u32 \<Rightarrow> ('z) tstate_scheme \<Rightarrow> ('z) tstate_scheme res" where
  "page_dir_activate p_thread s =
     bindE (get_task p_thread s) (\<lambda>t.
     bindE (if pg_dir t \<noteq> NULL then addr_v2p (pg_dir t) s else Inr 0x100000) (\<lambda>a.
     Inr (s\<lparr>cr3 := a\<rparr>)))"

definition process_activate :: "u32 \<Rightarrow> ('z) tstate_scheme \<Rightarrow> ('z) tstate_scheme res" where
  "process_activate p_thread s =
     bindE (ASSERT (p_thread \<noteq> NULL)) (\<lambda>_.
     bindE (page_dir_activate p_thread s) (\<lambda>s.
     bindE (get_task p_thread s) (\<lambda>t.
     Inr (if pg_dir t \<noteq> NULL then update_tss_esp p_thread s else s))))"

text \<open>
  \<^verbatim>\<open>switch_to\<close> of \<^verbatim>\<open>thread/switch.s\<close>: four registers are pushed, the stack pointer goes to the
  first word of the old thread, and the new thread's is loaded and its four registers popped.
\<close>

definition switch_to :: "u32 \<Rightarrow> u32 \<Rightarrow> ('z) tstate_scheme \<Rightarrow> ('z) tstate_scheme res" where
  "switch_to cur nxt s =
     bindE (upd_task cur (\<lambda>t. t\<lparr>self_kernel_stack := esp s - 16\<rparr>) s) (\<lambda>s.
     bindE (get_task nxt s) (\<lambda>t. Inr (s\<lparr>esp := self_kernel_stack t + 16\<rparr>)))"

definition may_unblock :: "task_status \<Rightarrow> bool" where
  "may_unblock st \<longleftrightarrow> st = TASK_BLOCKED \<or> st = TASK_WAITING \<or> st = TASK_HANGING"

definition thread_unblock :: "u32 \<Rightarrow> ('z) tstate_scheme \<Rightarrow> ('z) tstate_scheme res" where
  "thread_unblock pthread s =
     (let (old_status, f) = intr_disable (eflags s); s = s\<lparr>eflags := f\<rparr> in
      bindE (get_task pthread s) (\<lambda>t.
      bindE (ASSERT (may_unblock (status t))) (\<lambda>_.
      bindE (if status t \<noteq> TASK_READY then
               bindE (elem_find (thread_ready_list s) (general_tag pthread) s) (\<lambda>found.
               bindE (ASSERT (\<not> found)) (\<lambda>_.
               bindE (elem_find (thread_ready_list s) (general_tag pthread) s) (\<lambda>found.
               if found then Inl Panic
               else bindE (list_push (thread_ready_list s) (general_tag pthread) s)
                      (upd_task pthread (\<lambda>t. t\<lparr>status := TASK_READY\<rparr>)))))
             else Inr s) (\<lambda>s.
      Inr (s\<lparr>eflags := snd (intr_set_status old_status (eflags s))\<rparr>)))))"

text \<open>The first branch of \<^verbatim>\<open>schedule\<close>: a thread whose time slice is over goes to the end of the queue.\<close>

definition schedule_requeue ::
  "u32 \<Rightarrow> task_struct \<Rightarrow> ('z) tstate_scheme \<Rightarrow> ('z) tstate_scheme res" where
  "schedule_requeue cur t s =
     (if status t = TASK_RUNNING then
        bindE (elem_find (thread_ready_list s) (general_tag cur) s) (\<lambda>found.
        bindE (ASSERT (\<not> found)) (\<lambda>_.
        bindE (list_append (thread_ready_list s) (general_tag cur) s)
          (upd_task cur (\<lambda>t. t\<lparr>ticks := priority t, status := TASK_READY\<rparr>))))
      else Inr s)"

definition schedule :: "('z) tstate_scheme \<Rightarrow> ('z) tstate_scheme res" where
  "schedule s =
     bindE (ASSERT (intr_get_status (eflags s) = INTR_OFF)) (\<lambda>_.
     let cur = running_thread s in
     bindE (get_task cur s) (\<lambda>t.
     bindE (schedule_requeue cur t s) (\<lambda>s.
     bindE (list_empty (thread_ready_list s) s) (\<lambda>empty.
     bindE (if empty then thread_unblock (idle_thread s) s else Inr s) (\<lambda>s.
     bindE (list_empty (thread_ready_list s) s) (\<lambda>empty.
     bindE (ASSERT (\<not> empty)) (\<lambda>_.
     bindE (list_pop (thread_ready_list s) s) (\<lambda>(thread_tag, s).
     let nxt = elem2entry_general thread_tag in
     bindE (upd_task nxt (\<lambda>t. t\<lparr>status := TASK_RUNNING\<rparr>) s) (\<lambda>s.
     bindE (process_activate nxt s) (\<lambda>s.
     switch_to cur nxt s))))))))))"

text \<open>
  The thread that comes out of a switch restores the interrupt status it had when it went
  into it.
\<close>

definition resume :: "('z) tstate_scheme \<Rightarrow> ('z) tstate_scheme" where
  "resume s = s\<lparr>eflags := snd (intr_set_status (saved_intr s (running_thread s)) (eflags s))\<rparr>"

definition thread_block :: "task_status \<Rightarrow> ('z) tstate_scheme \<Rightarrow> ('z) tstate_scheme res" where
  "thread_block stat s =
     bindE (ASSERT (stat = TASK_BLOCKED \<or> stat = TASK_WAITING \<or> stat = TASK_HANGING)) (\<lambda>_.
     let (old_status, f) = intr_disable (eflags s);
         cur_thread = running_thread s;
         s = s\<lparr>eflags := f, saved_intr := (saved_intr s)(cur_thread := old_status)\<rparr>
     in bindE (upd_task cur_thread (\<lambda>t. t\<lparr>status := stat\<rparr>) s) (\<lambda>s.
        mapE resume (schedule s)))"

definition thread_yield :: "('z) tstate_scheme \<Rightarrow> ('z) tstate_scheme res" where
  "thread_yield s =
     (let cur = running_thread s;
          (old_status, f) = intr_disable (eflags s);
          s = s\<lparr>eflags := f, saved_intr := (saved_intr s)(cur := old_status)\<rparr>
      in bindE (elem_find (thread_ready_list s) (general_tag cur) s) (\<lambda>found.
         bindE (ASSERT (\<not> found)) (\<lambda>_.
         bindE (list_append (thread_ready_list s) (general_tag cur) s) (\<lambda>s.
         bindE (upd_task cur (\<lambda>t. t\<lparr>status := TASK_READY\<rparr>) s) (\<lambda>s.
         mapE resume (schedule s))))))"

section \<open>The scheduler from above\<close>

record sched =
  acur :: u32
  aready :: "u32 list"
  astat :: "u32 \<rightharpoonup> task_status"

definition enqueue_cur :: "sched \<Rightarrow> sched" where
  "enqueue_cur a =
     (if astat a (acur a) = Some TASK_RUNNING
      then a\<lparr>aready := aready a @ [acur a], astat := (astat a)(acur a \<mapsto> TASK_READY)\<rparr> else a)"

definition wake_idle :: "u32 \<Rightarrow> sched \<Rightarrow> sched" where
  "wake_idle idle a =
     (if aready a = [] then a\<lparr>aready := [idle], astat := (astat a)(idle \<mapsto> TASK_READY)\<rparr> else a)"

definition run_first :: "sched \<Rightarrow> sched" where
  "run_first a = a\<lparr>acur := hd (aready a), aready := tl (aready a),
     astat := (astat a)(hd (aready a) \<mapsto> TASK_RUNNING)\<rparr>"

definition sched_spec :: "u32 \<Rightarrow> sched \<Rightarrow> sched" where
  "sched_spec idle a = run_first (wake_idle idle (enqueue_cur a))"

section \<open>The invariant of the scheduler\<close>

text \<open>
  Every thread's page directory is mapped in every address space a thread can run in, and at
  the physical address of an address space.
\<close>

definition dirs_ok :: "('z) tstate_scheme \<Rightarrow> bool" where
  "dirs_ok s \<longleftrightarrow> (\<exists>dirs. 0x100000 \<in> dirs \<and> cr3 s \<in> dirs \<and>
     (\<forall>c\<in>dirs. \<forall>p t. tasks s p = Some t \<longrightarrow> pg_dir t \<noteq> NULL \<longrightarrow>
        (\<exists>a\<in>dirs. addr_v2p (pg_dir t) (s\<lparr>cr3 := c\<rparr>) = Inr a)))"

definition threads_ok :: "('z) tstate_scheme \<Rightarrow> bool" where
  "threads_ok s \<longleftrightarrow> dirs_ok s \<and>
     (\<forall>p t. tasks s p = Some t \<longrightarrow> p \<noteq> NULL \<and> general_tag p \<in> dom (lmem s) \<and>
        (p \<noteq> running_thread s \<longrightarrow> page_frame (self_kernel_stack t + 16) = p))"

text \<open>The concrete state implements the abstract one, with \<open>F\<close> the contents of all lists.\<close>

definition sched_rel :: "family \<Rightarrow> ('z) tstate_scheme \<Rightarrow> sched \<Rightarrow> bool" where
  "sched_rel F s a \<longleftrightarrow> lists_at (lmem s) F \<and>
     F (thread_ready_list s) = Some (map general_tag (aready a)) \<and>
     acur a = running_thread s \<and> astat a = map_option status \<circ> tasks s"

definition ready_family :: "family \<Rightarrow> ('z) tstate_scheme \<Rightarrow> u32 list \<Rightarrow> family" where
  "ready_family F s rs = F(thread_ready_list s \<mapsto> map general_tag rs)"

text \<open>When \<^verbatim>\<open>schedule\<close> may be called.\<close>

definition sched_pre :: "family \<Rightarrow> u32 \<Rightarrow> sched \<Rightarrow> bool" where
  "sched_pre F idle a \<longleftrightarrow> acur a \<in> dom (astat a) \<and> set (aready a) \<subseteq> dom (astat a) \<and>
     (if astat a (acur a) = Some TASK_RUNNING then unlisted F (general_tag (acur a))
      else aready a = [] \<longrightarrow>
             (\<exists>st. astat a idle = Some st \<and> may_unblock st) \<and> unlisted F (general_tag idle))"

lemma general_tag_inj [simp]: "general_tag p = general_tag q \<longleftrightarrow> p = q"
  by (simp add: general_tag_def)

lemma elem2entry_tag [simp]: "elem2entry_general (general_tag p) = p"
  by (simp add: elem2entry_general_def general_tag_def)

lemma upd_task_Some [simp]:
  "tasks s p = Some t \<Longrightarrow> upd_task p f s = Inr (s\<lparr>tasks := (tasks s)(p \<mapsto> f t)\<rparr>)"
  by (simp add: upd_task_def get_task_def)

lemma thread_unblock_ok:
  assumes F: "lists_at (lmem s) F" "F (thread_ready_list s) = Some xs"
    and t: "tasks s p = Some t" "may_unblock (status t)"
    and e: "unlisted F (general_tag p)" "general_tag p \<in> dom (lmem s)"
  shows "\<exists>m'. thread_unblock p s =
           Inr (s\<lparr>lmem := m', tasks := (tasks s)(p \<mapsto> t\<lparr>status := TASK_READY\<rparr>)\<rparr>) \<and>
         lists_at m' (F(thread_ready_list s \<mapsto> general_tag p # xs)) \<and> dom m' = dom (lmem s)"
proof -
  define f where "f = snd (intr_disable (eflags s))"
  have "general_tag p \<notin> set xs" using e(1) F(2) by (auto simp: unlisted_def)
  then have find: "elem_find (thread_ready_list s) (general_tag p) (s\<lparr>eflags := f\<rparr>) = Inr False"
    using elem_find_family [of "s\<lparr>eflags := f\<rparr>" F] F by simp
  obtain m' where push: "list_push (thread_ready_list s) (general_tag p) (s\<lparr>eflags := f\<rparr>) =
      Inr (s\<lparr>eflags := f, lmem := m'\<rparr>)"
    and m': "lists_at m' (F(thread_ready_list s \<mapsto> general_tag p # xs))" "dom m' = dom (lmem s)"
    using list_push_family [of "s\<lparr>eflags := f\<rparr>" F "thread_ready_list s" xs "general_tag p"] F e
    by auto
  have "snd (intr_set_status (fst (intr_disable (eflags s))) f) = eflags s"
    by (simp add: f_def disable_restore)
  then have "thread_unblock p s =
      Inr (s\<lparr>lmem := m', tasks := (tasks s)(p \<mapsto> t\<lparr>status := TASK_READY\<rparr>)\<rparr>)"
    using t find push
    by (auto simp: thread_unblock_def case_prod_beta f_def [symmetric] get_task_def may_unblock_def)
  with m' show ?thesis by blast
qed

section \<open>Each step of a switch\<close>

lemma schedule_requeue_ok:
  assumes F: "lists_at (lmem s) F" "F (thread_ready_list s) = Some (map general_tag rs)"
    and t: "tasks s cur = Some t" "general_tag cur \<in> dom (lmem s)"
    and un: "status t = TASK_RUNNING \<Longrightarrow> unlisted F (general_tag cur)"
  shows "\<exists>m'. schedule_requeue cur t s = Inr (s\<lparr>lmem := m', tasks :=
             (if status t = TASK_RUNNING
              then (tasks s)(cur \<mapsto> t\<lparr>ticks := priority t, status := TASK_READY\<rparr>) else tasks s)\<rparr>) \<and>
           lists_at m' (ready_family F s (if status t = TASK_RUNNING then rs @ [cur] else rs)) \<and>
           dom m' = dom (lmem s)"
proof (cases "status t = TASK_RUNNING")
  case True
  then have u: "unlisted F (general_tag cur)" by (rule un)
  then have "elem_find (thread_ready_list s) (general_tag cur) s = Inr False"
    using elem_find_family [OF F] F(2) by (fastforce simp: unlisted_def)
  with True list_append_family [OF F u t(2)] t(1) show ?thesis
    by (auto simp: schedule_requeue_def ready_family_def)
next
  case False
  with F show ?thesis
    by (intro exI [of _ "lmem s"]) (simp add: schedule_requeue_def ready_family_def fun_upd_idem)
qed

lemma addr_v2p_cong: "cr3 s = cr3 s' \<Longrightarrow> pmem s = pmem s' \<Longrightarrow> addr_v2p v s = addr_v2p v s'"
  by (simp add: addr_v2p_def load32_def translate_def pde_phys_def pte_phys_def)

lemma dirs_ok_cong:
  assumes "dirs_ok s" "cr3 s' = cr3 s" "pmem s' = pmem s"
    and "\<And>p t. tasks s' p = Some t \<Longrightarrow> \<exists>t'. tasks s p = Some t' \<and> pg_dir t' = pg_dir t"
  shows "dirs_ok s'"
proof -
  from assms(1) obtain dirs where d: "0x100000 \<in> dirs" "cr3 s \<in> dirs"
    "\<And>c p t. c \<in> dirs \<Longrightarrow> tasks s p = Some t \<Longrightarrow> pg_dir t \<noteq> NULL \<Longrightarrow>
       \<exists>a\<in>dirs. addr_v2p (pg_dir t) (s\<lparr>cr3 := c\<rparr>) = Inr a" by (auto simp: dirs_ok_def)
  have "\<exists>a\<in>dirs. addr_v2p (pg_dir t) (s'\<lparr>cr3 := c\<rparr>) = Inr a"
    if c: "c \<in> dirs" and t: "tasks s' p = Some t" "pg_dir t \<noteq> NULL" for c p t
  proof -
    from assms(4) [OF t(1)] obtain t' where "tasks s p = Some t'" "pg_dir t' = pg_dir t" by blast
    with d(3) [OF c] t(2) obtain a where "a \<in> dirs" "addr_v2p (pg_dir t) (s\<lparr>cr3 := c\<rparr>) = Inr a"
      by fastforce
    then show ?thesis
      using addr_v2p_cong [of "s\<lparr>cr3 := c\<rparr>" "s'\<lparr>cr3 := c\<rparr>"] assms(3) by auto
  qed
  with d(1,2) assms(2) show ?thesis unfolding dirs_ok_def by metis
qed

lemma process_activate_ok:
  assumes "dirs_ok s" "tasks s p = Some t" "p \<noteq> NULL"
  shows "\<exists>c e. process_activate p s = Inr (s\<lparr>cr3 := c, tss_esp0 := e\<rparr>) \<and>
           dirs_ok (s\<lparr>cr3 := c, tss_esp0 := e\<rparr>)"
proof -
  from assms(1) obtain dirs where d: "0x100000 \<in> dirs" "cr3 s \<in> dirs"
    "\<And>c p t. c \<in> dirs \<Longrightarrow> tasks s p = Some t \<Longrightarrow> pg_dir t \<noteq> NULL \<Longrightarrow>
       \<exists>a\<in>dirs. addr_v2p (pg_dir t) (s\<lparr>cr3 := c\<rparr>) = Inr a" by (auto simp: dirs_ok_def)
  have ok: "dirs_ok (s\<lparr>cr3 := c, tss_esp0 := e\<rparr>)" if "c \<in> dirs" for c e
  proof -
    have "addr_v2p v (s\<lparr>tss_esp0 := e, cr3 := c'\<rparr>) = addr_v2p v (s\<lparr>cr3 := c'\<rparr>)" for v c'
      by (rule addr_v2p_cong) simp_all
    with d that show ?thesis unfolding dirs_ok_def by (intro exI [of _ dirs]) simp
  qed
  show ?thesis
  proof (cases "pg_dir t = NULL")
    case True
    with assms have "process_activate p s = Inr (s\<lparr>cr3 := 0x100000, tss_esp0 := tss_esp0 s\<rparr>)"
      by (simp add: process_activate_def page_dir_activate_def get_task_def)
    with ok [OF d(1)] show ?thesis by blast
  next
    case False
    with d(2,3) assms(2) obtain a where a: "a \<in> dirs" "addr_v2p (pg_dir t) s = Inr a" by fastforce
    with False assms have "process_activate p s = Inr (s\<lparr>cr3 := a, tss_esp0 := p + PAGE_SIZE\<rparr>)"
      by (simp add: process_activate_def page_dir_activate_def get_task_def update_tss_esp_def)
    with ok [OF a(1)] show ?thesis by blast
  qed
qed

lemma switch_to_ok:
  assumes ok: "threads_ok s" and t: "tasks s nxt = Some t" "tasks s (running_thread s) = Some tc"
  shows "\<exists>e T. switch_to (running_thread s) nxt s = Inr (s\<lparr>tasks := T, esp := e\<rparr>) \<and>
           T = (tasks s)(running_thread s \<mapsto> tc\<lparr>self_kernel_stack := esp s - 16\<rparr>) \<and>
           running_thread (s\<lparr>tasks := T, esp := e\<rparr>) = nxt \<and> threads_ok (s\<lparr>tasks := T, esp := e\<rparr>)"
proof -
  let ?cur = "running_thread s"
  define T where "T = (tasks s)(?cur \<mapsto> tc\<lparr>self_kernel_stack := esp s - 16\<rparr>)"
  obtain tn where tn: "T nxt = Some tn" using t by (cases "nxt = ?cur") (auto simp: T_def)
  define e where "e = self_kernel_stack tn + 16"
  have run: "switch_to ?cur nxt s = Inr (s\<lparr>tasks := T, esp := e\<rparr>)"
    using t tn by (simp add: switch_to_def get_task_def T_def e_def)
  have "page_frame e = nxt"
  proof (cases "nxt = ?cur")
    case True
    with tn show ?thesis by (auto simp: T_def e_def running_thread_def page_frame_def)
  next
    case False
    with tn t ok show ?thesis by (auto simp: T_def e_def threads_ok_def)
  qed
  then have nxt: "running_thread (s\<lparr>tasks := T, esp := e\<rparr>) = nxt"
    by (simp add: running_thread_def page_frame_def)
  have "dirs_ok (s\<lparr>tasks := T, esp := e\<rparr>)"
    by (rule dirs_ok_cong [of s]) (use ok t in \<open>auto simp: threads_ok_def T_def split: if_splits\<close>)
  moreover have "p \<noteq> NULL \<and> general_tag p \<in> dom (lmem s) \<and>
      (p \<noteq> nxt \<longrightarrow> page_frame (self_kernel_stack tp + 16) = p)" if tp: "T p = Some tp" for p tp
  proof (cases "p = ?cur")
    case True
    then have "tp = tc\<lparr>self_kernel_stack := esp s - 16\<rparr>" using tp by (simp add: T_def)
    then show ?thesis using ok t(2) True
      by (auto simp: threads_ok_def running_thread_def page_frame_def)
  next
    case False
    with tp ok show ?thesis by (auto simp: threads_ok_def T_def)
  qed
  ultimately have "threads_ok (s\<lparr>tasks := T, esp := e\<rparr>)"
    using nxt by (simp add: threads_ok_def)
  with run nxt T_def show ?thesis by blast
qed

lemma threads_ok_cong:
  assumes "threads_ok s" "cr3 s' = cr3 s" "pmem s' = pmem s" "esp s' = esp s"
    and "dom (lmem s') = dom (lmem s)"
    and "\<And>p t. tasks s' p = Some t \<Longrightarrow> \<exists>t'. tasks s p = Some t' \<and> pg_dir t' = pg_dir t \<and>
            self_kernel_stack t' = self_kernel_stack t"
  shows "threads_ok s'"
proof -
  have "dirs_ok s" using assms(1) by (simp add: threads_ok_def)
  then have "dirs_ok s'" using assms(2,3)
  proof (rule dirs_ok_cong)
    fix p t assume "tasks s' p = Some t"
    then show "\<exists>t'. tasks s p = Some t' \<and> pg_dir t' = pg_dir t" using assms(6) by blast
  qed
  moreover have "running_thread s' = running_thread s" using assms(4) by (simp add: running_thread_def)
  moreover have "p \<noteq> NULL \<and> general_tag p \<in> dom (lmem s') \<and>
      (p \<noteq> running_thread s \<longrightarrow> page_frame (self_kernel_stack t + 16) = p)"
    if "tasks s' p = Some t" for p t
  proof -
    from assms(6) [OF that] obtain t' where
      "tasks s p = Some t'" "self_kernel_stack t' = self_kernel_stack t" by blast
    with assms(1,5) show ?thesis unfolding threads_ok_def by metis
  qed
  ultimately show ?thesis by (simp add: threads_ok_def)
qed

text \<open>The part of a state that a switch may change.\<close>

definition only_sched :: "('z) tstate_scheme \<Rightarrow> ('z) tstate_scheme \<Rightarrow> bool" where
  "only_sched s s' \<longleftrightarrow>
     (\<exists>m c e e0 T. s' = s\<lparr>lmem := m, cr3 := c, esp := e, tss_esp0 := e0, tasks := T\<rparr>)"

lemma run_first_ok:
  assumes F: "lists_at (lmem s) (ready_family F s (nxt # rs))" and ok: "threads_ok s"
    and dom: "nxt \<in> dom (tasks s)" "running_thread s \<in> dom (tasks s)"
  shows "\<exists>s'. bindE (list_pop (thread_ready_list s) s) (\<lambda>(thread_tag, s').
           let nxt = elem2entry_general thread_tag in
           bindE (upd_task nxt (\<lambda>t. t\<lparr>status := TASK_RUNNING\<rparr>) s') (\<lambda>s'.
           bindE (process_activate nxt s') (\<lambda>s'.
           switch_to (running_thread s) nxt s'))) = Inr s' \<and>
         only_sched s s' \<and> threads_ok s' \<and> lists_at (lmem s') (ready_family F s rs) \<and>
         running_thread s' = nxt \<and>
         map_option status \<circ> tasks s' = (map_option status \<circ> tasks s)(nxt \<mapsto> TASK_RUNNING)"
proof -
  let ?cur = "running_thread s"
  obtain t where t: "tasks s nxt = Some t" using dom by blast
  from list_pop_family [OF F, of "thread_ready_list s" "general_tag nxt"] obtain m where
    m: "list_pop (thread_ready_list s) s = Inr (general_tag nxt, s\<lparr>lmem := m\<rparr>)"
       "lists_at m (ready_family F s rs)" "dom m = dom (lmem s)"
    by (auto simp: ready_family_def)
  define s1 where "s1 = s\<lparr>lmem := m, tasks := (tasks s)(nxt \<mapsto> t\<lparr>status := TASK_RUNNING\<rparr>)\<rparr>"
  have ok1: "threads_ok s1"
    by (rule threads_ok_cong [OF ok]) (use m t in \<open>auto simp: s1_def split: if_splits\<close>)
  have "nxt \<noteq> NULL" using ok t by (simp add: threads_ok_def)
  moreover have "tasks s1 nxt = Some (t\<lparr>status := TASK_RUNNING\<rparr>)" by (simp add: s1_def)
  moreover have "dirs_ok s1" using ok1 by (simp add: threads_ok_def)
  ultimately obtain c e0 where
    act: "process_activate nxt s1 = Inr (s1\<lparr>cr3 := c, tss_esp0 := e0\<rparr>)"
      "dirs_ok (s1\<lparr>cr3 := c, tss_esp0 := e0\<rparr>)"
    using process_activate_ok by blast
  define s2 where "s2 = s1\<lparr>cr3 := c, tss_esp0 := e0\<rparr>"
  have ok2: "threads_ok s2"
    using ok1 act(2) by (simp add: s2_def threads_ok_def running_thread_def)
  have cur2: "running_thread s2 = ?cur" by (simp add: s2_def s1_def running_thread_def)
  obtain tn tc where tn: "tasks s2 nxt = Some tn" and tc: "tasks s2 (running_thread s2) = Some tc"
    using dom unfolding cur2 by (cases "?cur = nxt") (auto simp: s2_def s1_def)
  from switch_to_ok [OF ok2 tn tc] obtain e T where
    sw: "switch_to ?cur nxt s2 = Inr (s2\<lparr>tasks := T, esp := e\<rparr>)"
      "T = (tasks s2)(?cur \<mapsto> tc\<lparr>self_kernel_stack := esp s2 - 16\<rparr>)"
      "running_thread (s2\<lparr>tasks := T, esp := e\<rparr>) = nxt" "threads_ok (s2\<lparr>tasks := T, esp := e\<rparr>)"
    unfolding cur2 by blast
  have "map_option status \<circ> T = (map_option status \<circ> tasks s)(nxt \<mapsto> TASK_RUNNING)"
    using tc unfolding cur2 sw(2) by (auto simp: s2_def s1_def fun_eq_iff split: if_splits)
  moreover have "lists_at (lmem (s2\<lparr>tasks := T, esp := e\<rparr>)) (ready_family F s rs)"
    using m by (simp add: s2_def s1_def)
  moreover have "only_sched s (s2\<lparr>tasks := T, esp := e\<rparr>)"
    unfolding only_sched_def s2_def s1_def
    by (intro exI [of _ m] exI [of _ c] exI [of _ e] exI [of _ e0] exI [of _ T]) simp
  ultimately show ?thesis
    using m t act(1) sw by (intro exI [of _ "s2\<lparr>tasks := T, esp := e\<rparr>"]) (simp add: s1_def s2_def)
qed

lemma only_sched_fields:
  assumes "only_sched s s'"
  shows "thread_ready_list s' = thread_ready_list s" "idle_thread s' = idle_thread s"
    "eflags s' = eflags s" "saved_intr s' = saved_intr s" "pmem s' = pmem s"
    "thread_all_list s' = thread_all_list s" "main_thread s' = main_thread s"
  using assms by (auto simp: only_sched_def)

lemma only_sched_upd:
  "only_sched (s\<lparr>lmem := m, tasks := T\<rparr>) s' \<Longrightarrow> only_sched s s'"
  unfolding only_sched_def by auto

lemma ready_family_upd [simp]:
  "ready_family (ready_family F s rs) s rs' = ready_family F s rs'"
  "ready_family F (s\<lparr>lmem := m, tasks := T\<rparr>) rs = ready_family F s rs"
  "ready_family F s rs (thread_ready_list s) = Some (map general_tag rs)"
  by (simp_all add: ready_family_def)

lemma ready_family_same: "F (thread_ready_list s) = Some (map general_tag rs) \<Longrightarrow> ready_family F s rs = F"
  by (simp add: ready_family_def fun_upd_idem)

text \<open>Waking the idle thread when no thread is ready.\<close>

lemma wake_idle_ok:
  assumes F: "lists_at (lmem s) (ready_family F s rs)" and ok: "threads_ok s"
    and idle: "rs = [] \<Longrightarrow> \<exists>t. tasks s (idle_thread s) = Some t \<and> may_unblock (status t) \<and>
                 unlisted (ready_family F s []) (general_tag (idle_thread s))"
  shows "\<exists>m T. bindE (list_empty (thread_ready_list s) s) (\<lambda>empty.
           if empty then thread_unblock (idle_thread s) s else Inr s) = Inr (s\<lparr>lmem := m, tasks := T\<rparr>) \<and>
         threads_ok (s\<lparr>lmem := m, tasks := T\<rparr>) \<and>
         lists_at m (ready_family F s (if rs = [] then [idle_thread s] else rs)) \<and>
         map_option status \<circ> T = (if rs = [] then (map_option status \<circ> tasks s)(idle_thread s \<mapsto> TASK_READY)
                                 else map_option status \<circ> tasks s)"
proof (cases "rs = []")
  case True
  with idle obtain t where t: "tasks s (idle_thread s) = Some t" "may_unblock (status t)"
    "unlisted (ready_family F s []) (general_tag (idle_thread s))" by blast
  moreover have "general_tag (idle_thread s) \<in> dom (lmem s)" using ok t(1) by (simp add: threads_ok_def)
  ultimately obtain m where m: "thread_unblock (idle_thread s) s =
      Inr (s\<lparr>lmem := m, tasks := (tasks s)(idle_thread s \<mapsto> t\<lparr>status := TASK_READY\<rparr>)\<rparr>)"
    "lists_at m (ready_family F s [idle_thread s])" "dom m = dom (lmem s)"
    using thread_unblock_ok [of s "ready_family F s []" "[]" "idle_thread s" t] F True
    by (auto simp: ready_family_def)
  define T where "T = (tasks s)(idle_thread s \<mapsto> t\<lparr>status := TASK_READY\<rparr>)"
  have "threads_ok (s\<lparr>lmem := m, tasks := T\<rparr>)"
    by (rule threads_ok_cong [OF ok]) (use m t in \<open>auto simp: T_def split: if_splits\<close>)
  moreover have "map_option status \<circ> T =
      (map_option status \<circ> tasks s)(idle_thread s \<mapsto> TASK_READY)" by (auto simp: T_def)
  moreover have "list_empty (thread_ready_list s) s = Inr True"
    using list_empty_family [OF F, of "thread_ready_list s" "[]"] True by simp
  ultimately show ?thesis using True m by (intro exI [of _ m] exI [of _ T]) (simp add: T_def)
next
  case False
  then have "list_empty (thread_ready_list s) s = Inr False"
    using list_empty_family [OF F, of "thread_ready_list s" "map general_tag rs"] by simp
  with False F ok show ?thesis by (intro exI [of _ "lmem s"] exI [of _ "tasks s"]) simp
qed

lemma schedule_refines:
  assumes rel: "sched_rel F s a" and ok: "threads_ok s"
    and pre: "sched_pre F (idle_thread s) a" and off: "intr_get_status (eflags s) = INTR_OFF"
  shows "\<exists>s'. schedule s = Inr s' \<and> only_sched s s' \<and> threads_ok s' \<and>
           sched_rel (ready_family F s (aready (sched_spec (idle_thread s) a))) s'
             (sched_spec (idle_thread s) a)"
proof -
  let ?cur = "running_thread s" and ?idle = "idle_thread s"
  have F: "lists_at (lmem s) F" "F (thread_ready_list s) = Some (map general_tag (aready a))"
    and cur: "acur a = ?cur" and st: "astat a = map_option status \<circ> tasks s"
    using rel by (simp_all add: sched_rel_def)
  obtain t where t: "tasks s ?cur = Some t" using pre cur st by (auto simp: sched_pre_def)
  have sc: "astat a (acur a) = Some (status t)" using cur st t by simp
  define rs1 where "rs1 = (if status t = TASK_RUNNING then aready a @ [?cur] else aready a)"
  define T1 where "T1 = (if status t = TASK_RUNNING
    then (tasks s)(?cur \<mapsto> t\<lparr>ticks := priority t, status := TASK_READY\<rparr>) else tasks s)"
  have "general_tag ?cur \<in> dom (lmem s)" using ok t by (simp add: threads_ok_def)
  moreover have "status t = TASK_RUNNING \<Longrightarrow> unlisted F (general_tag ?cur)"
    using pre sc cur by (simp add: sched_pre_def)
  ultimately obtain m1 where m1: "schedule_requeue ?cur t s = Inr (s\<lparr>lmem := m1, tasks := T1\<rparr>)"
    "lists_at m1 (ready_family F s rs1)" "dom m1 = dom (lmem s)"
    using schedule_requeue_ok [OF F t] unfolding T1_def rs1_def by blast
  define s1 where "s1 = s\<lparr>lmem := m1, tasks := T1\<rparr>"
  have ok1: "threads_ok s1"
    by (rule threads_ok_cong [OF ok]) (use m1 t in \<open>auto simp: s1_def T1_def split: if_splits\<close>)
  have a1: "aready (enqueue_cur a) = rs1" "acur (enqueue_cur a) = ?cur"
    "astat (enqueue_cur a) = map_option status \<circ> T1"
    using sc cur st t by (auto simp: enqueue_cur_def rs1_def T1_def fun_eq_iff)
  have idle: "\<exists>t. tasks s1 ?idle = Some t \<and> may_unblock (status t) \<and>
                 unlisted (ready_family F s []) (general_tag ?idle)" if "rs1 = []"
    using that pre sc st F(2)
    by (auto simp: rs1_def s1_def T1_def sched_pre_def ready_family_same split: if_splits)
  have fld: "thread_ready_list s1 = thread_ready_list s" "idle_thread s1 = ?idle" "lmem s1 = m1"
    "tasks s1 = T1" "ready_family F s1 = ready_family F s" "running_thread s1 = ?cur"
    by (simp_all add: s1_def running_thread_def ready_family_def fun_eq_iff)
  from wake_idle_ok [of s1 F rs1, unfolded fld, OF m1(2) ok1 idle [unfolded fld]] obtain m2 T2 where s2:
    "bindE (list_empty (thread_ready_list s) s1) (\<lambda>empty.
           if empty then thread_unblock ?idle s1 else Inr s1) = Inr (s1\<lparr>lmem := m2, tasks := T2\<rparr>)"
    "threads_ok (s1\<lparr>lmem := m2, tasks := T2\<rparr>)"
    "lists_at m2 (ready_family F s (if rs1 = [] then [?idle] else rs1))"
    "map_option status \<circ> T2 = (if rs1 = [] then (map_option status \<circ> T1)(?idle \<mapsto> TASK_READY)
                              else map_option status \<circ> T1)"
    by blast
  let ?s2 = "s1\<lparr>lmem := m2, tasks := T2\<rparr>" and ?a2 = "wake_idle ?idle (enqueue_cur a)"
  have a2: "aready ?a2 = (if rs1 = [] then [?idle] else rs1)" "acur ?a2 = ?cur"
    "astat ?a2 = map_option status \<circ> T2"
    using a1 s2(4) by (auto simp: wake_idle_def)
  obtain nxt rs where nxt: "aready ?a2 = nxt # rs" using a2(1) by (cases rs1) auto
  have doms: "?cur \<in> dom T1" "set rs1 \<subseteq> dom T1"
    using t pre cur st by (auto simp: T1_def rs1_def sched_pre_def)
  have "dom (map_option status \<circ> T2) \<supseteq> dom T1" "rs1 = [] \<Longrightarrow> ?idle \<in> dom (map_option status \<circ> T2)"
    unfolding s2(4) by auto
  then have domT2: "dom T1 \<subseteq> dom T2" "rs1 = [] \<Longrightarrow> ?idle \<in> dom T2" by simp_all
  have fld2: "thread_ready_list ?s2 = thread_ready_list s" "lmem ?s2 = m2" "tasks ?s2 = T2"
    "ready_family F ?s2 = ready_family F s" "running_thread ?s2 = ?cur"
    by (simp_all add: s1_def running_thread_def ready_family_def fun_eq_iff)
  have "nxt \<in> dom T2" using nxt doms domT2 unfolding a2(1) by (cases rs1) auto
  then obtain s' where s': "bindE (list_pop (thread_ready_list s) ?s2) (\<lambda>(thread_tag, s').
           let nxt = elem2entry_general thread_tag in
           bindE (upd_task nxt (\<lambda>t. t\<lparr>status := TASK_RUNNING\<rparr>) s') (\<lambda>s'.
           bindE (process_activate nxt s') (\<lambda>s'.
           switch_to ?cur nxt s'))) = Inr s'"
    "only_sched ?s2 s'" "threads_ok s'" "lists_at (lmem s') (ready_family F s rs)"
    "running_thread s' = nxt"
    "map_option status \<circ> tasks s' = (map_option status \<circ> T2)(nxt \<mapsto> TASK_RUNNING)"
    using run_first_ok [of ?s2 F nxt rs, unfolded fld2] s2(2,3) doms(1) domT2(1) nxt a2(1) by auto
  have "list_empty (thread_ready_list s) ?s2 = Inr False"
    using list_empty_family [of ?s2 "ready_family F s (nxt # rs)" "thread_ready_list s"]
      s2(3) nxt a2(1) by (simp add: fld2)
  moreover obtain e where "list_empty (thread_ready_list s) s1 = Inr e"
    "(if e then thread_unblock ?idle s1 else Inr s1) = Inr ?s2"
    using s2(1) by (rule bindE_InrE)
  ultimately have run: "schedule s = Inr s'"
    using off t m1(1) s'(1)
    by (cases e) (simp_all add: schedule_def get_task_def s1_def [symmetric] fld fld2)
  have "only_sched s s'" using s'(2) unfolding s1_def by (auto dest: only_sched_upd)
  moreover have "sched_spec ?idle a = \<lparr>acur = nxt, aready = rs,
      astat = (map_option status \<circ> T2)(nxt \<mapsto> TASK_RUNNING)\<rparr>"
    using nxt a2 by (simp add: sched_spec_def run_first_def)
  ultimately show ?thesis
    using run s' only_sched_fields(1) [of s s'] by (auto simp: sched_rel_def)
qed

section \<open>The invariant of the ready queue\<close>

text \<open>
  One thread runs; the ready queue holds exactly the ready threads, each once; the idle thread
  can always be woken.
\<close>

definition sched_inv :: "u32 \<Rightarrow> sched \<Rightarrow> bool" where
  "sched_inv idle a \<longleftrightarrow> (\<forall>p. astat a p = Some TASK_RUNNING \<longleftrightarrow> p = acur a) \<and>
     distinct (aready a) \<and> (\<forall>p. astat a p = Some TASK_READY \<longleftrightarrow> p \<in> set (aready a)) \<and>
     (\<exists>st. astat a idle = Some st \<and> st \<noteq> TASK_DIED)"

definition block_cur :: "task_status \<Rightarrow> sched \<Rightarrow> sched" where
  "block_cur st a = a\<lparr>astat := (astat a)(acur a \<mapsto> st)\<rparr>"

definition unblock :: "u32 \<Rightarrow> sched \<Rightarrow> sched" where
  "unblock p a = a\<lparr>aready := p # aready a, astat := (astat a)(p \<mapsto> TASK_READY)\<rparr>"

lemma sched_inv_spec:
  assumes "sched_inv idle a"
  shows "sched_inv idle (sched_spec idle a)"
    and "may_unblock st \<Longrightarrow> sched_inv idle (sched_spec idle (block_cur st a))"
proof -
  obtain i where i: "astat a idle = Some i" "i \<noteq> TASK_DIED" using assms by (auto simp: sched_inv_def)
  have run: "astat a (acur a) = Some TASK_RUNNING" using assms by (simp add: sched_inv_def)
  have rdy: "astat a p = Some TASK_READY \<longleftrightarrow> p \<in> set (aready a)" for p
    using assms by (simp add: sched_inv_def)
  then have notin: "acur a \<notin> set (aready a)" using run rdy [of "acur a"] by simp
  have one: "astat a p = Some TASK_RUNNING \<longleftrightarrow> p = acur a" for p
    using assms by (simp add: sched_inv_def)
  have d: "distinct (aready a)" using assms by (simp add: sched_inv_def)
  obtain n ns where n: "aready a @ [acur a] = n # ns" by (cases "aready a @ [acur a]") auto
  then have "set (n # ns) = insert (acur a) (set (aready a))" "distinct (n # ns)"
    using d notin by (auto simp flip: n)
  then show "sched_inv idle (sched_spec idle a)"
    using run i n one rdy
    by (auto simp: sched_spec_def enqueue_cur_def wake_idle_def run_first_def sched_inv_def)
  assume st: "may_unblock st"
  show "sched_inv idle (sched_spec idle (block_cur st a))"
  proof (cases "aready a")
    case Nil
    with st i one rdy show ?thesis
      by (auto simp: sched_spec_def enqueue_cur_def wake_idle_def run_first_def block_cur_def
          sched_inv_def may_unblock_def)
  next
    case (Cons r rs)
    with st i one rdy d notin show ?thesis
      by (auto simp: sched_spec_def enqueue_cur_def wake_idle_def run_first_def block_cur_def
          sched_inv_def may_unblock_def)
  qed
qed

lemma sched_inv_unblock:
  assumes "sched_inv idle a" "astat a p = Some st" "may_unblock st"
  shows "sched_inv idle (unblock p a)"
proof -
  have "p \<noteq> acur a" "p \<notin> set (aready a)"
    using assms by (force simp: sched_inv_def may_unblock_def)+
  with assms show ?thesis by (auto simp: sched_inv_def unblock_def)
qed

lemma sched_pre_inv:
  assumes "sched_inv idle a"
  shows "unlisted F (general_tag (acur a)) \<Longrightarrow> sched_pre F idle a"
    and "may_unblock st \<Longrightarrow> (aready a = [] \<Longrightarrow> unlisted F (general_tag idle)) \<Longrightarrow>
         sched_pre F idle (block_cur st a)"
proof -
  have run: "astat a (acur a) = Some TASK_RUNNING" and sub: "set (aready a) \<subseteq> dom (astat a)"
    using assms by (auto simp: sched_inv_def)
  show "unlisted F (general_tag (acur a)) \<Longrightarrow> sched_pre F idle a"
    using run sub by (auto simp: sched_pre_def)
  assume st: "may_unblock st" "aready a = [] \<Longrightarrow> unlisted F (general_tag idle)"
  have "may_unblock i" if "aready a = []" "astat a idle = Some i" "idle \<noteq> acur a" for i
    using assms that by (cases i) (auto simp: sched_inv_def may_unblock_def)
  moreover obtain i where "astat a idle = Some i" using assms by (auto simp: sched_inv_def)
  ultimately show "sched_pre F idle (block_cur st a)"
    using st sub run by (auto simp: sched_pre_def block_cur_def may_unblock_def)
qed

section \<open>Blocking and yielding\<close>

text \<open>The rest of a state, which the scheduler leaves alone.\<close>

definition sched_rest :: "('z) tstate_scheme \<Rightarrow> ('z) tstate_scheme" where
  "sched_rest s = s\<lparr>lmem := Map.empty, cr3 := 0, esp := 0, tss_esp0 := 0, tasks := Map.empty,
     eflags := 0, saved_intr := (\<lambda>_. INTR_OFF)\<rparr>"

lemma sched_rest_fields:
  assumes "sched_rest s' = sched_rest s"
  shows "thread_ready_list s' = thread_ready_list s" "idle_thread s' = idle_thread s"
    "pmem s' = pmem s" "thread_all_list s' = thread_all_list s" "main_thread s' = main_thread s"
  using arg_cong [OF assms, of thread_ready_list] arg_cong [OF assms, of idle_thread]
    arg_cong [OF assms, of pmem] arg_cong [OF assms, of thread_all_list]
    arg_cong [OF assms, of main_thread]
  by (simp_all add: sched_rest_def)

lemma sched_rest_upd [simp]:
  "sched_rest (s\<lparr>lmem := m\<rparr>) = sched_rest s" "sched_rest (s\<lparr>tasks := T\<rparr>) = sched_rest s"
  "sched_rest (s\<lparr>eflags := f\<rparr>) = sched_rest s" "sched_rest (s\<lparr>saved_intr := si\<rparr>) = sched_rest s"
  "sched_rest (resume s) = sched_rest s"
  by (simp_all add: sched_rest_def resume_def)

lemma only_sched_rest: "only_sched s s' \<Longrightarrow> sched_rest s' = sched_rest s"
  by (auto simp: only_sched_def sched_rest_def)

lemma resume_rel [simp]:
  "sched_rel F (resume s) a = sched_rel F s a" "threads_ok (resume s) = threads_ok s"
  "running_thread (resume s) = running_thread s" "saved_intr (resume s) = saved_intr s"
proof -
  have "addr_v2p v (s\<lparr>eflags := f, cr3 := c\<rparr>) = addr_v2p v (s\<lparr>cr3 := c\<rparr>)" for v f c
    by (rule addr_v2p_cong) simp_all
  then show "sched_rel F (resume s) a = sched_rel F s a" "threads_ok (resume s) = threads_ok s"
    "running_thread (resume s) = running_thread s" "saved_intr (resume s) = saved_intr s"
    by (simp_all add: resume_def sched_rel_def threads_ok_def dirs_ok_def running_thread_def)
qed

lemma sched_rel_intr [simp]:
  "sched_rel F (s\<lparr>eflags := f\<rparr>) a = sched_rel F s a"
  "sched_rel F (s\<lparr>saved_intr := si\<rparr>) a = sched_rel F s a"
  by (simp_all add: sched_rel_def running_thread_def)

lemma thread_block_refines:
  assumes rel: "sched_rel F s a" and ok: "threads_ok s" and st: "may_unblock st"
    and cur: "acur a \<in> dom (astat a)" and pre: "sched_pre F (idle_thread s) (block_cur st a)"
  shows "\<exists>s'. thread_block st s = Inr s' \<and> sched_rest s' = sched_rest s \<and> threads_ok s' \<and>
           saved_intr s' = (saved_intr s)(acur a := intr_get_status (eflags s)) \<and>
           intr_get_status (eflags s') = saved_intr s' (running_thread s') \<and>
           sched_rel (ready_family F s (aready (sched_spec (idle_thread s) (block_cur st a)))) s'
             (sched_spec (idle_thread s) (block_cur st a))"
proof -
  let ?cur = "running_thread s" and ?f = "snd (intr_disable (eflags s))"
  obtain t where t: "tasks s ?cur = Some t"
    using cur rel by (auto simp: sched_rel_def)
  define s1 where "s1 = s\<lparr>eflags := ?f, saved_intr := (saved_intr s)(?cur := intr_get_status (eflags s)),
    tasks := (tasks s)(?cur \<mapsto> t\<lparr>status := st\<rparr>)\<rparr>"
  have fld: "idle_thread s1 = idle_thread s" "ready_family F s1 = ready_family F s"
    by (simp_all add: s1_def ready_family_def fun_eq_iff)
  have "sched_rel F s1 (block_cur st a)"
    using rel by (auto simp: s1_def sched_rel_def block_cur_def running_thread_def)
  moreover have "threads_ok s1"
    by (rule threads_ok_cong [OF ok]) (use t in \<open>auto simp: s1_def split: if_splits\<close>)
  moreover have "intr_get_status (eflags s1) = INTR_OFF" by (simp add: s1_def intr_simps)
  ultimately obtain s2 where s2: "schedule s1 = Inr s2" "only_sched s1 s2" "threads_ok s2"
    "sched_rel (ready_family F s (aready (sched_spec (idle_thread s) (block_cur st a)))) s2
       (sched_spec (idle_thread s) (block_cur st a))"
    using schedule_refines [of F s1 "block_cur st a", unfolded fld] pre by blast
  have "sched_rest s2 = sched_rest s" using only_sched_rest [OF s2(2)] by (simp add: s1_def)
  moreover have "saved_intr s2 = (saved_intr s)(acur a := intr_get_status (eflags s))"
    using only_sched_fields(4) [OF s2(2)] rel by (simp add: s1_def sched_rel_def)
  moreover have "thread_block st s = Inr (resume s2)"
    using s2(1) t st
    by (auto simp: thread_block_def may_unblock_def case_prod_beta s1_def intr_simps)
  moreover have "intr_get_status (eflags (resume s2)) = saved_intr (resume s2) (running_thread s2)"
    by (simp add: resume_def intr_simps)
  ultimately show ?thesis using s2(3,4) by (intro exI [of _ "resume s2"]) simp
qed

lemma thread_yield_refines:
  assumes rel: "sched_rel F s a" and ok: "threads_ok s"
    and inv: "sched_inv (idle_thread s) a" and un: "unlisted F (general_tag (acur a))"
  shows "\<exists>s'. thread_yield s = Inr s' \<and> sched_rest s' = sched_rest s \<and> threads_ok s' \<and>
           sched_rel (ready_family F s (aready (sched_spec (idle_thread s) a))) s'
             (sched_spec (idle_thread s) a)"
proof -
  let ?cur = "running_thread s" and ?f = "snd (intr_disable (eflags s))"
  have cur: "acur a = ?cur" and F: "lists_at (lmem s) F"
    "F (thread_ready_list s) = Some (map general_tag (aready a))"
    using rel by (simp_all add: sched_rel_def)
  have "astat a (acur a) = Some TASK_RUNNING" using inv by (simp add: sched_inv_def)
  then obtain t where t: "tasks s ?cur = Some t" "status t = TASK_RUNNING"
    using rel by (auto simp: sched_rel_def)
  define s0 where "s0 = s\<lparr>eflags := ?f, saved_intr := (saved_intr s)(?cur := intr_get_status (eflags s))\<rparr>"
  have fld0: "lmem s0 = lmem s" "thread_ready_list s0 = thread_ready_list s" "tasks s0 = tasks s"
    by (simp_all add: s0_def)
  have tag: "general_tag ?cur \<in> dom (lmem s0)" using ok t by (simp add: threads_ok_def fld0)
  obtain m where m: "list_append (thread_ready_list s) (general_tag ?cur) s0 = Inr (s0\<lparr>lmem := m\<rparr>)"
    "lists_at m (ready_family F s (aready a @ [?cur]))" "dom m = dom (lmem s)"
    using list_append_family [of s0 F "thread_ready_list s" "map general_tag (aready a)"] F un tag
    by (auto simp: fld0 cur ready_family_def)
  have find: "elem_find (thread_ready_list s) (general_tag ?cur) s0 = Inr False"
    using elem_find_family [of s0 F "thread_ready_list s"] F un
    by (fastforce simp: fld0 unlisted_def cur)
  define s1 where "s1 = s0\<lparr>lmem := m, tasks := (tasks s)(?cur \<mapsto> t\<lparr>status := TASK_READY\<rparr>)\<rparr>"
  have fld: "idle_thread s1 = idle_thread s" "ready_family G s1 = ready_family G s" for G
    by (simp_all add: s1_def s0_def ready_family_def fun_eq_iff)
  let ?a = "enqueue_cur a" and ?F = "ready_family F s (aready a @ [?cur])"
  have a: "?a = a\<lparr>aready := aready a @ [?cur], astat := (astat a)(?cur \<mapsto> TASK_READY)\<rparr>"
    using inv cur by (simp add: enqueue_cur_def sched_inv_def)
  have "sched_rel ?F s1 ?a"
    using rel m(2) by (auto simp: a s1_def s0_def sched_rel_def running_thread_def ready_family_def)
  moreover have "threads_ok s1"
    by (rule threads_ok_cong [OF ok]) (use t m in \<open>auto simp: s1_def s0_def split: if_splits\<close>)
  moreover have "intr_get_status (eflags s1) = INTR_OFF" by (simp add: s1_def s0_def intr_simps)
  moreover have "sched_pre ?F (idle_thread s) ?a"
    using inv cur by (auto simp: sched_pre_def a sched_inv_def)
  moreover have "sched_spec (idle_thread s) ?a = sched_spec (idle_thread s) a"
    by (simp add: sched_spec_def) (simp add: a enqueue_cur_def)
  ultimately obtain s2 where s2: "schedule s1 = Inr s2" "only_sched s1 s2" "threads_ok s2"
    "sched_rel (ready_family F s (aready (sched_spec (idle_thread s) a))) s2
       (sched_spec (idle_thread s) a)"
    using schedule_refines [of ?F s1 ?a, unfolded fld] by auto
  have "sched_rest s2 = sched_rest s" using only_sched_rest [OF s2(2)] by (simp add: s1_def s0_def)
  moreover have "thread_yield s = Inr (resume s2)"
    using s2(1) t m(1) find
    by (simp add: thread_yield_def case_prod_beta s1_def s0_def [symmetric] fld0 disable_fst)
  ultimately show ?thesis using s2(3,4) by (intro exI [of _ "resume s2"]) simp
qed

section \<open>A concrete state\<close>

text \<open>The main thread runs, the idle thread is blocked and no thread is ready.\<close>

definition sample_task :: "task_status \<Rightarrow> u32 \<Rightarrow> task_struct" where
  "sample_task st sp = \<lparr>self_kernel_stack = sp, pid = 1, status = st, tname = replicate 16 0,
     priority = 31, ticks = 31, elapsed_ticks = 0, pg_dir = NULL,
     user_process_vaddr = \<lparr>vaddr_bitmap = \<lparr>bmap_bytes_len = 0, bits = []\<rparr>, vaddr_start = 0\<rparr>,
     fd_table = [0, 1, 2, -1, -1, -1, -1, -1], cwd_inode_nr = 0,
     parent_pid = -1, stack_magic = 0x19971216\<rparr>"

definition sample_state :: tstate where
  "sample_state = \<lparr>eflags = 0x002,
     lmem = [0xc0010000 \<mapsto> \<lparr>le_prev = 0, le_next = 0xc0010008\<rparr>,
             0xc0010008 \<mapsto> \<lparr>le_prev = 0xc0010000, le_next = 0\<rparr>,
             0xc009e024 \<mapsto> \<lparr>le_prev = 0, le_next = 0\<rparr>, 0xc0100024 \<mapsto> \<lparr>le_prev = 0, le_next = 0\<rparr>],
     cr3 = 0x100000, pmem = (\<lambda>_. 0), invlpgs = [], esp = 0xc009ee00, tss_esp0 = 0,
     tasks = [0xc009e000 \<mapsto> sample_task TASK_RUNNING 0, 0xc0100000 \<mapsto> sample_task TASK_BLOCKED 0xc0100e00],
     main_thread = 0xc009e000, idle_thread = 0xc0100000,
     thread_ready_list = 0xc0010000, thread_all_list = 0xc0010010, saved_intr = (\<lambda>_. INTR_ON)\<rparr>"

definition sample_sched :: sched where
  "sample_sched = \<lparr>acur = 0xc009e000, aready = [],
     astat = [0xc009e000 \<mapsto> TASK_RUNNING, 0xc0100000 \<mapsto> TASK_BLOCKED]\<rparr>"

definition sample_family :: family where
  "sample_family = [0xc0010000 \<mapsto> []]"

lemma sample_lists: "lists_at (lmem sample_state) sample_family"
  by (auto simp: lists_at_def dlist_def linked_def sample_state_def sample_family_def
      list_head_def list_tail_def split: if_splits)

lemma sample_ok:
  "sched_rel sample_family sample_state sample_sched" "threads_ok sample_state"
  "sched_inv (idle_thread sample_state) sample_sched"
  "unlisted sample_family (general_tag 0xc009e000)" "unlisted sample_family (general_tag 0xc0100000)"
  "intr_get_status (eflags sample_state) = INTR_OFF"
proof -
  have "running_thread sample_state = 0xc009e000"
    by (simp add: running_thread_def sample_state_def)
  then show "sched_rel sample_family sample_state sample_sched"
    unfolding sched_rel_def using sample_lists
    by (auto simp: sample_family_def sample_sched_def sample_state_def sample_task_def)
  have "dirs_ok sample_state"
    unfolding dirs_ok_def
    by (intro exI [of _ "{0x100000}"]) (auto simp: sample_state_def sample_task_def split: if_splits)
  then show "threads_ok sample_state"
    unfolding threads_ok_def
    by (auto simp: sample_state_def sample_task_def NULL_def general_tag_def page_frame_def
        running_thread_def split: if_splits)
  show "sched_inv (idle_thread sample_state) sample_sched"
    by (auto simp: sched_inv_def sample_sched_def sample_state_def split: if_splits)
  show "unlisted sample_family (general_tag 0xc009e000)" "unlisted sample_family (general_tag 0xc0100000)"
    by (auto simp: unlisted_def sample_family_def general_tag_def list_head_def list_tail_def
        split: if_splits)
  show "intr_get_status (eflags sample_state) = INTR_OFF"
    by (simp add: sample_state_def intr_get_status_def EFLAGS_IF_def)
qed

section \<open>Properties\<close>

text \<open>
  C4: scheduling is round robin. From a state that satisfies the invariant, with the running
  thread in no queue, \<^verbatim>\<open>schedule\<close> fails no assertion; the thread at the front of the ready
  queue runs next, the one that ran is at its end, and the invariant holds again: one thread
  runs, and the queue holds exactly the ready threads, each once.
\<close>

theorem schedule_round_robin:
  assumes "sched_rel F s a" "threads_ok s" "sched_inv (idle_thread s) a"
    and "unlisted F (general_tag (acur a))" "intr_get_status (eflags s) = INTR_OFF"
  shows "\<exists>s' a'. schedule s = Inr s' \<and> running_thread s' = hd (aready a @ [acur a]) \<and>
           aready a' = tl (aready a @ [acur a]) \<and> sched_rel (ready_family F s (aready a')) s' a' \<and>
           sched_inv (idle_thread s) a' \<and> threads_ok s'"
proof -
  let ?a = "sched_spec (idle_thread s) a"
  have "astat a (acur a) = Some TASK_RUNNING" using assms(3) by (simp add: sched_inv_def)
  then have a: "aready ?a = tl (aready a @ [acur a])" "acur ?a = hd (aready a @ [acur a])"
    by (simp_all add: sched_spec_def enqueue_cur_def wake_idle_def run_first_def)
  from schedule_refines [OF assms(1,2) sched_pre_inv(1) [OF assms(3,4)] assms(5)] obtain s' where
    "schedule s = Inr s'" "threads_ok s'" "sched_rel (ready_family F s (aready ?a)) s' ?a" by blast
  with a sched_inv_spec(1) [OF assms(3)] show ?thesis
    by (intro exI [of _ s'] exI [of _ ?a]) (auto simp: sched_rel_def)
qed

theorem schedule_round_robin_witness:
  "\<exists>s'. schedule sample_state = Inr s' \<and> running_thread s' = 0xc009e000"
  using schedule_round_robin [OF sample_ok(1,2,3) _ sample_ok(6)] sample_ok(4)
  by (auto simp: sample_sched_def)

text \<open>
  \<^verbatim>\<open>thread_block\<close> always finds a thread to run: the front of the ready queue or, when that is
  empty, the idle thread, which it wakes. No assertion fails, the blocked thread is in the
  status it asked for and in no ready queue, and the invariant holds again.
\<close>

theorem thread_block_switches:
  assumes "sched_rel F s a" "threads_ok s" "sched_inv (idle_thread s) a"
    and "may_unblock st" "unlisted F (general_tag (idle_thread s))"
  shows "\<exists>s' a'. thread_block st s = Inr s' \<and> threads_ok s' \<and>
           running_thread s' = hd (aready a @ [idle_thread s]) \<and>
           sched_rel (ready_family F s (aready a')) s' a' \<and> sched_inv (idle_thread s) a' \<and>
           (running_thread s \<noteq> running_thread s' \<longrightarrow> astat a' (running_thread s) = Some st)"
proof -
  let ?a = "sched_spec (idle_thread s) (block_cur st a)"
  have cur: "acur a \<in> dom (astat a)" "acur a = running_thread s"
    using assms(1,3) by (auto simp: sched_inv_def sched_rel_def)
  from thread_block_refines [OF assms(1,2,4) cur(1) sched_pre_inv(2) [OF assms(3,4,5)]] obtain s' where
    s': "thread_block st s = Inr s'" "threads_ok s'" "sched_rel (ready_family F s (aready ?a)) s' ?a"
    by blast
  have "acur ?a = hd (aready a @ [idle_thread s])"
    "acur ?a \<noteq> acur a \<Longrightarrow> astat ?a (acur a) = Some st"
    using assms(4) by (cases "aready a"; auto simp: sched_spec_def enqueue_cur_def wake_idle_def
        run_first_def block_cur_def may_unblock_def)+
  with s' cur sched_inv_spec(2) [OF assms(3,4)] show ?thesis
    by (intro exI [of _ s'] exI [of _ ?a]) (auto simp: sched_rel_def)
qed

theorem thread_block_switches_witness:
  "\<exists>s'. thread_block TASK_BLOCKED sample_state = Inr s' \<and> running_thread s' = 0xc0100000"
  using thread_block_switches [OF sample_ok(1,2,3), of TASK_BLOCKED] sample_ok(5)
  by (auto simp: sample_sched_def sample_state_def may_unblock_def)

end
