(* ===== verification/Sync.thy ===== *)
theory Sync
  imports Thread
begin

text \<open>
  Semaphores and locks, \<^verbatim>\<open>thread/sync.c\<close>. A semaphore is the address of its \<^verbatim>\<open>struct semaphore\<close>:
  the value is at that address and the list of waiters 4 bytes further; a lock has its holder
  first, its semaphore at offset 4 and the count of nested acquisitions last.

  A thread that finds the value 0 is put on the list of waiters and blocked inside the loop of
  \<^verbatim>\<open>sema_down\<close>; when it runs again it goes through the loop once more. \<open>sema_down_pass\<close> is one
  pass, and its result says whether the thread got through. Callers that model a whole kernel
  service on one thread use \<open>lock_acquire_now\<close>, for which a held lock is the result \<open>Blocks\<close>.

  The second half is the lock as threads use it: a transition system in which the running
  thread does the steps of \<^verbatim>\<open>lock_acquire\<close> and \<^verbatim>\<open>lock_release\<close> one by one, and the timer may take
  the processor away between any two of them. Its invariant gives mutual exclusion, that no
  assertion of the code ever fails, and that no wakeup is lost.
\<close>

section \<open>Semaphores and locks\<close>

record lock =
  holder :: u32
  holder_repeat_nr :: u32

record sstate = tstate +
  sem_value :: "u32 \<rightharpoonup> u8"
  locks :: "u32 \<rightharpoonup> lock"

definition sema_waiters :: "u32 \<Rightarrow> u32" where
  "sema_waiters psema = psema + 4"

definition lock_sem :: "u32 \<Rightarrow> u32" where
  "lock_sem plock = plock + 4"

definition set_value :: "u32 \<Rightarrow> u8 \<Rightarrow> ('z) sstate_scheme \<Rightarrow> ('z) sstate_scheme" where
  "set_value psema v s = s\<lparr>sem_value := (sem_value s)(psema \<mapsto> v)\<rparr>"

definition set_lock :: "u32 \<Rightarrow> lock \<Rightarrow> ('z) sstate_scheme \<Rightarrow> ('z) sstate_scheme" where
  "set_lock plock l s = s\<lparr>locks := (locks s)(plock \<mapsto> l)\<rparr>"

definition sema_init :: "u32 \<Rightarrow> u8 \<Rightarrow> ('z) sstate_scheme \<Rightarrow> ('z) sstate_scheme" where
  "sema_init psema v s = list_init (sema_waiters psema) (set_value psema v s)"

definition lock_init :: "u32 \<Rightarrow> ('z) sstate_scheme \<Rightarrow> ('z) sstate_scheme" where
  "lock_init plock s =
     sema_init (lock_sem plock) 1 (set_lock plock \<lparr>holder = NULL, holder_repeat_nr = 0\<rparr> s)"

text \<open>One pass of the loop of \<^verbatim>\<open>sema_down\<close>, from the test of the value on.\<close>

definition sema_down_pass :: "u32 \<Rightarrow> ('z) sstate_scheme \<Rightarrow> (bool \<times> ('z) sstate_scheme) res" where
  "sema_down_pass psema s =
     bindE (deref (sem_value s psema)) (\<lambda>v.
     if v = 0 then
       bindE (elem_find (sema_waiters psema) (general_tag (running_thread s)) s) (\<lambda>found.
       bindE (ASSERT (\<not> found)) (\<lambda>_.
       bindE (elem_find (sema_waiters psema) (general_tag (running_thread s)) s) (\<lambda>found.
       if found then Inl Panic
       else
         bindE (list_append (sema_waiters psema) (general_tag (running_thread s)) s) (\<lambda>s.
         mapE (\<lambda>s. (False, s)) (thread_block TASK_BLOCKED s)))))
     else
       let v = v - 1 in
       bindE (ASSERT (v = 0)) (\<lambda>_. Inr (True, set_value psema v s)))"

text \<open>
  \<open>sema_down_loop\<close> is \<^verbatim>\<open>sema_down\<close> from its loop on, for a thread that came in with interrupt
  status \<open>old_status\<close>; it is also how the thread goes on when it runs again.
\<close>

definition sema_down_loop ::
  "u32 \<Rightarrow> intr_status \<Rightarrow> ('z) sstate_scheme \<Rightarrow> (bool \<times> ('z) sstate_scheme) res" where
  "sema_down_loop psema old_status s =
     bindE (sema_down_pass psema s) (\<lambda>(got, s).
     Inr (got, if got then s\<lparr>eflags := snd (intr_set_status old_status (eflags s))\<rparr> else s))"

definition sema_down :: "u32 \<Rightarrow> ('z) sstate_scheme \<Rightarrow> (bool \<times> ('z) sstate_scheme) res" where
  "sema_down psema s =
     (let (old_status, f) = intr_disable (eflags s) in
      sema_down_loop psema old_status (s\<lparr>eflags := f\<rparr>))"

definition sema_up :: "u32 \<Rightarrow> ('z) sstate_scheme \<Rightarrow> ('z) sstate_scheme res" where
  "sema_up psema s =
     (let (old_status, f) = intr_disable (eflags s); s = s\<lparr>eflags := f\<rparr> in
      bindE (deref (sem_value s psema)) (\<lambda>v.
      bindE (ASSERT (v = 0)) (\<lambda>_.
      bindE (list_empty (sema_waiters psema) s) (\<lambda>empty.
      bindE (if \<not> empty then
               bindE (list_pop (sema_waiters psema) s) (\<lambda>(tag, s).
               thread_unblock (elem2entry_general tag) s)
             else Inr s) (\<lambda>s.
      bindE (deref (sem_value s psema)) (\<lambda>v.
      let v = v + 1 in
      bindE (ASSERT (v = 1)) (\<lambda>_.
      let s = set_value psema v s in
      Inr (s\<lparr>eflags := snd (intr_set_status old_status (eflags s))\<rparr>))))))))"

text \<open>The lines of \<^verbatim>\<open>lock_acquire\<close> after \<^verbatim>\<open>sema_down\<close>.\<close>

definition lock_enter :: "u32 \<Rightarrow> ('z) sstate_scheme \<Rightarrow> ('z) sstate_scheme res" where
  "lock_enter plock s =
     bindE (deref (locks s plock)) (\<lambda>l.
     bindE (ASSERT (holder_repeat_nr l = 0)) (\<lambda>_.
     Inr (set_lock plock \<lparr>holder = running_thread s, holder_repeat_nr = 1\<rparr> s)))"

definition lock_acquire :: "u32 \<Rightarrow> ('z) sstate_scheme \<Rightarrow> (bool \<times> ('z) sstate_scheme) res" where
  "lock_acquire plock s =
     bindE (deref (locks s plock)) (\<lambda>l.
     if holder l \<noteq> running_thread s then
       bindE (sema_down (lock_sem plock) s) (\<lambda>(got, s).
       if got then mapE (Pair True) (lock_enter plock s) else Inr (False, s))
     else Inr (True, set_lock plock (l\<lparr>holder_repeat_nr := holder_repeat_nr l + 1\<rparr>) s))"

definition lock_acquire_now :: "u32 \<Rightarrow> ('z) sstate_scheme \<Rightarrow> ('z) sstate_scheme res" where
  "lock_acquire_now plock s =
     bindE (lock_acquire plock s) (\<lambda>(got, s). if got then Inr s else Inl Blocks)"

text \<open>The lines of \<^verbatim>\<open>lock_release\<close> before \<^verbatim>\<open>sema_up\<close>; the result says whether the lock is given up.\<close>

definition lock_leave :: "u32 \<Rightarrow> ('z) sstate_scheme \<Rightarrow> (bool \<times> ('z) sstate_scheme) res" where
  "lock_leave plock s =
     bindE (deref (locks s plock)) (\<lambda>l.
     bindE (ASSERT (holder l = running_thread s)) (\<lambda>_.
     if holder_repeat_nr l > 1
     then Inr (False, set_lock plock (l\<lparr>holder_repeat_nr := holder_repeat_nr l - 1\<rparr>) s)
     else
       bindE (ASSERT (holder_repeat_nr l = 1)) (\<lambda>_.
       Inr (True, set_lock plock \<lparr>holder = NULL, holder_repeat_nr = 0\<rparr> s))))"

definition lock_release :: "u32 \<Rightarrow> ('z) sstate_scheme \<Rightarrow> ('z) sstate_scheme res" where
  "lock_release plock s =
     bindE (lock_leave plock s) (\<lambda>(up, s). if up then sema_up (lock_sem plock) s else Inr s)"

section \<open>Threads that use a lock\<close>

text \<open>
  Where a thread is: outside, blocked in the loop of \<^verbatim>\<open>sema_down\<close>, through it but not yet the
  holder, holding the lock, or between giving the holder up and \<^verbatim>\<open>sema_up\<close>.
\<close>

datatype pc = Outside | is_Waiting: Waiting intr_status | Entered | Inside | Leaving

datatype lock_op = Down | Again | Enter | Reacquire | Leave | Up | Yield | Idle_Block | Tick

type_synonym lock_sys = "sstate \<times> (u32 \<Rightarrow> pc)"

definition tick_switch :: "('z) sstate_scheme \<Rightarrow> ('z) sstate_scheme res" where
  "tick_switch s =
     (let cur = running_thread s in
      mapE resume (schedule (s\<lparr>eflags := cli (eflags s),
        saved_intr := (saved_intr s)(cur := INTR_ON)\<rparr>)))"

fun enabled :: "u32 \<Rightarrow> lock_op \<Rightarrow> lock_sys \<Rightarrow> bool" where
  "enabled lk op (s, pc) =
     (let cur = running_thread s in
      case op of
        Down \<Rightarrow> pc cur = Outside \<and> cur \<noteq> idle_thread s
      | Again \<Rightarrow> is_Waiting (pc cur)
      | Enter \<Rightarrow> pc cur = Entered
      | Reacquire \<Rightarrow> pc cur = Inside \<and>
          (case locks s lk of None \<Rightarrow> True | Some l \<Rightarrow> holder_repeat_nr l \<noteq> - 1)
      | Leave \<Rightarrow> pc cur = Inside
      | Up \<Rightarrow> pc cur = Leaving
      | Yield \<Rightarrow> \<not> is_Waiting (pc cur)
      | Idle_Block \<Rightarrow> cur = idle_thread s
      | Tick \<Rightarrow> intr_get_status (eflags s) = INTR_ON)"

fun perform :: "u32 \<Rightarrow> lock_op \<Rightarrow> lock_sys \<Rightarrow> lock_sys res" where
  "perform lk op (s, pc) =
     (let cur = running_thread s in
      case op of
        Down \<Rightarrow> mapE (\<lambda>(got, s'). (s', pc(cur := if got then Entered
                                         else Waiting (intr_get_status (eflags s)))))
                  (sema_down (lock_sem lk) s)
      | Again \<Rightarrow> (case pc cur of
            Waiting old \<Rightarrow> mapE (\<lambda>(got, s). (s, if got then pc(cur := Entered) else pc))
                  (sema_down_loop (lock_sem lk) old s)
          | _ \<Rightarrow> Inr (s, pc))
      | Enter \<Rightarrow> mapE (\<lambda>s. (s, pc(cur := Inside))) (lock_enter lk s)
      | Reacquire \<Rightarrow> mapE (\<lambda>(got, s). (s, pc)) (lock_acquire lk s)
      | Leave \<Rightarrow> mapE (\<lambda>(up, s). (s, if up then pc(cur := Leaving) else pc)) (lock_leave lk s)
      | Up \<Rightarrow> mapE (\<lambda>s. (s, pc(cur := Outside))) (sema_up (lock_sem lk) s)
      | Yield \<Rightarrow> mapE (\<lambda>s. (s, pc)) (thread_yield s)
      | Idle_Block \<Rightarrow> mapE (\<lambda>s. (s, pc)) (thread_block TASK_BLOCKED s)
      | Tick \<Rightarrow> mapE (\<lambda>s. (s, pc)) (tick_switch s))"

inductive lock_reach :: "u32 \<Rightarrow> lock_sys \<Rightarrow> lock_sys \<Rightarrow> bool" for lk st0 where
  start: "lock_reach lk st0 st0"
| step: "lock_reach lk st0 st \<Longrightarrow> enabled lk op st \<Longrightarrow> perform lk op st = Inr st' \<Longrightarrow>
    lock_reach lk st0 st'"

section \<open>The invariant\<close>

text \<open>The queues: the waiters beside the ready queue, and every other thread in no list.\<close>

definition sync_part :: "u32 \<Rightarrow> ('z) sstate_scheme \<Rightarrow> family \<Rightarrow> sched \<Rightarrow> u32 list \<Rightarrow> bool" where
  "sync_part lk s F a ws \<longleftrightarrow> sched_rel F s a \<and> threads_ok s \<and> sched_inv (idle_thread s) a \<and>
     sema_waiters (lock_sem lk) \<noteq> thread_ready_list s \<and>
     F (sema_waiters (lock_sem lk)) = Some (map general_tag ws) \<and> set ws \<subseteq> dom (astat a) \<and>
     (\<forall>p\<in>dom (astat a). p \<notin> set (aready a) \<longrightarrow> p \<notin> set ws \<longrightarrow> unlisted F (general_tag p))"

fun critical :: "pc \<Rightarrow> bool" where
  "critical Entered = True"
| "critical Inside = True"
| "critical Leaving = True"
| "critical Outside = False"
| "critical (Waiting old) = False"

definition lock_stats :: "task_status option set" where
  "lock_stats = {Some TASK_RUNNING, Some TASK_READY, Some TASK_BLOCKED}"

text \<open>The threads: at most one between \<^verbatim>\<open>sema_down\<close> and \<^verbatim>\<open>sema_up\<close>, and none when the value is 1.\<close>

definition pc_inv ::
  "u32 \<Rightarrow> u8 \<Rightarrow> lock \<Rightarrow> (u32 \<rightharpoonup> task_status) \<Rightarrow> u32 list \<Rightarrow> (u32 \<Rightarrow> pc) \<Rightarrow> bool" where
  "pc_inv idle v l stat ws pc \<longleftrightarrow>
     pc idle = Outside \<and> (\<forall>p. p \<in> set ws \<longleftrightarrow> is_Waiting (pc p) \<and> stat p = Some TASK_BLOCKED) \<and>
     (\<forall>p. is_Waiting (pc p) \<longrightarrow> stat p \<in> lock_stats) \<and>
     (v = 0 \<and> (\<exists>!p. critical (pc p)) \<or>
      v = 1 \<and> (\<forall>p. \<not> critical (pc p)) \<and> (ws \<noteq> [] \<longrightarrow> (\<exists>p. is_Waiting (pc p) \<and> p \<notin> set ws))) \<and>
     (\<forall>p. pc p = Inside \<longrightarrow> holder l = p \<and> holder_repeat_nr l \<noteq> 0) \<and>
     ((\<forall>p. pc p \<noteq> Inside) \<longrightarrow> holder l = NULL \<and> holder_repeat_nr l = 0)"

fun lock_inv :: "u32 \<Rightarrow> lock_sys \<Rightarrow> bool" where
  "lock_inv lk (s, pc) \<longleftrightarrow> (\<exists>F a ws v l. sync_part lk s F a ws \<and>
     sem_value s (lock_sem lk) = Some v \<and> locks s lk = Some l \<and>
     pc_inv (idle_thread s) v l (astat a) ws pc)"

lemma unlisted_upd:
  assumes "lists_at m F" "F l = Some xs" "unlisted F e \<or> e \<in> set xs" "e \<notin> set ys"
  shows "unlisted (F(l \<mapsto> ys)) e"
proof -
  have "e \<notin> nodes l ys"
    using assms(2-4) lists_atD [OF assms(1,2)] by (auto simp: unlisted_def dlist_def)
  moreover have "e \<notin> nodes l' zs" if "F l' = Some zs" "l' \<noteq> l" for l' zs
    using assms(3) that lists_at_disjoint [OF assms(1,2) that(1)]
    by (auto simp: unlisted_def simp del: nodes_simps) (simp add: nodes_def)
  ultimately show ?thesis by (auto simp: unlisted_def simp del: nodes_simps)
qed

lemma sched_rest_sync:
  assumes "sched_rest s' = sched_rest s"
  shows "sem_value s' = sem_value s" "locks s' = locks s"
  using arg_cong [OF assms, of sem_value] arg_cong [OF assms, of locks]
  by (simp_all add: sched_rest_def)

lemma sync_switch:
  assumes "sync_part lk s F a ws" and rest: "sched_rest s' = sched_rest s" and "threads_ok s'"
    and rel: "sched_rel (ready_family F s (aready a')) s' a'" and "sched_inv (idle_thread s) a'"
    and dom: "dom (astat a') = dom (astat a)"
  shows "sync_part lk s' (ready_family F s (aready a')) a' ws"
proof -
  have F: "lists_at (lmem s) F" "F (thread_ready_list s) = Some (map general_tag (aready a))"
    using assms(1) by (simp_all add: sync_part_def sched_rel_def)
  have "unlisted (ready_family F s (aready a')) (general_tag p)"
    if "p \<in> dom (astat a')" "p \<notin> set (aready a')" "p \<notin> set ws" for p
    unfolding ready_family_def
    using assms(1) dom that by (intro unlisted_upd [OF F]) (auto simp: sync_part_def)
  then show ?thesis
    using assms sched_rest_fields [OF rest] by (simp add: sync_part_def ready_family_def)
qed

lemma dom_sched_spec:
  assumes "sched_inv idle a"
  shows "dom (astat (sched_spec idle a)) = dom (astat a)"
    and "dom (astat (sched_spec idle (block_cur st a))) = dom (astat a)"
proof -
  have "acur a \<in> dom (astat a)" "idle \<in> dom (astat a)" "set (aready a) \<subseteq> dom (astat a)"
    using assms by (auto simp: sched_inv_def)
  then show "dom (astat (sched_spec idle a)) = dom (astat a)"
    "dom (astat (sched_spec idle (block_cur st a))) = dom (astat a)"
    by (cases "aready a"; auto simp: sched_spec_def enqueue_cur_def wake_idle_def run_first_def
        block_cur_def insert_absorb)+
qed

lemma sched_spec_blocked:
  assumes "sched_inv idle a"
  shows "astat (sched_spec idle a) p = Some TASK_BLOCKED \<longleftrightarrow> astat a p = Some TASK_BLOCKED"
    and "p \<noteq> idle \<Longrightarrow> astat (sched_spec idle (block_cur TASK_BLOCKED a)) p = Some TASK_BLOCKED \<longleftrightarrow>
           astat a p = Some TASK_BLOCKED \<or> p = acur a"
proof -
  have run: "astat a (acur a) = Some TASK_RUNNING"
    and rdy: "astat a q = Some TASK_READY \<longleftrightarrow> q \<in> set (aready a)" for q
    using assms by (auto simp: sched_inv_def)
  show "astat (sched_spec idle a) p = Some TASK_BLOCKED \<longleftrightarrow> astat a p = Some TASK_BLOCKED"
    using run rdy [of p]
    by (cases "aready a") (auto simp: sched_spec_def enqueue_cur_def wake_idle_def run_first_def)
  have "acur a \<notin> set (aready a)" using run rdy [of "acur a"] by simp
  then show "p \<noteq> idle \<Longrightarrow> astat (sched_spec idle (block_cur TASK_BLOCKED a)) p = Some TASK_BLOCKED \<longleftrightarrow>
           astat a p = Some TASK_BLOCKED \<or> p = acur a"
    using run rdy [of p] by (cases "aready a")
      (auto simp: sched_spec_def enqueue_cur_def wake_idle_def run_first_def block_cur_def)
qed

section \<open>Every step keeps the invariant\<close>

lemma sync_part_upd [simp]:
  "sync_part lk s F a ws \<Longrightarrow> sync_part lk (s\<lparr>eflags := f\<rparr>) F a ws"
  "sync_part lk s F a ws \<Longrightarrow> sync_part lk (s\<lparr>saved_intr := si\<rparr>) F a ws"
  "sync_part lk s F a ws \<Longrightarrow> sync_part lk (set_value p v s) F a ws"
  "sync_part lk s F a ws \<Longrightarrow> sync_part lk (set_lock q l s) F a ws"
  by (auto simp: sync_part_def sched_rel_def running_thread_def set_value_def set_lock_def
      elim: threads_ok_cong)

lemma pc_inv_cong:
  assumes "pc_inv idle v l stat ws pc"
    and "\<And>p. is_Waiting (pc p) \<Longrightarrow> stat' p = Some TASK_BLOCKED \<longleftrightarrow> stat p = Some TASK_BLOCKED"
    and "\<And>p. stat p \<in> lock_stats \<Longrightarrow> stat' p \<in> lock_stats"
  shows "pc_inv idle v l stat' ws pc"
  using assms unfolding pc_inv_def by metis

lemma sched_spec_stats:
  "astat a p \<in> lock_stats \<Longrightarrow> astat (sched_spec idle a) p \<in> lock_stats"
  "astat a p \<in> lock_stats \<Longrightarrow> astat (sched_spec idle (block_cur TASK_BLOCKED a)) p \<in> lock_stats"
  by (auto simp: lock_stats_def sched_spec_def enqueue_cur_def wake_idle_def run_first_def block_cur_def)

lemma cur_not_waiting:
  assumes "sync_part lk s F a ws" "pc_inv (idle_thread s) v l (astat a) ws pc"
  shows "acur a = running_thread s" "acur a \<in> dom (astat a)" "acur a \<notin> set ws"
    "unlisted F (general_tag (acur a))" "aready a = [] \<Longrightarrow> idle_thread s \<noteq> acur a \<Longrightarrow>
       unlisted F (general_tag (idle_thread s))"
proof -
  have inv: "sched_inv (idle_thread s) a" using assms(1) by (simp add: sync_part_def)
  then have run: "astat a (acur a) = Some TASK_RUNNING" by (simp add: sched_inv_def)
  show "acur a = running_thread s" using assms(1) by (simp add: sync_part_def sched_rel_def)
  show dom: "acur a \<in> dom (astat a)" using run by auto
  show ws: "acur a \<notin> set ws" using run assms(2) by (auto simp: pc_inv_def)
  have "acur a \<notin> set (aready a)" using run inv by (force simp: sched_inv_def)
  with dom ws assms(1) show "unlisted F (general_tag (acur a))" by (simp add: sync_part_def)
  have "idle_thread s \<notin> set ws" "idle_thread s \<in> dom (astat a)"
    using assms(2) inv by (auto simp: pc_inv_def sched_inv_def)
  with assms(1) show "aready a = [] \<Longrightarrow> idle_thread s \<noteq> acur a \<Longrightarrow>
    unlisted F (general_tag (idle_thread s))" by (simp add: sync_part_def)
qed

lemma lock_invI:
  assumes "sync_part lk s F a ws" "sem_value s (lock_sem lk) = Some v" "locks s lk = Some l"
    "pc_inv (idle_thread s) v l (astat a) ws pc"
  shows "lock_inv lk (s, pc)"
  using assms by auto

declare lock_inv.simps [simp del]

lemma tick_keeps:
  assumes "sync_part lk s F a ws" "sem_value s (lock_sem lk) = Some v" "locks s lk = Some l"
    "pc_inv (idle_thread s) v l (astat a) ws pc"
  shows "\<exists>s'. tick_switch s = Inr s' \<and> lock_inv lk (s', pc)"
proof -
  define s1 where "s1 = s\<lparr>eflags := cli (eflags s), saved_intr := (saved_intr s)(running_thread s := INTR_ON)\<rparr>"
  have fld: "idle_thread s1 = idle_thread s" "ready_family F s1 = ready_family F s"
    by (simp_all add: s1_def ready_family_def fun_eq_iff)
  have part: "sync_part lk s1 F a ws" using assms(1) by (simp add: s1_def)
  then have inv: "sched_inv (idle_thread s) a" and rel: "sched_rel F s1 a" "threads_ok s1"
    by (simp_all add: sync_part_def fld)
  let ?a = "sched_spec (idle_thread s) a"
  have "unlisted F (general_tag (acur a))" using assms(1,4) by (rule cur_not_waiting)
  then have "sched_pre F (idle_thread s1) a" using sched_pre_inv(1) [OF inv] by (simp add: fld)
  moreover have "intr_get_status (eflags s1) = INTR_OFF" by (simp add: s1_def intr_simps)
  ultimately obtain s2 where s2: "schedule s1 = Inr s2" "only_sched s1 s2" "threads_ok s2"
    "sched_rel (ready_family F s (aready ?a)) s2 ?a"
    using schedule_refines [OF rel] unfolding fld by blast
  have rest: "sched_rest (resume s2) = sched_rest s"
    using only_sched_rest [OF s2(2)] by (simp add: s1_def)
  have "sync_part lk (resume s2) (ready_family F s (aready ?a)) ?a ws"
    by (rule sync_switch [OF assms(1) rest])
       (use s2(3,4) sched_inv_spec(1) [OF inv] dom_sched_spec(1) [OF inv] in simp_all)
  moreover have "pc_inv (idle_thread s) v l (astat ?a) ws pc"
    by (rule pc_inv_cong [OF assms(4)]) (rule sched_spec_blocked(1) [OF inv], rule sched_spec_stats)
  ultimately have "lock_inv lk (resume s2, pc)"
    using assms(2,3) sched_rest_sync [OF rest] sched_rest_fields [OF rest]
    by (intro lock_invI) simp_all
  with s2(1) show ?thesis by (simp add: tick_switch_def s1_def)
qed

lemma yield_keeps:
  assumes "sync_part lk s F a ws" "sem_value s (lock_sem lk) = Some v" "locks s lk = Some l"
    "pc_inv (idle_thread s) v l (astat a) ws pc"
  shows "\<exists>s'. thread_yield s = Inr s' \<and> lock_inv lk (s', pc)"
proof -
  have inv: "sched_inv (idle_thread s) a" and rel: "sched_rel F s a" "threads_ok s"
    using assms(1) by (simp_all add: sync_part_def)
  let ?a = "sched_spec (idle_thread s) a"
  from thread_yield_refines [OF rel inv cur_not_waiting(4) [OF assms(1,4)]] obtain s' where
    s': "thread_yield s = Inr s'" "threads_ok s'" "sched_rel (ready_family F s (aready ?a)) s' ?a"
      and rest: "sched_rest s' = sched_rest s" by blast
  have "sync_part lk s' (ready_family F s (aready ?a)) ?a ws"
    by (rule sync_switch [OF assms(1) rest])
       (use s' sched_inv_spec(1) [OF inv] dom_sched_spec(1) [OF inv] in simp_all)
  moreover have "pc_inv (idle_thread s) v l (astat ?a) ws pc"
    by (rule pc_inv_cong [OF assms(4)]) (rule sched_spec_blocked(1) [OF inv], rule sched_spec_stats)
  ultimately have "lock_inv lk (s', pc)"
    using assms(2,3) sched_rest_sync [OF rest] sched_rest_fields [OF rest]
    by (intro lock_invI) simp_all
  with s'(1) show ?thesis by simp
qed

text \<open>Blocking the running thread, with the waiters already what they will be.\<close>

lemma block_keeps:
  assumes part: "sync_part lk s F a ws" and inv: "sched_inv (idle_thread s) a"
    and un: "aready a = [] \<Longrightarrow> unlisted F (general_tag (idle_thread s))"
  shows "\<exists>s' F'. thread_block TASK_BLOCKED s = Inr s' \<and> sched_rest s' = sched_rest s \<and>
           sync_part lk s' F' (sched_spec (idle_thread s) (block_cur TASK_BLOCKED a)) ws"
proof -
  let ?a = "sched_spec (idle_thread s) (block_cur TASK_BLOCKED a)"
  have rel: "sched_rel F s a" "threads_ok s" using part by (simp_all add: sync_part_def)
  have st: "may_unblock TASK_BLOCKED" by (simp add: may_unblock_def)
  have "acur a \<in> dom (astat a)" using inv by (auto simp: sched_inv_def)
  with thread_block_refines [OF rel st _ sched_pre_inv(2) [OF inv st un]] obtain s' where
    s': "thread_block TASK_BLOCKED s = Inr s'" "threads_ok s'"
      "sched_rel (ready_family F s (aready ?a)) s' ?a" and rest: "sched_rest s' = sched_rest s"
    by blast
  have "sync_part lk s' (ready_family F s (aready ?a)) ?a ws"
    by (rule sync_switch [OF part rest])
       (use s' sched_inv_spec(2) [OF inv st] dom_sched_spec(2) [OF inv] in simp_all)
  with s'(1) rest show ?thesis by blast
qed

lemma idle_block_keeps:
  assumes "sync_part lk s F a ws" "sem_value s (lock_sem lk) = Some v" "locks s lk = Some l"
    "pc_inv (idle_thread s) v l (astat a) ws pc" and idle: "running_thread s = idle_thread s"
  shows "\<exists>s'. thread_block TASK_BLOCKED s = Inr s' \<and> lock_inv lk (s', pc)"
proof -
  have inv: "sched_inv (idle_thread s) a" using assms(1) by (simp add: sync_part_def)
  let ?a = "sched_spec (idle_thread s) (block_cur TASK_BLOCKED a)"
  have "unlisted F (general_tag (idle_thread s))"
    using cur_not_waiting [OF assms(1,4)] idle by simp
  with block_keeps [OF assms(1) inv] obtain s' F' where s': "thread_block TASK_BLOCKED s = Inr s'"
    "sync_part lk s' F' ?a ws" and rest: "sched_rest s' = sched_rest s" by blast
  have "pc_inv (idle_thread s) v l (astat ?a) ws pc"
  proof (rule pc_inv_cong [OF assms(4)])
    fix p assume "is_Waiting (pc p)"
    with assms(4) have "p \<noteq> idle_thread s" by (auto simp: pc_inv_def)
    with sched_spec_blocked(2) [OF inv, of p] cur_not_waiting(1) [OF assms(1,4)] idle
    show "astat ?a p = Some TASK_BLOCKED \<longleftrightarrow> astat a p = Some TASK_BLOCKED" by simp
  qed (rule sched_spec_stats)
  with s' have "lock_inv lk (s', pc)"
    using assms(2,3) sched_rest_sync [OF rest] sched_rest_fields [OF rest]
    by (intro lock_invI) simp_all
  with s'(1) show ?thesis by simp
qed

lemma down_pass_keeps:
  assumes part: "sync_part lk s F a ws" and v: "sem_value s (lock_sem lk) = Some v"
    and l: "locks s lk = Some l" and pci: "pc_inv (idle_thread s) v l (astat a) ws pc"
    and cur: "running_thread s \<noteq> idle_thread s" "\<not> critical (pc (running_thread s))"
  shows "\<exists>got s'. sema_down_pass (lock_sem lk) s = Inr (got, s') \<and>
           lock_inv lk (s', pc(running_thread s := if got then Entered else Waiting old))"
proof (cases "v = 0")
  case True
  let ?cur = "running_thread s" and ?wl = "sema_waiters (lock_sem lk)"
  let ?a = "sched_spec (idle_thread s) (block_cur TASK_BLOCKED a)"
  have inv: "sched_inv (idle_thread s) a" and rel: "sched_rel F s a" "threads_ok s"
    and F: "lists_at (lmem s) F" "F ?wl = Some (map general_tag ws)" "?wl \<noteq> thread_ready_list s"
    using part by (simp_all add: sync_part_def sched_rel_def)
  note c = cur_not_waiting [OF part pci]
  have "general_tag ?cur \<in> dom (lmem s)" using rel c(1,2) by (auto simp: threads_ok_def sched_rel_def)
  with list_append_family [OF F(1,2)] c(1,4) obtain m where
    m: "list_append ?wl (general_tag ?cur) s = Inr (s\<lparr>lmem := m\<rparr>)"
      "lists_at m (F(?wl \<mapsto> map general_tag (ws @ [?cur])))" "dom m = dom (lmem s)" by auto
  let ?F = "F(?wl \<mapsto> map general_tag (ws @ [?cur]))"
  have un: "unlisted ?F (general_tag p)"
    if "p \<in> dom (astat a)" "p \<notin> set (aready a)" "p \<notin> set (ws @ [?cur])" for p
    using part that by (intro unlisted_upd [OF F(1,2)]) (auto simp: sync_part_def)
  have "threads_ok (s\<lparr>lmem := m\<rparr>)" by (rule threads_ok_cong [OF rel(2)]) (use m in auto)
  then have part1: "sync_part lk (s\<lparr>lmem := m\<rparr>) ?F a (ws @ [?cur])"
    using part m(2) un c(1,2) by (auto simp: sync_part_def sched_rel_def running_thread_def)
  have "unlisted ?F (general_tag (idle_thread s))" if "aready a = []"
    using that inv pci cur by (intro un) (auto simp: sched_inv_def pc_inv_def)
  with block_keeps [OF part1] inv obtain s' F' where
    s': "thread_block TASK_BLOCKED (s\<lparr>lmem := m\<rparr>) = Inr s'" "sync_part lk s' F' ?a (ws @ [?cur])"
      and rest: "sched_rest s' = sched_rest s" by auto
  have "elem_find ?wl (general_tag ?cur) s = Inr False"
    using elem_find_family [OF F(1,2)] c(1,3) by auto
  then have run: "sema_down_pass (lock_sem lk) s = Inr (False, s')"
    using v True m(1) s'(1) by (simp add: sema_down_pass_def)
  have "pc_inv (idle_thread s) 0 l (astat ?a) (ws @ [?cur]) (pc(?cur := Waiting old))"
  proof -
    let ?pc = "pc(?cur := Waiting old)"
    have mem: "p \<in> set (ws @ [?cur]) \<longleftrightarrow> is_Waiting (?pc p) \<and> astat ?a p = Some TASK_BLOCKED" for p
      using pci cur(1) sched_spec_blocked(2) [OF inv, of p] c(1) by (auto simp: pc_inv_def)
    have crit: "critical (?pc p) = critical (pc p)" "(?pc p = Inside) = (pc p = Inside)" for p
      using cur(2) by auto
    have "astat ?a p \<in> lock_stats" if "is_Waiting (?pc p)" for p
    proof (cases "p = ?cur")
      case True
      with mem [of ?cur] show ?thesis by (simp add: lock_stats_def)
    next
      case False
      with that pci show ?thesis by (intro sched_spec_stats) (auto simp: pc_inv_def)
    qed
    then show ?thesis
      using pci cur(1) True unfolding pc_inv_def crit mem [symmetric] by simp
  qed
  with s'(2) have "lock_inv lk (s', pc(?cur := Waiting old))"
    using v l True sched_rest_sync [OF rest] sched_rest_fields [OF rest]
    by (intro lock_invI) simp_all
  with run show ?thesis by (intro exI [of _ False] exI [of _ s']) simp
next
  case False
  let ?cur = "running_thread s"
  note c = cur_not_waiting [OF part pci]
  have 1: "v = 1" "\<And>p. \<not> critical (pc p)" using pci False by (auto simp: pc_inv_def)
  then have run: "sema_down_pass (lock_sem lk) s = Inr (True, set_value (lock_sem lk) 0 s)"
    using v by (simp add: sema_down_pass_def)
  have "pc p \<noteq> Inside" for p using 1(2) [of p] by auto
  then have "pc_inv (idle_thread s) 0 l (astat a) ws (pc(?cur := Entered))"
    using pci 1 cur(1) c(1,3) unfolding pc_inv_def by auto
  then have "lock_inv lk (set_value (lock_sem lk) 0 s, pc(?cur := Entered))"
    using l by (intro lock_invI [OF sync_part_upd(3) [OF part]]) (simp_all add: set_value_def)
  with run show ?thesis by (intro exI [of _ True]) auto
qed

lemma lock_inv_eflags [simp]: "lock_inv lk (s, pc) \<Longrightarrow> lock_inv lk (s\<lparr>eflags := f\<rparr>, pc)"
  unfolding lock_inv.simps using sync_part_upd(1) by fastforce

lemma pc_inv_critical:
  assumes "pc_inv idle v l stat ws pc" "critical (pc q)"
  shows "v = 0" "critical (pc p) \<longleftrightarrow> p = q"
  using assms unfolding pc_inv_def by auto

lemma enter_keeps:
  assumes "sync_part lk s F a ws" "sem_value s (lock_sem lk) = Some v" "locks s lk = Some l"
    "pc_inv (idle_thread s) v l (astat a) ws pc" "pc (running_thread s) = Entered"
  shows "\<exists>s'. lock_enter lk s = Inr s' \<and> lock_inv lk (s', pc(running_thread s := Inside))"
proof -
  let ?cur = "running_thread s" and ?l = "\<lparr>holder = running_thread s, holder_repeat_nr = 1\<rparr>"
  have "critical (pc ?cur)" using assms(5) by simp
  note one = pc_inv_critical [OF assms(4) this]
  have "pc p \<noteq> Inside" for p using assms(5) one(2) [of p] by (cases "p = ?cur") auto
  then have "holder_repeat_nr l = 0" using assms(4) by (simp add: pc_inv_def)
  moreover have "pc_inv (idle_thread s) v ?l (astat a) ws (pc(?cur := Inside))"
  proof -
    have "critical ((pc(?cur := Inside)) p) = critical (pc p)"
      "is_Waiting ((pc(?cur := Inside)) p) = is_Waiting (pc p)" for p using assms(5) by auto
    then show ?thesis
      using assms(4,5) \<open>\<And>p. pc p \<noteq> Inside\<close> unfolding pc_inv_def by auto
  qed
  ultimately show ?thesis
    using assms(1-3) by (auto simp: lock_enter_def set_lock_def intro!: lock_invI
        sync_part_upd(4) [unfolded set_lock_def])
qed

lemma reacquire_keeps:
  assumes "sync_part lk s F a ws" "sem_value s (lock_sem lk) = Some v" "locks s lk = Some l"
    "pc_inv (idle_thread s) v l (astat a) ws pc" "pc (running_thread s) = Inside"
    and "holder_repeat_nr l \<noteq> - 1"
  shows "\<exists>s'. lock_acquire lk s = Inr (True, s') \<and> lock_inv lk (s', pc)"
proof -
  let ?l = "l\<lparr>holder_repeat_nr := holder_repeat_nr l + 1\<rparr>"
  have "holder_repeat_nr l + 1 \<noteq> 0" using assms(6) by (metis add_eq_0_iff2)
  then have "pc_inv (idle_thread s) v ?l (astat a) ws pc"
    using assms(4,5) by (auto simp: pc_inv_def)
  then have "lock_inv lk (set_lock lk ?l s, pc)"
    using assms(2) by (intro lock_invI [OF sync_part_upd(4) [OF assms(1)]]) (simp_all add: set_lock_def)
  moreover have "holder l = running_thread s" using assms(4,5) by (simp add: pc_inv_def)
  ultimately show ?thesis using assms(3) by (simp add: lock_acquire_def)
qed

lemma leave_keeps:
  assumes "sync_part lk s F a ws" "sem_value s (lock_sem lk) = Some v" "locks s lk = Some l"
    "pc_inv (idle_thread s) v l (astat a) ws pc" "pc (running_thread s) = Inside"
  shows "\<exists>up s'. lock_leave lk s = Inr (up, s') \<and>
           lock_inv lk (s', if up then pc(running_thread s := Leaving) else pc)"
proof (cases "holder_repeat_nr l > 1")
  case True
  let ?l = "l\<lparr>holder_repeat_nr := holder_repeat_nr l - 1\<rparr>"
  have "holder_repeat_nr l - 1 \<noteq> 0" using True by auto
  then have "pc_inv (idle_thread s) v ?l (astat a) ws pc"
    using assms(4,5) by (auto simp: pc_inv_def)
  then have "lock_inv lk (set_lock lk ?l s, pc)"
    using assms(2) by (intro lock_invI [OF sync_part_upd(4) [OF assms(1)]]) (simp_all add: set_lock_def)
  moreover have "holder l = running_thread s" using assms(4,5) by (simp add: pc_inv_def)
  ultimately show ?thesis using assms(3) True by (auto simp: lock_leave_def)
next
  case False
  let ?cur = "running_thread s" and ?l = "\<lparr>holder = NULL, holder_repeat_nr = 0\<rparr>"
  have "holder_repeat_nr l \<noteq> 0" and h: "holder l = ?cur" using assms(4,5) by (auto simp: pc_inv_def)
  with False have r: "holder_repeat_nr l = 1" using word_gt_1_unat [of "holder_repeat_nr l"]
    by (auto simp: word_less_nat_alt)
  have "critical (pc ?cur)" using assms(5) by simp
  note one = pc_inv_critical [OF assms(4) this]
  have "pc p \<noteq> Inside" if "p \<noteq> ?cur" for p using that one(2) [of p] by auto
  moreover have "critical ((pc(?cur := Leaving)) p) = critical (pc p)"
    "is_Waiting ((pc(?cur := Leaving)) p) = is_Waiting (pc p)" for p using assms(5) by auto
  ultimately have "pc_inv (idle_thread s) v ?l (astat a) ws (pc(?cur := Leaving))"
    using assms(4,5) unfolding pc_inv_def by auto
  then have "lock_inv lk (set_lock lk ?l s, pc(?cur := Leaving))"
    using assms(2) by (intro lock_invI [OF sync_part_upd(4) [OF assms(1)]]) (simp_all add: set_lock_def)
  with h r assms(3) show ?thesis by (auto simp: lock_leave_def)
qed

text \<open>Waking the first waiter: the queues after \<^verbatim>\<open>list_pop\<close> and \<^verbatim>\<open>thread_unblock\<close>.\<close>

lemma wake_keeps:
  assumes part: "sync_part lk s F a (w # ws)" and w: "astat a w = Some TASK_BLOCKED"
  shows "\<exists>s' F'. bindE (list_pop (sema_waiters (lock_sem lk)) s) (\<lambda>(tag, s).
             thread_unblock (elem2entry_general tag) s) = Inr s' \<and>
           sched_rest s' = sched_rest s \<and> eflags s' = eflags s \<and> running_thread s' = running_thread s \<and>
           sync_part lk s' F' (unblock w a) ws"
proof -
  let ?wl = "sema_waiters (lock_sem lk)" and ?rl = "thread_ready_list s"
  have inv: "sched_inv (idle_thread s) a" and rel: "sched_rel F s a" "threads_ok s"
    and F: "lists_at (lmem s) F" "F ?wl = Some (map general_tag (w # ws))" "?wl \<noteq> ?rl"
      "F ?rl = Some (map general_tag (aready a))"
    using part by (simp_all add: sync_part_def sched_rel_def)
  obtain t where t: "tasks s w = Some t" "status t = TASK_BLOCKED"
    using w rel by (auto simp: sched_rel_def)
  from list_pop_family [OF F(1), of ?wl "general_tag w"] F(2) obtain m where
    m: "list_pop ?wl s = Inr (general_tag w, s\<lparr>lmem := m\<rparr>)"
      "lists_at m (F(?wl \<mapsto> map general_tag ws))" "dom m = dom (lmem s)" by auto
  let ?F = "F(?wl \<mapsto> map general_tag ws)"
  have un: "unlisted ?F (general_tag p)"
    if "p \<in> dom (astat a)" "p \<notin> set (aready a)" "p \<notin> set ws" for p
    using part that by (intro unlisted_upd [OF F(1,2)]) (auto simp: sync_part_def)
  have wn: "w \<notin> set (aready a)" "w \<notin> set ws"
    using inv w lists_at_distinct [OF F(1,2)] by (force simp: sched_inv_def)+
  have "general_tag w \<in> dom (lmem s)" using rel t by (simp add: threads_ok_def)
  then obtain m2 where m2: "thread_unblock w (s\<lparr>lmem := m\<rparr>) =
      Inr (s\<lparr>lmem := m2, tasks := (tasks s)(w \<mapsto> t\<lparr>status := TASK_READY\<rparr>)\<rparr>)"
    "lists_at m2 (?F(?rl \<mapsto> map general_tag (w # aready a)))" "dom m2 = dom (lmem s)"
    using thread_unblock_ok [of "s\<lparr>lmem := m\<rparr>" ?F _ w t] m t F(3,4) un [of w] wn w
    by (auto simp: may_unblock_def)
  let ?s = "s\<lparr>lmem := m2, tasks := (tasks s)(w \<mapsto> t\<lparr>status := TASK_READY\<rparr>)\<rparr>"
  let ?F2 = "?F(?rl \<mapsto> map general_tag (w # aready a))"
  have "sched_rel ?F2 ?s (unblock w a)"
    using rel m2(2) by (auto simp: sched_rel_def unblock_def running_thread_def)
  moreover have "threads_ok ?s"
    by (rule threads_ok_cong [OF rel(2)]) (use m2(3) t in \<open>auto split: if_splits\<close>)
  moreover have "sched_inv (idle_thread s) (unblock w a)"
    using sched_inv_unblock [OF inv w] by (simp add: may_unblock_def)
  moreover have "unlisted ?F2 (general_tag p)"
    if "p \<in> dom (astat a)" "p \<noteq> w" "p \<notin> set (aready a)" "p \<notin> set ws" for p
    using that F(3,4) un [of p] by (intro unlisted_upd [OF m(2)]) auto
  ultimately have "sync_part lk ?s ?F2 (unblock w a) ws"
    using part w by (auto simp: sync_part_def unblock_def)
  then show ?thesis using m m2 by (intro exI [of _ ?s] exI [of _ ?F2]) (simp add: running_thread_def)
qed

lemma up_keeps:
  assumes part: "sync_part lk s F a ws" and v: "sem_value s (lock_sem lk) = Some v"
    and l: "locks s lk = Some l" and pci: "pc_inv (idle_thread s) v l (astat a) ws pc"
    and cur: "pc (running_thread s) = Leaving"
  shows "\<exists>s'. sema_up (lock_sem lk) s = Inr s' \<and> lock_inv lk (s', pc(running_thread s := Outside))"
proof -
  let ?cur = "running_thread s" and ?f = "snd (intr_disable (eflags s))"
  let ?wl = "sema_waiters (lock_sem lk)" and ?pc = "pc(running_thread s := Outside)"
  define s0 where "s0 = s\<lparr>eflags := ?f\<rparr>"
  have fld: "sem_value s0 = sem_value s" "locks s0 = locks s" "idle_thread s0 = idle_thread s"
    "sched_rest s0 = sched_rest s" by (simp_all add: s0_def)
  have part0: "sync_part lk s0 F a ws" using part by (simp add: s0_def)
  have "critical (pc ?cur)" using cur by simp
  note one = pc_inv_critical [OF pci this]
  have noncrit: "\<not> critical (?pc p)" for p using one(2) [of p] by (cases "p = ?cur") auto
  have wait: "is_Waiting (?pc p) = is_Waiting (pc p)" for p using cur by simp
  from noncrit have inside: "?pc p \<noteq> Inside" "pc p \<noteq> Inside" for p
    using cur by (metis critical.simps(2), metis critical.simps(2) fun_upd_other pc.distinct(19))
  then have hold: "holder l = NULL" "holder_repeat_nr l = 0" using pci by (simp_all add: pc_inv_def)
  have mem: "p \<in> set ws \<longleftrightarrow> is_Waiting (pc p) \<and> astat a p = Some TASK_BLOCKED" for p
    using pci by (simp add: pc_inv_def)
  have stats: "is_Waiting (pc p) \<Longrightarrow> astat a p \<in> lock_stats" for p
    using pci by (simp add: pc_inv_def)
  have emp: "list_empty ?wl s0 = Inr (ws = [])"
    using list_empty_family [of s0 F ?wl "map general_tag ws"] part0
    by (simp add: sync_part_def sched_rel_def)
  have fin: "lock_inv lk (set_value (lock_sem lk) 1 s', ?pc)"
    if "sync_part lk s' F' a' ws'" "sched_rest s' = sched_rest s"
      "\<And>p. p \<in> set ws' \<longleftrightarrow> is_Waiting (pc p) \<and> astat a' p = Some TASK_BLOCKED"
      "ws' \<noteq> [] \<Longrightarrow> \<exists>p. is_Waiting (pc p) \<and> p \<notin> set ws'"
      "\<And>p. is_Waiting (pc p) \<Longrightarrow> astat a' p \<in> lock_stats" for s' F' a' ws'
  proof (rule lock_invI [OF sync_part_upd(3) [OF that(1)]])
    show "pc_inv (idle_thread (set_value (lock_sem lk) 1 s')) 1 l (astat a') ws' ?pc"
      using that(3,4,5) noncrit inside hold pci sched_rest_fields(2) [OF that(2)]
      unfolding pc_inv_def wait by (simp add: set_value_def)
  qed (use that l sched_rest_sync [OF that(2)] in \<open>simp_all add: set_value_def\<close>)
  show ?thesis
  proof (cases ws)
    case Nil
    then have "sema_up (lock_sem lk) s =
        Inr ((set_value (lock_sem lk) 1 s0)\<lparr>eflags := snd (intr_set_status (fst (intr_disable (eflags s))) ?f)\<rparr>)"
      using v one(1) emp by (simp add: sema_up_def case_prod_beta s0_def [symmetric] fld)
         (simp add: s0_def set_value_def)
    then show ?thesis using fin [OF part0 fld(4)] mem stats Nil lock_inv_eflags by auto
  next
    case (Cons w ws')
    then have w: "is_Waiting (pc w)" "astat a w = Some TASK_BLOCKED" using mem [of w] by auto
    from part0 Cons have "sync_part lk s0 F a (w # ws')" by simp
    from wake_keeps [OF this w(2)] obtain s1 F' where
      s1: "bindE (list_pop ?wl s0) (\<lambda>(tag, s). thread_unblock (elem2entry_general tag) s) = Inr s1"
        "sched_rest s1 = sched_rest s0" "eflags s1 = eflags s0" "sync_part lk s1 F' (unblock w a) ws'"
      by blast
    have rest: "sched_rest s1 = sched_rest s" using s1(2) fld(4) by simp
    have dist: "w \<notin> set ws'"
      using part Cons lists_at_distinct [of "lmem s" F ?wl] by (auto simp: sync_part_def sched_rel_def)
    have "sema_up (lock_sem lk) s =
        Inr ((set_value (lock_sem lk) 1 s1)\<lparr>eflags := snd (intr_set_status (fst (intr_disable (eflags s))) (eflags s1))\<rparr>)"
      using v one(1) emp Cons s1(1) sched_rest_sync(1) [OF rest]
      by (simp add: sema_up_def case_prod_beta s0_def [symmetric] fld) (simp add: set_value_def)
    moreover have "lock_inv lk (set_value (lock_sem lk) 1 s1, ?pc)"
      by (rule fin [OF s1(4) rest]) (use mem stats Cons dist w in \<open>auto simp: unblock_def lock_stats_def\<close>)
    ultimately show ?thesis using lock_inv_eflags by auto
  qed
qed

lemma perform_keeps:
  assumes "lock_inv lk st" "enabled lk op st"
  shows "\<exists>st'. perform lk op st = Inr st' \<and> lock_inv lk st'"
proof -
  obtain s pc where st: "st = (s, pc)" by fastforce
  from assms(1) obtain F a ws v l where inv: "sync_part lk s F a ws"
    "sem_value s (lock_sem lk) = Some v" "locks s lk = Some l"
    "pc_inv (idle_thread s) v l (astat a) ws pc" unfolding st lock_inv.simps by auto
  have run: "running_thread (s\<lparr>eflags := f\<rparr>) = running_thread s" for f by (simp add: running_thread_def)
  show ?thesis
  proof (cases op)
    case Down
    let ?s = "s\<lparr>eflags := snd (intr_disable (eflags s))\<rparr>"
    from down_pass_keeps [of lk ?s F a ws v l pc "intr_get_status (eflags s)"] obtain got s' where
      "sema_down_pass (lock_sem lk) ?s = Inr (got, s')"
      "lock_inv lk (s', pc(running_thread s := if got then Entered
          else Waiting (intr_get_status (eflags s))))"
      using inv assms(2) Down by (auto simp: st run Let_def simp del: fun_upd_apply)
    then show ?thesis using Down lock_inv_eflags
      by (cases got) (auto simp: st sema_down_def sema_down_loop_def case_prod_beta)
  next
    case Again
    then obtain old where old: "pc (running_thread s) = Waiting old"
      using assms(2) by (auto simp: st is_Waiting_def)
    moreover have "running_thread s \<noteq> idle_thread s" using old inv(4) by (auto simp: pc_inv_def)
    ultimately obtain got s' where "sema_down_pass (lock_sem lk) s = Inr (got, s')"
      "lock_inv lk (s', pc(running_thread s := if got then Entered else Waiting old))"
      using down_pass_keeps [OF inv, of old] by auto
    moreover have "pc(running_thread s := Waiting old) = pc" using old by auto
    ultimately show ?thesis using Again old lock_inv_eflags
      by (cases got) (auto simp: st sema_down_loop_def)
  next
    case Enter
    with enter_keeps [OF inv] assms(2) show ?thesis by (auto simp: st)
  next
    case Reacquire
    with reacquire_keeps [OF inv] assms(2) inv(3) show ?thesis by (auto simp: st)
  next
    case Leave
    with leave_keeps [OF inv] assms(2) show ?thesis by (auto simp: st)
  next
    case Up
    with up_keeps [OF inv] assms(2) show ?thesis by (auto simp: st)
  next
    case Yield
    with yield_keeps [OF inv] show ?thesis by (auto simp: st)
  next
    case Idle_Block
    with idle_block_keeps [OF inv] assms(2) show ?thesis by (auto simp: st)
  next
    case Tick
    with tick_keeps [OF inv] show ?thesis by (auto simp: st)
  qed
qed

lemma reach_inv: "lock_reach lk st0 st \<Longrightarrow> lock_inv lk st0 \<Longrightarrow> lock_inv lk st"
proof (induction rule: lock_reach.induct)
  case (step st op st')
  with perform_keeps [of lk st op] show ?case by auto
qed

section \<open>A lock nobody else wants\<close>

text \<open>What the two calls do for a client that finds the lock free and gives it back with no waiter.\<close>

definition lock_idle :: "u32 \<Rightarrow> ('z) sstate_scheme \<Rightarrow> bool" where
  "lock_idle lk s \<longleftrightarrow> locks s lk = Some \<lparr>holder = NULL, holder_repeat_nr = 0\<rparr> \<and>
     sem_value s (lock_sem lk) = Some 1"

definition held :: "u32 \<Rightarrow> ('z) sstate_scheme \<Rightarrow> ('z) sstate_scheme" where
  "held lk s = s\<lparr>sem_value := (sem_value s)(lock_sem lk \<mapsto> 0),
     locks := (locks s)(lk \<mapsto> \<lparr>holder = running_thread s, holder_repeat_nr = 1\<rparr>)\<rparr>"

lemma running_thread_upd [simp]:
  "running_thread (s\<lparr>eflags := f\<rparr>) = running_thread s"
  "running_thread (s\<lparr>sem_value := v\<rparr>) = running_thread s"
  "running_thread (s\<lparr>locks := l\<rparr>) = running_thread s"
  by (simp_all add: running_thread_def)

lemma acquire_idle:
  assumes "lock_idle lk s" "running_thread s \<noteq> NULL"
  shows "lock_acquire_now lk s = Inr (held lk s)"
  using assms disable_restore [of "eflags s"]
  by (simp add: lock_idle_def lock_acquire_now_def lock_acquire_def sema_down_def sema_down_loop_def
      sema_down_pass_def case_prod_beta set_value_def lock_enter_def set_lock_def held_def)

lemma release_held:
  assumes "locks s lk = Some \<lparr>holder = running_thread s, holder_repeat_nr = 1\<rparr>"
    and "sem_value s (lock_sem lk) = Some 0"
    and "lists_at (lmem s) F" "F (sema_waiters (lock_sem lk)) = Some []"
  shows "lock_release lk s = Inr (s\<lparr>sem_value := (sem_value s)(lock_sem lk \<mapsto> 1),
           locks := (locks s)(lk \<mapsto> \<lparr>holder = NULL, holder_repeat_nr = 0\<rparr>)\<rparr>)"
proof -
  have "list_empty (sema_waiters (lock_sem lk)) s' = Inr True" if "lmem s' = lmem s" for s' :: "'a sstate_scheme"
    using list_empty_family [of s' F] assms(3,4) that by simp
  then show ?thesis
    using assms(1,2) disable_restore [of "eflags s"]
    by (simp add: lock_release_def lock_leave_def set_lock_def sema_up_def case_prod_beta set_value_def)
qed

section \<open>A concrete lock\<close>

definition sample_lock_state :: sstate where
  "sample_lock_state = \<lparr>eflags = 0x202,
     lmem = (lmem sample_state)(0xc0020008 \<mapsto> \<lparr>le_prev = 0, le_next = 0xc0020010\<rparr>,
                                0xc0020010 \<mapsto> \<lparr>le_prev = 0xc0020008, le_next = 0\<rparr>),
     cr3 = 0x100000, pmem = (\<lambda>_. 0), invlpgs = [], esp = 0xc009ee00, tss_esp0 = 0, tasks = tasks sample_state,
     main_thread = 0xc009e000, idle_thread = 0xc0100000,
     thread_ready_list = 0xc0010000, thread_all_list = 0xc0010010, saved_intr = (\<lambda>_. INTR_ON),
     sem_value = [0xc0020004 \<mapsto> 1], locks = [0xc0020000 \<mapsto> \<lparr>holder = NULL, holder_repeat_nr = 0\<rparr>]\<rparr>"

lemma sample_lock_inv: "lock_inv 0xc0020000 (sample_lock_state, \<lambda>_. Outside)"
proof (rule lock_invI)
  let ?F = "sample_family(0xc0020008 \<mapsto> [])"
  have lists: "lists_at (lmem sample_lock_state) ?F"
    by (auto simp: lists_at_def dlist_def linked_def sample_lock_state_def sample_state_def
        sample_family_def list_head_def list_tail_def split: if_splits)
  have run: "running_thread sample_lock_state = 0xc009e000"
    by (simp add: running_thread_def sample_lock_state_def)
  have "sched_rel ?F sample_lock_state sample_sched"
    unfolding sched_rel_def run using lists
    by (auto simp: sample_family_def sample_sched_def sample_lock_state_def sample_state_def
        sample_task_def)
  moreover have "dirs_ok sample_lock_state"
    unfolding dirs_ok_def
    by (intro exI [of _ "{0x100000}"])
       (auto simp: sample_lock_state_def sample_state_def sample_task_def split: if_splits)
  then have "threads_ok sample_lock_state"
    unfolding threads_ok_def run
    by (auto simp: sample_lock_state_def sample_state_def sample_task_def NULL_def general_tag_def
        page_frame_def split: if_splits)
  moreover have "sched_inv 0xc0100000 sample_sched"
    using sample_ok(3) by (simp add: sample_state_def)
  moreover have "unlisted ?F (general_tag p)" if "p \<in> dom (astat sample_sched)" for p
    using that by (auto simp: unlisted_def sample_family_def sample_sched_def general_tag_def
        list_head_def list_tail_def split: if_splits)
  ultimately show "sync_part 0xc0020000 sample_lock_state ?F sample_sched []"
    by (auto simp: sync_part_def sema_waiters_def lock_sem_def sample_lock_state_def)
  show "sem_value sample_lock_state (lock_sem 0xc0020000) = Some 1"
    "locks sample_lock_state 0xc0020000 = Some \<lparr>holder = NULL, holder_repeat_nr = 0\<rparr>"
    by (simp_all add: sample_lock_state_def lock_sem_def)
qed (simp add: pc_inv_def)

lemma sample_lock_reach:
  "\<exists>st. lock_reach 0xc0020000 (sample_lock_state, \<lambda>_. Outside) st \<and>
     snd st 0xc009e000 = Entered"
proof -
  have en: "enabled 0xc0020000 Down (sample_lock_state, \<lambda>_. Outside)"
    by (simp add: running_thread_def sample_lock_state_def)
  have "\<exists>s'. sema_down (lock_sem 0xc0020000) sample_lock_state = Inr (True, s')"
    by (simp add: sema_down_def sema_down_loop_def sema_down_pass_def case_prod_beta lock_sem_def
        sample_lock_state_def)
  then obtain s' where "perform 0xc0020000 Down (sample_lock_state, \<lambda>_. Outside) =
      Inr (s', (\<lambda>_. Outside)(0xc009e000 := Entered))"
    by (auto simp: running_thread_def) (simp_all add: sample_lock_state_def)
  from lock_reach.step [OF lock_reach.start en this] show ?thesis by force
qed

text \<open>
  A state after two threads waited and the holder let go: the first is ready, the second is
  still blocked.
\<close>

definition woken_state :: sstate where
  "woken_state = sample_lock_state\<lparr>
     lmem := [0xc0010000 \<mapsto> \<lparr>le_prev = 0, le_next = 0xc0101024\<rparr>,
              0xc0101024 \<mapsto> \<lparr>le_prev = 0xc0010000, le_next = 0xc0010008\<rparr>,
              0xc0010008 \<mapsto> \<lparr>le_prev = 0xc0101024, le_next = 0\<rparr>,
              0xc0020008 \<mapsto> \<lparr>le_prev = 0, le_next = 0xc0102024\<rparr>,
              0xc0102024 \<mapsto> \<lparr>le_prev = 0xc0020008, le_next = 0xc0020010\<rparr>,
              0xc0020010 \<mapsto> \<lparr>le_prev = 0xc0102024, le_next = 0\<rparr>,
              0xc009e024 \<mapsto> \<lparr>le_prev = 0, le_next = 0\<rparr>, 0xc0100024 \<mapsto> \<lparr>le_prev = 0, le_next = 0\<rparr>],
     tasks := (tasks sample_state)(0xc0101000 \<mapsto> sample_task TASK_READY 0xc0101e00,
                                   0xc0102000 \<mapsto> sample_task TASK_BLOCKED 0xc0102e00)\<rparr>"

definition woken_pc :: "u32 \<Rightarrow> pc" where
  "woken_pc = (\<lambda>_. Outside)(0xc0101000 := Waiting INTR_ON, 0xc0102000 := Waiting INTR_ON)"

lemma woken_inv: "lock_inv 0xc0020000 (woken_state, woken_pc)"
proof (rule lock_invI)
  let ?F = "[0xc0010000 \<mapsto> [0xc0101024], 0xc0020008 \<mapsto> [0xc0102024]]"
  let ?a = "sample_sched\<lparr>aready := [0xc0101000], astat := (astat sample_sched)
              (0xc0101000 \<mapsto> TASK_READY, 0xc0102000 \<mapsto> TASK_BLOCKED)\<rparr>"
  have lists: "lists_at (lmem woken_state) ?F"
    by (auto simp: lists_at_def dlist_def linked_def woken_state_def list_head_def list_tail_def
        split: if_splits)
  have run: "running_thread woken_state = 0xc009e000"
    by (simp add: running_thread_def woken_state_def sample_lock_state_def)
  have "sched_rel ?F woken_state ?a"
    unfolding sched_rel_def run using lists
    by (auto simp: sample_sched_def woken_state_def sample_lock_state_def sample_state_def
        sample_task_def general_tag_def)
  moreover have "dirs_ok woken_state"
    unfolding dirs_ok_def
    by (intro exI [of _ "{0x100000}"]) (auto simp: woken_state_def sample_lock_state_def
        sample_state_def sample_task_def split: if_splits)
  then have "threads_ok woken_state"
    unfolding threads_ok_def run
    by (auto simp: woken_state_def sample_lock_state_def sample_state_def sample_task_def NULL_def
        general_tag_def page_frame_def split: if_splits)
  moreover have "sched_inv 0xc0100000 ?a"
    by (auto simp: sched_inv_def sample_sched_def split: if_splits)
  moreover have "unlisted ?F (general_tag p)"
    if "p \<in> dom (astat ?a)" "p \<notin> set (aready ?a)" "p \<notin> {0xc0102000}" for p
    using that by (auto simp: unlisted_def sample_sched_def general_tag_def
        list_head_def list_tail_def split: if_splits)
  ultimately show "sync_part 0xc0020000 woken_state ?F ?a [0xc0102000]"
    by (auto simp: sync_part_def sema_waiters_def lock_sem_def woken_state_def sample_lock_state_def
        general_tag_def)
  show "sem_value woken_state (lock_sem 0xc0020000) = Some 1"
    "locks woken_state 0xc0020000 = Some \<lparr>holder = NULL, holder_repeat_nr = 0\<rparr>"
    by (simp_all add: woken_state_def sample_lock_state_def lock_sem_def)
  show "pc_inv (idle_thread woken_state) 1 \<lparr>holder = NULL, holder_repeat_nr = 0\<rparr> (astat ?a)
          [0xc0102000] woken_pc"
    by (auto simp: pc_inv_def woken_pc_def lock_stats_def sample_sched_def woken_state_def
        sample_lock_state_def intro: exI [of _ "0xc0101000"])
qed

section \<open>Properties\<close>

text \<open>
  C2: mutual exclusion. However the threads and the timer interleave, at any time at most one
  thread is between \<^verbatim>\<open>sema_down\<close> and \<^verbatim>\<open>sema_up\<close>; the one that holds the lock is the holder the
  lock records.
\<close>

theorem lock_mutual_exclusion:
  assumes "lock_inv lk st0" "lock_reach lk st0 (s, pc)" "critical (pc p)" "critical (pc q)"
  shows "p = q \<and> (pc p = Inside \<longrightarrow> (\<exists>l. locks s lk = Some l \<and> holder l = p \<and> holder_repeat_nr l \<noteq> 0))"
proof -
  from reach_inv [OF assms(2,1)] obtain a :: sched and ws v l where
    "locks s lk = Some l" "pc_inv (idle_thread s) v l (astat a) ws pc"
    unfolding lock_inv.simps by blast
  with pc_inv_critical(2) [OF this(2) assms(4), of p] assms(3) show ?thesis
    by (auto simp: pc_inv_def)
qed

theorem lock_mutual_exclusion_witness:
  "\<exists>s pc. lock_reach 0xc0020000 (sample_lock_state, \<lambda>_. Outside) (s, pc) \<and>
     pc 0xc009e000 = Entered \<and> (\<forall>q. critical (pc q) \<longrightarrow> q = 0xc009e000)"
proof -
  obtain s pc where r: "lock_reach 0xc0020000 (sample_lock_state, \<lambda>_. Outside) (s, pc)"
    "pc 0xc009e000 = Entered" using sample_lock_reach by (metis prod.collapse snd_conv)
  then show ?thesis
    using lock_mutual_exclusion [OF sample_lock_inv r(1), where q = "0xc009e000"] by auto
qed

text \<open>
  C20: no assertion fails. In every state the threads can reach, each operation the running
  thread may do next, \<^verbatim>\<open>sema_down\<close>, \<^verbatim>\<open>sema_up\<close>, the parts of \<^verbatim>\<open>lock_acquire\<close> and \<^verbatim>\<open>lock_release\<close>,
  \<^verbatim>\<open>thread_yield\<close>, \<^verbatim>\<open>thread_block\<close> of the idle thread and a preemption, returns.
\<close>

theorem lock_operations_never_panic:
  assumes "lock_inv lk st0" "lock_reach lk st0 st" "enabled lk op st"
  shows "\<exists>st'. perform lk op st = Inr st'"
  using perform_keeps [OF reach_inv [OF assms(2,1)] assms(3)] by blast

theorem lock_operations_never_panic_witness:
  "\<exists>st'. perform 0xc0020000 Tick (sample_lock_state, \<lambda>_. Outside) = Inr st'"
  by (rule lock_operations_never_panic [OF sample_lock_inv lock_reach.start])
     (simp add: sample_lock_state_def intr_get_status_def EFLAGS_IF_def Let_def)

text \<open>
  C21: no wakeup is lost. In every reachable state in which the semaphore is free while a
  thread is still blocked on it, another thread that waited has been woken: it is ready or
  running, and will look at the value again.
\<close>

theorem no_lost_wakeup:
  assumes "lock_inv lk st0" "lock_reach lk st0 (s, pc)" "sem_value s (lock_sem lk) = Some 1"
    and "is_Waiting (pc p)" "map_option status (tasks s p) = Some TASK_BLOCKED"
  shows "\<exists>q t. is_Waiting (pc q) \<and> tasks s q = Some t \<and> status t \<in> {TASK_READY, TASK_RUNNING}"
proof -
  from reach_inv [OF assms(2,1)] obtain a :: sched and ws l where
    st: "astat a = map_option status \<circ> tasks s" and inv: "pc_inv (idle_thread s) 1 l (astat a) ws pc"
    unfolding lock_inv.simps using assms(3) by (auto simp: sync_part_def sched_rel_def)
  have "p \<in> set ws" using inv assms(4,5) st by (simp add: pc_inv_def)
  with inv obtain q where q: "is_Waiting (pc q)" "q \<notin> set ws" by (auto simp: pc_inv_def)
  then have "astat a q \<in> lock_stats - {Some TASK_BLOCKED}" using inv by (simp add: pc_inv_def)
  then show ?thesis using q st by (auto simp: lock_stats_def)
qed


theorem no_lost_wakeup_witness:
  "\<exists>q t. is_Waiting (woken_pc q) \<and> tasks woken_state q = Some t \<and>
     status t \<in> {TASK_READY, TASK_RUNNING}"
  by (rule no_lost_wakeup [OF woken_inv lock_reach.start, of "0xc0102000"])
     (simp_all add: woken_state_def sample_lock_state_def sample_task_def lock_sem_def woken_pc_def)

end
