(* ===== verification/Io_Queue.thy ===== *)
theory Io_Queue
  imports Sync
begin

text \<open>
  The ring buffers of \<^verbatim>\<open>device/io_queue.c\<close>. A queue is the address of its \<^verbatim>\<open>struct io_queue_t\<close>,
  which is also the address of its lock. The two indices start at 0 and stay below \<^verbatim>\<open>BUF_SIZE\<close>,
  so their remainder is the unsigned one. A thread that finds the queue empty (or full) sleeps
  inside the loop of \<^verbatim>\<open>ioq_getchar\<close> (\<^verbatim>\<open>ioq_putchar\<close>); the result \<open>None\<close> of the model is that pass of
  the loop, and \<open>ioq_woken\<close> is how the thread goes on when it runs again.

  The ring is a first-in first-out queue of at most 63 bytes: an instance of the contract
  \<open>fifo\<close> of the prelude.
\<close>

section \<open>Operations\<close>

definition BUF_SIZE :: nat where
  "BUF_SIZE = 64"

record io_queue_t =
  producer :: u32
  consumer :: u32
  buf :: "u8 list"
  head :: u32
  tail :: u32

record dstate = sstate +
  ioqs :: "u32 \<rightharpoonup> io_queue_t"

definition set_ioq :: "u32 \<Rightarrow> io_queue_t \<Rightarrow> ('z) dstate_scheme \<Rightarrow> ('z) dstate_scheme" where
  "set_ioq ioq q s = s\<lparr>ioqs := (ioqs s)(ioq \<mapsto> q)\<rparr>"

definition io_queue_init :: "u32 \<Rightarrow> ('z) dstate_scheme \<Rightarrow> ('z) dstate_scheme res" where
  "io_queue_init ioq s =
     (let s = lock_init ioq s in
      bindE (deref (ioqs s ioq)) (\<lambda>q.
      Inr (set_ioq ioq (q\<lparr>producer := NULL, consumer := NULL, head := 0, tail := 0\<rparr>) s)))"

definition next_pos :: "u32 \<Rightarrow> u32" where
  "next_pos pos = (pos + 1) mod of_nat BUF_SIZE"

definition ioq_full :: "u32 \<Rightarrow> ('z) dstate_scheme \<Rightarrow> bool res" where
  "ioq_full ioq s =
     bindE (ASSERT (intr_get_status (eflags s) = INTR_OFF)) (\<lambda>_.
     bindE (deref (ioqs s ioq)) (\<lambda>q. Inr (next_pos (head q) = tail q)))"

definition ioq_empty :: "u32 \<Rightarrow> ('z) dstate_scheme \<Rightarrow> bool res" where
  "ioq_empty ioq s =
     bindE (ASSERT (intr_get_status (eflags s) = INTR_OFF)) (\<lambda>_.
     bindE (deref (ioqs s ioq)) (\<lambda>q. Inr (head q = tail q)))"

text \<open>\<^verbatim>\<open>ioq_wait\<close> and \<^verbatim>\<open>ioq_wakeup\<close> on the field of the queue given by its getter and its update.\<close>

definition ioq_wait ::
  "(io_queue_t \<Rightarrow> u32) \<Rightarrow> ((u32 \<Rightarrow> u32) \<Rightarrow> io_queue_t \<Rightarrow> io_queue_t) \<Rightarrow> u32 \<Rightarrow>
   ('z) dstate_scheme \<Rightarrow> ('z) dstate_scheme res" where
  "ioq_wait fld upd ioq s =
     bindE (deref (ioqs s ioq)) (\<lambda>q.
     bindE (ASSERT (fld q = NULL)) (\<lambda>_.
     thread_block TASK_BLOCKED (set_ioq ioq (upd (\<lambda>_. running_thread s) q) s)))"

definition ioq_wakeup ::
  "(io_queue_t \<Rightarrow> u32) \<Rightarrow> ((u32 \<Rightarrow> u32) \<Rightarrow> io_queue_t \<Rightarrow> io_queue_t) \<Rightarrow> u32 \<Rightarrow>
   ('z) dstate_scheme \<Rightarrow> ('z) dstate_scheme res" where
  "ioq_wakeup fld upd ioq s =
     bindE (deref (ioqs s ioq)) (\<lambda>q.
     bindE (ASSERT (fld q \<noteq> NULL)) (\<lambda>_.
     bindE (thread_unblock (fld q) s) (\<lambda>s.
     bindE (deref (ioqs s ioq)) (\<lambda>q. Inr (set_ioq ioq (upd (\<lambda>_. NULL) q) s)))))"

text \<open>The lines that move a byte out of and into the ring.\<close>

definition ring_get :: "io_queue_t \<Rightarrow> (u8 \<times> io_queue_t) res" where
  "ring_get q =
     bindE (read_at (buf q) (unat (tail q))) (\<lambda>byte.
     Inr (byte, q\<lparr>tail := next_pos (tail q)\<rparr>))"

definition ring_put :: "u8 \<Rightarrow> io_queue_t \<Rightarrow> io_queue_t res" where
  "ring_put byte q =
     bindE (write_at (buf q) (unat (head q)) byte) (\<lambda>b.
     Inr (q\<lparr>buf := b, head := next_pos (head q)\<rparr>))"

definition ioq_getchar :: "u32 \<Rightarrow> ('z) dstate_scheme \<Rightarrow> (u8 option \<times> ('z) dstate_scheme) res" where
  "ioq_getchar ioq s =
     bindE (ASSERT (intr_get_status (eflags s) = INTR_OFF)) (\<lambda>_.
     bindE (ioq_empty ioq s) (\<lambda>empty.
     if empty then
       bindE (lock_acquire_now ioq s) (\<lambda>s.
       mapE (Pair None) (ioq_wait consumer consumer_update ioq s))
     else
       bindE (deref (ioqs s ioq)) (\<lambda>q.
       bindE (ring_get q) (\<lambda>(byte, q).
       let s = set_ioq ioq q s in
       bindE (if producer q \<noteq> NULL then ioq_wakeup producer producer_update ioq s else Inr s) (\<lambda>s.
       Inr (Some byte, s))))))"

definition ioq_putchar :: "u32 \<Rightarrow> u8 \<Rightarrow> ('z) dstate_scheme \<Rightarrow> (unit option \<times> ('z) dstate_scheme) res" where
  "ioq_putchar ioq byte s =
     bindE (ASSERT (intr_get_status (eflags s) = INTR_OFF)) (\<lambda>_.
     bindE (ioq_full ioq s) (\<lambda>full.
     if full then
       bindE (lock_acquire_now ioq s) (\<lambda>s.
       mapE (Pair None) (ioq_wait producer producer_update ioq s))
     else
       bindE (deref (ioqs s ioq)) (\<lambda>q.
       bindE (ring_put byte q) (\<lambda>q.
       let s = set_ioq ioq q s in
       bindE (if consumer q \<noteq> NULL then ioq_wakeup consumer consumer_update ioq s else Inr s) (\<lambda>s.
       Inr (Some (), s))))))"

text \<open>A thread that slept in one of the loops releases the lock and tests the condition again.\<close>

definition ioq_woken ::
  "(u32 \<Rightarrow> ('z) dstate_scheme \<Rightarrow> ('b option \<times> ('z) dstate_scheme) res) \<Rightarrow> u32 \<Rightarrow>
   ('z) dstate_scheme \<Rightarrow> ('b option \<times> ('z) dstate_scheme) res" where
  "ioq_woken again ioq s = bindE (lock_release ioq s) (again ioq)"

section \<open>The contents of a ring\<close>

definition ring_ok :: "io_queue_t \<Rightarrow> bool" where
  "ring_ok q \<longleftrightarrow> length (buf q) = BUF_SIZE \<and> unat (head q) < BUF_SIZE \<and> unat (tail q) < BUF_SIZE"

definition ring_count :: "io_queue_t \<Rightarrow> nat" where
  "ring_count q = (unat (head q) + BUF_SIZE - unat (tail q)) mod BUF_SIZE"

definition ring_contents :: "io_queue_t \<Rightarrow> u8 list" where
  "ring_contents q = map (\<lambda>i. buf q ! ((unat (tail q) + i) mod BUF_SIZE)) [0..<ring_count q]"

lemma unat_next_pos [simp]: "unat p < BUF_SIZE \<Longrightarrow> unat (next_pos p) = (unat p + 1) mod BUF_SIZE"
  by (simp add: next_pos_def BUF_SIZE_def unat_mod unat_word_ariths)

lemma next_pos_lt: "unat p < BUF_SIZE \<Longrightarrow> unat (next_pos p) < BUF_SIZE"
  by (simp add: BUF_SIZE_def)

lemma length_contents [simp]: "length (ring_contents q) = ring_count q"
  by (simp add: ring_contents_def)

lemma ring_count_lt: "ring_count q < BUF_SIZE"
  by (simp add: ring_count_def BUF_SIZE_def)

lemma ring_empty_iff: "ring_ok q \<Longrightarrow> head q = tail q \<longleftrightarrow> ring_contents q = []"
proof -
  assume ok: "ring_ok q"
  have "ring_count q = 0 \<longleftrightarrow> unat (head q) = unat (tail q)"
    using ok unfolding ring_ok_def ring_count_def BUF_SIZE_def by (simp add: mod_if) arith
  then show ?thesis using length_contents [of q]
    by (metis length_0_conv unsigned_word_eqI)
qed

lemma ring_full_iff:
  "ring_ok q \<Longrightarrow> next_pos (head q) = tail q \<longleftrightarrow> length (ring_contents q) = BUF_SIZE - 1"
proof -
  assume ok: "ring_ok q"
  have "ring_count q = 63 \<longleftrightarrow> (unat (head q) + 1) mod 64 = unat (tail q)"
    using ok unfolding ring_ok_def ring_count_def BUF_SIZE_def by (simp add: mod_if) arith
  moreover have "next_pos (head q) = tail q \<longleftrightarrow> unat (next_pos (head q)) = unat (tail q)"
    by (auto intro: unsigned_word_eqI)
  ultimately show ?thesis using ok by (simp add: ring_ok_def BUF_SIZE_def)
qed

lemma ring_diff:
  fixes h t :: nat
  assumes "h < 64" "t < 64"
  shows "(h + 64 - t) mod 64 = (if t \<le> h then h - t else h + 64 - t)"
    and "(h + 1) mod 64 = (if h = 63 then 0 else h + 1)"
  using assms by (auto simp: mod_if)

lemma ring_arith:
  fixes h t :: nat
  assumes "h < 64" "t < 64"
  shows "(h + 64 - t) mod 64 < 63 \<Longrightarrow> ((h + 1) mod 64 + 64 - t) mod 64 = Suc ((h + 64 - t) mod 64)"
    and "(h + 64 - t) mod 64 = Suc n \<Longrightarrow> (h + 64 - (t + 1) mod 64) mod 64 = n"
    and "(t + (h + 64 - t) mod 64) mod 64 = h"
    and "(h + 64 - t) mod 64 < 63 \<Longrightarrow> i < (h + 64 - t) mod 64 \<Longrightarrow> (t + i) mod 64 \<noteq> h"
proof -
  note d = ring_diff(1) [OF assms]
  have lt: "(h + 1) mod 64 < 64" "(t + 1) mod 64 < 64" by simp_all
  show "(h + 64 - t) mod 64 < 63 \<Longrightarrow> ((h + 1) mod 64 + 64 - t) mod 64 = Suc ((h + 64 - t) mod 64)"
    using assms unfolding ring_diff(1) [OF lt(1) assms(2)] unfolding d ring_diff(2) [OF assms]
    by (auto split: if_splits)
  show "(h + 64 - t) mod 64 = Suc n \<Longrightarrow> (h + 64 - (t + 1) mod 64) mod 64 = n"
    using assms unfolding ring_diff(1) [OF assms(1) lt(2)] unfolding d ring_diff(2) [OF assms(2,1)]
    by (auto split: if_splits)
  show "(t + (h + 64 - t) mod 64) mod 64 = h"
    using assms unfolding d by (auto split: if_splits)
  show "(h + 64 - t) mod 64 < 63 \<Longrightarrow> i < (h + 64 - t) mod 64 \<Longrightarrow> (t + i) mod 64 \<noteq> h"
    using assms unfolding d by (auto simp: mod_if split: if_splits)
qed

lemma ring_put_ok:
  assumes ok: "ring_ok q" and room: "length (ring_contents q) < BUF_SIZE - 1"
  shows "\<exists>q'. ring_put b q = Inr q' \<and> ring_ok q' \<and> ring_contents q' = ring_contents q @ [b] \<and>
           producer q' = producer q \<and> consumer q' = consumer q"
proof -
  define q' where "q' = q\<lparr>buf := (buf q)[unat (head q) := b], head := next_pos (head q)\<rparr>"
  have run: "ring_put b q = Inr q'" using ok by (simp add: ring_put_def ring_ok_def q'_def)
  have ok': "ring_ok q'" using ok next_pos_lt by (simp add: ring_ok_def q'_def)
  have cnt: "ring_count q' = Suc (ring_count q)"
    using ok room ring_arith(1) [of "unat (head q)" "unat (tail q)"]
    by (simp add: ring_ok_def ring_count_def q'_def) (simp add: BUF_SIZE_def)
  have slot: "(unat (tail q) + ring_count q) mod BUF_SIZE = unat (head q)"
    using ok ring_arith(3) by (simp add: ring_ok_def ring_count_def BUF_SIZE_def)
  have other: "(unat (tail q) + i) mod BUF_SIZE \<noteq> unat (head q)" if "i < ring_count q" for i
    using ok room that ring_arith(4) by (simp add: ring_ok_def ring_count_def BUF_SIZE_def)
  have "buf q' ! ((unat (tail q) + i) mod BUF_SIZE) = buf q ! ((unat (tail q) + i) mod BUF_SIZE)"
    if "i < ring_count q" for i
    using other [OF that] by (simp add: q'_def)
  then have "ring_contents q' = ring_contents q @ [b]"
    unfolding ring_contents_def cnt using slot ok by (simp add: q'_def ring_ok_def)
  with run ok' show ?thesis by (simp add: q'_def)
qed

lemma ring_get_ok:
  assumes ok: "ring_ok q" and ne: "ring_contents q = x # xs"
  shows "\<exists>q'. ring_get q = Inr (x, q') \<and> ring_ok q' \<and> ring_contents q' = xs \<and>
           producer q' = producer q \<and> consumer q' = consumer q"
proof -
  define q' where "q' = q\<lparr>tail := next_pos (tail q)\<rparr>"
  have "0 < ring_count q" using ne length_contents [of q] by simp
  then obtain n where n: "ring_count q = Suc n" by (cases "ring_count q") auto
  have ok': "ring_ok q'" using ok next_pos_lt by (simp add: ring_ok_def q'_def)
  have cnt: "ring_count q' = n"
    using ok n ring_arith(2) [of "unat (head q)" "unat (tail q)" n]
    by (simp add: ring_ok_def ring_count_def q'_def) (simp add: BUF_SIZE_def)
  have c: "ring_contents q = buf q ! unat (tail q) # ring_contents q'"
    unfolding ring_contents_def n cnt using ok
    by (simp add: upt_conv_Cons map_Suc_upt [symmetric] q'_def ring_ok_def mod_add_left_eq
        comp_def del: upt_Suc)
  have "ring_get q = Inr (buf q ! unat (tail q), q')"
    using ok by (simp add: ring_get_def ring_ok_def q'_def)
  with c ne ok' show ?thesis by (simp add: q'_def)
qed

section \<open>Characters through a queue\<close>

lemma getchar_ready:
  assumes "intr_get_status (eflags s) = INTR_OFF" "ioqs s ioq = Some q" "ring_ok q"
    "ring_contents q = x # xs" "producer q = NULL"
  shows "\<exists>q'. ioq_getchar ioq s = Inr (Some x, set_ioq ioq q' s) \<and> ring_ok q' \<and>
           ring_contents q' = xs \<and> producer q' = NULL \<and> consumer q' = consumer q"
proof -
  from ring_get_ok [OF assms(3,4)] obtain q' where q': "ring_get q = Inr (x, q')" "ring_ok q'"
    "ring_contents q' = xs" "producer q' = producer q" "consumer q' = consumer q" by blast
  have "head q \<noteq> tail q" using ring_empty_iff [OF assms(3)] assms(4) by simp
  with q' assms show ?thesis by (auto simp: ioq_getchar_def ioq_empty_def)
qed

lemma putchar_room:
  assumes "intr_get_status (eflags s) = INTR_OFF" "ioqs s ioq = Some q" "ring_ok q"
    "length (ring_contents q) < BUF_SIZE - 1" "consumer q = NULL"
  shows "\<exists>q'. ioq_putchar ioq b s = Inr (Some (), set_ioq ioq q' s) \<and> ring_ok q' \<and>
           ring_contents q' = ring_contents q @ [b] \<and> consumer q' = NULL \<and> producer q' = producer q"
proof -
  from ring_put_ok [OF assms(3,4)] obtain q' where q': "ring_put b q = Inr q'" "ring_ok q'"
    "ring_contents q' = ring_contents q @ [b]" "producer q' = producer q" "consumer q' = consumer q"
    by blast
  have "next_pos (head q) \<noteq> tail q" using ring_full_iff [OF assms(3)] assms(4) by simp
  with q' assms show ?thesis by (auto simp: ioq_putchar_def ioq_full_def)
qed

text \<open>A character that arrives while a thread sleeps on the empty queue wakes that thread.\<close>

lemma sched_rest_dev:
  assumes "sched_rest s' = sched_rest s"
  shows "ioqs s' = ioqs s"
  using arg_cong [OF assms, of ioqs] by (simp add: sched_rest_def)

lemma putchar_wakes:
  assumes off: "intr_get_status (eflags s) = INTR_OFF" and q: "ioqs s ioq = Some q" "ring_ok q"
    "length (ring_contents q) < BUF_SIZE - 1" "consumer q \<noteq> NULL"
    and F: "lists_at (lmem s) F" "F (thread_ready_list s) = Some xs"
    and t: "tasks s (consumer q) = Some t" "may_unblock (status t)"
    and e: "unlisted F (general_tag (consumer q))" "general_tag (consumer q) \<in> dom (lmem s)"
  shows "\<exists>s' q'. ioq_putchar ioq b s = Inr (Some (), s') \<and> ioqs s' ioq = Some q' \<and> ring_ok q' \<and>
           ring_contents q' = ring_contents q @ [b] \<and> consumer q' = NULL \<and>
           tasks s' (consumer q) = Some (t\<lparr>status := TASK_READY\<rparr>) \<and>
           lists_at (lmem s') (F(thread_ready_list s \<mapsto> general_tag (consumer q) # xs)) \<and>
           running_thread s' = running_thread s"
proof -
  from ring_put_ok [OF q(2,3)] obtain q' where q': "ring_put b q = Inr q'" "ring_ok q'"
    "ring_contents q' = ring_contents q @ [b]" "producer q' = producer q" "consumer q' = consumer q"
    by blast
  let ?s = "set_ioq ioq q' s"
  from thread_unblock_ok [of ?s F xs "consumer q" t] F t e obtain m' where
    un: "thread_unblock (consumer q) ?s =
           Inr (?s\<lparr>lmem := m', tasks := (tasks ?s)(consumer q \<mapsto> t\<lparr>status := TASK_READY\<rparr>)\<rparr>)"
      "lists_at m' (F(thread_ready_list s \<mapsto> general_tag (consumer q) # xs))"
    by (auto simp: set_ioq_def)
  have full: "ioq_full ioq s = Inr False"
    using off q ring_full_iff [OF q(2)] by (simp add: ioq_full_def)
  let ?q = "q'\<lparr>consumer := NULL\<rparr>"
  have ring: "ring_ok ?q" "ring_contents ?q = ring_contents q'"
    using q'(2) by (simp_all add: ring_ok_def ring_contents_def ring_count_def)
  have "ioq_putchar ioq b s = Inr (Some (), set_ioq ioq ?q
          (?s\<lparr>lmem := m', tasks := (tasks ?s)(consumer q \<mapsto> t\<lparr>status := TASK_READY\<rparr>)\<rparr>))"
    using off q full q' un(1) by (simp add: ioq_putchar_def ioq_wakeup_def) (simp add: set_ioq_def)
  with ring q'(3) un(2) show ?thesis
    by (intro exI [of _ "set_ioq ioq ?q (?s\<lparr>lmem := m', tasks := (tasks ?s)(consumer q \<mapsto>
          t\<lparr>status := TASK_READY\<rparr>)\<rparr>)"] exI [of _ ?q])
       (simp add: set_ioq_def running_thread_def)
qed

section \<open>The queue contract\<close>

text \<open>The two operations for a caller that may not sleep, and the states in which it need not.\<close>

definition put_now :: "u32 \<Rightarrow> u8 \<Rightarrow> ('z) dstate_scheme \<Rightarrow> ('z) dstate_scheme res" where
  "put_now ioq b s = bindE (ioq_putchar ioq b s) (\<lambda>(r, s). if r = None then Inl Blocks else Inr s)"

definition get_now :: "u32 \<Rightarrow> ('z) dstate_scheme \<Rightarrow> (u8 \<times> ('z) dstate_scheme) res" where
  "get_now ioq s =
     bindE (ioq_getchar ioq s) (\<lambda>(r, s). case r of None \<Rightarrow> Inl Blocks | Some b \<Rightarrow> Inr (b, s))"

definition ioq_holds :: "u32 \<Rightarrow> ('z) dstate_scheme \<Rightarrow> u8 list \<Rightarrow> bool" where
  "ioq_holds ioq s xs \<longleftrightarrow> intr_get_status (eflags s) = INTR_OFF \<and>
     (\<exists>q. ioqs s ioq = Some q \<and> ring_ok q \<and> ring_contents q = xs \<and> producer q = NULL \<and> consumer q = NULL)"

interpretation ioq: fifo "ioq_holds ioq" "\<lambda>s xs. length xs < BUF_SIZE" "put_now ioq" "get_now ioq" for ioq
proof
  fix s :: "('z) dstate_scheme" and xs b
  assume s: "ioq_holds ioq s xs" "length (xs @ [b]) < BUF_SIZE"
  then obtain q where q: "intr_get_status (eflags s) = INTR_OFF" "ioqs s ioq = Some q" "ring_ok q"
    "ring_contents q = xs" "producer q = NULL" "consumer q = NULL" by (auto simp: ioq_holds_def)
  have "length (ring_contents q) < BUF_SIZE - 1" using q(4) s(2) by (simp add: BUF_SIZE_def)
  from putchar_room [OF q(1-3) this q(6), of b] q(4,5) obtain q' where
    "ioq_putchar ioq b s = Inr (Some (), set_ioq ioq q' s)" "ring_ok q'"
    "ring_contents q' = xs @ [b]" "consumer q' = NULL" "producer q' = NULL" by auto
  with q(1) show "\<exists>s'. put_now ioq b s = Inr s' \<and> ioq_holds ioq s' (xs @ [b]) \<and>
          (\<lambda>xs. length xs < BUF_SIZE) = (\<lambda>xs. length xs < BUF_SIZE)"
    by (auto simp: put_now_def ioq_holds_def set_ioq_def)
next
  fix s :: "('z) dstate_scheme" and x xs
  assume "ioq_holds ioq s (x # xs)"
  then obtain q where q: "intr_get_status (eflags s) = INTR_OFF" "ioqs s ioq = Some q" "ring_ok q"
    "ring_contents q = x # xs" "producer q = NULL" "consumer q = NULL" by (auto simp: ioq_holds_def)
  from getchar_ready [OF q(1-5)] q(6) obtain q' where
    "ioq_getchar ioq s = Inr (Some x, set_ioq ioq q' s)" "ring_ok q'"
    "ring_contents q' = xs" "consumer q' = NULL" "producer q' = NULL" by auto
  with q(1) show "\<exists>s'. get_now ioq s = Inr (x, s') \<and> ioq_holds ioq s' xs \<and>
          (\<lambda>xs. length xs < BUF_SIZE) = (\<lambda>xs. length xs < BUF_SIZE)"
    by (auto simp: get_now_def ioq_holds_def set_ioq_def)
qed auto

section \<open>Properties\<close>

text \<open>
  C32: bytes leave a queue in the order they were put in: with the contents \<open>xs\<close> and up to
  63 bytes in all, \<^verbatim>\<open>ioq_putchar\<close> never sleeps, and as many \<^verbatim>\<open>ioq_getchar\<close> calls return \<open>xs\<close> and then
  the new bytes.
\<close>

theorem ioq_first_in_first_out:
  assumes "ioq_holds ioq s xs" "length (xs @ bs) < BUF_SIZE"
  shows "\<exists>s' s''. feed (put_now ioq) bs s = Inr s' \<and>
           drain (get_now ioq) (length xs + length bs) s' = Inr (xs @ bs, s'') \<and>
           ioq_empty ioq s'' = Inr True"
proof -
  from ioq.feed_drain [OF assms] obtain s' s'' where "feed (put_now ioq) bs s = Inr s'"
    "drain (get_now ioq) (length xs + length bs) s' = Inr (xs @ bs, s'')" "ioq_holds ioq s'' []"
    by blast
  then show ?thesis using ring_empty_iff by (fastforce simp: ioq_holds_def ioq_empty_def)
qed

definition sample_ioq :: io_queue_t where
  "sample_ioq = \<lparr>producer = NULL, consumer = NULL, buf = replicate 64 0, head = 63, tail = 63\<rparr>"

definition sample_dev :: dstate where
  "sample_dev = \<lparr>eflags = 0x002, lmem = lmem sample_state, cr3 = 0x100000, pmem = (\<lambda>_. 0), invlpgs = [],
     esp = 0xc009ee00, tss_esp0 = 0, tasks = tasks sample_state, main_thread = 0xc009e000,
     idle_thread = 0xc0100000, thread_ready_list = 0xc0010000, thread_all_list = 0xc0010010,
     saved_intr = (\<lambda>_. INTR_ON), sem_value = Map.empty, locks = Map.empty,
     ioqs = [0xc0030000 \<mapsto> sample_ioq]\<rparr>"

theorem ioq_first_in_first_out_witness:
  "\<exists>s' s''. feed (put_now 0xc0030000) [104, 105] sample_dev = Inr s' \<and>
     drain (get_now 0xc0030000) 2 s' = Inr ([104, 105], s'')"
proof -
  have "ioq_holds 0xc0030000 sample_dev []"
    by (simp add: ioq_holds_def sample_dev_def sample_ioq_def ring_ok_def ring_contents_def
        ring_count_def BUF_SIZE_def intr_get_status_def EFLAGS_IF_def)
  from ioq_first_in_first_out [OF this, of "[104, 105]"] show ?thesis
    by (simp add: BUF_SIZE_def numeral_2_eq_2) blast
qed

text \<open>
  A byte put into a queue on which a thread sleeps wakes that thread: it becomes ready, at
  the front of the ready queue, the queue forgets the sleeper, and the byte is in the ring.
\<close>

theorem ioq_putchar_wakes_consumer:
  assumes "intr_get_status (eflags s) = INTR_OFF" "ioqs s ioq = Some q" "ring_ok q"
    "length (ring_contents q) < BUF_SIZE - 1" "consumer q \<noteq> NULL"
    and "lists_at (lmem s) F" "F (thread_ready_list s) = Some xs"
    and "tasks s (consumer q) = Some t" "status t = TASK_BLOCKED"
    and "unlisted F (general_tag (consumer q))" "general_tag (consumer q) \<in> dom (lmem s)"
  shows "\<exists>s' q'. ioq_putchar ioq b s = Inr (Some (), s') \<and> ioqs s' ioq = Some q' \<and>
           ring_contents q' = ring_contents q @ [b] \<and> consumer q' = NULL \<and>
           tasks s' (consumer q) = Some (t\<lparr>status := TASK_READY\<rparr>) \<and>
           lists_at (lmem s') (F(thread_ready_list s \<mapsto> general_tag (consumer q) # xs)) \<and>
           running_thread s' = running_thread s"
  using putchar_wakes [OF assms(1-8) _ assms(10,11), of b] assms(9) by (auto simp: may_unblock_def)

theorem ioq_putchar_wakes_consumer_witness:
  "\<exists>s' t. ioq_putchar 0xc0030000 104
       (set_ioq 0xc0030000 (sample_ioq\<lparr>consumer := 0xc0100000\<rparr>) sample_dev) = Inr (Some (), s') \<and>
     tasks s' 0xc0100000 = Some t \<and> status t = TASK_READY"
proof -
  let ?q = "sample_ioq\<lparr>consumer := 0xc0100000\<rparr>"
  have "lists_at (lmem (set_ioq 0xc0030000 ?q sample_dev)) sample_family"
    using sample_lists by (simp add: set_ioq_def sample_dev_def)
  with ioq_putchar_wakes_consumer [of "set_ioq 0xc0030000 ?q sample_dev" "0xc0030000" ?q
      sample_family "[]" "sample_task TASK_BLOCKED 0xc0100e00" 104] sample_ok(5)
  show ?thesis
    by (simp add: set_ioq_def sample_dev_def sample_ioq_def ring_ok_def ring_contents_def
        ring_count_def BUF_SIZE_def intr_get_status_def EFLAGS_IF_def sample_state_def NULL_def
        sample_family_def general_tag_def sample_task_def)
      fastforce
qed

end
