(* ===== verification/Lib_Stdio.thy ===== *)
theory Lib_Stdio
  imports Lib_String
begin

text \<open>
  Formatted output, \<^verbatim>\<open>lib/stdio.c\<close> and \<^verbatim>\<open>lib/kernel/stdio_kernel.c\<close>. The variadic
  arguments are a list of stack slots, each a 32-bit word or a pointer to a string; a slot
  read as the wrong kind, or past the last one, is outside what the caller passed.
  \<^verbatim>\<open>vsprintf\<close> does not write a terminating zero: it stores the converted bytes over the
  front of the buffer and then measures the buffer with \<^verbatim>\<open>strlen\<close>.
\<close>

section \<open>Conversions\<close>

definition digit_char :: "u32 \<Rightarrow> u8" where
  "digit_char m = (if m < 10 then ucast m + 48 else ucast m - 10 + 65)"

text \<open>
  \<^verbatim>\<open>itoa\<close>: a zero base raises the divide exception, whose handler never returns; base 1
  recurses for ever on every value but 0.
\<close>

function itoa :: "u32 \<Rightarrow> u8 \<Rightarrow> u8 list res" where
  "itoa v base =
     (if base = 0 then Inl Panic
      else if base = 1 \<and> v \<noteq> 0 then Inl Diverges
      else let m = v mod ucast base; i = v div ucast base in
           bindE (if i \<noteq> 0 then itoa i base else Inr []) (\<lambda>p. Inr (p @ [digit_char m])))"
  by pat_completeness auto

termination
proof (relation "measure (\<lambda>(v, base). unat v)", goal_cases)
  case (2 v base m i)
  then have "v \<noteq> 0" "base \<noteq> 1" by auto
  with 2 have "1 < unat base" using word_gt_1_unat by blast
  moreover have "0 < unat v" using \<open>v \<noteq> 0\<close> by (simp add: unat_gt_0)
  ultimately have "unat v div unat base < unat v" by simp
  with 2 show ?case by (simp add: unat_div)
qed simp

declare itoa.simps [simp del]

datatype fmt_arg = ArgStr "u8 list" | ArgWord u32

definition asc :: "char \<Rightarrow> u8" where
  "asc c = of_char c"

fun vsprintf_loop :: "u8 list \<Rightarrow> fmt_arg list \<Rightarrow> u8 list res" where
  "vsprintf_loop [] ap = Inl OutOfBounds"
| "vsprintf_loop (c # fs) ap =
     (if c = 0 then Inr []
      else if c \<noteq> asc CHR ''%'' then mapE (Cons c) (vsprintf_loop fs ap)
      else (case fs of
              [] \<Rightarrow> Inl OutOfBounds
            | d # fs' \<Rightarrow>
                if d = asc CHR ''s'' then
                  (case ap of
                     ArgStr s # ap' \<Rightarrow>
                       bindE (strlen_loop s) (\<lambda>n. mapE (\<lambda>r. take n s @ r) (vsprintf_loop fs' ap'))
                   | _ \<Rightarrow> Inl OutOfBounds)
                else if d = asc CHR ''c'' then
                  (case ap of
                     ArgWord w # ap' \<Rightarrow> mapE (\<lambda>r. ucast w # r) (vsprintf_loop fs' ap')
                   | _ \<Rightarrow> Inl OutOfBounds)
                else if d = asc CHR ''d'' then
                  (case ap of
                     ArgWord w # ap' \<Rightarrow>
                       bindE (itoa (if w <s 0 then 0 - w else w) 10) (\<lambda>ds.
                       mapE (\<lambda>r. (if w <s 0 then [asc CHR ''-''] else []) @ ds @ r)
                         (vsprintf_loop fs' ap'))
                   | _ \<Rightarrow> Inl OutOfBounds)
                else if d = asc CHR ''x'' then
                  (case ap of
                     ArgWord w # ap' \<Rightarrow>
                       bindE (itoa w 16) (\<lambda>ds. mapE (\<lambda>r. ds @ r) (vsprintf_loop fs' ap'))
                   | _ \<Rightarrow> Inl OutOfBounds)
                else vsprintf_loop (d # fs') ap))"

definition vsprintf :: "u8 list \<Rightarrow> u8 list \<Rightarrow> fmt_arg list \<Rightarrow> (u32 \<times> u8 list) res" where
  "vsprintf dst format ap =
     bindE (vsprintf_loop format ap) (\<lambda>out.
     bindE (memcpy_loop dst out (length out)) (\<lambda>dst.
     mapE (\<lambda>n. (n, dst)) (strlen (Some dst))))"

definition snprintf :: "u8 list \<Rightarrow> u32 \<Rightarrow> u8 list \<Rightarrow> fmt_arg list \<Rightarrow> (u32 \<times> u8 list) res" where
  "snprintf buf sz format ap = vsprintf buf format ap"

text \<open>
  \<^verbatim>\<open>printf\<close> hands the string to \<^verbatim>\<open>write(1, \<dots>)\<close>, \<^verbatim>\<open>printk\<close> to \<^verbatim>\<open>console_put_str\<close>: the
  result is the count and the bytes that are passed on.
\<close>

definition printf :: "u8 list \<Rightarrow> fmt_arg list \<Rightarrow> (u32 \<times> u8 list) res" where
  "printf format ap = vsprintf (replicate 1024 0) format ap"

definition printk :: "u8 list \<Rightarrow> fmt_arg list \<Rightarrow> u8 list res" where
  "printk format ap = mapE snd (vsprintf (replicate 1024 0) format ap)"

section \<open>What the conversions print\<close>

text \<open>The number a string of digits denotes in a base: the reference for \<^verbatim>\<open>itoa\<close>.\<close>

definition char_digit :: "u8 \<Rightarrow> nat" where
  "char_digit c = (if c < 65 then unat c - 48 else unat c - 55)"

definition digits_value :: "nat \<Rightarrow> u8 list \<Rightarrow> nat" where
  "digits_value b ds = foldl (\<lambda>n c. n * b + char_digit c) 0 ds"

lemma digits_value_snoc: "digits_value b (ds @ [c]) = digits_value b ds * b + char_digit c"
  by (simp add: digits_value_def)

lemma char_digit_digit_char: "m < 36 \<Longrightarrow> char_digit (digit_char m) = unat m"
proof -
  assume "m < 36"
  then have m: "unat m < 36" by (simp add: word_less_nat_alt)
  then have u: "unat (ucast m :: u8) = unat m" by (simp add: unat_ucast_small)
  show ?thesis
  proof (cases "m < 10")
    case True
    then have "unat m < 10" by (simp add: word_less_nat_alt)
    then have "unat (ucast m + 48 :: u8) = unat m + 48" using u by (simp add: unat_word_ariths)
    with True \<open>unat m < 10\<close> show ?thesis
      by (simp add: char_digit_def digit_char_def word_less_nat_alt)
  next
    case False
    then have "10 \<le> unat m" by (simp add: word_less_nat_alt)
    then have "unat (ucast m - 10 + 65 :: u8) = unat m + 55"
      using u m by (simp add: unat_word_ariths)
    with False \<open>10 \<le> unat m\<close> show ?thesis
      by (simp add: char_digit_def digit_char_def word_less_nat_alt)
  qed
qed

lemma digit_char_nonzero: "m < 36 \<Longrightarrow> digit_char m \<noteq> 0"
proof
  assume m: "m < 36" and "digit_char m = 0"
  then have "unat m = 0" using char_digit_digit_char [OF m] by (simp add: char_digit_def)
  then have "m = 0" by (simp add: unsigned_eq_0_iff)
  with \<open>digit_char m = 0\<close> show False by (simp add: digit_char_def)
qed

text \<open>
  \<^verbatim>\<open>itoa\<close> returns a numeral of the value in the base, with no zero byte and at most 32
  digits, so the buffers of \<^verbatim>\<open>printf\<close> and \<^verbatim>\<open>printk\<close> have room for it.
\<close>

lemma itoa_value:
  assumes "1 < base" "base \<le> 36"
  shows "\<exists>ds. itoa v base = Inr ds \<and> digits_value (unat base) ds = unat v \<and> nul_free ds \<and>
           ds \<noteq> [] \<and> (length ds = 1 \<or> unat base ^ (length ds - 1) \<le> unat v)"
  using assms
proof (induction v base rule: itoa.induct)
  case (1 v base)
  let ?i = "v div ucast base" and ?m = "v mod ucast base"
  have base: "base \<noteq> 0" "base \<noteq> 1" using 1 by auto
  have "unat ?m < unat base" using base by (simp add: unat_mod unat_gt_0)
  also have "unat base \<le> 36" using 1 by (simp add: word_le_nat_alt)
  finally have m: "?m < 36" by (simp add: word_less_nat_alt)
  have eq: "unat v = unat ?i * unat base + unat ?m"
    by (simp add: unat_div unat_mod)
  show ?case
  proof (cases "?i = 0")
    case True
    then have "itoa v base = Inr [digit_char ?m]"
      using base by (subst itoa.simps) auto
    with True eq m show ?thesis
      by (simp add: digits_value_def char_digit_digit_char digit_char_nonzero)
  next
    case False
    have "\<not> (base = 1 \<and> v \<noteq> 0)" using base by simp
    with 1 base False obtain ds where ds: "itoa ?i base = Inr ds" "nul_free ds" "ds \<noteq> []"
      "digits_value (unat base) ds = unat ?i"
      "length ds = 1 \<or> unat base ^ (length ds - 1) \<le> unat ?i"
      by blast
    have "1 \<le> unat ?i" using False by (simp add: Suc_le_eq unat_gt_0)
    with ds have "unat base ^ (length ds - 1) \<le> unat ?i" by auto
    then have "unat base ^ (length ds - 1) * unat base \<le> unat v"
      using eq by (metis mult_le_mono1 trans_le_add1)
    then have "unat base ^ length ds \<le> unat v"
      using ds(3) by (cases ds) (simp_all add: mult.commute)
    moreover have "itoa v base = Inr (ds @ [digit_char ?m])"
      using False base ds by (subst itoa.simps) (auto simp: Let_def)
    ultimately show ?thesis
      using ds eq m by (simp add: digits_value_snoc char_digit_digit_char digit_char_nonzero)
  qed
qed

lemma itoa_10:
  obtains ds where "itoa v 10 = Inr ds" "digits_value 10 ds = unat v" "nul_free ds"
    "ds \<noteq> []" "length ds \<le> 32"
proof -
  obtain ds where ds: "itoa v 10 = Inr ds" "digits_value 10 ds = unat v" "nul_free ds"
    "ds \<noteq> []" "length ds = 1 \<or> 10 ^ (length ds - 1) \<le> unat v"
    using itoa_value [of 10 v] by auto
  have "length ds \<le> 32"
  proof (cases "length ds = 1")
    case False
    have "(2::nat) ^ (length ds - 1) \<le> 10 ^ (length ds - 1)" by (rule power_mono) simp_all
    also have "\<dots> < 2 ^ 32" using ds(5) False unat_u32_lt [of v] by linarith
    finally have "length ds - 1 < 32" using power_less_imp_less_exp [of 2 "length ds - 1" 32] by simp
    then show ?thesis by simp
  qed simp
  with ds that show ?thesis by blast
qed

lemma vsprintf_zero_buffer:
  assumes "vsprintf_loop format ap = Inr out" "nul_free out" "length out < n"
  shows "vsprintf (replicate n 0) format ap =
         Inr (of_nat (length out), out @ replicate (n - length out) 0)"
proof -
  obtain k where k: "n - length out = Suc k" using assms(3) by (cases "n - length out") auto
  have "strlen_loop (out @ replicate (n - length out) 0) = Inr (length out)"
    using assms(2) k by simp
  with assms show ?thesis
    by (simp add: vsprintf_def memcpy_loop_eq strlen_def)
qed

lemma vsprintf_plain:
  "nul_free fs \<Longrightarrow> asc CHR ''%'' \<notin> set fs \<Longrightarrow> vsprintf_loop (fs @ 0 # r) ap = Inr fs"
  by (induction fs) (auto simp: asc_def)

lemma vsprintf_loop_d:
  assumes "itoa (if w <s 0 then 0 - w else w) 10 = Inr ds"
  shows "vsprintf_loop (asc CHR ''%'' # asc CHR ''d'' # 0 # r) [ArgWord w] =
         Inr ((if w <s 0 then [asc CHR ''-''] else []) @ ds)"
  using assms by (simp add: asc_def)

lemma unat_abs_sint:
  "unat (if w <s 0 then 0 - w else w) = nat \<bar>sint (w :: u32)\<bar>"
proof (cases "w <s 0")
  case True
  then have neg: "sint w < 0" by (simp add: word_sless_alt)
  have "- w = word_of_int (- sint w)" by simp
  then have "uint (- w) = take_bit 32 (- sint w)" by (simp only: uint_word_of_int_eq) simp
  also have "\<dots> = - sint w"
    using neg sint_ge [of w] by (simp add: take_bit_int_eq_self_iff)
  finally have "nat (uint (- w)) = nat (- sint w)" by simp
  with True neg show ?thesis by simp
next
  case False
  then have pos: "0 \<le> sint w" by (simp add: word_sless_alt)
  have "uint w = take_bit 32 (sint w)" by (simp add: uint_sint)
  also have "\<dots> = sint w"
    using pos sint_lt [of w] by (simp add: take_bit_int_eq_self_iff)
  finally have "nat (uint w) = nat (sint w)" by simp
  with False pos show ?thesis by simp
qed

section \<open>Properties\<close>

text \<open>
  \<^verbatim>\<open>printf("%d", w)\<close> prints every 32-bit argument as an optional minus sign followed by
  a decimal numeral of the absolute value of the signed argument (the smallest integer, whose
  negation overflows, included), passes on exactly that string and returns its length.
\<close>

theorem printf_decimal_roundtrip:
  "\<exists>ds. printf (str ''%d'' @ [0]) [ArgWord w] =
          Inr (of_nat (length ds), ds @ replicate (1024 - length ds) 0) \<and>
        (if sint w < 0 then hd ds = of_char (CHR ''-'') \<and> digits_value 10 (tl ds) = nat (- sint w)
         else digits_value 10 ds = nat (sint w))"
proof -
  let ?a = "if w <s 0 then 0 - w else w" and ?sgn = "if w <s 0 then [asc CHR ''-''] else []"
  obtain ds where ds: "itoa ?a 10 = Inr ds" "digits_value 10 ds = unat ?a" "nul_free ds"
    "length ds \<le> 32" by (rule itoa_10)
  have loop: "vsprintf_loop (str ''%d'' @ [0]) [ArgWord w] = Inr (?sgn @ ds)"
    using vsprintf_loop_d [OF ds(1), of "[]"] by (simp add: str_def asc_def)
  have "nul_free (?sgn @ ds)" using ds(3) by (simp add: asc_def)
  moreover have "length (?sgn @ ds) < 1024" using ds(4) by simp
  ultimately have "printf (str ''%d'' @ [0]) [ArgWord w] =
    Inr (of_nat (length (?sgn @ ds)), (?sgn @ ds) @ replicate (1024 - length (?sgn @ ds)) 0)"
    unfolding printf_def using loop by (rule vsprintf_zero_buffer [rotated])
  moreover have "digits_value 10 ds = nat \<bar>sint w\<bar>" using ds(2) by (simp only: unat_abs_sint)
  moreover have "w <s 0 \<longleftrightarrow> sint w < 0" by (simp add: word_sless_alt)
  ultimately show ?thesis by (intro exI [of _ "?sgn @ ds"]) (simp add: asc_def)
qed

end
