(* ===== verification/Devices.thy ===== *)
theory Devices
  imports Io_Queue Lib_Stdio
begin

text \<open>
  The interrupt handlers of the devices and what sets them up: the table of handlers and the
  interrupt controller of \<^verbatim>\<open>kernel/interrupt.c\<close>, the keyboard of \<^verbatim>\<open>device/keyboard.c\<close>, the timer of
  \<^verbatim>\<open>device/timer.c\<close> and the console of \<^verbatim>\<open>device/console.c\<close>. Writes to input/output ports and to the
  screen (the routines of \<^verbatim>\<open>lib/kernel/print.s\<close>) are kept as traces. A handler runs with
  interrupts off, as the processor enters it through an interrupt gate.
\<close>

section \<open>State\<close>

datatype intr_handler = General_Handler | Timer_Handler | Keyboard_Handler | Hd_Handler

text \<open>The calls of the screen routines of \<^verbatim>\<open>lib/kernel/print.s\<close>.\<close>

datatype screen_item = Put_Char u8 | Put_Str "u8 list" | Put_Int u32 | Set_Cursor u32

record kbd_status =
  ctrl_status :: bool
  shift_status :: bool
  alt_status :: bool
  caps_lock_status :: bool
  ext_scan_code :: bool

record kstate = dstate +
  idt_table :: "intr_handler list"
  intr_name :: "string list"
  port_writes :: "(u16 \<times> u8) list"
  screen :: "screen_item list"
  kbd :: kbd_status
  kbd_buf :: u32
  ticks_now :: u32
  console_lock :: u32

definition outb :: "u16 \<Rightarrow> u8 \<Rightarrow> ('z) kstate_scheme \<Rightarrow> ('z) kstate_scheme" where
  "outb port data s = s\<lparr>port_writes := port_writes s @ [(port, data)]\<rparr>"

definition put_screen :: "screen_item \<Rightarrow> ('z) kstate_scheme \<Rightarrow> ('z) kstate_scheme" where
  "put_screen it s = s\<lparr>screen := screen s @ [it]\<rparr>"

definition put_str :: "string \<Rightarrow> ('z) kstate_scheme \<Rightarrow> ('z) kstate_scheme" where
  "put_str x s = put_screen (Put_Str (str x)) s"

section \<open>Handlers and the interrupt controller\<close>

definition register_handler :: "u8 \<Rightarrow> intr_handler \<Rightarrow> ('z) kstate_scheme \<Rightarrow> ('z) kstate_scheme res" where
  "register_handler vector_no function s =
     bindE (write_at (idt_table s) (unat vector_no) function) (\<lambda>t. Inr (s\<lparr>idt_table := t\<rparr>))"

definition exception_names :: "(nat \<times> string) list" where
  "exception_names =
     [(0, ''#DE Divide Error''), (1, ''#DB Debug Exception''), (2, ''NMI Interrupt''),
      (3, ''#BP Breakpoint Exception''), (4, ''#OF Overflow Exception''),
      (5, ''#BR BOUND Range Exceeded Exception''), (6, ''#UD Invalid Opcode Exception''),
      (7, ''#NM Device Not Available Exception''), (8, ''#DF Double Fault Exception''),
      (9, ''Coprocessor Segment Overrun''), (10, ''#TS Invalid TSS Exception''),
      (11, ''#NP Segment Not Present''), (12, ''#SS Stack Fault Exception''),
      (13, ''#GP General Protection Exception''), (14, ''#PF Page-Fault Exception''),
      (16, ''#MF x87 FPU Floating-Point Error''), (17, ''#AC Alignment Check Exception''),
      (18, ''#MC Machine-Check Exception''), (19, ''#XF SIMD Floating-Point Exception'')]"

definition exception_init :: "('z) kstate_scheme \<Rightarrow> ('z) kstate_scheme" where
  "exception_init s = s\<lparr>idt_table := replicate IDT_DESC_CNT General_Handler,
     intr_name := fold (\<lambda>(i, n) xs. xs[i := n]) exception_names (replicate IDT_DESC_CNT ''unknown'')\<rparr>"

definition PIC_M_CTRL :: u16 where "PIC_M_CTRL = 0x20"
definition PIC_M_DATA :: u16 where "PIC_M_DATA = 0x21"
definition PIC_S_CTRL :: u16 where "PIC_S_CTRL = 0xa0"
definition PIC_S_DATA :: u16 where "PIC_S_DATA = 0xa1"

definition pic_init :: "('z) kstate_scheme \<Rightarrow> ('z) kstate_scheme" where
  "pic_init s =
     put_str (''pic_init done'' @ [CHR 0x0A])
     (outb PIC_S_DATA 0xbf (outb PIC_M_DATA 0xf8
     (outb PIC_S_DATA 0x01 (outb PIC_S_DATA 0x02 (outb PIC_S_DATA 0x28 (outb PIC_S_CTRL 0x11
     (outb PIC_M_DATA 0x01 (outb PIC_M_DATA 0x04 (outb PIC_M_DATA 0x20 (outb PIC_M_CTRL 0x11 s))))))))))"

text \<open>
  The general handler: a spurious interrupt returns, every other one reports its name and spins. The result says whether it
  returned; \<open>cr2\<close> is the register with the address of a page fault.
\<close>

definition general_intr_handler :: "u32 \<Rightarrow> u8 \<Rightarrow> ('z) kstate_scheme \<Rightarrow> (bool \<times> ('z) kstate_scheme) res" where
  "general_intr_handler cr2 vec_nr s =
     (if vec_nr = 0x27 \<or> vec_nr = 0x2f then Inr (True, s)
      else
        let s = put_screen (Set_Cursor 0) s;
            s = fold (\<lambda>_. put_screen (Put_Char 32)) [0..<320] s;
            s = put_screen (Set_Cursor 0) s;
            s = put_str (''!!!   exception message begin   !!!'' @ [CHR 0x0A]) s;
            s = put_screen (Set_Cursor 88) s
        in bindE (read_at (intr_name s) (unat vec_nr)) (\<lambda>name.
           let s = put_str [CHR 0x0A] (put_str name s);
               s = (if vec_nr = 14
                    then put_str [CHR 0x0A] (put_screen (Put_Int cr2) (put_str ''page fault addr is '' s)) else s)
           in Inr (False, put_str (''!!!   exception message end   !!!'' @ [CHR 0x0A]) s)))"

section \<open>Keyboard\<close>

definition keymap :: "(u8 \<times> u8) list" where
  "keymap =
    [(0x00, 0x00), (0x1b, 0x1b), (0x31, 0x21), (0x32, 0x40), (0x33, 0x23), (0x34, 0x24),
     (0x35, 0x25), (0x36, 0x5e), (0x37, 0x26), (0x38, 0x2a), (0x39, 0x28), (0x30, 0x29),
     (0x2d, 0x5f), (0x3d, 0x2b), (0x08, 0x08), (0x09, 0x09), (0x71, 0x51), (0x77, 0x57),
     (0x65, 0x45), (0x72, 0x52), (0x74, 0x54), (0x79, 0x59), (0x75, 0x55), (0x69, 0x49),
     (0x6f, 0x4f), (0x70, 0x50), (0x5b, 0x7b), (0x5d, 0x7d), (0x0d, 0x0d), (0x00, 0x00),
     (0x61, 0x41), (0x73, 0x53), (0x64, 0x44), (0x66, 0x46), (0x67, 0x47), (0x68, 0x48),
     (0x6a, 0x4a), (0x6b, 0x4b), (0x6c, 0x4c), (0x3b, 0x3a), (0x27, 0x22), (0x60, 0x7e),
     (0x00, 0x00), (0x5c, 0x7c), (0x7a, 0x5a), (0x78, 0x58), (0x63, 0x43), (0x76, 0x56),
     (0x62, 0x42), (0x6e, 0x4e), (0x6d, 0x4d), (0x2c, 0x3c), (0x2e, 0x3e), (0x2f, 0x3f),
     (0x00, 0x00), (0x2a, 0x2a), (0x00, 0x00), (0x20, 0x20), (0x00, 0x00)]"

definition shift_l_make :: u16 where "shift_l_make = 0x2a"
definition shift_r_make :: u16 where "shift_r_make = 0x36"
definition alt_l_make :: u16 where "alt_l_make = 0x38"
definition alt_r_make :: u16 where "alt_r_make = 0xe038"
definition ctrl_l_make :: u16 where "ctrl_l_make = 0x1d"
definition ctrl_r_make :: u16 where "ctrl_r_make = 0xe01d"
definition caps_lock_make :: u16 where "caps_lock_make = 0x3a"

text \<open>The keys that carry two characters other than the two cases of a letter.\<close>

definition two_chars :: "u16 \<Rightarrow> bool" where
  "two_chars scan_code \<longleftrightarrow> scan_code < 0x0e \<or> scan_code = 0x29 \<or> scan_code = 0x1a \<or>
     scan_code = 0x1b \<or> scan_code = 0x2b \<or> scan_code = 0x27 \<or> scan_code = 0x28 \<or>
     scan_code = 0x33 \<or> scan_code = 0x34 \<or> scan_code = 0x35"

definition key_released :: "u16 \<Rightarrow> kbd_status \<Rightarrow> kbd_status" where
  "key_released make_code k =
     (if make_code = ctrl_l_make \<or> make_code = ctrl_r_make then k\<lparr>ctrl_status := False\<rparr>
      else if make_code = shift_l_make \<or> make_code = shift_r_make then k\<lparr>shift_status := False\<rparr>
      else if make_code = alt_l_make \<or> make_code = alt_r_make then k\<lparr>alt_status := False\<rparr>
      else k)"

definition key_pressed :: "u16 \<Rightarrow> kbd_status \<Rightarrow> kbd_status" where
  "key_pressed scan_code k =
     (if scan_code = ctrl_l_make \<or> scan_code = ctrl_r_make then k\<lparr>ctrl_status := True\<rparr>
      else if scan_code = shift_l_make \<or> scan_code = shift_r_make then k\<lparr>shift_status := True\<rparr>
      else if scan_code = alt_l_make \<or> scan_code = alt_r_make then k\<lparr>alt_status := True\<rparr>
      else if scan_code = caps_lock_make then k\<lparr>caps_lock_status := \<not> caps_lock_status k\<rparr>
      else k)"

definition key_shifted :: "u16 \<Rightarrow> kbd_status \<Rightarrow> bool" where
  "key_shifted scan_code k =
     (if two_chars scan_code then shift_status k
      else if shift_status k \<and> caps_lock_status k then False
      else if shift_status k \<or> caps_lock_status k then True
      else False)"

definition intr_keyboard_handler :: "u8 \<Rightarrow> ('z) kstate_scheme \<Rightarrow> ('z) kstate_scheme res" where
  "intr_keyboard_handler data s =
     (let k = kbd s; scan_code = ucast data :: u16 in
      if scan_code = 0xe0 then Inr (s\<lparr>kbd := k\<lparr>ext_scan_code := True\<rparr>\<rparr>)
      else
        let ext = ext_scan_code k;
            k = (if ext then k\<lparr>ext_scan_code := False\<rparr> else k);
            scan_code = (if ext then 0xe000 OR scan_code else scan_code);
            s = s\<lparr>kbd := k\<rparr>
        in if scan_code AND 0x0080 \<noteq> 0 then Inr (s\<lparr>kbd := key_released (scan_code AND 0xff7f) k\<rparr>)
           else if (scan_code > 0x00 \<and> scan_code < 0x3b) \<or> scan_code = alt_r_make \<or>
                   scan_code = ctrl_r_make then
             let shift = key_shifted scan_code k;
                 scan_code = scan_code AND 0x00ff
             in bindE (read_at keymap (unat scan_code)) (\<lambda>(plain, shifted).
                let cur_char = (if shift then shifted else plain) in
                if cur_char \<noteq> 0 then
                  bindE (ioq_full (kbd_buf s) s) (\<lambda>full.
                  if \<not> full then
                    bindE (ioq_putchar (kbd_buf s) cur_char s) (\<lambda>(r, s).
                    if r = None then Inl Blocks else Inr s)
                  else Inr s)
                else Inr (s\<lparr>kbd := key_pressed scan_code k\<rparr>))
           else Inr (put_str (''unkown key'' @ [CHR 0x0A]) s))"

definition keyboard_init :: "('z) kstate_scheme \<Rightarrow> ('z) kstate_scheme res" where
  "keyboard_init s =
     bindE (io_queue_init (kbd_buf s) (put_str (''keyboard init start'' @ [CHR 0x0A]) s)) (\<lambda>s.
     bindE (register_handler 0x21 Keyboard_Handler s) (\<lambda>s.
     Inr (put_str (''keyboard init end'' @ [CHR 0x0A]) s)))"

section \<open>Timer\<close>

definition TASK_STACK_MAGIC_VALUE :: u32 where
  "TASK_STACK_MAGIC_VALUE = 0x19971216"

definition IRQ0_FREQUENCY :: u32 where "IRQ0_FREQUENCY = 100"
definition INPUT_FREQUENCY :: u32 where "INPUT_FREQUENCY = 1193180"

text \<open>The cast binds more tightly than the division: \<^verbatim>\<open>(uint16_t)1193180U / (uint16_t)100\<close>.\<close>

definition COUNTER0_VALUE :: u16 where
  "COUNTER0_VALUE = ucast INPUT_FREQUENCY div ucast IRQ0_FREQUENCY"

definition mil_seconds_per_intr :: u32 where
  "mil_seconds_per_intr = 1000 div IRQ0_FREQUENCY"

definition intr_timer_handler :: "('z) kstate_scheme \<Rightarrow> ('z) kstate_scheme res" where
  "intr_timer_handler s =
     (let cur_thread = running_thread s in
      bindE (get_task cur_thread s) (\<lambda>t.
      bindE (ASSERT (stack_magic t = TASK_STACK_MAGIC_VALUE)) (\<lambda>_.
      bindE (upd_task cur_thread (\<lambda>t. t\<lparr>elapsed_ticks := elapsed_ticks t + 1\<rparr>) s) (\<lambda>s.
      let s = s\<lparr>ticks_now := ticks_now s + 1\<rparr> in
      if ticks t = 0 then schedule s
      else upd_task cur_thread (\<lambda>t. t\<lparr>ticks := ticks t - 1\<rparr>) s))))"

text \<open>
  One pass of the loop of \<^verbatim>\<open>ticks_to_sleep\<close>: the result says whether enough ticks have passed; if
  not, the thread has yielded.
\<close>

definition ticks_to_sleep_pass :: "u32 \<Rightarrow> u32 \<Rightarrow> ('z) kstate_scheme \<Rightarrow> (bool \<times> ('z) kstate_scheme) res" where
  "ticks_to_sleep_pass start_tick sleep_ticks s =
     (if ticks_now s - start_tick < sleep_ticks then mapE (Pair False) (thread_yield s)
      else Inr (True, s))"

definition mtime_sleep :: "u32 \<Rightarrow> ('z) kstate_scheme \<Rightarrow> (bool \<times> ('z) kstate_scheme) res" where
  "mtime_sleep m_seconds s =
     (let sleep_ticks = DIV_ROUND_UP m_seconds mil_seconds_per_intr in
      bindE (ASSERT (sleep_ticks > 0)) (\<lambda>_.
      ticks_to_sleep_pass (ticks_now s) sleep_ticks s))"

definition frequency_set ::
  "u8 \<Rightarrow> u8 \<Rightarrow> u8 \<Rightarrow> u8 \<Rightarrow> u16 \<Rightarrow> ('z) kstate_scheme \<Rightarrow> ('z) kstate_scheme" where
  "frequency_set counter_port counter_no rwl counter_mode counter_value s =
     outb (ucast counter_port) (drop_bit 8 (ucast counter_value))
     (outb (ucast counter_port) (ucast counter_value)
     (outb 0x43 (push_bit 6 counter_no OR push_bit 4 rwl OR push_bit 1 counter_mode) s))"

definition timer_init :: "('z) kstate_scheme \<Rightarrow> ('z) kstate_scheme res" where
  "timer_init s =
     (let s = put_str (''timer_init start'' @ [CHR 0x0A]) s;
          s = frequency_set 0x40 0 3 2 COUNTER0_VALUE s
      in bindE (register_handler 0x20 Timer_Handler s) (\<lambda>s.
         Inr (put_str (''timer_init done'' @ [CHR 0x0A]) s)))"

section \<open>Console\<close>

definition console_init :: "('z) kstate_scheme \<Rightarrow> ('z) kstate_scheme" where
  "console_init s = lock_init (console_lock s) s"

definition console_acquire :: "('z) kstate_scheme \<Rightarrow> ('z) kstate_scheme res" where
  "console_acquire s = lock_acquire_now (console_lock s) s"

definition console_release :: "('z) kstate_scheme \<Rightarrow> ('z) kstate_scheme res" where
  "console_release s = lock_release (console_lock s) s"

definition console_put_str :: "u8 list \<Rightarrow> ('z) kstate_scheme \<Rightarrow> ('z) kstate_scheme res" where
  "console_put_str string s =
     bindE (console_acquire s) (\<lambda>s.
     bindE (strlen_loop string) (\<lambda>n.
     console_release (put_screen (Put_Str (take n string)) s)))"

definition console_put_char :: "u8 \<Rightarrow> ('z) kstate_scheme \<Rightarrow> ('z) kstate_scheme res" where
  "console_put_char c s = bindE (console_acquire s) (\<lambda>s. console_release (put_screen (Put_Char c) s))"

definition console_put_int :: "u32 \<Rightarrow> ('z) kstate_scheme \<Rightarrow> ('z) kstate_scheme res" where
  "console_put_int num s =
     bindE (console_acquire s) (\<lambda>s. console_release (put_screen (Put_Int num) s))"

section \<open>What the keyboard types\<close>

text \<open>
  The character a scan code stands for: a letter is upper case when exactly one of shift and
  caps lock is on, another key has its upper character when shift is held.
\<close>

definition is_letter :: "u8 \<Rightarrow> bool" where
  "is_letter c \<longleftrightarrow> 97 \<le> c \<and> c \<le> 122"

definition key_char :: "kbd_status \<Rightarrow> u8 \<Rightarrow> u8 option" where
  "key_char k d =
     (if ext_scan_code k \<or> d = 0 \<or> 0x3b \<le> d then None
      else let (plain, shifted) = keymap ! unat d;
               upper = (if is_letter plain then shift_status k \<noteq> caps_lock_status k else shift_status k);
               c = (if upper then shifted else plain)
           in if c = 0 then None else Some c)"

lemma keymap_rows:
  "list_all (\<lambda>i. let (p, sh) = keymap ! i in
      (p = 0 \<longleftrightarrow> sh = 0) \<and> (p = sh \<or> (two_chars (of_nat i) \<longleftrightarrow> \<not> is_letter p))) [1..<0x3b]"
  by code_simp

lemma length_keymap: "length keymap = 0x3b"
  by code_simp

lemma keymap_row:
  fixes d :: u8
  assumes "d \<noteq> 0" "d < 0x3b"
  shows "\<exists>p sh. keymap ! unat d = (p, sh) \<and> (p = 0 \<longleftrightarrow> sh = 0) \<and>
           (p = sh \<or> (two_chars (ucast d) \<longleftrightarrow> \<not> is_letter p))"
proof -
  have "0 < unat d" "unat d < 0x3b" using assms by (auto simp: word_less_nat_alt unat_gt_0)
  then have "unat d \<in> set [1..<0x3b]" by simp
  moreover have "(of_nat (unat d) :: u16) = ucast d" by (simp add: unsigned_ucast_eq)
  ultimately show ?thesis using keymap_rows unfolding list_all_iff by (fastforce split: prod.splits)
qed

lemma key_shifted_char:
  assumes "d \<noteq> 0" "(d :: u8) < 0x3b" "\<not> ext_scan_code k"
  shows "(case keymap ! unat d of (p, sh) \<Rightarrow>
            let c = (if key_shifted (ucast d) k then sh else p) in if c = 0 then None else Some c) =
         key_char k d"
proof -
  from keymap_row [OF assms(1,2)] obtain p sh where "keymap ! unat d = (p, sh)"
    "p = 0 \<longleftrightarrow> sh = 0" "p = sh \<or> (two_chars (ucast d) \<longleftrightarrow> \<not> is_letter p)" by blast
  with assms show ?thesis by (auto simp: key_char_def key_shifted_def Let_def)
qed

text \<open>
  A scan code that produces no character: the extended prefix, every code after it, the codes of
  keys going up and the codes without an entry. They leave the buffer alone.
\<close>

lemma ucast_u8_u16:
  "(ucast (d :: u8) :: u16) = 0 \<longleftrightarrow> d = 0" "(ucast d :: u16) = 0xe0 \<longleftrightarrow> d = 0xe0"
  "(ucast d :: u16) < 0x3b \<longleftrightarrow> d < 0x3b" "unat (ucast d :: u16) = unat d"
  "(ucast d :: u16) \<noteq> alt_r_make" "(ucast d :: u16) \<noteq> ctrl_r_make"
  "(ucast d :: u16) AND 0x00ff = ucast d" "(ucast d :: u16) > 0 \<longleftrightarrow> d \<noteq> 0"
proof -
  show u: "unat (ucast d :: u16) = unat d"
    using unat_u8_lt [of d] by (simp add: unsigned_ucast_eq take_bit_nat_eq_self)
  show "(ucast d :: u16) = 0 \<longleftrightarrow> d = 0" "(ucast d :: u16) = 0xe0 \<longleftrightarrow> d = 0xe0"
    using u by (simp_all add: word_unat_eq_iff)
  show "(ucast d :: u16) < 0x3b \<longleftrightarrow> d < 0x3b"
    using u by (simp add: word_less_nat_alt)
  show "(ucast d :: u16) \<noteq> alt_r_make" "(ucast d :: u16) \<noteq> ctrl_r_make"
    using u unat_u8_lt [of d] by (auto simp: word_unat_eq_iff alt_r_make_def ctrl_r_make_def)
  show "(ucast d :: u16) AND 0x00ff = ucast d"
  proof -
    have "(0x00ff :: u16) = mask 8" by (simp add: mask_eq_exp_minus_1)
    then show ?thesis by (simp add: bit_eq_iff bit_simps) (use bit_imp_le_length in force)
  qed
  show "(ucast d :: u16) > 0 \<longleftrightarrow> d \<noteq> 0"
    using u by (simp add: word_less_nat_alt unat_gt_0)
qed

lemma high_bit_clear: "unat (w :: 'a::len word) < 2 ^ n \<Longrightarrow> \<not> bit w n"
proof -
  assume "unat w < 2 ^ n"
  then have "\<not> bit (unat w) n" by (simp add: bit_iff_odd)
  then show ?thesis by (simp add: bit_unsigned_iff)
qed

lemma small_make_code: "(d :: u8) < 0x3b \<Longrightarrow> (ucast d :: u16) AND 0x0080 = 0"
proof -
  assume "d < 0x3b"
  then have "unat (ucast d :: u16) < 2 ^ 7" by (simp add: word_less_nat_alt ucast_u8_u16(4))
  then show ?thesis
    using high_bit_clear [of "ucast d :: u16" 7] and_exp_eq_0_iff_not_bit [of "ucast d :: u16" 7]
    by simp
qed

text \<open>The buffer after the handler has seen the character \<open>c\<close>, if any.\<close>

definition typed :: "u8 option \<Rightarrow> u8 list \<Rightarrow> u8 list" where
  "typed c xs = (case c of None \<Rightarrow> xs | Some b \<Rightarrow> if length xs < BUF_SIZE - 1 then xs @ [b] else xs)"

text \<open>
  A thread may sleep on the buffer until a character comes: the buffer knows it, it is blocked and in no list. When it
  is woken it is ready and at the front of the ready queue.
\<close>

definition reader_asleep ::
  "(u32 \<rightharpoonup> u32 list) \<Rightarrow> u32 list \<Rightarrow> task_struct \<Rightarrow> u32 \<Rightarrow> ('z) kstate_scheme \<Rightarrow> bool" where
  "reader_asleep F xs t r s \<longleftrightarrow> (r \<noteq> NULL \<longrightarrow>
     lists_at (lmem s) F \<and> F (thread_ready_list s) = Some xs \<and> tasks s r = Some t \<and> status t = TASK_BLOCKED \<and>
     unlisted F (general_tag r) \<and> general_tag r \<in> dom (lmem s))"

definition reader_woken ::
  "(u32 \<rightharpoonup> u32 list) \<Rightarrow> u32 list \<Rightarrow> task_struct \<Rightarrow> u32 \<Rightarrow> ('z) kstate_scheme \<Rightarrow> ('z) kstate_scheme \<Rightarrow> bool" where
  "reader_woken F xs t r s s' \<longleftrightarrow>
     (if r = NULL then tasks s' = tasks s \<and> lmem s' = lmem s
      else tasks s' r = Some (t\<lparr>status := TASK_READY\<rparr>) \<and>
           lists_at (lmem s') (F(thread_ready_list s \<mapsto> general_tag r # xs)) \<and> running_thread s' = running_thread s)"

lemma putchar_reader:
  assumes "intr_get_status (eflags s) = INTR_OFF" "ioqs s ioq = Some q" "ring_ok q"
    "length (ring_contents q) < BUF_SIZE - 1" "reader_asleep F xs t (consumer q) s"
  obtains s' q' where "ioq_putchar ioq c s = Inr (Some (), s')" "ioqs s' ioq = Some q'" "ring_ok q'"
    "ring_contents q' = ring_contents q @ [c]" "consumer q' = NULL" "reader_woken F xs t (consumer q) s s'"
proof (cases "consumer q = NULL")
  case True
  from putchar_room [OF assms(1-4) True, of c] show thesis
    using True by (auto simp: set_ioq_def reader_woken_def intro: that)
next
  case False
  have "may_unblock (status t)" using assms(5) False by (simp add: reader_asleep_def may_unblock_def)
  with putchar_wakes [OF assms(1-4) False, of F xs t c] assms(5) False show thesis
    by (auto simp: reader_asleep_def reader_woken_def intro: that)
qed

lemma keyboard_char:
  assumes off: "intr_get_status (eflags s) = INTR_OFF" and q: "ioqs s (kbd_buf s) = Some q" "ring_ok q"
    and r: "reader_asleep F xs t (consumer q) s" and d: "d \<noteq> 0" "d < 0x3b" "\<not> ext_scan_code (kbd s)"
  shows "\<exists>s' q'. intr_keyboard_handler d s = Inr s' \<and> ioqs s' (kbd_buf s) = Some q' \<and> ring_ok q' \<and>
           ring_contents q' = typed (key_char (kbd s) d) (ring_contents q) \<and>
           (if ring_contents q' \<noteq> ring_contents q then consumer q' = NULL \<and> reader_woken F xs t (consumer q) s s'
            else consumer q' = consumer q \<and> tasks s' = tasks s \<and> lmem s' = lmem s)"
proof -
  from keymap_row [OF d(1,2)] obtain p sh where row: "keymap ! unat d = (p, sh)" by blast
  define c where "c = (if key_shifted (ucast d) (kbd s) then sh else p)"
  have kc: "key_char (kbd s) d = (if c = 0 then None else Some c)"
    using key_shifted_char [OF d] row by (auto simp: c_def Let_def)
  have len: "unat d < length keymap" using d(2) by (simp add: length_keymap word_less_nat_alt)
  have ne: "d \<noteq> 0xe0" using d(2) by auto
  have rd: "read_at keymap (unat d) = Inr (p, sh)" using len row by simp
  have H: "intr_keyboard_handler d s = (if c \<noteq> 0 then
              bindE (ioq_full (kbd_buf s) s) (\<lambda>full.
              if \<not> full then bindE (ioq_putchar (kbd_buf s) c s) (\<lambda>(r, s).
                 if r = None then Inl Blocks else Inr s) else Inr s)
            else Inr (s\<lparr>kbd := key_pressed (ucast d) (kbd s)\<rparr>))"
    using d ne rd
    by (simp add: intr_keyboard_handler_def Let_def ucast_u8_u16 small_make_code c_def cong: if_cong)
  show ?thesis
  proof (cases "c = 0 \<or> \<not> length (ring_contents q) < BUF_SIZE - 1")
    case True
    then have "c \<noteq> 0 \<Longrightarrow> ioq_full (kbd_buf s) s = Inr True"
      using off q ring_full_iff [OF q(2)] ring_count_lt [of q] by (auto simp: ioq_full_def)
    then have "\<exists>s'. intr_keyboard_handler d s = Inr s' \<and> ioqs s' = ioqs s \<and> tasks s' = tasks s \<and> lmem s' = lmem s"
      unfolding H by auto
    with q True kc show ?thesis by (auto simp: typed_def)
  next
    case False
    then have room: "length (ring_contents q) < BUF_SIZE - 1" by simp
    have full: "ioq_full (kbd_buf s) s = Inr False"
      using False off q ring_full_iff [OF q(2)] by (simp add: ioq_full_def)
    obtain s' q' where "ioq_putchar (kbd_buf s) c s = Inr (Some (), s')" "ioqs s' (kbd_buf s) = Some q'" "ring_ok q'"
      "ring_contents q' = ring_contents q @ [c]" "consumer q' = NULL" "reader_woken F xs t (consumer q) s s'"
      by (rule putchar_reader [OF off q room r])
    with full show ?thesis unfolding H using False kc by (simp add: typed_def)
  qed
qed

lemma keyboard_no_char:
  assumes "d = 0 \<or> 0x3b \<le> d \<or> ext_scan_code (kbd s)"
  shows "\<exists>s'. intr_keyboard_handler d s = Inr s' \<and> ioqs s' = ioqs s \<and> tasks s' = tasks s \<and> lmem s' = lmem s"
proof -
  consider "d = 0xe0" | "d \<noteq> 0xe0" "\<not> ext_scan_code (kbd s)" "d = 0 \<or> \<not> d < 0x3b"
    | "d \<noteq> 0xe0" "ext_scan_code (kbd s)"
    using assms by (auto simp: not_less)
  then show ?thesis
  proof cases
    case 1
    then show ?thesis by (simp add: intr_keyboard_handler_def)
  next
    case 2
    then have "\<not> (0 < (ucast d :: u16) \<and> (ucast d :: u16) < 0x3b)" by (simp add: ucast_u8_u16)
    with 2 show ?thesis
      unfolding intr_keyboard_handler_def Let_def ucast_u8_u16(2)
      by (simp add: ucast_u8_u16(5,6) put_str_def put_screen_def) blast
  next
    case 3
    define sc where "sc = 0xe000 OR (ucast d :: u16)"
    let ?k = "(kbd s)\<lparr>ext_scan_code := False\<rparr>"
    have "bit sc 15" by (simp add: sc_def bit_or_iff)
    then have "\<not> sc < 0x3b" using high_bit_clear [of sc 15] by (auto simp: word_less_nat_alt)
    then have H: "intr_keyboard_handler d s =
        (if sc AND 0x0080 \<noteq> 0 then Inr (s\<lparr>kbd := key_released (sc AND 0xff7f) ?k\<rparr>)
         else if sc = alt_r_make \<or> sc = ctrl_r_make then
           bindE (read_at keymap (unat (sc AND 0x00ff))) (\<lambda>(plain, shifted).
             let cur_char = (if key_shifted sc ?k then shifted else plain) in
             if cur_char \<noteq> 0 then
               bindE (ioq_full (kbd_buf s) (s\<lparr>kbd := ?k\<rparr>)) (\<lambda>full.
               if \<not> full then bindE (ioq_putchar (kbd_buf s) cur_char (s\<lparr>kbd := ?k\<rparr>)) (\<lambda>(r, s).
                  if r = None then Inl Blocks else Inr s)
               else Inr (s\<lparr>kbd := ?k\<rparr>))
             else Inr (s\<lparr>kbd := key_pressed (sc AND 0x00ff) ?k\<rparr>))
         else Inr (put_str (''unkown key'' @ [CHR 0x0A]) (s\<lparr>kbd := ?k\<rparr>)))"
      using 3
      by (simp add: intr_keyboard_handler_def Let_def ucast_u8_u16(2) sc_def [symmetric] cong: if_cong)
    have "sc = alt_r_make \<Longrightarrow> read_at keymap (unat (sc AND 0x00ff)) = Inr (0, 0)"
      "sc = ctrl_r_make \<Longrightarrow> read_at keymap (unat (sc AND 0x00ff)) = Inr (0, 0)"
      by (simp_all add: alt_r_make_def ctrl_r_make_def keymap_def)
    then show ?thesis unfolding H by (auto simp: put_str_def put_screen_def)
  qed
qed

section \<open>Time slices\<close>

fun timer_ticks :: "nat \<Rightarrow> ('z) kstate_scheme \<Rightarrow> ('z) kstate_scheme res" where
  "timer_ticks 0 s = Inr s"
| "timer_ticks (Suc n) s = bindE (intr_timer_handler s) (timer_ticks n)"

lemma timer_ticks_run:
  assumes "tasks s (running_thread s) = Some t" "stack_magic t = TASK_STACK_MAGIC_VALUE"
    "unat (ticks t) = n"
  shows "timer_ticks n s = Inr (s\<lparr>tasks := (tasks s)(running_thread s \<mapsto>
             t\<lparr>ticks := 0, elapsed_ticks := elapsed_ticks t + of_nat n\<rparr>),
           ticks_now := ticks_now s + of_nat n\<rparr>)"
  using assms
proof (induction n arbitrary: s t)
  case 0
  then have "ticks t = 0" by (simp add: unat_eq_0)
  then have "t\<lparr>ticks := 0, elapsed_ticks := elapsed_ticks t\<rparr> = t" by simp
  with 0 show ?case by (simp add: fun_upd_idem)
next
  case (Suc n)
  let ?t = "t\<lparr>elapsed_ticks := elapsed_ticks t + 1, ticks := ticks t - 1\<rparr>"
  let ?s = "s\<lparr>tasks := (tasks s)(running_thread s \<mapsto> ?t), ticks_now := ticks_now s + 1\<rparr>"
  have ne: "ticks t \<noteq> 0" using Suc.prems(3) by auto
  have "1 \<le> ticks t" using ne by (simp add: word_le_nat_alt Suc_leI unat_gt_0)
  then have n: "unat (ticks t - 1) = n" using Suc.prems(3) by (simp add: unat_sub)
  have run: "running_thread ?s = running_thread s" by (simp add: running_thread_def)
  have "intr_timer_handler s = Inr ?s"
    using Suc.prems ne by (simp add: intr_timer_handler_def get_task_def)
  moreover have "timer_ticks n ?s = Inr (?s\<lparr>tasks := (tasks ?s)(running_thread ?s \<mapsto>
             ?t\<lparr>ticks := 0, elapsed_ticks := elapsed_ticks ?t + of_nat n\<rparr>),
           ticks_now := ticks_now ?s + of_nat n\<rparr>)"
    by (rule Suc.IH) (use Suc.prems(2) n in \<open>simp_all add: run\<close>)
  ultimately show ?case unfolding run by (simp add: ac_simps fun_upd_def cong: if_cong)
qed

section \<open>Properties\<close>

text \<open>
  C33: the keyboard handler returns for every byte the controller can send, whatever keys are
  held and whether or not a thread sleeps on the buffer, and never sleeps itself: a character that the scan code stands for goes to the
  end of the keyboard buffer, or is dropped when 63 characters are waiting, and every other scan code leaves
  the buffer as it is. Letters are upper case when exactly one of shift and caps lock is on. A character that goes into the
  buffer wakes the thread that sleeps on it, which becomes ready at the front of the ready queue; without one, no thread
  changes and a sleeper goes on sleeping. A sleeper is a blocked thread that is in no list, with the lists well formed.
\<close>

theorem keyboard_handler_types:
  assumes "intr_get_status (eflags s) = INTR_OFF" "ioqs s (kbd_buf s) = Some q" "ring_ok q"
    "reader_asleep F xs t (consumer q) s"
  shows "\<exists>s' q'. intr_keyboard_handler d s = Inr s' \<and> ioqs s' (kbd_buf s) = Some q' \<and> ring_ok q' \<and>
           ring_contents q' = typed (key_char (kbd s) d) (ring_contents q) \<and>
           (if ring_contents q' \<noteq> ring_contents q then consumer q' = NULL \<and> reader_woken F xs t (consumer q) s s'
            else consumer q' = consumer q \<and> tasks s' = tasks s \<and> lmem s' = lmem s)"
proof (cases "d = 0 \<or> 0x3b \<le> d \<or> ext_scan_code (kbd s)")
  case True
  with keyboard_no_char [of d s] obtain s' where "intr_keyboard_handler d s = Inr s'" "ioqs s' = ioqs s"
    "tasks s' = tasks s" "lmem s' = lmem s" by blast
  moreover have "key_char (kbd s) d = None" using True by (auto simp: key_char_def)
  ultimately show ?thesis using assms by (simp add: typed_def)
next
  case False
  then show ?thesis using keyboard_char [OF assms] by (simp add: not_le)
qed

definition sample_kstate :: kstate where
  "sample_kstate = \<lparr>eflags = 0x002, lmem = lmem sample_state, cr3 = 0x100000, pmem = (\<lambda>_. 0), invlpgs = [],
     esp = 0xc009ee00, tss_esp0 = 0, tasks = tasks sample_state, main_thread = 0xc009e000,
     idle_thread = 0xc0100000, thread_ready_list = 0xc0010000, thread_all_list = 0xc0010010,
     saved_intr = (\<lambda>_. INTR_ON), sem_value = Map.empty, locks = Map.empty,
     ioqs = [0xc0030000 \<mapsto> sample_ioq], idt_table = replicate 0x81 General_Handler,
     intr_name = [], port_writes = [], screen = [],
     kbd = \<lparr>ctrl_status = False, shift_status = True, alt_status = False,
            caps_lock_status = False, ext_scan_code = False\<rparr>,
     kbd_buf = 0xc0030000, ticks_now = 0, console_lock = 0xc0040000\<rparr>"

text \<open>A thread, the one at \<open>0xc0100000\<close>, waits for a key; the key A goes down while shift is held.\<close>

theorem keyboard_handler_types_witness:
  "\<exists>s' q' t. intr_keyboard_handler 0x1e (set_ioq 0xc0030000 (sample_ioq\<lparr>consumer := 0xc0100000\<rparr>) sample_kstate) = Inr s' \<and>
     ioqs s' 0xc0030000 = Some q' \<and> ring_contents q' = [0x41] \<and> tasks s' 0xc0100000 = Some t \<and> status t = TASK_READY"
proof -
  let ?q = "sample_ioq\<lparr>consumer := 0xc0100000\<rparr>"
  define s0 where "s0 = set_ioq 0xc0030000 ?q sample_kstate"
  have k: "key_char (kbd s0) 0x1e = Some 0x41"
    by (simp add: key_char_def s0_def sample_kstate_def set_ioq_def keymap_def is_letter_def)
  have c: "ring_ok ?q" "ring_contents ?q = []" "consumer ?q = 0xc0100000"
    by (simp_all add: ring_ok_def ring_contents_def ring_count_def sample_ioq_def BUF_SIZE_def)
  have q: "intr_get_status (eflags s0) = INTR_OFF" "kbd_buf s0 = 0xc0030000" "ioqs s0 (kbd_buf s0) = Some ?q"
    by (simp_all add: s0_def sample_kstate_def set_ioq_def intr_get_status_def EFLAGS_IF_def)
  have f: "lmem s0 = lmem sample_state" "tasks s0 = tasks sample_state" "thread_ready_list s0 = 0xc0010000"
    by (simp_all add: s0_def sample_kstate_def set_ioq_def)
  have t: "tasks sample_state 0xc0100000 = Some (sample_task TASK_BLOCKED 0xc0100e00)" "sample_family 0xc0010000 = Some []"
    "status (sample_task TASK_BLOCKED 0xc0100e00) = TASK_BLOCKED"
    by (simp_all add: sample_state_def sample_family_def sample_task_def)
  have e: "unlisted sample_family (general_tag 0xc0100000)" "general_tag 0xc0100000 \<in> dom (lmem sample_state)"
    using sample_ok(5) by (simp_all add: general_tag_def sample_state_def)
  have r: "reader_asleep sample_family [] (sample_task TASK_BLOCKED 0xc0100e00) (consumer ?q) s0"
    unfolding reader_asleep_def c(3) f using sample_lists t e by blast
  have typed: "typed (Some 0x41) [] = [0x41]" by (simp add: typed_def BUF_SIZE_def)
  from keyboard_handler_types [OF q(1,3) c(1) r, of "0x1e"] obtain s' q' where
    h0: "intr_keyboard_handler 0x1e s0 = Inr s'" "ioqs s' 0xc0030000 = Some q'" "ring_contents q' = [0x41]"
    "if ring_contents q' \<noteq> [] then consumer q' = NULL \<and>
       reader_woken sample_family [] (sample_task TASK_BLOCKED 0xc0100e00) 0xc0100000 s0 s'
     else consumer q' = 0xc0100000 \<and> tasks s' = tasks s0 \<and> lmem s' = lmem s0"
    unfolding k c q(2) typed by (elim exE conjE)
  then have h: "intr_keyboard_handler 0x1e s0 = Inr s'" "ioqs s' 0xc0030000 = Some q'" "ring_contents q' = [0x41]"
    "reader_woken sample_family [] (sample_task TASK_BLOCKED 0xc0100e00) 0xc0100000 s0 s'"
    by simp_all
  from h(4) have "tasks s' 0xc0100000 = Some ((sample_task TASK_BLOCKED 0xc0100e00)\<lparr>status := TASK_READY\<rparr>)"
    by (simp add: reader_woken_def NULL_def)
  moreover have "status ((sample_task TASK_BLOCKED 0xc0100e00)\<lparr>status := TASK_READY\<rparr>) = TASK_READY" by simp
  ultimately show ?thesis using h(1-3) unfolding s0_def by blast
qed

text \<open>
  C34: a thread keeps the processor for its time slice: with \<open>n\<close> ticks left, \<open>n\<close> timer interrupts
  go by without a switch, each counted against the thread and the system, and leave it with none.
\<close>

theorem timer_time_slice:
  assumes "tasks s (running_thread s) = Some t" "stack_magic t = TASK_STACK_MAGIC_VALUE"
  shows "timer_ticks (unat (ticks t)) s = Inr (s\<lparr>tasks := (tasks s)(running_thread s \<mapsto>
             t\<lparr>ticks := 0, elapsed_ticks := elapsed_ticks t + ucast (ticks t)\<rparr>),
           ticks_now := ticks_now s + ucast (ticks t)\<rparr>)"
  using timer_ticks_run [OF assms refl] by (simp add: unsigned_ucast_eq)

theorem timer_time_slice_witness:
  "\<exists>s'. timer_ticks 31 sample_kstate = Inr s' \<and> ticks_now s' = 31"
  using timer_time_slice [of sample_kstate "sample_task TASK_RUNNING 0"]
  by (simp add: sample_kstate_def running_thread_def sample_state_def sample_task_def
      TASK_STACK_MAGIC_VALUE_def)

text \<open>
  The call of \<^verbatim>\<open>timer_init\<close> loads the counter with 135, not with the 11931 that 100 interrupts a second
  need: the input frequency is cut to 16 bits before the division, and the high byte that is
  written is 0 whatever the value.
\<close>

theorem timer_reload_value:
  "COUNTER0_VALUE = 135 \<and> INPUT_FREQUENCY div IRQ0_FREQUENCY = 11931 \<and>
   port_writes (frequency_set 0x40 0 3 2 v s) =
     port_writes s @ [(0x43, 0x34), (0x40, ucast v), (0x40, 0)]"
proof -
  have "drop_bit 8 (ucast v :: u8) = 0"
    by (rule bit_word_eqI) (auto simp: bit_simps dest: bit_imp_le_length)
  then show ?thesis
    by (simp add: COUNTER0_VALUE_def INPUT_FREQUENCY_def IRQ0_FREQUENCY_def frequency_set_def outb_def)
qed

end
