(* ===== verification/Memory.thy ===== *)
theory Memory
  imports Devices
begin

text \<open>
  The memory manager, \<^verbatim>\<open>kernel/memory.c\<close>: the two pools of physical pages, the virtual address
  bitmaps, the page tables and the heap of \<^verbatim>\<open>sys_malloc\<close> and \<^verbatim>\<open>sys_free\<close>. The page table entries
  are reached through the window of the paging component. The header of an arena is kept by its
  page address and the links of free blocks are in the list memory; the other contents of heap
  pages are not modelled. A block descriptor is the address of its \<^verbatim>\<open>struct mem_block_desc\<close>, whose
  free list is 8 bytes further. Each bitmap has exactly its own bytes, so that a read past its
  end is an error of the model.

  A pool's lock is taken with \<open>lock_acquire_now\<close>: the functions are those of a thread that
  does not have to wait for it.
\<close>

section \<open>Pools, descriptors and arenas\<close>

datatype pool_flags = PF_KERNEL | PF_USER

record pool =
  pool_bitmap :: bitmap
  phy_addr_start :: u32
  pool_size :: u32
  pool_lock :: u32

record mem_block_desc =
  block_size :: u32
  blocks_per_arena :: u32

record arena =
  desc :: u32
  cnt :: u32
  large :: u32

record mstate = kstate +
  kernel_pool :: pool
  user_pool :: pool
  kernel_vaddr :: virtual_addr
  k_block_descs :: u32
  mdescs :: "u32 \<rightharpoonup> mem_block_desc"
  arenas :: "u32 \<rightharpoonup> arena"

definition K_HEAP_START :: u32 where "K_HEAP_START = 0xc0100000"
definition DESC_CNT :: nat where "DESC_CNT = 7"

definition sizeof_arena :: u32 where "sizeof_arena = 12"
definition sizeof_desc :: u32 where "sizeof_desc = 24"

definition desc_free_list :: "u32 \<Rightarrow> u32" where
  "desc_free_list d = d + 8"

definition u_block_desc :: "u32 \<Rightarrow> u32" where
  "u_block_desc pcb = pcb + 68"

definition the_pool :: "pool_flags \<Rightarrow> ('z) mstate_scheme \<Rightarrow> pool" where
  "the_pool pf s = (if pf = PF_KERNEL then kernel_pool s else user_pool s)"

definition set_pool :: "pool_flags \<Rightarrow> pool \<Rightarrow> ('z) mstate_scheme \<Rightarrow> ('z) mstate_scheme" where
  "set_pool pf p s = (if pf = PF_KERNEL then s\<lparr>kernel_pool := p\<rparr> else s\<lparr>user_pool := p\<rparr>)"

section \<open>Pages\<close>

fun set_bits :: "bitmap \<Rightarrow> u32 \<Rightarrow> nat \<Rightarrow> u8 \<Rightarrow> bitmap res" where
  "set_bits bm start 0 v = Inr bm"
| "set_bits bm start (Suc n) v = bindE (bitmap_set bm start v) (\<lambda>bm. set_bits bm (start + 1) n v)"

definition vaddr_get :: "pool_flags \<Rightarrow> u32 \<Rightarrow> ('z) mstate_scheme \<Rightarrow> (u32 \<times> ('z) mstate_scheme) res" where
  "vaddr_get pf pg_cnt s =
     (if pf = PF_KERNEL then
        bindE (bitmap_scan (vaddr_bitmap (kernel_vaddr s)) pg_cnt) (\<lambda>bit_idx_start.
        if bit_idx_start = - 1 then Inr (NULL, s)
        else
          bindE (set_bits (vaddr_bitmap (kernel_vaddr s)) bit_idx_start (unat pg_cnt) 1) (\<lambda>bm.
          Inr (vaddr_start (kernel_vaddr s) + bit_idx_start * PAGE_SIZE,
               s\<lparr>kernel_vaddr := (kernel_vaddr s)\<lparr>vaddr_bitmap := bm\<rparr>\<rparr>)))
      else
        let cur = running_thread s in
        bindE (get_task cur s) (\<lambda>t.
        bindE (bitmap_scan (vaddr_bitmap (user_process_vaddr t)) pg_cnt) (\<lambda>bit_idx_start.
        if bit_idx_start = - 1 then Inr (NULL, s)
        else
          bindE (set_bits (vaddr_bitmap (user_process_vaddr t)) bit_idx_start (unat pg_cnt) 1) (\<lambda>bm.
          bindE (upd_task cur (\<lambda>t. t\<lparr>user_process_vaddr :=
                   (user_process_vaddr t)\<lparr>vaddr_bitmap := bm\<rparr>\<rparr>) s) (\<lambda>s.
          let v = vaddr_start (user_process_vaddr t) + bit_idx_start * PAGE_SIZE in
          bindE (ASSERT (v < 0xc0000000 - PAGE_SIZE)) (\<lambda>_. Inr (v, s)))))))"

definition palloc_pool :: "pool \<Rightarrow> (u32 \<times> pool) res" where
  "palloc_pool m_pool =
     bindE (bitmap_scan (pool_bitmap m_pool) 1) (\<lambda>bit_idx.
     if bit_idx = - 1 then Inr (NULL, m_pool)
     else
       bindE (bitmap_set (pool_bitmap m_pool) bit_idx 1) (\<lambda>bm.
       Inr (bit_idx * PAGE_SIZE + phy_addr_start m_pool, m_pool\<lparr>pool_bitmap := bm\<rparr>)))"

definition palloc :: "pool_flags \<Rightarrow> ('z) mstate_scheme \<Rightarrow> (u32 \<times> ('z) mstate_scheme) res" where
  "palloc pf s = mapE (\<lambda>(a, p). (a, set_pool pf p s)) (palloc_pool (the_pool pf s))"

text \<open>\<^verbatim>\<open>memset(a, 0, 4 * n)\<close> on words reached through the page tables.\<close>

fun zero_words :: "nat \<Rightarrow> u32 \<Rightarrow> ('z) cpu_scheme \<Rightarrow> ('z) cpu_scheme res" where
  "zero_words 0 a s = Inr s"
| "zero_words (Suc n) a s = bindE (store32 a 0 s) (zero_words n (a + 4))"

definition entry_bits :: "u32 \<Rightarrow> u32" where
  "entry_bits a = a OR PG_US_U OR PG_RW_W OR PG_P_1"

definition page_table_add :: "u32 \<Rightarrow> u32 \<Rightarrow> ('z) mstate_scheme \<Rightarrow> ('z) mstate_scheme res" where
  "page_table_add vaddr page_phyaddr s =
     (let pde = pde_ptr vaddr; pte = pte_ptr vaddr in
      bindE (load32 pde s) (\<lambda>e.
      if e AND 0x00000001 \<noteq> 0 then
        bindE (load32 pte s) (\<lambda>e.
        bindE (ASSERT (\<not> e AND 0x00000001 \<noteq> 0)) (\<lambda>_.
        bindE (load32 pte s) (\<lambda>e.
        if \<not> e AND 0x00000001 \<noteq> 0 then store32 pte (entry_bits page_phyaddr) s
        else Inl Panic)))
      else
        bindE (palloc PF_KERNEL s) (\<lambda>(pde_phyaddr, s).
        bindE (store32 pde (entry_bits pde_phyaddr) s) (\<lambda>s.
        bindE (zero_words 1024 (pte AND 0xfffff000) s) (\<lambda>s.
        bindE (load32 pte s) (\<lambda>e.
        bindE (ASSERT (\<not> e AND 0x00000001 \<noteq> 0)) (\<lambda>_.
        store32 pte (entry_bits page_phyaddr) s)))))))"

text \<open>The loop of \<^verbatim>\<open>malloc_page\<close>; the result says whether all pages were found.\<close>

fun map_pages :: "pool_flags \<Rightarrow> nat \<Rightarrow> u32 \<Rightarrow> ('z) mstate_scheme \<Rightarrow> (bool \<times> ('z) mstate_scheme) res" where
  "map_pages pf 0 vaddr s = Inr (True, s)"
| "map_pages pf (Suc n) vaddr s =
     bindE (palloc pf s) (\<lambda>(page_phyaddr, s).
     if page_phyaddr = NULL then Inr (False, s)
     else bindE (page_table_add vaddr page_phyaddr s) (map_pages pf n (vaddr + PAGE_SIZE)))"

definition malloc_page :: "pool_flags \<Rightarrow> u32 \<Rightarrow> ('z) mstate_scheme \<Rightarrow> (u32 \<times> ('z) mstate_scheme) res" where
  "malloc_page pf pg_cnt s =
     bindE (ASSERT (pg_cnt > 0 \<and> pg_cnt < 3840)) (\<lambda>_.
     bindE (vaddr_get pf pg_cnt s) (\<lambda>(vaddr_start, s).
     if vaddr_start = NULL then Inr (NULL, s)
     else
       bindE (map_pages pf (unat pg_cnt) vaddr_start s) (\<lambda>(all, s).
       Inr (if all then vaddr_start else NULL, s))))"

text \<open>\<^verbatim>\<open>memset(a, 0, n)\<close> on heap pages: every link in them is zero afterwards.\<close>

definition zero_heap :: "u32 \<Rightarrow> u32 \<Rightarrow> ('z) mstate_scheme \<Rightarrow> ('z) mstate_scheme" where
  "zero_heap a n s = s\<lparr>lmem := (\<lambda>x. if x - a < n then Some \<lparr>le_prev = 0, le_next = 0\<rparr> else lmem s x)\<rparr>"

definition get_kernel_pages :: "u32 \<Rightarrow> ('z) mstate_scheme \<Rightarrow> (u32 \<times> ('z) mstate_scheme) res" where
  "get_kernel_pages pg_cnt s =
     bindE (lock_acquire_now (pool_lock (kernel_pool s)) s) (\<lambda>s.
     bindE (malloc_page PF_KERNEL pg_cnt s) (\<lambda>(vaddr, s).
     let s = (if vaddr \<noteq> NULL then zero_heap vaddr (pg_cnt * PAGE_SIZE) s else s) in
     mapE (Pair vaddr) (lock_release (pool_lock (kernel_pool s)) s)))"

definition get_user_pages :: "u32 \<Rightarrow> ('z) mstate_scheme \<Rightarrow> (u32 \<times> ('z) mstate_scheme) res" where
  "get_user_pages pg_cnt s =
     bindE (lock_acquire_now (pool_lock (user_pool s)) s) (\<lambda>s.
     bindE (malloc_page PF_USER pg_cnt s) (\<lambda>(vaddr, s).
     let s = (if vaddr \<noteq> NULL then zero_heap vaddr (pg_cnt * PAGE_SIZE) s else s) in
     mapE (Pair vaddr) (lock_release (pool_lock (user_pool s)) s)))"

text \<open>\<^verbatim>\<open>bit_idx\<close> is an \<^verbatim>\<open>int32_t\<close>. The branch that finds no page returns with the lock held.\<close>

definition get_a_page :: "pool_flags \<Rightarrow> u32 \<Rightarrow> ('z) mstate_scheme \<Rightarrow> (u32 \<times> ('z) mstate_scheme) res" where
  "get_a_page pf vaddr s =
     bindE (lock_acquire_now (pool_lock (the_pool pf s)) s) (\<lambda>s.
     let cur = running_thread s in
     bindE (get_task cur s) (\<lambda>t.
     bindE (if pg_dir t \<noteq> NULL \<and> pf = PF_USER then
              let bit_idx = (vaddr - vaddr_start (user_process_vaddr t)) div PAGE_SIZE in
              bindE (ASSERT (0 <s bit_idx)) (\<lambda>_.
              bindE (bitmap_set (vaddr_bitmap (user_process_vaddr t)) bit_idx 1) (\<lambda>bm.
              upd_task cur (\<lambda>t. t\<lparr>user_process_vaddr :=
                 (user_process_vaddr t)\<lparr>vaddr_bitmap := bm\<rparr>\<rparr>) s))
            else if pg_dir t = NULL \<and> pf = PF_KERNEL then
              let bit_idx = (vaddr - vaddr_start (kernel_vaddr s)) div PAGE_SIZE in
              bindE (ASSERT (0 <s bit_idx)) (\<lambda>_.
              bindE (bitmap_set (vaddr_bitmap (kernel_vaddr s)) bit_idx 1) (\<lambda>bm.
              Inr (s\<lparr>kernel_vaddr := (kernel_vaddr s)\<lparr>vaddr_bitmap := bm\<rparr>\<rparr>)))
            else Inl Panic) (\<lambda>s.
     bindE (palloc pf s) (\<lambda>(page_phyaddr, s).
     if page_phyaddr = NULL then Inr (NULL, s)
     else
       bindE (page_table_add vaddr page_phyaddr s) (\<lambda>s.
       mapE (Pair vaddr) (lock_release (pool_lock (the_pool pf s)) s))))))"

definition get_a_page_without_opvaddrbitmap ::
  "pool_flags \<Rightarrow> u32 \<Rightarrow> ('z) mstate_scheme \<Rightarrow> (u32 \<times> ('z) mstate_scheme) res" where
  "get_a_page_without_opvaddrbitmap pf vaddr s =
     bindE (lock_acquire_now (pool_lock (the_pool pf s)) s) (\<lambda>s.
     bindE (palloc pf s) (\<lambda>(page_phyaddr, s).
     if page_phyaddr = NULL then mapE (Pair NULL) (lock_release (pool_lock (the_pool pf s)) s)
     else
       bindE (page_table_add vaddr page_phyaddr s) (\<lambda>s.
       mapE (Pair vaddr) (lock_release (pool_lock (the_pool pf s)) s))))"

section \<open>Initialisation\<close>

definition fresh_bitmap :: "u32 \<Rightarrow> bitmap" where
  "fresh_bitmap len = \<lparr>bmap_bytes_len = len, bits = replicate (unat len) 0\<rparr>"

text \<open>The page counts are \<^verbatim>\<open>uint16_t\<close>: a machine with 258 megabytes or more loses the high bits.\<close>

definition mem_pool_setup :: "u32 \<Rightarrow> ('z) mstate_scheme \<Rightarrow> ('z) mstate_scheme" where
  "mem_pool_setup all_mem s =
     (let page_table_size = PAGE_SIZE * 256;
          used_mem = page_table_size + 0x100000;
          free_mem = all_mem - used_mem;
          all_free_pages = ucast (free_mem div PAGE_SIZE) :: u16;
          kernel_free_pages = all_free_pages div 2;
          user_free_pages = all_free_pages - kernel_free_pages;
          kbm_length = ucast (kernel_free_pages div 8) :: u32;
          ubm_length = ucast (user_free_pages div 8) :: u32;
          kp_start = used_mem;
          up_start = kp_start + ucast kernel_free_pages * PAGE_SIZE
      in (lock_init (pool_lock (user_pool s)) (lock_init (pool_lock (kernel_pool s))
           (s\<lparr>kernel_pool := (kernel_pool s)\<lparr>phy_addr_start := kp_start,
                 pool_size := ucast kernel_free_pages * PAGE_SIZE, pool_bitmap := fresh_bitmap kbm_length\<rparr>,
              user_pool := (user_pool s)\<lparr>phy_addr_start := up_start,
                 pool_size := ucast user_free_pages * PAGE_SIZE, pool_bitmap := fresh_bitmap ubm_length\<rparr>\<rparr>)))
         \<lparr>kernel_vaddr := \<lparr>vaddr_bitmap = fresh_bitmap kbm_length, vaddr_start = K_HEAP_START\<rparr>\<rparr>)"

definition MEM_BITMAP_BASE :: u32 where "MEM_BITMAP_BASE = 0xc009a000"

text \<open>What \<^verbatim>\<open>mem_pool_init\<close> prints about the kernel's address bitmap.\<close>

definition mem_pool_report :: "('z) mstate_scheme \<Rightarrow> ('z) mstate_scheme" where
  "mem_pool_report s =
     (let nl = put_str [CHR 0x0A];
          s = put_str ''kernel_vaddr.vaddr_bitmap.bits: '' s;
          s = nl (put_screen (Put_Int (MEM_BITMAP_BASE + bmap_bytes_len (pool_bitmap (kernel_pool s))
                                         + bmap_bytes_len (pool_bitmap (user_pool s)))) s);
          s = put_str ''kernel_vaddr.vaddr_bitmap.bmap_bytes_len :'' s;
          s = nl (put_screen (Put_Int (bmap_bytes_len (vaddr_bitmap (kernel_vaddr s)))) s);
          s = put_str ''kernel_vaddr.vaddr_start:'' s
      in nl (put_screen (Put_Int (vaddr_start (kernel_vaddr s))) s))"

definition mem_pool_init :: "u32 \<Rightarrow> ('z) mstate_scheme \<Rightarrow> ('z) mstate_scheme" where
  "mem_pool_init all_mem s =
     put_str (''mem_pool_init done'' @ [CHR 0x0A])
       (mem_pool_report (mem_pool_setup all_mem (put_str (''mem_pool_init start'' @ [CHR 0x0A]) s)))"

fun desc_init_loop :: "u32 \<Rightarrow> nat \<Rightarrow> u16 \<Rightarrow> ('z) mstate_scheme \<Rightarrow> ('z) mstate_scheme" where
  "desc_init_loop d 0 sz s = s"
| "desc_init_loop d (Suc n) sz s =
     desc_init_loop (d + sizeof_desc) n (sz * 2)
       (list_init (desc_free_list d)
          (s\<lparr>mdescs := (mdescs s)(d \<mapsto> \<lparr>block_size = ucast sz,
               blocks_per_arena = (PAGE_SIZE - sizeof_arena) div ucast sz\<rparr>)\<rparr>))"

definition block_desc_init :: "u32 \<Rightarrow> ('z) mstate_scheme \<Rightarrow> ('z) mstate_scheme" where
  "block_desc_init desc_array s = desc_init_loop desc_array DESC_CNT 16 s"

definition mem_init :: "u32 \<Rightarrow> ('z) mstate_scheme \<Rightarrow> ('z) mstate_scheme" where
  "mem_init mem_bytes_total s =
     (let s = put_str (''mem_init start'' @ [CHR 0x0A]) s;
          s = mem_pool_init mem_bytes_total s;
          s = block_desc_init (k_block_descs s) s
      in put_str (''mem_init done'' @ [CHR 0x0A]) s)"

section \<open>Freeing pages\<close>

definition pfree :: "u32 \<Rightarrow> ('z) mstate_scheme \<Rightarrow> ('z) mstate_scheme res" where
  "pfree pg_phy_addr s =
     (let pf = (if pg_phy_addr \<ge> phy_addr_start (user_pool s) then PF_USER else PF_KERNEL);
          mem_pool = the_pool pf s;
          bit_idx = (pg_phy_addr - phy_addr_start mem_pool) div PAGE_SIZE
      in bindE (bitmap_set (pool_bitmap mem_pool) bit_idx 0) (\<lambda>bm.
         Inr (set_pool pf (mem_pool\<lparr>pool_bitmap := bm\<rparr>) s)))"

definition vaddr_remove :: "pool_flags \<Rightarrow> u32 \<Rightarrow> u32 \<Rightarrow> ('z) mstate_scheme \<Rightarrow> ('z) mstate_scheme res" where
  "vaddr_remove pf i_vaddr pg_cnt s =
     (if pf = PF_KERNEL then
        let bit_idx_start = (i_vaddr - vaddr_start (kernel_vaddr s)) div PAGE_SIZE in
        bindE (set_bits (vaddr_bitmap (kernel_vaddr s)) bit_idx_start (unat pg_cnt) 0) (\<lambda>bm.
        Inr (s\<lparr>kernel_vaddr := (kernel_vaddr s)\<lparr>vaddr_bitmap := bm\<rparr>\<rparr>))
      else
        let cur_thread = running_thread s in
        bindE (get_task cur_thread s) (\<lambda>t.
        let bit_idx_start = (i_vaddr - vaddr_start (user_process_vaddr t)) div PAGE_SIZE in
        bindE (set_bits (vaddr_bitmap (user_process_vaddr t)) bit_idx_start (unat pg_cnt) 0) (\<lambda>bm.
        upd_task cur_thread (\<lambda>t. t\<lparr>user_process_vaddr :=
           (user_process_vaddr t)\<lparr>vaddr_bitmap := bm\<rparr>\<rparr>) s)))"

text \<open>The loops of \<^verbatim>\<open>mfree_page\<close>; \<open>in_pool\<close> is the range assertion of the branch.\<close>

fun free_pages :: "(u32 \<Rightarrow> bool) \<Rightarrow> nat \<Rightarrow> u32 \<Rightarrow> ('z) mstate_scheme \<Rightarrow> ('z) mstate_scheme res" where
  "free_pages in_pool 0 i_vaddr s = Inr s"
| "free_pages in_pool (Suc n) i_vaddr s =
     bindE (addr_v2p i_vaddr s) (\<lambda>pg_phy_addr.
     bindE (ASSERT (pg_phy_addr mod PAGE_SIZE = 0 \<and> in_pool pg_phy_addr)) (\<lambda>_.
     bindE (pfree pg_phy_addr s) (\<lambda>s.
     bindE (page_table_pte_remove (esp s) i_vaddr s) (free_pages in_pool n (i_vaddr + PAGE_SIZE)))))"

definition mfree_page :: "pool_flags \<Rightarrow> u32 \<Rightarrow> u32 \<Rightarrow> ('z) mstate_scheme \<Rightarrow> ('z) mstate_scheme res" where
  "mfree_page pf i_vaddr pg_cnt s =
     bindE (ASSERT (pg_cnt \<ge> 1 \<and> i_vaddr mod PAGE_SIZE = 0)) (\<lambda>_.
     bindE (addr_v2p i_vaddr s) (\<lambda>pg_phy_addr.
     bindE (ASSERT (pg_phy_addr mod PAGE_SIZE = 0 \<and> pg_phy_addr \<ge> 0x102000)) (\<lambda>_.
     if pg_phy_addr \<ge> phy_addr_start (user_pool s) then
       bindE (free_pages (\<lambda>a. a \<ge> phy_addr_start (user_pool s)) (unat pg_cnt) i_vaddr s)
         (vaddr_remove pf i_vaddr pg_cnt)
     else
       bindE (free_pages (\<lambda>a. a \<ge> phy_addr_start (kernel_pool s) \<and> a < phy_addr_start (user_pool s))
                (unat pg_cnt) i_vaddr s)
         (vaddr_remove pf i_vaddr pg_cnt))))"

section \<open>The heap\<close>

definition get_arena :: "u32 \<Rightarrow> ('z) mstate_scheme \<Rightarrow> arena res" where
  "get_arena a s = deref (arenas s a)"

definition set_arena :: "u32 \<Rightarrow> arena \<Rightarrow> ('z) mstate_scheme \<Rightarrow> ('z) mstate_scheme" where
  "set_arena a r s = s\<lparr>arenas := (arenas s)(a \<mapsto> r)\<rparr>"

definition get_desc :: "u32 \<Rightarrow> ('z) mstate_scheme \<Rightarrow> mem_block_desc res" where
  "get_desc d s = deref (mdescs s d)"

definition arena2block :: "u32 \<Rightarrow> u32 \<Rightarrow> ('z) mstate_scheme \<Rightarrow> u32 res" where
  "arena2block a idx s =
     bindE (get_arena a s) (\<lambda>r. bindE (get_desc (desc r) s) (\<lambda>d.
     Inr (a + sizeof_arena + idx * block_size d)))"

definition block2arena :: "u32 \<Rightarrow> u32" where
  "block2arena b = b AND 0xfffff000"

text \<open>The search for the smallest fitting size: the index of the descriptor, \<open>DESC_CNT\<close> if none.\<close>

fun find_desc :: "u32 \<Rightarrow> u32 \<Rightarrow> nat \<Rightarrow> ('z) mstate_scheme \<Rightarrow> u32 res" where
  "find_desc sz d 0 s = Inr d"
| "find_desc sz d (Suc n) s =
     bindE (get_desc d s) (\<lambda>r. if sz \<le> block_size r then Inr d else find_desc sz (d + sizeof_desc) n s)"

fun split_arena :: "u32 \<Rightarrow> u32 \<Rightarrow> nat \<Rightarrow> ('z) mstate_scheme \<Rightarrow> ('z) mstate_scheme res" where
  "split_arena a idx 0 s = Inr s"
| "split_arena a idx (Suc n) s =
     bindE (arena2block a idx s) (\<lambda>b.
     bindE (get_arena a s) (\<lambda>r.
     bindE (elem_find (desc_free_list (desc r)) b s) (\<lambda>found.
     bindE (ASSERT (\<not> found)) (\<lambda>_.
     bindE (list_append (desc_free_list (desc r)) b s) (split_arena a (idx + 1) n)))))"

text \<open>Taking a block: the lines of \<^verbatim>\<open>sys_malloc\<close> that make a new arena when there is no free block.\<close>

definition grow_free_list ::
  "pool_flags \<Rightarrow> u32 \<Rightarrow> ('z) mstate_scheme \<Rightarrow> (bool \<times> ('z) mstate_scheme) res" where
  "grow_free_list PF d s =
     bindE (malloc_page PF 1 s) (\<lambda>(a, s).
     if a = NULL then Inr (False, s)
     else
       bindE (get_desc d s) (\<lambda>r.
       let s = zero_heap a PAGE_SIZE s;
           s = set_arena a \<lparr>desc = d, cnt = blocks_per_arena r, large = 0\<rparr> s;
           (old_status, f) = intr_disable (eflags s)
       in bindE (split_arena a 0 (unat (blocks_per_arena r)) (s\<lparr>eflags := f\<rparr>)) (\<lambda>s.
          Inr (True, s\<lparr>eflags := snd (intr_set_status old_status (eflags s))\<rparr>))))"

definition sys_malloc :: "u32 \<Rightarrow> ('z) mstate_scheme \<Rightarrow> (u32 \<times> ('z) mstate_scheme) res" where
  "sys_malloc sz s =
     bindE (get_task (running_thread s) s) (\<lambda>cur_thread.
     let PF = (if pg_dir cur_thread = NULL then PF_KERNEL else PF_USER);
         descs = (if pg_dir cur_thread = NULL then k_block_descs s else u_block_desc (running_thread s));
         lk = pool_lock (the_pool PF s)
     in if \<not> (sz > 0 \<and> sz < pool_size (the_pool PF s)) then Inr (NULL, s)
        else
          bindE (lock_acquire_now lk s) (\<lambda>s.
          if sz > 1024 then
            let page_cnt = DIV_ROUND_UP (sz + sizeof_arena) PAGE_SIZE in
            bindE (malloc_page PF page_cnt s) (\<lambda>(a, s).
            if a \<noteq> NULL then
              let s = set_arena a \<lparr>desc = NULL, cnt = page_cnt, large = 1\<rparr>
                        (zero_heap a (page_cnt * PAGE_SIZE) s)
              in mapE (Pair (a + sizeof_arena)) (lock_release lk s)
            else mapE (Pair NULL) (lock_release lk s))
          else
            bindE (find_desc sz descs DESC_CNT s) (\<lambda>d.
            bindE (list_empty (desc_free_list d) s) (\<lambda>empty.
            bindE (if empty then grow_free_list PF d s else Inr (True, s)) (\<lambda>(ok, s).
            if \<not> ok then mapE (Pair NULL) (lock_release lk s)
            else
              bindE (list_pop (desc_free_list d) s) (\<lambda>(b, s).
              bindE (get_desc d s) (\<lambda>r.
              let s = zero_heap b (block_size r) s;
                  a = block2arena b
              in bindE (get_arena a s) (\<lambda>ar.
                 mapE (Pair b) (lock_release lk (set_arena a (ar\<lparr>cnt := cnt ar - 1\<rparr>) s))))))))))"

fun unlink_blocks :: "u32 \<Rightarrow> u32 \<Rightarrow> nat \<Rightarrow> ('z) mstate_scheme \<Rightarrow> ('z) mstate_scheme res" where
  "unlink_blocks a idx 0 s = Inr s"
| "unlink_blocks a idx (Suc n) s =
     bindE (arena2block a idx s) (\<lambda>b.
     bindE (get_arena a s) (\<lambda>r.
     bindE (elem_find (desc_free_list (desc r)) b s) (\<lambda>found.
     bindE (ASSERT found) (\<lambda>_.
     bindE (list_remove b s) (unlink_blocks a (idx + 1) n)))))"

definition sys_free :: "u32 \<Rightarrow> ('z) mstate_scheme \<Rightarrow> ('z) mstate_scheme res" where
  "sys_free ptr s =
     bindE (ASSERT (ptr \<noteq> NULL)) (\<lambda>_.
     bindE (get_task (running_thread s) s) (\<lambda>t.
     bindE (ASSERT (pg_dir t = NULL \<longrightarrow> ptr \<ge> K_HEAP_START)) (\<lambda>_.
     let PF = (if pg_dir t = NULL then PF_KERNEL else PF_USER);
         lk = pool_lock (the_pool PF s)
     in bindE (lock_acquire_now lk s) (\<lambda>s.
        let a = block2arena ptr in
        bindE (get_arena a s) (\<lambda>ar.
        bindE (ASSERT (large ar = 0 \<or> large ar = 1)) (\<lambda>_.
        bindE (if desc ar = NULL \<and> large ar = 1 then mfree_page PF a (cnt ar) s
               else
                 bindE (list_append (desc_free_list (desc ar)) ptr s) (\<lambda>s.
                 bindE (get_desc (desc ar) s) (\<lambda>d.
                 let s = set_arena a (ar\<lparr>cnt := cnt ar + 1\<rparr>) s in
                 if cnt ar + 1 = blocks_per_arena d then
                   bindE (unlink_blocks a 0 (unat (blocks_per_arena d)) s) (mfree_page PF a 1)
                 else Inr s))) (lock_release lk)))))))"

section \<open>Physical pages\<close>

text \<open>A pool whose pages are whole, above address 0 and below the end of memory.\<close>

definition pool_ok :: "pool \<Rightarrow> bool" where
  "pool_ok p \<longleftrightarrow> bitmap_ok (pool_bitmap p) \<and> page_off (phy_addr_start p) = 0 \<and>
     phy_addr_start p \<noteq> 0 \<and> unat (phy_addr_start p) + nbits (pool_bitmap p) * 4096 \<le> 2 ^ 32"

definition pool_page :: "pool \<Rightarrow> nat \<Rightarrow> u32" where
  "pool_page p i = of_nat i * PAGE_SIZE + phy_addr_start p"

definition pool_used :: "pool \<Rightarrow> nat set" where
  "pool_used p = bit_used (pool_bitmap p)"

definition pool_pages :: "pool \<Rightarrow> nat" where
  "pool_pages p = nbits (pool_bitmap p)"

lemma frame_plus_off: "page_frame w + page_off w = w"
  by (rule bit_word_eqI) (simp add: page_bits)

lemma unat_page_off: "unat (page_off w) = unat w mod 4096"
proof -
  have "page_off w = take_bit 12 w" unfolding page_off_def page_masks by (simp add: take_bit_eq_mask)
  then show ?thesis by (simp add: take_bit_eq_mod unat_mod)
qed

lemma page_off_add: "page_off (of_nat i * PAGE_SIZE + w) = page_off w"
proof -
  have "unat (of_nat i * PAGE_SIZE + w) mod 4096 = unat w mod 4096"
    by (simp add: unat_word_ariths PAGE_SIZE_def unat_of_nat take_bit_eq_mod mod_mod_cancel
        flip: mod_add_eq [of _ 4096] mod_mult_eq [of _ 4096])
  then show ?thesis by (metis unat_page_off unsigned_word_eqI)
qed

lemma aligned_frame: "page_off w = 0 \<Longrightarrow> page_frame w = w"
  using frame_plus_off [of w] by simp

lemma pool_page_unat:
  assumes "pool_ok p" "i < pool_pages p"
  shows "unat (pool_page p i) = unat (phy_addr_start p) + i * 4096"
proof -
  have lt: "i * 4096 + unat (phy_addr_start p) < 2 ^ 32"
    using assms by (simp add: pool_ok_def pool_pages_def)
  have "i < 2 ^ 32" using lt by simp
  then have "unat (of_nat i * PAGE_SIZE) = i * 4096"
    using lt by (subst unat_mult_no_wrap32) (simp_all add: unat_of_nat32 PAGE_SIZE_def)
  with lt show ?thesis by (simp add: pool_page_def unat_add_no_wrap32)
qed

lemma pool_page_aligned:
  assumes "pool_ok p" "i < pool_pages p"
  shows "page_frame (pool_page p i) = pool_page p i" "pool_page p i \<noteq> 0"
proof -
  have "page_off (pool_page p i) = 0"
    using assms(1) by (simp add: pool_page_def page_off_add pool_ok_def)
  then show "page_frame (pool_page p i) = pool_page p i" by (rule aligned_frame)
  have "0 < unat (phy_addr_start p)" using assms(1) by (simp add: pool_ok_def unat_gt_0)
  then show "pool_page p i \<noteq> 0" using pool_page_unat [OF assms] by auto
qed

lemma pool_page_index:
  assumes "pool_ok p" "i < pool_pages p"
  shows "(pool_page p i - phy_addr_start p) div PAGE_SIZE = of_nat i"
proof -
  have le: "phy_addr_start p \<le> pool_page p i"
    using pool_page_unat [OF assms] by (simp add: word_le_nat_alt)
  have lt: "i < 2 ^ 32"
    using assms by (simp add: pool_ok_def pool_pages_def)
  have "unat ((pool_page p i - phy_addr_start p) div PAGE_SIZE) = i"
    using le pool_page_unat [OF assms] by (simp add: unat_div unat_sub PAGE_SIZE_def)
  then show ?thesis by (metis lt unat_of_nat32 unsigned_word_eqI)
qed

lemma palloc_pool_ok:
  assumes ok: "pool_ok p" and free: "pool_used p \<noteq> {..<pool_pages p}"
  shows "\<exists>p' i. palloc_pool p = Inr (pool_page p i, p') \<and> i = (LEAST i. i \<notin> pool_used p) \<and>
           i < pool_pages p \<and> i \<notin> pool_used p \<and> pool_ok p' \<and> pool_used p' = insert i (pool_used p) \<and>
           pool_pages p' = pool_pages p \<and> pool_page p' = pool_page p \<and> pool_lock p' = pool_lock p \<and>
           phy_addr_start p' = phy_addr_start p \<and> pool_size p' = pool_size p"
proof -
  let ?bm = "pool_bitmap p" and ?i = "first_free (pool_bitmap p)"
  have bm: "bitmap_ok ?bm" and ff: "?i < nbits ?bm"
    using ok free by (simp_all add: pool_ok_def pool_used_def pool_pages_def not_full_first_free)
  have lt: "?i < 2 ^ 31" using bitmap_ok_index [OF bm ff] by simp
  then have u: "unat (of_nat ?i :: u32) = ?i" by (intro unat_of_nat32) simp
  then have "(of_nat ?i :: u32) \<noteq> - 1" using lt by (intro unat_lt_not_minus_1) simp
  moreover obtain bm' where "bitmap_take ?bm = Inr (of_nat ?i, bm')" "bitmap_ok bm'"
    "nbits bm' = nbits ?bm" "bit_used bm' = insert ?i (bit_used ?bm)"
    using bitmap_take_ok [OF bm ff] by metis
  ultimately show ?thesis
    using ok bitmap_scan_one [OF bm ff] ff first_free_notin [of ?bm]
    by (intro exI [of _ "p\<lparr>pool_bitmap := bm'\<rparr>"] exI [of _ ?i])
       (auto simp: palloc_pool_def bitmap_take_def pool_page_def pool_ok_def pool_used_def
          pool_pages_def first_free_def fun_eq_iff res_simps)
qed

text \<open>The pages of a pool, handed out by \<^verbatim>\<open>palloc\<close> and taken back as \<^verbatim>\<open>pfree\<close> does.\<close>

definition pool_take :: "pool \<Rightarrow> (nat \<times> pool) res" where
  "pool_take p = mapE (\<lambda>(a, p'). (unat ((a - phy_addr_start p) div PAGE_SIZE), p')) (palloc_pool p)"

definition pool_give :: "pool \<Rightarrow> nat \<Rightarrow> pool res" where
  "pool_give p i = mapE (\<lambda>bm. p\<lparr>pool_bitmap := bm\<rparr>)
     (bitmap_set (pool_bitmap p) ((pool_page p i - phy_addr_start p) div PAGE_SIZE) 0)"

lemma pool_index_lt: "pool_ok p \<Longrightarrow> i < pool_pages p \<Longrightarrow> i < 2 ^ 31"
  using bitmap_ok_index [of "pool_bitmap p" i] by (simp add: pool_ok_def pool_pages_def)

interpretation pp: slot_pool pool_ok pool_pages pool_used pool_take pool_give
proof (unfold_locales, goal_cases)
  case (1 s)
  then show ?case by (auto simp: pool_used_def pool_pages_def bit_used_def)
next
  case (2 p)
  from palloc_pool_ok [OF 2] obtain p' i where a: "palloc_pool p = Inr (pool_page p i, p')"
    "i = (LEAST i. i \<notin> pool_used p)" "i < pool_pages p" "pool_ok p'"
    "pool_used p' = insert i (pool_used p)" "pool_pages p' = pool_pages p" by blast
  have "unat (of_nat i :: u32) = i"
    using pool_index_lt [OF 2(1) a(3)] by (intro unat_of_nat32) simp
  with a pool_page_index [OF 2(1) a(3)] show ?case by (simp add: pool_take_def)
next
  case (3 p)
  then have "\<exists>e. bitmap_scan (pool_bitmap p) 1 = Inl e"
    using bitmap_scan_full_error [of "pool_bitmap p" 1]
    by (auto simp: pool_ok_def pool_used_def pool_pages_def)
  then show ?case by (auto simp: pool_take_def palloc_pool_def)
next
  case (4 p i)
  then have "unat (of_nat i :: u32) = i"
    using pool_index_lt [OF 4] by (intro unat_of_nat32) simp
  then show ?case
    using 4 bitmap_set_0 [of "pool_bitmap p" "of_nat i"] pool_page_index [OF 4]
    by (auto simp: pool_give_def pool_ok_def pool_used_def pool_pages_def)
qed

section \<open>Mapping a page\<close>

text \<open>
  The kernel's part of the address space: every directory entry below the self-map is present, and
  no two of them, nor one of them and the directory, share a frame.
\<close>

definition kernel_addr :: "u32 \<Rightarrow> bool" where
  "kernel_addr v \<longleftrightarrow> 0xc0000000 \<le> v \<and> v < 0xffc00000"

definition tables_ok :: "('z) cpu_scheme \<Rightarrow> bool" where
  "tables_ok s \<longleftrightarrow> self_mapped s \<and>
     (\<forall>v. kernel_addr v \<longrightarrow> present (pmem s (pde_phys s v)) \<and>
        page_frame (pmem s (pde_phys s v)) \<noteq> page_frame (cr3 s)) \<and>
     (\<forall>v v'. kernel_addr v \<longrightarrow> kernel_addr v' \<longrightarrow>
        page_frame (pmem s (pde_phys s v)) = page_frame (pmem s (pde_phys s v')) \<longrightarrow>
        PDE_IDX v = PDE_IDX v')"

lemma present_bit: "present e \<longleftrightarrow> bit e 0"
proof -
  have "e AND 0x00000001 = 0 \<longleftrightarrow> \<not> bit e 0"
    using and_exp_eq_0_iff_not_bit [of e 0] by simp
  then show ?thesis by (simp add: present_def)
qed

lemma bit_entry_bits: "bit (entry_bits a) n \<longleftrightarrow> bit a n \<or> n < 3"
proof -
  have "bit (push_bit k 1 :: u32) n \<longleftrightarrow> n = k" if "k < 3" for k
    using that unfolding bit_push_bit_iff by (auto simp: bit_1_iff)
  from this [of 2] this [of 1] this [of 0] have "bit PG_US_U n \<longleftrightarrow> n = 2" "bit PG_RW_W n \<longleftrightarrow> n = 1"
    "bit PG_P_1 n \<longleftrightarrow> n = 0" by (simp_all add: PG_US_U_def PG_RW_W_def PG_P_1_def)
  then show ?thesis unfolding entry_bits_def by (auto simp: bit_or_iff)
qed

lemma entry_bits_present [simp]: "present (entry_bits a)"
  by (simp add: present_bit bit_entry_bits)

lemma entry_bits_frame [simp]: "page_frame (entry_bits a) = page_frame a"
  by (rule bit_word_eqI) (auto simp: page_bits bit_entry_bits)

lemma entry_inj:
  assumes "page_frame f + PTE_IDX v * 4 = page_frame f' + PTE_IDX v' * 4"
  shows "page_frame f = page_frame f'" "PTE_IDX v = PTE_IDX v'"
proof -
  have b: "bit (page_frame f + PTE_IDX v * 4) n = bit (page_frame f' + PTE_IDX v' * 4) n" for n
    using assms by simp
  show "page_frame f = page_frame f'"
  proof (rule bit_word_eqI)
    fix n
    show "bit (page_frame f) n = bit (page_frame f') n"
      using b [of n] by (auto simp: page_bits split: if_splits)
  qed
  show "PTE_IDX v = PTE_IDX v'"
  proof (rule bit_word_eqI)
    fix n
    show "bit (PTE_IDX v) n = bit (PTE_IDX v') n"
      using b [of "n + 2"] by (auto simp: page_bits add.commute split: if_splits)
  qed
qed

lemma entry_frame: "page_frame (page_frame f + PTE_IDX v * 4) = page_frame f"
  "page_frame (page_frame f + PDE_IDX v * 4) = page_frame f"
  by (rule bit_word_eqI; auto simp: page_bits)+

lemma same_page:
  assumes "PDE_IDX v = PDE_IDX v'" "PTE_IDX v = PTE_IDX v'"
  shows "page_frame v = page_frame v'"
proof (rule bit_word_eqI)
  fix n assume n: "n < LENGTH(32)"
  have "bit (PDE_IDX v) (n - 22) = bit (PDE_IDX v') (n - 22)"
    "bit (PTE_IDX v) (n - 12) = bit (PTE_IDX v') (n - 12)" using assms by simp_all
  then show "bit (page_frame v) n = bit (page_frame v') n"
    using n by (cases "n < 22"; cases "n < 12") (auto simp: page_bits)
qed

lemma tables_entry:
  assumes "tables_ok s" "kernel_addr v"
  shows "self_mapped s" "present (pmem s (pde_phys s v))" "pte_phys s v \<noteq> pde_phys s v'"
    "kernel_addr v' \<Longrightarrow> page_frame v' \<noteq> page_frame v \<Longrightarrow> pte_phys s v \<noteq> pte_phys s v'"
proof -
  show "self_mapped s" "present (pmem s (pde_phys s v))" using assms by (auto simp: tables_ok_def)
  have fr: "page_frame (pmem s (pde_phys s v)) \<noteq> page_frame (cr3 s)"
    using assms by (auto simp: tables_ok_def)
  show "pte_phys s v \<noteq> pde_phys s v'"
  proof
    assume "pte_phys s v = pde_phys s v'"
    then have "page_frame (pte_phys s v) = page_frame (pde_phys s v')" by simp
    then show False using fr unfolding pte_phys_def pde_phys_def [of s v'] entry_frame by simp
  qed
  show "pte_phys s v \<noteq> pte_phys s v'" if v': "kernel_addr v'" "page_frame v' \<noteq> page_frame v"
  proof
    assume "pte_phys s v = pte_phys s v'"
    from entry_inj [OF this [unfolded pte_phys_def]]
    have "page_frame (pmem s (pde_phys s v)) = page_frame (pmem s (pde_phys s v'))"
      and "PTE_IDX v = PTE_IDX v'" by blast+
    moreover from this(1) have "PDE_IDX v = PDE_IDX v'"
      using assms v'(1) unfolding tables_ok_def by blast
    ultimately show False using same_page [of v v'] v'(2) by simp
  qed
qed

lemma page_table_add_present:
  assumes ok: "tables_ok s" and v: "kernel_addr v" and free: "\<not> present (pmem s (pte_phys s v))"
  shows "page_table_add v p s = Inr (s\<lparr>pmem := (pmem s)(pte_phys s v := entry_bits p)\<rparr>)"
  using tables_entry [OF ok v] free
  by (simp add: page_table_add_def window present_def [symmetric])

lemma tables_ok_pte:
  assumes ok: "tables_ok s" and v: "kernel_addr v"
  shows "tables_ok (s\<lparr>pmem := (pmem s)(pte_phys s v := w)\<rparr>)"
    and "pde_phys (s\<lparr>pmem := (pmem s)(pte_phys s v := w)\<rparr>) v' = pde_phys s v'"
    and "pte_phys (s\<lparr>pmem := (pmem s)(pte_phys s v := w)\<rparr>) v' = pte_phys s v'"
proof -
  let ?s = "s\<lparr>pmem := (pmem s)(pte_phys s v := w)\<rparr>"
  show pde: "pde_phys ?s v' = pde_phys s v'" for v' by (simp add: pde_phys_def)
  have ne: "pde_phys s v' \<noteq> pte_phys s v" for v' using tables_entry(3) [OF ok v] by metis
  then have mem: "pmem ?s (pde_phys ?s v') = pmem s (pde_phys s v')" for v' by (simp add: pde)
  show "pte_phys ?s v' = pte_phys s v'"
    unfolding pte_phys_def [of ?s v'] pte_phys_def [of s v'] mem ..
  have top: "page_frame (cr3 s) + 4092 = pde_phys s 0xffffffff"
    by (simp add: pde_phys_def PDE_IDX_def)
  have "self_mapped ?s"
    using tables_entry(1) [OF ok v] ne [of "0xffffffff"] by (simp add: self_mapped_def top)
  moreover have "cr3 ?s = cr3 s" by simp
  ultimately show "tables_ok ?s"
    using ok unfolding tables_ok_def mem by metis
qed

lemma page_table_add_maps:
  assumes ok: "tables_ok s" and v: "kernel_addr v" and free: "translate s v = None"
    and p: "page_off p = 0"
  shows "\<exists>s'. page_table_add v p s = Inr s' \<and> s' = s\<lparr>pmem := pmem s'\<rparr> \<and> tables_ok s' \<and>
           translate s' v = Some (p + page_off v) \<and>
           (\<forall>v'. kernel_addr v' \<longrightarrow> page_frame v' \<noteq> page_frame v \<longrightarrow> translate s' v' = translate s v')"
proof -
  have "\<not> present (pmem s (pte_phys s v))"
    using free tables_entry(2) [OF ok v] by (auto simp: translate_def split: if_splits)
  note add = page_table_add_present [OF ok v this, of p]
  let ?s = "s\<lparr>pmem := (pmem s)(pte_phys s v := entry_bits p)\<rparr>"
  have "translate ?s v = Some (p + page_off v)"
    using translate_pte_set [of s v "entry_bits p"] tables_entry(2,3) [OF ok v] aligned_frame [OF p]
    by simp
  moreover have "translate ?s v' = translate s v'"
    if "kernel_addr v'" "page_frame v' \<noteq> page_frame v" for v'
    using tables_entry(3,4) [OF ok v, of v'] that by (intro translate_pmem_other) auto
  ultimately show ?thesis
    using add tables_ok_pte(1) [OF ok v] by (intro exI [of _ ?s]) simp
qed

section \<open>Mapping a run of pages\<close>

definition page_at :: "u32 \<Rightarrow> nat \<Rightarrow> u32" where
  "page_at v k = of_nat k * PAGE_SIZE + v"

lemma page_at_simps [simp]: "page_at v 0 = v" "page_at (v + PAGE_SIZE) k = page_at v (Suc k)"
  by (simp_all add: page_at_def algebra_simps)

lemma page_at_off [simp]: "page_off (page_at v k) = page_off v"
  by (simp add: page_at_def page_off_add)

lemma page_at_frame: "page_off v = 0 \<Longrightarrow> page_frame (page_at v k) = page_at v k"
  by (simp add: aligned_frame)

lemma page_at_inj:
  assumes "k < 2 ^ 20" "j < 2 ^ 20" "page_at v k = page_at v j"
  shows "k = j"
proof -
  have "of_nat k * PAGE_SIZE = of_nat j * PAGE_SIZE" using assms(3) by (simp add: page_at_def)
  then have "unat (of_nat k * PAGE_SIZE :: u32) = unat (of_nat j * PAGE_SIZE :: u32)" by simp
  moreover have "unat (of_nat i * PAGE_SIZE :: u32) = i * 4096" if "i < 2 ^ 20" for i
    using that by (subst unat_mult_no_wrap32) (simp_all add: unat_of_nat32 PAGE_SIZE_def)
  ultimately show ?thesis using assms(1,2) by simp
qed

lemma tables_pool [simp]:
  "tables_ok (s\<lparr>kernel_pool := p\<rparr>) = tables_ok s" "translate (s\<lparr>kernel_pool := p\<rparr>) v = translate s v"
  "tables_ok (s\<lparr>kernel_vaddr := va\<rparr>) = tables_ok s" "translate (s\<lparr>kernel_vaddr := va\<rparr>) v = translate s v"
  by (simp_all add: tables_ok_def self_mapped_def pde_phys_def translate_def pte_phys_def)

text \<open>The run of pages from \<open>v\<close> on is mapped to the pages \<open>ks\<close> of the kernel's pool.\<close>

definition maps_run :: "('z) mstate_scheme \<Rightarrow> u32 \<Rightarrow> nat list \<Rightarrow> bool" where
  "maps_run s v ks \<longleftrightarrow>
     (\<forall>k < length ks. translate s (page_at v k) = Some (pool_page (kernel_pool s) (ks ! k)))"

definition same_elsewhere :: "('z) mstate_scheme \<Rightarrow> ('z) mstate_scheme \<Rightarrow> u32 \<Rightarrow> nat \<Rightarrow> bool" where
  "same_elsewhere s s' v n \<longleftrightarrow>
     (\<forall>v'. kernel_addr v' \<longrightarrow> (\<forall>k<n. page_frame v' \<noteq> page_at v k) \<longrightarrow> translate s' v' = translate s v')"

definition pool_becomes :: "pool \<Rightarrow> nat set \<Rightarrow> pool \<Rightarrow> bool" where
  "pool_becomes p U p' \<longleftrightarrow> pool_ok p' \<and> pool_used p' = U \<and> pool_pages p' = pool_pages p \<and>
     pool_page p' = pool_page p \<and> pool_lock p' = pool_lock p \<and> phy_addr_start p' = phy_addr_start p \<and>
     pool_size p' = pool_size p"

abbreviation pool_grows :: "pool \<Rightarrow> nat set \<Rightarrow> pool \<Rightarrow> bool" where
  "pool_grows p K \<equiv> pool_becomes p (pool_used p \<union> K)"

lemma pool_used_bound: "pool_used p \<subseteq> {..<pool_pages p}"
  by (auto simp: pool_used_def pool_pages_def bit_used_def)

lemma palloc_kernel_ok:
  assumes "pool_ok (kernel_pool s)" "card (pool_used (kernel_pool s)) < pool_pages (kernel_pool s)"
  shows "\<exists>i p. palloc PF_KERNEL s = Inr (pool_page (kernel_pool s) i, s\<lparr>kernel_pool := p\<rparr>) \<and>
           i < pool_pages (kernel_pool s) \<and> i \<notin> pool_used (kernel_pool s) \<and>
           pool_grows (kernel_pool s) {i} p"
proof -
  have "pool_used (kernel_pool s) \<noteq> {..<pool_pages (kernel_pool s)}"
    using assms(2) by (metis card_lessThan less_irrefl)
  from palloc_pool_ok [OF assms(1) this] obtain p i where
    p: "palloc_pool (kernel_pool s) = Inr (pool_page (kernel_pool s) i, p)"
    "i < pool_pages (kernel_pool s)" "i \<notin> pool_used (kernel_pool s)" and
    "pool_ok p" "pool_used p = insert i (pool_used (kernel_pool s))"
    "pool_pages p = pool_pages (kernel_pool s)" "pool_page p = pool_page (kernel_pool s)"
    "pool_lock p = pool_lock (kernel_pool s)" "phy_addr_start p = phy_addr_start (kernel_pool s)"
    "pool_size p = pool_size (kernel_pool s)" by blast
  then have "pool_grows (kernel_pool s) {i} p" by (simp add: pool_becomes_def)
  with p show ?thesis
    by (intro exI [of _ i] exI [of _ p]) (simp add: palloc_def the_pool_def set_pool_def)
qed

lemma map_pages_ok:
  assumes "tables_ok s" "pool_ok (kernel_pool s)" "page_off v = 0" "n \<le> 2 ^ 20"
    and "card (pool_used (kernel_pool s)) + n \<le> pool_pages (kernel_pool s)"
    and "\<forall>k<n. kernel_addr (page_at v k) \<and> translate s (page_at v k) = None"
  shows "\<exists>ks pm p. let s' = s\<lparr>kernel_pool := p, pmem := pm\<rparr> in
           map_pages PF_KERNEL n v s = Inr (True, s') \<and> tables_ok s' \<and> length ks = n \<and> distinct ks \<and>
           set ks \<inter> pool_used (kernel_pool s) = {} \<and> set ks \<subseteq> {..<pool_pages (kernel_pool s)} \<and>
           pool_grows (kernel_pool s) (set ks) p \<and> maps_run s' v ks \<and> same_elsewhere s s' v n"
  using assms
proof (induction n arbitrary: s v)
  case 0
  then show ?case
    by (intro exI [of _ "[]"] exI [of _ "pmem s"] exI [of _ "kernel_pool s"])
       (simp add: pool_becomes_def maps_run_def same_elsewhere_def)
next
  case (Suc n)
  let ?p = "kernel_pool s"
  obtain i p where pa: "palloc PF_KERNEL s = Inr (pool_page ?p i, s\<lparr>kernel_pool := p\<rparr>)"
    "i < pool_pages ?p" "i \<notin> pool_used ?p" "pool_grows ?p {i} p"
    using palloc_kernel_ok [of s] Suc.prems(2,5) by auto
  have nz: "pool_page ?p i \<noteq> NULL" "page_off (pool_page ?p i) = 0"
    using pool_page_aligned [OF Suc.prems(2) pa(2)] Suc.prems(2)
    by (simp_all add: NULL_def pool_page_def page_off_add pool_ok_def)
  have v0: "kernel_addr v" "translate s v = None" using Suc.prems(6) by force+
  obtain s1 where s1: "page_table_add v (pool_page ?p i) (s\<lparr>kernel_pool := p\<rparr>) = Inr s1"
    "s1 = s\<lparr>kernel_pool := p, pmem := pmem s1\<rparr>" "tables_ok s1"
    "translate s1 v = Some (pool_page ?p i)"
    "\<forall>v'. kernel_addr v' \<longrightarrow> page_frame v' \<noteq> v \<longrightarrow> translate s1 v' = translate s v'"
    using page_table_add_maps [of "s\<lparr>kernel_pool := p\<rparr>" v "pool_page ?p i"] nz(2) v0 Suc.prems(1,3)
    by (auto simp: aligned_frame)
  have fin: "finite (pool_used ?p)" using finite_subset [OF pool_used_bound] by blast
  have k1: "kernel_pool s1 = p" by (subst s1(2)) simp
  have g: "pool_ok p" "pool_used p = insert i (pool_used ?p)" "pool_pages p = pool_pages ?p"
    "pool_page p = pool_page ?p" using pa(4) by (simp_all add: pool_becomes_def)
  have ne: "page_at v (Suc k) \<noteq> v" if "k < n" for k
    using page_at_inj [of "Suc k" 0 v] that Suc.prems(4) by auto
  have v1: "\<forall>k<n. kernel_addr (page_at (v + PAGE_SIZE) k) \<and>
      translate s1 (page_at (v + PAGE_SIZE) k) = None"
    using Suc.prems(6) s1(5) ne by (auto simp: page_at_frame Suc.prems(3))
  have off: "page_off (v + PAGE_SIZE) = 0"
    using page_at_off [of v 1] Suc.prems(3) by (simp add: page_at_def add.commute)
  have card: "card (pool_used (kernel_pool s1)) + n \<le> pool_pages (kernel_pool s1)"
    using Suc.prems(5) fin pa(3) g k1 by simp
  obtain ks pm p' where IH: "map_pages PF_KERNEL n (v + PAGE_SIZE) s1 = Inr (True, s1\<lparr>kernel_pool := p', pmem := pm\<rparr>)"
    "tables_ok (s1\<lparr>kernel_pool := p', pmem := pm\<rparr>)" "length ks = n" "distinct ks"
    "set ks \<inter> pool_used p = {}" "set ks \<subseteq> {..<pool_pages p}" "pool_grows p (set ks) p'"
    "maps_run (s1\<lparr>kernel_pool := p', pmem := pm\<rparr>) (v + PAGE_SIZE) ks"
    "same_elsewhere s1 (s1\<lparr>kernel_pool := p', pmem := pm\<rparr>) (v + PAGE_SIZE) n"
    using Suc.IH [OF s1(3) _ off _ card v1] Suc.prems(4) g(1) k1 unfolding Let_def by auto
  let ?s = "s\<lparr>kernel_pool := p', pmem := pm\<rparr>"
  have eq: "s1\<lparr>kernel_pool := p', pmem := pm\<rparr> = ?s" by (subst s1(2)) simp
  note IH = IH [unfolded eq]
  have "map_pages PF_KERNEL (Suc n) v s = Inr (True, ?s)"
    using pa(1) nz(1) s1(1) IH(1) by simp
  moreover have "pool_grows ?p (set (i # ks)) p'"
    using IH(7) pa(4) by (auto simp: pool_becomes_def)
  moreover have "translate ?s v = Some (pool_page p' i)"
    using IH(9) s1(4) ne v0(1) Suc.prems(3) IH(7) g(4)
    by (force simp: same_elsewhere_def aligned_frame pool_becomes_def)
  then have "maps_run ?s v (i # ks)"
    using IH(8) by (simp add: maps_run_def nth_Cons split: nat.split)
  moreover have "same_elsewhere s ?s v (Suc n)"
    unfolding same_elsewhere_def
  proof (intro allI impI)
    fix v' assume a: "kernel_addr v'" "\<forall>k<Suc n. page_frame v' \<noteq> page_at v k"
    then have "\<forall>k<n. page_frame v' \<noteq> page_at (v + PAGE_SIZE) k" "page_frame v' \<noteq> v"
      by force+
    with a(1) IH(9) s1(5) show "translate ?s v' = translate s v'"
      unfolding same_elsewhere_def by metis
  qed
  ultimately show ?case
    unfolding Let_def using IH(2-6) g pa(2,3)
    by (intro exI [of _ "i # ks"] exI [of _ pm] exI [of _ p']) auto
qed

lemma set_bits_range:
  assumes "bitmap_ok bm" "unat i + n \<le> nbits bm"
  shows "\<exists>bm'. set_bits bm i n (if b then 1 else 0) = Inr bm' \<and> bitmap_ok bm' \<and> nbits bm' = nbits bm \<and>
           bit_used bm' = (if b then bit_used bm \<union> {unat i..<unat i + n}
                           else bit_used bm - {unat i..<unat i + n})"
  using assms
proof (induction n arbitrary: bm i)
  case (Suc n)
  then have lt: "unat i < nbits bm" by simp
  have u: "unat (i + 1) = unat i + 1"
    using bitmap_ok_index [OF Suc.prems(1) lt] by (subst unat_add_no_wrap32) simp_all
  have "\<exists>bm1. bitmap_set bm i (if b then 1 else 0) = Inr bm1 \<and> bitmap_ok bm1 \<and> nbits bm1 = nbits bm \<and>
      bit_used bm1 = (if b then insert (unat i) (bit_used bm) else bit_used bm - {unat i})"
    using bitmap_set_1 [OF Suc.prems(1) lt] bitmap_set_0 [OF Suc.prems(1) lt] by auto
  then obtain bm1 where bm1: "bitmap_set bm i (if b then 1 else 0) = Inr bm1" "bitmap_ok bm1"
    "nbits bm1 = nbits bm"
    "bit_used bm1 = (if b then insert (unat i) (bit_used bm) else bit_used bm - {unat i})"
    by blast
  from Suc.IH [OF bm1(2), of "i + 1"] obtain bm' where
    "set_bits bm1 (i + 1) n (if b then 1 else 0) = Inr bm'" "bitmap_ok bm'" "nbits bm' = nbits bm"
    "bit_used bm' = (if b then bit_used bm1 \<union> {unat i + 1..<unat i + 1 + n}
                     else bit_used bm1 - {unat i + 1..<unat i + 1 + n})"
    using Suc.prems(2) bm1(3) u by auto
  moreover have "{unat i..<unat i + Suc n} = insert (unat i) {unat i + 1..<unat i + 1 + n}" by auto
  ultimately show ?case using bm1 by auto
qed simp

text \<open>
  The kernel's memory is consistent: its pool and its address bitmap are well formed, every page of
  the bitmap is a kernel address above 0, and the pages of the bitmap that are not in use are not mapped.
\<close>

definition heap_page :: "('z) mstate_scheme \<Rightarrow> nat \<Rightarrow> u32" where
  "heap_page s i = page_at (vaddr_start (kernel_vaddr s)) i"

definition kmem_ok :: "('z) mstate_scheme \<Rightarrow> bool" where
  "kmem_ok s \<longleftrightarrow> tables_ok s \<and> pool_ok (kernel_pool s) \<and> bitmap_ok (vaddr_bitmap (kernel_vaddr s)) \<and>
     page_off (vaddr_start (kernel_vaddr s)) = 0 \<and> nbits (vaddr_bitmap (kernel_vaddr s)) \<le> 2 ^ 20 \<and>
     (\<forall>i < nbits (vaddr_bitmap (kernel_vaddr s)). kernel_addr (heap_page s i) \<and>
        (i \<notin> bit_used (vaddr_bitmap (kernel_vaddr s)) \<longrightarrow> translate s (heap_page s i) = None))"

lemma page_at_add: "page_at (page_at v i) k = page_at v (i + k)"
  by (simp add: page_at_def algebra_simps)

lemma malloc_page_kernel:
  assumes ok: "kmem_ok s" and n: "0 < pg_cnt" "pg_cnt < 3840"
    and scan: "bitmap_scan (vaddr_bitmap (kernel_vaddr s)) pg_cnt = Inr i" "i \<noteq> -1"
      "unat i + unat pg_cnt \<le> nbits (vaddr_bitmap (kernel_vaddr s))"
      "{unat i..<unat i + unat pg_cnt} \<inter> bit_used (vaddr_bitmap (kernel_vaddr s)) = {}"
    and room: "card (pool_used (kernel_pool s)) + unat pg_cnt \<le> pool_pages (kernel_pool s)"
  shows "\<exists>ks pm p bm. let s' = s\<lparr>kernel_vaddr := (kernel_vaddr s)\<lparr>vaddr_bitmap := bm\<rparr>,
                                   kernel_pool := p, pmem := pm\<rparr> in
           malloc_page PF_KERNEL pg_cnt s = Inr (heap_page s (unat i), s') \<and> kmem_ok s' \<and>
           length ks = unat pg_cnt \<and> distinct ks \<and> set ks \<inter> pool_used (kernel_pool s) = {} \<and>
           set ks \<subseteq> {..<pool_pages (kernel_pool s)} \<and> pool_grows (kernel_pool s) (set ks) p \<and>
           nbits bm = nbits (vaddr_bitmap (kernel_vaddr s)) \<and>
           bit_used bm = bit_used (vaddr_bitmap (kernel_vaddr s)) \<union> {unat i..<unat i + unat pg_cnt} \<and>
           maps_run s' (heap_page s (unat i)) ks \<and>
           same_elsewhere s s' (heap_page s (unat i)) (unat pg_cnt)"
proof -
  let ?va = "kernel_vaddr s" and ?n = "unat pg_cnt" and ?v = "heap_page s (unat i)"
  let ?bm = "vaddr_bitmap ?va"
  have k: "tables_ok s" "pool_ok (kernel_pool s)" "bitmap_ok ?bm" "page_off (vaddr_start ?va) = 0"
    "nbits ?bm \<le> 2 ^ 20"
    and pg: "\<And>j. j < nbits ?bm \<Longrightarrow> kernel_addr (heap_page s j)"
      "\<And>j. j < nbits ?bm \<Longrightarrow> j \<notin> bit_used ?bm \<Longrightarrow> translate s (heap_page s j) = None"
    using ok unfolding kmem_ok_def by blast+
  obtain bm where bm: "set_bits ?bm i ?n 1 = Inr bm" "bitmap_ok bm" "nbits bm = nbits ?bm"
    "bit_used bm = bit_used ?bm \<union> {unat i..<unat i + ?n}"
    using set_bits_range [OF k(3) scan(3), of True] by auto
  let ?s1 = "s\<lparr>kernel_vaddr := ?va\<lparr>vaddr_bitmap := bm\<rparr>\<rparr>"
  have v: "vaddr_start ?va + i * PAGE_SIZE = ?v"
    by (simp add: heap_page_def page_at_def add.commute)
  have at: "page_at ?v j = heap_page s (unat i + j)" for j by (simp add: heap_page_def page_at_add)
  have n0: "0 < ?n" using n(1) by (simp add: unat_gt_0)
  then have v0: "?v \<noteq> NULL"
    using pg(1) [of "unat i"] scan(3) by (auto simp: kernel_addr_def NULL_def)
  have vg: "vaddr_get PF_KERNEL pg_cnt s = Inr (?v, ?s1)"
    using scan(1,2) bm(1) v by (simp add: vaddr_get_def)
  have "unat i + j \<notin> bit_used ?bm" if "j < ?n" for j using scan(4) that by (auto simp: disjoint_iff)
  then have "\<forall>j<?n. kernel_addr (page_at ?v j) \<and> translate ?s1 (page_at ?v j) = None"
    using pg scan(3) by (simp add: at)
  from map_pages_ok [of ?s1 ?v ?n, OF _ _ _ _ _ this] obtain ks pm p where
    m: "map_pages PF_KERNEL ?n ?v ?s1 = Inr (True, ?s1\<lparr>kernel_pool := p, pmem := pm\<rparr>)"
    "tables_ok (?s1\<lparr>kernel_pool := p, pmem := pm\<rparr>)" "length ks = ?n" "distinct ks"
    "set ks \<inter> pool_used (kernel_pool s) = {}" "set ks \<subseteq> {..<pool_pages (kernel_pool s)}"
    "pool_grows (kernel_pool s) (set ks) p" "maps_run (?s1\<lparr>kernel_pool := p, pmem := pm\<rparr>) ?v ks"
    "same_elsewhere ?s1 (?s1\<lparr>kernel_pool := p, pmem := pm\<rparr>) ?v ?n"
    using k scan(3) room unfolding Let_def by (auto simp: heap_page_def)
  let ?s = "?s1\<lparr>kernel_pool := p, pmem := pm\<rparr>"
  have same: "same_elsewhere s ?s ?v ?n" using m(9) by (simp add: same_elsewhere_def)
  have hp: "heap_page ?s = heap_page s" by (simp add: heap_page_def fun_eq_iff)
  have "kmem_ok ?s"
    unfolding kmem_ok_def hp
  proof (intro conjI allI impI)
    fix j assume j: "j < nbits (vaddr_bitmap (kernel_vaddr ?s))"
    then show "kernel_addr (heap_page s j)" using pg(1) bm(3) by simp
    assume nu: "j \<notin> bit_used (vaddr_bitmap (kernel_vaddr ?s))"
    have "page_frame (heap_page s j) \<noteq> page_at ?v l" if "l < ?n" for l
    proof
      assume "page_frame (heap_page s j) = page_at ?v l"
      then have "j = unat i + l"
        using page_at_inj [of j "unat i + l" "vaddr_start ?va"] j bm(3) k(4,5) scan(3) that
        by (simp add: heap_page_def page_at_frame page_at_add)
      then show False using nu bm(4) that by simp
    qed
    then show "translate ?s (heap_page s j) = None"
      using same pg j nu bm(3,4) by (simp add: same_elsewhere_def)
  qed (use m(2,7) bm k in \<open>auto simp: pool_becomes_def\<close>)
  moreover have "malloc_page PF_KERNEL pg_cnt s = Inr (?v, ?s)"
    using n vg v0 m(1) by (simp add: malloc_page_def)
  ultimately show ?thesis
    unfolding Let_def using m(3-8) same bm
    by (intro exI [of _ ks] exI [of _ pm] exI [of _ p] exI [of _ bm]) blast
qed

section \<open>Giving a run of pages back\<close>

lemma addr_v2p_translate: "self_mapped s \<Longrightarrow> translate s v = Some p \<Longrightarrow> addr_v2p v s = Inr p"
  by (auto simp: translate_def addr_v2p_def window page_frame_def page_off_def split: if_splits)

lemma mod_page_off: "w mod PAGE_SIZE = 0 \<longleftrightarrow> page_off w = 0"
proof -
  have "unat (w mod PAGE_SIZE) = unat (page_off w)"
    by (simp add: unat_page_off unat_mod PAGE_SIZE_def)
  then show ?thesis by (metis unsigned_word_eqI)
qed

lemma pfree_kernel:
  assumes "pool_ok (kernel_pool s)" "i < pool_pages (kernel_pool s)"
    and "unat (phy_addr_start (kernel_pool s)) + pool_pages (kernel_pool s) * 4096
           \<le> unat (phy_addr_start (user_pool s))"
  shows "\<exists>p. pfree (pool_page (kernel_pool s) i) s = Inr (s\<lparr>kernel_pool := p\<rparr>) \<and>
           pool_becomes (kernel_pool s) (pool_used (kernel_pool s) - {i}) p"
proof -
  let ?p = "kernel_pool s"
  have u: "unat (of_nat i :: u32) = i"
    using pool_index_lt [OF assms(1,2)] by (intro unat_of_nat32) simp
  have lt: "pool_page ?p i < phy_addr_start (user_pool s)" "pool_page ?p i \<ge> phy_addr_start ?p"
    using pool_page_unat [OF assms(1,2)] assms(2,3) by (simp_all add: word_less_nat_alt word_le_nat_alt)
  have "bitmap_ok (pool_bitmap ?p)" "unat (of_nat i :: u32) < nbits (pool_bitmap ?p)"
    using assms(1,2) u by (simp_all add: pool_ok_def pool_pages_def)
  from bitmap_set_0 [OF this] obtain bm where
    "bitmap_set (pool_bitmap ?p) (of_nat i) 0 = Inr bm" "bitmap_ok bm"
    "nbits bm = nbits (pool_bitmap ?p)" "bit_used bm = bit_used (pool_bitmap ?p) - {i}"
    unfolding u by blast
  then show ?thesis
    using lt assms(1) pool_page_index [OF assms(1,2)]
    by (intro exI [of _ "?p\<lparr>pool_bitmap := bm\<rparr>"])
       (simp add: pool_becomes_def pfree_def the_pool_def set_pool_def pool_ok_def pool_used_def pool_pages_def
          pool_page_def fun_eq_iff not_le [symmetric])
qed

lemma tables_invlpgs:
  "tables_ok (s\<lparr>invlpgs := l\<rparr>) = tables_ok s" "translate (s\<lparr>invlpgs := l\<rparr>) v = translate s v"
  by (simp_all add: tables_ok_def self_mapped_def translate_def pde_phys_def pte_phys_def)

lemma pte_remove_tables:
  assumes ok: "tables_ok s" and v: "kernel_addr v"
  shows "\<exists>pm. let s' = s\<lparr>pmem := pm, invlpgs := a # invlpgs s\<rparr> in
           page_table_pte_remove a v s = Inr s' \<and> tables_ok s' \<and> translate s' v = None \<and>
           (\<forall>v'. kernel_addr v' \<longrightarrow> page_frame v' \<noteq> page_frame v \<longrightarrow> translate s' v' = translate s v')"
proof -
  let ?w = "pmem s (pte_phys s v) AND NOT PG_P_1"
  let ?pm = "(pmem s)(pte_phys s v := ?w)"
  have rm: "page_table_pte_remove a v s = Inr (s\<lparr>pmem := ?pm, invlpgs := a # invlpgs s\<rparr>)"
    using tables_entry(1,2) [OF ok v] by (simp add: page_table_pte_remove_def invlpg_def window)
  have "translate (s\<lparr>pmem := ?pm\<rparr>) v = None"
    by (rule translate_pte_cleared) simp
  moreover have "translate (s\<lparr>pmem := ?pm\<rparr>) v' = translate s v'"
    if "kernel_addr v'" "page_frame v' \<noteq> page_frame v" for v'
    using tables_entry(3,4) [OF ok v, of v'] that by (intro translate_pmem_other) auto
  ultimately show ?thesis
    using rm tables_ok_pte(1) [OF ok v] unfolding Let_def by (intro exI [of _ ?pm]) (simp add: tables_invlpgs)
qed

lemma kernel_page_range:
  assumes "pool_ok (kernel_pool s)" "i < pool_pages (kernel_pool s)"
    and "unat (phy_addr_start (kernel_pool s)) + pool_pages (kernel_pool s) * 4096
           \<le> unat (phy_addr_start (user_pool s))"
  shows "phy_addr_start (kernel_pool s) \<le> pool_page (kernel_pool s) i"
    "pool_page (kernel_pool s) i < phy_addr_start (user_pool s)" "pool_page (kernel_pool s) i mod PAGE_SIZE = 0"
proof -
  show "phy_addr_start (kernel_pool s) \<le> pool_page (kernel_pool s) i"
    "pool_page (kernel_pool s) i < phy_addr_start (user_pool s)"
    using pool_page_unat [OF assms(1,2)] assms(2,3) by (simp_all add: word_less_nat_alt word_le_nat_alt)
  show "pool_page (kernel_pool s) i mod PAGE_SIZE = 0"
    using assms(1) by (simp add: mod_page_off pool_page_def page_off_add pool_ok_def)
qed

lemma free_pages_ok:
  assumes "tables_ok s" "pool_ok (kernel_pool s)" "page_off v = 0" "length ks \<le> 2 ^ 20"
    and "set ks \<subseteq> {..<pool_pages (kernel_pool s)}"
    and "unat (phy_addr_start (kernel_pool s)) + pool_pages (kernel_pool s) * 4096
           \<le> unat (phy_addr_start (user_pool s))"
    and "\<forall>i < pool_pages (kernel_pool s). in_pool (pool_page (kernel_pool s) i)"
    and "\<forall>k < length ks. kernel_addr (page_at v k)" "maps_run s v ks"
  shows "\<exists>pm p l. let s' = s\<lparr>kernel_pool := p, pmem := pm, invlpgs := l\<rparr> in
           free_pages in_pool (length ks) v s = Inr s' \<and> tables_ok s' \<and>
           pool_becomes (kernel_pool s) (pool_used (kernel_pool s) - set ks) p \<and>
           (\<forall>k < length ks. translate s' (page_at v k) = None) \<and> same_elsewhere s s' v (length ks)"
  using assms
proof (induction ks arbitrary: s v)
  case Nil
  then show ?case
    by (intro exI [of _ "pmem s"] exI [of _ "kernel_pool s"] exI [of _ "invlpgs s"])
       (simp add: pool_becomes_def same_elsewhere_def)
next
  case (Cons i ks)
  let ?p = "kernel_pool s" and ?n = "length ks"
  have i: "i < pool_pages ?p" and v: "kernel_addr v" using Cons.prems(5,8) by force+
  have tr: "translate s v = Some (pool_page ?p i)" using Cons.prems(9) by (force simp: maps_run_def)
  have v2p: "addr_v2p v s = Inr (pool_page ?p i)"
    using tables_entry(1) [OF Cons.prems(1) v] tr by (rule addr_v2p_translate)
  obtain p where p: "pfree (pool_page ?p i) s = Inr (s\<lparr>kernel_pool := p\<rparr>)"
    "pool_becomes ?p (pool_used ?p - {i}) p"
    using pfree_kernel [OF Cons.prems(2) i Cons.prems(6)] by blast
  obtain pm l where pm: "page_table_pte_remove (esp s) v (s\<lparr>kernel_pool := p\<rparr>) = Inr (s\<lparr>kernel_pool := p, pmem := pm, invlpgs := l\<rparr>)"
    "tables_ok (s\<lparr>kernel_pool := p, pmem := pm, invlpgs := l\<rparr>)" "translate (s\<lparr>kernel_pool := p, pmem := pm, invlpgs := l\<rparr>) v = None"
    "\<forall>v'. kernel_addr v' \<longrightarrow> page_frame v' \<noteq> v \<longrightarrow>
      translate (s\<lparr>kernel_pool := p, pmem := pm, invlpgs := l\<rparr>) v' = translate s v'"
    using pte_remove_tables [of "s\<lparr>kernel_pool := p\<rparr>" v "esp s"] Cons.prems(1,3) v
    unfolding Let_def by (auto simp: aligned_frame)
  let ?s1 = "s\<lparr>kernel_pool := p, pmem := pm, invlpgs := l\<rparr>"
  have b: "pool_ok p" "pool_used p = pool_used ?p - {i}" "pool_pages p = pool_pages ?p"
    "pool_page p = pool_page ?p" "phy_addr_start p = phy_addr_start ?p"
    using p(2) by (simp_all add: pool_becomes_def)
  have ne: "page_at v (Suc k) \<noteq> v" if "k < ?n" for k
    using page_at_inj [of "Suc k" 0 v] that Cons.prems(4) by auto
  have off: "page_off (v + PAGE_SIZE) = 0"
    using page_at_off [of v 1] Cons.prems(3) by (simp add: page_at_def add.commute)
  have ka: "\<forall>k < ?n. kernel_addr (page_at (v + PAGE_SIZE) k)" using Cons.prems(8) by auto
  have mr: "maps_run ?s1 (v + PAGE_SIZE) ks"
    using Cons.prems(9) ka pm(4) ne b(4) by (force simp: maps_run_def page_at_frame Cons.prems(3))
  obtain pm' p' l' where IH: "free_pages in_pool ?n (v + PAGE_SIZE) ?s1 = Inr (s\<lparr>kernel_pool := p', pmem := pm', invlpgs := l'\<rparr>)"
    "tables_ok (s\<lparr>kernel_pool := p', pmem := pm', invlpgs := l'\<rparr>)" "pool_becomes p (pool_used p - set ks) p'"
    "\<forall>k < ?n. translate (s\<lparr>kernel_pool := p', pmem := pm', invlpgs := l'\<rparr>) (page_at (v + PAGE_SIZE) k) = None"
    "same_elsewhere ?s1 (s\<lparr>kernel_pool := p', pmem := pm', invlpgs := l'\<rparr>) (v + PAGE_SIZE) ?n"
    using Cons.IH [of ?s1 "v + PAGE_SIZE", OF pm(2) _ off _ _ _ _ ka mr] Cons.prems(4-7) b
    unfolding Let_def by auto
  let ?s = "s\<lparr>kernel_pool := p', pmem := pm', invlpgs := l'\<rparr>"
  have "free_pages in_pool (length (i # ks)) v s = Inr ?s"
    using v2p p(1) pm(1) IH(1) kernel_page_range [OF Cons.prems(2) i Cons.prems(6)] Cons.prems(7) i
    by simp
  moreover have "pool_becomes ?p (pool_used ?p - set (i # ks)) p'"
    using IH(3) p(2) by (auto simp: pool_becomes_def)
  moreover have "translate ?s v = None"
    using IH(5) pm(3) ne v Cons.prems(3) by (force simp: same_elsewhere_def aligned_frame)
  then have "\<forall>k < length (i # ks). translate ?s (page_at v k) = None"
    using IH(4) by (auto simp: less_Suc_eq_0_disj)
  moreover have "same_elsewhere s ?s v (length (i # ks))"
    unfolding same_elsewhere_def
  proof (intro allI impI)
    fix v' assume a: "kernel_addr v'" "\<forall>k<length (i # ks). page_frame v' \<noteq> page_at v k"
    then have "\<forall>k<?n. page_frame v' \<noteq> page_at (v + PAGE_SIZE) k" "page_frame v' \<noteq> v"
      by force+
    with a(1) IH(5) pm(4) show "translate ?s v' = translate s v'"
      unfolding same_elsewhere_def by metis
  qed
  ultimately show ?case
    unfolding Let_def using IH(2) by (intro exI [of _ pm'] exI [of _ p'] exI [of _ l']) blast
qed

lemma PDE_IDX_page_frame [simp]: "PDE_IDX (page_frame v) = PDE_IDX v"
  by (rule bit_word_eqI) (auto simp: page_bits)

lemma PTE_IDX_page_frame [simp]: "PTE_IDX (page_frame v) = PTE_IDX v"
  by (rule bit_word_eqI) (auto simp: page_bits)

lemma translate_page_None: "translate s (page_frame v) = None \<longleftrightarrow> translate s v = None"
  by (simp add: translate_def pde_phys_def pte_phys_def)

lemma mfree_page_kernel:
  assumes ok: "kmem_ok s" and n: "0 < pg_cnt" "unat pg_cnt = length ks"
    and i: "i + length ks \<le> nbits (vaddr_bitmap (kernel_vaddr s))"
    and ks: "set ks \<subseteq> {..<pool_pages (kernel_pool s)}" "maps_run s (heap_page s i) ks"
    and low: "0x102000 \<le> phy_addr_start (kernel_pool s)"
      "unat (phy_addr_start (kernel_pool s)) + pool_pages (kernel_pool s) * 4096
           \<le> unat (phy_addr_start (user_pool s))"
  shows "\<exists>s'. mfree_page PF_KERNEL (heap_page s i) pg_cnt s = Inr s' \<and>
           pool_becomes (kernel_pool s) (pool_used (kernel_pool s) - set ks) (kernel_pool s') \<and>
           bit_used (vaddr_bitmap (kernel_vaddr s')) =
             bit_used (vaddr_bitmap (kernel_vaddr s)) - {i..<i + length ks} \<and>
           (\<forall>k < length ks. translate s' (page_at (heap_page s i) k) = None) \<and>
           same_elsewhere s s' (heap_page s i) (length ks)"
proof -
  let ?va = "kernel_vaddr s" and ?n = "length ks" and ?v = "heap_page s i" and ?p = "kernel_pool s"
  let ?bm = "vaddr_bitmap ?va"
  let ?in = "\<lambda>a. phy_addr_start ?p \<le> a \<and> a < phy_addr_start (user_pool s)"
  have k: "tables_ok s" "pool_ok ?p" "bitmap_ok ?bm" "page_off (vaddr_start ?va) = 0"
    "nbits ?bm \<le> 2 ^ 20" and pg: "\<And>j. j < nbits ?bm \<Longrightarrow> kernel_addr (heap_page s j)"
    using ok unfolding kmem_ok_def by blast+
  have n0: "0 < ?n" using n by (metis unat_gt_0 word_neq_0_conv)
  have off: "page_off ?v = 0" using k(4) by (simp add: heap_page_def)
  have at: "page_at ?v j = heap_page s (i + j)" for j by (simp add: heap_page_def page_at_add)
  have rng: "\<forall>j < pool_pages ?p. ?in (pool_page ?p j)" "\<And>j. j < pool_pages ?p \<Longrightarrow> pool_page ?p j mod PAGE_SIZE = 0"
    using kernel_page_range [OF k(2) _ low(2)] by blast+
  obtain pm p l where f: "free_pages ?in ?n ?v s = Inr (s\<lparr>kernel_pool := p, pmem := pm, invlpgs := l\<rparr>)"
    "pool_becomes ?p (pool_used ?p - set ks) p"
    "\<forall>j < ?n. translate (s\<lparr>kernel_pool := p, pmem := pm, invlpgs := l\<rparr>) (page_at ?v j) = None"
    "same_elsewhere s (s\<lparr>kernel_pool := p, pmem := pm, invlpgs := l\<rparr>) ?v ?n"
    using free_pages_ok [OF k(1,2) off _ ks(1) low(2) rng(1) _ ks(2)] pg i k(5)
    unfolding Let_def by (auto simp: at)
  have k0: "ks ! 0 < pool_pages ?p" using ks(1) nth_mem [OF n0] by auto
  have "translate s (page_at ?v 0) = Some (pool_page ?p (ks ! 0))"
    using ks(2) n0 unfolding maps_run_def by blast
  moreover have "self_mapped s" using k(1) by (simp add: tables_ok_def)
  ultimately have v2p: "addr_v2p ?v s = Inr (pool_page ?p (ks ! 0))"
    by (simp add: addr_v2p_translate)
  have i20: "i < 2 ^ 20" using i n0 k(5) by linarith
  then have u: "unat (of_nat i :: u32) = i" by (intro unat_of_nat32) simp
  have "?v - vaddr_start ?va = of_nat i * PAGE_SIZE" by (simp add: heap_page_def page_at_def)
  moreover have "unat (of_nat i * PAGE_SIZE :: u32) = i * 4096"
    using i20 u by (subst unat_mult_no_wrap32) (simp_all add: PAGE_SIZE_def)
  ultimately have "unat ((?v - vaddr_start ?va) div PAGE_SIZE) = i"
    by (simp add: unat_div PAGE_SIZE_def)
  then have idx: "(?v - vaddr_start ?va) div PAGE_SIZE = of_nat i" by (metis u unsigned_word_eqI)
  obtain bm where bm: "set_bits ?bm (of_nat i) ?n 0 = Inr bm" "bit_used bm = bit_used ?bm - {i..<i + ?n}"
    using set_bits_range [OF k(3), of "of_nat i" ?n False] i u by auto
  let ?s = "s\<lparr>kernel_pool := p, pmem := pm, invlpgs := l\<rparr>"
  have "vaddr_remove PF_KERNEL ?v pg_cnt ?s = Inr (?s\<lparr>kernel_vaddr := ?va\<lparr>vaddr_bitmap := bm\<rparr>\<rparr>)"
    using bm(1) idx n(2) by (simp add: vaddr_remove_def)
  moreover have "pool_page ?p (ks ! 0) \<ge> 0x102000" "?in (pool_page ?p (ks ! 0))"
    using rng(1) k0 low(1) by (auto intro: order_trans)
  moreover have "1 \<le> pg_cnt" using n(1) by (simp add: word_le_nat_alt word_less_nat_alt)
  ultimately have "mfree_page PF_KERNEL ?v pg_cnt s = Inr (?s\<lparr>kernel_vaddr := ?va\<lparr>vaddr_bitmap := bm\<rparr>\<rparr>)"
    using v2p rng(2) k0 f(1) n(2) off by (simp add: mfree_page_def mod_page_off not_le [symmetric])
  then show ?thesis using f bm(2) by (force simp: same_elsewhere_def)
qed

section \<open>The page tables the loader leaves\<close>

text \<open>
  Directory entries 768 to 1022 point to the page tables from \<open>0x101000\<close> on, the last one to the
  directory, and the tables are empty here beyond that.
\<close>

definition loader_pmem :: "u32 \<Rightarrow> u32" where
  "loader_pmem a =
     (if 0x100c00 \<le> a \<and> a < 0x100ffc then entry_bits (0x101000 + (a - 0x100c00) * 1024)
      else if a = 0x100ffc then 0x100007 else 0)"

definition boot_memory :: mstate where
  "boot_memory = \<lparr>eflags = 0x002, lmem = lmem sample_state, cr3 = 0x100000, pmem = loader_pmem, invlpgs = [],
     esp = 0xc009ee00, tss_esp0 = 0, tasks = tasks sample_state, main_thread = 0xc009e000,
     idle_thread = 0xc0100000, thread_ready_list = 0xc0010000, thread_all_list = 0xc0010010,
     saved_intr = (\<lambda>_. INTR_ON), sem_value = Map.empty, locks = Map.empty,
     ioqs = Map.empty, idt_table = [], intr_name = [], port_writes = [], screen = [],
     kbd = \<lparr>ctrl_status = False, shift_status = False, alt_status = False,
            caps_lock_status = False, ext_scan_code = False\<rparr>,
     kbd_buf = 0xc0030000, ticks_now = 0, console_lock = 0xc0040000,
     kernel_pool = \<lparr>pool_bitmap = \<lparr>bmap_bytes_len = 2, bits = [0, 0]\<rparr>, phy_addr_start = 0x200000,
                    pool_size = 0x10000, pool_lock = 0xc0050000\<rparr>,
     user_pool = \<lparr>pool_bitmap = \<lparr>bmap_bytes_len = 2, bits = [0, 0]\<rparr>, phy_addr_start = 0x210000,
                    pool_size = 0x10000, pool_lock = 0xc0050100\<rparr>,
     kernel_vaddr = \<lparr>vaddr_bitmap = \<lparr>bmap_bytes_len = 2, bits = [0, 0]\<rparr>, vaddr_start = K_HEAP_START\<rparr>,
     k_block_descs = 0xc0060000, mdescs = Map.empty, arenas = Map.empty\<rparr>"

lemma unat_PDE_IDX: "unat (PDE_IDX v) = unat v div 2 ^ 22"
proof -
  have "PDE_IDX v = drop_bit 22 v"
  proof (rule bit_word_eqI)
    fix n
    show "bit (PDE_IDX v) n = bit (drop_bit 22 v) n"
      using bit_imp_le_length [of v "n + 22"] by (auto simp: page_bits bit_drop_bit_eq ac_simps)
  qed
  then show ?thesis by (simp add: drop_bit_eq_div unat_div)
qed

lemma loader_entry:
  assumes "kernel_addr v"
  shows "pmem boot_memory (pde_phys boot_memory v) = entry_bits (page_at 0x101000 (unat (PDE_IDX v) - 768))"
    "768 \<le> unat (PDE_IDX v)" "unat (PDE_IDX v) < 1023"
proof -
  let ?i = "unat (PDE_IDX v)"
  show i: "768 \<le> ?i" "?i < 1023"
    using assms unfolding unat_PDE_IDX kernel_addr_def word_le_nat_alt word_less_nat_alt
    by (simp_all add: less_eq_div_iff_mult_less_eq div_less_iff_less_mult)
  have p: "PDE_IDX v = of_nat ?i" by simp
  have "unat (PDE_IDX v * 4) = ?i * 4" using i by (subst unat_mult_no_wrap32) simp_all
  then have u: "unat (0x100000 + PDE_IDX v * 4) = 0x100000 + ?i * 4"
    using i by (subst unat_add_no_wrap32) simp_all
  have a: "(0x100000 + PDE_IDX v * 4 - 0x100c00) * 1024 = of_nat (?i - 768) * PAGE_SIZE"
    using i(1) by (simp add: PAGE_SIZE_def of_nat_diff algebra_simps)
  have "page_frame (0x100000) = (0x100000 :: u32)" by (simp add: page_frame_def)
  then have x: "pde_phys boot_memory v = 0x100000 + PDE_IDX v * 4"
    by (simp add: boot_memory_def pde_phys_def)
  have "0x100c00 \<le> 0x100000 + PDE_IDX v * 4" "0x100000 + PDE_IDX v * 4 < 0x100ffc"
    using i unfolding word_le_nat_alt word_less_nat_alt u by simp_all
  then show "pmem boot_memory (pde_phys boot_memory v) = entry_bits (page_at 0x101000 (?i - 768))"
    unfolding x page_at_def a [symmetric] by (simp add: boot_memory_def loader_pmem_def add.commute)
qed

lemma boot_tables_ok: "tables_ok boot_memory"
  unfolding tables_ok_def
proof (intro conjI allI impI)
  show "self_mapped boot_memory"
    by (simp add: self_mapped_def boot_memory_def loader_pmem_def page_frame_def present_def Let_def)
  fix v assume v: "kernel_addr v"
  note e = loader_entry [OF v]
  have fr: "page_frame (page_at 0x101000 k) = page_at 0x101000 k" for k
    by (rule page_at_frame) (simp add: page_off_def)
  show "present (pmem boot_memory (pde_phys boot_memory v))" unfolding e by simp
  have "page_frame (cr3 boot_memory) = page_at 0x101000 0xfffff"
    by (simp add: boot_memory_def page_frame_def page_at_def PAGE_SIZE_def)
  then show "page_frame (pmem boot_memory (pde_phys boot_memory v)) \<noteq> page_frame (cr3 boot_memory)"
    unfolding e using page_at_inj [of "unat (PDE_IDX v) - 768" "0xfffff" "0x101000"] e(3)
    by (simp add: fr) linarith
  fix v' assume v': "kernel_addr v'"
    "page_frame (pmem boot_memory (pde_phys boot_memory v)) =
     page_frame (pmem boot_memory (pde_phys boot_memory v'))"
  note e' = loader_entry [OF v'(1)]
  have "unat (PDE_IDX v) - 768 = unat (PDE_IDX v') - 768"
    using v'(2) page_at_inj [of "unat (PDE_IDX v) - 768" "unat (PDE_IDX v') - 768" "0x101000"] e(3) e'(3)
    unfolding e e' by (simp add: fr)
  then show "PDE_IDX v = PDE_IDX v'" using e(2) e'(2) by (metis diff_is_0_eq' eq_diff_iff unsigned_word_eqI)
qed

lemma boot_kmem_ok: "kmem_ok boot_memory"
  unfolding kmem_ok_def
proof (intro conjI allI impI boot_tables_ok)
  show "pool_ok (kernel_pool boot_memory)" "bitmap_ok (vaddr_bitmap (kernel_vaddr boot_memory))"
    "page_off (vaddr_start (kernel_vaddr boot_memory)) = 0"
    "nbits (vaddr_bitmap (kernel_vaddr boot_memory)) \<le> 2 ^ 20"
    by (simp_all add: boot_memory_def pool_ok_def bitmap_ok_def nbits_def page_off_def K_HEAP_START_def)
  fix i assume "i < nbits (vaddr_bitmap (kernel_vaddr boot_memory))"
  then have i: "i < 16" by (simp add: boot_memory_def nbits_def)
  have "unat (of_nat i * PAGE_SIZE :: u32) = i * 4096"
    using i by (subst unat_mult_no_wrap32) (simp_all add: unat_of_nat32 PAGE_SIZE_def)
  then have u: "unat (heap_page boot_memory i) = 0xc0100000 + i * 4096"
    using i by (simp add: heap_page_def page_at_def boot_memory_def K_HEAP_START_def unat_add_no_wrap32)
  then show ka: "kernel_addr (heap_page boot_memory i)"
    using i by (simp add: kernel_addr_def word_le_nat_alt word_less_nat_alt)
  have "unat (PDE_IDX (heap_page boot_memory i)) = 768" using u i by (simp add: unat_PDE_IDX)
  then have e: "pmem boot_memory (pde_phys boot_memory (heap_page boot_memory i)) = entry_bits 0x101000"
    using loader_entry(1) [OF ka] by simp
  have "page_frame 0x101000 + PTE_IDX w * 4 \<ge> 0x101000" for w
  proof -
    have "unat (PTE_IDX w) < 2 ^ 10"
      using unsigned_take_bit_eq [of 10 "PTE_IDX w"] 
      by (metis bit_PTE_IDX bit_take_bit_iff bit_word_eqI take_bit_nat_less_exp)
    then have "unat (PTE_IDX w * 4) < 4096" by (subst unat_mult_no_wrap32) simp_all
    then show ?thesis by (simp add: page_frame_def word_le_nat_alt unat_add_no_wrap32)
  qed
  then have "0x101000 \<le> pte_phys boot_memory (heap_page boot_memory i)"
    unfolding pte_phys_def e entry_bits_frame .
  moreover have "loader_pmem x = 0" if "0x101000 \<le> x" for x
  proof -
    have "\<not> x < 0x100ffc" "x \<noteq> 0x100ffc" using that by (auto simp: word_le_nat_alt word_less_nat_alt)
    then show ?thesis by (simp add: loader_pmem_def)
  qed
  ultimately have "loader_pmem (pte_phys boot_memory (heap_page boot_memory i)) = 0" by blast
  then show "translate boot_memory (heap_page boot_memory i) = None"
    by (simp add: translate_def present_def) (simp add: boot_memory_def)
qed

section \<open>Block sizes\<close>

definition class_desc :: "u32 \<Rightarrow> mem_block_desc" where
  "class_desc bs = \<lparr>block_size = bs, blocks_per_arena = (PAGE_SIZE - sizeof_arena) div bs\<rparr>"

lemma mdescs_list_init [simp]: "mdescs (list_init l s) = mdescs s"
  by (simp add: list_init_def)

lemma init_descs:
  "mdescs (block_desc_init b s) = (mdescs s)(b \<mapsto> class_desc 16, b + 24 \<mapsto> class_desc 32,
     b + 48 \<mapsto> class_desc 64, b + 72 \<mapsto> class_desc 128, b + 96 \<mapsto> class_desc 256,
     b + 120 \<mapsto> class_desc 512, b + 144 \<mapsto> class_desc 1024)"
proof -
  have seven: "DESC_CNT = Suc (Suc (Suc (Suc (Suc (Suc (Suc 0))))))" by (simp add: DESC_CNT_def)
  show ?thesis
    unfolding block_desc_init_def seven desc_init_loop.simps sizeof_desc_def
    by (simp add: class_desc_def add.assoc)
qed

lemma find_class:
  assumes "0 < sz" "sz \<le> 1024"
  shows "\<exists>d r k. find_desc sz base DESC_CNT (block_desc_init base s) = Inr d \<and>
           mdescs (block_desc_init base s) d = Some r \<and> unat (block_size r) = 16 * 2 ^ k \<and> k < 7 \<and>
           sz \<le> block_size r \<and> (k = 0 \<or> 8 * 2 ^ k < unat sz) \<and>
           unat (blocks_per_arena r) = (4096 - 12) div unat (block_size r)"
proof -
  let ?s = "block_desc_init base s"
  have seven: "DESC_CNT = Suc (Suc (Suc (Suc (Suc (Suc (Suc 0))))))" by (simp add: DESC_CNT_def)
  let ?n = "unat sz"
  have n: "0 < ?n" "?n \<le> 1024" using assms by (simp_all add: unat_gt_0 word_le_nat_alt)
  have f: "find_desc sz base DESC_CNT ?s =
      (if ?n \<le> 16 then Inr base else if ?n \<le> 32 then Inr (base + 24) else if ?n \<le> 64 then Inr (base + 48)
       else if ?n \<le> 128 then Inr (base + 72) else if ?n \<le> 256 then Inr (base + 96)
       else if ?n \<le> 512 then Inr (base + 120) else Inr (base + 144))"
    using n(2) unfolding seven find_desc.simps sizeof_desc_def get_desc_def init_descs
    by (simp add: class_desc_def add.assoc word_le_nat_alt cong: if_cong)
  have pick: "?thesis" if "find_desc sz base DESC_CNT ?s = Inr (base + c)"
    "mdescs ?s (base + c) = Some (class_desc bs)" "unat bs = 16 * 2 ^ k" "k < 7" "?n \<le> unat bs"
    "k = 0 \<or> 8 * 2 ^ k < ?n" for c bs k
    using that by (intro exI [of _ "base + c"] exI [of _ "class_desc bs"] exI [of _ k])
      (simp add: class_desc_def PAGE_SIZE_def sizeof_arena_def unat_div word_le_nat_alt)
  consider "?n \<le> 16" | "16 < ?n" "?n \<le> 32" | "32 < ?n" "?n \<le> 64" | "64 < ?n" "?n \<le> 128"
    | "128 < ?n" "?n \<le> 256" | "256 < ?n" "?n \<le> 512" | "512 < ?n" using n(2) by linarith
  then show ?thesis
  proof cases
    case 1 then show ?thesis by (intro pick [of 0 16 0]) (simp_all add: f init_descs)
  next
    case 2 then show ?thesis by (intro pick [of 24 32 1]) (simp_all add: f init_descs)
  next
    case 3 then show ?thesis by (intro pick [of 48 64 2]) (simp_all add: f init_descs)
  next
    case 4 then show ?thesis by (intro pick [of 72 128 3]) (simp_all add: f init_descs)
  next
    case 5 then show ?thesis by (intro pick [of 96 256 4]) (simp_all add: f init_descs)
  next
    case 6 then show ?thesis by (intro pick [of 120 512 5]) (simp_all add: f init_descs)
  next
    case 7 then show ?thesis using n(2) by (intro pick [of 144 1024 6]) (simp_all add: f init_descs)
  qed
qed

lemma block_in_arena:
  assumes "page_off a = 0" "12 + unat idx * unat bs + unat bs \<le> 4096" "0 < bs"
  shows "block2arena (a + 12 + idx * bs) = a" "unat (a + 12 + idx * bs) = unat a + 12 + unat idx * unat bs"
proof -
  have b: "0 < unat bs" using assms(3) by (simp add: unat_gt_0)
  have m: "unat a mod 4096 = 0" using assms(1) unat_page_off [of a] by simp
  have "unat a < 4096 * 2 ^ 20" using unsigned_less [of a, where ?'a = nat] by simp
  then have "unat a div 4096 < 2 ^ 20" by (simp add: div_less_iff_less_mult)
  then obtain q where "unat a = 4096 * q" "q < 2 ^ 20" using m by (metis mult_div_mod_eq add_0_right)
  then have hi: "unat a + 4096 \<le> 2 ^ 32" by simp
  have o: "unat (idx * bs) = unat idx * unat bs"
    using assms(2) by (intro unat_mult_no_wrap32) simp
  have o2: "unat (12 + idx * bs) = 12 + unat idx * unat bs"
    using assms(2) o by (subst unat_add_no_wrap32) simp_all
  have "unat (a + (12 + idx * bs)) = unat a + (12 + unat idx * unat bs)"
    using assms(2) b hi o2 by (subst unat_add_no_wrap32) simp_all
  then show u: "unat (a + 12 + idx * bs) = unat a + 12 + unat idx * unat bs"
    by (simp add: add.assoc)
  have "unat (page_off (a + 12 + idx * bs)) = unat (12 + idx * bs)"
    unfolding unat_page_off u o2 using m assms(2) b
    by (metis (no_types, lifting) add.assoc add_lessD1 less_add_same_cancel1 mod_add_left_eq
        add_0 mod_less order_less_le_trans)
  then have "page_off (a + 12 + idx * bs) = 12 + idx * bs" by (metis unsigned_word_eqI)
  then have "page_frame (a + 12 + idx * bs) = a"
    using frame_plus_off [of "a + 12 + idx * bs"] by (simp add: add.assoc)
  then show "block2arena (a + 12 + idx * bs) = a" by (simp add: block2arena_def page_frame_def)
qed

section \<open>The two pools after initialisation\<close>

definition fresh_pool :: "u32 \<Rightarrow> nat \<Rightarrow> u32 \<Rightarrow> pool" where
  "fresh_pool start n lk = \<lparr>pool_bitmap = fresh_bitmap (of_nat (n div 8)), phy_addr_start = start,
     pool_size = of_nat n * PAGE_SIZE, pool_lock = lk\<rparr>"

lemma fresh_pool_ok:
  assumes "n < 2 ^ 16" "page_off start = 0" "start \<noteq> 0" "unat start + n * 4096 \<le> 2 ^ 32"
  shows "pool_ok (fresh_pool start n lk)" "pool_used (fresh_pool start n lk) = {}"
    "pool_pages (fresh_pool start n lk) = 8 * (n div 8)"
proof -
  have u: "unat (of_nat (n div 8) :: u32) = n div 8" using assms(1) by (intro unat_of_nat32) simp
  have "bit_used (fresh_bitmap (of_nat (n div 8))) = {}"
    by (auto simp: bit_used_def fresh_bitmap_def nbits_def u bit_at_def)
  then show "pool_used (fresh_pool start n lk) = {}" by (simp add: pool_used_def fresh_pool_def)
  show "pool_pages (fresh_pool start n lk) = 8 * (n div 8)"
    by (simp add: pool_pages_def fresh_pool_def nbits_def fresh_bitmap_def u)
  have "8 * (n div 8) \<le> n" by simp
  then have "8 * (n div 8) * 4096 \<le> n * 4096" by (rule mult_le_mono1)
  then have "unat start + 32768 * (n div 8) \<le> 2 ^ 32" "n div 8 < 2 ^ 28" using assms(1,4) by simp_all
  with assms show "pool_ok (fresh_pool start n lk)"
    by (simp add: pool_ok_def fresh_pool_def bitmap_ok_def fresh_bitmap_def u nbits_def)
qed

lemma pools_frame [simp]:
  "kernel_pool (lock_init lk s) = kernel_pool s" "user_pool (lock_init lk s) = user_pool s"
  "kernel_pool (put_str x s) = kernel_pool s" "user_pool (put_str x s) = user_pool s"
  "kernel_pool (put_screen i s) = kernel_pool s" "user_pool (put_screen i s) = user_pool s"
  by (simp_all add: lock_init_def sema_init_def set_value_def set_lock_def list_init_def put_str_def
      put_screen_def)

lemma pools_report [simp]:
  "kernel_pool (mem_pool_report s) = kernel_pool s" "user_pool (mem_pool_report s) = user_pool s"
  unfolding mem_pool_report_def Let_def pools_frame by simp_all

lemma mem_pool_init_pools:
  assumes m: "0x200000 \<le> m" "m < 0x10200000"
  defines "n \<equiv> (unat m - 0x200000) div 4096"
  shows "kernel_pool (mem_pool_init m s) = fresh_pool 0x200000 (n div 2) (pool_lock (kernel_pool s))"
    "user_pool (mem_pool_init m s) =
       fresh_pool (0x200000 + of_nat (n div 2) * PAGE_SIZE) (n - n div 2) (pool_lock (user_pool s))"
proof -
  have um: "0x200000 \<le> unat m" "unat m < 0x10200000" using m by (simp_all add: word_le_nat_alt word_less_nat_alt)
  then have n16: "n < 2 ^ 16" by (simp add: n_def div_less_iff_less_mult)
  have "unat ((m - 0x200000) div PAGE_SIZE) = n"
    using m(1) by (simp add: unat_div unat_sub n_def PAGE_SIZE_def)
  moreover have "of_nat (unat ((m - 0x200000) div PAGE_SIZE)) = (m - 0x200000) div PAGE_SIZE" by simp
  ultimately have all: "(m - 0x200000) div PAGE_SIZE = of_nat n" by simp
  have used: "PAGE_SIZE * 256 + 0x100000 = 0x200000" by (simp add: PAGE_SIZE_def)
  have u16: "unat (of_nat k :: u16) = k" "(ucast (of_nat k :: u16) :: u32) = of_nat k"
    "(ucast (of_nat k :: u32) :: u16) = of_nat k" if "k \<le> n" for k
    using that n16 by (simp_all add: unsigned_of_nat take_bit_nat_eq_self)
  have half: "(of_nat n :: u16) div 2 = of_nat (n div 2)"
    "(of_nat n :: u16) - of_nat (n div 2) = of_nat (n - n div 2)"
  proof -
    have "unat ((of_nat n :: u16) div 2) = n div 2" by (simp add: unat_div u16)
    then show "(of_nat n :: u16) div 2 = of_nat (n div 2)" using u16(1) [of "n div 2"] 
      by (metis div_le_dividend unsigned_word_eqI)
  qed (simp add: of_nat_diff)
  have eighth: "(of_nat k :: u16) div 8 = of_nat (k div 8)" if "k \<le> n" for k
  proof -
    have "unat ((of_nat k :: u16) div 8) = k div 8" using that by (simp add: unat_div u16)
    moreover have "k div 8 \<le> n" using that div_le_dividend le_trans by blast
    ultimately show ?thesis using u16(1) [of "k div 8"] by (metis unsigned_word_eqI)
  qed
  have le: "n div 2 \<le> n" "n - n div 2 \<le> n" "n div 2 div 8 \<le> n" "(n - n div 2) div 8 \<le> n" by simp_all
  note w = all u16(3) [OF order_refl] half eighth [OF le(1)] eighth [OF le(2)] u16(2) [OF le(1)]
    u16(2) [OF le(2)] u16(2) [OF le(3)] u16(2) [OF le(4)] used
  show "kernel_pool (mem_pool_init m s) = fresh_pool 0x200000 (n div 2) (pool_lock (kernel_pool s))"
    "user_pool (mem_pool_init m s) =
       fresh_pool (0x200000 + of_nat (n div 2) * PAGE_SIZE) (n - n div 2) (pool_lock (user_pool s))"
    unfolding mem_pool_init_def mem_pool_setup_def Let_def w fresh_pool_def pools_frame pools_report
    by simp_all
qed

section \<open>Taking and returning a block\<close>

definition in_block :: "u32 \<Rightarrow> u32 \<Rightarrow> u32 \<Rightarrow> bool" where
  "in_block b n x \<longleftrightarrow> x - b < n"

lemma zero_heap_lists:
  assumes "lists_at (lmem s) F" "\<And>l xs x. F l = Some xs \<Longrightarrow> x \<in> nodes l xs \<Longrightarrow> \<not> in_block b n x"
  shows "lists_at (lmem (zero_heap b n s)) F"
proof -
  have "dlist (lmem (zero_heap b n s)) l xs" if "F l = Some xs" for l xs
    using assms(2) [OF that]
    by (intro dlist_frame [OF lists_atD [OF assms(1) that]]) (simp add: zero_heap_def in_block_def)
  then show ?thesis using assms(1) unfolding lists_at_def by simp
qed

text \<open>
  A kernel thread's view of a size class: the descriptor the search finds, its free blocks, the
  arena of the first one, and the pool's lock, which nobody else wants. No list runs through the block.
\<close>

definition class_ready ::
  "u32 \<Rightarrow> family \<Rightarrow> u32 \<Rightarrow> u32 list \<Rightarrow> mem_block_desc \<Rightarrow> arena \<Rightarrow> ('z) mstate_scheme \<Rightarrow> bool" where
  "class_ready d F b bs r ar s \<longleftrightarrow>
     (\<exists>t. tasks s (running_thread s) = Some t \<and> pg_dir t = NULL) \<and> running_thread s \<noteq> NULL \<and>
     lock_idle (pool_lock (kernel_pool s)) s \<and>
     lists_at (lmem s) F \<and> F (sema_waiters (lock_sem (pool_lock (kernel_pool s)))) = Some [] \<and>
     F (desc_free_list d) = Some (b # bs) \<and> desc_free_list d \<noteq> sema_waiters (lock_sem (pool_lock (kernel_pool s))) \<and>
     mdescs s d = Some r \<and> arenas s (block2arena b) = Some ar \<and> 0 < block_size r \<and>
     (\<forall>l xs x. F l = Some xs \<longrightarrow> x \<in> nodes l xs \<longrightarrow> in_block b (block_size r) x \<longrightarrow> x = b)"

lemma unheld:
  assumes "lock_idle lk s"
  shows "(sem_value s)(lock_sem lk \<mapsto> 0, lock_sem lk \<mapsto> 1) = sem_value s"
    "(locks s)(lk \<mapsto> h, lk \<mapsto> \<lparr>holder = NULL, holder_repeat_nr = 0\<rparr>) = locks s"
  using assms by (auto simp: lock_idle_def fun_eq_iff)

lemma find_desc_cong: "mdescs s = mdescs s' \<Longrightarrow> find_desc sz d n s = find_desc sz d n s'"
  by (induction n arbitrary: d) (simp_all add: get_desc_def cong: if_cong)

lemma unlisted_popped:
  assumes "lists_at m F" "F l = Some (b # bs)"
  shows "unlisted (F(l \<mapsto> bs)) b"
  unfolding unlisted_def
proof (intro allI impI)
  fix l' xs assume "(F(l \<mapsto> bs)) l' = Some xs"
  then show "b \<notin> nodes l' xs"
    using lists_atD [OF assms] lists_at_disjoint [OF assms(1,2), of l' xs b]
    by (cases "l' = l") (auto simp: dlist_def)
qed

lemma sys_malloc_block:
  assumes rdy: "class_ready d F b bs r ar s"
    and sz: "0 < sz" "sz < pool_size (kernel_pool s)" "sz \<le> 1024"
    and d: "find_desc sz (k_block_descs s) DESC_CNT s = Inr d"
  shows "\<exists>m. sys_malloc sz s = Inr (b, set_arena (block2arena b) (ar\<lparr>cnt := cnt ar - 1\<rparr>) (s\<lparr>lmem := m\<rparr>)) \<and>
           lists_at m (F(desc_free_list d \<mapsto> bs)) \<and> b \<in> dom m"
proof -
  let ?lk = "pool_lock (kernel_pool s)" and ?F = "F(desc_free_list d \<mapsto> bs)"
  obtain t where t: "tasks s (running_thread s) = Some t" "pg_dir t = NULL" "running_thread s \<noteq> NULL"
    using rdy by (auto simp: class_ready_def)
  have idle: "lock_idle ?lk s" and F: "lists_at (lmem s) F" "F (desc_free_list d) = Some (b # bs)"
    and w: "F (sema_waiters (lock_sem ?lk)) = Some []" "desc_free_list d \<noteq> sema_waiters (lock_sem ?lk)"
    and r: "mdescs s d = Some r" "arenas s (block2arena b) = Some ar" "0 < block_size r"
    and blk: "\<And>l xs x. F l = Some xs \<Longrightarrow> x \<in> nodes l xs \<Longrightarrow> in_block b (block_size r) x \<Longrightarrow> x = b"
    using rdy unfolding class_ready_def by blast+
  let ?h = "held ?lk s"
  have h: "lmem ?h = lmem s" "mdescs ?h = mdescs s" "arenas ?h = arenas s" "kernel_pool ?h = kernel_pool s"
    "running_thread ?h = running_thread s" by (simp_all add: held_def running_thread_def)
  have fd: "find_desc sz (k_block_descs s) DESC_CNT ?h = Inr d"
    using d find_desc_cong [OF h(2)] by metis
  obtain m1 where m1: "list_pop (desc_free_list d) ?h = Inr (b, ?h\<lparr>lmem := m1\<rparr>)" "lists_at m1 ?F"
    using list_pop_family [of ?h F "desc_free_list d" b bs] F h(1) by auto
  let ?z = "zero_heap b (block_size r) (?h\<lparr>lmem := m1\<rparr>)"
  have "\<not> in_block b (block_size r) x" if x: "?F l = Some xs" "x \<in> nodes l xs" for l xs x
  proof
    assume "in_block b (block_size r) x"
    then have "x = b"
      using blk [of l] blk [OF F(2)] x by (auto split: if_splits)
    then show False using unlisted_popped [OF F] x unfolding unlisted_def by blast
  qed
  then have zl: "lists_at (lmem ?z) ?F" using m1(2) by (intro zero_heap_lists) simp_all
  let ?a = "set_arena (block2arena b) (ar\<lparr>cnt := cnt ar - 1\<rparr>) ?z"
  have "lock_release ?lk ?a = Inr (?a\<lparr>sem_value := (sem_value ?a)(lock_sem ?lk \<mapsto> 1),
      locks := (locks ?a)(?lk \<mapsto> \<lparr>holder = NULL, holder_repeat_nr = 0\<rparr>)\<rparr>)"
    using zl w by (intro release_held [of _ _ ?F])
      (simp_all add: set_arena_def zero_heap_def held_def running_thread_def)
  moreover have "?a\<lparr>sem_value := (sem_value ?a)(lock_sem ?lk \<mapsto> 1),
      locks := (locks ?a)(?lk \<mapsto> \<lparr>holder = NULL, holder_repeat_nr = 0\<rparr>)\<rparr> =
      set_arena (block2arena b) (ar\<lparr>cnt := cnt ar - 1\<rparr>) (s\<lparr>lmem := lmem ?z\<rparr>)"
    using unheld [OF idle] by (simp add: set_arena_def zero_heap_def held_def)
  moreover have "b \<in> dom (lmem ?z)" using r(3) by (simp add: zero_heap_def dom_def)
  moreover have "list_empty (desc_free_list d) ?h = Inr False"
    using list_empty_family [of ?h F] F h(1) by simp
  moreover have "\<not> 1024 < sz" using sz(3) by simp
  moreover have "get_arena (block2arena b) ?z = Inr ar" "get_desc d (?h\<lparr>lmem := m1\<rparr>) = Inr r"
    using r by (simp_all add: get_arena_def get_desc_def zero_heap_def held_def)
  moreover have "get_task (running_thread s) s = Inr t" using t(1) by (simp add: get_task_def)
  ultimately show ?thesis
    using t acquire_idle [OF idle t(3)] sz(1,2) fd m1(1) zl
    by (intro exI [of _ "lmem ?z"]) (simp add: sys_malloc_def the_pool_def)
qed

lemma sys_free_block:
  assumes t: "tasks s (running_thread s) = Some t" "pg_dir t = NULL" "running_thread s \<noteq> NULL"
    and idle: "lock_idle (pool_lock (kernel_pool s)) s"
    and F: "lists_at (lmem s) F" "F (sema_waiters (lock_sem (pool_lock (kernel_pool s)))) = Some []"
      "F (desc_free_list (desc ar)) = Some bs"
      "desc_free_list (desc ar) \<noteq> sema_waiters (lock_sem (pool_lock (kernel_pool s)))"
    and b: "unlisted F b" "b \<in> dom (lmem s)" "K_HEAP_START \<le> b"
    and ar: "arenas s (block2arena b) = Some ar" "large ar = 0" "mdescs s (desc ar) = Some r"
      "cnt ar + 1 \<noteq> blocks_per_arena r"
  shows "\<exists>m. sys_free b s = Inr (set_arena (block2arena b) (ar\<lparr>cnt := cnt ar + 1\<rparr>) (s\<lparr>lmem := m\<rparr>)) \<and>
           lists_at m (F(desc_free_list (desc ar) \<mapsto> bs @ [b]))"
proof -
  let ?lk = "pool_lock (kernel_pool s)" and ?F = "F(desc_free_list (desc ar) \<mapsto> bs @ [b])"
  let ?h = "held ?lk s"
  have h: "lmem ?h = lmem s" by (simp add: held_def)
  obtain m where m: "list_append (desc_free_list (desc ar)) b ?h = Inr (?h\<lparr>lmem := m\<rparr>)" "lists_at m ?F"
    using list_append_family [of ?h F "desc_free_list (desc ar)" bs b] F b h by auto
  let ?a = "set_arena (block2arena b) (ar\<lparr>cnt := cnt ar + 1\<rparr>) (?h\<lparr>lmem := m\<rparr>)"
  have "lock_release ?lk ?a = Inr (?a\<lparr>sem_value := (sem_value ?a)(lock_sem ?lk \<mapsto> 1),
      locks := (locks ?a)(?lk \<mapsto> \<lparr>holder = NULL, holder_repeat_nr = 0\<rparr>)\<rparr>)"
    using m(2) F(2,4) by (intro release_held [of _ _ ?F]) (simp_all add: set_arena_def held_def running_thread_def)
  moreover have "?a\<lparr>sem_value := (sem_value ?a)(lock_sem ?lk \<mapsto> 1),
      locks := (locks ?a)(?lk \<mapsto> \<lparr>holder = NULL, holder_repeat_nr = 0\<rparr>)\<rparr> =
      set_arena (block2arena b) (ar\<lparr>cnt := cnt ar + 1\<rparr>) (s\<lparr>lmem := m\<rparr>)"
    using unheld [OF idle] by (simp add: set_arena_def held_def)
  moreover have "b \<noteq> NULL" using b(3) by (auto simp: NULL_def K_HEAP_START_def)
  moreover have "get_arena (block2arena b) ?h = Inr ar" "get_desc (desc ar) (?h\<lparr>lmem := m\<rparr>) = Inr r"
    using ar by (simp_all add: get_arena_def get_desc_def held_def)
  moreover have "get_task (running_thread s) s = Inr t" using t(1) by (simp add: get_task_def)
  ultimately show ?thesis
    using t(2) acquire_idle [OF idle t(3)] m ar(2,4) b(3)
    by (intro exI [of _ m]) (simp add: sys_free_def the_pool_def)
qed

lemma boot_maps:
  "nbits (vaddr_bitmap (kernel_vaddr boot_memory)) = 16" "bit_used (vaddr_bitmap (kernel_vaddr boot_memory)) = {}"
  "pool_used (kernel_pool boot_memory) = {}" "pool_pages (kernel_pool boot_memory) = 16"
  "heap_page boot_memory 0 = 0xc0100000"
proof -
  have e: "bit_used \<lparr>bmap_bytes_len = 2, bits = [0, 0]\<rparr> = {}" "nbits \<lparr>bmap_bytes_len = 2, bits = [0, 0]\<rparr> = 16"
    by (auto simp: bit_used_def bit_at_def nbits_def nth_Cons split: nat.splits)
  then show "nbits (vaddr_bitmap (kernel_vaddr boot_memory)) = 16"
    "bit_used (vaddr_bitmap (kernel_vaddr boot_memory)) = {}" "pool_used (kernel_pool boot_memory) = {}"
    "pool_pages (kernel_pool boot_memory) = 16"
    by (simp_all add: boot_memory_def pool_used_def pool_pages_def)
  show "heap_page boot_memory 0 = 0xc0100000"
    by (simp add: heap_page_def boot_memory_def K_HEAP_START_def)
qed

lemma boot_scan: "bitmap_scan (vaddr_bitmap (kernel_vaddr boot_memory)) 1 = Inr 0"
proof -
  let ?bm = "vaddr_bitmap (kernel_vaddr boot_memory)"
  have "first_free ?bm = 0" by (simp add: first_free_def boot_maps)
  moreover have "bitmap_ok ?bm" using boot_kmem_ok by (simp add: kmem_ok_def)
  ultimately show ?thesis using bitmap_scan_one [of ?bm] boot_maps(1) by simp
qed

section \<open>Properties\<close>

text \<open>
  C3: \<^verbatim>\<open>malloc_page(PF_KERNEL, n)\<close> maps fresh memory. In a consistent kernel address space, when the
  scan of the address bitmap finds a run of \<open>n\<close> free pages and the pool has \<open>n\<close> pages left, the
  call returns the address of the run; its pages are mapped, in order, to \<open>n\<close> different frames of
  the pool that were free before, the bitmaps record exactly these pages as used, every other
  kernel address is mapped as before, and the address space is consistent again.
\<close>

theorem malloc_page_maps_fresh_frames:
  assumes "kmem_ok s" "0 < pg_cnt" "pg_cnt < 3840"
    and "bitmap_scan (vaddr_bitmap (kernel_vaddr s)) pg_cnt = Inr i" "i \<noteq> -1"
      "unat i + unat pg_cnt \<le> nbits (vaddr_bitmap (kernel_vaddr s))"
      "{unat i..<unat i + unat pg_cnt} \<inter> bit_used (vaddr_bitmap (kernel_vaddr s)) = {}"
    and "card (pool_used (kernel_pool s)) + unat pg_cnt \<le> pool_pages (kernel_pool s)"
  shows "\<exists>s' ks. malloc_page PF_KERNEL pg_cnt s = Inr (heap_page s (unat i), s') \<and> kmem_ok s' \<and>
           length ks = unat pg_cnt \<and> distinct ks \<and> set ks \<inter> pool_used (kernel_pool s) = {} \<and>
           (\<forall>k < unat pg_cnt. translate s' (page_at (heap_page s (unat i)) k) =
              Some (pool_page (kernel_pool s) (ks ! k))) \<and>
           pool_used (kernel_pool s') = pool_used (kernel_pool s) \<union> set ks \<and>
           bit_used (vaddr_bitmap (kernel_vaddr s')) =
             bit_used (vaddr_bitmap (kernel_vaddr s)) \<union> {unat i..<unat i + unat pg_cnt} \<and>
           same_elsewhere s s' (heap_page s (unat i)) (unat pg_cnt)"
  using malloc_page_kernel [OF assms] unfolding Let_def
  by (elim exE) (auto simp: maps_run_def pool_becomes_def intro!: exI)

theorem malloc_page_maps_fresh_frames_witness:
  "\<exists>s' ks. malloc_page PF_KERNEL 1 boot_memory = Inr (0xc0100000, s') \<and> kmem_ok s' \<and> length ks = 1 \<and>
     translate s' 0xc0100000 = Some (pool_page (kernel_pool boot_memory) (ks ! 0))"
  using malloc_page_maps_fresh_frames [OF boot_kmem_ok, of 1 0] boot_scan boot_maps
  by simp blast

text \<open>
  C22: \<^verbatim>\<open>mfree_page\<close> undoes \<^verbatim>\<open>malloc_page\<close>. Under the same conditions, with the kernel's pool above the
  loader's page tables and below the user pool, freeing the run that was just allocated
  fails no assertion, gives every frame and every page of address space back and leaves every
  kernel address mapped as before the allocation.
\<close>

theorem malloc_mfree_roundtrip:
  assumes "kmem_ok s" "0 < pg_cnt" "pg_cnt < 3840"
    and "bitmap_scan (vaddr_bitmap (kernel_vaddr s)) pg_cnt = Inr i" "i \<noteq> -1"
      "unat i + unat pg_cnt \<le> nbits (vaddr_bitmap (kernel_vaddr s))"
      "{unat i..<unat i + unat pg_cnt} \<inter> bit_used (vaddr_bitmap (kernel_vaddr s)) = {}"
    and "card (pool_used (kernel_pool s)) + unat pg_cnt \<le> pool_pages (kernel_pool s)"
    and "0x102000 \<le> phy_addr_start (kernel_pool s)"
      "unat (phy_addr_start (kernel_pool s)) + pool_pages (kernel_pool s) * 4096
         \<le> unat (phy_addr_start (user_pool s))"
  shows "\<exists>v s1 s2. malloc_page PF_KERNEL pg_cnt s = Inr (v, s1) \<and> mfree_page PF_KERNEL v pg_cnt s1 = Inr s2 \<and>
           pool_used (kernel_pool s2) = pool_used (kernel_pool s) \<and>
           bit_used (vaddr_bitmap (kernel_vaddr s2)) = bit_used (vaddr_bitmap (kernel_vaddr s)) \<and>
           (\<forall>v'. kernel_addr v' \<longrightarrow> translate s2 v' = translate s v')"
proof -
  let ?v = "heap_page s (unat i)" and ?n = "unat pg_cnt"
  obtain ks s1 where m: "malloc_page PF_KERNEL pg_cnt s = Inr (?v, s1)" "kmem_ok s1" "length ks = ?n"
    "set ks \<inter> pool_used (kernel_pool s) = {}" "set ks \<subseteq> {..<pool_pages (kernel_pool s)}"
    "pool_grows (kernel_pool s) (set ks) (kernel_pool s1)" "user_pool s1 = user_pool s"
    "nbits (vaddr_bitmap (kernel_vaddr s1)) = nbits (vaddr_bitmap (kernel_vaddr s))"
    "bit_used (vaddr_bitmap (kernel_vaddr s1)) =
       bit_used (vaddr_bitmap (kernel_vaddr s)) \<union> {unat i..<unat i + ?n}"
    "maps_run s1 ?v ks" "same_elsewhere s s1 ?v ?n" "heap_page s1 = heap_page s"
    using malloc_page_kernel [OF assms(1-8)] unfolding Let_def
    by (elim exE) (auto simp: heap_page_def fun_eq_iff)
  have len: "?n = length ks" and i: "unat i + length ks \<le> nbits (vaddr_bitmap (kernel_vaddr s1))"
    using m(3,8) assms(6) by simp_all
  have p: "set ks \<subseteq> {..<pool_pages (kernel_pool s1)}" "0x102000 \<le> phy_addr_start (kernel_pool s1)"
    "unat (phy_addr_start (kernel_pool s1)) + pool_pages (kernel_pool s1) * 4096
       \<le> unat (phy_addr_start (user_pool s1))"
    using m(5-7) assms(9,10) by (simp_all add: pool_becomes_def)
  obtain s2 where f: "mfree_page PF_KERNEL ?v pg_cnt s1 = Inr s2"
    "pool_becomes (kernel_pool s1) (pool_used (kernel_pool s1) - set ks) (kernel_pool s2)"
    "bit_used (vaddr_bitmap (kernel_vaddr s2)) =
       bit_used (vaddr_bitmap (kernel_vaddr s1)) - {unat i..<unat i + ?n}"
    "\<forall>k < ?n. translate s2 (page_at ?v k) = None" "same_elsewhere s1 s2 ?v ?n"
    using mfree_page_kernel [OF m(2) assms(2) len i p(1) _ p(2,3)] m(10,12) len by auto
  have "translate s2 v' = translate s v'" if v': "kernel_addr v'" for v'
  proof (cases "\<exists>k < ?n. page_frame v' = page_at ?v k")
    case True
    then obtain k where k: "k < ?n" "page_frame v' = page_at ?v k" by blast
    then have "unat i + k \<notin> bit_used (vaddr_bitmap (kernel_vaddr s))"
      "unat i + k < nbits (vaddr_bitmap (kernel_vaddr s))"
      using assms(6,7) by (auto simp: disjoint_iff)
    then have "translate s (page_at ?v k) = None"
      using assms(1) by (simp add: kmem_ok_def heap_page_def page_at_add)
    with k f(4) show ?thesis by (metis translate_page_None)
  next
    case False
    with v' m(11) f(5) show ?thesis unfolding same_elsewhere_def by metis
  qed
  moreover have "pool_used (kernel_pool s2) = pool_used (kernel_pool s)"
    using f(2) m(4,6) by (auto simp: pool_becomes_def)
  moreover have "bit_used (vaddr_bitmap (kernel_vaddr s2)) = bit_used (vaddr_bitmap (kernel_vaddr s))"
    using f(3) m(9) assms(7) by blast
  ultimately show ?thesis using m(1) f(1) by blast
qed

theorem malloc_mfree_roundtrip_witness:
  "\<exists>v s1 s2. malloc_page PF_KERNEL 1 boot_memory = Inr (v, s1) \<and> mfree_page PF_KERNEL v 1 s1 = Inr s2 \<and>
     pool_used (kernel_pool s2) = {}"
proof -
  have "0x102000 \<le> phy_addr_start (kernel_pool boot_memory)"
    "unat (phy_addr_start (kernel_pool boot_memory)) + pool_pages (kernel_pool boot_memory) * 4096
       \<le> unat (phy_addr_start (user_pool boot_memory))"
    unfolding boot_maps by (simp_all add: boot_memory_def)
  with malloc_mfree_roundtrip [OF boot_kmem_ok, of 1 0] boot_scan boot_maps show ?thesis
    by simp blast
qed

text \<open>
  the heap has a block size for every small request. After \<^verbatim>\<open>block_desc_init\<close>, the search in
  \<^verbatim>\<open>sys_malloc\<close> finds, for every size from 1 to 1024, the smallest of 16, 32, \ldots, 1024 that is large
  enough, and the descriptor's number of blocks is what fits in a page after the arena header.
\<close>

theorem heap_size_classes:
  assumes "0 < sz" "sz \<le> 1024"
  shows "\<exists>d r k. find_desc sz base DESC_CNT (block_desc_init base s) = Inr d \<and>
           mdescs (block_desc_init base s) d = Some r \<and> unat (block_size r) = 16 * 2 ^ k \<and> k < 7 \<and>
           sz \<le> block_size r \<and> (k = 0 \<or> 8 * 2 ^ k < unat sz) \<and>
           unat (blocks_per_arena r) = (4096 - 12) div unat (block_size r)"
  using find_class [OF assms, of base s] by blast

theorem heap_size_classes_witness:
  "\<exists>d r k. find_desc 100 0xc0060000 DESC_CNT (block_desc_init 0xc0060000 boot_memory) = Inr d \<and>
     mdescs (block_desc_init 0xc0060000 boot_memory) d = Some r \<and> unat (block_size r) = 16 * 2 ^ k \<and>
     100 \<le> block_size r"
  using heap_size_classes [of 100 "0xc0060000" boot_memory] by simp blast

text \<open>
  The blocks of an arena lie side by side behind its header. For an arena on a page boundary
  whose descriptor \<^verbatim>\<open>block_desc_init\<close> made, \<^verbatim>\<open>arena2block\<close> puts block \<open>idx\<close> at 12 bytes and \<open>idx\<close> whole
  blocks after the start, inside the page, and \<^verbatim>\<open>block2arena\<close> takes its address back to the arena.
\<close>

theorem arena_block_geometry:
  assumes "arenas s a = Some ar" "mdescs s (desc ar) = Some r" "page_off a = 0"
    and "unat (block_size r) = 16 * 2 ^ k" "unat (blocks_per_arena r) = (4096 - 12) div unat (block_size r)"
    and "idx < blocks_per_arena r"
  shows "\<exists>b. arena2block a idx s = Inr b \<and> block2arena b = a \<and>
           unat b = unat a + 12 + unat idx * unat (block_size r) \<and>
           unat b + unat (block_size r) \<le> unat a + 4096"
proof -
  let ?bs = "block_size r"
  have "unat idx < (4096 - 12) div unat ?bs" using assms(5,6) by (simp add: word_less_nat_alt)
  then have "Suc (unat idx) * unat ?bs \<le> 4096 - 12"
    by (metis Suc_leI div_times_less_eq_dividend le_trans mult_le_mono1)
  then have fit: "12 + unat idx * unat ?bs + unat ?bs \<le> 4096" by simp
  have "0 < ?bs" using assms(4) by (simp add: word_less_nat_alt)
  from block_in_arena [OF assms(3) fit this] show ?thesis
    using fit assms(1,2) by (simp add: arena2block_def get_arena_def get_desc_def sizeof_arena_def)
qed

theorem arena_block_geometry_witness:
  "\<exists>b. arena2block 0xc0100000 2
     (boot_memory\<lparr>mdescs := [0xc0060000 \<mapsto> class_desc 16],
        arenas := [0xc0100000 \<mapsto> \<lparr>desc = 0xc0060000, cnt = 0, large = 0\<rparr>]\<rparr>) = Inr b \<and>
     block2arena b = 0xc0100000 \<and> unat b = unat (0xc0100000 :: u32) + 44"
  using arena_block_geometry [of "boot_memory\<lparr>mdescs := [0xc0060000 \<mapsto> class_desc 16],
        arenas := [0xc0100000 \<mapsto> \<lparr>desc = 0xc0060000, cnt = 0, large = 0\<rparr>]\<rparr>" "0xc0100000"
        "\<lparr>desc = 0xc0060000, cnt = 0, large = 0\<rparr>" "class_desc 16" 0 2]
  by (simp add: class_desc_def PAGE_SIZE_def sizeof_arena_def page_off_def) blast

text \<open>
  \<^verbatim>\<open>mem_pool_init\<close> divides the memory behind the page tables. With between 2 and 258 megabytes,
  the kernel's pool starts at 2 megabytes, the user pool behind it, neither reaches into the other or
  past the end of memory, both are empty, and fewer than 16 pages belong to neither.
\<close>

theorem pools_partition_memory:
  assumes "0x200000 \<le> m" "m < 0x10200000"
  shows "let K = kernel_pool (mem_pool_init m s); U = user_pool (mem_pool_init m s) in
           pool_ok K \<and> pool_ok U \<and> pool_used K = {} \<and> pool_used U = {} \<and>
           phy_addr_start K = 0x200000 \<and>
           unat (phy_addr_start K) + pool_pages K * 4096 \<le> unat (phy_addr_start U) \<and>
           unat (phy_addr_start U) + pool_pages U * 4096 \<le> unat m \<and>
           unat m < 0x200000 + pool_pages K * 4096 + pool_pages U * 4096 + 16 * 4096"
proof -
  define n where "n = (unat m - 0x200000) div 4096"
  define k u where "k = n div 2" and "u = n - n div 2"
  define us :: u32 where "us = 0x200000 + of_nat k * PAGE_SIZE"
  have "0x200000 \<le> unat m" "unat m < 0x10200000"
    using assms by (simp_all add: word_le_nat_alt word_less_nat_alt)
  then have n16: "n < 2 ^ 16" and nm: "0x200000 + n * 4096 \<le> unat m" "unat m < 0x200000 + n * 4096 + 4096"
    unfolding n_def by (simp_all add: div_less_iff_less_mult minus_mod_eq_div_mult [symmetric])
  have ku: "k + u = n" "k < 2 ^ 16" "u < 2 ^ 16" using n16 unfolding k_def u_def by simp_all
  have "unat (of_nat k * PAGE_SIZE :: u32) = k * 4096"
    using ku by (subst unat_mult_no_wrap32) (simp_all add: unat_of_nat32 PAGE_SIZE_def)
  then have us: "unat us = 0x200000 + k * 4096"
    using ku unfolding us_def by (subst unat_add_no_wrap32) simp_all
  have "page_off us = 0"
    using page_off_add [of k "0x200000"] by (simp add: add.commute page_off_def us_def)
  moreover have "us \<noteq> 0" using us by (metis add_is_0 unat_0 zero_neq_numeral)
  ultimately have U: "pool_ok (fresh_pool us u lk)" "pool_used (fresh_pool us u lk) = {}"
    "pool_pages (fresh_pool us u lk) = 8 * (u div 8)" for lk
    using fresh_pool_ok [of u us lk] us ku by simp_all
  have K: "pool_ok (fresh_pool 0x200000 k lk)" "pool_used (fresh_pool 0x200000 k lk) = {}"
    "pool_pages (fresh_pool 0x200000 k lk) = 8 * (k div 8)" for lk
    using fresh_pool_ok [of k "0x200000" lk] ku by (simp_all add: page_off_def)
  have st: "phy_addr_start (fresh_pool a b c) = a" for a b c by (simp add: fresh_pool_def)
  have two: "unat (0x200000 :: u32) = 0x200000" by simp
  have "8 * (i div 8) \<le> i" "i \<le> 8 * (i div 8) + 7" for i :: nat by linarith+
  then obtain a b where ab: "a = k div 8" "b = u div 8" "8 * a \<le> k" "k \<le> 8 * a + 7" "8 * b \<le> u"
    "u \<le> 8 * b + 7" by blast
  show ?thesis
    unfolding Let_def mem_pool_init_pools [OF assms, of s, folded n_def, folded k_def u_def, folded us_def]
      U(2,3) K(2,3) st us two ab(1,2) [symmetric]
  proof (intro conjI refl)
    show "pool_ok (fresh_pool 0x200000 k (pool_lock (kernel_pool s)))" by (rule K(1))
    show "pool_ok (fresh_pool us u (pool_lock (user_pool s)))" by (rule U(1))
  qed (use ab(3-6) ku(1) nm in linarith)+
qed

theorem pools_partition_memory_witness:
  "pool_used (kernel_pool (mem_pool_init 0x2000000 boot_memory)) = {} \<and>
   phy_addr_start (kernel_pool (mem_pool_init 0x2000000 boot_memory)) = 0x200000"
  using pools_partition_memory [of "0x2000000" boot_memory] by (simp add: Let_def)

text \<open>
  With 258 megabytes of memory the two pools are empty: the number of free pages is stored in
  a \<^verbatim>\<open>uint16_t\<close>, and 65536 becomes 0.
\<close>

theorem mem_pool_init_loses_memory:
  "pool_pages (kernel_pool (mem_pool_init 0x10200000 s)) = 0 \<and>
   pool_pages (user_pool (mem_pool_init 0x10200000 s)) = 0"
  by (simp add: mem_pool_init_def mem_pool_setup_def Let_def pool_pages_def nbits_def fresh_bitmap_def
      PAGE_SIZE_def)

text \<open>
  C23: \<^verbatim>\<open>sys_free\<close> takes back what \<^verbatim>\<open>sys_malloc\<close> hands out. For a kernel thread that asks for at most
  1024 bytes when its size class has a free block and nobody else wants the pool's lock, \<^verbatim>\<open>sys_malloc\<close>
  returns the first free block and takes it off the free list; freeing it puts it at the end of the
  list, and the arena's count and the lock are as before. The hypothesis on the count says that
  another block of the arena is in use, so that the arena stays.
\<close>

theorem sys_malloc_free_roundtrip:
  assumes "class_ready d F b bs r ar s" "0 < sz" "sz < pool_size (kernel_pool s)" "sz \<le> 1024"
    and "find_desc sz (k_block_descs s) DESC_CNT s = Inr d"
    and "desc ar = d" "large ar = 0" "cnt ar \<noteq> blocks_per_arena r" "K_HEAP_START \<le> b"
  shows "\<exists>s1 s2. sys_malloc sz s = Inr (b, s1) \<and> lists_at (lmem s1) (F(desc_free_list d \<mapsto> bs)) \<and>
           arenas s1 (block2arena b) = Some (ar\<lparr>cnt := cnt ar - 1\<rparr>) \<and>
           sys_free b s1 = Inr s2 \<and> lists_at (lmem s2) (F(desc_free_list d \<mapsto> bs @ [b])) \<and>
           arenas s2 = arenas s \<and> s2 = s\<lparr>lmem := lmem s2\<rparr>"
proof -
  let ?F = "F(desc_free_list d \<mapsto> bs)" and ?ar = "ar\<lparr>cnt := cnt ar - 1\<rparr>"
  let ?lk = "pool_lock (kernel_pool s)"
  obtain m where m: "sys_malloc sz s = Inr (b, set_arena (block2arena b) ?ar (s\<lparr>lmem := m\<rparr>))"
    "lists_at m ?F" "b \<in> dom m" using sys_malloc_block [OF assms(1-5)] by blast
  let ?s1 = "set_arena (block2arena b) ?ar (s\<lparr>lmem := m\<rparr>)"
  obtain t where t: "tasks s (running_thread s) = Some t" "pg_dir t = NULL" "running_thread s \<noteq> NULL"
    using assms(1) by (auto simp: class_ready_def)
  have c: "lock_idle ?lk s" "lists_at (lmem s) F" "F (desc_free_list d) = Some (b # bs)"
    "F (sema_waiters (lock_sem ?lk)) = Some []" "desc_free_list d \<noteq> sema_waiters (lock_sem ?lk)"
    "mdescs s d = Some r" "arenas s (block2arena b) = Some ar"
    using assms(1) unfolding class_ready_def by blast+
  have u: "unlisted ?F b" using c(2,3) by (rule unlisted_popped)
  have s1: "lmem ?s1 = m" "running_thread ?s1 = running_thread s" "tasks ?s1 = tasks s"
    "kernel_pool ?s1 = kernel_pool s" "lock_idle ?lk ?s1" "mdescs ?s1 = mdescs s"
    "arenas ?s1 (block2arena b) = Some ?ar"
    using c(1) by (simp_all add: set_arena_def running_thread_def lock_idle_def)
  have "\<exists>m2. sys_free b ?s1 = Inr (set_arena (block2arena b) (?ar\<lparr>cnt := cnt ?ar + 1\<rparr>) (?s1\<lparr>lmem := m2\<rparr>)) \<and>
      lists_at m2 (?F(desc_free_list (desc ?ar) \<mapsto> bs @ [b]))"
  proof (rule sys_free_block [where t = t and r = r], unfold s1(1-4,6,7))
    show "unlisted ?F b" by (rule u)
    show "lists_at m ?F" "b \<in> dom m" "K_HEAP_START \<le> b" "lock_idle ?lk ?s1"
      "tasks s (running_thread s) = Some t" "pg_dir t = NULL" "running_thread s \<noteq> NULL"
      using m(2,3) assms(9) s1(5) t by blast+
    show "?F (sema_waiters (lock_sem (pool_lock (kernel_pool s)))) = Some []" using c(4,5) by simp
    show "?F (desc_free_list (desc ?ar)) = Some bs" using assms(6) by simp
    show "desc_free_list (desc ?ar) \<noteq> sema_waiters (lock_sem (pool_lock (kernel_pool s)))"
      using c(5) assms(6) by simp
    show "mdescs s (desc ?ar) = Some r" using c(6) assms(6) by simp
  qed (use assms(7,8) in simp_all)
  note ex = this
  have e: "?ar\<lparr>cnt := cnt ?ar + 1\<rparr> = ar" "desc ?ar = d" using assms(6) by simp_all
  from ex [unfolded e fun_upd_upd] obtain m2 where
    m2: "sys_free b ?s1 = Inr (set_arena (block2arena b) ar (?s1\<lparr>lmem := m2\<rparr>))"
      "lists_at m2 (F(desc_free_list d \<mapsto> bs @ [b]))" by blast
  have "(arenas s)(block2arena b \<mapsto> ?ar, block2arena b \<mapsto> ar) = arenas s"
    using c(7) by (simp add: fun_upd_idem)
  then have "set_arena (block2arena b) ar (?s1\<lparr>lmem := m2\<rparr>) = s\<lparr>lmem := m2\<rparr>"
    by (simp add: set_arena_def)
  with m m2 s1(1,7) show ?thesis
    by (intro exI [of _ ?s1] exI [of _ "s\<lparr>lmem := m2\<rparr>"]) simp
qed

definition one_block :: mstate where
  "one_block = boot_memory\<lparr>
     lmem := [0xc0050008 \<mapsto> \<lparr>le_prev = 0, le_next = 0xc0050010\<rparr>, 0xc0050010 \<mapsto> \<lparr>le_prev = 0xc0050008, le_next = 0\<rparr>,
              0xc0060008 \<mapsto> \<lparr>le_prev = 0, le_next = 0xc010000c\<rparr>, 0xc010000c \<mapsto> \<lparr>le_prev = 0xc0060008, le_next = 0xc0060010\<rparr>,
              0xc0060010 \<mapsto> \<lparr>le_prev = 0xc010000c, le_next = 0\<rparr>],
     sem_value := [0xc0050004 \<mapsto> 1], locks := [0xc0050000 \<mapsto> \<lparr>holder = NULL, holder_repeat_nr = 0\<rparr>],
     mdescs := [0xc0060000 \<mapsto> class_desc 16],
     arenas := [0xc0100000 \<mapsto> \<lparr>desc = 0xc0060000, cnt = 1, large = 0\<rparr>]\<rparr>"

lemma one_block_ready:
  "class_ready 0xc0060000 [0xc0050008 \<mapsto> [], 0xc0060008 \<mapsto> [0xc010000c]] 0xc010000c [] (class_desc 16)
     \<lparr>desc = 0xc0060000, cnt = 1, large = 0\<rparr> one_block"
proof -
  let ?F = "[0xc0050008 \<mapsto> [], 0xc0060008 \<mapsto> [0xc010000c]] :: family"
  have st: "running_thread one_block = 0xc009e000" "pool_lock (kernel_pool one_block) = 0xc0050000"
    "tasks one_block = tasks sample_state"
    by (simp_all add: one_block_def boot_memory_def running_thread_def)
  have "lists_at (lmem one_block) ?F"
    by (auto simp: lists_at_def dlist_def linked_def one_block_def list_head_def list_tail_def split: if_splits)
  moreover have "lock_idle 0xc0050000 one_block"
    by (simp add: lock_idle_def one_block_def lock_sem_def)
  moreover have "x = 0xc010000c"
    if "?F l = Some xs" "x \<in> nodes l xs" "in_block 0xc010000c 16 x" for l xs x
    using that by (auto simp: in_block_def list_head_def list_tail_def split: if_splits)
  moreover have "mdescs one_block 0xc0060000 = Some (class_desc 16)"
    "arenas one_block (block2arena 0xc010000c) = Some \<lparr>desc = 0xc0060000, cnt = 1, large = 0\<rparr>"
    "block_size (class_desc 16) = 16"
    by (simp_all add: one_block_def block2arena_def class_desc_def)
  moreover have "tasks sample_state 0xc009e000 = Some (sample_task TASK_RUNNING 0)" "pg_dir (sample_task TASK_RUNNING 0) = NULL"
    by (simp_all add: sample_state_def sample_task_def)
  ultimately show ?thesis
    unfolding class_ready_def st
    by (simp add: NULL_def sema_waiters_def lock_sem_def desc_free_list_def)
qed

theorem sys_malloc_free_roundtrip_witness:
  "\<exists>s1 s2. sys_malloc 10 one_block = Inr (0xc010000c, s1) \<and> sys_free 0xc010000c s1 = Inr s2 \<and>
     arenas s2 = arenas one_block"
proof -
  have six: "DESC_CNT = Suc 6" by (simp add: DESC_CNT_def)
  have "mdescs one_block 0xc0060000 = Some (class_desc 16)" "k_block_descs one_block = 0xc0060000"
    by (simp_all add: one_block_def boot_memory_def)
  then have "find_desc 10 (k_block_descs one_block) DESC_CNT one_block = Inr 0xc0060000"
    unfolding six find_desc.simps by (simp add: get_desc_def class_desc_def)
  moreover have "10 < pool_size (kernel_pool one_block)" by (simp add: one_block_def boot_memory_def)
  moreover have "1 \<noteq> blocks_per_arena (class_desc 16)"
    by (simp add: class_desc_def PAGE_SIZE_def sizeof_arena_def)
  ultimately show ?thesis
    using sys_malloc_free_roundtrip [OF one_block_ready, of 10] by (simp add: K_HEAP_START_def) blast
qed

end
