(* ===== verification/Ide.thy ===== *)
theory Ide
  imports Lib_Stdio Lib_String
begin

text \<open>
  The disk driver, \<^verbatim>\<open>device/ide.c\<close>, down to the registers of a channel. The controller is
  modelled as far as the driver sees it: a register keeps what was last written to its port,
  the data port delivers or takes the sectors the registers select, and the status port gives
  the bytes \<open>hw_status\<close>, one after the other.

  A transfer is the run of a thread that finds the channel's lock free. \<open>wait_disk\<close> is its
  \<^verbatim>\<open>sema_down(&disk_done)\<close>: the thread sleeps, the controller raises its interrupt, the
  handler raises the semaphore and the thread goes on. If the handler does not raise it, the
  thread never wakes and the result is \<open>Blocks\<close>.

  \<open>disk_read\<close> and \<open>disk_write\<close> are the contract of the driver over the sectors alone; the
  file system is built on them.
\<close>

section \<open>Channels and registers\<close>

record ide_channel =
  ch_name :: "u8 list"
  port_base :: u16
  irq_no :: u8
  lock_held :: bool
  expecting_intr :: bool
  disk_done :: u8
  r_sect_cnt :: u8
  r_lba_l :: u8
  r_lba_m :: u8
  r_lba_h :: u8
  r_dev :: u8
  r_cmd :: u8
  media :: "bool \<Rightarrow> u32 \<Rightarrow> u8 list"
  hw_identify :: "bool \<Rightarrow> u8 list"
  hw_status :: "nat \<Rightarrow> u8"
  hw_reads :: nat

definition reg_data :: "ide_channel \<Rightarrow> u16" where "reg_data ch = port_base ch + 0"
definition reg_sect_cnt :: "ide_channel \<Rightarrow> u16" where "reg_sect_cnt ch = port_base ch + 2"
definition reg_lba_l :: "ide_channel \<Rightarrow> u16" where "reg_lba_l ch = port_base ch + 3"
definition reg_lba_m :: "ide_channel \<Rightarrow> u16" where "reg_lba_m ch = port_base ch + 4"
definition reg_lba_h :: "ide_channel \<Rightarrow> u16" where "reg_lba_h ch = port_base ch + 5"
definition reg_dev :: "ide_channel \<Rightarrow> u16" where "reg_dev ch = port_base ch + 6"
definition reg_status :: "ide_channel \<Rightarrow> u16" where "reg_status ch = port_base ch + 7"
definition reg_cmd :: "ide_channel \<Rightarrow> u16" where "reg_cmd ch = reg_status ch"

definition BIT_STAT_BSY :: u8 where "BIT_STAT_BSY = 0x80"
definition BIT_STAT_DRQ :: u8 where "BIT_STAT_DRQ = 0x8"
definition BIT_DEV_MBS :: u8 where "BIT_DEV_MBS = 0xa0"
definition BIT_DEV_LBA :: u8 where "BIT_DEV_LBA = 0x40"
definition BIT_DEV_DEV :: u8 where "BIT_DEV_DEV = 0x10"
definition CMD_IDENTIFY :: u8 where "CMD_IDENTIFY = 0xec"
definition CMD_READ_SECTOR :: u8 where "CMD_READ_SECTOR = 0x20"
definition CMD_WRITE_SECTOR :: u8 where "CMD_WRITE_SECTOR = 0x30"

definition max_lba :: u32 where
  "max_lba = (80 * 1024 * 1024 div 512) - 1"

definition ide_outb :: "u16 \<Rightarrow> u8 \<Rightarrow> ide_channel \<Rightarrow> ide_channel" where
  "ide_outb p v ch =
     (if p = reg_sect_cnt ch then ch\<lparr>r_sect_cnt := v\<rparr>
      else if p = reg_lba_l ch then ch\<lparr>r_lba_l := v\<rparr>
      else if p = reg_lba_m ch then ch\<lparr>r_lba_m := v\<rparr>
      else if p = reg_lba_h ch then ch\<lparr>r_lba_h := v\<rparr>
      else if p = reg_dev ch then ch\<lparr>r_dev := v\<rparr>
      else if p = reg_cmd ch then ch\<lparr>r_cmd := v\<rparr>
      else ch)"

definition inb_status :: "ide_channel \<Rightarrow> u8 \<times> ide_channel" where
  "inb_status ch = (hw_status ch (hw_reads ch), ch\<lparr>hw_reads := Suc (hw_reads ch)\<rparr>)"

text \<open>What the registers select: the drive, the first sector and the number of sectors.\<close>

definition dev_slave :: "ide_channel \<Rightarrow> bool" where
  "dev_slave ch \<longleftrightarrow> r_dev ch AND BIT_DEV_DEV \<noteq> 0"

definition dev_lba :: "ide_channel \<Rightarrow> u32" where
  "dev_lba ch = (ucast (r_lba_l ch) OR push_bit 8 (ucast (r_lba_m ch)) OR push_bit 16 (ucast (r_lba_h ch))
                 OR push_bit 24 (ucast (r_dev ch AND 0x0f)))"

definition dev_cnt :: "ide_channel \<Rightarrow> nat" where
  "dev_cnt ch = (if r_sect_cnt ch = 0 then 256 else unat (r_sect_cnt ch))"

definition sectors_at :: "(u32 \<Rightarrow> u8 list) \<Rightarrow> u32 \<Rightarrow> nat \<Rightarrow> u8 list" where
  "sectors_at d lba n = concat (map (\<lambda>k. d (lba + of_nat k)) [0..<n])"

definition put_sectors :: "u32 \<Rightarrow> nat \<Rightarrow> u8 list \<Rightarrow> (u32 \<Rightarrow> u8 list) \<Rightarrow> u32 \<Rightarrow> u8 list" where
  "put_sectors lba n bs d = (\<lambda>x. if unat (x - lba) < n then sub_buf (512 * unat (x - lba)) 512 bs else d x)"

definition dev_data :: "ide_channel \<Rightarrow> u8 list" where
  "dev_data ch = (if r_cmd ch = CMD_IDENTIFY then hw_identify ch (dev_slave ch)
                  else sectors_at (media ch (dev_slave ch)) (dev_lba ch) (dev_cnt ch))"

text \<open>\<^verbatim>\<open>insw\<close> and \<^verbatim>\<open>outsw\<close> on the data port, for \<open>n\<close> words.\<close>

definition insw :: "nat \<Rightarrow> ide_channel \<Rightarrow> u8 list res" where
  "insw n ch = (if 2 * n \<le> length (dev_data ch) then Inr (take (2 * n) (dev_data ch)) else Inl OutOfBounds)"

definition outsw :: "u8 list \<Rightarrow> nat \<Rightarrow> ide_channel \<Rightarrow> ide_channel res" where
  "outsw b n ch =
     (if 2 * n \<le> length b \<and> 2 * n = 512 * dev_cnt ch
      then Inr (ch\<lparr>media := (media ch)(dev_slave ch :=
             put_sectors (dev_lba ch) (dev_cnt ch) b (media ch (dev_slave ch)))\<rparr>)
      else Inl OutOfBounds)"

section \<open>The driver\<close>

definition select_disk :: "u8 \<Rightarrow> ide_channel \<Rightarrow> ide_channel" where
  "select_disk dev_no ch =
     (let reg_device = BIT_DEV_MBS OR BIT_DEV_LBA;
          reg_device = (if dev_no = 1 then reg_device OR BIT_DEV_DEV else reg_device)
      in ide_outb (reg_dev ch) reg_device ch)"

definition select_sector :: "u8 \<Rightarrow> u32 \<Rightarrow> u8 \<Rightarrow> ide_channel \<Rightarrow> ide_channel res" where
  "select_sector dev_no lba sec_cnt ch =
     bindE (ASSERT (lba \<le> max_lba)) (\<lambda>_.
     let ch = ide_outb (reg_sect_cnt ch) sec_cnt ch;
         ch = ide_outb (reg_lba_l ch) (ucast lba) ch;
         ch = ide_outb (reg_lba_m ch) (ucast (drop_bit 8 lba)) ch;
         ch = ide_outb (reg_lba_h ch) (ucast (drop_bit 16 lba)) ch
     in Inr (ide_outb (reg_dev ch)
               (BIT_DEV_MBS OR BIT_DEV_LBA OR (if dev_no = 1 then BIT_DEV_DEV else 0)
                OR ucast (drop_bit 24 lba)) ch))"

definition cmd_out :: "u8 \<Rightarrow> ide_channel \<Rightarrow> ide_channel" where
  "cmd_out cmd ch = ide_outb (reg_cmd ch) cmd (ch\<lparr>expecting_intr := True\<rparr>)"

definition size_in_byte :: "u8 \<Rightarrow> nat" where
  "size_in_byte sec_cnt = (if sec_cnt = 0 then 256 * 512 else unat sec_cnt * 512)"

definition read_from_sector :: "u8 \<Rightarrow> ide_channel \<Rightarrow> u8 list res" where
  "read_from_sector sec_cnt ch = insw (size_in_byte sec_cnt div 2) ch"

definition write2sector :: "u8 list \<Rightarrow> u8 \<Rightarrow> ide_channel \<Rightarrow> ide_channel res" where
  "write2sector b sec_cnt ch = outsw b (size_in_byte sec_cnt div 2) ch"

text \<open>
  The condition \<^verbatim>\<open>time_limit -= 10 >= 0\<close> takes 1 off the limit, since \<^verbatim>\<open>10 >= 0\<close> is 1, and ends the
  loop at 0: from 30000 the body runs at most 29999 times.
\<close>

fun busy_loop :: "nat \<Rightarrow> ide_channel \<Rightarrow> bool \<times> ide_channel" where
  "busy_loop 0 ch = (False, ch)"
| "busy_loop (Suc n) ch =
     (let (st, ch) = inb_status ch in
      if \<not> st AND BIT_STAT_BSY \<noteq> 0 then
        let (st, ch) = inb_status ch in (st AND BIT_STAT_DRQ \<noteq> 0, ch)
      else busy_loop n ch)"

definition busy_wait :: "ide_channel \<Rightarrow> bool \<times> ide_channel" where
  "busy_wait ch = busy_loop 29999 ch"

text \<open>The part of the interrupt handler that works on the channel of the interrupt.\<close>

definition hd_intr :: "u8 \<Rightarrow> ide_channel \<Rightarrow> ide_channel res" where
  "hd_intr irq ch =
     bindE (ASSERT (irq_no ch = irq)) (\<lambda>_.
     if expecting_intr ch then
       bindE (ASSERT (disk_done ch = 0)) (\<lambda>_.
       Inr (snd (inb_status (ch\<lparr>expecting_intr := False, disk_done := disk_done ch + 1\<rparr>))))
     else Inr ch)"

definition intr_hd_handler :: "u8 \<Rightarrow> ide_channel list \<Rightarrow> ide_channel list res" where
  "intr_hd_handler irq chs =
     bindE (ASSERT (irq = 0x2e \<or> irq = 0x2f)) (\<lambda>_.
     let ch_no = unat (irq - 0x2e) in
     bindE (read_at chs ch_no) (\<lambda>ch.
     mapE (\<lambda>ch. chs[ch_no := ch]) (hd_intr irq ch)))"

definition wait_disk :: "ide_channel \<Rightarrow> ide_channel res" where
  "wait_disk ch =
     bindE (hd_intr (irq_no ch) ch) (\<lambda>ch.
     if disk_done ch = 0 then Inl Blocks else Inr (ch\<lparr>disk_done := disk_done ch - 1\<rparr>))"

text \<open>
  The sector counts are natural numbers here: \<^verbatim>\<open>select_sector\<close> stops a transfer at \<^verbatim>\<open>max_lba\<close>, long
  before a count could wrap.
\<close>

definition secs_this_time :: "nat \<Rightarrow> nat \<Rightarrow> nat" where
  "secs_this_time secs_done sec_cnt =
     (if secs_done + 256 \<le> sec_cnt then 256 else sec_cnt - secs_done)"

text \<open>One pass of the loops of \<^verbatim>\<open>ide_read\<close> and \<^verbatim>\<open>ide_write\<close>.\<close>

definition read_pass :: "u8 \<Rightarrow> u32 \<Rightarrow> nat \<Rightarrow> ide_channel \<Rightarrow> (u8 list \<times> ide_channel) res" where
  "read_pass dev_no lba secs_op ch =
     bindE (select_sector dev_no lba (of_nat secs_op) ch) (\<lambda>ch.
     bindE (wait_disk (cmd_out CMD_READ_SECTOR ch)) (\<lambda>ch.
     let (ready, ch) = busy_wait ch in
     bindE (ASSERT ready) (\<lambda>_.
     mapE (\<lambda>b. (b, ch)) (read_from_sector (of_nat secs_op) ch))))"

definition write_pass :: "u8 \<Rightarrow> u32 \<Rightarrow> u8 list \<Rightarrow> nat \<Rightarrow> ide_channel \<Rightarrow> ide_channel res" where
  "write_pass dev_no lba buf secs_op ch =
     bindE (select_sector dev_no lba (of_nat secs_op) ch) (\<lambda>ch.
     let (ready, ch) = busy_wait (cmd_out CMD_WRITE_SECTOR ch) in
     bindE (ASSERT ready) (\<lambda>_.
     bindE (write2sector buf (of_nat secs_op) ch) wait_disk))"

function ide_read_loop :: "u8 \<Rightarrow> u32 \<Rightarrow> nat \<Rightarrow> nat \<Rightarrow> ide_channel \<Rightarrow> (u8 list \<times> ide_channel) res" where
  "ide_read_loop dev_no lba sec_cnt secs_done ch =
     (if secs_done < sec_cnt then
        let secs_op = secs_this_time secs_done sec_cnt in
        bindE (read_pass dev_no (lba + of_nat secs_done) secs_op ch) (\<lambda>(b, ch).
        mapE (\<lambda>(bs, ch). (b @ bs, ch)) (ide_read_loop dev_no lba sec_cnt (secs_done + secs_op) ch))
      else Inr ([], ch))"
  by pat_completeness auto
termination
  by (relation "measure (\<lambda>(dev_no, lba, n, i, ch). n - i)") (auto simp: secs_this_time_def)

function ide_write_loop :: "u8 \<Rightarrow> u32 \<Rightarrow> u8 list \<Rightarrow> nat \<Rightarrow> nat \<Rightarrow> ide_channel \<Rightarrow> ide_channel res" where
  "ide_write_loop dev_no lba buf sec_cnt secs_done ch =
     (if secs_done < sec_cnt then
        let secs_op = secs_this_time secs_done sec_cnt in
        bindE (write_pass dev_no (lba + of_nat secs_done) (drop (secs_done * 512) buf) secs_op ch)
          (ide_write_loop dev_no lba buf sec_cnt (secs_done + secs_op))
      else Inr ch)"
  by pat_completeness auto
termination
  by (relation "measure (\<lambda>(dev_no, lba, b, n, i, ch). n - i)") (auto simp: secs_this_time_def)

declare ide_read_loop.simps [simp del] ide_write_loop.simps [simp del]

definition channel_acquire :: "ide_channel \<Rightarrow> ide_channel res" where
  "channel_acquire ch = (if lock_held ch then Inl Blocks else Inr (ch\<lparr>lock_held := True\<rparr>))"

definition ide_read :: "u8 \<Rightarrow> u32 \<Rightarrow> nat \<Rightarrow> ide_channel \<Rightarrow> (u8 list \<times> ide_channel) res" where
  "ide_read dev_no lba sec_cnt ch =
     bindE (ASSERT (lba \<le> max_lba)) (\<lambda>_.
     bindE (ASSERT (sec_cnt > 0)) (\<lambda>_.
     bindE (channel_acquire ch) (\<lambda>ch.
     bindE (ide_read_loop dev_no lba sec_cnt 0 (select_disk dev_no ch)) (\<lambda>(b, ch).
     Inr (b, ch\<lparr>lock_held := False\<rparr>)))))"

definition ide_write :: "u8 \<Rightarrow> u32 \<Rightarrow> u8 list \<Rightarrow> nat \<Rightarrow> ide_channel \<Rightarrow> ide_channel res" where
  "ide_write dev_no lba buf sec_cnt ch =
     bindE (ASSERT (lba \<le> max_lba)) (\<lambda>_.
     bindE (ASSERT (sec_cnt > 0)) (\<lambda>_.
     bindE (channel_acquire ch) (\<lambda>ch.
     bindE (ide_write_loop dev_no lba buf sec_cnt 0 (select_disk dev_no ch)) (\<lambda>ch.
     Inr (ch\<lparr>lock_held := False\<rparr>)))))"

section \<open>The contract\<close>

text \<open>The first sectors of the pieces of a transfer, 256 sectors each, are all at most \<^verbatim>\<open>max_lba\<close>.\<close>

definition in_range :: "u32 \<Rightarrow> nat \<Rightarrow> bool" where
  "in_range lba n \<longleftrightarrow> unat lba + 256 * ((n - 1) div 256) \<le> unat max_lba"

definition disk_read :: "u32 \<Rightarrow> nat \<Rightarrow> (u32 \<Rightarrow> u8 list) \<Rightarrow> u8 list res" where
  "disk_read lba n d =
     bindE (ASSERT (lba \<le> max_lba \<and> 0 < n)) (\<lambda>_.
     bindE (ASSERT (in_range lba n)) (\<lambda>_. Inr (sectors_at d lba n)))"

definition disk_write :: "u32 \<Rightarrow> u8 list \<Rightarrow> nat \<Rightarrow> (u32 \<Rightarrow> u8 list) \<Rightarrow> (u32 \<Rightarrow> u8 list) res" where
  "disk_write lba b n d =
     bindE (ASSERT (lba \<le> max_lba \<and> 0 < n)) (\<lambda>_.
     bindE (ASSERT (in_range lba n)) (\<lambda>_.
     if 512 * n \<le> length b then Inr (put_sectors lba n b d) else Inl OutOfBounds))"

section \<open>One pass\<close>

definition channel_ready :: "ide_channel \<Rightarrow> bool" where
  "channel_ready ch \<longleftrightarrow> \<not> expecting_intr ch \<and> disk_done ch = 0 \<and>
     (\<forall>b x. length (media ch b x) = 512) \<and>
     (\<forall>k. hw_status ch k AND BIT_STAT_BSY = 0 \<and> hw_status ch k AND BIT_STAT_DRQ \<noteq> 0)"

lemma unat_max_lba: "unat max_lba = 163839"
  by (simp add: max_lba_def)

lemma select_sector_ok:
  assumes "lba \<le> max_lba"
  shows "select_sector dev lba c ch = Inr (ch\<lparr>r_sect_cnt := c, r_lba_l := ucast lba,
           r_lba_m := ucast (drop_bit 8 lba), r_lba_h := ucast (drop_bit 16 lba),
           r_dev := BIT_DEV_MBS OR BIT_DEV_LBA OR (if dev = 1 then BIT_DEV_DEV else 0)
                    OR ucast (drop_bit 24 lba)\<rparr>)"
  using assms by (simp add: select_sector_def Let_def ide_outb_def reg_sect_cnt_def reg_lba_l_def
      reg_lba_m_def reg_lba_h_def reg_dev_def)

lemma cmd_out_eq: "cmd_out cmd ch = ch\<lparr>expecting_intr := True, r_cmd := cmd\<rparr>"
  by (simp add: cmd_out_def ide_outb_def reg_cmd_def reg_status_def reg_sect_cnt_def reg_lba_l_def
      reg_lba_m_def reg_lba_h_def reg_dev_def)

lemma small_lba: "lba \<le> max_lba \<Longrightarrow> drop_bit 24 lba = 0"
proof -
  assume "lba \<le> max_lba"
  then have "unat lba < 2 ^ 24" using unat_max_lba by (simp add: word_le_nat_alt)
  then have "unat (drop_bit 24 lba) = 0" by (simp add: drop_bit_eq_div unat_div)
  then show "drop_bit 24 lba = 0" by (simp add: unsigned_eq_0_iff)
qed

lemma lba_bytes:
  assumes "drop_bit 24 lba = (0 :: u32)"
  shows "ucast (ucast lba :: u8) OR push_bit 8 (ucast (ucast (drop_bit 8 lba) :: u8))
         OR push_bit 16 (ucast (ucast (drop_bit 16 lba) :: u8)) = lba" (is "?x = lba")
proof (rule bit_word_eqI)
  fix n assume n: "n < LENGTH(32)"
  have "\<not> bit (drop_bit 24 lba) (n - 24)" using assms by simp
  then have hi: "24 \<le> n \<Longrightarrow> \<not> bit lba n" by (simp add: bit_drop_bit_eq)
  show "bit ?x n = bit lba n"
    using n hi by (cases "n < 8"; cases "n < 16"; cases "n < 24") (auto simp: bit_simps)
qed

lemma selected:
  assumes "lba \<le> max_lba" "0 < op" "op \<le> 256"
    and ch: "select_sector dev lba (of_nat op) ch0 = Inr ch"
  shows "dev_lba ch = lba" "dev_slave ch = (dev = 1)" "dev_cnt ch = op"
proof -
  note c = ch [unfolded select_sector_ok [OF assms(1)] sum.inject, symmetric]
  have "(ucast (0 :: u32) :: u8) = 0" by simp
  note z = small_lba [OF assms(1)] this
  show "dev_lba ch = lba"
    using lba_bytes [OF z(1)] by (simp add: dev_lba_def c z BIT_DEV_MBS_def BIT_DEV_LBA_def BIT_DEV_DEV_def)
  show "dev_slave ch = (dev = 1)"
    by (simp add: dev_slave_def c z BIT_DEV_MBS_def BIT_DEV_LBA_def BIT_DEV_DEV_def)
  have "op < 256 \<Longrightarrow> unat (of_nat op :: u8) = op"
    by (simp add: unat_of_nat take_bit_nat_eq_self_iff)
  then show "dev_cnt ch = op"
    using assms(2,3) by (cases "op = 256") (auto simp: dev_cnt_def c simp flip: unat_eq_zero)
qed

lemma sectors_at_add:
  "sectors_at d lba (m + n) = sectors_at d lba m @ sectors_at d (lba + of_nat m) n"
  by (induction n) (simp_all add: sectors_at_def ac_simps)

lemma length_sectors_at: "(\<And>x. length (d x) = 512) \<Longrightarrow> length (sectors_at d lba n) = 512 * n"
  by (induction n) (simp_all add: sectors_at_def)

lemma busy_wait_ready:
  assumes "channel_ready ch0" "hw_status ch = hw_status ch0"
  shows "busy_wait ch = (True, ch\<lparr>hw_reads := Suc (Suc (hw_reads ch))\<rparr>)"
proof -
  have "busy_loop (Suc n) ch = (True, ch\<lparr>hw_reads := Suc (Suc (hw_reads ch))\<rparr>)" for n
    using assms by (simp add: inb_status_def channel_ready_def)
  moreover have "busy_wait ch = busy_loop (Suc 29998) ch"
    unfolding busy_wait_def by (rule arg_cong [where f = "\<lambda>n. busy_loop n ch"]) simp
  ultimately show ?thesis by metis
qed

lemma wait_disk_expecting:
  assumes "expecting_intr ch" "disk_done ch = 0"
  shows "wait_disk ch = Inr (ch\<lparr>expecting_intr := False, disk_done := 0, hw_reads := Suc (hw_reads ch)\<rparr>)"
  using assms by (simp add: wait_disk_def hd_intr_def inb_status_def)

lemma size_in_byte_of_nat:
  assumes "0 < op" "op \<le> 256"
  shows "size_in_byte (of_nat op) div 2 = 256 * op"
proof -
  have "op < 256 \<Longrightarrow> unat (of_nat op :: u8) = op"
    by (simp add: unat_of_nat take_bit_nat_eq_self_iff)
  then show ?thesis
    using assms by (cases "op = 256") (auto simp: size_in_byte_def simp flip: unat_eq_zero)
qed

text \<open>The part of a channel that a transfer leaves alone, and how it leaves the rest.\<close>

definition settled :: "ide_channel \<Rightarrow> ide_channel \<Rightarrow> bool" where
  "settled ch ch' \<longleftrightarrow> channel_ready ch' \<and> lock_held ch' = lock_held ch \<and> irq_no ch' = irq_no ch \<and>
     port_base ch' = port_base ch \<and> hw_status ch' = hw_status ch"

lemma read_pass_ok:
  assumes ok: "channel_ready ch" and lba: "lba \<le> max_lba" and op: "0 < op" "op \<le> 256"
  shows "\<exists>ch'. read_pass dev lba op ch = Inr (sectors_at (media ch (dev = 1)) lba op, ch') \<and>
           media ch' = media ch \<and> settled ch ch'"
proof -
  obtain c where c: "select_sector dev lba (of_nat op) ch = Inr c"
    using select_sector_ok [OF lba] by blast
  note sel = selected [OF lba op c]
  have f: "hw_status c = hw_status ch" "media c = media ch" "disk_done c = 0" "lock_held c = lock_held ch"
    "irq_no c = irq_no ch" "port_base c = port_base ch"
    using c ok by (auto simp: select_sector_ok [OF lba] channel_ready_def)
  let ?w = "c\<lparr>r_cmd := CMD_READ_SECTOR, expecting_intr := False, disk_done := 0, hw_reads := Suc (Suc (Suc (hw_reads c)))\<rparr>"
  have w: "wait_disk (cmd_out CMD_READ_SECTOR c) =
      Inr (c\<lparr>r_cmd := CMD_READ_SECTOR, expecting_intr := False, disk_done := 0, hw_reads := Suc (hw_reads c)\<rparr>)"
    using f(3) by (subst wait_disk_expecting) (simp_all add: cmd_out_eq)
  have b: "busy_wait (c\<lparr>r_cmd := CMD_READ_SECTOR, expecting_intr := False, disk_done := 0,
      hw_reads := Suc (hw_reads c)\<rparr>) = (True, ?w)"
    using f(1) by (subst busy_wait_ready [OF ok]) simp_all
  have "dev_lba ?w = lba" "dev_slave ?w = (dev = 1)" "dev_cnt ?w = op"
    using sel by (simp_all add: dev_lba_def dev_slave_def dev_cnt_def split: if_splits)
  then have d: "dev_data ?w = sectors_at (media ch (dev = 1)) lba op"
    using f(2) by (simp add: dev_data_def CMD_READ_SECTOR_def CMD_IDENTIFY_def)
  have "length (sectors_at (media ch (dev = 1)) lba op) = 512 * op"
    using ok by (intro length_sectors_at) (simp add: channel_ready_def)
  then have "read_from_sector (of_nat op) ?w = Inr (sectors_at (media ch (dev = 1)) lba op)"
    unfolding read_from_sector_def size_in_byte_of_nat [OF op] insw_def d by simp
  moreover have "settled ch ?w" using ok f by (simp add: settled_def channel_ready_def)
  ultimately show ?thesis
    unfolding read_pass_def c by (intro exI [of _ ?w]) (simp add: w b f(2))
qed

lemma put_sectors_length:
  assumes "\<And>x. length (d x) = 512" "512 * n \<le> length b"
  shows "length (put_sectors lba n b d x) = 512"
proof -
  have "512 * k + 512 \<le> length b" if "k < n" for k using assms(2) that by linarith
  then show ?thesis using assms(1) by (force simp: put_sectors_def)
qed

lemma write_pass_ok:
  assumes ok: "channel_ready ch" and lba: "lba \<le> max_lba" and op: "0 < op" "op \<le> 256"
    and b: "512 * op \<le> length buf"
  shows "\<exists>ch'. write_pass dev lba buf op ch = Inr ch' \<and> settled ch ch' \<and>
           media ch' = (media ch)(dev = 1 := put_sectors lba op buf (media ch (dev = 1)))"
proof -
  obtain c where c: "select_sector dev lba (of_nat op) ch = Inr c"
    using select_sector_ok [OF lba] by blast
  note sel = selected [OF lba op c]
  have f: "hw_status c = hw_status ch" "media c = media ch" "disk_done c = 0" "lock_held c = lock_held ch"
    "irq_no c = irq_no ch" "port_base c = port_base ch"
    using c ok by (auto simp: select_sector_ok [OF lba] channel_ready_def)
  let ?w = "c\<lparr>expecting_intr := True, r_cmd := CMD_WRITE_SECTOR, hw_reads := Suc (Suc (hw_reads c))\<rparr>"
  let ?m = "(media ch)(dev = 1 := put_sectors lba op buf (media ch (dev = 1)))"
  have bw: "busy_wait (cmd_out CMD_WRITE_SECTOR c) = (True, ?w)"
    using f(1) by (subst busy_wait_ready [OF ok]) (simp_all add: cmd_out_eq)
  have "dev_lba ?w = lba" "dev_slave ?w = (dev = 1)" "dev_cnt ?w = op"
    using sel by (simp_all add: dev_lba_def dev_slave_def dev_cnt_def split: if_splits)
  then have o: "write2sector buf (of_nat op) ?w = Inr (?w\<lparr>media := ?m\<rparr>)"
    unfolding write2sector_def size_in_byte_of_nat [OF op] outsw_def using b f(2) by simp
  let ?z = "?w\<lparr>media := ?m, expecting_intr := False, disk_done := 0, hw_reads := Suc (Suc (Suc (hw_reads c)))\<rparr>"
  have z: "wait_disk (?w\<lparr>media := ?m\<rparr>) = Inr ?z"
    using f(3) by (subst wait_disk_expecting) simp_all
  have "length (?m t x) = 512" for t x
    using ok b put_sectors_length [of "media ch (dev = 1)" op buf lba x] by (simp add: channel_ready_def)
  then have "settled ch ?z" using ok f by (simp add: settled_def channel_ready_def)
  then show ?thesis
    unfolding write_pass_def c by (intro exI [of _ ?z]) (simp add: bw o z)
qed

section \<open>Whole transfers\<close>

text \<open>The last sector at which a pass begins when \<open>i\<close> of \<open>n\<close> sectors are done.\<close>

definition last_start :: "u32 \<Rightarrow> nat \<Rightarrow> nat \<Rightarrow> nat" where
  "last_start lba n i = unat lba + i + 256 * ((n - i - 1) div 256)"

lemma last_start_step:
  assumes "i < n"
  shows "let op = secs_this_time i n in 0 < op \<and> op \<le> 256 \<and> i + op \<le> n \<and> unat lba + i \<le> last_start lba n i \<and>
           (i + op < n \<longrightarrow> last_start lba n (i + op) = last_start lba n i) \<and>
           (i + op = n \<longrightarrow> last_start lba n i = unat lba + i)"
proof (cases "i + 256 \<le> n")
  case True
  have "last_start lba n (i + 256) = last_start lba n i" if "i + 256 < n"
  proof -
    have "n - i - 1 = (n - (i + 256) - 1) + 256" using that by simp
    then have "(n - i - 1) div 256 = (n - (i + 256) - 1) div 256 + 1"
      by (metis div_add_self2 zero_neq_numeral)
    then show ?thesis unfolding last_start_def by (simp only: distrib_left)
  qed
  moreover have "last_start lba n i = unat lba + i" if "i + 256 = n"
  proof -
    have "n - i - 1 = 255" using that by simp
    then show ?thesis by (simp add: last_start_def)
  qed
  moreover have "unat lba + i \<le> last_start lba n i" by (simp add: last_start_def)
  moreover have "secs_this_time i n = 256" using True by (simp add: secs_this_time_def)
  ultimately show ?thesis using True by simp
next
  case False
  then have "(n - i - 1) div 256 = 0" by (intro div_less) simp
  then have "last_start lba n i = unat lba + i" by (simp add: last_start_def)
  moreover have "secs_this_time i n = n - i" using False by (simp add: secs_this_time_def)
  ultimately show ?thesis using False assms by simp
qed

lemma unat_lba_add:
  assumes "unat lba + i \<le> 163839 + 256"
  shows "unat (lba + of_nat i :: u32) = unat lba + i"
  using assms by (subst unat_add_no_wrap32) (simp_all add: unat_of_nat32)

lemma ide_read_loop_ok:
  assumes "channel_ready ch" "i < n" "last_start lba n i \<le> 163839"
  shows "\<exists>ch'. ide_read_loop dev lba n i ch =
             Inr (sectors_at (media ch (dev = 1)) (lba + of_nat i) (n - i), ch') \<and>
           media ch' = media ch \<and> settled ch ch'"
  using assms
proof (induction "n - i" arbitrary: i ch rule: less_induct)
  case less
  define op where "op = secs_this_time i n"
  have op: "0 < op" "op \<le> 256" "i + op \<le> n" "unat lba + i \<le> 163839"
    "i + op < n \<Longrightarrow> last_start lba n (i + op) \<le> 163839"
    using last_start_step [OF less.prems(2), of lba] less.prems(3) unfolding op_def Let_def by auto
  have "lba + of_nat i \<le> max_lba"
    using op(4) unat_lba_add [of lba i] by (simp add: word_le_nat_alt unat_max_lba)
  from read_pass_ok [OF less.prems(1) this op(1,2)] obtain c where
    c: "read_pass dev (lba + of_nat i) op ch = Inr (sectors_at (media ch (dev = 1)) (lba + of_nat i) op, c)"
      "media c = media ch" "settled ch c" by blast
  show ?case
  proof (cases "i + op < n")
    case True
    have "n - (i + op) < n - i" using op(1) less.prems(2) by simp
    from less.hyps [OF this _ True op(5) [OF True], of c] c obtain ch' where
      ch': "ide_read_loop dev lba n (i + op) c =
          Inr (sectors_at (media ch (dev = 1)) (lba + of_nat (i + op)) (n - (i + op)), ch')"
        "media ch' = media ch" "settled c ch'" by (auto simp: settled_def)
    have "n - i = op + (n - (i + op))" using True by simp
    then have "sectors_at (media ch (dev = 1)) (lba + of_nat i) (n - i) =
        sectors_at (media ch (dev = 1)) (lba + of_nat i) op @
        sectors_at (media ch (dev = 1)) (lba + of_nat (i + op)) (n - (i + op))"
      using sectors_at_add [of _ "lba + of_nat i" op "n - (i + op)"] by (simp add: add.assoc)
    moreover have "settled ch ch'" using c(3) ch'(3) by (simp add: settled_def)
    ultimately show ?thesis
      using less.prems(2) c(1) ch'(1,2) by (subst ide_read_loop.simps) (simp add: op_def Let_def)
  next
    case False
    then have n: "i + op = n" using op(3) by simp
    then show ?thesis
      using less.prems(2) c by (subst ide_read_loop.simps, subst ide_read_loop.simps)
        (auto simp: op_def [symmetric])
  qed
qed

lemma ide_read_loop_panic:
  assumes "channel_ready ch" "i < n" "163839 < last_start lba n i" "unat lba + i \<le> 163839 + 256"
  shows "ide_read_loop dev lba n i ch = Inl Panic"
  using assms
proof (induction "n - i" arbitrary: i ch rule: less_induct)
  case less
  define op where "op = secs_this_time i n"
  have op: "0 < op" "op \<le> 256" "i + op \<le> n" "i + op < n \<Longrightarrow> 163839 < last_start lba n (i + op)"
    "i + op = n \<Longrightarrow> last_start lba n i = unat lba + i"
    using last_start_step [OF less.prems(2), of lba] less.prems(3) unfolding op_def Let_def by auto
  have u: "unat (lba + of_nat i) = unat lba + i" using less.prems(4) by (rule unat_lba_add)
  show ?case
  proof (cases "lba + of_nat i \<le> max_lba")
    case True
    then have le: "unat lba + i \<le> 163839" using u by (simp add: word_le_nat_alt unat_max_lba)
    then have lt: "i + op < n" using op(3,5) less.prems(3) by fastforce
    from read_pass_ok [OF less.prems(1) True op(1,2)] obtain c where
      c: "read_pass dev (lba + of_nat i) op ch = Inr (sectors_at (media ch (dev = 1)) (lba + of_nat i) op, c)"
        "settled ch c" by blast
    have "n - (i + op) < n - i" using op(1) less.prems(2) by simp
    from less.hyps [OF this _ lt op(4) [OF lt], of c] c le op(2)
    have "ide_read_loop dev lba n (i + op) c = Inl Panic" by (simp add: settled_def)
    then show ?thesis
      using less.prems(2) c(1) by (subst ide_read_loop.simps) (simp add: op_def Let_def)
  next
    case False
    then have "read_pass dev (lba + of_nat i) op ch = Inl Panic" 
      by (simp add: read_pass_def select_sector_def)
    then show ?thesis
      using less.prems(2) by (subst ide_read_loop.simps) (simp add: op_def Let_def)
  qed
qed

lemma put_sectors_step:
  assumes "m + n < 2 ^ 32"
  shows "put_sectors (lba + of_nat m) n (drop (m * 512) b) (put_sectors lba m b d) = put_sectors lba (m + n) b d"
proof
  fix x
  let ?k = "unat (x - lba)"
  have m: "unat (of_nat m :: u32) = m" using assms by (intro unat_of_nat32) simp
  have eq: "x - (lba + of_nat m) = (x - lba) - of_nat m" by simp
  show "put_sectors (lba + of_nat m) n (drop (m * 512) b) (put_sectors lba m b d) x =
        put_sectors lba (m + n) b d x"
  proof (cases "?k < m")
    case True
    then have lt: "x - lba < of_nat m" using m by (simp add: word_less_nat_alt)
    have "unat ((x - lba) - of_nat m) = 2 ^ 32 + ?k - m"
      using True m unat_u32_lt [of "of_nat m"] by (simp add: unat_sub_if_size word_size word_le_nat_alt)
    then have "\<not> unat (x - (lba + of_nat m)) < n" using True assms unfolding eq by simp
    then show ?thesis using True by (simp add: put_sectors_def)
  next
    case False
    then have "unat (x - (lba + of_nat m)) = ?k - m"
      unfolding eq using m by (subst unat_sub) (simp_all add: word_le_nat_alt)
    moreover obtain j where "?k = m + j" using False by (metis le_Suc_ex not_le)
    ultimately show ?thesis
      by (simp add: put_sectors_def sub_buf_def algebra_simps)
  qed
qed

lemma ide_write_loop_ok:
  assumes "channel_ready ch" "i < n" "last_start lba n i \<le> 163839" "512 * n \<le> length buf" "n < 2 ^ 32"
  shows "\<exists>ch'. ide_write_loop dev lba buf n i ch = Inr ch' \<and> settled ch ch' \<and>
           media ch' = (media ch)(dev = 1 :=
             put_sectors (lba + of_nat i) (n - i) (drop (i * 512) buf) (media ch (dev = 1)))"
  using assms
proof (induction "n - i" arbitrary: i ch rule: less_induct)
  case less
  define op where "op = secs_this_time i n"
  have op: "0 < op" "op \<le> 256" "i + op \<le> n" "unat lba + i \<le> 163839"
    "i + op < n \<Longrightarrow> last_start lba n (i + op) \<le> 163839"
    using last_start_step [OF less.prems(2), of lba] less.prems(3) unfolding op_def Let_def by auto
  have "lba + of_nat i \<le> max_lba"
    using op(4) unat_lba_add [of lba i] by (simp add: word_le_nat_alt unat_max_lba)
  moreover have "512 * op \<le> length (drop (i * 512) buf)"
  proof -
    have "512 * i + 512 * op \<le> 512 * n" using op(3) by simp
    then show ?thesis using less.prems(4) by simp
  qed
  ultimately obtain c where
    c: "write_pass dev (lba + of_nat i) (drop (i * 512) buf) op ch = Inr c" "settled ch c"
      "media c = (media ch)(dev = 1 :=
         put_sectors (lba + of_nat i) op (drop (i * 512) buf) (media ch (dev = 1)))"
    using write_pass_ok [OF less.prems(1) _ op(1,2)] by blast
  show ?case
  proof (cases "i + op < n")
    case True
    have "n - (i + op) < n - i" using op(1) less.prems(2) by simp
    from less.hyps [OF this _ True op(5) [OF True] less.prems(4,5), of c] c(2) obtain ch' where
      ch': "ide_write_loop dev lba buf n (i + op) c = Inr ch'" "settled c ch'"
        "media ch' = (media c)(dev = 1 := put_sectors (lba + of_nat (i + op)) (n - (i + op))
           (drop ((i + op) * 512) buf) (media c (dev = 1)))" by (auto simp: settled_def)
    have "put_sectors (lba + of_nat i + of_nat op) (n - (i + op)) (drop (op * 512) (drop (i * 512) buf))
        (put_sectors (lba + of_nat i) op (drop (i * 512) buf) (media ch (dev = 1))) =
      put_sectors (lba + of_nat i) (op + (n - (i + op))) (drop (i * 512) buf) (media ch (dev = 1))"
      using less.prems(5) op by (intro put_sectors_step) simp
    moreover have "op + (n - (i + op)) = n - i" using True by simp
    moreover have "drop (op * 512) (drop (i * 512) buf) = drop ((i + op) * 512) buf"
      by (simp add: add_mult_distrib add.commute)
    ultimately have "media ch' = (media ch)(dev = 1 :=
        put_sectors (lba + of_nat i) (n - i) (drop (i * 512) buf) (media ch (dev = 1)))"
      using ch'(3) c(3) by (simp add: add.assoc)
    moreover have "settled ch ch'" using c(2) ch'(2) by (simp add: settled_def)
    ultimately show ?thesis
      using less.prems(2) c(1) ch'(1) by (subst ide_write_loop.simps) (simp add: op_def Let_def)
  next
    case False
    then have n: "i + op = n" using op(3) by simp
    have "ide_write_loop dev lba buf n n c = Inr c" by (subst ide_write_loop.simps) simp
    then have "ide_write_loop dev lba buf n i ch = Inr c"
      using less.prems(2) c n by (subst ide_write_loop.simps) (simp add: op_def [symmetric])
    moreover have "n - i = op" using n by simp
    ultimately show ?thesis using c(2,3) by simp
  qed
qed

lemma ide_read_disk:
  assumes "channel_ready ch" "\<not> lock_held ch"
  shows "case disk_read lba n (media ch (dev = 1)) of
           Inl e \<Rightarrow> ide_read dev lba n ch = Inl e
         | Inr b \<Rightarrow> \<exists>ch'. ide_read dev lba n ch = Inr (b, ch') \<and> media ch' = media ch \<and>
                      channel_ready ch' \<and> \<not> lock_held ch'"
proof (cases "lba \<le> max_lba \<and> 0 < n")
  case True
  let ?c = "select_disk dev (ch\<lparr>lock_held := True\<rparr>)"
  have c: "channel_ready ?c" "media ?c = media ch"
    using assms(1) by (auto simp: select_disk_def ide_outb_def Let_def channel_ready_def)
  have r: "in_range lba n \<longleftrightarrow> last_start lba n 0 \<le> 163839"
    by (simp add: in_range_def last_start_def unat_max_lba)
  show ?thesis
  proof (cases "in_range lba n")
    case rng: True
    from ide_read_loop_ok [OF c(1) _ rng [unfolded r], of dev] True obtain ch' where
      "ide_read_loop dev lba n 0 ?c = Inr (sectors_at (media ch (dev = 1)) lba n, ch')"
      "media ch' = media ch" "channel_ready ch'" using c(2) by (auto simp: settled_def)
    then show ?thesis
      using True rng assms(2)
      by (auto simp: disk_read_def ide_read_def channel_acquire_def channel_ready_def)
  next
    case False
    have "unat lba \<le> 163839" using True by (simp add: word_le_nat_alt unat_max_lba)
    then have "ide_read_loop dev lba n 0 ?c = Inl Panic"
      using ide_read_loop_panic [OF c(1), of 0 n lba] True False [unfolded r] by simp
    then show ?thesis
      using True False assms(2) by (simp add: disk_read_def ide_read_def channel_acquire_def)
  qed
next
  case False
  then show ?thesis by (cases "lba \<le> max_lba") (simp_all add: disk_read_def ide_read_def)
qed

section \<open>Properties\<close>

text \<open>
  C17: the driver does what its contract says for a read. On a channel that is free, with a controller
  that is ready, \<^verbatim>\<open>ide_read\<close> delivers the bytes of the sectors asked for, in order, in pieces of at
  most 256 sectors addressed through the registers, changes no sector and gives the channel back;
  it panics exactly when a piece begins past the last sector the kernel supports.
\<close>

theorem ide_read_refines_disk:
  assumes "channel_ready ch" "\<not> lock_held ch"
  shows "case disk_read lba n (media ch (dev = 1)) of
           Inl e \<Rightarrow> ide_read dev lba n ch = Inl e
         | Inr b \<Rightarrow> \<exists>ch'. ide_read dev lba n ch = Inr (b, ch') \<and> media ch' = media ch \<and>
                      channel_ready ch' \<and> \<not> lock_held ch'"
  using assms by (rule ide_read_disk)

definition blank_channel :: ide_channel where
  "blank_channel = \<lparr>ch_name = str ''ide0'' @ [0, 0, 0, 0], port_base = 0x1f0, irq_no = 0x2e, lock_held = False,
     expecting_intr = False, disk_done = 0, r_sect_cnt = 0, r_lba_l = 0, r_lba_m = 0, r_lba_h = 0,
     r_dev = 0, r_cmd = 0, media = (\<lambda>_ x. replicate 512 (ucast x)), hw_identify = (\<lambda>_. replicate 512 0),
     hw_status = (\<lambda>_. 0x48), hw_reads = 0\<rparr>"

lemma blank_channel_ready: "channel_ready blank_channel" "\<not> lock_held blank_channel"
  by (simp_all add: blank_channel_def channel_ready_def BIT_STAT_BSY_def BIT_STAT_DRQ_def)

theorem ide_read_refines_disk_witness:
  "\<exists>ch'. ide_read 1 7 2 blank_channel = Inr (replicate 512 7 @ replicate 512 8, ch') \<and> channel_ready ch'"
proof -
  have "disk_read 7 2 (media blank_channel (1 = (1 :: u8))) = Inr (replicate 512 7 @ replicate 512 8)"
    by (simp add: disk_read_def in_range_def sectors_at_def blank_channel_def max_lba_def upt_rec
        word_le_nat_alt)
  with ide_read_refines_disk [OF blank_channel_ready, where lba = 7 and n = 2 and dev = 1] show ?thesis by auto
qed

text \<open>
  C18: the driver does what its contract says for a write: on a free channel with a ready controller,
  \<^verbatim>\<open>ide_write\<close> of \<open>n\<close> sectors changes exactly the sectors \<open>lba\<close> to \<open>lba + n - 1\<close> of the selected
  drive, to the bytes of the buffer, and gives the channel back.
\<close>

theorem ide_write_refines_disk:
  assumes "channel_ready ch" "\<not> lock_held ch" "disk_write lba b n (media ch (dev = 1)) = Inr d" "n < 2 ^ 32"
  shows "\<exists>ch'. ide_write dev lba b n ch = Inr ch' \<and> media ch' = (media ch)(dev = 1 := d) \<and>
           channel_ready ch' \<and> \<not> lock_held ch'"
proof -
  let ?c = "select_disk dev (ch\<lparr>lock_held := True\<rparr>)"
  have c: "channel_ready ?c" "media ?c = media ch"
    using assms(1) by (auto simp: select_disk_def ide_outb_def Let_def channel_ready_def)
  have d: "lba \<le> max_lba" "0 < n" "last_start lba n 0 \<le> 163839" "512 * n \<le> length b"
    "d = put_sectors lba n b (media ch (dev = 1))"
    using assms(3) by (auto simp: disk_write_def res_simps in_range_def last_start_def unat_max_lba
        split: if_splits)
  from ide_write_loop_ok [OF c(1) d(2,3,4) assms(4), of dev] obtain ch' where
    "ide_write_loop dev lba b n 0 ?c = Inr ch'" "channel_ready ch'"
    "media ch' = (media ch)(dev = 1 := d)" using c(2) d(5) by (auto simp: settled_def)
  then show ?thesis
    using d(1,2) assms(2) by (auto simp: ide_write_def channel_acquire_def channel_ready_def)
qed

theorem ide_write_refines_disk_witness:
  "\<exists>ch'. ide_write 1 7 (replicate 512 9) 1 blank_channel = Inr ch' \<and>
     media ch' True 7 = replicate 512 9 \<and> media ch' False 7 = replicate 512 7"
proof -
  have "disk_write 7 (replicate 512 9) 1 (media blank_channel (1 = (1 :: u8))) =
      Inr (put_sectors 7 1 (replicate 512 9) (media blank_channel True))"
    by (simp add: disk_write_def in_range_def max_lba_def word_le_nat_alt)
  from ide_write_refines_disk [OF blank_channel_ready this] show ?thesis
    by (auto simp: put_sectors_def sub_buf_def blank_channel_def)
qed

end
