(* ===== verification/Fs_State.thy ===== *)
theory Fs_State
  imports Bitmap Ide
begin

text \<open>
  The state of the file system, \<^verbatim>\<open>fs/\<close>, and the computations on it. There is one disk, seen
  through the contract of its driver (\<open>disk_read\<close> and \<open>disk_write\<close>), and one mounted partition:
  every caller passes \<^verbatim>\<open>cur_part\<close> where a function takes a partition. The inodes and directories
  in memory are found by their address. The list of open inodes is the list of the addresses it
  links; the list component shows that the linked list behaves so.

  The heap appears as the list of its live blocks. The allocator is a parameter of the state:
  \<open>allocator k live n\<close> is the answer to the \<open>k\<close>-th request, for \<open>n\<close> bytes, while the blocks
  \<open>live\<close> are in use, and 0 (\<^verbatim>\<open>NULL\<close>) when there is no memory. That an answer is not a live block, nor the
  static \<^verbatim>\<open>root_dir\<close>, which is below the heap, is the contract of \<^verbatim>\<open>sys_malloc\<close> and the named
  hypothesis \<open>allocator_ok\<close> where a proof needs it. A block is handed out filled with zeros, as \<^verbatim>\<open>sys_malloc\<close> does.

  \<open>klog\<close> lists the calls of \<^verbatim>\<open>printk\<close>, the latest first; what a call prints is the business of the
  formatted output. \<open>stack_junk\<close> is what an uninitialised array on the stack holds.
\<close>

section \<open>Data\<close>

record super_block =
  magic :: u32
  sb_sec_cnt :: u32
  inode_cnt :: u32
  part_lba_base :: u32
  block_bitmap_lba :: u32
  block_bitmap_sects :: u32
  inode_bitmap_lba :: u32
  inode_bitmap_sects :: u32
  inode_table_lba :: u32
  inode_table_sects :: u32
  data_start_lba :: u32
  root_inode_no :: u32
  dir_entry_size :: u32

record inode =
  i_no :: u32
  i_size :: u32
  i_open_cnts :: u32
  write_deny :: bool
  i_sectors :: "u32 list"

record dir_entry =
  filename :: "u8 list"
  de_i_no :: u32
  f_type :: u32

record dir =
  dir_inode :: u32
  dir_pos :: u32
  dir_buf :: "u8 list"

record file_struct =
  fd_pos :: u32
  fd_flag :: u32
  fd_inode :: u32

record partition =
  start_lba :: u32
  sec_cnt :: u32
  part_name :: "u8 list"
  sb :: super_block
  block_bitmap :: bitmap
  inode_bitmap :: bitmap
  open_inodes :: "u32 list"

record fstate =
  my_disk :: "u32 \<Rightarrow> u8 list"
  cur_part :: partition
  inodes :: "u32 \<Rightarrow> inode option"
  dirs :: "u32 \<Rightarrow> dir option"
  root_dir :: u32
  file_table :: "file_struct list"
  fd_table :: "u32 list"
  cwd_inode_nr :: u32
  live :: "u32 list"
  mallocs :: nat
  allocator :: "nat \<Rightarrow> u32 list \<Rightarrow> u32 \<Rightarrow> u32"
  klog :: "(string \<times> fmt_arg list) list"
  stack_junk :: "u8 list"

definition SECTOR_SIZE :: u32 where "SECTOR_SIZE = 512"
definition BLOCK_SIZE :: u32 where "BLOCK_SIZE = SECTOR_SIZE"
definition BITS_PER_SECTOR :: u32 where "BITS_PER_SECTOR = 4096"
definition MAX_FILES_PER_PART :: u32 where "MAX_FILES_PER_PART = 4096"
definition MAX_FILE_NAME_LEN :: u32 where "MAX_FILE_NAME_LEN = 16"
definition MAX_PATH_LEN :: u32 where "MAX_PATH_LEN = 512"
definition MAX_FILE_OPEN :: nat where "MAX_FILE_OPEN = 32"
definition MAX_FILES_OPEN_PER_PROC :: nat where "MAX_FILES_OPEN_PER_PROC = 8"
definition FT_UNKNOWN :: u32 where "FT_UNKNOWN = 0"
definition FT_REGULAR :: u32 where "FT_REGULAR = 1"
definition FT_DIRECTORY :: u32 where "FT_DIRECTORY = 2"
definition sizeof_inode :: u32 where "sizeof_inode = 76"
definition sizeof_dir_entry :: u32 where "sizeof_dir_entry = 24"
definition sizeof_dir :: u32 where "sizeof_dir = 520"

section \<open>Computations\<close>

text \<open>A computation on a state: it returns a value and the new state, or does not return.\<close>

type_synonym ('s, 'a) comp = "'s \<Rightarrow> ('a \<times> 's) res"
type_synonym 'a fsm = "(fstate, 'a) comp"

definition retS :: "'a \<Rightarrow> ('s, 'a) comp" where
  "retS x = (\<lambda>s. Inr (x, s))"

definition bindS :: "('s, 'a) comp \<Rightarrow> ('a \<Rightarrow> ('s, 'b) comp) \<Rightarrow> ('s, 'b) comp" where
  "bindS m f = (\<lambda>s. bindE (m s) (\<lambda>(x, s). f x s))"

definition thenS :: "('s, unit) comp \<Rightarrow> ('s, 'b) comp \<Rightarrow> ('s, 'b) comp" where
  "thenS m k = bindS m (\<lambda>_. k)"

definition liftS :: "'a res \<Rightarrow> ('s, 'a) comp" where
  "liftS r = (\<lambda>s. mapE (\<lambda>x. (x, s)) r)"

definition getS :: "('s \<Rightarrow> 'a) \<Rightarrow> ('s, 'a) comp" where
  "getS f = (\<lambda>s. Inr (f s, s))"

definition updS :: "('s \<Rightarrow> 's) \<Rightarrow> ('s, unit) comp" where
  "updS f = (\<lambda>s. Inr ((), f s))"

definition assertS :: "bool \<Rightarrow> ('s, unit) comp" where
  "assertS c = liftS (ASSERT c)"

lemma bindS_cong [fundef_cong]:
  assumes "m = m'" "\<And>x. \<exists>s s'. m' s = Inr (x, s') \<Longrightarrow> f x = f' x"
  shows "bindS m f = bindS m' f'"
proof
  fix s
  have "f x = f' x" if "m' s = Inr (x, s')" for x s' using assms(2) that by blast
  then show "bindS m f s = bindS m' f' s"
    unfolding bindS_def assms(1) by (cases "m' s") auto
qed

lemma thenS_cong [fundef_cong]: "m = m' \<Longrightarrow> k = k' \<Longrightarrow> thenS m k = thenS m' k'"
  by simp

named_theorems run_simps \<open>running a computation on a state\<close>

lemma run_ret [run_simps]: "retS x s = Inr (x, s)"
  by (simp add: retS_def)

lemma run_bind [run_simps]: "bindS m f s = bindE (m s) (\<lambda>(x, s). f x s)"
  by (simp add: bindS_def)

lemma run_then [run_simps]: "thenS m k s = bindE (m s) (\<lambda>(x, s). k s)"
  by (simp add: thenS_def bindS_def)

lemma run_lift [run_simps]: "liftS (Inr x) s = Inr (x, s)" "liftS (Inl e) s = Inl e"
  by (simp_all add: liftS_def)

lemma run_get [run_simps]: "getS f s = Inr (f s, s)"
  by (simp add: getS_def)

lemma run_upd [run_simps]: "updS f s = Inr ((), f s)"
  by (simp add: updS_def)

lemma run_assert [run_simps]: "assertS c s = (if c then Inr ((), s) else Inl Panic)"
  by (simp add: assertS_def liftS_def)

lemma liftS_eq_Inr [res_simps]: "liftS r s = Inr y \<longleftrightarrow> (\<exists>x. r = Inr x \<and> y = (x, s))"
  by (auto simp: liftS_def mapE_eq_Inr)

section \<open>Memory, disk and log\<close>

definition k_print :: "string \<Rightarrow> fmt_arg list \<Rightarrow> unit fsm" where
  "k_print fmt args = updS (\<lambda>s. s\<lparr>klog := (fmt, args) # klog s\<rparr>)"

definition fs_malloc :: "u32 \<Rightarrow> u32 fsm" where
  "fs_malloc n = (\<lambda>s.
     let a = allocator s (mallocs s) (live s) n in
     Inr (a, s\<lparr>mallocs := Suc (mallocs s), live := (if a = 0 then live s else a # live s)\<rparr>))"

definition fs_free :: "u32 \<Rightarrow> unit fsm" where
  "fs_free a = (\<lambda>s.
     bindE (ASSERT (a \<noteq> 0)) (\<lambda>_.
     if a \<in> set (live s)
     then Inr ((), s\<lparr>live := remove1 a (live s), inodes := (inodes s)(a := None), dirs := (dirs s)(a := None)\<rparr>)
     else Inl OutOfBounds))"

definition allocator_ok :: "fstate \<Rightarrow> bool" where
  "allocator_ok s \<longleftrightarrow>
     (\<forall>k l n. allocator s k l n \<noteq> 0 \<longrightarrow> allocator s k l n \<notin> set l \<and> allocator s k l n \<noteq> root_dir s)"

text \<open>There is memory for \<open>m\<close> more blocks than are in use now.\<close>

definition mem_for :: "nat \<Rightarrow> fstate \<Rightarrow> bool" where
  "mem_for m s \<longleftrightarrow> (\<forall>k l n. length l < length (live s) + m \<longrightarrow> allocator s k l n \<noteq> 0)"

text \<open>A write of \<open>bs\<close> at offset \<open>off\<close> of a buffer, and a transfer of \<open>n\<close> sectors to that place.\<close>

definition put_bytes :: "nat \<Rightarrow> u8 list \<Rightarrow> u8 list \<Rightarrow> u8 list res" where
  "put_bytes off bs buf = (if off + length bs \<le> length buf then Inr (patch off bs buf) else Inl OutOfBounds)"

definition get_bytes :: "nat \<Rightarrow> nat \<Rightarrow> u8 list \<Rightarrow> u8 list res" where
  "get_bytes off n buf = (if off + n \<le> length buf then Inr (sub_buf off n buf) else Inl OutOfBounds)"

definition fs_ide_read :: "u32 \<Rightarrow> nat \<Rightarrow> u8 list \<Rightarrow> u8 list fsm" where
  "fs_ide_read lba n buf = (\<lambda>s.
     bindE (disk_read lba n (my_disk s)) (\<lambda>b. mapE (\<lambda>buf. (buf, s)) (put_bytes 0 b buf)))"

definition fs_ide_write :: "u32 \<Rightarrow> u8 list \<Rightarrow> nat \<Rightarrow> unit fsm" where
  "fs_ide_write lba buf n = (\<lambda>s. mapE (\<lambda>d. ((), s\<lparr>my_disk := d\<rparr>)) (disk_write lba buf n (my_disk s)))"

definition get_inode :: "u32 \<Rightarrow> inode fsm" where
  "get_inode a = (\<lambda>s. mapE (\<lambda>i. (i, s)) (deref (inodes s a)))"

definition set_inode :: "u32 \<Rightarrow> inode \<Rightarrow> unit fsm" where
  "set_inode a i = updS (\<lambda>s. s\<lparr>inodes := (inodes s)(a \<mapsto> i)\<rparr>)"

definition get_dir :: "u32 \<Rightarrow> dir fsm" where
  "get_dir a = (\<lambda>s. mapE (\<lambda>d. (d, s)) (deref (dirs s a)))"

definition set_dir :: "u32 \<Rightarrow> dir \<Rightarrow> unit fsm" where
  "set_dir a d = updS (\<lambda>s. s\<lparr>dirs := (dirs s)(a \<mapsto> d)\<rparr>)"

definition upd_part :: "(partition \<Rightarrow> partition) \<Rightarrow> unit fsm" where
  "upd_part f = updS (\<lambda>s. s\<lparr>cur_part := f (cur_part s)\<rparr>)"

section \<open>Structures in a sector\<close>

fun get32s :: "nat \<Rightarrow> u8 list \<Rightarrow> u32 list" where
  "get32s 0 b = []"
| "get32s (Suc n) b = get32 b # get32s n (drop 4 b)"

definition le32s :: "u32 list \<Rightarrow> u8 list" where
  "le32s ws = concat (map le32 ws)"

text \<open>
  \<^verbatim>\<open>struct inode\<close> has 76 bytes: four words (\<^verbatim>\<open>bool\<close> is \<^verbatim>\<open>int\<close>), thirteen block addresses and the two links
  of its list element, which \<^verbatim>\<open>inode_sync\<close> clears. \<^verbatim>\<open>struct dir_entry\<close> has 24, \<^verbatim>\<open>struct super_block\<close> 512.
\<close>

definition inode_bytes :: "inode \<Rightarrow> u8 list" where
  "inode_bytes i = le32 (i_no i) @ le32 (i_size i) @ le32 (i_open_cnts i) @
     le32 (if write_deny i then 1 else 0) @ le32s (i_sectors i) @ replicate 8 0"

definition inode_of :: "u8 list \<Rightarrow> inode" where
  "inode_of b = \<lparr>i_no = get32 b, i_size = get32 (drop 4 b), i_open_cnts = get32 (drop 8 b),
     write_deny = (get32 (drop 12 b) \<noteq> 0), i_sectors = get32s 13 (drop 16 b)\<rparr>"

definition dir_entry_bytes :: "dir_entry \<Rightarrow> u8 list" where
  "dir_entry_bytes e = filename e @ le32 (de_i_no e) @ le32 (f_type e)"

definition dir_entry_of :: "u8 list \<Rightarrow> dir_entry" where
  "dir_entry_of b = \<lparr>filename = take 16 b, de_i_no = get32 (drop 16 b), f_type = get32 (drop 20 b)\<rparr>"

definition super_block_bytes :: "super_block \<Rightarrow> u8 list \<Rightarrow> u8 list" where
  "super_block_bytes x pad =
     le32s [magic x, sb_sec_cnt x, inode_cnt x, part_lba_base x, block_bitmap_lba x, block_bitmap_sects x,
       inode_bitmap_lba x, inode_bitmap_sects x, inode_table_lba x, inode_table_sects x, data_start_lba x,
       root_inode_no x, dir_entry_size x] @ pad"

definition super_block_of :: "u8 list \<Rightarrow> super_block" where
  "super_block_of b = \<lparr>magic = get32 b, sb_sec_cnt = get32 (drop 4 b), inode_cnt = get32 (drop 8 b),
     part_lba_base = get32 (drop 12 b), block_bitmap_lba = get32 (drop 16 b), block_bitmap_sects = get32 (drop 20 b),
     inode_bitmap_lba = get32 (drop 24 b), inode_bitmap_sects = get32 (drop 28 b),
     inode_table_lba = get32 (drop 32 b), inode_table_sects = get32 (drop 36 b), data_start_lba = get32 (drop 40 b),
     root_inode_no = get32 (drop 44 b), dir_entry_size = get32 (drop 48 b)\<rparr>"

lemma length_le32s [simp]: "length (le32s ws) = 4 * length ws"
  by (induction ws) (simp_all add: le32s_def)

lemma le32s_simps [simp]: "le32s [] = []" "le32s (w # ws) = le32 w @ le32s ws"
  by (simp_all add: le32s_def)

lemma le32s_append [simp]: "le32s (xs @ ys) = le32s xs @ le32s ys"
  by (simp add: le32s_def)

lemma get32s_le32s [simp]: "get32s (length ws) (le32s ws @ r) = ws"
  by (induction ws) simp_all

lemma length_get32s [simp]: "length (get32s n b) = n"
  by (induction n arbitrary: b) simp_all

lemma length_inode_bytes [simp]: "length (i_sectors i) = 13 \<Longrightarrow> length (inode_bytes i) = 76"
  by (simp add: inode_bytes_def)

lemma inode_of_bytes:
  assumes "length (i_sectors i) = 13"
  shows "inode_of (inode_bytes i @ r) = i"
  using assms get32s_le32s [of "i_sectors i" "replicate 8 0 @ r"]
  by (simp add: inode_of_def inode_bytes_def)

lemma dir_entry_of_bytes:
  "length (filename e) = 16 \<Longrightarrow> dir_entry_of (dir_entry_bytes e @ r) = e"
  by (simp add: dir_entry_of_def dir_entry_bytes_def)

lemma super_block_of_bytes: "super_block_of (super_block_bytes x pad) = x"
  by (simp add: super_block_of_def super_block_bytes_def)

section \<open>One sector\<close>

definition disk_ok :: "(u32 \<Rightarrow> u8 list) \<Rightarrow> bool" where
  "disk_ok d \<longleftrightarrow> (\<forall>x. length (d x) = 512)"

lemma disk_ok_length [simp]: "disk_ok d \<Longrightarrow> length (d x) = 512"
  by (simp add: disk_ok_def)

lemma disk_ok_upd: "disk_ok d \<Longrightarrow> length b = 512 \<Longrightarrow> disk_ok (d(x := b))"
  by (simp add: disk_ok_def)

lemma sectors_at_1 [simp]: "sectors_at d lba (Suc 0) = d lba" "sectors_at d lba 1 = d lba"
  by (simp_all add: sectors_at_def)

lemma in_range_1 [simp]: "in_range lba (Suc 0) \<longleftrightarrow> lba \<le> max_lba" "in_range lba 1 \<longleftrightarrow> lba \<le> max_lba"
  by (simp_all add: in_range_def word_le_nat_alt)

lemma put_sectors_1:
  assumes "512 \<le> length b"
  shows "put_sectors lba (Suc 0) b d = d(lba := take 512 b)"
  using assms by (auto simp: put_sectors_def sub_buf_def fun_eq_iff unat_eq_zero)

lemma patch_all: "length bs = length b \<Longrightarrow> patch 0 bs b = bs"
  by (simp add: patch_def)

lemma patch_front: "patch 0 bs b = bs @ drop (length bs) b"
  by (simp add: patch_def)

lemma fs_ide_read_1 [run_simps]:
  assumes "disk_ok (my_disk s)" "lba \<le> max_lba" "512 \<le> length buf"
  shows "fs_ide_read lba (Suc 0) buf s = Inr (my_disk s lba @ drop 512 buf, s)"
    "fs_ide_read lba 1 buf s = Inr (my_disk s lba @ drop 512 buf, s)"
  using assms by (simp_all add: fs_ide_read_def disk_read_def put_bytes_def patch_front)

lemma fs_ide_write_1 [run_simps]:
  assumes "lba \<le> max_lba" "512 \<le> length buf"
  shows "fs_ide_write lba buf (Suc 0) s = Inr ((), s\<lparr>my_disk := (my_disk s)(lba := take 512 buf)\<rparr>)"
    "fs_ide_write lba buf 1 s = Inr ((), s\<lparr>my_disk := (my_disk s)(lba := take 512 buf)\<rparr>)"
  using assms by (simp_all add: fs_ide_write_def disk_write_def put_sectors_1)

lemma fs_free_live [run_simps]:
  "a \<noteq> 0 \<Longrightarrow> a \<in> set (live s) \<Longrightarrow>
     fs_free a s = Inr ((), s\<lparr>live := remove1 a (live s), inodes := (inodes s)(a := None), dirs := (dirs s)(a := None)\<rparr>)"
  by (simp add: fs_free_def)

lemma fs_malloc_ok:
  assumes "allocator_ok s" "mem_for (Suc m) s"
  obtains a where "fs_malloc n s = Inr (a, s\<lparr>mallocs := Suc (mallocs s), live := a # live s\<rparr>)"
    "a \<noteq> 0" "a \<notin> set (live s)" "a \<noteq> root_dir s"
    "mem_for m (s\<lparr>mallocs := Suc (mallocs s), live := a # live s\<rparr>)"
    "allocator_ok (s\<lparr>mallocs := Suc (mallocs s), live := a # live s\<rparr>)"
proof -
  let ?a = "allocator s (mallocs s) (live s) n"
  have a: "?a \<noteq> 0" using assms(2) by (simp add: mem_for_def)
  with assms(1) have "?a \<notin> set (live s)" "?a \<noteq> root_dir s" by (simp_all add: allocator_ok_def)
  then show ?thesis
    using a assms by (intro that [of ?a]) (simp_all add: fs_malloc_def Let_def mem_for_def allocator_ok_def)
qed

lemma get_inode_run [run_simps]: "inodes s a = Some i \<Longrightarrow> get_inode a s = Inr (i, s)"
  by (simp add: get_inode_def)

lemma set_inode_run [run_simps]: "set_inode a i s = Inr ((), s\<lparr>inodes := (inodes s)(a \<mapsto> i)\<rparr>)"
  by (simp add: set_inode_def run_simps)

lemma get_dir_run [run_simps]: "dirs s a = Some d \<Longrightarrow> get_dir a s = Inr (d, s)"
  by (simp add: get_dir_def)

lemma set_dir_run [run_simps]: "set_dir a d s = Inr ((), s\<lparr>dirs := (dirs s)(a \<mapsto> d)\<rparr>)"
  by (simp add: set_dir_def run_simps)

lemma upd_part_run [run_simps]: "upd_part f s = Inr ((), s\<lparr>cur_part := f (cur_part s)\<rparr>)"
  by (simp add: upd_part_def run_simps)

lemma k_print_run [run_simps]: "k_print fmt args s = Inr ((), s\<lparr>klog := (fmt, args) # klog s\<rparr>)"
  by (simp add: k_print_def run_simps)

section \<open>Regions of the disk\<close>

text \<open>
  A run of sectors is one array of bytes: reading some of its sectors takes a part of the array, and
  writing some of them patches it. No other sector changes.
\<close>

lemma nth_sectors_at:
  assumes "disk_ok d" "j < 512 * n"
  shows "sectors_at d b n ! j = d (b + of_nat (j div 512)) ! (j mod 512)"
  using assms(2)
proof (induction n)
  case (Suc n)
  have s: "sectors_at d b (Suc n) = sectors_at d b n @ d (b + of_nat n)" by (simp add: sectors_at_def)
  have l: "length (sectors_at d b n) = 512 * n" using assms(1) by (intro length_sectors_at) simp
  show ?case
  proof (cases "j < 512 * n")
    case True
    then show ?thesis using Suc.IH l by (simp add: s nth_append)
  next
    case False
    then have d: "j div 512 = n" using Suc.prems by (intro div_nat_eqI) simp_all
    moreover have "j mod 512 = j - 512 * n" using minus_mult_div_eq_mod [of j 512] d by simp
    ultimately show ?thesis using False l by (simp add: s nth_append)
  qed
qed simp

lemma unat_diff_less_iff:
  assumes "unat (b :: u32) + n \<le> 2 ^ 32"
  shows "unat (x - b) < n \<longleftrightarrow> unat b \<le> unat x \<and> unat x < unat b + n"
proof (cases "b \<le> x")
  case True
  then show ?thesis by (auto simp: unat_sub_no_wrap32 word_le_nat_alt)
next
  case False
  then have "unat x < unat b" by (simp add: word_le_nat_alt)
  moreover have "unat (x - b) = 2 ^ 32 + unat x - unat b"
    using calculation unat_u32_lt [of b] by (simp add: unat_sub_if_size word_size word_le_nat_alt)
  ultimately show ?thesis using assms by auto
qed

lemma put_sectors_outside:
  assumes "unat lba + n \<le> 2 ^ 32" "unat x < unat lba \<or> unat lba + n \<le> unat x"
  shows "put_sectors lba n buf d x = d x"
  using assms by (auto simp: put_sectors_def unat_diff_less_iff)

lemma disk_ok_put: "disk_ok d \<Longrightarrow> 512 * n \<le> length b \<Longrightarrow> disk_ok (put_sectors lba n b d)"
  using put_sectors_length [of d n b lba] by (simp add: disk_ok_def)

lemma length_region [simp]: "disk_ok d \<Longrightarrow> length (sectors_at d b n) = 512 * n"
  by (intro length_sectors_at) simp

lemma sectors_at_sub:
  assumes "disk_ok d" "k + m \<le> n"
  shows "sectors_at d (b + of_nat k) m = sub_buf (512 * k) (512 * m) (sectors_at d b n)"
proof -
  have "n = k + (m + (n - k - m))" using assms(2) by simp
  then have "sectors_at d b n = sectors_at d b k @ sectors_at d (b + of_nat k) m @
      sectors_at d (b + of_nat k + of_nat m) (n - k - m)"
    using sectors_at_add [of d b k "m + (n - k - m)"] sectors_at_add [of d "b + of_nat k" m "n - k - m"] by simp
  then show ?thesis using assms(1) by (simp add: sub_buf_def)
qed

lemma sectors_at_put:
  assumes "disk_ok d" "k + m \<le> n" "unat b + n \<le> 2 ^ 32" "length buf = 512 * m"
  shows "sectors_at (put_sectors (b + of_nat k) m buf d) b n = patch (512 * k) buf (sectors_at d b n)"
proof (rule nth_equalityI)
  note ok = disk_ok_put [OF assms(1), of m buf "b + of_nat k"]
  show len: "length (sectors_at (put_sectors (b + of_nat k) m buf d) b n) = length (patch (512 * k) buf (sectors_at d b n))"
    using assms ok by (simp add: length_patch)
  fix j assume "j < length (sectors_at (put_sectors (b + of_nat k) m buf d) b n)"
  then have j: "j < 512 * n" using ok assms(4) by simp
  define q r where "q = j div 512" and "r = j mod 512"
  have jq: "j = 512 * q + r" "r < 512" by (simp_all add: q_def r_def)
  have q: "q < n" using j jq by simp
  have u: "unat (of_nat t :: u32) = t" "unat (b + of_nat t) = unat b + t" if "t < n" for t
    using that assms(3) by (simp_all add: unat_of_nat32 unat_add_no_wrap32)
  have in_iff: "unat (b + of_nat q - (b + of_nat k)) < m \<longleftrightarrow> k \<le> q \<and> q < k + m"
  proof (cases "m = 0")
    case False
    then have "k < n" using assms(2) by simp
    then show ?thesis using u [of k] u [OF q] assms(2,3) by (subst unat_diff_less_iff) auto
  qed simp
  show "sectors_at (put_sectors (b + of_nat k) m buf d) b n ! j = patch (512 * k) buf (sectors_at d b n) ! j"
  proof (cases "k \<le> q \<and> q < k + m")
    case True
    then have "k < n" using assms(2) by simp
    then have "unat (b + of_nat q - (b + of_nat k)) = q - k"
      using True u [of k] u [OF q] by (subst unat_sub_no_wrap32) (simp_all add: word_le_nat_alt)
    moreover obtain t where t: "q = k + t" using True by (auto simp: le_iff_add)
    ultimately have eq: "put_sectors (b + of_nat k) m buf d (b + of_nat q) = sub_buf (512 * t) 512 buf"
      using True by (simp add: put_sectors_def)
    have "t < m" using True t by simp
    then have "512 * t + r < length buf" using jq(2) assms(4) by simp
    moreover have "sectors_at (put_sectors (b + of_nat k) m buf d) b n ! j = sub_buf (512 * t) 512 buf ! r"
      using j ok assms(4) by (simp add: nth_sectors_at eq flip: q_def r_def)
    moreover have "j - 512 * k = 512 * t + r" "512 * k \<le> j" "j < 512 * k + 512 * m"
      using jq(1) t calculation(1) assms(4) by simp_all
    ultimately show ?thesis
      using j jq(2) assms by (simp add: nth_patch nth_sub_buf)
  next
    case False
    then have "\<not> (512 * k \<le> j \<and> j < 512 * k + length buf)" using jq assms(4) by auto
    moreover have "put_sectors (b + of_nat k) m buf d (b + of_nat q) = d (b + of_nat q)"
      unfolding put_sectors_def in_iff using False by auto
    ultimately show ?thesis
      using j ok assms by (auto simp: nth_sectors_at nth_patch simp flip: q_def r_def)
  qed
qed

lemma patch_patch_sub:
  assumes "i + n \<le> length b" "off + length bs \<le> n"
  shows "patch i (patch off bs (sub_buf i n b)) b = patch (i + off) bs b"
  using assms by (intro nth_equalityI) (auto simp: length_patch nth_patch nth_sub_buf)

lemma sub_buf_sub_buf: "off + m \<le> n \<Longrightarrow> sub_buf off m (sub_buf i n b) = sub_buf (i + off) m b"
  by (simp add: sub_buf_def drop_take min_def add.commute)

lemma fs_ide_read_n:
  assumes "disk_ok (my_disk s)" "lba \<le> max_lba" "0 < n" "n \<le> 256" "512 * n \<le> length buf"
  shows "fs_ide_read lba n buf s = Inr (sectors_at (my_disk s) lba n @ drop (512 * n) buf, s)"
  using assms by (simp add: fs_ide_read_def disk_read_def put_bytes_def patch_front in_range_def word_le_nat_alt)

lemma fs_ide_write_n:
  assumes "lba \<le> max_lba" "0 < n" "n \<le> 256" "512 * n \<le> length buf"
  shows "fs_ide_write lba buf n s = Inr ((), s\<lparr>my_disk := put_sectors lba n buf (my_disk s)\<rparr>)"
  using assms by (simp add: fs_ide_write_def disk_write_def in_range_def word_le_nat_alt)

end
