(* ===== verification/Fs_Alloc.thy ===== *)
theory Fs_Alloc
  imports Fs_State
begin

text \<open>
  The first part of \<^verbatim>\<open>fs/file.c\<close>: file descriptors, inode numbers and blocks are given out, and the
  sector of a bitmap that holds a changed bit is written back to the disk.

  The tables of descriptors are slot pools, and so are the two bitmaps on the disk; a block is
  named by its sector, which is the index of its bit past the start of the data area.
\<close>

section \<open>Operations\<close>

datatype bitmap_type = INODE_BITMAP | BLOCK_BITMAP

text \<open>The loop over a table: the first index from \<open>i\<close> on whose entry is free, or \<open>m\<close>.\<close>

function slot_loop :: "('a \<Rightarrow> bool) \<Rightarrow> 'a list \<Rightarrow> nat \<Rightarrow> nat \<Rightarrow> nat res" where
  "slot_loop free tab m i =
     (if i < m then bindE (read_at tab i) (\<lambda>x. if free x then Inr i else slot_loop free tab m (Suc i))
      else Inr i)"
  by pat_completeness auto
termination
  by (relation "measure (\<lambda>(free, tab, m, i). m - i)") auto

definition get_free_slot_in_global :: "u32 fsm" where
  "get_free_slot_in_global =
     bindS (getS file_table) (\<lambda>tab.
     bindS (liftS (slot_loop (\<lambda>f. fd_inode f = 0) tab MAX_FILE_OPEN 3)) (\<lambda>fd_idx.
     if fd_idx = MAX_FILE_OPEN then
       thenS (k_print ''exceed max open files'' [])
       (retS (-1))
     else retS (of_nat fd_idx)))"

definition pcb_fd_install :: "u32 \<Rightarrow> u32 fsm" where
  "pcb_fd_install globa_fd_idx =
     bindS (getS fd_table) (\<lambda>tab.
     bindS (liftS (slot_loop (\<lambda>g. g = -1) tab MAX_FILES_OPEN_PER_PROC 3)) (\<lambda>local_fd_idx.
     if local_fd_idx = MAX_FILES_OPEN_PER_PROC then
       thenS (k_print ''exceed max open files_per_proc'' [])
       (retS (-1))
     else
       thenS (updS (\<lambda>s. s\<lparr>fd_table := tab[local_fd_idx := globa_fd_idx]\<rparr>))
       (retS (of_nat local_fd_idx))))"

definition inode_bitmap_alloc :: "u32 fsm" where
  "inode_bitmap_alloc =
     bindS (getS cur_part) (\<lambda>part.
     bindS (liftS (bitmap_scan (inode_bitmap part) 1)) (\<lambda>bit_idx.
     if bit_idx = -1 then retS (-1)
     else
       bindS (liftS (bitmap_set (inode_bitmap part) bit_idx 1)) (\<lambda>bm.
       thenS (upd_part (\<lambda>p. p\<lparr>inode_bitmap := bm\<rparr>))
       (retS bit_idx))))"

definition block_bitmap_alloc :: "u32 fsm" where
  "block_bitmap_alloc =
     bindS (getS cur_part) (\<lambda>part.
     bindS (liftS (bitmap_scan (block_bitmap part) 1)) (\<lambda>bit_idx.
     if bit_idx = -1 then retS (-1)
     else
       bindS (liftS (bitmap_set (block_bitmap part) bit_idx 1)) (\<lambda>bm.
       thenS (upd_part (\<lambda>p. p\<lparr>block_bitmap := bm\<rparr>))
       (retS (data_start_lba (sb part) + bit_idx)))))"

definition bitmap_sync :: "u32 \<Rightarrow> bitmap_type \<Rightarrow> unit fsm" where
  "bitmap_sync bit_idx btmp_type =
     bindS (getS cur_part) (\<lambda>part.
     let off_sec = bit_idx div 4096;
         off_size = off_sec * BLOCK_SIZE
     in case btmp_type of
          INODE_BITMAP \<Rightarrow>
            fs_ide_write (inode_bitmap_lba (sb part) + off_sec) (drop (unat off_size) (bits (inode_bitmap part))) 1
        | BLOCK_BITMAP \<Rightarrow>
            fs_ide_write (block_bitmap_lba (sb part) + off_sec) (drop (unat off_size) (bits (block_bitmap part))) 1)"

text \<open>\<^verbatim>\<open>bitmap_set\<close> on one of the bitmaps of the partition, to give a bit back.\<close>

definition inode_bit_clear :: "u32 \<Rightarrow> unit fsm" where
  "inode_bit_clear idx =
     bindS (getS cur_part) (\<lambda>part.
     bindS (liftS (bitmap_set (inode_bitmap part) idx 0)) (\<lambda>bm. upd_part (\<lambda>p. p\<lparr>inode_bitmap := bm\<rparr>)))"

definition block_bit_clear :: "u32 \<Rightarrow> unit fsm" where
  "block_bit_clear idx =
     bindS (getS cur_part) (\<lambda>part.
     bindS (liftS (bitmap_set (block_bitmap part) idx 0)) (\<lambda>bm. upd_part (\<lambda>p. p\<lparr>block_bitmap := bm\<rparr>)))"

declare slot_loop.simps [simp del]

section \<open>Tables of descriptors\<close>

lemma slot_loop_found:
  assumes "i \<le> j" "j < m" "m \<le> length tab" "free (tab ! j)" "\<forall>k. i \<le> k \<and> k < j \<longrightarrow> \<not> free (tab ! k)"
  shows "slot_loop free tab m i = Inr j"
  using assms
proof (induction "j - i" arbitrary: i)
  case 0
  then show ?case by (subst slot_loop.simps) simp
next
  case (Suc d)
  then have "slot_loop free tab m (Suc i) = Inr j" by (intro Suc.hyps) auto
  moreover have "\<not> free (tab ! i)" "i < m" using Suc by auto
  ultimately show ?case using Suc.prems by (subst slot_loop.simps) simp
qed

lemma slot_loop_full:
  assumes "i \<le> m" "m \<le> length tab" "\<forall>k. i \<le> k \<and> k < m \<longrightarrow> \<not> free (tab ! k)"
  shows "slot_loop free tab m i = Inr m"
  using assms
proof (induction "m - i" arbitrary: i)
  case 0
  then show ?case by (subst slot_loop.simps) simp
next
  case (Suc d)
  then have "slot_loop free tab m (Suc i) = Inr m" by (intro Suc.hyps) auto
  moreover have "\<not> free (tab ! i)" "i < m" using Suc by auto
  ultimately show ?case using Suc.prems by (subst slot_loop.simps) simp
qed

definition used_slots :: "('a \<Rightarrow> bool) \<Rightarrow> nat \<Rightarrow> 'a list \<Rightarrow> nat set" where
  "used_slots free m tab = {i. i < m \<and> (i < 3 \<or> \<not> free (tab ! i))}"

lemma slot_loop_least:
  assumes "m \<le> length tab" "3 \<le> m" "used_slots free m tab \<noteq> {..<m}"
  shows "slot_loop free tab m 3 = Inr (LEAST i. i \<notin> used_slots free m tab)"
    "(LEAST i. i \<notin> used_slots free m tab) < m" "3 \<le> (LEAST i. i \<notin> used_slots free m tab)"
    "free (tab ! (LEAST i. i \<notin> used_slots free m tab))"
proof -
  let ?l = "LEAST i. i \<notin> used_slots free m tab"
  have "used_slots free m tab \<subseteq> {..<m}" by (auto simp: used_slots_def)
  then obtain j where j: "j < m" "j \<notin> used_slots free m tab" using assms(3) by blast
  have nl: "?l \<notin> used_slots free m tab" using j(2) by (rule LeastI)
  have "?l \<le> j" using j(2) by (rule Least_le)
  then show lm: "?l < m" using j(1) by simp
  with nl show l3: "3 \<le> ?l" and f: "free (tab ! ?l)" by (auto simp: used_slots_def)
  have "\<forall>k. 3 \<le> k \<and> k < ?l \<longrightarrow> \<not> free (tab ! k)"
  proof (intro allI impI)
    fix k assume k: "3 \<le> k \<and> k < ?l"
    then have "k \<in> used_slots free m tab" using not_less_Least by blast
    with k show "\<not> free (tab ! k)" by (simp add: used_slots_def)
  qed
  then show "slot_loop free tab m 3 = Inr ?l" using l3 lm f assms(1) by (intro slot_loop_found) auto
qed

lemma slot_loop_none:
  assumes "m \<le> length tab" "3 \<le> m" "used_slots free m tab = {..<m}"
  shows "slot_loop free tab m 3 = Inr m"
proof (rule slot_loop_full)
  show "\<forall>k. 3 \<le> k \<and> k < m \<longrightarrow> \<not> free (tab ! k)"
  proof (intro allI impI)
    fix k assume k: "3 \<le> k \<and> k < m"
    then have "k \<in> used_slots free m tab" using assms(3) by simp
    with k show "\<not> free (tab ! k)" by (simp add: used_slots_def)
  qed
qed (use assms in simp_all)

text \<open>
  The task's descriptor table is a slot pool: \<^verbatim>\<open>pcb_fd_install\<close> takes the least free descriptor and
  \<^verbatim>\<open>sys_close\<close> gives one back by storing \<^verbatim>\<open>-1\<close>. The standard descriptors are never given out.
\<close>

definition fds_ok :: "u32 list \<Rightarrow> bool" where
  "fds_ok tab \<longleftrightarrow> length tab = MAX_FILES_OPEN_PER_PROC"

definition fds_used :: "u32 list \<Rightarrow> nat set" where
  "fds_used tab = used_slots (\<lambda>g. g = -1) MAX_FILES_OPEN_PER_PROC tab"

lemma pcb_fd_install_least:
  assumes "fds_ok (fd_table s)" "fds_used (fd_table s) \<noteq> {..<MAX_FILES_OPEN_PER_PROC}"
  shows "pcb_fd_install g s =
    Inr (of_nat (LEAST i. i \<notin> fds_used (fd_table s)),
         s\<lparr>fd_table := (fd_table s)[(LEAST i. i \<notin> fds_used (fd_table s)) := g]\<rparr>)"
proof -
  note l = slot_loop_least [of MAX_FILES_OPEN_PER_PROC "fd_table s" "\<lambda>g. g = -1", folded fds_used_def]
  have "slot_loop (\<lambda>g. g = -1) (fd_table s) MAX_FILES_OPEN_PER_PROC 3 = Inr (LEAST i. i \<notin> fds_used (fd_table s))"
    "(LEAST i. i \<notin> fds_used (fd_table s)) < MAX_FILES_OPEN_PER_PROC"
    using l assms by (simp_all add: fds_ok_def MAX_FILES_OPEN_PER_PROC_def)
  then show ?thesis by (simp add: pcb_fd_install_def run_simps)
qed

lemma pcb_fd_install_full:
  assumes "fds_ok (fd_table s)" "fds_used (fd_table s) = {..<MAX_FILES_OPEN_PER_PROC}"
  shows "pcb_fd_install g s = Inr (-1, s\<lparr>klog := (''exceed max open files_per_proc'', []) # klog s\<rparr>)"
proof -
  have "slot_loop (\<lambda>g. g = -1) (fd_table s) MAX_FILES_OPEN_PER_PROC 3 = Inr MAX_FILES_OPEN_PER_PROC"
    using slot_loop_none [of MAX_FILES_OPEN_PER_PROC "fd_table s" "\<lambda>g. g = -1", folded fds_used_def] assms
    by (simp add: fds_ok_def MAX_FILES_OPEN_PER_PROC_def)
  then show ?thesis by (simp add: pcb_fd_install_def run_simps)
qed

section \<open>A mounted partition\<close>

text \<open>
  The layout of a formatted partition: the bitmap of the blocks, that of the inodes, the inode table
  (608 sectors of 512 bytes for 4096 inodes of 76) and the data area follow each other, the bitmaps are in
  memory in full, and the bits of the blocks that do not exist are set, but for one: the data area includes the sector
  right behind the partition, whose bit \<^verbatim>\<open>partition_format\<close> leaves clear when the bitmap has it. That sector has to be on the disk. The theory
  \<open>Fs_Mount\<close> proves this layout of the partitions that \<^verbatim>\<open>partition_format\<close> makes and \<^verbatim>\<open>mount_partition\<close> mounts.
\<close>

definition part_ok :: "partition \<Rightarrow> bool" where
  "part_ok p \<longleftrightarrow>
     bitmap_ok (block_bitmap p) \<and> bitmap_ok (inode_bitmap p) \<and>
     unat (bmap_bytes_len (block_bitmap p)) = 512 * unat (block_bitmap_sects (sb p)) \<and>
     unat (bmap_bytes_len (inode_bitmap p)) = 512 * unat (inode_bitmap_sects (sb p)) \<and>
     length (bits (block_bitmap p)) = 512 * unat (block_bitmap_sects (sb p)) \<and>
     length (bits (inode_bitmap p)) = 512 * unat (inode_bitmap_sects (sb p)) \<and>
     unat (block_bitmap_lba (sb p)) + unat (block_bitmap_sects (sb p)) \<le> unat (inode_bitmap_lba (sb p)) \<and>
     unat (inode_bitmap_lba (sb p)) + unat (inode_bitmap_sects (sb p)) \<le> unat (inode_table_lba (sb p)) \<and>
     unat (inode_table_lba (sb p)) + 608 \<le> unat (data_start_lba (sb p)) \<and>
     unat (data_start_lba (sb p)) \<le> unat (start_lba p) + unat (sec_cnt p) \<and>
     unat (start_lba p) + unat (sec_cnt p) < 163840 \<and>
     inode_bitmap_sects (sb p) = 1 \<and> dir_entry_size (sb p) = sizeof_dir_entry \<and>
     (\<forall>i. i < nbits (block_bitmap p) \<and> unat (start_lba p) + unat (sec_cnt p) < unat (data_start_lba (sb p)) + i
          \<longrightarrow> i \<in> bit_used (block_bitmap p))"

text \<open>The sectors of the bitmaps and of the inode table, and those of the data area.\<close>

definition meta_sector :: "partition \<Rightarrow> u32 \<Rightarrow> bool" where
  "meta_sector p x \<longleftrightarrow> unat (block_bitmap_lba (sb p)) \<le> unat x \<and> unat x < unat (data_start_lba (sb p))"

definition data_sector :: "partition \<Rightarrow> u32 \<Rightarrow> bool" where
  "data_sector p x \<longleftrightarrow> unat (data_start_lba (sb p)) \<le> unat x \<and> unat x \<le> unat (start_lba p) + unat (sec_cnt p)"

lemma data_not_meta: "data_sector p x \<Longrightarrow> \<not> meta_sector p x"
  by (simp add: data_sector_def meta_sector_def)

lemma data_sector_max: "part_ok p \<Longrightarrow> data_sector p x \<Longrightarrow> x \<le> max_lba"
  by (simp add: data_sector_def part_ok_def word_le_nat_alt unat_max_lba)

definition block_no :: "partition \<Rightarrow> u32 \<Rightarrow> nat" where
  "block_no p lba = unat (lba - data_start_lba (sb p))"

definition block_used :: "partition \<Rightarrow> u32 \<Rightarrow> bool" where
  "block_used p lba \<longleftrightarrow> block_no p lba \<in> bit_used (block_bitmap p)"

lemma bitmap_set_frame:
  assumes "bitmap_set bm i v = Inr bm'"
  shows "bmap_bytes_len bm' = bmap_bytes_len bm" "length (bits bm') = length (bits bm)"
  using assms by (auto simp: bitmap_set_def Let_def res_simps)

lemma part_ok_block_bitmap:
  assumes ok: "part_ok p" and bm: "bitmap_ok bm" "bmap_bytes_len bm = bmap_bytes_len (block_bitmap p)"
    "length (bits bm) = length (bits (block_bitmap p))" and mono: "bit_used (block_bitmap p) \<subseteq> bit_used bm"
  shows "part_ok (p\<lparr>block_bitmap := bm\<rparr>)"
proof -
  have "nbits bm = nbits (block_bitmap p)" using bm(2) by (simp add: nbits_def)
  then have "\<forall>i. i < nbits bm \<and> unat (start_lba p) + unat (sec_cnt p) < unat (data_start_lba (sb p)) + i
      \<longrightarrow> i \<in> bit_used bm"
    using ok mono unfolding part_ok_def by fastforce
  then show ?thesis using ok bm unfolding part_ok_def by auto
qed

lemma block_bitmap_alloc_ok:
  assumes ok: "part_ok (cur_part s)" and free: "bit_used (block_bitmap (cur_part s)) \<noteq> {..<nbits (block_bitmap (cur_part s))}"
  obtains bm where
    "block_bitmap_alloc s = Inr (data_start_lba (sb (cur_part s)) + of_nat (first_free (block_bitmap (cur_part s))),
       s\<lparr>cur_part := (cur_part s)\<lparr>block_bitmap := bm\<rparr>\<rparr>)"
    "part_ok ((cur_part s)\<lparr>block_bitmap := bm\<rparr>)"
    "bit_used bm = insert (first_free (block_bitmap (cur_part s))) (bit_used (block_bitmap (cur_part s)))"
    "data_sector (cur_part s) (data_start_lba (sb (cur_part s)) + of_nat (first_free (block_bitmap (cur_part s))))"
    "unat (of_nat (first_free (block_bitmap (cur_part s))) :: u32) = first_free (block_bitmap (cur_part s))"
    "first_free (block_bitmap (cur_part s)) < nbits (block_bitmap (cur_part s))"
    "bitmap_set (block_bitmap (cur_part s)) (of_nat (first_free (block_bitmap (cur_part s)))) 1 = Inr bm"
proof -
  let ?p = "cur_part s" and ?bm = "block_bitmap (cur_part s)"
  have bok: "bitmap_ok ?bm" using ok by (simp add: part_ok_def)
  have lt: "first_free ?bm < nbits ?bm" using free by (rule not_full_first_free)
  have k: "unat (of_nat (first_free ?bm) :: u32) = first_free ?bm"
    using bitmap_ok_index [OF bok lt] by (intro unat_of_nat32) simp
  have m1: "(of_nat (first_free ?bm) :: u32) \<noteq> -1"
    using k bitmap_ok_index [OF bok lt] by (intro unat_lt_not_minus_1) simp
  from bitmap_take_ok [OF bok lt] obtain bm where bm:
    "bitmap_take ?bm = Inr (of_nat (first_free ?bm), bm)" "bitmap_ok bm" "nbits bm = nbits ?bm"
    "bmap_bytes_len bm = bmap_bytes_len ?bm" "length (bits bm) = length (bits ?bm)"
    "bit_used bm = insert (first_free ?bm) (bit_used ?bm)" by metis
  have set: "bitmap_set ?bm (of_nat (first_free ?bm)) 1 = Inr bm"
    using bm(1) by (simp add: bitmap_take_def bitmap_scan_one [OF bok lt] res_simps)
  have alloc: "block_bitmap_alloc s = Inr (data_start_lba (sb ?p) + of_nat (first_free ?bm), s\<lparr>cur_part := ?p\<lparr>block_bitmap := bm\<rparr>\<rparr>)"
    using m1 set by (simp add: block_bitmap_alloc_def run_simps bitmap_scan_one [OF bok lt])
  have data: "unat (data_start_lba (sb ?p)) + first_free ?bm \<le> unat (start_lba ?p) + unat (sec_cnt ?p)"
  proof (rule ccontr)
    assume "\<not> ?thesis"
    then have "first_free ?bm \<in> bit_used ?bm" using ok lt unfolding part_ok_def by (meson not_le)
    then show False using first_free_notin by blast
  qed
  moreover have "unat (start_lba ?p) + unat (sec_cnt ?p) < 163840" using ok by (simp add: part_ok_def)
  ultimately have "data_sector ?p (data_start_lba (sb ?p) + of_nat (first_free ?bm))"
    using k by (simp add: data_sector_def unat_add_no_wrap32)
  moreover have "part_ok (?p\<lparr>block_bitmap := bm\<rparr>)"
    using part_ok_block_bitmap [OF ok bm(2,4,5)] bm(6) by blast
  ultimately show ?thesis using that alloc bm(6) k lt set by blast
qed

section \<open>Bitmaps on the disk\<close>

text \<open>The bitmap of the blocks, on the disk and in memory, is the same.\<close>

definition blocks_synced :: "fstate \<Rightarrow> bool" where
  "blocks_synced s \<longleftrightarrow>
     sectors_at (my_disk s) (block_bitmap_lba (sb (cur_part s))) (unat (block_bitmap_sects (sb (cur_part s)))) =
       bits (block_bitmap (cur_part s))"

lemma bitmap_sync_block:
  assumes ok: "part_ok (cur_part s)" and i: "unat i < nbits (block_bitmap (cur_part s))"
  defines "k \<equiv> unat i div 4096" and "p \<equiv> cur_part s"
  shows "bitmap_sync i BLOCK_BITMAP s = Inr ((), s\<lparr>my_disk := (my_disk s)
           (block_bitmap_lba (sb p) + of_nat k := sub_buf (512 * k) 512 (bits (block_bitmap p)))\<rparr>)"
    "k < unat (block_bitmap_sects (sb p))"
    "unat (block_bitmap_lba (sb p) + of_nat k) = unat (block_bitmap_lba (sb p)) + k"
    "length (sub_buf (512 * k) 512 (bits (block_bitmap p))) = 512"
proof -
  have n: "unat (bmap_bytes_len (block_bitmap p)) = 512 * unat (block_bitmap_sects (sb p))"
    "length (bits (block_bitmap p)) = 512 * unat (block_bitmap_sects (sb p))"
    "unat (block_bitmap_lba (sb p)) + unat (block_bitmap_sects (sb p)) \<le> 163840"
    using ok by (auto simp: part_ok_def p_def)
  have "unat i < 4096 * unat (block_bitmap_sects (sb p))" using i n(1) by (simp add: nbits_def p_def)
  then show k: "k < unat (block_bitmap_sects (sb p))" by (simp add: k_def less_mult_imp_div_less mult.commute)
  have "of_nat (unat (i div 4096)) = (of_nat k :: u32)" unfolding k_def by (subst unat_div) simp
  then have off: "i div 4096 = of_nat k" by simp
  have uk: "unat (of_nat k :: u32) = k" using k n(3) by (intro unat_of_nat32) simp
  have u512: "unat (of_nat k * BLOCK_SIZE) = 512 * k"
    using uk k n(3) by (simp add: unat_mult_no_wrap32 BLOCK_SIZE_def SECTOR_SIZE_def)
  show lba: "unat (block_bitmap_lba (sb p) + of_nat k) = unat (block_bitmap_lba (sb p)) + k"
    using uk k n(3) by (simp add: unat_add_no_wrap32)
  have len: "512 * k + 512 \<le> length (bits (block_bitmap p))" using k n(2) by simp
  then show "length (sub_buf (512 * k) 512 (bits (block_bitmap p))) = 512" by simp
  have "block_bitmap_lba (sb p) + of_nat k \<le> max_lba"
    using lba k n(3) by (simp add: word_le_nat_alt unat_max_lba)
  then show "bitmap_sync i BLOCK_BITMAP s = Inr ((), s\<lparr>my_disk := (my_disk s)
           (block_bitmap_lba (sb p) + of_nat k := sub_buf (512 * k) 512 (bits (block_bitmap p)))\<rparr>)"
    using len by (simp add: bitmap_sync_def run_simps Let_def off u512 sub_buf_def p_def)
qed

lemma bitmap_set_bytes:
  assumes "bitmap_set bm i v = Inr bm'"
  shows "\<forall>j. j \<noteq> unat i div 8 \<longrightarrow> bits bm' ! j = bits bm ! j"
  using assms by (auto simp: bitmap_set_def Let_def res_simps unat_div)

text \<open>Writing the one sector that changed is enough to have the whole bitmap on the disk.\<close>

lemma sync_region:
  assumes "disk_ok d" "sectors_at d b n = old" "length new = 512 * n" "k < n" "unat b + n \<le> 2 ^ 32"
    and same: "\<forall>j. j < 512 * n \<and> j div 512 \<noteq> k \<longrightarrow> new ! j = old ! j"
  shows "sectors_at (d(b + of_nat k := sub_buf (512 * k) 512 new)) b n = new"
proof -
  have len: "length (sub_buf (512 * k) 512 new) = 512" using assms(3,4) by simp
  have "sectors_at (put_sectors (b + of_nat k) 1 (sub_buf (512 * k) 512 new) d) b n =
      patch (512 * k) (sub_buf (512 * k) 512 new) old"
    using assms(1-5) len by (subst sectors_at_put) auto
  also have "\<dots> = new"
  proof (rule nth_equalityI)
    show "length (patch (512 * k) (sub_buf (512 * k) 512 new) old) = length new"
      using assms len by (subst length_patch) auto
    fix j assume "j < length (patch (512 * k) (sub_buf (512 * k) 512 new) old)"
    then have j: "j < 512 * n" using assms len by (subst (asm) length_patch) auto
    have "length old = 512 * n" using assms(1,2) by auto
    moreover have "j div 512 = k" if "512 * k \<le> j" "j < 512 * k + 512" using that by (intro div_nat_eqI) simp_all
    moreover have "512 * k \<le> j \<and> j < 512 * k + 512" if "j div 512 = k" using that by auto
    ultimately show "patch (512 * k) (sub_buf (512 * k) 512 new) old ! j = new ! j"
      using j len assms(3,4) same by (subst nth_patch) (auto simp: nth_sub_buf)
  qed
  finally show ?thesis using len by (simp add: put_sectors_1)
qed

lemma block_set_sync:
  assumes ok: "part_ok (cur_part s)" "disk_ok (my_disk s)" "blocks_synced s"
    and set: "bitmap_set (block_bitmap (cur_part s)) i v = Inr bm" and i: "unat i < nbits (block_bitmap (cur_part s))"
    and ok': "part_ok ((cur_part s)\<lparr>block_bitmap := bm\<rparr>)"
  obtains d where
    "bitmap_sync i BLOCK_BITMAP (s\<lparr>cur_part := (cur_part s)\<lparr>block_bitmap := bm\<rparr>\<rparr>) =
       Inr ((), s\<lparr>my_disk := d, cur_part := (cur_part s)\<lparr>block_bitmap := bm\<rparr>\<rparr>)"
    "disk_ok d" "blocks_synced (s\<lparr>my_disk := d, cur_part := (cur_part s)\<lparr>block_bitmap := bm\<rparr>\<rparr>)"
    "\<And>x. unat x < unat (block_bitmap_lba (sb (cur_part s))) \<or> unat (inode_bitmap_lba (sb (cur_part s))) \<le> unat x \<Longrightarrow>
       d x = my_disk s x"
proof -
  let ?p = "cur_part s" and ?s = "s\<lparr>cur_part := (cur_part s)\<lparr>block_bitmap := bm\<rparr>\<rparr>"
  define k where "k = unat i div 4096"
  let ?d = "(my_disk s)(block_bitmap_lba (sb ?p) + of_nat k := sub_buf (512 * k) 512 (bits bm))"
  have nb: "nbits bm = nbits (block_bitmap ?p)" using bitmap_set_frame(1) [OF set] by (simp add: nbits_def)
  note sync = bitmap_sync_block [of ?s i, simplified, OF ok' i [folded nb], folded k_def]
  have p: "unat (block_bitmap_lba (sb ?p)) + unat (block_bitmap_sects (sb ?p)) \<le> unat (inode_bitmap_lba (sb ?p))"
    "length (bits bm) = 512 * unat (block_bitmap_sects (sb ?p))"
    "unat (block_bitmap_lba (sb ?p)) + unat (block_bitmap_sects (sb ?p)) \<le> 163840"
    using ok'  ok(1) by (auto simp: part_ok_def)
  have "bits bm ! j = bits (block_bitmap ?p) ! j" if "j div 512 \<noteq> k" for j
  proof -
    have "j \<noteq> unat i div 8" using that by (auto simp: k_def div_mult2_eq [symmetric])
    then show ?thesis using bitmap_set_bytes [OF set] by blast
  qed
  then have "sectors_at ?d (block_bitmap_lba (sb ?p)) (unat (block_bitmap_sects (sb ?p))) = bits bm"
    using ok(2,3) p sync(2) unfolding blocks_synced_def by (intro sync_region) auto
  moreover have "disk_ok ?d" using ok(2) sync(4) by (intro disk_ok_upd) simp_all
  moreover have "?d x = my_disk s x"
    if "unat x < unat (block_bitmap_lba (sb ?p)) \<or> unat (inode_bitmap_lba (sb ?p)) \<le> unat x" for x
    using that sync(2,3) p(1) by auto
  ultimately show ?thesis
    using sync(1) by (intro that [of ?d]) (simp_all add: blocks_synced_def)
qed

section \<open>A small file system\<close>

text \<open>
  A concrete state for the examples: a partition of 4708 sectors with 4096 blocks, of which the root
  directory has the first, an empty disk, and an allocator that returns the least free address.
\<close>

definition pick_addr :: "u32 list \<Rightarrow> u32" where
  "pick_addr l = (case find (\<lambda>a. a \<notin> set l) (map of_nat [1..<64]) of Some a \<Rightarrow> a | None \<Rightarrow> 0)"

definition small_sb :: super_block where
  "small_sb = \<lparr>magic = 0x19970719, sb_sec_cnt = 4708, inode_cnt = 4096, part_lba_base = 0, block_bitmap_lba = 2,
     block_bitmap_sects = 1, inode_bitmap_lba = 3, inode_bitmap_sects = 1, inode_table_lba = 4,
     inode_table_sects = 608, data_start_lba = 612, root_inode_no = 0, dir_entry_size = 24\<rparr>"

definition small_part :: partition where
  "small_part = \<lparr>start_lba = 0, sec_cnt = 4708, part_name = str ''sdb1'' @ [0, 0, 0, 0], sb = small_sb,
     block_bitmap = \<lparr>bmap_bytes_len = 512, bits = 1 # replicate 511 0\<rparr>,
     inode_bitmap = \<lparr>bmap_bytes_len = 512, bits = 1 # replicate 511 0\<rparr>, open_inodes = []\<rparr>"

definition small_fs :: fstate where
  "small_fs = \<lparr>my_disk = (\<lambda>_. replicate 512 0), cur_part = small_part, inodes = (\<lambda>_. None), dirs = (\<lambda>_. None),
     root_dir = 0x1000, file_table = replicate 32 \<lparr>fd_pos = 0, fd_flag = 0, fd_inode = 0\<rparr>,
     fd_table = [0, 1, 2, -1, -1, -1, -1, -1], cwd_inode_nr = 0, live = [], mallocs = 0,
     allocator = (\<lambda>k l n. pick_addr l), klog = [], stack_junk = replicate 16 0\<rparr>"

lemma find_SomeD: "find P xs = Some a \<Longrightarrow> a \<in> set xs \<and> P a"
  by (auto simp: find_Some_iff)

lemma pick_addr_fresh: "pick_addr l \<noteq> 0 \<Longrightarrow> pick_addr l \<notin> set l \<and> pick_addr l \<noteq> 0x1000"
proof -
  assume nz: "pick_addr l \<noteq> 0"
  then obtain a where a: "find (\<lambda>a. a \<notin> set l) (map of_nat [1..<64]) = Some a" "pick_addr l = a"
    by (auto simp: pick_addr_def split: option.splits)
  then obtain n where "n < 64" "a = of_nat n" "a \<notin> set l" using find_SomeD [OF a(1)] by auto
  moreover from this have "unat a < 64" by (simp add: unat_of_nat32)
  then have "a \<noteq> 0x1000" by auto
  ultimately show ?thesis using a(2) by simp
qed

lemma pick_addr_some: "length l < 63 \<Longrightarrow> pick_addr l \<noteq> 0"
proof -
  assume l: "length l < 63"
  let ?c = "map of_nat [1..<64] :: u32 list"
  have d: "distinct ?c"
  proof -
    have "inj_on (of_nat :: nat \<Rightarrow> u32) {1..<64}"
    proof (rule inj_onI)
      fix x y :: nat assume xy: "x \<in> {1..<64}" "y \<in> {1..<64}" "(of_nat x :: u32) = of_nat y"
      then have "unat (of_nat x :: u32) = unat (of_nat y :: u32)" by simp
      then show "x = y" using xy(1,2) by (simp add: unat_of_nat32)
    qed
    then show ?thesis by (simp add: distinct_map)
  qed
  have "\<not> set ?c \<subseteq> set l"
  proof
    assume "set ?c \<subseteq> set l"
    then have "card (set ?c) \<le> card (set l)" by (intro card_mono) simp_all
    also have "\<dots> \<le> length l" by (rule card_length)
    finally show False using l distinct_card [OF d] by simp
  qed
  then obtain a where a: "find (\<lambda>a. a \<notin> set l) ?c = Some a"
    by (cases "find (\<lambda>a. a \<notin> set l) ?c") (auto simp: find_None_iff)
  then obtain n where "1 \<le> n" "n < 64" "a = of_nat n" using find_SomeD [OF a] by auto
  then have "unat a \<noteq> 0" by (simp add: unat_of_nat32)
  then show ?thesis using a by (auto simp: pick_addr_def)
qed

lemma small_fs_ok:
  "part_ok (cur_part small_fs)" "disk_ok (my_disk small_fs)" "allocator_ok small_fs" "m \<le> 62 \<Longrightarrow> mem_for m small_fs"
proof -
  show "part_ok (cur_part small_fs)"
    by (auto simp: part_ok_def small_fs_def small_part_def small_sb_def bitmap_ok_def nbits_def sizeof_dir_entry_def)
  show "disk_ok (my_disk small_fs)" by (simp add: disk_ok_def small_fs_def)
  show "allocator_ok small_fs" using pick_addr_fresh by (simp add: allocator_ok_def small_fs_def)
  show "mem_for m small_fs" if "m \<le> 62" using that pick_addr_some by (simp add: mem_for_def small_fs_def)
qed

end
