(* ===== verification/Inode.thy ===== *)
theory Inode
  imports Fs_Alloc
begin

text \<open>
  \<^verbatim>\<open>fs/inode.c\<close>: where an inode lies in the table on the disk, writing it back, the cache of open
  inodes with its reference counts, and giving an inode and its blocks back. Turning interrupts
  off and on again around a change has no effect on the state of the file system.
\<close>

section \<open>Operations\<close>

record inode_position =
  two_sec :: bool
  sec_lba :: u32
  off_size :: u32

definition inode_locate :: "partition \<Rightarrow> u32 \<Rightarrow> inode_position res" where
  "inode_locate part inode_no =
     bindE (ASSERT (inode_no < 4096)) (\<lambda>_.
     let off_size = inode_no * sizeof_inode;
         off_sec = off_size div 512;
         off_size_in_sec = off_size mod 512;
         left_in_sec = 512 - off_size_in_sec
     in Inr \<lparr>two_sec = (left_in_sec < sizeof_inode), sec_lba = inode_table_lba (sb part) + off_sec,
             off_size = off_size_in_sec\<rparr>)"

definition pos_sects :: "inode_position \<Rightarrow> nat" where
  "pos_sects pos = (if two_sec pos then 2 else 1)"

text \<open>
  The index is a \<^verbatim>\<open>uint8_t\<close>. The copy of the inode has the members that live in memory cleared.
\<close>

definition inode_sync :: "inode \<Rightarrow> u8 list \<Rightarrow> u8 list fsm" where
  "inode_sync i io_buf =
     bindS (getS cur_part) (\<lambda>part.
     let inode_no = (ucast (ucast (i_no i) :: u8) :: u32) in
     bindS (liftS (inode_locate part inode_no)) (\<lambda>inode_pos.
     thenS (assertS (sec_lba inode_pos \<le> start_lba part + sec_cnt part)) (
     let pure_inode = i\<lparr>i_open_cnts := 0, write_deny := False\<rparr> in
     bindS (fs_ide_read (sec_lba inode_pos) (pos_sects inode_pos) io_buf) (\<lambda>inode_buf.
     bindS (liftS (put_bytes (unat (off_size inode_pos)) (inode_bytes pure_inode) inode_buf)) (\<lambda>inode_buf.
     thenS (fs_ide_write (sec_lba inode_pos) inode_buf (pos_sects inode_pos))
     (retS inode_buf))))))"

fun open_loop :: "u32 list \<Rightarrow> u32 \<Rightarrow> u32 option fsm" where
  "open_loop [] inode_no = retS None"
| "open_loop (elem # elems) inode_no =
     bindS (get_inode elem) (\<lambda>i. if i_no i = inode_no then retS (Some elem) else open_loop elems inode_no)"

text \<open>The block an allocation returned: \<open>n\<close> zero bytes, and no bytes at all for \<^verbatim>\<open>NULL\<close>.\<close>

definition heap_buf :: "u32 \<Rightarrow> nat \<Rightarrow> u8 list fsm" where
  "heap_buf a n = liftS (if a = 0 then Inl OutOfBounds else Inr (replicate n 0))"

text \<open>The inode is filled by \<^verbatim>\<open>memcpy\<close>, which stops the kernel when its target is \<^verbatim>\<open>NULL\<close> (\<^verbatim>\<open>lib/string.c\<close>).\<close>

definition inode_load :: "u32 \<Rightarrow> u32 fsm" where
  "inode_load inode_no =
     bindS (getS cur_part) (\<lambda>part.
     bindS (liftS (inode_locate part inode_no)) (\<lambda>inode_pos.
     bindS (fs_malloc sizeof_inode) (\<lambda>inode_found.
     bindS (fs_malloc (if two_sec inode_pos then 2 * SECTOR_SIZE else SECTOR_SIZE)) (\<lambda>buf_addr.
     bindS (heap_buf buf_addr (512 * pos_sects inode_pos)) (\<lambda>inode_buf.
     bindS (fs_ide_read (sec_lba inode_pos) (pos_sects inode_pos) inode_buf) (\<lambda>inode_buf.
     thenS (assertS (inode_found \<noteq> 0)) (
     bindS (liftS (get_bytes (unat (off_size inode_pos)) (unat sizeof_inode) inode_buf)) (\<lambda>b.
     thenS (upd_part (\<lambda>p. p\<lparr>open_inodes := inode_found # open_inodes p\<rparr>)) (
     thenS (set_inode inode_found ((inode_of b)\<lparr>i_open_cnts := 1\<rparr>)) (
     thenS (fs_free buf_addr)
     (retS inode_found)))))))))))"

definition inode_open :: "u32 \<Rightarrow> u32 fsm" where
  "inode_open inode_no =
     bindS (getS (open_inodes \<circ> cur_part)) (\<lambda>elems.
     bindS (open_loop elems inode_no) (\<lambda>found.
     case found of
       Some inode_found \<Rightarrow>
         bindS (get_inode inode_found) (\<lambda>i.
         thenS (set_inode inode_found (i\<lparr>i_open_cnts := i_open_cnts i + 1\<rparr>))
         (retS inode_found))
     | None \<Rightarrow> inode_load inode_no))"

definition open_list_remove :: "u32 \<Rightarrow> unit fsm" where
  "open_list_remove a =
     bindS (getS (open_inodes \<circ> cur_part)) (\<lambda>elems.
     if a \<in> set elems then upd_part (\<lambda>p. p\<lparr>open_inodes := remove1 a elems\<rparr>) else liftS (Inl OutOfBounds))"

definition inode_close :: "u32 \<Rightarrow> unit fsm" where
  "inode_close a =
     bindS (get_inode a) (\<lambda>i.
     thenS (set_inode a (i\<lparr>i_open_cnts := i_open_cnts i - 1\<rparr>)) (
     if i_open_cnts i - 1 = 0 then
       thenS (open_list_remove a)
       (fs_free a)
     else retS ()))"

definition inode_delete :: "u32 \<Rightarrow> u8 list \<Rightarrow> u8 list fsm" where
  "inode_delete inode_no io_buf =
     thenS (assertS (inode_no < 4096)) (
     bindS (getS cur_part) (\<lambda>part.
     bindS (liftS (inode_locate part inode_no)) (\<lambda>inode_pos.
     thenS (assertS (sec_lba inode_pos \<le> start_lba part + sec_cnt part)) (
     bindS (fs_ide_read (sec_lba inode_pos) (pos_sects inode_pos) io_buf) (\<lambda>inode_buf.
     bindS (liftS (put_bytes (unat (off_size inode_pos)) (replicate (unat sizeof_inode) 0) inode_buf)) (\<lambda>inode_buf.
     thenS (fs_ide_write (sec_lba inode_pos) inode_buf (pos_sects inode_pos))
     (retS inode_buf)))))))"

text \<open>Giving one block back: its bit is cleared in memory and the bitmap's sector written.\<close>

definition free_block :: "u32 \<Rightarrow> unit fsm" where
  "free_block lba =
     bindS (getS cur_part) (\<lambda>part.
     let block_bitmap_idx = lba - data_start_lba (sb part) in
     thenS (assertS (block_bitmap_idx > 0)) (
     thenS (block_bit_clear block_bitmap_idx)
     (bitmap_sync block_bitmap_idx BLOCK_BITMAP)))"

fun free_blocks :: "u32 list \<Rightarrow> unit fsm" where
  "free_blocks [] = retS ()"
| "free_blocks (b # bs) = thenS (if b \<noteq> 0 then free_block b else retS ()) (free_blocks bs)"

text \<open>The table of the indirect blocks: one sector with 128 block addresses.\<close>

definition read_table :: "u32 \<Rightarrow> u32 list fsm" where
  "read_table lba = bindS (fs_ide_read lba 1 (replicate 512 0)) (\<lambda>b. retS (get32s 128 b))"

definition inode_release :: "u32 \<Rightarrow> unit fsm" where
  "inode_release inode_no =
     bindS (inode_open inode_no) (\<lambda>inode_to_del.
     bindS (get_inode inode_to_del) (\<lambda>i.
     thenS (assertS (i_no i = inode_no)) (
     bindS (if i_sectors i ! 12 \<noteq> 0 then
              bindS (read_table (i_sectors i ! 12)) (\<lambda>tab.
              thenS (free_block (i_sectors i ! 12))
              (retS (take 12 (i_sectors i) @ tab)))
            else retS (take 12 (i_sectors i))) (\<lambda>all_blocks.
     thenS (free_blocks all_blocks) (
     thenS (inode_bit_clear inode_no) (
     thenS (bitmap_sync inode_no INODE_BITMAP) (
     bindS (fs_malloc 1024) (\<lambda>buf_addr.
     bindS (heap_buf buf_addr 1024) (\<lambda>io_buf.
     bindS (inode_delete inode_no io_buf) (\<lambda>_.
     thenS (fs_free buf_addr)
     (inode_close inode_to_del)))))))))))"

definition inode_init :: "u32 \<Rightarrow> inode" where
  "inode_init inode_no =
     \<lparr>i_no = inode_no, i_size = 0, i_open_cnts = 0, write_deny = False, i_sectors = replicate 13 0\<rparr>"

section \<open>The inode table\<close>

text \<open>The table on the disk is an array of 4096 inodes of 76 bytes; an inode may straddle two sectors.\<close>

definition inode_table :: "partition \<Rightarrow> (u32 \<Rightarrow> u8 list) \<Rightarrow> u8 list" where
  "inode_table p d = sectors_at d (inode_table_lba (sb p)) 608"

definition table_sector :: "partition \<Rightarrow> u32 \<Rightarrow> bool" where
  "table_sector p x \<longleftrightarrow> unat (inode_table_lba (sb p)) \<le> unat x \<and> unat x < unat (inode_table_lba (sb p)) + 608"

lemma table_bounds:
  assumes "no < 4096"
  defines "q \<equiv> 76 * no div 512" and "r \<equiv> 76 * no mod (512 :: nat)"
  shows "q + (if 436 < r then 2 else 1) \<le> 608" "r + 76 \<le> 512 * (if 436 < r then 2 else 1)" "76 * no = 512 * q + r"
proof -
  show e: "76 * no = 512 * q + r" unfolding q_def r_def by (rule mult_div_mod_eq [symmetric])
  have "r < 512" by (simp add: r_def)
  then show "r + 76 \<le> 512 * (if 436 < r then 2 else 1)" by simp
  have "512 * q + r \<le> 76 * 4095" using e assms(1) by linarith
  then show "q + (if 436 < r then 2 else 1) \<le> 608" by (auto split: if_splits)
qed

lemma inode_locate_ok:
  assumes "unat no < 4096"
  defines "q \<equiv> 76 * unat no div 512" and "r \<equiv> 76 * unat no mod 512"
  shows "inode_locate p no = Inr \<lparr>two_sec = (436 < r), sec_lba = inode_table_lba (sb p) + of_nat q, off_size = of_nat r\<rparr>"
proof -
  have off: "unat (no * 76) = 76 * unat no" using assms(1) by (subst unat_mult_no_wrap32) simp_all
  have q: "no * 76 div 512 = of_nat q"
  proof -
    have "unat (no * 76 div 512) = q" by (simp add: unat_div off q_def)
    then show ?thesis by (metis of_nat_unat ucast_id)
  qed
  have r: "unat (no * 76 mod 512) = r" by (simp add: unat_mod off r_def)
  then have r': "no * 76 mod 512 = of_nat r" by (metis of_nat_unat ucast_id)
  have "r < 512" by (simp add: r_def)
  then have "unat (512 - no * 76 mod 512) = 512 - r"
    using r by (subst unat_sub_no_wrap32) (simp_all add: word_le_nat_alt)
  then have "512 - no * 76 mod 512 < 76 \<longleftrightarrow> 436 < r" using \<open>r < 512\<close> by (auto simp: word_less_nat_alt)
  moreover have "no < 4096" using assms(1) by (simp add: word_less_nat_alt)
  ultimately show ?thesis by (simp add: inode_locate_def sizeof_inode_def Let_def q r')
qed

text \<open>Reading and writing at an inode's position is reading and patching the table.\<close>

lemma inode_pos_ok:
  assumes ok: "part_ok p" and no: "unat no < 4096" and pos: "inode_locate p no = Inr pos"
  defines "q \<equiv> 76 * unat no div 512"
  shows "sec_lba pos \<le> max_lba" "sec_lba pos \<le> start_lba p + sec_cnt p"
    "sec_lba pos = inode_table_lba (sb p) + of_nat q" "q + pos_sects pos \<le> 608"
    "unat (off_size pos) + 76 \<le> 512 * pos_sects pos" "76 * unat no = 512 * q + unat (off_size pos)"
    "0 < pos_sects pos" "pos_sects pos \<le> 2"
proof -
  define r where "r = 76 * unat no mod 512"
  note pos' = pos [unfolded inode_locate_ok [OF no] sum.inject, folded q_def r_def, symmetric]
  have r: "unat (of_nat r :: u32) = r" by (intro unat_of_nat32) (simp add: r_def less_trans [OF mod_less_divisor])
  have s: "pos_sects pos = (if 436 < r then 2 else 1)" by (simp add: pos_sects_def pos')
  note b = table_bounds [OF no, folded q_def r_def]
  show "q + pos_sects pos \<le> 608" "unat (off_size pos) + 76 \<le> 512 * pos_sects pos"
    "76 * unat no = 512 * q + unat (off_size pos)" "0 < pos_sects pos" "pos_sects pos \<le> 2"
    using b s r by (simp_all add: pos')
  show lba: "sec_lba pos = inode_table_lba (sb p) + of_nat q" by (simp add: pos')
  have "q < 608" using b(1) by (auto split: if_splits)
  moreover have lim: "unat (inode_table_lba (sb p)) + 608 \<le> unat (start_lba p) + unat (sec_cnt p)"
    "unat (start_lba p) + unat (sec_cnt p) \<le> 163840" using ok by (auto simp: part_ok_def)
  ultimately have u: "unat (sec_lba pos) = unat (inode_table_lba (sb p)) + q"
    unfolding lba by (subst unat_add_no_wrap32) (simp_all add: unat_of_nat32)
  show "sec_lba pos \<le> max_lba" "sec_lba pos \<le> start_lba p + sec_cnt p"
    using u lim \<open>q < 608\<close> by (simp_all add: word_le_nat_alt unat_max_lba unat_add_no_wrap32)
qed

lemma inode_region_read:
  assumes ok: "part_ok (cur_part s)" "disk_ok (my_disk s)" and no: "unat no < 4096"
    and pos: "inode_locate (cur_part s) no = Inr pos" and buf: "512 * pos_sects pos \<le> length buf"
  shows "fs_ide_read (sec_lba pos) (pos_sects pos) buf s =
    Inr (sub_buf (512 * (76 * unat no div 512)) (512 * pos_sects pos) (inode_table (cur_part s) (my_disk s))
         @ drop (512 * pos_sects pos) buf, s)"
proof -
  note p = inode_pos_ok [OF ok(1) no pos]
  have "sectors_at (my_disk s) (sec_lba pos) (pos_sects pos) =
      sub_buf (512 * (76 * unat no div 512)) (512 * pos_sects pos) (inode_table (cur_part s) (my_disk s))"
    unfolding inode_table_def p(3) using ok(2) p(4) by (rule sectors_at_sub)
  then show ?thesis using ok(2) p(1,7,8) buf by (subst fs_ide_read_n) auto
qed

lemma inode_region_write:
  assumes ok: "part_ok (cur_part s)" "disk_ok (my_disk s)" and no: "unat no < 4096"
    and pos: "inode_locate (cur_part s) no = Inr pos" and bs: "length bs = 76"
    and buf: "buf = sub_buf (512 * (76 * unat no div 512)) (512 * pos_sects pos) (inode_table (cur_part s) (my_disk s)) @ rest"
  obtains d where "put_bytes (unat (off_size pos)) bs buf = Inr (patch (unat (off_size pos)) bs buf)"
    "fs_ide_write (sec_lba pos) (patch (unat (off_size pos)) bs buf) (pos_sects pos) s = Inr ((), s\<lparr>my_disk := d\<rparr>)"
    "disk_ok d" "inode_table (cur_part s) d = patch (76 * unat no) bs (inode_table (cur_part s) (my_disk s))"
    "\<And>x. \<not> table_sector (cur_part s) x \<Longrightarrow> d x = my_disk s x"
proof -
  let ?p = "cur_part s" and ?q = "76 * unat no div 512" and ?n = "pos_sects pos" and ?o = "unat (off_size pos)"
  let ?T = "inode_table ?p (my_disk s)"
  note p = inode_pos_ok [OF ok(1) no pos]
  have lim: "unat (inode_table_lba (sb ?p)) + 608 \<le> 163840" using ok(1) by (auto simp: part_ok_def)
  have T: "length ?T = 512 * 608" using ok(2) by (simp add: inode_table_def)
  let ?b = "sub_buf (512 * ?q) (512 * ?n) ?T"
  have "512 * ?q + 512 * ?n \<le> 512 * 608" using p(4) by (metis add_mult_distrib2 mult_le_mono2)
  then have len: "length ?b = 512 * ?n" using T by simp
  have lpb: "length (patch ?o bs ?b) = 512 * ?n" using len bs p(5) by (subst length_patch) auto
  have pb: "patch ?o bs buf = patch ?o bs ?b @ rest" using len bs p(5) by (simp add: buf patch_def)
  let ?d = "put_sectors (sec_lba pos) ?n (patch ?o bs buf) (my_disk s)"
  have d: "?d = put_sectors (sec_lba pos) ?n (patch ?o bs ?b) (my_disk s)"
  proof
    fix x
    show "?d x = put_sectors (sec_lba pos) ?n (patch ?o bs ?b) (my_disk s) x"
    proof (cases "unat (x - sec_lba pos) < ?n")
      case True
      then have "512 * unat (x - sec_lba pos) + 512 \<le> 512 * ?n" by linarith
      then show ?thesis using lpb by (simp add: pb put_sectors_def sub_buf_def)
    qed (simp add: put_sectors_def)
  qed
  have "sectors_at (put_sectors (sec_lba pos) ?n (patch ?o bs ?b) (my_disk s)) (inode_table_lba (sb ?p)) 608 =
      patch (512 * ?q) (patch ?o bs ?b) (sectors_at (my_disk s) (inode_table_lba (sb ?p)) 608)"
    unfolding p(3) by (rule sectors_at_put) (use ok(2) p(4) lim lpb in simp_all)
  then have "inode_table ?p ?d = patch (512 * ?q) (patch ?o bs ?b) ?T"
    unfolding d by (simp only: inode_table_def)
  also have "\<dots> = patch (76 * unat no) bs ?T"
    using T p(4,5,6) bs \<open>512 * ?q + 512 * ?n \<le> 512 * 608\<close> by (subst patch_patch_sub) auto
  finally have tab: "inode_table ?p ?d = patch (76 * unat no) bs ?T" .
  have u: "unat (sec_lba pos) = unat (inode_table_lba (sb ?p)) + ?q"
    unfolding p(3) using p(4,7) lim by (subst unat_add_no_wrap32) (simp_all add: unat_of_nat32)
  have "?d x = my_disk s x" if "\<not> table_sector ?p x" for x
    using that u p(4) lim by (intro put_sectors_outside) (auto simp: table_sector_def)
  moreover have "disk_ok ?d" unfolding d using ok(2) lpb by (intro disk_ok_put) simp_all
  moreover have "put_bytes ?o bs buf = Inr (patch ?o bs buf)"
    using len bs p(5) by (simp add: put_bytes_def buf)
  moreover have "fs_ide_write (sec_lba pos) (patch ?o bs buf) ?n s = Inr ((), s\<lparr>my_disk := ?d\<rparr>)"
    using p(1,7,8) lpb by (intro fs_ide_write_n) (auto simp: pb)
  ultimately show ?thesis using tab by (intro that [of ?d])
qed

text \<open>What \<^verbatim>\<open>inode_sync\<close> does to the disk. The index is cut to eight bits.\<close>

definition pure_inode :: "inode \<Rightarrow> inode" where
  "pure_inode i = i\<lparr>i_open_cnts := 0, write_deny := False\<rparr>"

definition sync_slot :: "inode \<Rightarrow> nat" where
  "sync_slot i = unat (i_no i) mod 256"

lemma unat_u8_of_u32: "unat (ucast (w :: u32) :: u8) = unat w mod 256"
  by (simp add: unsigned_ucast_eq take_bit_eq_mod unat_mod)

lemma inode_sync_ok:
  assumes ok: "part_ok (cur_part s)" "disk_ok (my_disk s)" and len: "length (i_sectors i) = 13"
    and buf: "1024 \<le> length io_buf \<or> 512 \<le> length io_buf \<and> 76 * sync_slot i mod 512 \<le> 436"
  obtains b d where "inode_sync i io_buf s = Inr (b, s\<lparr>my_disk := d\<rparr>)" "length b = length io_buf" "disk_ok d"
    "inode_table (cur_part s) d = patch (76 * sync_slot i) (inode_bytes (pure_inode i)) (inode_table (cur_part s) (my_disk s))"
    "\<And>x. \<not> table_sector (cur_part s) x \<Longrightarrow> d x = my_disk s x"
proof -
  let ?p = "cur_part s" and ?no = "ucast (ucast (i_no i) :: u8) :: u32"
  have u: "unat ?no = sync_slot i" by (simp add: sync_slot_def unat_u8_of_u32)
  then have no: "unat ?no < 4096" by (simp add: sync_slot_def less_trans [OF mod_less_divisor])
  obtain pos where pos: "inode_locate ?p ?no = Inr pos" using inode_locate_ok [OF no] by blast
  note p = inode_pos_ok [OF ok(1) no pos]
  have "two_sec pos \<longleftrightarrow> 436 < 76 * sync_slot i mod 512" using pos inode_locate_ok [OF no, of ?p] u by auto
  then have bl: "512 * pos_sects pos \<le> length io_buf" using buf by (auto simp: pos_sects_def)
  let ?b = "sub_buf (512 * (76 * unat ?no div 512)) (512 * pos_sects pos) (inode_table ?p (my_disk s))"
  let ?r = "drop (512 * pos_sects pos) io_buf"
  have bs: "length (inode_bytes (pure_inode i)) = 76" using len by (simp add: pure_inode_def)
  from inode_region_write [OF ok no pos bs refl, of ?r] obtain d where d:
    "put_bytes (unat (off_size pos)) (inode_bytes (pure_inode i)) (?b @ ?r) =
       Inr (patch (unat (off_size pos)) (inode_bytes (pure_inode i)) (?b @ ?r))"
    "fs_ide_write (sec_lba pos) (patch (unat (off_size pos)) (inode_bytes (pure_inode i)) (?b @ ?r)) (pos_sects pos) s =
       Inr ((), s\<lparr>my_disk := d\<rparr>)" "disk_ok d"
    "inode_table ?p d = patch (76 * unat ?no) (inode_bytes (pure_inode i)) (inode_table ?p (my_disk s))"
    "\<And>x. \<not> table_sector ?p x \<Longrightarrow> d x = my_disk s x" by blast
  have "inode_sync i io_buf s = Inr (patch (unat (off_size pos)) (inode_bytes (pure_inode i)) (?b @ ?r), s\<lparr>my_disk := d\<rparr>)"
    using p(2) d(1,2) inode_region_read [OF ok no pos bl]
    by (simp add: inode_sync_def run_simps pos Let_def flip: pure_inode_def)
  moreover have "length (patch (unat (off_size pos)) (inode_bytes (pure_inode i)) (?b @ ?r)) = length io_buf"
  proof -
    have "length (inode_table ?p (my_disk s)) = 512 * 608" using ok(2) by (simp add: inode_table_def)
    moreover have "512 * (76 * unat ?no div 512) + 512 * pos_sects pos \<le> 512 * 608"
      using p(4) by (metis add_mult_distrib2 mult_le_mono2)
    ultimately have "length (?b @ ?r) = length io_buf" using bl by simp
    then show ?thesis using p(5) bs bl by (subst length_patch) simp_all
  qed
  ultimately show ?thesis using d(3,4,5) unfolding u by (rule that)
qed

text \<open>An inode that lies across two sectors of the table needs a buffer of two sectors; one of a single sector is overrun.\<close>

lemma inode_sync_overrun:
  assumes ok: "part_ok (cur_part s)" "disk_ok (my_disk s)"
    and buf: "length io_buf = 512" "436 < 76 * sync_slot i mod 512"
  shows "inode_sync i io_buf s = Inl OutOfBounds"
proof -
  let ?p = "cur_part s" and ?no = "ucast (ucast (i_no i) :: u8) :: u32"
  have u: "unat ?no = sync_slot i" by (simp add: sync_slot_def unat_u8_of_u32)
  then have no: "unat ?no < 4096" by (simp add: sync_slot_def less_trans [OF mod_less_divisor])
  obtain pos where pos: "inode_locate ?p ?no = Inr pos" using inode_locate_ok [OF no] by blast
  note p = inode_pos_ok [OF ok(1) no pos]
  have two: "two_sec pos" using pos inode_locate_ok [OF no, of ?p] u buf(2) by auto
  then have n: "pos_sects pos = 2" by (simp add: pos_sects_def)
  have "fs_ide_read (sec_lba pos) (pos_sects pos) io_buf s = Inl OutOfBounds"
    using p(1) buf(1) ok(2) by (simp add: fs_ide_read_def n disk_read_def put_bytes_def in_range_def word_le_nat_alt)
  then show ?thesis using p(2) by (simp add: inode_sync_def run_simps pos Let_def)
qed

section \<open>The cache of open inodes\<close>

definition heap_ok :: "fstate \<Rightarrow> bool" where
  "heap_ok s \<longleftrightarrow> allocator_ok s \<and> 0 \<notin> set (live s) \<and> distinct (live s) \<and>
     dom (inodes s) \<subseteq> set (live s) \<and> dom (dirs s) \<subseteq> insert (root_dir s) (set (live s))"

definition cache_ok :: "fstate \<Rightarrow> bool" where
  "cache_ok s \<longleftrightarrow> distinct (open_inodes (cur_part s)) \<and>
     (\<forall>a \<in> set (open_inodes (cur_part s)). \<exists>i. inodes s a = Some i \<and> i_open_cnts i \<noteq> 0)"

lemma fresh_not_in_maps:
  assumes "heap_ok s" "a \<notin> set (live s)" "a \<noteq> root_dir s"
  shows "(inodes s)(a := None) = inodes s" "(dirs s)(a := None) = dirs s"
proof -
  have "a \<notin> dom (inodes s)" "a \<notin> dom (dirs s)" using assms by (auto simp: heap_ok_def)
  then show "(inodes s)(a := None) = inodes s" "(dirs s)(a := None) = dirs s" by (auto simp: domIff fun_upd_idem)
qed

text \<open>Two blocks of memory for a call: both are new, and giving them back touches no inode and no directory.\<close>

lemma two_mallocs:
  assumes "heap_ok s" "mem_for 2 s"
  obtains a c where "fs_malloc n s = Inr (a, s\<lparr>mallocs := Suc (mallocs s), live := a # live s\<rparr>)"
    "fs_malloc n' (s\<lparr>mallocs := Suc (mallocs s), live := a # live s\<rparr>) =
       Inr (c, s\<lparr>mallocs := Suc (Suc (mallocs s)), live := c # a # live s\<rparr>)"
    "a \<noteq> 0" "c \<noteq> 0" "a \<noteq> c" "a \<notin> set (live s)" "c \<notin> set (live s)"
    "(inodes s)(a := None) = inodes s" "(dirs s)(a := None) = dirs s" "(inodes s)(c := None) = inodes s" "(dirs s)(c := None) = dirs s"
proof -
  have "mem_for (Suc (Suc 0)) s" "allocator_ok s" using assms by (simp_all add: numeral_2_eq_2 heap_ok_def)
  from fs_malloc_ok [OF this(2,1), of n] obtain a where a:
    "fs_malloc n s = Inr (a, s\<lparr>mallocs := Suc (mallocs s), live := a # live s\<rparr>)" "a \<noteq> 0" "a \<notin> set (live s)"
    "a \<noteq> root_dir s" "mem_for (Suc 0) (s\<lparr>mallocs := Suc (mallocs s), live := a # live s\<rparr>)"
    "allocator_ok (s\<lparr>mallocs := Suc (mallocs s), live := a # live s\<rparr>)" by blast
  from fs_malloc_ok [OF a(6,5), of n'] obtain c where c:
    "fs_malloc n' (s\<lparr>mallocs := Suc (mallocs s), live := a # live s\<rparr>) =
       Inr (c, s\<lparr>mallocs := Suc (Suc (mallocs s)), live := c # a # live s\<rparr>)" "c \<noteq> 0"
    "c \<notin> set (a # live s)" "c \<noteq> root_dir s" by auto
  show thesis
    by (rule that [OF a(1) c(1) a(2) c(2)])
      (use a(3,4) c(3,4) fresh_not_in_maps [OF assms(1)] in auto)
qed

text \<open>The address of the cached inode with a number, if there is one.\<close>

definition cached :: "u32 \<Rightarrow> fstate \<Rightarrow> u32 option" where
  "cached no s = find (\<lambda>a. i_no (the (inodes s a)) = no) (open_inodes (cur_part s))"

lemma open_loop_find:
  "\<forall>a \<in> set as. inodes s a \<noteq> None \<Longrightarrow>
     open_loop as no s = Inr (find (\<lambda>a. i_no (the (inodes s a)) = no) as, s)"
  by (induction as) (auto simp: run_simps)

lemma inode_open_cached:
  assumes "cache_ok s" "cached no s = Some a"
  obtains i where "inodes s a = Some i" "i_no i = no" "a \<in> set (open_inodes (cur_part s))" "i_open_cnts i \<noteq> 0"
    "inode_open no s = Inr (a, s\<lparr>inodes := (inodes s)(a \<mapsto> i\<lparr>i_open_cnts := i_open_cnts i + 1\<rparr>)\<rparr>)"
proof -
  have a: "a \<in> set (open_inodes (cur_part s))" "i_no (the (inodes s a)) = no"
    using assms(2) by (auto simp: cached_def find_Some_iff)
  then obtain i where i: "inodes s a = Some i" "i_open_cnts i \<noteq> 0" using assms(1) by (auto simp: cache_ok_def)
  have "open_loop (open_inodes (cur_part s)) no s = Inr (Some a, s)"
    using assms by (subst open_loop_find) (auto simp: cache_ok_def cached_def)
  then show ?thesis using a i by (intro that [of i]) (simp_all add: inode_open_def run_simps)
qed

text \<open>The inode with number \<open>no\<close> as it is stored on the disk.\<close>

definition disk_inode :: "u32 \<Rightarrow> fstate \<Rightarrow> inode" where
  "disk_inode no s = inode_of (sub_buf (76 * unat no) 76 (inode_table (cur_part s) (my_disk s)))"

lemma inode_open_load:
  assumes ok: "part_ok (cur_part s)" "disk_ok (my_disk s)" "cache_ok s" "heap_ok s"
    and no: "unat no < 4096" "cached no s = None"
    and mem: "mem_for (Suc (Suc m)) s"
  obtains a where "a \<noteq> 0" "a \<notin> set (live s)" "a \<noteq> root_dir s"
    "inode_open no s = Inr (a, s\<lparr>mallocs := Suc (Suc (mallocs s)), live := a # live s,
       cur_part := (cur_part s)\<lparr>open_inodes := a # open_inodes (cur_part s)\<rparr>,
       inodes := (inodes s)(a \<mapsto> (disk_inode no s)\<lparr>i_open_cnts := 1\<rparr>)\<rparr>)"
proof -
  let ?p = "cur_part s"
  obtain pos where pos: "inode_locate ?p no = Inr pos" using inode_locate_ok [OF no(1)] by blast
  define q where "q = 76 * unat no div 512"
  note p = inode_pos_ok [OF ok(1) no(1) pos, folded q_def]
  have "allocator_ok s" using ok(4) by (simp add: heap_ok_def)
  from fs_malloc_ok [OF this mem, of sizeof_inode] obtain a where a:
    "fs_malloc sizeof_inode s = Inr (a, s\<lparr>mallocs := Suc (mallocs s), live := a # live s\<rparr>)"
    "a \<noteq> 0" "a \<notin> set (live s)" "a \<noteq> root_dir s" "mem_for (Suc m) (s\<lparr>mallocs := Suc (mallocs s), live := a # live s\<rparr>)"
    "allocator_ok (s\<lparr>mallocs := Suc (mallocs s), live := a # live s\<rparr>)" by blast
  let ?s1 = "\<lambda>b. s\<lparr>mallocs := Suc (Suc (mallocs s)), live := b # a # live s\<rparr>"
  from fs_malloc_ok [OF a(6,5), of "if two_sec pos then 2 * SECTOR_SIZE else SECTOR_SIZE"] obtain b where b:
    "fs_malloc (if two_sec pos then 2 * SECTOR_SIZE else SECTOR_SIZE)
       (s\<lparr>mallocs := Suc (mallocs s), live := a # live s\<rparr>) = Inr (b, ?s1 b)"
    "b \<noteq> 0" "b \<notin> set (a # live s)" "b \<noteq> root_dir s" by auto
  then have bn: "inodes s b = None" "dirs s b = None" using ok(4) by (auto simp: heap_ok_def)
  have loop: "open_loop (open_inodes ?p) no s = Inr (None, s)"
    using ok(3) no(2) by (subst open_loop_find) (auto simp: cache_ok_def cached_def)
  let ?b = "sub_buf (512 * q) (512 * pos_sects pos) (inode_table ?p (my_disk s))"
  have rd: "fs_ide_read (sec_lba pos) (pos_sects pos) (replicate (512 * pos_sects pos) 0) (?s1 b) = Inr (?b, ?s1 b)"
    using inode_region_read [of "?s1 b" no pos "replicate (512 * pos_sects pos) 0", folded q_def] ok no(1) pos by simp
  have T: "length (inode_table ?p (my_disk s)) = 512 * 608" using ok(2) by (simp add: inode_table_def)
  moreover have "512 * q + 512 * pos_sects pos \<le> 512 * 608"
    using p(4) by (metis add_mult_distrib2 mult_le_mono2)
  ultimately have gb: "get_bytes (unat (off_size pos)) (unat sizeof_inode) ?b =
      Inr (sub_buf (76 * unat no) 76 (inode_table ?p (my_disk s)))"
    using p(5,6) by (simp add: get_bytes_def sub_buf_sub_buf sizeof_inode_def)
  have "inode_load no s = Inr (a, s\<lparr>mallocs := Suc (Suc (mallocs s)), live := a # live s,
       cur_part := ?p\<lparr>open_inodes := a # open_inodes ?p\<rparr>,
       inodes := (inodes s)(a \<mapsto> (disk_inode no s)\<lparr>i_open_cnts := 1\<rparr>)\<rparr>)"
    using a(2,3) b(2,3) bn
    by (simp add: inode_load_def run_simps pos a(1) b(1) rd gb heap_buf_def disk_inode_def fun_upd_twist fun_upd_idem)
  then show ?thesis using a(2,3,4) loop by (intro that [of a]) (simp_all add: inode_open_def run_simps)
qed

section \<open>Properties\<close>

lemma length_inode_table: "disk_ok d \<Longrightarrow> length (inode_table p d) = 311296"
  by (simp add: inode_table_def)

lemma disk_inode_patch:
  assumes "disk_ok (my_disk s)" "length (i_sectors i) = 13" "n < 4096" "unat no < 4096"
    and d: "inode_table (cur_part s) d = patch (76 * n) (inode_bytes i) (inode_table (cur_part s) (my_disk s))"
  shows "disk_inode no (s\<lparr>my_disk := d\<rparr>) = (if unat no = n then i else disk_inode no s)"
proof -
  have L: "length (inode_table (cur_part s) (my_disk s)) = 311296" "length (inode_bytes i) = 76"
    using assms(1,2) by (simp_all add: length_inode_table)
  have "sub_buf (76 * n) 76 (patch (76 * n) (inode_bytes i) (inode_table (cur_part s) (my_disk s))) = inode_bytes i"
    using sub_buf_patch_same [of "76 * n" "inode_table (cur_part s) (my_disk s)" "inode_bytes i"] L assms(3) by simp
  moreover have "sub_buf (76 * unat no) 76 (patch (76 * n) (inode_bytes i) (inode_table (cur_part s) (my_disk s))) =
      sub_buf (76 * unat no) 76 (inode_table (cur_part s) (my_disk s))" if "unat no \<noteq> n"
    using that L assms(3,4) by (intro sub_buf_patch_other) auto
  ultimately show ?thesis using inode_of_bytes [OF assms(2), of "[]"] d by (simp add: disk_inode_def)
qed

text \<open>
  C19: an inode written back is the inode read later. \<^verbatim>\<open>inode_sync\<close> of an inode with a number below 256, with
  a buffer of two sectors, stores it with a count of 0 and writable, and \<^verbatim>\<open>inode_open\<close> brings it back with
  its number, size and block addresses, once it has left the cache; every other inode of the table,
  also one that shares a sector with it, and every sector outside the table is as before.
\<close>

theorem inode_sync_open_roundtrip:
  assumes "part_ok (cur_part s)" "disk_ok (my_disk s)" "cache_ok s" "heap_ok s" "mem_for 2 s"
    and "length (i_sectors i) = 13" "unat (i_no i) < 256" "length io_buf = 1024" "cached (i_no i) s = None"
  shows "\<exists>b d. inode_sync i io_buf s = Inr (b, s\<lparr>my_disk := d\<rparr>) \<and>
           (\<exists>a s'. inode_open (i_no i) (s\<lparr>my_disk := d\<rparr>) = Inr (a, s') \<and>
                   inodes s' a = Some (i\<lparr>i_open_cnts := 1, write_deny := False\<rparr>)) \<and>
           (\<forall>no. unat no < 4096 \<and> no \<noteq> i_no i \<longrightarrow> disk_inode no (s\<lparr>my_disk := d\<rparr>) = disk_inode no s) \<and>
           (\<forall>x. \<not> table_sector (cur_part s) x \<longrightarrow> d x = my_disk s x)"
proof -
  have slot: "sync_slot i = unat (i_no i)" using assms(7) by (simp add: sync_slot_def)
  have "1024 \<le> length io_buf \<or> 512 \<le> length io_buf \<and> 76 * sync_slot i mod 512 \<le> 436" using assms(8) by simp
  from inode_sync_ok [OF assms(1,2,6) this] obtain b d where d:
    "inode_sync i io_buf s = Inr (b, s\<lparr>my_disk := d\<rparr>)" "disk_ok d"
    "inode_table (cur_part s) d = patch (76 * sync_slot i) (inode_bytes (pure_inode i)) (inode_table (cur_part s) (my_disk s))"
    "\<And>x. \<not> table_sector (cur_part s) x \<Longrightarrow> d x = my_disk s x" by metis
  let ?s = "s\<lparr>my_disk := d\<rparr>"
  have pl: "length (i_sectors (pure_inode i)) = 13" using assms(6) by (simp add: pure_inode_def)
  have di: "disk_inode no ?s = (if unat no = sync_slot i then pure_inode i else disk_inode no s)" if "unat no < 4096" for no
    using disk_inode_patch [OF assms(2) pl _ that d(3)] slot assms(7) by simp
  have ok: "part_ok (cur_part ?s)" "disk_ok (my_disk ?s)" "cache_ok ?s" "heap_ok ?s" "cached (i_no i) ?s = None"
    "mem_for (Suc (Suc 0)) ?s"
    using assms(1,3,4,5,9) d(2) by (simp_all add: cache_ok_def heap_ok_def mem_for_def cached_def allocator_ok_def)
  have n: "unat (i_no i) < 4096" using assms(7) by simp
  from inode_open_load [OF ok(1-4) n ok(5,6)] obtain a where
    "inode_open (i_no i) ?s = Inr (a, ?s\<lparr>mallocs := Suc (Suc (mallocs ?s)), live := a # live ?s,
       cur_part := (cur_part ?s)\<lparr>open_inodes := a # open_inodes (cur_part ?s)\<rparr>,
       inodes := (inodes ?s)(a \<mapsto> (disk_inode (i_no i) ?s)\<lparr>i_open_cnts := 1\<rparr>)\<rparr>)" by blast
  moreover have "(disk_inode (i_no i) ?s)\<lparr>i_open_cnts := 1\<rparr> = i\<lparr>i_open_cnts := 1, write_deny := False\<rparr>"
    using di [OF n] slot by (simp add: pure_inode_def)
  moreover have "disk_inode no ?s = disk_inode no s" if "unat no < 4096" "no \<noteq> i_no i" for no
    using di [OF that(1)] that(2) slot by (auto dest: unsigned_word_eqI)
  ultimately show ?thesis using d(1,4) by (intro exI [of _ b] exI [of _ d]) auto
qed

definition sample_inode :: "u32 \<Rightarrow> inode" where
  "sample_inode no = \<lparr>i_no = no, i_size = 700, i_open_cnts = 3, write_deny = True,
     i_sectors = 620 # 621 # replicate 11 0\<rparr>"

lemma small_fs_heap: "cache_ok small_fs" "heap_ok small_fs" "cached no small_fs = None"
  using small_fs_ok(3) by (simp_all add: cache_ok_def heap_ok_def cached_def small_fs_def small_part_def)

theorem inode_sync_open_roundtrip_witness:
  "\<exists>b d. inode_sync (sample_inode 6) (replicate 1024 0) small_fs = Inr (b, small_fs\<lparr>my_disk := d\<rparr>) \<and>
     (\<exists>a s'. inode_open 6 (small_fs\<lparr>my_disk := d\<rparr>) = Inr (a, s') \<and> inodes s' a =
        Some \<lparr>i_no = 6, i_size = 700, i_open_cnts = 1, write_deny = False, i_sectors = 620 # 621 # replicate 11 0\<rparr>)"
  using inode_sync_open_roundtrip [OF small_fs_ok(1,2) small_fs_heap(1,2) small_fs_ok(4), of "sample_inode 6" "replicate 1024 0"]
  by (fastforce simp: sample_inode_def small_fs_heap(3))

text \<open>
  C36: the index in \<^verbatim>\<open>inode_sync\<close> is a \<^verbatim>\<open>uint8_t\<close>, although a partition has 4096 inodes: an inode with a number of 256 or
  more is written over the inode whose number is its own modulo 256, and its own place in the
  table keeps what it had.
\<close>

theorem inode_sync_truncates_number:
  assumes "part_ok (cur_part s)" "disk_ok (my_disk s)" "length (i_sectors i) = 13" "length io_buf = 1024"
    and "256 \<le> unat (i_no i)" "unat (i_no i) < 4096"
  shows "\<exists>b d. inode_sync i io_buf s = Inr (b, s\<lparr>my_disk := d\<rparr>) \<and>
           disk_inode (i_no i mod 256) (s\<lparr>my_disk := d\<rparr>) = i\<lparr>i_open_cnts := 0, write_deny := False\<rparr> \<and>
           disk_inode (i_no i) (s\<lparr>my_disk := d\<rparr>) = disk_inode (i_no i) s"
proof -
  have "1024 \<le> length io_buf \<or> 512 \<le> length io_buf \<and> 76 * sync_slot i mod 512 \<le> 436" using assms(4) by simp
  from inode_sync_ok [OF assms(1,2,3) this] obtain b d where d:
    "inode_sync i io_buf s = Inr (b, s\<lparr>my_disk := d\<rparr>)"
    "inode_table (cur_part s) d = patch (76 * sync_slot i) (inode_bytes (pure_inode i)) (inode_table (cur_part s) (my_disk s))"
    by metis
  have pl: "length (i_sectors (pure_inode i)) = 13" using assms(3) by (simp add: pure_inode_def)
  have sl: "sync_slot i < 256" "unat (i_no i mod 256) = sync_slot i" by (simp_all add: sync_slot_def unat_mod)
  then have "disk_inode (i_no i mod 256) (s\<lparr>my_disk := d\<rparr>) = pure_inode i"
    using disk_inode_patch [OF assms(2) pl _ _ d(2), of "i_no i mod 256"] by simp
  moreover have "disk_inode (i_no i) (s\<lparr>my_disk := d\<rparr>) = disk_inode (i_no i) s"
    using disk_inode_patch [OF assms(2) pl _ assms(6) d(2)] sl(1) assms(5) by simp
  ultimately show ?thesis using d(1) by (auto simp: pure_inode_def)
qed

theorem inode_sync_truncates_number_witness:
  "\<exists>b d. inode_sync (sample_inode 261) (replicate 1024 0) small_fs = Inr (b, small_fs\<lparr>my_disk := d\<rparr>) \<and>
     i_no (disk_inode 5 (small_fs\<lparr>my_disk := d\<rparr>)) = 261"
  using inode_sync_truncates_number [OF small_fs_ok(1,2), of "sample_inode 261" "replicate 1024 0"]
  by (fastforce simp: sample_inode_def)

text \<open>
  C35: opening an inode and closing it again leaves the file system as it was: the count of a cached inode is what
  it was, an inode that had to be read from the disk is taken out of the cache and its memory
  given back, and neither the disk nor another inode changes.
\<close>

theorem inode_open_close_restores:
  assumes "part_ok (cur_part s)" "disk_ok (my_disk s)" "cache_ok s" "heap_ok s" "mem_for 2 s" "unat no < 4096"
  shows "\<exists>a s' n. inode_open no s = Inr (a, s') \<and>
           (\<exists>i. inodes s' a = Some i \<and> a \<in> set (open_inodes (cur_part s')) \<and> (cached no s = None \<longrightarrow> i_open_cnts i = 1)) \<and>
           inode_close a s' = Inr ((), s\<lparr>mallocs := n\<rparr>)"
proof (cases "cached no s")
  case (Some a)
  from inode_open_cached [OF assms(3) this] obtain i where i:
    "inodes s a = Some i" "a \<in> set (open_inodes (cur_part s))" "i_open_cnts i \<noteq> 0"
    "inode_open no s = Inr (a, s\<lparr>inodes := (inodes s)(a \<mapsto> i\<lparr>i_open_cnts := i_open_cnts i + 1\<rparr>)\<rparr>)" by metis
  then have "inode_close a (s\<lparr>inodes := (inodes s)(a \<mapsto> i\<lparr>i_open_cnts := i_open_cnts i + 1\<rparr>)\<rparr>) = Inr ((), s\<lparr>mallocs := mallocs s\<rparr>)"
    by (simp add: inode_close_def run_simps fun_upd_idem)
  then show ?thesis using i(2,4) Some
    by (intro exI [of _ a] exI [of _ "s\<lparr>inodes := (inodes s)(a \<mapsto> i\<lparr>i_open_cnts := i_open_cnts i + 1\<rparr>)\<rparr>"]
        exI [of _ "mallocs s"]) simp
next
  case None
  have "mem_for (Suc (Suc 0)) s" using assms(5) by (simp add: numeral_2_eq_2)
  from inode_open_load [OF assms(1-4,6) None this] obtain a where a: "a \<noteq> 0" "a \<notin> set (live s)" "a \<noteq> root_dir s"
    "inode_open no s = Inr (a, s\<lparr>mallocs := Suc (Suc (mallocs s)), live := a # live s,
       cur_part := (cur_part s)\<lparr>open_inodes := a # open_inodes (cur_part s)\<rparr>,
       inodes := (inodes s)(a \<mapsto> (disk_inode no s)\<lparr>i_open_cnts := 1\<rparr>)\<rparr>)" by blast
  let ?s = "s\<lparr>mallocs := Suc (Suc (mallocs s)), live := a # live s,
       cur_part := (cur_part s)\<lparr>open_inodes := a # open_inodes (cur_part s)\<rparr>,
       inodes := (inodes s)(a \<mapsto> (disk_inode no s)\<lparr>i_open_cnts := 1\<rparr>)\<rparr>"
  have "inodes s a = None" "dirs s a = None" using a(2,3) assms(4) by (auto simp: heap_ok_def)
  then have "inode_close a ?s = Inr ((), s\<lparr>mallocs := Suc (Suc (mallocs s))\<rparr>)"
    using a(1) by (simp add: inode_close_def open_list_remove_def run_simps fun_upd_idem)
  then show ?thesis using a(4) None
    by (intro exI [of _ a] exI [of _ ?s] exI [of _ "Suc (Suc (mallocs s))"]) simp
qed

theorem inode_open_close_restores_witness:
  "\<exists>a s' n. inode_open 7 small_fs = Inr (a, s') \<and> a \<in> set (open_inodes (cur_part s')) \<and>
     inode_close a s' = Inr ((), small_fs\<lparr>mallocs := n\<rparr>)"
proof -
  have "unat (7 :: u32) < 4096" by simp
  with inode_open_close_restores [OF small_fs_ok(1,2) small_fs_heap(1,2) small_fs_ok(4), of 7] show ?thesis
    by fastforce
qed

end
