(* ===== verification/Dir.thy ===== *)
theory Dir
  imports Inode
begin

text \<open>
  Directories, \<^verbatim>\<open>fs/dir.c\<close>. A directory's data are sectors of 24-byte entries; an entry whose type is
  \<^verbatim>\<open>FT_UNKNOWN\<close> is free. An entry is copied with the size the superblock gives: the model has no
  result for a superblock whose size is not that of the structure, and the division by a size
  of 0 raises the divide exception, whose handler does not return.
\<close>

section \<open>Opening and closing\<close>

definition open_root_dir :: "unit fsm" where
  "open_root_dir =
     bindS (getS cur_part) (\<lambda>part.
     bindS (inode_open (root_inode_no (sb part))) (\<lambda>a.
     bindS (getS root_dir) (\<lambda>r.
     bindS (get_dir r) (\<lambda>d. set_dir r (d\<lparr>dir_inode := a, dir_pos := 0\<rparr>)))))"

definition dir_open :: "u32 \<Rightarrow> u32 fsm" where
  "dir_open inode_no =
     bindS (fs_malloc sizeof_dir) (\<lambda>pdir.
     bindS (inode_open inode_no) (\<lambda>a.
     if pdir = 0 then liftS (Inl OutOfBounds)
     else
       thenS (set_dir pdir \<lparr>dir_inode = a, dir_pos = 0, dir_buf = replicate 512 0\<rparr>)
       (retS pdir)))"

definition dir_close :: "u32 \<Rightarrow> unit fsm" where
  "dir_close pdir =
     bindS (getS root_dir) (\<lambda>r.
     if pdir = r then retS ()
     else
       bindS (get_dir pdir) (\<lambda>d.
       thenS (inode_close (dir_inode d))
       (fs_free pdir)))"

section \<open>Searching\<close>

text \<open>The addresses of all blocks of an inode, 0 for a block it does not have.\<close>

definition collect_blocks :: "inode \<Rightarrow> u32 list fsm" where
  "collect_blocks i =
     (if i_sectors i ! 12 \<noteq> 0 then
        bindS (read_table (i_sectors i ! 12)) (\<lambda>tab. retS (take 12 (i_sectors i) @ tab))
      else retS (take 12 (i_sectors i) @ replicate 128 0))"

text \<open>The number of entries in a sector, and the entry at an index of a sector's buffer.\<close>

definition entries_per_sec :: "nat fsm" where
  "entries_per_sec =
     bindS (getS (dir_entry_size \<circ> sb \<circ> cur_part)) (\<lambda>des.
     thenS (assertS (des \<noteq> 0))
     (retS (unat (SECTOR_SIZE div des))))"

definition read_entry :: "u32 \<Rightarrow> u8 list \<Rightarrow> nat \<Rightarrow> dir_entry res" where
  "read_entry des buf k =
     (if des = sizeof_dir_entry then mapE dir_entry_of (get_bytes (24 * k) 24 buf) else Inl OutOfBounds)"

definition entry_type :: "u8 list \<Rightarrow> nat \<Rightarrow> u32 res" where
  "entry_type buf k = mapE get32 (get_bytes (24 * k + 20) 4 buf)"

definition entry_ino :: "u8 list \<Rightarrow> nat \<Rightarrow> u32 res" where
  "entry_ino buf k = mapE get32 (get_bytes (24 * k + 16) 4 buf)"

text \<open>The inner loop of \<^verbatim>\<open>search_dir_entry\<close>; \<open>n\<close> entries are left, from index \<open>k\<close> on.\<close>

fun search_sector :: "u8 list \<Rightarrow> u8 list \<Rightarrow> nat \<Rightarrow> nat \<Rightarrow> nat option res" where
  "search_sector name buf 0 k = Inr None"
| "search_sector name buf (Suc n) k =
     bindE (strlen (Some name)) (\<lambda>len.
     bindE (strncmp (Some (drop (24 * k) buf)) (Some name) len) (\<lambda>c.
     if c = 0 then Inr (Some k) else search_sector name buf n (Suc k)))"

fun search_blocks :: "u8 list \<Rightarrow> nat \<Rightarrow> u32 list \<Rightarrow> u8 list \<Rightarrow> dir_entry option fsm" where
  "search_blocks name dir_entry_cnt [] buf = retS None"
| "search_blocks name dir_entry_cnt (b # bs) buf =
     (if b = 0 then search_blocks name dir_entry_cnt bs buf
      else
        bindS (fs_ide_read b 1 buf) (\<lambda>buf.
        bindS (liftS (search_sector name buf dir_entry_cnt 0)) (\<lambda>r.
        case r of
          Some k \<Rightarrow>
            bindS (getS (dir_entry_size \<circ> sb \<circ> cur_part)) (\<lambda>des.
            bindS (liftS (read_entry des buf k)) (\<lambda>e. retS (Some e)))
        | None \<Rightarrow> search_blocks name dir_entry_cnt bs (replicate 512 0))))"

definition search_dir_entry :: "u32 \<Rightarrow> u8 list \<Rightarrow> dir_entry option fsm" where
  "search_dir_entry pdir name =
     bindS (fs_malloc (48 + 512)) (\<lambda>blocks_addr.
     if blocks_addr = 0 then
       thenS (k_print ''search_dir_entry: sys_malloc for all_blocks failed'' [])
       (retS None)
     else
       bindS (get_dir pdir) (\<lambda>d.
       bindS (get_inode (dir_inode d)) (\<lambda>i.
       bindS (collect_blocks i) (\<lambda>all_blocks.
       bindS (fs_malloc SECTOR_SIZE) (\<lambda>buf_addr.
       bindS entries_per_sec (\<lambda>dir_entry_cnt.
       bindS (heap_buf buf_addr 512) (\<lambda>buf.
       bindS (search_blocks name dir_entry_cnt all_blocks buf) (\<lambda>found.
       thenS (fs_free buf_addr) (
       thenS (fs_free blocks_addr)
       (retS found))))))))))"

section \<open>Adding an entry\<close>

definition create_dir_entry :: "u8 list \<Rightarrow> u32 \<Rightarrow> u32 \<Rightarrow> dir_entry \<Rightarrow> dir_entry res" where
  "create_dir_entry name inode_no file_type p_de =
     bindE (strlen (Some name)) (\<lambda>len.
     bindE (ASSERT (len \<le> MAX_FILE_NAME_LEN)) (\<lambda>_.
     bindE (memcpy (Some (filename p_de)) (Some name) len) (\<lambda>fn.
     Inr (p_de\<lparr>filename := fn, de_i_no := inode_no, f_type := file_type\<rparr>))))"

definition blank_entry :: dir_entry where
  "blank_entry = \<lparr>filename = replicate 16 0, de_i_no = 0, f_type = 0\<rparr>"

definition alloc_and_sync :: "u32 \<Rightarrow> unit fsm" where
  "alloc_and_sync block_lba =
     bindS (getS cur_part) (\<lambda>part.
     let block_bitmap_idx = block_lba - data_start_lba (sb part) in
     thenS (assertS (block_bitmap_idx \<noteq> -1))
     (bitmap_sync block_bitmap_idx BLOCK_BITMAP))"

definition set_sector :: "u32 \<Rightarrow> nat \<Rightarrow> u32 \<Rightarrow> unit fsm" where
  "set_sector a k lba = bindS (get_inode a) (\<lambda>i. set_inode a (i\<lparr>i_sectors := (i_sectors i)[k := lba]\<rparr>))"

text \<open>
  The part of \<^verbatim>\<open>sync_dir_entry\<close> that gives a directory the block \<open>block_idx\<close> it does not have: the
  table of its blocks afterwards, or \<open>None\<close> when no block is left.
\<close>

definition new_dir_block :: "u32 \<Rightarrow> nat \<Rightarrow> u32 list \<Rightarrow> u32 list option fsm" where
  "new_dir_block a block_idx all_blocks =
     bindS block_bitmap_alloc (\<lambda>block_lba.
     if block_lba = -1 then
       thenS (k_print ''alloc block bitmap for sync_dir_entry failed'' [])
       (retS None)
     else
       thenS (alloc_and_sync block_lba) (
       if block_idx < 12 then
         thenS (set_sector a block_idx block_lba)
         (retS (Some (all_blocks[block_idx := block_lba])))
       else if block_idx = 12 then
         thenS (set_sector a 12 block_lba) (
         bindS block_bitmap_alloc (\<lambda>lba0.
         if lba0 = -1 then
           bindS (getS cur_part) (\<lambda>part.
           thenS (block_bit_clear (block_lba - data_start_lba (sb part))) (
           thenS (set_sector a 12 0) (
           thenS (k_print ''alloc block bitmap for sync_dir_entry failed'' [])
           (retS None))))
         else
           thenS (alloc_and_sync lba0) (
           let all_blocks = all_blocks[12 := lba0] in
           thenS (fs_ide_write block_lba (le32s (drop 12 all_blocks)) 1)
           (retS (Some all_blocks)))))
       else
         let all_blocks = all_blocks[block_idx := block_lba] in
         bindS (get_inode a) (\<lambda>i.
         thenS (fs_ide_write (i_sectors i ! 12) (le32s (drop 12 all_blocks)) 1)
         (retS (Some all_blocks)))))"

fun free_entry :: "u8 list \<Rightarrow> nat \<Rightarrow> nat \<Rightarrow> nat option res" where
  "free_entry buf 0 k = Inr None"
| "free_entry buf (Suc n) k =
     bindE (entry_type buf k) (\<lambda>t. if t = FT_UNKNOWN then Inr (Some k) else free_entry buf n (Suc k))"

definition grow_dir :: "u32 \<Rightarrow> unit fsm" where
  "grow_dir a =
     bindS (getS (dir_entry_size \<circ> sb \<circ> cur_part)) (\<lambda>des.
     bindS (get_inode a) (\<lambda>i. set_inode a (i\<lparr>i_size := i_size i + des\<rparr>)))"

function sync_blocks :: "u32 \<Rightarrow> dir_entry \<Rightarrow> nat \<Rightarrow> u32 list \<Rightarrow> nat \<Rightarrow> u8 list \<Rightarrow> bool fsm" where
  "sync_blocks a p_de per_sec all_blocks block_idx io_buf =
     (if block_idx < 140 then
        if all_blocks ! block_idx = 0 then
          bindS (new_dir_block a block_idx all_blocks) (\<lambda>r.
          case r of
            None \<Rightarrow> retS False
          | Some all_blocks \<Rightarrow>
              bindS (liftS (put_bytes 0 (replicate 512 0) io_buf)) (\<lambda>io_buf.
              bindS (liftS (put_bytes 0 (dir_entry_bytes p_de) io_buf)) (\<lambda>io_buf.
              thenS (fs_ide_write (all_blocks ! block_idx) io_buf 1) (
              thenS (grow_dir a)
              (retS True)))))
        else
          bindS (fs_ide_read (all_blocks ! block_idx) 1 io_buf) (\<lambda>io_buf.
          bindS (liftS (free_entry io_buf per_sec 0)) (\<lambda>r.
          case r of
            Some k \<Rightarrow>
              bindS (liftS (put_bytes (24 * k) (dir_entry_bytes p_de) io_buf)) (\<lambda>io_buf.
              thenS (fs_ide_write (all_blocks ! block_idx) io_buf 1) (
              thenS (grow_dir a)
              (retS True)))
          | None \<Rightarrow> sync_blocks a p_de per_sec all_blocks (Suc block_idx) io_buf))
      else
        thenS (k_print ''directory is full!'' [])
        (retS False))"
  by pat_completeness auto
termination
  by (relation "measure (\<lambda>(a, e, n, bs, i, b). 140 - i)") auto

text \<open>
  The array of block addresses has the direct blocks only: the table of the indirect ones is
  not read, and counts as empty.
\<close>

definition sync_dir_entry :: "u32 \<Rightarrow> dir_entry \<Rightarrow> u8 list \<Rightarrow> bool fsm" where
  "sync_dir_entry parent_dir p_de io_buf =
     bindS (get_dir parent_dir) (\<lambda>d.
     bindS (get_inode (dir_inode d)) (\<lambda>i.
     bindS (getS (dir_entry_size \<circ> sb \<circ> cur_part)) (\<lambda>des.
     thenS (assertS (des \<noteq> 0)) (
     thenS (assertS (i_size i mod des = 0)) (
     thenS (if des = sizeof_dir_entry then retS () else liftS (Inl OutOfBounds)) (
     bindS entries_per_sec (\<lambda>per_sec.
     sync_blocks (dir_inode d) p_de per_sec (take 12 (i_sectors i) @ replicate 128 0) 0 io_buf)))))))"

declare sync_blocks.simps [simp del]

section \<open>Deleting an entry\<close>

text \<open>The scan of a sector: whether it has the entry \<^verbatim>\<open>.\<close>, its other entries, and where the inode is.\<close>

fun delete_scan :: "u8 list \<Rightarrow> u32 \<Rightarrow> nat \<Rightarrow> nat \<Rightarrow> bool \<times> nat \<times> nat option \<Rightarrow> (bool \<times> nat \<times> nat option) res" where
  "delete_scan buf inode_no 0 k r = Inr r"
| "delete_scan buf inode_no (Suc n) k (is_first, cnt, found) =
     bindE (entry_type buf k) (\<lambda>t.
     if t \<noteq> FT_UNKNOWN then
       bindE (strncmp (Some (drop (24 * k) buf)) (Some (str ''.'' @ [0])) 1) (\<lambda>dot.
       if dot = 0 then delete_scan buf inode_no n (Suc k) (True, cnt, found)
       else
         bindE (strncmp (Some (drop (24 * k) buf)) (Some (str ''..'' @ [0])) 2) (\<lambda>dotdot.
         if dotdot \<noteq> 0 then
           bindE (entry_ino buf k) (\<lambda>no.
           if no = inode_no then
             bindE (ASSERT (found = None)) (\<lambda>_. delete_scan buf inode_no n (Suc k) (is_first, cnt + 1, Some k))
           else delete_scan buf inode_no n (Suc k) (is_first, cnt + 1, found))
         else delete_scan buf inode_no n (Suc k) (is_first, cnt, found)))
     else delete_scan buf inode_no n (Suc k) (is_first, cnt, found))"

text \<open>
  What happens once the entry is found in block \<open>block_idx\<close>, the only one in it. The loop that counts the
  indirect blocks runs while \<^verbatim>\<open>indirect_block_idx\<close> is below 140, and nothing in it changes that index: a loop that may
  not end, whose result is \<open>None\<close> when it does not.
\<close>

partial_function (option) count_indirect :: "u32 list \<Rightarrow> u32 \<Rightarrow> u32 \<Rightarrow> u32 option" where
  "count_indirect all_blocks indirect_block_idx indirect_blocks =
     (if indirect_block_idx < 140 then
        if all_blocks ! unat indirect_block_idx \<noteq> 0
        then count_indirect all_blocks indirect_block_idx (indirect_blocks + 1)
        else count_indirect all_blocks indirect_block_idx indirect_blocks
      else Some indirect_blocks)"

definition drop_indirect :: "u32 \<Rightarrow> nat \<Rightarrow> u32 list \<Rightarrow> unit fsm" where
  "drop_indirect a block_idx all_blocks =
     (case count_indirect all_blocks 12 0 of
        None \<Rightarrow> liftS (Inl Diverges)
      | Some indirect_blocks \<Rightarrow>
          thenS (assertS (indirect_blocks \<ge> 1)) (
          bindS (get_inode a) (\<lambda>i.
          if indirect_blocks > 1 then
            fs_ide_write (i_sectors i ! 12) (le32s (drop 12 (all_blocks[block_idx := 0]))) 1
          else
            bindS (getS cur_part) (\<lambda>part.
            let block_bitmap_idx = i_sectors i ! 12 - data_start_lba (sb part) in
            thenS (block_bit_clear block_bitmap_idx) (
            thenS (bitmap_sync block_bitmap_idx BLOCK_BITMAP)
            (set_sector a 12 0))))))"

definition drop_dir_block :: "u32 \<Rightarrow> nat \<Rightarrow> u32 list \<Rightarrow> unit fsm" where
  "drop_dir_block a block_idx all_blocks =
     bindS (getS cur_part) (\<lambda>part.
     let block_bitmap_idx = all_blocks ! block_idx - data_start_lba (sb part) in
     thenS (block_bit_clear block_bitmap_idx) (
     thenS (bitmap_sync block_bitmap_idx BLOCK_BITMAP) (
     if block_idx < 12 then set_sector a block_idx 0 else drop_indirect a block_idx all_blocks)))"

function delete_blocks :: "u32 \<Rightarrow> u32 \<Rightarrow> nat \<Rightarrow> nat \<Rightarrow> u32 list \<Rightarrow> u8 list \<Rightarrow> bool fsm" where
  "delete_blocks a inode_no per_sec block_idx all_blocks io_buf =
     (if block_idx < 140 then
        if all_blocks ! block_idx = 0 then delete_blocks a inode_no per_sec (Suc block_idx) all_blocks io_buf
        else
          bindS (liftS (put_bytes 0 (replicate 512 0) io_buf)) (\<lambda>io_buf.
          bindS (fs_ide_read (all_blocks ! block_idx) 1 io_buf) (\<lambda>io_buf.
          bindS (liftS (delete_scan io_buf inode_no per_sec 0 (False, 0, None))) (\<lambda>(is_first, cnt, found).
          case found of
            None \<Rightarrow> delete_blocks a inode_no per_sec (Suc block_idx) all_blocks io_buf
          | Some k \<Rightarrow>
              thenS (assertS (cnt \<ge> 1)) (
              thenS (if cnt = 1 \<and> \<not> is_first then drop_dir_block a block_idx all_blocks
                     else
                       bindS (liftS (put_bytes (24 * k) (replicate 24 0) io_buf)) (\<lambda>io_buf.
                       fs_ide_write (all_blocks ! block_idx) io_buf 1)) (
              bindS (getS (dir_entry_size \<circ> sb \<circ> cur_part)) (\<lambda>des.
              bindS (get_inode a) (\<lambda>i.
              thenS (assertS (i_size i \<ge> des)) (
              thenS (set_inode a (i\<lparr>i_size := i_size i - des\<rparr>)) (
              bindS (liftS (put_bytes 0 (replicate 1024 0) io_buf)) (\<lambda>io_buf.
              bindS (inode_sync (i\<lparr>i_size := i_size i - des\<rparr>) io_buf) (\<lambda>_.
              retS True)))))))))))
      else retS False)"
  by pat_completeness auto
termination
  by (relation "measure (\<lambda>(a, n, per, i, bs, b). 140 - i)") auto

declare delete_blocks.simps [simp del]

definition delete_dir_entry :: "u32 \<Rightarrow> u32 \<Rightarrow> u8 list \<Rightarrow> bool fsm" where
  "delete_dir_entry pdir inode_no io_buf =
     bindS (get_dir pdir) (\<lambda>d.
     bindS (get_inode (dir_inode d)) (\<lambda>i.
     bindS (collect_blocks i) (\<lambda>all_blocks.
     bindS entries_per_sec (\<lambda>per_sec.
     bindS (getS (dir_entry_size \<circ> sb \<circ> cur_part)) (\<lambda>des.
     thenS (if des = sizeof_dir_entry then retS () else liftS (Inl OutOfBounds))
     (delete_blocks (dir_inode d) inode_no per_sec 0 all_blocks io_buf))))))"

section \<open>Reading a directory\<close>

text \<open>The entries of a sector: the index of the entry to return, or the position after the last one.\<close>

fun read_sector :: "u8 list \<Rightarrow> u32 \<Rightarrow> u32 \<Rightarrow> nat \<Rightarrow> nat \<Rightarrow> u32 \<Rightarrow> (nat option \<times> u32) res" where
  "read_sector buf des pos 0 k cur_pos = Inr (None, cur_pos)"
| "read_sector buf des pos (Suc n) k cur_pos =
     bindE (entry_type buf k) (\<lambda>t.
     if t \<noteq> 0 then
       if cur_pos < pos then read_sector buf des pos n (Suc k) (cur_pos + des)
       else bindE (ASSERT (cur_pos = pos)) (\<lambda>_. Inr (Some k, cur_pos))
     else read_sector buf des pos n (Suc k) cur_pos)"

fun read_blocks :: "u32 \<Rightarrow> nat \<Rightarrow> u32 list \<Rightarrow> u32 \<Rightarrow> nat option fsm" where
  "read_blocks dirp per_sec [] cur_pos = retS None"
| "read_blocks dirp per_sec (b # bs) cur_pos =
     bindS (get_dir dirp) (\<lambda>d.
     bindS (get_inode (dir_inode d)) (\<lambda>i.
     if dir_pos d \<ge> i_size i then retS None
     else if b = 0 then read_blocks dirp per_sec bs cur_pos
     else
       bindS (fs_ide_read b 1 (replicate 512 0)) (\<lambda>buf.
       bindS (getS (dir_entry_size \<circ> sb \<circ> cur_part)) (\<lambda>des.
       thenS (set_dir dirp (d\<lparr>dir_buf := buf\<rparr>)) (
       bindS (liftS (read_sector buf des (dir_pos d) per_sec 0 cur_pos)) (\<lambda>(found, cur_pos).
       case found of
         Some k \<Rightarrow>
           thenS (set_dir dirp (d\<lparr>dir_buf := buf, dir_pos := dir_pos d + des\<rparr>))
           (retS (Some k))
       | None \<Rightarrow> read_blocks dirp per_sec bs cur_pos))))))"

text \<open>The result is the index in \<^verbatim>\<open>dir_buf\<close> of the entry returned, \<open>None\<close> for \<^verbatim>\<open>NULL\<close>.\<close>

definition dir_read :: "u32 \<Rightarrow> nat option fsm" where
  "dir_read dirp =
     bindS (get_dir dirp) (\<lambda>d.
     bindS (get_inode (dir_inode d)) (\<lambda>i.
     bindS (collect_blocks i) (\<lambda>all_blocks.
     bindS entries_per_sec (\<lambda>per_sec.
     let block_cnt = (if i_sectors i ! 12 \<noteq> 0 then 140 else 12) in
     read_blocks dirp per_sec (take block_cnt all_blocks) 0))))"

definition dir_is_empty :: "u32 \<Rightarrow> bool fsm" where
  "dir_is_empty dirp =
     bindS (get_dir dirp) (\<lambda>d.
     bindS (get_inode (dir_inode d)) (\<lambda>i.
     bindS (getS (dir_entry_size \<circ> sb \<circ> cur_part)) (\<lambda>des.
     retS (i_size i = des * 2))))"

definition dir_remove :: "u32 \<Rightarrow> u32 \<Rightarrow> u32 fsm" where
  "dir_remove parent_dir child_dir =
     bindS (get_dir child_dir) (\<lambda>d.
     bindS (get_inode (dir_inode d)) (\<lambda>child_dir_inode.
     thenS (assertS (\<forall>block_idx \<in> {1..<13}. i_sectors child_dir_inode ! block_idx = 0)) (
     bindS (fs_malloc (SECTOR_SIZE * 2)) (\<lambda>buf_addr.
     if buf_addr = 0 then
       thenS (k_print ''dir_remove: malloc for io_buf failed'' [])
       (retS (-1))
     else
       bindS (heap_buf buf_addr 1024) (\<lambda>io_buf.
       bindS (delete_dir_entry parent_dir (i_no child_dir_inode) io_buf) (\<lambda>_.
       thenS (inode_release (i_no child_dir_inode)) (
       thenS (fs_free buf_addr)
       (retS 0))))))))"

end
