(* ===== verification/File.thy ===== *)
theory File
  imports Dir
begin

text \<open>
  The second part of \<^verbatim>\<open>fs/file.c\<close>: creating, opening, closing, writing and reading a file. A
  \<^verbatim>\<open>struct file*\<close> is the index of its entry in \<^verbatim>\<open>file_table\<close>. Writing always appends: the
  position of the file is not consulted. \<^verbatim>\<open>size_left\<close> is \<^verbatim>\<open>count - bytes_written\<close> throughout, and is not
  kept. The bytes a read stores at the caller's buffer are part of its result.
\<close>

section \<open>Entries of the file table\<close>

definition get_file :: "nat \<Rightarrow> file_struct fsm" where
  "get_file k = bindS (getS file_table) (\<lambda>tab. liftS (read_at tab k))"

definition set_file :: "nat \<Rightarrow> file_struct \<Rightarrow> unit fsm" where
  "set_file k f = bindS (getS file_table) (\<lambda>tab.
     bindS (liftS (write_at tab k f)) (\<lambda>tab. updS (\<lambda>s. s\<lparr>file_table := tab\<rparr>)))"

definition O_WRONLY :: u8 where "O_WRONLY = 1"
definition O_RDWR :: u8 where "O_RDWR = 2"
definition O_CREAT :: u8 where "O_CREAT = 4"

section \<open>Creating, opening and closing\<close>

text \<open>The labelled end of \<^verbatim>\<open>file_create\<close>, and its steps once the slot in the file table is taken.\<close>

definition create_rollback :: "nat \<Rightarrow> u32 \<Rightarrow> u32 \<Rightarrow> u32 \<Rightarrow> u32 \<Rightarrow> u32 fsm" where
  "create_rollback rollback_step fd_idx new_file_inode inode_no io_addr =
     thenS (if rollback_step = 3 then set_file (unat fd_idx) \<lparr>fd_pos = 0, fd_flag = 0, fd_inode = 0\<rparr> else retS ()) (
     thenS (if rollback_step \<ge> 2 then fs_free new_file_inode else retS ()) (
     thenS (inode_bit_clear inode_no) (
     thenS (fs_free io_addr)
     (retS (-1)))))"

definition create_commit :: "u32 \<Rightarrow> u8 list \<Rightarrow> u32 \<Rightarrow> u32 \<Rightarrow> u32 \<Rightarrow> u32 \<Rightarrow> u32 fsm" where
  "create_commit parent_dir fname fd_idx new_file_inode inode_no io_addr =
     bindS (liftS (create_dir_entry fname inode_no FT_REGULAR blank_entry)) (\<lambda>new_dir_entry.
     bindS (sync_dir_entry parent_dir new_dir_entry (replicate 1024 0)) (\<lambda>ok.
     if \<not> ok then
       thenS (k_print ''sync dir_entry to disk failed'' [])
       (create_rollback 3 fd_idx new_file_inode inode_no io_addr)
     else
       bindS (get_dir parent_dir) (\<lambda>d.
       bindS (get_inode (dir_inode d)) (\<lambda>pi.
       bindS (inode_sync pi (replicate 1024 0)) (\<lambda>_.
       bindS (get_inode new_file_inode) (\<lambda>ni.
       bindS (inode_sync ni (replicate 1024 0)) (\<lambda>_.
       thenS (bitmap_sync inode_no INODE_BITMAP) (
       thenS (upd_part (\<lambda>p. p\<lparr>open_inodes := new_file_inode # open_inodes p\<rparr>)) (
       thenS (set_inode new_file_inode (ni\<lparr>i_open_cnts := 1\<rparr>)) (
       thenS (fs_free io_addr)
       (pcb_fd_install fd_idx)))))))))))"

definition file_create :: "u32 \<Rightarrow> u8 list \<Rightarrow> u8 \<Rightarrow> u32 fsm" where
  "file_create parent_dir fname flag =
     bindS (fs_malloc 1024) (\<lambda>io_addr.
     if io_addr = 0 then
       thenS (k_print ''in file_creat: sys_malloc for io_buf failed'' []) (retS (-1))
     else
       bindS inode_bitmap_alloc (\<lambda>inode_no.
       if inode_no = -1 then
         thenS (k_print ''in file_creat: allocate inode failed'' []) (retS (-1))
       else
         bindS (fs_malloc sizeof_inode) (\<lambda>new_file_inode.
         if new_file_inode = 0 then
           thenS (k_print ''file_create: sys_malloc for inode failded'' [])
           (create_rollback 1 0 new_file_inode inode_no io_addr)
         else
           thenS (set_inode new_file_inode (inode_init inode_no)) (
           bindS get_free_slot_in_global (\<lambda>fd_idx.
           if fd_idx = -1 then
             thenS (k_print ''exceed max open files'' [])
             (create_rollback 2 0 new_file_inode inode_no io_addr)
           else
             thenS (set_file (unat fd_idx) \<lparr>fd_pos = 0, fd_flag = ucast flag, fd_inode = new_file_inode\<rparr>)
             (create_commit parent_dir fname fd_idx new_file_inode inode_no io_addr))))))"

definition file_open :: "u32 \<Rightarrow> u8 \<Rightarrow> u32 fsm" where
  "file_open inode_no flag =
     bindS get_free_slot_in_global (\<lambda>fd_idx.
     if fd_idx = -1 then
       thenS (k_print ''exceed max open files'' []) (retS (-1))
     else
       bindS (inode_open inode_no) (\<lambda>a.
       thenS (set_file (unat fd_idx) \<lparr>fd_pos = 0, fd_flag = ucast flag, fd_inode = a\<rparr>) (
       if flag AND O_WRONLY \<noteq> 0 \<or> flag AND O_RDWR \<noteq> 0 then
         bindS (get_inode a) (\<lambda>i.
         if \<not> write_deny i then
           thenS (set_inode a (i\<lparr>write_deny := True\<rparr>))
           (pcb_fd_install fd_idx)
         else
           thenS (k_print ''file can't be write now, try again later'' []) (retS (-1)))
       else pcb_fd_install fd_idx)))"

definition file_close :: "nat option \<Rightarrow> u32 fsm" where
  "file_close fl =
     (case fl of
        None \<Rightarrow> retS (-1)
      | Some k \<Rightarrow>
          bindS (get_file k) (\<lambda>f.
          bindS (get_inode (fd_inode f)) (\<lambda>i.
          thenS (set_inode (fd_inode f) (i\<lparr>write_deny := False\<rparr>)) (
          thenS (inode_close (fd_inode f)) (
          thenS (set_file k (f\<lparr>fd_inode := 0\<rparr>))
          (retS 0))))))"

section \<open>Writing\<close>

text \<open>A block for the file that has none, and the loops that add the blocks \<open>block_idx\<close> to \<open>will - 1\<close>.\<close>

definition first_block :: "u32 \<Rightarrow> bool fsm" where
  "first_block a =
     bindS (get_inode a) (\<lambda>i.
     if i_sectors i ! 0 = 0 then
       bindS block_bitmap_alloc (\<lambda>block_lba.
       if block_lba = -1 then
         thenS (k_print ''file_write: block_bitmap_alloc failed'' []) (retS False)
       else
         thenS (set_sector a 0 block_lba) (
         bindS (getS cur_part) (\<lambda>part.
         let block_bitmap_idx = block_lba - data_start_lba (sb part) in
         thenS (assertS (block_bitmap_idx \<noteq> 0)) (
         thenS (bitmap_sync block_bitmap_idx BLOCK_BITMAP)
         (retS True)))))
     else retS True)"

text \<open>
  The three loops differ in their message only: below block 12 the address goes into the inode and
  the array, from there on into the array, whose upper part is the table of the indirect blocks.
\<close>

function add_blocks_loop :: "string \<Rightarrow> u32 \<Rightarrow> nat \<Rightarrow> nat \<Rightarrow> u32 list \<Rightarrow> u32 list option fsm" where
  "add_blocks_loop msg a will block_idx all_blocks =
     (if block_idx < will then
        bindS block_bitmap_alloc (\<lambda>block_lba.
        if block_lba = -1 then
          thenS (k_print msg []) (retS None)
        else
          thenS (if block_idx < 12 then
                   bindS (get_inode a) (\<lambda>i.
                   thenS (assertS (i_sectors i ! block_idx = 0))
                   (set_sector a block_idx block_lba))
                 else retS ()) (
          bindS (getS cur_part) (\<lambda>part.
          thenS (bitmap_sync (block_lba - data_start_lba (sb part)) BLOCK_BITMAP)
          (add_blocks_loop msg a will (Suc block_idx) (all_blocks[block_idx := block_lba])))))
      else retS (Some all_blocks))"
  by pat_completeness auto
termination
  by (relation "measure (\<lambda>(m, a, w, i, b). w - i)") auto

declare add_blocks_loop.simps [simp del]

text \<open>Collecting the addresses of the blocks to write, new ones included; \<open>None\<close> when a block is missing.\<close>

definition write_blocks :: "u32 \<Rightarrow> nat \<Rightarrow> nat \<Rightarrow> u32 list option fsm" where
  "write_blocks a has will =
     (let all_blocks = replicate 140 0 in
      bindS (get_inode a) (\<lambda>i.
      if will = has then
        if has \<le> 12 then
          bindS (liftS (read_at (i_sectors i) (has - 1))) (\<lambda>lba.
          retS (Some (all_blocks[has - 1 := lba])))
        else
          thenS (assertS (i_sectors i ! 12 \<noteq> 0)) (
          bindS (read_table (i_sectors i ! 12)) (\<lambda>tab. retS (Some (take 12 all_blocks @ tab))))
      else if will \<le> 12 then
        bindS (liftS (read_at (i_sectors i) (has - 1))) (\<lambda>lba.
        thenS (assertS (lba \<noteq> 0))
        (add_blocks_loop ''file_write: block_bitmap_alloc for situation 1 failed'' a will has
           (all_blocks[has - 1 := lba])))
      else if has \<le> 12 then
        bindS (liftS (read_at (i_sectors i) (has - 1))) (\<lambda>lba.
        bindS block_bitmap_alloc (\<lambda>table_lba.
        if table_lba = -1 then
          thenS (k_print ''file_write: block_bitmap_alloc for situation 2 failed'' []) (retS None)
        else
          thenS (assertS (i_sectors i ! 12 = 0)) (
          thenS (set_sector a 12 table_lba) (
          bindS (add_blocks_loop ''file_write: block_bitmap_alloc for situation 2 failed'' a will has
                   (all_blocks[has - 1 := lba])) (\<lambda>r.
          case r of
            None \<Rightarrow> retS None
          | Some all_blocks \<Rightarrow>
              thenS (fs_ide_write table_lba (le32s (drop 12 all_blocks)) 1)
              (retS (Some all_blocks)))))))
      else
        thenS (assertS (i_sectors i ! 12 \<noteq> 0)) (
        bindS (read_table (i_sectors i ! 12)) (\<lambda>tab.
        bindS (add_blocks_loop ''file_write: block_bitmap_alloc for situation 3 failed'' a will has
                 (take 12 all_blocks @ tab)) (\<lambda>r.
        case r of
          None \<Rightarrow> retS None
        | Some all_blocks \<Rightarrow>
            thenS (fs_ide_write (i_sectors i ! 12) (le32s (drop 12 all_blocks)) 1)
            (retS (Some all_blocks)))))))"

definition chunk_size :: "u32 \<Rightarrow> u32 \<Rightarrow> u32" where
  "chunk_size pos size_left =
     (let sec_left_bytes = BLOCK_SIZE - pos mod BLOCK_SIZE in
      if size_left < sec_left_bytes then size_left else sec_left_bytes)"

lemma chunk_size_pos: "0 < size_left \<Longrightarrow> 0 < unat (chunk_size pos size_left)"
proof -
  have m: "unat (pos mod 512) < 512" by (simp add: unat_mod)
  then have "unat (512 - pos mod 512) = 512 - unat (pos mod 512)"
    by (subst unat_sub_no_wrap32) (simp_all add: word_le_nat_alt)
  then have "0 < unat (512 - pos mod 512)" using m by simp
  moreover assume "0 < size_left"
  then have "0 < unat size_left" by (simp add: word_less_nat_alt)
  ultimately show ?thesis by (simp add: chunk_size_def Let_def BLOCK_SIZE_def SECTOR_SIZE_def)
qed

lemma chunk_size_le: "chunk_size pos size_left \<le> size_left"
  by (auto simp: chunk_size_def Let_def not_less)

lemma chunk_rest: "n < count \<Longrightarrow> unat (count - (n + chunk_size pos (count - n))) < unat (count - n)"
proof -
  assume n: "n < count"
  let ?c = "chunk_size pos (count - n)"
  have "0 < count - n" using n by (simp add: word_neq_0_conv [symmetric])
  then have d: "0 < unat ?c" "unat ?c \<le> unat (count - n)"
    using chunk_size_pos chunk_size_le by (auto simp: word_le_nat_alt)
  have "count - (n + ?c) = (count - n) - ?c" by simp
  also have "unat \<dots> = unat (count - n) - unat ?c" by (rule unat_sub_no_wrap32 [OF chunk_size_le])
  finally show ?thesis using d by simp
qed

function write_loop :: "nat \<Rightarrow> u32 \<Rightarrow> u32 list \<Rightarrow> u8 list \<Rightarrow> u32 \<Rightarrow> u32 \<Rightarrow> bool \<Rightarrow> u8 list \<Rightarrow> u8 list fsm" where
  "write_loop fl a all_blocks src count bytes_written first_write_block io_buf =
     (if bytes_written < count then
        bindS (get_inode a) (\<lambda>i.
        let chunk = chunk_size (i_size i) (count - bytes_written);
            sec_off_bytes = unat (i_size i mod BLOCK_SIZE)
        in
        bindS (liftS (put_bytes 0 (replicate 512 0) io_buf)) (\<lambda>io_buf.
        bindS (liftS (read_at all_blocks (unat (i_size i div BLOCK_SIZE)))) (\<lambda>sec_lba.
        bindS (if first_write_block then fs_ide_read sec_lba 1 io_buf else retS io_buf) (\<lambda>io_buf.
        bindS (liftS (get_bytes 0 (unat chunk) src)) (\<lambda>bs.
        bindS (liftS (put_bytes sec_off_bytes bs io_buf)) (\<lambda>io_buf.
        thenS (fs_ide_write sec_lba io_buf 1) (
        thenS (k_print ''file write at lba 0x%x'' [ArgWord sec_lba]) (
        thenS (set_inode a (i\<lparr>i_size := i_size i + chunk\<rparr>)) (
        bindS (get_file fl) (\<lambda>f.
        thenS (set_file fl (f\<lparr>fd_pos := fd_pos f + chunk\<rparr>))
        (write_loop fl a all_blocks (drop (unat chunk) src) count (bytes_written + chunk) False io_buf)))))))))))
      else retS io_buf)"
  by pat_completeness auto
termination
  by (relation "measure (\<lambda>(fl, a, bs, src, count, n, fst, buf). unat (count - n))") (auto simp: chunk_rest)

declare write_loop.simps [simp del]

definition file_write :: "nat \<Rightarrow> u8 list \<Rightarrow> u32 \<Rightarrow> u32 fsm" where
  "file_write fl buf count =
     bindS (get_file fl) (\<lambda>f.
     bindS (get_inode (fd_inode f)) (\<lambda>i.
     if i_size i + count > BLOCK_SIZE * 140 then
       thenS (k_print ''exceed max file_size 71680 bytes, write file failed'' []) (retS (-1))
     else
       bindS (fs_malloc BLOCK_SIZE) (\<lambda>io_addr.
       if io_addr = 0 then
         thenS (k_print ''file_write: sys_malloc for io_buf failed'' []) (retS (-1))
       else
         bindS (fs_malloc (BLOCK_SIZE + 48)) (\<lambda>blocks_addr.
         if blocks_addr = 0 then
           thenS (k_print ''file_write: sys_malloc for all_blocks failed'' []) (retS (-1))
         else
           bindS (first_block (fd_inode f)) (\<lambda>ok.
           if \<not> ok then retS (-1)
           else
             let file_has_used_blocks = i_size i div BLOCK_SIZE + 1;
                 file_will_use_blocks = (i_size i + count) div BLOCK_SIZE + 1
             in
             thenS (assertS (file_will_use_blocks \<le> 140)) (
             bindS (write_blocks (fd_inode f) (unat file_has_used_blocks) (unat file_will_use_blocks)) (\<lambda>r.
             case r of
               None \<Rightarrow> retS (-1)
             | Some all_blocks \<Rightarrow>
                 thenS (set_file fl (f\<lparr>fd_pos := i_size i - 1\<rparr>)) (
                 bindS (write_loop fl (fd_inode f) all_blocks buf count 0 True (replicate 512 0)) (\<lambda>io_buf.
                 bindS (get_inode (fd_inode f)) (\<lambda>i.
                 bindS (inode_sync i io_buf) (\<lambda>_.
                 thenS (fs_free blocks_addr) (
                 thenS (fs_free io_addr)
                 (retS count)))))))))))))"

section \<open>Reading\<close>

text \<open>The addresses of the blocks from \<open>start\<close> to \<open>end\<close>.\<close>

definition read_file_blocks :: "inode \<Rightarrow> nat \<Rightarrow> nat \<Rightarrow> u32 list fsm" where
  "read_file_blocks i block_read_start_idx block_read_end_idx =
     (let all_blocks = replicate 140 0 in
      if block_read_start_idx = block_read_end_idx then
        if block_read_end_idx < 12 then
          retS (all_blocks[block_read_end_idx := i_sectors i ! block_read_end_idx])
        else
          bindS (read_table (i_sectors i ! 12)) (\<lambda>tab. retS (take 12 all_blocks @ tab))
      else if block_read_end_idx < 12 then
        retS (map (\<lambda>k. if block_read_start_idx \<le> k \<and> k \<le> block_read_end_idx then i_sectors i ! k else 0) [0..<140])
      else if block_read_start_idx < 12 then
        thenS (assertS (i_sectors i ! 12 \<noteq> 0)) (
        bindS (read_table (i_sectors i ! 12)) (\<lambda>tab.
        retS (map (\<lambda>k. if block_read_start_idx \<le> k then i_sectors i ! k else 0) [0..<12] @ tab)))
      else
        thenS (assertS (i_sectors i ! 12 \<noteq> 0)) (
        bindS (read_table (i_sectors i ! 12)) (\<lambda>tab. retS (take 12 all_blocks @ tab))))"

function read_loop :: "nat \<Rightarrow> u32 list \<Rightarrow> u32 \<Rightarrow> u32 \<Rightarrow> u32 \<Rightarrow> u8 list fsm" where
  "read_loop fl all_blocks sz bytes_read io_addr =
     (if bytes_read < sz then
        bindS (get_file fl) (\<lambda>f.
        let chunk = chunk_size (fd_pos f) (sz - bytes_read);
            sec_off_bytes = unat (fd_pos f mod BLOCK_SIZE)
        in
        bindS (liftS (read_at all_blocks (unat (fd_pos f div BLOCK_SIZE)))) (\<lambda>sec_lba.
        thenS (assertS (io_addr \<noteq> 0)) (
        bindS (fs_ide_read sec_lba 1 (replicate 512 0)) (\<lambda>io_buf.
        bindS (liftS (get_bytes sec_off_bytes (unat chunk) io_buf)) (\<lambda>bs.
        thenS (set_file fl (f\<lparr>fd_pos := fd_pos f + chunk\<rparr>)) (
        bindS (read_loop fl all_blocks sz (bytes_read + chunk) io_addr) (\<lambda>rest.
        retS (bs @ rest))))))))
      else retS [])"
  by pat_completeness auto
termination
  by (relation "measure (\<lambda>(fl, bs, sz, n, io). unat (sz - n))") (auto simp: chunk_rest)

declare read_loop.simps [simp del]

definition file_read :: "nat \<Rightarrow> u32 \<Rightarrow> (u32 \<times> u8 list) fsm" where
  "file_read fl count =
     bindS (get_file fl) (\<lambda>f.
     bindS (get_inode (fd_inode f)) (\<lambda>i.
     let beyond = (fd_pos f + count > i_size i);
         sz = (if beyond then i_size i - fd_pos f else count)
     in
     if beyond \<and> sz = 0 then retS (-1, [])
     else
       bindS (fs_malloc BLOCK_SIZE) (\<lambda>io_addr.
       thenS (if io_addr = 0 then k_print ''file_read: sys_malloc for io_buf failed'' [] else retS ()) (
       bindS (fs_malloc (BLOCK_SIZE + 48)) (\<lambda>blocks_addr.
       if blocks_addr = 0 then
         thenS (k_print ''file_read: sys_malloc for all_blocks failed'' []) (retS (-1, []))
       else
         let block_read_start_idx = fd_pos f div BLOCK_SIZE;
             block_read_end_idx = (fd_pos f + sz) div BLOCK_SIZE
         in
         thenS (assertS (block_read_start_idx < 139 \<and> block_read_end_idx < 139)) (
         bindS (read_file_blocks i (unat block_read_start_idx) (unat block_read_end_idx)) (\<lambda>all_blocks.
         bindS (read_loop fl all_blocks sz 0 io_addr) (\<lambda>bs.
         thenS (fs_free blocks_addr) (
         thenS (fs_free io_addr)
         (retS (sz, bs)))))))))))"

end
