(* ===== verification/Fs_Path.thy ===== *)
theory Fs_Path
  imports File
begin

text \<open>
  Path names, from \<^verbatim>\<open>fs/fs.c\<close>: taking the first name off a path, counting the names, and walking
  down the directories. A path is the bytes from its pointer on; it ends with a zero byte. A
  name is copied into an array of 16 bytes without a check: a longer one is a write outside it.
\<close>

section \<open>Splitting a path\<close>

definition SLASH :: u8 where "SLASH = 47"

fun skip_slashes :: "u8 list \<Rightarrow> u8 list res" where
  "skip_slashes [] = Inl OutOfBounds"
| "skip_slashes (c # p) = (if c = SLASH then skip_slashes p else Inr (c # p))"

fun copy_name :: "u8 list \<Rightarrow> u8 list \<Rightarrow> nat \<Rightarrow> (u8 list \<times> u8 list) res" where
  "copy_name [] name_store k = Inl OutOfBounds"
| "copy_name (c # p) name_store k =
     (if c \<noteq> SLASH \<and> c \<noteq> 0 then bindE (write_at name_store k c) (\<lambda>name_store. copy_name p name_store (Suc k))
      else Inr (c # p, name_store))"

definition path_parse :: "u8 list \<Rightarrow> u8 list \<Rightarrow> (u8 list option \<times> u8 list) res" where
  "path_parse pathname name_store =
     bindE (skip_slashes pathname) (\<lambda>p.
     bindE (copy_name p name_store 0) (\<lambda>(p, name_store).
     Inr (if hd p = 0 then None else Some p, name_store)))"

lemma skip_slashes_length: "skip_slashes p = Inr q \<Longrightarrow> length q \<le> length p \<and> q \<noteq> [] \<and> hd q \<noteq> SLASH"
  by (induction p) (auto split: if_splits)

lemma skip_slashes_shorter: "skip_slashes (SLASH # p) = Inr q \<Longrightarrow> length q < length (SLASH # p)"
  using skip_slashes_length [of p q] by simp

lemma copy_name_length:
  "copy_name p b k = Inr (q, b') \<Longrightarrow> length q \<le> length p \<and> q \<noteq> [] \<and> (hd q = SLASH \<or> hd q = 0) \<and> length b' = length b"
proof (induction p b k rule: copy_name.induct)
  case (2 c p b k)
  then show ?case by (cases "c \<noteq> SLASH \<and> c \<noteq> 0") (auto simp: res_simps)
qed simp

lemma copy_name_suffix: "copy_name p b k = Inr (q, b') \<Longrightarrow> \<exists>t. p = t @ q"
proof (induction p b k rule: copy_name.induct)
  case (2 c p b k)
  show ?case
  proof (cases "c \<noteq> SLASH \<and> c \<noteq> 0")
    case True
    with 2 obtain t where "p = t @ q" by (auto simp: res_simps)
    then have "c # p = (c # t) @ q" by simp
    then show ?thesis by blast
  qed (use 2 in auto)
qed simp

lemma path_parse_shorter:
  assumes "path_parse p name = Inr (Some q, name')"
  shows "length q < length p"
proof -
  obtain r where r: "skip_slashes p = Inr r" "copy_name r name 0 = Inr (q, name')" "hd q \<noteq> 0"
    using assms by (auto simp: path_parse_def res_simps split: if_splits)
  from copy_name_length [OF r(2)] r(3) have q: "hd q = SLASH" by auto
  then have "q \<noteq> r" using skip_slashes_length [OF r(1)] by auto
  moreover obtain t where "r = t @ q" using copy_name_suffix [OF r(2)] by blast
  ultimately have "length q < length r" by auto
  then show ?thesis using skip_slashes_length [OF r(1)] by simp
qed

text \<open>
  The loop of \<^verbatim>\<open>path_depth_cnt\<close>. Once the path is used up the cleared name ends it. The name is not
  initialised before the first call.
\<close>

function depth_loop :: "u8 list option \<Rightarrow> u8 list \<Rightarrow> u32 \<Rightarrow> u32 res" where
  "depth_loop p name depth =
     bindE (read_at name 0) (\<lambda>c.
     if c \<noteq> 0 then
       (case p of
          None \<Rightarrow> Inr (depth + 1)
        | Some q \<Rightarrow> bindE (path_parse q (replicate 16 0)) (\<lambda>(p, name). depth_loop p name (depth + 1)))
     else Inr depth)"
  by pat_completeness auto
termination
proof (relation "measure (\<lambda>(p, name, depth). case p of None \<Rightarrow> 0 | Some q \<Rightarrow> Suc (length q))", goal_cases)
  case (2 p name depth c q x p' name')
  then show ?case using path_parse_shorter [of q "replicate 16 0"] by (auto split: option.splits)
qed simp

definition path_depth_cnt :: "u8 list \<Rightarrow> u8 list \<Rightarrow> u32 res" where
  "path_depth_cnt pathname name = bindE (path_parse pathname name) (\<lambda>(p, name). depth_loop p name 0)"

declare depth_loop.simps [simp del]

section \<open>Walking down\<close>

record path_search_record =
  searched_path :: "u8 list"
  parent_dir :: u32
  file_type :: u32

definition blank_record :: path_search_record where
  "blank_record = \<lparr>searched_path = replicate 512 0, parent_dir = 0, file_type = 0\<rparr>"

text \<open>\<^verbatim>\<open>!strncmp(p, "/", 1) || !strncmp(p, "/.", 2) || !strncmp(p, "/..", 3)\<close>.\<close>

definition names_root :: "u8 list \<Rightarrow> bool res" where
  "names_root pathname =
     bindE (strncmp (Some pathname) (Some (str ''/'' @ [0])) 1) (\<lambda>a.
     if a = 0 then Inr True
     else
       bindE (strncmp (Some pathname) (Some (str ''/.'' @ [0])) 2) (\<lambda>b.
       if b = 0 then Inr True
       else bindE (strncmp (Some pathname) (Some (str ''/..'' @ [0])) 3) (\<lambda>c. Inr (c = 0))))"

text \<open>The end of \<^verbatim>\<open>search_file\<close>, when the whole path was walked and a directory was the last.\<close>

definition search_end :: "path_search_record \<Rightarrow> u32 \<Rightarrow> dir_entry option \<Rightarrow> (u32 \<times> path_search_record) fsm" where
  "search_end rec parent_inode_no dir_e =
     thenS (dir_close (parent_dir rec)) (
     bindS (dir_open parent_inode_no) (\<lambda>d.
     bindS (liftS (deref dir_e)) (\<lambda>e.
     retS (de_i_no e, rec\<lparr>parent_dir := d, file_type := FT_DIRECTORY\<rparr>))))"

text \<open>
  The loop of \<^verbatim>\<open>search_file\<close>; \<open>dir_e\<close> is the last entry found, which is not initialised before the
  first one. A path that is used up leaves the name empty, which ends the loop.
\<close>

definition next_name :: "u8 list option \<Rightarrow> (u8 list option \<times> u8 list) fsm" where
  "next_name sub_path =
     (case sub_path of
        None \<Rightarrow> retS (None, replicate 16 0)
      | Some p \<Rightarrow> liftS (path_parse p (replicate 16 0)))"

definition path_left :: "u8 list option \<Rightarrow> nat" where
  "path_left p = (case p of None \<Rightarrow> 0 | Some q \<Rightarrow> Suc (length q))"

lemma next_name_left:
  assumes "next_name p s = Inr ((q, name), s')"
  shows "path_left q < path_left p \<or> path_left q = path_left p \<and> name ! 0 = 0"
  using assms path_parse_shorter
  by (auto simp: next_name_def path_left_def res_simps retS_def split: option.splits)

function search_loop ::
  "u8 list option \<Rightarrow> u8 list \<Rightarrow> path_search_record \<Rightarrow> u32 \<Rightarrow> dir_entry option \<Rightarrow> (u32 \<times> path_search_record) fsm" where
  "search_loop sub_path name rec parent_inode_no dir_e =
     (if name ! 0 \<noteq> 0 then
        bindS (liftS (strlen (Some (searched_path rec)))) (\<lambda>n.
        thenS (assertS (n < 512)) (
        bindS (liftS (strcat (Some (searched_path rec)) (Some (str ''/'' @ [0])))) (\<lambda>sp.
        bindS (liftS (strcat (Some sp) (Some name))) (\<lambda>sp.
        bindS (search_dir_entry (parent_dir rec) name) (\<lambda>found.
        case found of
          None \<Rightarrow> retS (-1, rec\<lparr>searched_path := sp\<rparr>)
        | Some e \<Rightarrow>
            bindS (next_name sub_path) (\<lambda>(sub_path, name).
            if f_type e = FT_DIRECTORY then
              bindS (get_dir (parent_dir rec)) (\<lambda>d.
              bindS (get_inode (dir_inode d)) (\<lambda>i.
              thenS (dir_close (parent_dir rec)) (
              bindS (dir_open (de_i_no e)) (\<lambda>nd.
              search_loop sub_path name (rec\<lparr>searched_path := sp, parent_dir := nd\<rparr>) (i_no i) (Some e)))))
            else if f_type e = FT_REGULAR then
              retS (de_i_no e, rec\<lparr>searched_path := sp, file_type := FT_REGULAR\<rparr>)
            else search_loop sub_path name (rec\<lparr>searched_path := sp\<rparr>) parent_inode_no (Some e)))))))
      else search_end rec parent_inode_no dir_e)"
  by pat_completeness auto

termination
proof (relation "measures [\<lambda>(p, name, r, no, e). path_left p, \<lambda>(p, name, r, no, e). if name ! 0 \<noteq> 0 then 1 else 0]",
    goal_cases)
  case 1
  then show ?case by simp
next
  case 2
  then show ?case using next_name_left by fastforce
next
  case 3
  then show ?case using next_name_left by fastforce
qed

declare search_loop.simps [simp del]

definition search_file :: "u8 list \<Rightarrow> path_search_record \<Rightarrow> (u32 \<times> path_search_record) fsm" where
  "search_file pathname rec =
     bindS (getS root_dir) (\<lambda>root.
     bindS (liftS (names_root pathname)) (\<lambda>r.
     if r then
       bindS (liftS (write_at (searched_path rec) 0 0)) (\<lambda>sp.
       retS (0, rec\<lparr>parent_dir := root, file_type := FT_DIRECTORY, searched_path := sp\<rparr>))
     else
       bindS (liftS (strlen (Some pathname))) (\<lambda>path_len.
       bindS (liftS (read_at pathname 0)) (\<lambda>c.
       thenS (assertS (c = SLASH \<and> path_len > 1 \<and> path_len < MAX_PATH_LEN)) (
       bindS (liftS (path_parse pathname (replicate 16 0))) (\<lambda>(sub_path, name).
       search_loop sub_path name (rec\<lparr>parent_dir := root, file_type := FT_UNKNOWN\<rparr>) 0 None))))))"

section \<open>Names of a path\<close>

text \<open>
  The pieces of a text between separators, empty ones left out, for reference, and the names of a path, which are the pieces between slashes. A path
  can be parsed when none of them is longer than the array for a name.
\<close>

fun split_on :: "u8 \<Rightarrow> u8 list \<Rightarrow> u8 list list" where
  "split_on d [] = [[]]"
| "split_on d (c # t) = (if c = d then [] # split_on d t else (c # hd (split_on d t)) # tl (split_on d t))"

definition pieces :: "u8 \<Rightarrow> u8 list \<Rightarrow> u8 list list" where
  "pieces d t = filter (\<lambda>n. n \<noteq> []) (split_on d t)"

definition path_names :: "u8 list \<Rightarrow> u8 list list" where
  "path_names t = pieces SLASH t"

lemma split_on_ne [simp]: "split_on d t \<noteq> []"
  by (cases t) auto

lemma pieces_skip_one: "pieces d (d # t) = pieces d t"
  by (simp add: pieces_def)

lemma split_on_append: "d \<notin> set n \<Longrightarrow> split_on d (n @ t) = (n @ hd (split_on d t)) # tl (split_on d t)"
  by (induction n) auto

lemma pieces_cons:
  assumes "d \<notin> set n" "n \<noteq> []" "t = [] \<or> hd t = d"
  shows "pieces d (n @ t) = n # pieces d t"
  using assms split_on_append [of d n "[]"] by (cases t) (auto simp: pieces_def split_on_append)

lemma pieces_nil [simp]: "pieces d [] = []"
  by (simp add: pieces_def)

lemma pieces_skip: "pieces d (dropWhile (\<lambda>c. c = d) t) = pieces d t"
  by (induction t) (auto simp: pieces_skip_one)

text \<open>The first piece of a text: separators, the piece, and the rest, which is empty or starts with a separator.\<close>

lemma pieces_split:
  obtains "pieces d t = []" "t = replicate (length t) d"
  | m n t' where "t = replicate m d @ n @ t'" "n \<noteq> []" "d \<notin> set n" "t' = [] \<or> hd t' = d" "pieces d t = n # pieces d t'"
proof (cases "dropWhile (\<lambda>c. c = d) t = []")
  case True
  then have "\<forall>x \<in> set t. x = d" by simp
  then have "t = replicate (length t) d" by (simp add: replicate_length_same)
  moreover from True have "pieces d t = []" using pieces_skip [of d t] pieces_nil by metis
  ultimately show thesis using that(1) by blast
next
  case False
  define q where "q = dropWhile (\<lambda>c. c = d) t"
  define n where "n = takeWhile (\<lambda>c. c \<noteq> d) q"
  define u where "u = dropWhile (\<lambda>c. c \<noteq> d) q"
  have q: "q = n @ u" by (simp add: n_def u_def)
  have "hd q \<noteq> d" "q \<noteq> []" using False hd_dropWhile [of "\<lambda>c. c = d" t] by (auto simp: q_def)
  then have n: "n \<noteq> []" by (cases q) (auto simp: n_def)
  have sf: "d \<notin> set n" unfolding n_def by (blast dest: set_takeWhileD)
  have ht: "u = [] \<or> hd u = d" using hd_dropWhile [of "\<lambda>c. c \<noteq> d" q] by (auto simp: u_def)
  have "pieces d t = pieces d (n @ u)" using pieces_skip [of d t] by (simp add: q [symmetric] q_def)
  also have "\<dots> = n # pieces d u" by (rule pieces_cons [OF sf n ht])
  finally have names: "pieces d t = n # pieces d u" .
  let ?p = "takeWhile (\<lambda>c. c = d) t"
  have "\<forall>x \<in> set ?p. x = d" by (blast dest: set_takeWhileD)
  then have "?p = replicate (length ?p) d" by (simp add: replicate_length_same)
  moreover have "t = ?p @ n @ u" unfolding q [symmetric] q_def by simp
  ultimately have "t = replicate (length ?p) d @ n @ u" by metis
  then show thesis using that(2) n sf ht names by blast
qed

lemma skip_slashes_run: "t = [] \<or> hd t \<noteq> SLASH \<Longrightarrow> skip_slashes (replicate m SLASH @ t @ 0 # r) = Inr (t @ 0 # r)"
  by (induction m; cases t) (auto simp: SLASH_def)

lemma copy_name_run:
  assumes "SLASH \<notin> set n" "nul_free n" "q = SLASH \<or> q = 0" "k + length n \<le> length store"
  shows "copy_name (n @ q # r) store k = Inr (q # r, patch k n store)"
  using assms
proof (induction n arbitrary: store k)
  case Nil
  then show ?case by (auto simp: patch_def)
next
  case (Cons c n)
  then have "c \<noteq> SLASH" "c \<noteq> 0" "SLASH \<notin> set n" "nul_free n" by (auto simp: nul_free_def)
  moreover have "patch (Suc k) n (store[k := c]) = patch k (c # n) store"
    using Cons.prems(4) by (intro nth_equalityI) (auto simp: length_patch nth_patch nth_Cons' nth_list_update)
  ultimately show ?case using Cons by (simp add: write_at_def)
qed

lemma path_parse_none: "path_parse (replicate m SLASH @ 0 # r) store = Inr (None, store)"
  using skip_slashes_run [of "[]" m r] by (simp add: path_parse_def)

lemma path_parse_name:
  assumes "SLASH \<notin> set n" "nul_free n" "n \<noteq> []" "nul_free t'" "t' = [] \<or> hd t' = SLASH" "length n \<le> length store"
  shows "path_parse ((replicate m SLASH @ n @ t') @ 0 # r) store =
           Inr (if t' = [] then None else Some (t' @ 0 # r), patch 0 n store)"
proof -
  have "hd (n @ t') \<noteq> SLASH" using assms(1,3) by (cases n) auto
  then have skip: "skip_slashes (replicate m SLASH @ n @ t' @ 0 # r) = Inr (n @ t' @ 0 # r)"
    using skip_slashes_run [of "n @ t'" m r] by simp
  show ?thesis
  proof (cases t')
    case Nil
    then show ?thesis
      using assms skip copy_name_run [OF assms(1,2), of 0 0 store r] by (simp add: path_parse_def)
  next
    case (Cons c u)
    then have "c = SLASH" "c \<noteq> 0" using assms(4,5) by auto
    then show ?thesis
      using assms Cons skip copy_name_run [OF assms(1,2), of SLASH 0 store "u @ 0 # r"] by (simp add: path_parse_def)
  qed
qed

text \<open>The array of a name after it was parsed: the name, and the bytes behind it.\<close>

lemma name_array:
  assumes "n \<noteq> []" "nul_free n" "length n \<le> length store"
  shows "length (patch 0 n store) = length store" "patch 0 n store ! 0 = n ! 0" "n ! 0 \<noteq> 0"
  using assms by (auto simp: patch_def nth_append length_patch nul_free_def in_set_conv_nth)

lemma depth_loop_run:
  assumes "nul_free t" "\<forall>n \<in> set (path_names t). length n \<le> 16" "length name = 16" "name ! 0 \<noteq> 0"
  shows "depth_loop (if t = [] then None else Some (t @ 0 # r)) name depth = Inr (depth + 1 + of_nat (length (path_names t)))"
  using assms
proof (induction "length t" arbitrary: t name depth rule: less_induct)
  case less
  note d = depth_loop.simps [of _ name depth]
  show ?case
  proof (cases "t = []")
    case True
    then show ?thesis using less.prems by (subst d) (simp add: path_names_def)
  next
    case False
    show ?thesis
    proof (cases rule: pieces_split [of SLASH t])
      case 1
      then have "path_parse (t @ 0 # r) (replicate 16 0) = Inr (None, replicate 16 0)" using path_parse_none by metis
      then show ?thesis
        using False 1(1) less.prems by (subst d) (simp add: path_names_def depth_loop.simps [of None])
    next
      case (2 m n t')
      have nf: "nul_free n" "nul_free t'" using 2(1) less.prems(1) by simp_all
      have len: "length n \<le> length (replicate 16 (0 :: u8))" using less.prems(2) 2(5) by (simp add: path_names_def)
      note name = name_array [OF 2(2) nf(1) len]
      have "path_parse (t @ 0 # r) (replicate 16 0) =
          Inr (if t' = [] then None else Some (t' @ 0 # r), patch 0 n (replicate 16 0))"
        unfolding 2(1) by (rule path_parse_name [OF 2(3) nf(1) 2(2) nf(2) 2(4) len])
      moreover have "length t' < length t" unfolding 2(1) using 2(2) by simp
      then have "depth_loop (if t' = [] then None else Some (t' @ 0 # r)) (patch 0 n (replicate 16 0)) (depth + 1) =
          Inr (depth + 1 + 1 + of_nat (length (path_names t')))"
        using less.prems(2) 2(5) name by (intro less.hyps nf(2)) (simp_all add: path_names_def)
      ultimately show ?thesis
        using False less.prems(3,4) 2(5) by (subst d) (simp add: add.assoc path_names_def)
    qed
  qed
qed

text \<open>
  C26: the depth of a path is the number of the names in it: slashes in a row, at the end or at the beginning do not count. The array for a name
  is not initialised, so that a path without any name has the depth 0 only when the array happens to start with a zero, and 1
  otherwise.
\<close>

theorem path_depth_cnt_counts_names:
  assumes "nul_free t" "\<forall>n \<in> set (path_names t). length n \<le> 16" "length junk = 16"
  shows "path_depth_cnt (t @ 0 # r) junk =
           Inr (if path_names t = [] then (if junk ! 0 = 0 then 0 else 1) else of_nat (length (path_names t)))"
proof (cases rule: pieces_split [of SLASH t])
  case 1
  then have "path_parse (t @ 0 # r) junk = Inr (None, junk)" using path_parse_none by metis
  then show ?thesis using 1(1) assms(3) by (simp add: path_names_def path_depth_cnt_def depth_loop.simps [of None])
next
  case (2 m n t')
  have nf: "nul_free n" "nul_free t'" using 2(1) assms(1) by simp_all
  have len: "length n \<le> length junk" using assms(2,3) 2(5) by (simp add: path_names_def)
  note name = name_array [OF 2(2) nf(1) len]
  have "path_parse (t @ 0 # r) junk = Inr (if t' = [] then None else Some (t' @ 0 # r), patch 0 n junk)"
    unfolding 2(1) by (rule path_parse_name [OF 2(3) nf(1) 2(2) nf(2) 2(4) len])
  moreover have "depth_loop (if t' = [] then None else Some (t' @ 0 # r)) (patch 0 n junk) 0 =
      Inr (0 + 1 + of_nat (length (path_names t')))"
    using assms(2,3) 2(5) name by (intro depth_loop_run nf(2)) (simp_all add: path_names_def)
  ultimately show ?thesis using 2(5) by (simp add: path_depth_cnt_def path_names_def)
qed

theorem path_depth_cnt_counts_names_witness:
  "path_depth_cnt (str ''//a/bc//d/'' @ [0]) (replicate 16 9) = Inr 3"
proof -
  have n: "path_names (str ''//a/bc//d/'') = [str ''a'', str ''bc'', str ''d'']"
    by (simp add: path_names_def pieces_def str_def SLASH_def of_char_def)
  show ?thesis
    using path_depth_cnt_counts_names [of "str ''//a/bc//d/''" "replicate 16 9" "[]"] unfolding n
    by (simp add: str_def nul_free_def of_char_def)
qed

end
