(* ===== verification/Fs.thy ===== *)
theory Fs
  imports Fs_Path
begin

text \<open>
  The system calls of the file system, \<^verbatim>\<open>fs/fs.c\<close>. A result of type \<^verbatim>\<open>int32_t\<close> is the word with its bits,
  so that \<open>-1\<close> is all ones. What goes to the console is logged like a call of \<^verbatim>\<open>printk\<close>.
\<close>

section \<open>Descriptors\<close>

definition sys_open :: "u8 list \<Rightarrow> u8 \<Rightarrow> u32 fsm" where
  "sys_open pathname flags =
     bindS (liftS (strlen (Some pathname))) (\<lambda>len.
     bindS (liftS (read_at pathname (unat (len - 1)))) (\<lambda>c.
     if c = SLASH then
       thenS (k_print ''can`t open a directory %s'' [ArgStr pathname]) (retS (-1))
     else
       thenS (assertS (flags \<le> 7)) (
       bindS (getS stack_junk) (\<lambda>junk.
       bindS (liftS (path_depth_cnt pathname junk)) (\<lambda>pathname_depth.
       bindS (search_file pathname blank_record) (\<lambda>(inode_no, rec).
       let found = (inode_no \<noteq> -1) in
       if file_type rec = FT_DIRECTORY then
         thenS (k_print ''can`t open a direcotry with open(), use opendir() to instead'' []) (
         thenS (dir_close (parent_dir rec)) (retS (-1)))
       else
         bindS (liftS (path_depth_cnt (searched_path rec) junk)) (\<lambda>path_searched_depth.
         if pathname_depth \<noteq> path_searched_depth then
           thenS (k_print ''cannot access %s: Not a directory, subpath %s is`t exist''
                    [ArgStr pathname, ArgStr (searched_path rec)]) (
           thenS (dir_close (parent_dir rec)) (retS (-1)))
         else if \<not> found \<and> flags AND O_CREAT = 0 then
           bindS (liftS (strrchr (Some (searched_path rec)) SLASH)) (\<lambda>k.
           bindS (liftS (deref k)) (\<lambda>k.
           thenS (k_print ''in path %s, file %s is`t exist''
                    [ArgStr (searched_path rec), ArgStr (drop (Suc k) (searched_path rec))]) (
           thenS (dir_close (parent_dir rec)) (retS (-1)))))
         else if found \<and> flags AND O_CREAT \<noteq> 0 then
           thenS (k_print ''%s has already exist!'' [ArgStr pathname]) (
           thenS (dir_close (parent_dir rec)) (retS (-1)))
         else if flags AND O_CREAT = O_CREAT then
           thenS (k_print ''creating file'' []) (
           bindS (liftS (strrchr (Some pathname) SLASH)) (\<lambda>k.
           bindS (liftS (deref k)) (\<lambda>k.
           bindS (file_create (parent_dir rec) (drop (Suc k) pathname) flags) (\<lambda>fd.
           thenS (dir_close (parent_dir rec)) (retS fd)))))
         else file_open inode_no flags)))))))"

definition fd_local_to_global :: "u32 \<Rightarrow> u32 fsm" where
  "fd_local_to_global local_fd =
     bindS (getS fd_table) (\<lambda>tab.
     bindS (liftS (read_at tab (unat local_fd))) (\<lambda>global_fd.
     thenS (assertS (0 \<le>s global_fd \<and> global_fd <s of_nat MAX_FILE_OPEN))
     (retS global_fd)))"

definition sys_close :: "u32 \<Rightarrow> u32 fsm" where
  "sys_close fd =
     (if 2 <s fd then
        bindS (fd_local_to_global fd) (\<lambda>g_fd.
        bindS (file_close (Some (unat g_fd))) (\<lambda>r.
        thenS (updS (\<lambda>s. s\<lparr>fd_table := (fd_table s)[unat fd := -1]\<rparr>))
        (retS r)))
      else retS (-1))"

definition sys_write :: "u32 \<Rightarrow> u8 list \<Rightarrow> u32 \<Rightarrow> u32 fsm" where
  "sys_write fd buf count =
     (if fd <s 0 then
        thenS (k_print ''sys_write: fd error'' []) (retS (-1))
      else if fd = 1 then
        bindS (liftS (memcpy (Some (replicate 1024 0)) (Some buf) count)) (\<lambda>tmp_buf.
        thenS (k_print ''%s'' [ArgStr tmp_buf]) (retS count))
      else
        bindS (fd_local_to_global fd) (\<lambda>g_fd.
        bindS (get_file (unat g_fd)) (\<lambda>wr_file.
        if fd_flag wr_file AND ucast O_WRONLY \<noteq> 0 \<or> fd_flag wr_file AND ucast O_RDWR \<noteq> 0 then
          file_write (unat g_fd) buf count
        else
          thenS (k_print ''sys_write: not allowed to write file without flag O_RDWR or O_WRONLY'' [])
          (retS (-1)))))"

text \<open>\<open>kbd\<close> gives the characters that \<^verbatim>\<open>ioq_getchar\<close> takes from the keyboard, one after the other.\<close>

definition sys_read :: "(nat \<Rightarrow> u8) \<Rightarrow> u32 \<Rightarrow> u32 \<Rightarrow> (u32 \<times> u8 list) fsm" where
  "sys_read kbd fd count =
     (if fd <s 0 \<or> fd = 1 \<or> fd = 2 then
        thenS (k_print ''sys_read: fd error'' []) (retS (-1, []))
      else if fd = 0 then retS (if count = 0 then -1 else count, map kbd [0..<unat count])
      else
        bindS (fd_local_to_global fd) (\<lambda>g_fd.
        file_read (unat g_fd) count))"

definition sys_lseek :: "u32 \<Rightarrow> u32 \<Rightarrow> u8 \<Rightarrow> u32 fsm" where
  "sys_lseek fd offset whence =
     (if fd <s 0 then
        thenS (k_print ''sys_lseek: fd error'' []) (retS (-1))
      else
        thenS (assertS (whence > 0 \<and> whence < 4)) (
        bindS (fd_local_to_global fd) (\<lambda>g_fd.
        bindS (get_file (unat g_fd)) (\<lambda>pf.
        bindS (get_inode (fd_inode pf)) (\<lambda>i.
        let file_size = i_size i;
            new_pos = (if whence = 1 then offset
                       else if whence = 2 then fd_pos pf + offset
                       else file_size + offset)
        in if new_pos <s 0 \<or> file_size - 1 <s new_pos then retS (-1)
           else
             thenS (set_file (unat g_fd) (pf\<lparr>fd_pos := new_pos\<rparr>))
             (retS new_pos))))))"

section \<open>Deleting and creating\<close>

fun file_in_use :: "u32 \<Rightarrow> file_struct list \<Rightarrow> bool fsm" where
  "file_in_use inode_no [] = retS False"
| "file_in_use inode_no (f # fs) =
     (if fd_inode f \<noteq> 0 then
        bindS (get_inode (fd_inode f)) (\<lambda>i.
        if i_no i = inode_no then retS True else file_in_use inode_no fs)
      else file_in_use inode_no fs)"

definition sys_unlink :: "u8 list \<Rightarrow> u32 fsm" where
  "sys_unlink pathname =
     bindS (liftS (strlen (Some pathname))) (\<lambda>len.
     thenS (assertS (len < MAX_PATH_LEN)) (
     bindS (search_file pathname blank_record) (\<lambda>(inode_no, rec).
     thenS (assertS (inode_no \<noteq> 0)) (
     if inode_no = -1 then
       thenS (k_print ''file %s not found!'' [ArgStr pathname]) (
       thenS (dir_close (parent_dir rec)) (retS (-1)))
     else if file_type rec = FT_DIRECTORY then
       thenS (k_print ''can`t delete a direcotry with unlink(), use rmdir() to instead'' []) (
       thenS (dir_close (parent_dir rec)) (retS (-1)))
     else
       bindS (getS file_table) (\<lambda>tab.
       bindS (file_in_use inode_no (take MAX_FILE_OPEN tab)) (\<lambda>used.
       if used then
         thenS (dir_close (parent_dir rec)) (
         thenS (k_print ''file %s is in use, not allow to delete!'' [ArgStr pathname]) (retS (-1)))
       else
         bindS (fs_malloc (SECTOR_SIZE + SECTOR_SIZE)) (\<lambda>io_addr.
         if io_addr = 0 then
           thenS (dir_close (parent_dir rec)) (
           thenS (k_print ''sys_unlink: malloc for io_buf failed'' []) (retS (-1)))
         else
           bindS (delete_dir_entry (parent_dir rec) inode_no (replicate 1024 0)) (\<lambda>_.
           thenS (inode_release inode_no) (
           thenS (fs_free io_addr) (
           thenS (dir_close (parent_dir rec))
           (retS 0))))))))))) "

text \<open>
  The end of \<^verbatim>\<open>sys_mkdir\<close> on failure, the sector with the entries \<^verbatim>\<open>.\<close> and \<^verbatim>\<open>..\<close>, and the steps once the
  directory has an inode number.
\<close>

definition mkdir_rollback :: "nat \<Rightarrow> u32 \<Rightarrow> path_search_record \<Rightarrow> u32 \<Rightarrow> u32 fsm" where
  "mkdir_rollback rollback_step inode_no rec io_addr =
     thenS (if rollback_step = 2 then inode_bit_clear inode_no else retS ()) (
     thenS (dir_close (parent_dir rec)) (
     thenS (fs_free io_addr)
     (retS (-1))))"

definition dot_entry :: "string \<Rightarrow> u32 \<Rightarrow> dir_entry" where
  "dot_entry name no = \<lparr>filename = str name @ replicate (16 - length name) 0, de_i_no = no, f_type = FT_DIRECTORY\<rparr>"

definition dot_sector :: "u32 \<Rightarrow> u32 \<Rightarrow> u8 list" where
  "dot_sector self parent =
     dir_entry_bytes (dot_entry ''.'' self) @ dir_entry_bytes (dot_entry ''..'' parent) @ replicate 464 0"

definition mkdir_commit :: "u8 list \<Rightarrow> u32 \<Rightarrow> path_search_record \<Rightarrow> u32 \<Rightarrow> u32 fsm" where
  "mkdir_commit dirname inode_no rec io_addr =
     bindS block_bitmap_alloc (\<lambda>block_lba.
     if block_lba = -1 then
       thenS (k_print ''sys_mkdir: block_bitmap_alloc for create directory failed'' [])
       (mkdir_rollback 2 inode_no rec io_addr)
     else
       bindS (getS cur_part) (\<lambda>part.
       let block_bitmap_idx = block_lba - data_start_lba (sb part);
           new_dir_inode = (inode_init inode_no)\<lparr>i_sectors := (replicate 13 0)[0 := block_lba]\<rparr>
       in
       thenS (assertS (block_bitmap_idx \<noteq> 0)) (
       thenS (bitmap_sync block_bitmap_idx BLOCK_BITMAP) (
       bindS (get_dir (parent_dir rec)) (\<lambda>d.
       bindS (get_inode (dir_inode d)) (\<lambda>parent.
       thenS (fs_ide_write block_lba (dot_sector inode_no (i_no parent) @ replicate 512 0) 1) (
       let new_dir_inode = new_dir_inode\<lparr>i_size := 2 * dir_entry_size (sb part)\<rparr> in
       bindS (liftS (create_dir_entry dirname inode_no FT_DIRECTORY blank_entry)) (\<lambda>new_dir_entry.
       bindS (sync_dir_entry (parent_dir rec) new_dir_entry (replicate 1024 0)) (\<lambda>ok.
       if \<not> ok then
         thenS (k_print ''sys_mkdir: sync_dir_entry to disk failed!'' [])
         (mkdir_rollback 2 inode_no rec io_addr)
       else
         bindS (get_inode (dir_inode d)) (\<lambda>parent.
         bindS (inode_sync parent (replicate 1024 0)) (\<lambda>_.
         bindS (inode_sync new_dir_inode (replicate 1024 0)) (\<lambda>_.
         thenS (bitmap_sync inode_no INODE_BITMAP) (
         thenS (fs_free io_addr) (
         thenS (dir_close (parent_dir rec))
         (retS 0)))))))))))))))"

definition sys_mkdir :: "u8 list \<Rightarrow> u32 fsm" where
  "sys_mkdir pathname =
     bindS (fs_malloc (SECTOR_SIZE * 2)) (\<lambda>io_addr.
     if io_addr = 0 then
       thenS (k_print ''sys_mkdir: sys_malloc for io_buf failed'' []) (retS (-1))
     else
       bindS (search_file pathname blank_record) (\<lambda>(inode_no, rec).
       if inode_no \<noteq> -1 then
         thenS (k_print ''sys_mkdir: file or directory %s exist!'' [ArgStr pathname])
         (mkdir_rollback 1 inode_no rec io_addr)
       else
         bindS (getS stack_junk) (\<lambda>junk.
         bindS (liftS (path_depth_cnt pathname junk)) (\<lambda>pathname_depth.
         bindS (liftS (path_depth_cnt (searched_path rec) junk)) (\<lambda>path_searched_depth.
         if pathname_depth \<noteq> path_searched_depth then
           thenS (k_print ''sys_mkdir: can`t access %s, subpath %s is`t exist''
                    [ArgStr pathname, ArgStr (searched_path rec)])
           (mkdir_rollback 1 inode_no rec io_addr)
         else
           bindS (liftS (strrchr (Some (searched_path rec)) SLASH)) (\<lambda>k.
           bindS (liftS (deref k)) (\<lambda>k.
           bindS inode_bitmap_alloc (\<lambda>inode_no.
           if inode_no = -1 then
             thenS (k_print ''sys_mkdir: allocate inode failed'' [])
             (mkdir_rollback 1 inode_no rec io_addr)
           else mkdir_commit (drop (Suc k) (searched_path rec)) inode_no rec io_addr))))))))"

section \<open>Directories\<close>

text \<open>A \<^verbatim>\<open>struct dir*\<close> is an address, 0 for \<^verbatim>\<open>NULL\<close>.\<close>

definition sys_opendir :: "u8 list \<Rightarrow> u32 fsm" where
  "sys_opendir name =
     bindS (liftS (strlen (Some name))) (\<lambda>len.
     thenS (assertS (len < MAX_PATH_LEN)) (
     bindS (liftS (read_at name 0)) (\<lambda>c0.
     bindS (if c0 = SLASH then liftS (read_at name 1) else retS 1) (\<lambda>c1.
     if c0 = SLASH \<and> (c1 = 0 \<or> c0 = 46) then getS root_dir
     else
       bindS (search_file name blank_record) (\<lambda>(inode_no, rec).
       bindS (if inode_no = -1 then
                thenS (k_print ''In %s, sub path %s not exist'' [ArgStr name, ArgStr (searched_path rec)]) (retS 0)
              else if file_type rec = FT_REGULAR then
                thenS (k_print ''%s is regular file!'' [ArgStr name]) (retS 0)
              else if file_type rec = FT_DIRECTORY then dir_open inode_no
              else retS 0) (\<lambda>ret.
       thenS (dir_close (parent_dir rec))
       (retS ret)))))))"

definition sys_closedir :: "u32 \<Rightarrow> u32 fsm" where
  "sys_closedir dirp = (if dirp \<noteq> 0 then thenS (dir_close dirp) (retS 0) else retS (-1))"

definition sys_readdir :: "u32 \<Rightarrow> nat option fsm" where
  "sys_readdir dirp = thenS (assertS (dirp \<noteq> 0)) (dir_read dirp)"

definition sys_rewinddir :: "u32 \<Rightarrow> unit fsm" where
  "sys_rewinddir dirp = bindS (get_dir dirp) (\<lambda>d. set_dir dirp (d\<lparr>dir_pos := 0\<rparr>))"

definition sys_rmdir :: "u8 list \<Rightarrow> u32 fsm" where
  "sys_rmdir pathname =
     bindS (search_file pathname blank_record) (\<lambda>(inode_no, rec).
     thenS (assertS (inode_no \<noteq> 0)) (
     bindS (if inode_no = -1 then
              thenS (k_print ''In %s, sub path %s not exist'' [ArgStr pathname, ArgStr (searched_path rec)]) (retS (-1))
            else if file_type rec = FT_REGULAR then
              thenS (k_print ''%s is regular file!'' [ArgStr pathname]) (retS (-1))
            else
              bindS (dir_open inode_no) (\<lambda>dirp.
              bindS (dir_is_empty dirp) (\<lambda>empty.
              bindS (if \<not> empty then
                       thenS (k_print ''dir %s is not empty, it is not allowed to delete a nonempty directory!''
                                [ArgStr pathname]) (retS (-1))
                     else
                       bindS (dir_remove (parent_dir rec) dirp) (\<lambda>r. retS (if r = 0 then 0 else -1))) (\<lambda>retval.
              thenS (dir_close dirp)
              (retS retval))))) (\<lambda>retval.
     thenS (dir_close (parent_dir rec))
     (retS retval))))"

section \<open>The working directory\<close>

definition get_parent_dir_inode_nr :: "u32 \<Rightarrow> u32 fsm" where
  "get_parent_dir_inode_nr child_inode_nr =
     bindS (inode_open child_inode_nr) (\<lambda>a.
     bindS (get_inode a) (\<lambda>i.
     bindS (getS cur_part) (\<lambda>part.
     let block_lba = i_sectors i ! 0 in
     thenS (assertS (block_lba \<ge> data_start_lba (sb part))) (
     thenS (inode_close a) (
     bindS (fs_ide_read block_lba 1 (replicate 512 0)) (\<lambda>io_buf.
     let e = dir_entry_of (sub_buf 24 24 io_buf) in
     thenS (assertS (de_i_no e < 4096 \<and> f_type e = FT_DIRECTORY))
     (retS (de_i_no e))))))))"

fun child_in_sector :: "u8 list \<Rightarrow> u32 \<Rightarrow> nat \<Rightarrow> nat \<Rightarrow> nat option res" where
  "child_in_sector buf c_inode_nr 0 k = Inr None"
| "child_in_sector buf c_inode_nr (Suc n) k =
     bindE (entry_ino buf k) (\<lambda>no. if no = c_inode_nr then Inr (Some k) else child_in_sector buf c_inode_nr n (Suc k))"

text \<open>The path with the name added, or \<open>None\<close> when no entry of the blocks has the inode.\<close>

fun child_in_blocks :: "u32 \<Rightarrow> nat \<Rightarrow> u32 list \<Rightarrow> u8 list \<Rightarrow> u8 list option fsm" where
  "child_in_blocks c_inode_nr per_sec [] path = retS None"
| "child_in_blocks c_inode_nr per_sec (b # bs) path =
     (if b \<noteq> 0 then
        bindS (fs_ide_read b 1 (replicate 512 0)) (\<lambda>io_buf.
        bindS (liftS (child_in_sector io_buf c_inode_nr per_sec 0)) (\<lambda>r.
        case r of
          Some k \<Rightarrow>
            bindS (liftS (strcat (Some path) (Some (str ''/'' @ [0])))) (\<lambda>path.
            bindS (liftS (strcat (Some path) (Some (drop (24 * k) io_buf)))) (\<lambda>path.
            retS (Some path)))
        | None \<Rightarrow> child_in_blocks c_inode_nr per_sec bs path))
      else child_in_blocks c_inode_nr per_sec bs path)"

definition get_child_dir_name :: "u32 \<Rightarrow> u32 \<Rightarrow> u8 list \<Rightarrow> u8 list option fsm" where
  "get_child_dir_name p_inode_nr c_inode_nr path =
     bindS (inode_open p_inode_nr) (\<lambda>a.
     bindS (get_inode a) (\<lambda>i.
     bindS (collect_blocks i) (\<lambda>all_blocks.
     thenS (inode_close a) (
     bindS entries_per_sec (\<lambda>per_sec.
     let block_cnt = (if i_sectors i ! 12 \<noteq> 0 then 140 else 12) in
     child_in_blocks c_inode_nr per_sec (take block_cnt all_blocks) path)))))"

text \<open>
  The walk up to the root. Every step adds a slash to an array of 512 bytes, so that 512 steps are as
  many as a walk that stays inside the array can have.
\<close>

fun walk_up :: "nat \<Rightarrow> u32 \<Rightarrow> u8 list \<Rightarrow> u8 list option fsm" where
  "walk_up 0 child_inode_nr path = (if child_inode_nr = 0 then retS (Some path) else liftS (Inl Diverges))"
| "walk_up (Suc n) child_inode_nr path =
     (if child_inode_nr = 0 then retS (Some path)
      else
        bindS (get_parent_dir_inode_nr child_inode_nr) (\<lambda>parent_inode_nr.
        bindS (get_child_dir_name parent_inode_nr child_inode_nr path) (\<lambda>r.
        case r of
          None \<Rightarrow> retS None
        | Some path \<Rightarrow> walk_up n parent_inode_nr path)))"

text \<open>
  The names are in the wrong order: the last one is moved to the end of \<open>buf\<close> until none is left. The
  last slash is never the last byte of the array, which is zero.
\<close>

function reverse_names :: "u8 list \<Rightarrow> u8 list \<Rightarrow> u8 list res" where
  "reverse_names full_path_reverse buf =
     bindE (strrchr (Some full_path_reverse) SLASH) (\<lambda>r.
     case r of
       None \<Rightarrow> Inr buf
     | Some k \<Rightarrow>
         if Suc k < length full_path_reverse then
           bindE (strlen (Some buf)) (\<lambda>len.
           bindE (strlen (Some (drop k full_path_reverse))) (\<lambda>n.
           bindE (at_off (unat (len AND 0xffff)) (\<lambda>b. strncpy (Some b) (Some (drop k full_path_reverse)) n) buf) (\<lambda>buf.
           reverse_names (take k full_path_reverse @ [0]) buf)))
         else Inl OutOfBounds)"
  by pat_completeness auto
termination
  by (relation "measure (\<lambda>(p, b). length p)") auto

definition sys_getcwd :: "u8 list \<Rightarrow> u32 \<Rightarrow> (u8 list option) fsm" where
  "sys_getcwd buf sz =
     bindS (fs_malloc SECTOR_SIZE) (\<lambda>io_addr.
     if io_addr = 0 then retS None
     else
       bindS (getS cwd_inode_nr) (\<lambda>child_inode_nr.
       thenS (assertS (0 \<le>s child_inode_nr \<and> child_inode_nr <s 4096)) (
       if child_inode_nr = 0 then
         bindS (liftS (write_at buf 0 SLASH)) (\<lambda>buf.
         bindS (liftS (write_at buf 1 0)) (\<lambda>buf. retS (Some buf)))
       else
         bindS (liftS (memset (Some buf) 0 sz)) (\<lambda>buf.
         bindS (walk_up 512 child_inode_nr (replicate 512 0)) (\<lambda>r.
         case r of
           None \<Rightarrow> thenS (fs_free io_addr) (retS None)
         | Some full_path_reverse \<Rightarrow>
             bindS (liftS (strlen (Some full_path_reverse))) (\<lambda>len.
             thenS (assertS (len \<le> sz)) (
             bindS (liftS (reverse_names full_path_reverse buf)) (\<lambda>buf.
             thenS (fs_free io_addr)
             (retS (Some buf))))))))))"

definition sys_chdir :: "u8 list \<Rightarrow> u32 fsm" where
  "sys_chdir path =
     bindS (search_file path blank_record) (\<lambda>(inode_no, rec).
     bindS (if inode_no \<noteq> -1 then
              if file_type rec = FT_DIRECTORY then
                thenS (updS (\<lambda>s. s\<lparr>cwd_inode_nr := inode_no\<rparr>)) (retS 0)
              else
                thenS (k_print ''sys_chdir: %s is regular file or other!'' [ArgStr path]) (retS (-1))
            else retS (-1)) (\<lambda>ret.
     thenS (dir_close (parent_dir rec))
     (retS ret)))"

record stat =
  st_ino :: u32
  st_size :: u32
  st_filetype :: u32

definition sys_stat :: "u8 list \<Rightarrow> stat option fsm" where
  "sys_stat path =
     bindS (liftS (names_root path)) (\<lambda>r.
     if r then
       bindS (getS root_dir) (\<lambda>root.
       bindS (get_dir root) (\<lambda>d.
       bindS (get_inode (dir_inode d)) (\<lambda>i.
       retS (Some \<lparr>st_ino = 0, st_size = i_size i, st_filetype = FT_DIRECTORY\<rparr>))))
     else
       bindS (search_file path blank_record) (\<lambda>(inode_no, rec).
       bindS (if inode_no \<noteq> -1 then
                bindS (inode_open inode_no) (\<lambda>a.
                bindS (get_inode a) (\<lambda>i.
                thenS (inode_close a)
                (retS (Some \<lparr>st_ino = inode_no, st_size = i_size i, st_filetype = file_type rec\<rparr>))))
              else
                thenS (k_print ''sys_stat: %s not found'' [ArgStr path]) (retS None)) (\<lambda>ret.
       thenS (dir_close (parent_dir rec))
       (retS ret))))"

definition sys_putchar :: "u8 \<Rightarrow> unit fsm" where
  "sys_putchar char_ascii = k_print ''%c'' [ArgWord (ucast char_ascii)]"

end
