(* ===== verification/Fs_Format.thy ===== *)
theory Fs_Format
  imports Fs
begin

text \<open>
  Making and mounting a file system, from \<^verbatim>\<open>fs/fs.c\<close>. The partitions are those of the one disk of the
  state, whose device number is 1; \<open>pad\<close> is what the 460 bytes at the end of the superblock on
  the stack hold, which \<^verbatim>\<open>partition_format\<close> does not initialise. The blanks in the long messages are
  shortened.
\<close>

section \<open>Formatting\<close>

definition SUPER_BLOCK_MAGIC :: u32 where "SUPER_BLOCK_MAGIC = 0x19970719"

text \<open>The sizes computed at the head of \<^verbatim>\<open>partition_format\<close>: the superblock and the number of blocks.\<close>

definition format_layout :: "u32 \<Rightarrow> u32 \<Rightarrow> super_block \<times> u32" where
  "format_layout start cnt =
     (let boot_sector_sects = 1;
          super_block_sects = 1;
          inode_bitmap_sects = DIV_ROUND_UP MAX_FILES_PER_PART BITS_PER_SECTOR;
          inode_table_sects = DIV_ROUND_UP (sizeof_inode * MAX_FILES_PER_PART) SECTOR_SIZE;
          used_sects = boot_sector_sects + super_block_sects + inode_bitmap_sects + inode_table_sects;
          free_sects = cnt - used_sects;
          block_bitmap_bit_len = free_sects - DIV_ROUND_UP free_sects BITS_PER_SECTOR;
          block_bitmap_sects = DIV_ROUND_UP block_bitmap_bit_len BITS_PER_SECTOR
      in (\<lparr>magic = SUPER_BLOCK_MAGIC, sb_sec_cnt = cnt, inode_cnt = MAX_FILES_PER_PART, part_lba_base = start,
           block_bitmap_lba = start + 2, block_bitmap_sects = block_bitmap_sects,
           inode_bitmap_lba = start + 2 + block_bitmap_sects, inode_bitmap_sects = inode_bitmap_sects,
           inode_table_lba = start + 2 + block_bitmap_sects + inode_bitmap_sects,
           inode_table_sects = inode_table_sects,
           data_start_lba = start + 2 + block_bitmap_sects + inode_bitmap_sects + inode_table_sects,
           root_inode_no = 0, dir_entry_size = sizeof_dir_entry\<rparr>, block_bitmap_bit_len))"

text \<open>\<^verbatim>\<open>while (bit_idx <= last_bit) buf[last_byte] &= ~(1 << bit_idx++)\<close>, for \<open>n\<close> bits.\<close>

fun clear_low_bits :: "nat \<Rightarrow> u8 \<Rightarrow> u8" where
  "clear_low_bits 0 b = b"
| "clear_low_bits (Suc n) b = clear_low_bits n b AND NOT (push_bit n 1)"

definition block_bitmap_image :: "nat \<Rightarrow> u8 list \<Rightarrow> u8 list res" where
  "block_bitmap_image bit_len buf =
     bindE (read_at buf 0) (\<lambda>b0.
     bindE (write_at buf 0 (b0 OR 1)) (\<lambda>buf.
     let last_byte = bit_len div 8;
         last_bit = bit_len mod 8;
         last_size = 512 - last_byte mod 512
     in bindE (put_bytes last_byte (replicate last_size 0xff) buf) (\<lambda>buf.
        bindE (read_at buf last_byte) (\<lambda>b.
        write_at buf last_byte (clear_low_bits (last_bit + 1) b)))))"

definition root_inode_image :: "super_block \<Rightarrow> u8 list" where
  "root_inode_image x = inode_bytes
     \<lparr>i_no = 0, i_size = dir_entry_size x * 2, i_open_cnts = 0, write_deny = False,
      i_sectors = (replicate 13 0)[0 := data_start_lba x]\<rparr>"

definition format_sectors :: "super_block \<Rightarrow> nat" where
  "format_sectors x =
     (let m = (if block_bitmap_sects x \<ge> inode_bitmap_sects x then block_bitmap_sects x else inode_bitmap_sects x)
      in unat (if m \<ge> inode_table_sects x then m else inode_table_sects x))"

definition partition_format :: "partition \<Rightarrow> u8 list \<Rightarrow> unit fsm" where
  "partition_format part pad =
     (let (x, bit_len) = format_layout (start_lba part) (sec_cnt part);
          buf_size = 512 * format_sectors x
      in
      thenS (k_print ''%s info:'' [ArgStr (part_name part)]) (
      thenS (k_print ''magic:0x%x part_lba_base:0x%x all_sectors:0x%x inode_cnt:0x%x block_bitmap_lba:0x%x block_bitmap_sectors:0x%x inode_bitmap_lba:0x%x inode_bitmap_sectors:0x%x inode_table_lba:0x%x inode_table_sectors:0x%x data_start_lba:0x%x''
               (map ArgWord [magic x, part_lba_base x, sb_sec_cnt x, inode_cnt x, block_bitmap_lba x,
                  block_bitmap_sects x, inode_bitmap_lba x, inode_bitmap_sects x, inode_table_lba x,
                  inode_table_sects x, data_start_lba x])) (
      thenS (fs_ide_write (start_lba part + 1) (super_block_bytes x pad) 1) (
      thenS (k_print ''super_block_lba:0x%x'' [ArgWord (start_lba part + 1)]) (
      bindS (fs_malloc (of_nat buf_size)) (\<lambda>buf_addr.
      bindS (heap_buf buf_addr buf_size) (\<lambda>buf.
      bindS (liftS (block_bitmap_image (unat bit_len) buf)) (\<lambda>buf.
      thenS (fs_ide_write (block_bitmap_lba x) buf (unat (block_bitmap_sects x))) (
      bindS (liftS (write_at (replicate buf_size 0) 0 1)) (\<lambda>buf.
      thenS (fs_ide_write (inode_bitmap_lba x) buf (unat (inode_bitmap_sects x))) (
      bindS (liftS (put_bytes 0 (root_inode_image x) (replicate buf_size 0))) (\<lambda>buf.
      thenS (fs_ide_write (inode_table_lba x) buf (unat (inode_table_sects x))) (
      bindS (liftS (put_bytes 0 (dot_sector 0 0) (replicate buf_size 0))) (\<lambda>buf.
      thenS (fs_ide_write (data_start_lba x) buf 1) (
      thenS (k_print ''root_dir_lba:0x%x'' [ArgWord (data_start_lba x)]) (
      thenS (k_print ''%s format done'' [ArgStr (part_name part)])
      (fs_free buf_addr)))))))))))))))))"

section \<open>Mounting\<close>

definition PANIC_if :: "bool \<Rightarrow> unit fsm" where
  "PANIC_if c = assertS (\<not> c)"

text \<open>
  The callback of the walk over the partitions: \<open>True\<close> ends it. The buffer of the superblock is
  not given back.
\<close>

definition mount_partition :: "partition \<Rightarrow> u8 list \<Rightarrow> bool fsm" where
  "mount_partition part name =
     bindS (liftS (strlen (Some name))) (\<lambda>len.
     bindS (liftS (strncmp (Some (part_name part)) (Some name) len)) (\<lambda>c.
     if c = 0 then
       bindS (fs_malloc SECTOR_SIZE) (\<lambda>sb_buf.
       bindS (fs_malloc 512) (\<lambda>sb_addr.
       thenS (PANIC_if (sb_addr = 0)) (
       thenS (assertS (sb_buf \<noteq> 0)) (
       bindS (fs_ide_read (start_lba part + 1) 1 (replicate 512 0)) (\<lambda>b.
       let x = super_block_of b in
       bindS (fs_malloc (block_bitmap_sects x * SECTOR_SIZE)) (\<lambda>bb_addr.
       thenS (PANIC_if (bb_addr = 0)) (
       bindS (fs_ide_read (block_bitmap_lba x) (unat (block_bitmap_sects x))
                (replicate (unat (block_bitmap_sects x * SECTOR_SIZE)) 0)) (\<lambda>bb.
       bindS (fs_malloc (inode_bitmap_sects x * SECTOR_SIZE)) (\<lambda>ib_addr.
       thenS (PANIC_if (ib_addr = 0)) (
       bindS (fs_ide_read (inode_bitmap_lba x) (unat (inode_bitmap_sects x))
                (replicate (unat (inode_bitmap_sects x * SECTOR_SIZE)) 0)) (\<lambda>ib.
       thenS (updS (\<lambda>s. s\<lparr>cur_part := part\<lparr>sb := x,
                block_bitmap := \<lparr>bmap_bytes_len = block_bitmap_sects x * SECTOR_SIZE, bits = bb\<rparr>,
                inode_bitmap := \<lparr>bmap_bytes_len = inode_bitmap_sects x * SECTOR_SIZE, bits = ib\<rparr>,
                open_inodes := []\<rparr>\<rparr>)) (
       thenS (k_print ''mount %s done!'' [ArgStr (part_name part)])
       (retS True)))))))))))))
     else retS False))"

fun mount_list :: "partition list \<Rightarrow> u8 list \<Rightarrow> bool fsm" where
  "mount_list [] name = retS False"
| "mount_list (p # ps) name =
     bindS (mount_partition p name) (\<lambda>r. if r then retS True else mount_list ps name)"

section \<open>Start-up\<close>

fun format_loop :: "partition list \<Rightarrow> u8 list \<Rightarrow> unit fsm" where
  "format_loop [] pad = retS ()"
| "format_loop (part # parts) pad =
     thenS (if sec_cnt part \<noteq> 0 then
              bindS (fs_ide_read (start_lba part + 1) 1 (replicate 512 0)) (\<lambda>sb_buf.
              if magic (super_block_of sb_buf) = SUPER_BLOCK_MAGIC then
                k_print ''%s has filesystem'' [ArgStr (part_name part)]
              else
                thenS (k_print ''formatting %s`s partition %s......'' [ArgStr (str ''sdb'' @ [0]), ArgStr (part_name part)])
                (partition_format part pad))
            else retS ())
     (format_loop parts pad)"

text \<open>
  The loop over the file table adds 1 to its index in the body and again in its head: every second entry
  is cleared.
\<close>

definition clear_file_table :: "file_struct list \<Rightarrow> file_struct list" where
  "clear_file_table tab = map (\<lambda>k. if even k \<and> k < MAX_FILE_OPEN then (tab ! k)\<lparr>fd_inode := 0\<rparr> else tab ! k) [0..<length tab]"

text \<open>\<open>parts\<close> are the four primary and eight logical partitions of the disk, \<open>plist\<close> those that exist.\<close>

definition filesys_init :: "partition list \<Rightarrow> partition list \<Rightarrow> u8 list \<Rightarrow> unit fsm" where
  "filesys_init parts plist pad =
     bindS (fs_malloc SECTOR_SIZE) (\<lambda>sb_buf.
     thenS (PANIC_if (sb_buf = 0)) (
     thenS (k_print ''searching filesystem......'' []) (
     thenS (format_loop (take 12 parts) pad) (
     thenS (fs_free sb_buf) (
     bindS (mount_list plist (str ''sdb1'' @ [0, 0, 0, 0])) (\<lambda>_.
     thenS open_root_dir
     (updS (\<lambda>s. s\<lparr>file_table := clear_file_table (file_table s)\<rparr>))))))))"

end
