(* ===== verification/File_Data.thy ===== *)
theory File_Data
  imports File
begin

text \<open>
  The contents of a file: the bytes of its blocks, in the order of the twelve addresses in the inode and
  the 128 in the table of the indirect blocks, up to its size. Reading delivers a part of these
  bytes and writing appends to them.
\<close>

section \<open>Contents\<close>

definition file_block :: "(u32 \<Rightarrow> u8 list) \<Rightarrow> inode \<Rightarrow> nat \<Rightarrow> u32" where
  "file_block d i k = (if k < 12 then i_sectors i ! k else get32s 128 (d (i_sectors i ! 12)) ! (k - 12))"

definition byte_at :: "(u32 \<Rightarrow> u8 list) \<Rightarrow> (nat \<Rightarrow> u32) \<Rightarrow> nat \<Rightarrow> u8" where
  "byte_at d blk j = d (blk (j div 512)) ! (j mod 512)"

definition file_bytes :: "(u32 \<Rightarrow> u8 list) \<Rightarrow> inode \<Rightarrow> u8 list" where
  "file_bytes d i = map (byte_at d (file_block d i)) [0..<unat (i_size i)]"

lemma length_file_bytes [simp]: "length (file_bytes d i) = unat (i_size i)"
  by (simp add: file_bytes_def)

lemma map_range_split: "(a :: nat) \<le> b \<Longrightarrow> b \<le> c \<Longrightarrow> map f [a..<b] @ map f [b..<c] = map f [a..<c]"
  by (metis le_iff_add map_append upt_add_eq_append)

lemma unat_mod_512: "unat (x mod BLOCK_SIZE) = unat x mod 512" "unat (x div BLOCK_SIZE) = unat x div 512"
  by (simp_all add: BLOCK_SIZE_def SECTOR_SIZE_def unat_mod unat_div)

lemma unat_chunk_size: "unat (chunk_size pos left) = min (unat left) (512 - unat pos mod 512)"
proof -
  have m: "unat pos mod 512 < 512" by simp
  have "unat (BLOCK_SIZE - pos mod BLOCK_SIZE) = 512 - unat pos mod 512"
  proof (subst unat_sub_no_wrap32)
    show "pos mod BLOCK_SIZE \<le> BLOCK_SIZE"
      using m by (simp add: word_le_nat_alt unat_mod_512 less_imp_le) (simp add: BLOCK_SIZE_def SECTOR_SIZE_def)
    show "unat BLOCK_SIZE - unat (pos mod BLOCK_SIZE) = 512 - unat pos mod 512"
      by (simp add: unat_mod_512) (simp add: BLOCK_SIZE_def SECTOR_SIZE_def)
  qed
  then show ?thesis by (auto simp: chunk_size_def Let_def word_less_nat_alt min_def)
qed

text \<open>A piece of one block, and the rest of a range after it.\<close>

lemma block_offset:
  assumes "p mod 512 + j < (512 :: nat)"
  shows "(p + j) div 512 = p div 512" "(p + j) mod 512 = p mod 512 + j"
proof -
  define q r where "q = p div 512" and "r = p mod 512"
  have p: "p = 512 * q + r" by (simp add: q_def r_def)
  have rj: "r + j < 512" using assms by (simp add: r_def)
  have d: "(p + j) div 512 = q" using rj p by (intro div_nat_eqI) simp_all
  then have "(p + j) mod 512 = r + j" using minus_mult_div_eq_mod [of "p + j" 512] p by simp
  with d show "(p + j) div 512 = p div 512" "(p + j) mod 512 = p mod 512 + j" by (simp_all add: q_def r_def)
qed

lemma block_piece:
  assumes "disk_ok d" "c \<le> 512 - p mod 512"
  shows "sub_buf (p mod 512) c (d (blk (p div 512))) = map (byte_at d blk) [p..<p + c]"
proof (rule nth_equalityI)
  show "length (sub_buf (p mod 512) c (d (blk (p div 512)))) = length (map (byte_at d blk) [p..<p + c])"
    using assms by simp
  fix j assume "j < length (sub_buf (p mod 512) c (d (blk (p div 512))))"
  then have j: "j < c" "p mod 512 + j < 512" using assms by simp_all
  then have "(p + j) div 512 = p div 512" "(p + j) mod 512 = p mod 512 + j" using block_offset by blast+
  then show "sub_buf (p mod 512) c (d (blk (p div 512))) ! j = map (byte_at d blk) [p..<p + c] ! j"
    using j assms by (simp add: nth_sub_buf byte_at_def)
qed

section \<open>Reading\<close>

definition upd_pos :: "nat \<Rightarrow> u32 \<Rightarrow> fstate \<Rightarrow> fstate" where
  "upd_pos fl pos s = s\<lparr>file_table := (file_table s)[fl := (file_table s ! fl)\<lparr>fd_pos := pos\<rparr>]\<rparr>"

lemma get_file_run [run_simps]: "fl < length (file_table s) \<Longrightarrow> get_file fl s = Inr (file_table s ! fl, s)"
  by (simp add: get_file_def run_simps)

lemma set_file_run [run_simps]:
  "fl < length (file_table s) \<Longrightarrow> set_file fl f s = Inr ((), s\<lparr>file_table := (file_table s)[fl := f]\<rparr>)"
  by (simp add: set_file_def run_simps)

lemma upd_pos_frame [simp]:
  "my_disk (upd_pos fl p s) = my_disk s" "length (file_table (upd_pos fl p s)) = length (file_table s)"
  "inodes (upd_pos fl p s) = inodes s" "live (upd_pos fl p s) = live s" "dirs (upd_pos fl p s) = dirs s"
  "cur_part (upd_pos fl p s) = cur_part s"
  by (simp_all add: upd_pos_def)

lemma upd_pos_twice: "fl < length (file_table s) \<Longrightarrow> upd_pos fl q (upd_pos fl p s) = upd_pos fl q s"
  by (simp add: upd_pos_def)

lemma upd_pos_nth: "fl < length (file_table s) \<Longrightarrow> fd_pos (file_table (upd_pos fl p s) ! fl) = p"
  by (simp add: upd_pos_def)

lemma upd_pos_same: "fd_pos (file_table s ! fl) = p \<Longrightarrow> upd_pos fl p s = s"
proof -
  assume "fd_pos (file_table s ! fl) = p"
  then have "(file_table s ! fl)\<lparr>fd_pos := p\<rparr> = file_table s ! fl" by (cases "file_table s ! fl") simp
  then show ?thesis by (simp add: upd_pos_def)
qed

text \<open>The arithmetic of one round of the loops: the piece up to the end of the sector, and what is left.\<close>

lemma chunk_facts:
  assumes "n < tot" "unat pos + unat (tot - n) < 2 ^ 32"
  defines "c \<equiv> chunk_size pos (tot - n)"
  shows "unat c = min (unat (tot - n)) (512 - unat pos mod 512)" "0 < unat c"
    "unat (tot - (n + c)) = unat (tot - n) - unat c" "unat (tot - (n + c)) < unat (tot - n)"
    "unat (pos + c) = unat pos + unat c" "n + c \<le> tot"
proof -
  show c: "unat c = min (unat (tot - n)) (512 - unat pos mod 512)" by (simp add: c_def unat_chunk_size)
  show lt: "unat (tot - (n + c)) < unat (tot - n)" unfolding c_def using assms(1) by (rule chunk_rest)
  have "tot - n \<noteq> 0" using assms(1) by auto
  then have "0 < unat (tot - n)" by (simp add: unat_gt_0)
  then show cpos: "0 < unat c" using c by simp
  have "tot - (n + c) = (tot - n) - c" by simp
  also have "unat \<dots> = unat (tot - n) - unat c" unfolding c_def by (rule unat_sub_no_wrap32 [OF chunk_size_le])
  finally show "unat (tot - (n + c)) = unat (tot - n) - unat c" .
  show "unat (pos + c) = unat pos + unat c" using assms(2) c by (subst unat_add_no_wrap32) auto
  have "c \<le> tot - n" unfolding c_def by (rule chunk_size_le)
  then have "unat c \<le> unat tot - unat n" using unat_sub_no_wrap32 [OF less_imp_le [OF assms(1)]] by (simp add: word_le_nat_alt)
  moreover have "unat n \<le> unat tot" using assms(1) by (simp add: word_less_nat_alt)
  moreover have "unat tot < 2 ^ 32" by (rule unat_u32_lt)
  ultimately show "n + c \<le> tot" using cpos by (simp add: word_le_nat_alt unat_add_no_wrap32)
qed

lemma read_loop_ok:
  assumes "disk_ok (my_disk s)" "fl < length (file_table s)" "io \<noteq> 0" "n \<le> sz"
    and "fd_pos (file_table s ! fl) = pos" "unat pos + unat (sz - n) < 2 ^ 32"
    and "\<And>k. unat pos div 512 \<le> k \<Longrightarrow> 512 * k < unat pos + unat (sz - n) \<Longrightarrow>
           k < length blocks \<and> blocks ! k \<le> max_lba"
  shows "read_loop fl blocks sz n io s =
    Inr (map (byte_at (my_disk s) ((!) blocks)) [unat pos..<unat pos + unat (sz - n)], upd_pos fl (pos + (sz - n)) s)"
  using assms
proof (induction "unat (sz - n)" arbitrary: n s pos rule: less_induct)
  case less
  show ?case
  proof (cases "n < sz")
    case False
    then have "sz - n = 0" using less.prems(4) by simp
    then show ?thesis using False less.prems by (subst read_loop.simps) (simp add: run_simps upd_pos_same)
  next
    case True
    define c where "c = chunk_size pos (sz - n)"
    note ch = chunk_facts [OF True less.prems(6), folded c_def]
    note c = ch(1) and lt = ch(4) and rest = ch(3) and upc = ch(5) and le = ch(6)
    have pos_r: "0 < unat (sz - n)" using lt by simp
    have blk: "unat pos div 512 < length blocks" "blocks ! (unat pos div 512) \<le> max_lba"
      using less.prems(7) [of "unat pos div 512"] pos_r by auto
    let ?s = "upd_pos fl (pos + c) s"
    have IH: "read_loop fl blocks sz (n + c) io ?s =
        Inr (map (byte_at (my_disk ?s) ((!) blocks)) [unat (pos + c)..<unat (pos + c) + unat (sz - (n + c))],
             upd_pos fl (pos + c + (sz - (n + c))) ?s)"
    proof (rule less.hyps [OF lt])
      show "unat (pos + c) + unat (sz - (n + c)) < 2 ^ 32" using less.prems(6) rest upc c by simp
      fix k assume k: "unat (pos + c) div 512 \<le> k" "512 * k < unat (pos + c) + unat (sz - (n + c))"
      have "unat pos div 512 \<le> unat (pos + c) div 512" using upc by (simp add: div_le_mono)
      moreover have "unat (pos + c) + unat (sz - (n + c)) = unat pos + unat (sz - n)" using upc rest c by simp
      ultimately show "k < length blocks \<and> blocks ! k \<le> max_lba" using k by (intro less.prems(7)) auto
    qed (use less.prems le in \<open>simp_all add: upd_pos_nth\<close>)
    have e: "pos + c + (sz - (n + c)) = pos + (sz - n)" by simp
    have piece: "get_bytes (unat pos mod 512) (unat c) (my_disk s (blocks ! (unat pos div 512))) =
        Inr (map (byte_at (my_disk s) ((!) blocks)) [unat pos..<unat pos + unat c])"
    proof -
      have "unat c \<le> 512 - unat pos mod 512" using c by simp
      moreover from this have "unat pos mod 512 + unat c \<le> 512"
        using mod_less_divisor [of 512 "unat pos"] by linarith
      ultimately show ?thesis using less.prems(1) by (simp add: get_bytes_def block_piece)
    qed
    have "map (byte_at (my_disk s) ((!) blocks)) [unat pos..<unat pos + unat c] @
        map (byte_at (my_disk s) ((!) blocks)) [unat (pos + c)..<unat (pos + c) + unat (sz - (n + c))] =
        map (byte_at (my_disk s) ((!) blocks)) [unat pos..<unat pos + unat (sz - n)]"
    proof -
      have "unat (pos + c) + unat (sz - (n + c)) = unat pos + unat (sz - n)" using upc rest c by simp
      then show ?thesis
        unfolding upc by (simp only:) (rule map_range_split, simp_all add: c)
    qed
    moreover have "set_file fl ((file_table s ! fl)\<lparr>fd_pos := pos + c\<rparr>) s = Inr ((), ?s)"
      using less.prems(2) by (simp add: run_simps upd_pos_def)
    ultimately show ?thesis
      using True less.prems(1,2,3,5) blk IH piece
      by (subst read_loop.simps)
        (simp add: run_simps Let_def unat_mod_512 e upd_pos_twice flip: c_def)
  qed
qed

lemma read_table_run [run_simps]:
  "disk_ok (my_disk s) \<Longrightarrow> lba \<le> max_lba \<Longrightarrow> read_table lba s = Inr (get32s 128 (my_disk s lba), s)"
  by (simp add: read_table_def run_simps)

lemma read_file_blocks_ok:
  assumes "disk_ok (my_disk s)" "b \<le> e" "e < 140" "e \<ge> 12 \<Longrightarrow> i_sectors i ! 12 \<noteq> 0 \<and> i_sectors i ! 12 \<le> max_lba"
  obtains blocks where "read_file_blocks i b e s = Inr (blocks, s)" "length blocks = 140"
    "\<And>k. b \<le> k \<Longrightarrow> k \<le> e \<Longrightarrow> blocks ! k = file_block (my_disk s) i k"
proof -
  let ?t = "get32s 128 (my_disk s (i_sectors i ! 12))"
  consider (one) "b = e" "e < 12" | (direct) "b < e" "e < 12" | (mixed) "b < 12" "12 \<le> e" | (table) "12 \<le> b" "12 \<le> e"
    using assms(2) by linarith
  then show ?thesis
  proof cases
    case one
    then show ?thesis
      by (intro that [of "(replicate 140 0)[e := i_sectors i ! e]"]) (auto simp: read_file_blocks_def Let_def run_simps file_block_def)
  next
    case direct
    then show ?thesis
      by (intro that [of "map (\<lambda>k. if b \<le> k \<and> k \<le> e then i_sectors i ! k else 0) [0..<140]"])
        (auto simp: read_file_blocks_def Let_def run_simps file_block_def)
  next
    case mixed
    then show ?thesis
      using assms by (intro that [of "map (\<lambda>k. if b \<le> k then i_sectors i ! k else 0) [0..<12] @ ?t"])
        (auto simp: read_file_blocks_def Let_def run_simps file_block_def nth_append simp del: upt_rec_numeral)
  next
    case table
    then show ?thesis
      using assms by (intro that [of "replicate 12 0 @ ?t"])
        (auto simp: read_file_blocks_def Let_def run_simps file_block_def nth_append)
  qed
qed

text \<open>
  A file's inode and its blocks: the file has the blocks 0 to \<open>size div 512\<close>, all different and in use, the table
  of the indirect blocks from the thirteenth block on, and no other block; a file that was
  never written has none.
\<close>

definition top_block :: "inode \<Rightarrow> nat" where
  "top_block i = unat (i_size i) div 512"

definition own_blocks :: "(u32 \<Rightarrow> u8 list) \<Rightarrow> inode \<Rightarrow> u32 list" where
  "own_blocks d i = map (file_block d i) [0..<Suc (top_block i)] @ (if 12 \<le> top_block i then [i_sectors i ! 12] else [])"

definition file_ok :: "partition \<Rightarrow> (u32 \<Rightarrow> u8 list) \<Rightarrow> inode \<Rightarrow> bool" where
  "file_ok p d i \<longleftrightarrow> length (i_sectors i) = 13 \<and> unat (i_size i) < 71680 \<and>
     (if i_sectors i ! 0 = 0 then i_size i = 0 \<and> i_sectors i = replicate 13 0
      else distinct (own_blocks d i) \<and> (\<forall>b \<in> set (own_blocks d i). data_sector p b \<and> block_used p b) \<and>
           (\<forall>k. top_block i < k \<and> k \<le> 12 \<and> (k < 12 \<or> top_block i < 12) \<longrightarrow> i_sectors i ! k = 0))"

lemma data_sector_nonzero: "part_ok p \<Longrightarrow> data_sector p x \<Longrightarrow> x \<noteq> 0"
  by (auto simp: part_ok_def data_sector_def)

lemma file_ok_block:
  assumes "part_ok p" "file_ok p d i" "i_sectors i ! 0 \<noteq> 0" "k \<le> top_block i"
  shows "data_sector p (file_block d i k)" "file_block d i k \<le> max_lba" "block_used p (file_block d i k)"
proof -
  have "file_block d i k \<in> set (own_blocks d i)" using assms(4) by (simp add: own_blocks_def del: upt_Suc)
  then show "data_sector p (file_block d i k)" "block_used p (file_block d i k)"
    using assms(2,3) by (auto simp: file_ok_def)
  then show "file_block d i k \<le> max_lba" using data_sector_max [OF assms(1)] by blast
qed

lemma file_ok_table:
  assumes "part_ok p" "file_ok p d i" "i_sectors i ! 0 \<noteq> 0" "12 \<le> top_block i"
  shows "data_sector p (i_sectors i ! 12)" "i_sectors i ! 12 \<le> max_lba" "i_sectors i ! 12 \<noteq> 0"
proof -
  have "i_sectors i ! 12 \<in> set (own_blocks d i)" using assms(4) by (auto simp: own_blocks_def)
  then show "data_sector p (i_sectors i ! 12)" using assms(2,3) by (auto simp: file_ok_def)
  then show "i_sectors i ! 12 \<le> max_lba" "i_sectors i ! 12 \<noteq> 0"
    using data_sector_max [OF assms(1)] data_sector_nonzero [OF assms(1)] by blast+
qed

lemma read_size:
  fixes pos count sz :: u32
  assumes "unat pos \<le> unat sz" "unat pos + unat count < 2 ^ 32" "count = 0 \<or> unat pos < unat sz"
  defines "n \<equiv> min (unat count) (unat sz - unat pos)"
  shows "(if pos + count > sz then sz - pos else count) = of_nat n" "unat (of_nat n :: u32) = n"
    "\<not> (pos + count > sz \<and> (of_nat n :: u32) = 0)"
proof -
  have b: "pos + count > sz \<longleftrightarrow> unat sz < unat pos + unat count"
    using assms(2) by (simp add: word_less_nat_alt unat_add_no_wrap32)
  have d: "unat (sz - pos) = unat sz - unat pos"
    using assms(1) by (subst unat_sub_no_wrap32) (simp_all add: word_le_nat_alt)
  have "n \<le> unat count" by (simp add: n_def)
  then show un: "unat (of_nat n :: u32) = n" using unat_u32_lt [of count] by (intro unat_of_nat32) simp
  show "(if pos + count > sz then sz - pos else count) = of_nat n"
    unfolding word_unat_eq_iff un using b d assms(1) by (auto simp: n_def min_def)
  show "\<not> (pos + count > sz \<and> (of_nat n :: u32) = 0)"
  proof
    assume z: "pos + count > sz \<and> (of_nat n :: u32) = 0"
    then have "n = 0" using un by simp
    then show False using z assms(1,3) unfolding b n_def by (auto simp: min_def split: if_splits)
  qed
qed

lemma file_read_ok:
  assumes ok: "part_ok (cur_part s)" "disk_ok (my_disk s)" "heap_ok s" "mem_for 2 s"
    and fl: "fl < length (file_table s)" "inodes s (fd_inode (file_table s ! fl)) = Some i"
    and i: "file_ok (cur_part s) (my_disk s) i"
    and pos: "fd_pos (file_table s ! fl) = pos" "unat pos \<le> unat (i_size i)" "unat pos + unat count < 2 ^ 32"
      "count = 0 \<or> unat pos < unat (i_size i)"
  defines "n \<equiv> min (unat count) (unat (i_size i) - unat pos)"
  assumes lim: "unat pos + n < 139 * 512"
  shows "file_read fl count s = Inr ((of_nat n, take n (drop (unat pos) (file_bytes (my_disk s) i))),
           upd_pos fl (pos + of_nat n) (s\<lparr>mallocs := Suc (Suc (mallocs s))\<rparr>))"
proof -
  note sz = read_size [OF pos(2,3,4), folded n_def]
  have np: "n \<le> unat (i_size i) - unat pos" by (simp add: n_def)
  have upn: "unat (pos + of_nat n) = unat pos + n" using sz(2) lim by (simp add: unat_add_no_wrap32)
  let ?s2 = "\<lambda>a c. s\<lparr>mallocs := Suc (Suc (mallocs s)), live := c # a # live s\<rparr>"
  obtain a c where m: "fs_malloc BLOCK_SIZE s = Inr (a, s\<lparr>mallocs := Suc (mallocs s), live := a # live s\<rparr>)"
    "fs_malloc (BLOCK_SIZE + 48) (s\<lparr>mallocs := Suc (mallocs s), live := a # live s\<rparr>) = Inr (c, ?s2 a c)"
    "a \<noteq> 0" "c \<noteq> 0" "a \<noteq> c" "a \<notin> set (live s)" "c \<notin> set (live s)"
    "(inodes s)(a := None) = inodes s" "(dirs s)(a := None) = dirs s" "(inodes s)(c := None) = inodes s" "(dirs s)(c := None) = dirs s"
    by (rule two_mallocs [OF ok(3,4)])
  let ?B = "unat pos div 512" and ?E = "(unat pos + n) div 512"
  have idx: "unat (pos div BLOCK_SIZE) = ?B" "unat ((pos + of_nat n) div BLOCK_SIZE) = ?E"
    by (simp_all add: unat_mod_512 upn)
  have BE: "?B \<le> ?E" "?E < 139" using lim by (simp_all add: div_le_mono less_mult_imp_div_less)
  have Etop: "?E \<le> top_block i" using np pos(2) by (simp add: top_block_def div_le_mono)
  have has: "i_sectors i ! 0 \<noteq> 0" if "0 < unat (i_size i)" using i that by (auto simp: file_ok_def split: if_splits)
  have tab: "i_sectors i ! 12 \<noteq> 0 \<and> i_sectors i ! 12 \<le> max_lba" if "?E \<ge> 12"
  proof -
    have "12 \<le> top_block i" using that Etop by simp
    moreover from this have "0 < unat (i_size i)" by (cases "unat (i_size i) = 0") (auto simp: top_block_def)
    ultimately show ?thesis using file_ok_table [OF ok(1) i has] by simp
  qed
  have E140: "?E < 140" "disk_ok (my_disk (?s2 a c))" using BE(2) ok(2) by simp_all
  from read_file_blocks_ok [OF E140(2) BE(1) E140(1) tab] obtain blocks where blocks:
    "read_file_blocks i ?B ?E (?s2 a c) = Inr (blocks, ?s2 a c)" "length blocks = 140"
    "\<And>k. ?B \<le> k \<Longrightarrow> k \<le> ?E \<Longrightarrow> blocks ! k = file_block (my_disk (?s2 a c)) i k" by blast
  have top: "k \<le> top_block i" if "512 * k < unat pos + n" for k
  proof -
    have "512 * k \<le> unat (i_size i)" using that np pos(2) by simp
    then show ?thesis by (simp add: top_block_def less_eq_div_iff_mult_less_eq mult.commute)
  qed
  have blk: "blocks ! k = file_block (my_disk s) i k" "k < length blocks" "blocks ! k \<le> max_lba"
    if "?B \<le> k" "512 * k < unat pos + n" for k
  proof -
    have "k \<le> ?E" using that(2) by (simp add: less_eq_div_iff_mult_less_eq mult.commute)
    then show b: "blocks ! k = file_block (my_disk s) i k" "k < length blocks"
      using blocks(2,3) that(1) BE(2) by simp_all
    have "0 < unat (i_size i)" using that(2) np pos(2) by (cases "unat (i_size i) = 0") auto
    then show "blocks ! k \<le> max_lba"
      using file_ok_block(2) [OF ok(1) i has top [OF that(2)]] b(1) by simp
  qed
  have rl: "read_loop fl blocks (of_nat n) 0 a (?s2 a c) =
      Inr (map (byte_at (my_disk s) ((!) blocks)) [unat pos..<unat pos + n], upd_pos fl (pos + of_nat n) (?s2 a c))"
    using read_loop_ok [of "?s2 a c" fl a 0 "of_nat n" pos blocks] ok(2) fl(1) m(3) pos(1) lim sz(2) blk(2,3) by simp
  have "map (byte_at (my_disk s) ((!) blocks)) [unat pos..<unat pos + n] =
      take n (drop (unat pos) (file_bytes (my_disk s) i))"
  proof (rule nth_equalityI)
    fix j assume "j < length (map (byte_at (my_disk s) ((!) blocks)) [unat pos..<unat pos + n])"
    then have j: "j < n" by simp
    then have "blocks ! ((unat pos + j) div 512) = file_block (my_disk s) i ((unat pos + j) div 512)"
      using times_div_less_eq_dividend [of 512 "unat pos + j"] by (intro blk(1)) (simp_all add: div_le_mono)
    then show "map (byte_at (my_disk s) ((!) blocks)) [unat pos..<unat pos + n] ! j =
        take n (drop (unat pos) (file_bytes (my_disk s) i)) ! j"
      using j np by (simp add: file_bytes_def byte_at_def)
  qed (use np in simp)
  note rl = rl [unfolded this]
  have fr: "fs_free c (upd_pos fl (pos + of_nat n) (?s2 a c)) =
      Inr ((), upd_pos fl (pos + of_nat n) (s\<lparr>mallocs := Suc (Suc (mallocs s)), live := a # live s\<rparr>))"
    "fs_free a (upd_pos fl (pos + of_nat n) (s\<lparr>mallocs := Suc (Suc (mallocs s)), live := a # live s\<rparr>)) =
      Inr ((), upd_pos fl (pos + of_nat n) (s\<lparr>mallocs := Suc (Suc (mallocs s))\<rparr>))"
    using m(3-11) by (simp_all add: fs_free_def upd_pos_def)
  have lt139: "pos div BLOCK_SIZE < 139" "(pos + of_nat n) div BLOCK_SIZE < 139"
    using BE by (simp_all add: word_less_nat_alt idx)
  show ?thesis
    unfolding file_read_def run_bind get_file_run [OF fl(1)] bindE_simps prod.case get_inode_run [OF fl(2)]
      Let_def pos(1) sz(1)
    using sz(3) m(3,4) lt139 by (simp add: run_simps m(1,2) blocks(1) rl fr idx)
qed

text \<open>At the end of the file there is nothing to read, whatever the count.\<close>

lemma file_read_end:
  assumes "fl < length (file_table s)" "inodes s (fd_inode (file_table s ! fl)) = Some i"
    and "fd_pos (file_table s ! fl) = i_size i" "unat (i_size i) + unat count < 2 ^ 32" "count \<noteq> 0"
  shows "file_read fl count s = Inr ((-1, []), s)"
proof -
  have "i_size i + count > i_size i"
    using assms(4,5) by (simp add: word_less_nat_alt unat_add_no_wrap32 unat_gt_0)
  then show ?thesis using assms(1-3) by (simp add: file_read_def run_simps Let_def)
qed

text \<open>
  C10: reading from a file: \<^verbatim>\<open>file_read\<close> delivers the bytes of the file from the position of the descriptor, as many as were asked for
  or are left, and moves the position behind them, across the boundaries of the blocks and into the
  indirect blocks; at the end of the file it answers -1. The memory it took is given back and neither the
  disk nor an inode changes.
\<close>

theorem file_read_refines_contents:
  assumes "part_ok (cur_part s)" "disk_ok (my_disk s)" "heap_ok s" "mem_for 2 s"
    and "fl < length (file_table s)" "inodes s (fd_inode (file_table s ! fl)) = Some i"
    and "file_ok (cur_part s) (my_disk s) i"
    and "fd_pos (file_table s ! fl) = pos" "unat pos \<le> unat (i_size i)" "unat pos + unat count < 2 ^ 32"
    and "n = min (unat count) (unat (i_size i) - unat pos)" "unat pos + n < 139 * 512"
  shows "file_read fl count s =
           (if pos = i_size i \<and> count \<noteq> 0 then Inr ((-1, []), s)
            else Inr ((of_nat n, take n (drop (unat pos) (file_bytes (my_disk s) i))),
              s\<lparr>file_table := (file_table s)[fl := (file_table s ! fl)\<lparr>fd_pos := pos + of_nat n\<rparr>],
                mallocs := Suc (Suc (mallocs s))\<rparr>))"
proof (cases "pos = i_size i \<and> count \<noteq> 0")
  case True
  then show ?thesis using assms file_read_end [of fl s i count] by simp
next
  case False
  have "count = 0 \<or> unat pos < unat (i_size i)"
  proof (rule disjCI)
    assume "\<not> unat pos < unat (i_size i)"
    then have "unat pos = unat (i_size i)" using assms(9) by simp
    then have "pos = i_size i" by (rule unsigned_word_eqI)
    then show "count = 0" using False by simp
  qed
  then show ?thesis
    using file_read_ok [OF assms(1-10) _ assms(12) [unfolded assms(11)]] False
    by (simp add: assms(11) upd_pos_def)
qed

text \<open>A file of two blocks, open at position 100.\<close>

definition file_fs :: fstate where
  "file_fs = small_fs\<lparr>my_disk := (\<lambda>_. replicate 512 0)(620 := replicate 512 7, 621 := replicate 512 9),
     cur_part := small_part\<lparr>block_bitmap := \<lparr>bmap_bytes_len = 512, bits = 1 # 3 # replicate 510 0\<rparr>, open_inodes := [1]\<rparr>,
     inodes := [1 \<mapsto> (sample_inode 5)\<lparr>write_deny := False, i_open_cnts := 1\<rparr>], live := [1],
     file_table := (replicate 32 \<lparr>fd_pos = 0, fd_flag = 0, fd_inode = 0\<rparr>)[0 := \<lparr>fd_pos = 100, fd_flag = 0, fd_inode = 1\<rparr>]\<rparr>"

lemma file_fs_ok:
  "part_ok (cur_part file_fs)" "disk_ok (my_disk file_fs)" "heap_ok file_fs" "m \<le> 61 \<Longrightarrow> mem_for m file_fs"
  "file_ok (cur_part file_fs) (my_disk file_fs) ((sample_inode 5)\<lparr>write_deny := False, i_open_cnts := 1\<rparr>)"
proof -
  show p: "part_ok (cur_part file_fs)"
    by (auto simp: part_ok_def file_fs_def small_part_def small_sb_def bitmap_ok_def nbits_def sizeof_dir_entry_def)
  show "disk_ok (my_disk file_fs)" by (simp add: disk_ok_def file_fs_def)
  show "heap_ok file_fs" using small_fs_ok(3) by (simp add: heap_ok_def file_fs_def small_fs_def allocator_ok_def)
  show "mem_for m file_fs" if "m \<le> 61" using that pick_addr_some by (simp add: mem_for_def file_fs_def small_fs_def)
  show "file_ok (cur_part file_fs) (my_disk file_fs) ((sample_inode 5)\<lparr>write_deny := False, i_open_cnts := 1\<rparr>)"
    unfolding file_ok_def
  proof -
    let ?i = "(sample_inode 5)\<lparr>write_deny := False, i_open_cnts := 1\<rparr>" and ?p = "cur_part file_fs"
    have t: "top_block ?i = 1" by (simp add: top_block_def sample_inode_def)
    have ob: "own_blocks (my_disk file_fs) ?i = [620, 621]"
      unfolding own_blocks_def t by (simp add: file_block_def sample_inode_def upt_conv_Cons)
    have "data_sector ?p 620" "data_sector ?p 621"
      by (simp_all add: data_sector_def file_fs_def small_part_def small_sb_def)
    moreover have "block_used ?p 620" "block_used ?p 621"
      by (simp_all add: block_used_def block_no_def file_fs_def small_part_def small_sb_def bit_used_def bit_at_def nbits_def
          bit_numeral_rec)
    moreover have "i_sectors ?i ! k = 0" if "1 < k" "k \<le> 12" for k
      using that by (simp add: sample_inode_def nth_Cons')
    ultimately show "length (i_sectors ?i) = 13 \<and> unat (i_size ?i) < 71680 \<and>
      (if i_sectors ?i ! 0 = 0 then i_size ?i = 0 \<and> i_sectors ?i = replicate 13 0
       else distinct (own_blocks (my_disk file_fs) ?i) \<and> (\<forall>b \<in> set (own_blocks (my_disk file_fs) ?i). data_sector ?p b \<and> block_used ?p b) \<and>
           (\<forall>k. top_block ?i < k \<and> k \<le> 12 \<and> (k < 12 \<or> top_block ?i < 12) \<longrightarrow> i_sectors ?i ! k = 0))"
      unfolding ob t by (auto simp: sample_inode_def)
  qed
qed

theorem file_read_refines_contents_witness:
  "file_read 0 1000 file_fs = Inr ((600, replicate 412 7 @ replicate 188 9),
     file_fs\<lparr>file_table := (file_table file_fs)[0 := \<lparr>fd_pos = 700, fd_flag = 0, fd_inode = 1\<rparr>], mallocs := 2\<rparr>)"
proof -
  have fl: "0 < length (file_table file_fs)" "inodes file_fs (fd_inode (file_table file_fs ! 0)) =
      Some ((sample_inode 5)\<lparr>write_deny := False, i_open_cnts := 1\<rparr>)" "fd_pos (file_table file_fs ! 0) = 100"
    by (simp_all add: file_fs_def small_fs_def)
  have b: "file_bytes (my_disk file_fs) ((sample_inode 5)\<lparr>write_deny := False, i_open_cnts := 1\<rparr>) =
      replicate 512 7 @ replicate 188 9"
  proof (rule nth_equalityI)
    fix j assume "j < length (file_bytes (my_disk file_fs) ((sample_inode 5)\<lparr>write_deny := False, i_open_cnts := 1\<rparr>))"
    then have j: "j < 700" by (simp add: sample_inode_def)
    then have "j div 512 = (if j < 512 then 0 else 1)" by (auto intro: div_nat_eqI)
    then show "file_bytes (my_disk file_fs) ((sample_inode 5)\<lparr>write_deny := False, i_open_cnts := 1\<rparr>) ! j =
        (replicate 512 7 @ replicate 188 9) ! j"
      using j by (simp add: file_bytes_def byte_at_def file_block_def sample_inode_def file_fs_def nth_append)
  qed (simp add: sample_inode_def)
  show ?thesis
    using file_read_refines_contents [OF file_fs_ok(1,2,3,4) fl(1,2) file_fs_ok(5) fl(3), of 1000 600] fl
    unfolding b by (simp add: sample_inode_def) (simp add: file_fs_def small_fs_def)
qed

text \<open>
  C37: \<^verbatim>\<open>file_write\<close> fills all 140 blocks of a file, \<^verbatim>\<open>file_read\<close> asserts that the block of the last byte's successor is below 139: a read
  that reaches byte 71168 of a file, 512 before the largest size, stops the kernel.
\<close>

theorem file_read_last_block_panics:
  assumes "heap_ok s" "mem_for 2 s"
    and "fl < length (file_table s)" "inodes s (fd_inode (file_table s ! fl)) = Some i"
    and "fd_pos (file_table s ! fl) = pos" "unat pos + unat count \<le> unat (i_size i)" "139 * 512 \<le> unat pos + unat count"
  shows "file_read fl count s = Inl Panic"
proof -
  obtain a c where m: "fs_malloc BLOCK_SIZE s = Inr (a, s\<lparr>mallocs := Suc (mallocs s), live := a # live s\<rparr>)"
    "fs_malloc (BLOCK_SIZE + 48) (s\<lparr>mallocs := Suc (mallocs s), live := a # live s\<rparr>) =
       Inr (c, s\<lparr>mallocs := Suc (Suc (mallocs s)), live := c # a # live s\<rparr>)" "a \<noteq> 0" "c \<noteq> 0"
    by (rule two_mallocs [OF assms(1,2)])
  have u: "unat (pos + count) = unat pos + unat count"
    using assms(6) unat_u32_lt [of "i_size i"] by (subst unat_add_no_wrap32) simp_all
  then have nb: "\<not> i_size i < pos + count" using assms(6) by (simp add: word_less_nat_alt)
  have "139 \<le> (unat pos + unat count) div 512" using assms(7) by (simp add: less_eq_div_iff_mult_less_eq)
  then have "\<not> (pos + count) div BLOCK_SIZE < 139" by (simp add: word_less_nat_alt unat_mod_512 u)
  then show ?thesis
    using assms(3-5) nb m by (simp add: file_read_def run_simps Let_def)
qed

text \<open>An open file of 71200 bytes, positioned at its last hundred.\<close>

definition long_fs :: fstate where
  "long_fs = file_fs\<lparr>inodes := [1 \<mapsto> (sample_inode 5)\<lparr>i_size := 71200\<rparr>],
     file_table := [\<lparr>fd_pos = 71100, fd_flag = 0, fd_inode = 1\<rparr>]\<rparr>"

theorem file_read_last_block_panics_witness: "file_read 0 100 long_fs = Inl Panic"
proof -
  have "heap_ok long_fs" "mem_for 2 long_fs"
    using file_fs_ok(3) file_fs_ok(4) [of 2] by (simp_all add: heap_ok_def long_fs_def file_fs_def allocator_ok_def mem_for_def)
  then show ?thesis
    by (rule file_read_last_block_panics [where pos = 71100 and i = "(sample_inode 5)\<lparr>i_size := 71200\<rparr>"]) (simp_all add: long_fs_def sample_inode_def)
qed

end
