(* ===== verification/File_Grow.thy ===== *)
theory File_Grow
  imports File_Data
begin

text \<open>
  Growing a file: the allocation of blocks for \<^verbatim>\<open>file_write\<close>, one after the other, with the bitmap on the
  disk, and what it leaves alone.
\<close>

section \<open>New blocks\<close>

text \<open>
  The invariant of the allocation, and what a run of allocations for the inode at \<open>a\<close> does to the state:
  the blocks \<open>new\<close> were free and are in use, and apart from the bitmap, its sectors and the
  inode nothing changes.
\<close>

definition alloc_inv :: "fstate \<Rightarrow> bool" where
  "alloc_inv s \<longleftrightarrow> part_ok (cur_part s) \<and> disk_ok (my_disk s) \<and>
     0 \<in> bit_used (block_bitmap (cur_part s))"

definition free_cnt :: "partition \<Rightarrow> nat" where
  "free_cnt p = card ({..<nbits (block_bitmap p)} - bit_used (block_bitmap p))"

definition grown :: "u32 \<Rightarrow> u32 list \<Rightarrow> fstate \<Rightarrow> fstate \<Rightarrow> bool" where
  "grown a new s s' \<longleftrightarrow>
     (\<exists>d bm j. s' = s\<lparr>my_disk := d, cur_part := (cur_part s)\<lparr>block_bitmap := bm\<rparr>, inodes := (inodes s)(a := j)\<rparr>) \<and>
     alloc_inv s' \<and> distinct new \<and> (\<forall>b \<in> set new. data_sector (cur_part s) b \<and> \<not> block_used (cur_part s) b) \<and>
     bit_used (block_bitmap (cur_part s')) = bit_used (block_bitmap (cur_part s)) \<union> block_no (cur_part s) ` set new \<and>
     free_cnt (cur_part s) = free_cnt (cur_part s') + length new \<and>
     (\<forall>x. unat (inode_bitmap_lba (sb (cur_part s))) \<le> unat x \<longrightarrow> my_disk s' x = my_disk s x)"

lemma upd_order:
  "s\<lparr>inodes := I, cur_part := P\<rparr> = s\<lparr>cur_part := P, inodes := I\<rparr>"
  "s\<lparr>inodes := I, my_disk := D\<rparr> = s\<lparr>my_disk := D, inodes := I\<rparr>"
  "s\<lparr>cur_part := P, my_disk := D\<rparr> = s\<lparr>my_disk := D, cur_part := P\<rparr>"
  by simp_all

lemma part_upd_simps [simp]:
  "data_sector (p\<lparr>block_bitmap := bm\<rparr>) = data_sector p" "block_no (p\<lparr>block_bitmap := bm\<rparr>) = block_no p"
  "table_sector (p\<lparr>block_bitmap := bm\<rparr>) = table_sector p" "inode_table (p\<lparr>block_bitmap := bm\<rparr>) = inode_table p"
  by (simp_all add: fun_eq_iff data_sector_def block_no_def table_sector_def inode_table_def)

lemma data_sector_above:
  "part_ok p \<Longrightarrow> data_sector p x \<Longrightarrow> unat (inode_bitmap_lba (sb p)) \<le> unat x"
  by (auto simp: part_ok_def data_sector_def)

lemma grown_data: "grown a new s s' \<Longrightarrow> part_ok (cur_part s) \<Longrightarrow> data_sector (cur_part s) x \<Longrightarrow> my_disk s' x = my_disk s x"
  using data_sector_above by (auto simp: grown_def)

lemma block_no_inj: "block_no p x = block_no p y \<Longrightarrow> x = y"
  unfolding block_no_def by (metis diff_add_cancel unsigned_word_eqI)

lemma grown_used:
  "grown a new s s' \<Longrightarrow> block_used (cur_part s') x \<longleftrightarrow> block_used (cur_part s) x \<or> x \<in> set new"
proof -
  assume g: "grown a new s s'"
  then have "block_no (cur_part s') = block_no (cur_part s)" by (auto simp: grown_def)
  moreover have "bit_used (block_bitmap (cur_part s')) = bit_used (block_bitmap (cur_part s)) \<union> block_no (cur_part s) ` set new"
    using g by (simp add: grown_def)
  moreover have "block_no (cur_part s) x \<in> block_no (cur_part s) ` set new \<longleftrightarrow> x \<in> set new"
    using block_no_inj by blast
  ultimately show ?thesis by (simp add: block_used_def)
qed

lemma grown_refl: "alloc_inv s \<Longrightarrow> grown a [] s s"
  by (auto simp: grown_def intro!: exI [of _ "my_disk s"] exI [of _ "block_bitmap (cur_part s)"] exI [of _ "inodes s a"])

lemma grown_trans:
  assumes 1: "grown a xs s s1" and 2: "grown a ys s1 s2"
  shows "grown a (xs @ ys) s s2"
proof -
  from 1 obtain d bm j where s1: "s1 = s\<lparr>my_disk := d, cur_part := (cur_part s)\<lparr>block_bitmap := bm\<rparr>, inodes := (inodes s)(a := j)\<rparr>"
    by (auto simp: grown_def)
  from 2 obtain d' bm' j' where s2: "s2 = s1\<lparr>my_disk := d', cur_part := (cur_part s1)\<lparr>block_bitmap := bm'\<rparr>, inodes := (inodes s1)(a := j')\<rparr>"
    by (auto simp: grown_def)
  have "s2 = s\<lparr>my_disk := d', cur_part := (cur_part s)\<lparr>block_bitmap := bm'\<rparr>, inodes := (inodes s)(a := j')\<rparr>"
    unfolding s2 s1 by simp
  moreover have p: "data_sector (cur_part s1) = data_sector (cur_part s)" "block_no (cur_part s1) = block_no (cur_part s)"
    "sb (cur_part s1) = sb (cur_part s)" by (simp_all add: s1)
  moreover have "set xs \<inter> set ys = {}" "\<forall>b \<in> set ys. \<not> block_used (cur_part s) b"
    using 2 grown_used [OF 1] by (auto simp: grown_def)
  moreover have "bit_used (block_bitmap (cur_part s2)) =
      bit_used (block_bitmap (cur_part s)) \<union> block_no (cur_part s) ` set (xs @ ys)"
    using 1 2 p(2) unfolding grown_def by auto
  moreover have "free_cnt (cur_part s) = free_cnt (cur_part s2) + length (xs @ ys)"
    using 1 2 unfolding grown_def by simp
  moreover have "\<forall>x. unat (inode_bitmap_lba (sb (cur_part s))) \<le> unat x \<longrightarrow> my_disk s2 x = my_disk s x"
    using 1 2 p(3) unfolding grown_def by simp
  ultimately show ?thesis using 1 2 unfolding grown_def by auto
qed

text \<open>One allocation: the block, and the sync that follows with whatever was stored in the inode.\<close>

lemma alloc_block_ok:
  assumes inv: "alloc_inv s" and free: "0 < free_cnt (cur_part s)"
  obtains lba bm where
    "block_bitmap_alloc s = Inr (lba, s\<lparr>cur_part := (cur_part s)\<lparr>block_bitmap := bm\<rparr>\<rparr>)" "lba \<noteq> -1"
    "lba - data_start_lba (sb (cur_part s)) \<noteq> 0" "lba - data_start_lba (sb (cur_part s)) \<noteq> -1"
    "\<And>j. grown a [lba] s (s\<lparr>cur_part := (cur_part s)\<lparr>block_bitmap := bm\<rparr>, inodes := (inodes s)(a := j)\<rparr>)"
    "\<And>j. \<exists>s'. bitmap_sync (lba - data_start_lba (sb (cur_part s))) BLOCK_BITMAP
            (s\<lparr>cur_part := (cur_part s)\<lparr>block_bitmap := bm\<rparr>, inodes := (inodes s)(a := j)\<rparr>) = Inr ((), s') \<and>
          grown a [lba] s s' \<and> inodes s' a = j"
proof -
  let ?p = "cur_part s" and ?bm = "block_bitmap (cur_part s)"
  have ok: "part_ok ?p" "disk_ok (my_disk s)" "0 \<in> bit_used ?bm" using inv by (simp_all add: alloc_inv_def)
  have bok: "bitmap_ok ?bm" using ok(1) by (simp add: part_ok_def)
  have "bit_used ?bm \<noteq> {..<nbits ?bm}" using free unfolding free_cnt_def by (metis Diff_cancel card.empty less_irrefl)
  from block_bitmap_alloc_ok [OF ok(1) this] obtain bm where bm:
    "block_bitmap_alloc s = Inr (data_start_lba (sb ?p) + of_nat (first_free ?bm), s\<lparr>cur_part := ?p\<lparr>block_bitmap := bm\<rparr>\<rparr>)"
    "part_ok (?p\<lparr>block_bitmap := bm\<rparr>)" "bit_used bm = insert (first_free ?bm) (bit_used ?bm)"
    "data_sector ?p (data_start_lba (sb ?p) + of_nat (first_free ?bm))"
    "unat (of_nat (first_free ?bm) :: u32) = first_free ?bm" "first_free ?bm < nbits ?bm"
    "bitmap_set ?bm (of_nat (first_free ?bm)) 1 = Inr bm" by blast
  define lba where "lba = data_start_lba (sb ?p) + of_nat (first_free ?bm)"
  have idx: "lba - data_start_lba (sb ?p) = of_nat (first_free ?bm)" by (simp add: lba_def)
  have no: "block_no ?p lba = first_free ?bm" by (simp add: block_no_def idx bm(5))
  have "first_free ?bm \<noteq> 0" using ok(3) first_free_notin [of ?bm] by metis
  then have i0: "lba - data_start_lba (sb ?p) \<noteq> 0" using bm(5) idx by auto
  have "unat (of_nat (first_free ?bm) :: u32) < 4294967295" using bm(5,6) bitmap_ok_index [OF bok bm(6)] by simp
  then have i1: "lba - data_start_lba (sb ?p) \<noteq> -1" unfolding idx by (rule unat_lt_not_minus_1)
  have "lba \<le> max_lba" using data_sector_max [OF ok(1) bm(4)] by (simp add: lba_def)
  then have l1: "lba \<noteq> -1" by (intro unat_lt_not_minus_1) (simp add: word_le_nat_alt unat_max_lba)
  note set = bm(7)
  have lt: "unat (of_nat (first_free ?bm) :: u32) < nbits ?bm" using bm(5,6) by simp
  have nu: "\<not> block_used ?p lba" using first_free_notin no by (simp add: block_used_def)
  have nb: "nbits bm = nbits ?bm" using bitmap_set_frame [OF set] by (simp add: nbits_def)
  have fc: "free_cnt ?p = free_cnt (?p\<lparr>block_bitmap := bm\<rparr>) + 1"
  proof -
    from nb have "{..<nbits bm} - bit_used bm = ({..<nbits ?bm} - bit_used ?bm) - {first_free ?bm}" using bm(3) by auto
    then show ?thesis
      using bm(6) first_free_notin [of ?bm] free by (simp add: free_cnt_def card_Diff_singleton)
  qed
  have gr: "grown a [lba] s (s\<lparr>my_disk := d, cur_part := ?p\<lparr>block_bitmap := bm\<rparr>, inodes := (inodes s)(a := j)\<rparr>)"
    if d: "disk_ok d" "\<And>x. unat (inode_bitmap_lba (sb ?p)) \<le> unat x \<Longrightarrow> d x = my_disk s x" for d j
    unfolding grown_def
  proof (intro conjI)
    let ?s' = "s\<lparr>my_disk := d, cur_part := ?p\<lparr>block_bitmap := bm\<rparr>, inodes := (inodes s)(a := j)\<rparr>"
    show "\<exists>d' bm' j'. ?s' = s\<lparr>my_disk := d', cur_part := ?p\<lparr>block_bitmap := bm'\<rparr>, inodes := (inodes s)(a := j')\<rparr>" by blast
    show "alloc_inv ?s'" using bm(2,3) d(1) ok(3) by (simp add: alloc_inv_def)
    show "\<forall>b \<in> set [lba]. data_sector ?p b \<and> \<not> block_used ?p b" using bm(4) nu by (simp add: lba_def)
    show "bit_used (block_bitmap (cur_part ?s')) = bit_used ?bm \<union> block_no ?p ` set [lba]" using bm(3) no by simp
    show "free_cnt ?p = free_cnt (cur_part ?s') + length [lba]" using fc by simp
    show "\<forall>x. unat (inode_bitmap_lba (sb ?p)) \<le> unat x \<longrightarrow> my_disk ?s' x = my_disk s x" using d(2) by simp
  qed simp
  show ?thesis
  proof (rule that [of lba bm])
    fix j
    let ?s = "s\<lparr>cur_part := ?p\<lparr>block_bitmap := bm\<rparr>, inodes := (inodes s)(a := j)\<rparr>" and ?k = "first_free ?bm div 4096"
    define d where "d = (my_disk s)(block_bitmap_lba (sb ?p) + of_nat ?k := sub_buf (512 * ?k) 512 (bits bm))"
    have pre: "part_ok (cur_part ?s)" "unat (of_nat (first_free ?bm) :: u32) < nbits (block_bitmap (cur_part ?s))"
      using bm(2) lt nb by simp_all
    note sync = bitmap_sync_block [OF pre, unfolded bm(5), simplified, folded d_def]
    have below: "unat (block_bitmap_lba (sb ?p)) + unat (block_bitmap_sects (sb ?p)) \<le> unat (inode_bitmap_lba (sb ?p))"
      using ok(1) by (simp add: part_ok_def)
    have dok: "disk_ok d" using ok(2) sync(4) by (simp add: d_def disk_ok_upd)
    have frame: "d x = my_disk s x" if "unat (inode_bitmap_lba (sb ?p)) \<le> unat x" for x
      using that below sync(2,3) by (auto simp: d_def)
    let ?s' = "s\<lparr>my_disk := d, cur_part := ?p\<lparr>block_bitmap := bm\<rparr>, inodes := (inodes s)(a := j)\<rparr>"
    have "grown a [lba] s ?s'" using dok frame by (rule gr)
    then show "\<exists>s'. bitmap_sync (lba - data_start_lba (sb ?p)) BLOCK_BITMAP
            (s\<lparr>cur_part := ?p\<lparr>block_bitmap := bm\<rparr>, inodes := (inodes s)(a := j)\<rparr>) = Inr ((), s') \<and>
          grown a [lba] s s' \<and> inodes s' a = j"
      using sync(1) by (intro exI [of _ ?s']) (simp add: idx upd_order)
    have "s\<lparr>my_disk := my_disk s\<rparr> = s" by simp
    then show "grown a [lba] s (s\<lparr>cur_part := ?p\<lparr>block_bitmap := bm\<rparr>, inodes := (inodes s)(a := j)\<rparr>)"
      using gr [OF ok(2), of j] by simp
  qed (use bm(1) i0 i1 l1 in \<open>simp_all add: lba_def\<close>)
qed

text \<open>The loop adds one new block after the other.\<close>

lemma grown_part:
  "grown a new s s' \<Longrightarrow> alloc_inv s' \<and> free_cnt (cur_part s) = free_cnt (cur_part s') + length new"
  by (simp add: grown_def)

lemma add_blocks_loop_ok:
  assumes "alloc_inv s" "will - idx \<le> free_cnt (cur_part s)" "inodes s a = Some i" "length (i_sectors i) = 13"
    and "length blocks = 140" "will \<le> 140" "\<And>k. idx \<le> k \<Longrightarrow> k < will \<Longrightarrow> k < 12 \<Longrightarrow> i_sectors i ! k = 0"
  shows "\<exists>new s' sect blocks'. add_blocks_loop msg a will idx blocks s = Inr (Some blocks', s') \<and> length new = will - idx \<and>
           grown a new s s' \<and> inodes s' a = Some (i\<lparr>i_sectors := sect\<rparr>) \<and> length sect = 13 \<and> length blocks' = 140 \<and>
           (\<forall>k < 13. sect ! k = (if idx \<le> k \<and> k < will \<and> k < 12 then new ! (k - idx) else i_sectors i ! k)) \<and>
           (\<forall>k < 140. blocks' ! k = (if idx \<le> k \<and> k < will then new ! (k - idx) else blocks ! k))"
  using assms
proof (induction "will - idx" arbitrary: idx s i blocks)
  case 0
  then have "will \<le> idx" by simp
  moreover from this have "add_blocks_loop msg a will idx blocks s = Inr (Some blocks, s)"
    by (subst add_blocks_loop.simps) (simp add: run_simps)
  moreover have "i = i\<lparr>i_sectors := i_sectors i\<rparr>" by simp
  ultimately show ?case
    using 0 by (intro exI [of _ "[]"] exI [of _ s] exI [of _ "i_sectors i"] exI [of _ blocks]) (auto simp: grown_refl)
next
  case (Suc n)
  have lt: "idx < will" "idx < 140" using Suc.hyps(2) Suc.prems(6) by simp_all
  have "0 < free_cnt (cur_part s)" using Suc.prems(2) lt by simp
  from alloc_block_ok [OF Suc.prems(1) this, of a] obtain lba bm where al:
    "block_bitmap_alloc s = Inr (lba, s\<lparr>cur_part := (cur_part s)\<lparr>block_bitmap := bm\<rparr>\<rparr>)" "lba \<noteq> -1"
    "lba - data_start_lba (sb (cur_part s)) \<noteq> 0" "lba - data_start_lba (sb (cur_part s)) \<noteq> -1"
    "\<And>j. grown a [lba] s (s\<lparr>cur_part := (cur_part s)\<lparr>block_bitmap := bm\<rparr>, inodes := (inodes s)(a := j)\<rparr>)"
    "\<And>j. \<exists>s'. bitmap_sync (lba - data_start_lba (sb (cur_part s))) BLOCK_BITMAP
            (s\<lparr>cur_part := (cur_part s)\<lparr>block_bitmap := bm\<rparr>, inodes := (inodes s)(a := j)\<rparr>) = Inr ((), s') \<and>
          grown a [lba] s s' \<and> inodes s' a = j" by blast
  define i1 where "i1 = (if idx < 12 then i\<lparr>i_sectors := (i_sectors i)[idx := lba]\<rparr> else i)"
  from al(6) [of "Some i1"] obtain s1 where s1:
    "bitmap_sync (lba - data_start_lba (sb (cur_part s))) BLOCK_BITMAP
       (s\<lparr>cur_part := (cur_part s)\<lparr>block_bitmap := bm\<rparr>, inodes := (inodes s)(a \<mapsto> i1)\<rparr>) = Inr ((), s1)"
    "grown a [lba] s s1" "inodes s1 a = Some i1" by blast
  have step: "add_blocks_loop msg a will idx blocks s = add_blocks_loop msg a will (Suc idx) (blocks[idx := lba]) s1"
  proof (cases "idx < 12")
    case True
    then show ?thesis
      using lt al(1,2) s1(1) Suc.prems(3,7)
      by (subst add_blocks_loop.simps) (simp add: run_simps set_sector_def i1_def)
  next
    case False
    then have "i1 = i" "(inodes s)(a \<mapsto> i1) = inodes s" using Suc.prems(3) by (simp_all add: i1_def fun_upd_idem)
    then have "s\<lparr>cur_part := (cur_part s)\<lparr>block_bitmap := bm\<rparr>, inodes := (inodes s)(a \<mapsto> i1)\<rparr> =
        s\<lparr>cur_part := (cur_part s)\<lparr>block_bitmap := bm\<rparr>\<rparr>" by simp
    with s1(1) show ?thesis
      using False lt al(1,2) by (subst add_blocks_loop.simps) (simp add: run_simps)
  qed
  have i1: "length (i_sectors i1) = 13" "\<And>k. k < 13 \<Longrightarrow> i_sectors i1 ! k = (if k = idx \<and> k < 12 then lba else i_sectors i ! k)"
    using Suc.prems(4) by (auto simp: i1_def)
  note g = grown_part [OF s1(2)]
  have "\<exists>new s' sect blocks'. add_blocks_loop msg a will (Suc idx) (blocks[idx := lba]) s1 = Inr (Some blocks', s') \<and>
           length new = will - Suc idx \<and>
           grown a new s1 s' \<and> inodes s' a = Some (i1\<lparr>i_sectors := sect\<rparr>) \<and> length sect = 13 \<and> length blocks' = 140 \<and>
           (\<forall>k < 13. sect ! k = (if Suc idx \<le> k \<and> k < will \<and> k < 12 then new ! (k - Suc idx) else i_sectors i1 ! k)) \<and>
           (\<forall>k < 140. blocks' ! k = (if Suc idx \<le> k \<and> k < will then new ! (k - Suc idx) else blocks[idx := lba] ! k))"
    by (rule Suc.hyps(1)) (use Suc.hyps(2) Suc.prems g s1(3) i1 lt in auto)
  then obtain new s' sect blocks' where IH:
    "add_blocks_loop msg a will (Suc idx) (blocks[idx := lba]) s1 = Inr (Some blocks', s')" "length new = will - Suc idx"
    "grown a new s1 s'" "inodes s' a = Some (i1\<lparr>i_sectors := sect\<rparr>)" "length sect = 13" "length blocks' = 140"
    "\<forall>k < 13. sect ! k = (if Suc idx \<le> k \<and> k < will \<and> k < 12 then new ! (k - Suc idx) else i_sectors i1 ! k)"
    "\<forall>k < 140. blocks' ! k = (if Suc idx \<le> k \<and> k < will then new ! (k - Suc idx) else blocks[idx := lba] ! k)"
    by blast
  have pick: "(lba # new) ! (k - idx) = (if k = idx then lba else new ! (k - Suc idx))" if "idx \<le> k" for k
    using that by (cases "k = idx") (auto simp: nth_Cons')
  have "\<forall>k < 13. sect ! k = (if idx \<le> k \<and> k < will \<and> k < 12 then (lba # new) ! (k - idx) else i_sectors i ! k)"
    using IH(7) i1(2) lt(1) pick by auto
  moreover have "\<forall>k < 140. blocks' ! k = (if idx \<le> k \<and> k < will then (lba # new) ! (k - idx) else blocks ! k)"
    using IH(8) Suc.prems(5) lt(1) pick by (auto simp: nth_list_update)
  moreover have "grown a (lba # new) s s'" using grown_trans [OF s1(2) IH(3)] by simp
  moreover have "i1\<lparr>i_sectors := sect\<rparr> = i\<lparr>i_sectors := sect\<rparr>" by (simp add: i1_def)
  ultimately show ?case
    using step IH(1,2,4,5,6) lt(1)
    by (intro exI [of _ "lba # new"] exI [of _ s'] exI [of _ sect] exI [of _ blocks']) simp
qed

end
