(* ===== verification/File_Blocks.thy ===== *)
theory File_Blocks
  imports File_Grow "HOL-Library.Multiset"
begin

text \<open>
  The blocks of a file that grows: its invariant for the blocks up to a given one, and the proof that the five cases of
  \<^verbatim>\<open>file_write\<close> collect the addresses of all blocks to write and keep the invariant.
\<close>

section \<open>The blocks of a growing file\<close>

text \<open>The blocks 0 to \<open>tp\<close> of a file, whatever its size.\<close>

definition own_upto :: "(u32 \<Rightarrow> u8 list) \<Rightarrow> inode \<Rightarrow> nat \<Rightarrow> u32 list" where
  "own_upto d i tp = map (file_block d i) [0..<Suc tp] @ (if 12 \<le> tp then [i_sectors i ! 12] else [])"

definition blocks_ok :: "partition \<Rightarrow> (u32 \<Rightarrow> u8 list) \<Rightarrow> inode \<Rightarrow> nat \<Rightarrow> bool" where
  "blocks_ok p d i tp \<longleftrightarrow> length (i_sectors i) = 13 \<and> distinct (own_upto d i tp) \<and>
     (\<forall>b \<in> set (own_upto d i tp). data_sector p b \<and> block_used p b) \<and>
     (\<forall>k. tp < k \<and> k \<le> 12 \<and> (k < 12 \<or> tp < 12) \<longrightarrow> i_sectors i ! k = 0)"

lemma file_ok_blocks:
  "i_sectors i ! 0 \<noteq> 0 \<Longrightarrow> file_ok p d i \<longleftrightarrow> unat (i_size i) < 71680 \<and> blocks_ok p d i (top_block i)"
  by (auto simp: file_ok_def blocks_ok_def own_blocks_def own_upto_def)

lemma blocks_okD:
  assumes "part_ok p" "blocks_ok p d i tp"
  shows "k \<le> tp \<Longrightarrow> data_sector p (file_block d i k) \<and> block_used p (file_block d i k) \<and> file_block d i k \<le> max_lba"
    "12 \<le> tp \<Longrightarrow> data_sector p (i_sectors i ! 12) \<and> block_used p (i_sectors i ! 12) \<and> i_sectors i ! 12 \<le> max_lba \<and> i_sectors i ! 12 \<noteq> 0"
    "12 \<le> tp \<Longrightarrow> k \<le> tp \<Longrightarrow> file_block d i k \<noteq> i_sectors i ! 12"
    "j \<le> tp \<Longrightarrow> k \<le> tp \<Longrightarrow> file_block d i j = file_block d i k \<longleftrightarrow> j = k"
proof -
  have dis: "distinct (own_upto d i tp)" and all: "\<forall>b \<in> set (own_upto d i tp). data_sector p b \<and> block_used p b"
    using assms(2) by (simp_all add: blocks_ok_def)
  have mem: "file_block d i k \<in> set (own_upto d i tp)" if "k \<le> tp" for k
    using that by (simp add: own_upto_def del: upt_Suc)
  have tab: "i_sectors i ! 12 \<in> set (own_upto d i tp)" if "12 \<le> tp" using that by (simp add: own_upto_def)
  show "k \<le> tp \<Longrightarrow> data_sector p (file_block d i k) \<and> block_used p (file_block d i k) \<and> file_block d i k \<le> max_lba"
    using mem all data_sector_max [OF assms(1)] by blast
  show "12 \<le> tp \<Longrightarrow> data_sector p (i_sectors i ! 12) \<and> block_used p (i_sectors i ! 12) \<and> i_sectors i ! 12 \<le> max_lba \<and> i_sectors i ! 12 \<noteq> 0"
    using tab all data_sector_max [OF assms(1)] data_sector_nonzero [OF assms(1)] by blast
  show "file_block d i k \<noteq> i_sectors i ! 12" if "12 \<le> tp" "k \<le> tp"
  proof -
    have "i_sectors i ! 12 \<notin> file_block d i ` {0..<Suc tp}" using dis that(1) by (simp add: own_upto_def del: upt_Suc)
    moreover have "file_block d i k \<in> file_block d i ` {0..<Suc tp}" using that(2) by (intro imageI) simp
    ultimately show ?thesis by metis
  qed
  have inj: "inj_on (file_block d i) {0..<Suc tp}" using dis by (simp add: own_upto_def distinct_map del: upt_Suc)
  show "j \<le> tp \<Longrightarrow> k \<le> tp \<Longrightarrow> file_block d i j = file_block d i k \<longleftrightarrow> j = k"
    using inj by (auto dest: inj_onD)
qed

text \<open>
  The blocks \<open>new\<close> join a file that had the blocks up to \<open>t\<close>, with the table \<open>tb\<close> when the file
  had none and needs one.
\<close>

lemma blocks_extend:
  assumes ok: "part_ok p" "blocks_ok p d i t" and tw: "t \<le> w" "length new = w - t"
    and len: "length sect = 13"
    and sect: "\<And>k. k < 12 \<Longrightarrow> sect ! k = (if t < k \<and> k \<le> w then new ! (k - Suc t) else i_sectors i ! k)"
    and tab: "sect ! 12 = (if t < 12 \<and> 12 \<le> w then tb else i_sectors i ! 12)"
    and ind: "\<And>k. 12 \<le> k \<Longrightarrow> k \<le> w \<Longrightarrow>
      get32s 128 (d' (sect ! 12)) ! (k - 12) = (if t < k then new ! (k - Suc t) else file_block d i k)"
    and fresh: "distinct (new @ (if t < 12 \<and> 12 \<le> w then [tb] else []))"
      "\<forall>b \<in> set (new @ (if t < 12 \<and> 12 \<le> w then [tb] else [])). data_sector p b \<and> \<not> block_used p b"
    and p': "data_sector p' = data_sector p"
      "\<And>x. block_used p' x \<longleftrightarrow> block_used p x \<or> x \<in> set (new @ (if t < 12 \<and> 12 \<le> w then [tb] else []))"
  shows "blocks_ok p' d' (i\<lparr>i_sectors := sect\<rparr>) w"
    "k \<le> w \<Longrightarrow> file_block d' (i\<lparr>i_sectors := sect\<rparr>) k = (if t < k then new ! (k - Suc t) else file_block d i k)"
proof -
  let ?i = "i\<lparr>i_sectors := sect\<rparr>" and ?tb = "if t < 12 \<and> 12 \<le> w then [tb] else []"
  show fb: "file_block d' ?i k = (if t < k then new ! (k - Suc t) else file_block d i k)" if "k \<le> w" for k
    using that sect ind by (auto simp: file_block_def)
  have old: "i_sectors i ! k = 0" if "t < k" "k \<le> 12" "k < 12 \<or> t < 12" for k
    using that ok(2) by (auto simp: blocks_ok_def)
  have "map (file_block d' ?i) [0..<Suc w] = map (file_block d i) [0..<Suc t] @ new"
  proof (rule nth_equalityI)
    show "length (map (file_block d' ?i) [0..<Suc w]) = length (map (file_block d i) [0..<Suc t] @ new)" using tw by simp
    fix j assume "j < length (map (file_block d' ?i) [0..<Suc w])"
    then show "map (file_block d' ?i) [0..<Suc w] ! j = (map (file_block d i) [0..<Suc t] @ new) ! j"
      using fb [of j] by (auto simp: nth_append simp del: upt_Suc)
  qed
  then have own: "own_upto d' ?i w = map (file_block d i) [0..<Suc t] @ new @ (if 12 \<le> w then [sect ! 12] else [])"
    by (simp add: own_upto_def del: upt_Suc)
  have perm: "mset (own_upto d' ?i w) = mset (own_upto d i t) + mset (new @ ?tb)"
    unfolding own using tab tw(1) by (auto simp: own_upto_def simp del: upt_Suc)
  then have "set (own_upto d' ?i w) = set (own_upto d i t) \<union> set (new @ ?tb)"
    by (metis set_mset_mset set_mset_union)
  moreover from perm have "distinct (own_upto d' ?i w) \<longleftrightarrow> distinct (own_upto d i t @ (new @ ?tb))"
    by (metis mset_append mset_eq_imp_distinct_iff)
  moreover have "distinct (own_upto d i t)" "\<forall>b \<in> set (own_upto d i t). data_sector p b \<and> block_used p b"
    using ok(2) by (simp_all add: blocks_ok_def)
  moreover have "sect ! k = 0" if "w < k" "k \<le> 12" "k < 12 \<or> w < 12" for k
    using that old [of k] sect [of k] tab tw(1) by (cases "k = 12") auto
  ultimately show "blocks_ok p' d' ?i w"
    unfolding blocks_ok_def using fresh p' len by auto
qed


section \<open>The addresses of the blocks to write\<close>

text \<open>
  A state in which the inode at \<open>a\<close> has become \<open>i'\<close> and blocks were taken: behind the bitmap of the blocks no sector
  has changed but those in \<open>X\<close> and free sectors of the data area.
\<close>

definition regrown :: "u32 \<Rightarrow> inode \<Rightarrow> u32 set \<Rightarrow> fstate \<Rightarrow> fstate \<Rightarrow> bool" where
  "regrown a i' X s s' \<longleftrightarrow>
     (\<exists>d bm. s' = s\<lparr>my_disk := d, cur_part := (cur_part s)\<lparr>block_bitmap := bm\<rparr>, inodes := (inodes s)(a \<mapsto> i')\<rparr>) \<and>
     alloc_inv s' \<and> (\<forall>x. block_used (cur_part s) x \<longrightarrow> block_used (cur_part s') x) \<and>
     (\<forall>x. unat (inode_bitmap_lba (sb (cur_part s))) \<le> unat x \<and> x \<notin> X \<and> (data_sector (cur_part s) x \<longrightarrow> block_used (cur_part s) x)
        \<longrightarrow> my_disk s' x = my_disk s x)"

lemma grown_regrown:
  assumes "grown a new s s'" "inodes s' a = Some i'" "part_ok (cur_part s)"
  shows "regrown a i' X s s'"
proof -
  from assms(1) obtain d bm j where
    s': "s' = s\<lparr>my_disk := d, cur_part := (cur_part s)\<lparr>block_bitmap := bm\<rparr>, inodes := (inodes s)(a := j)\<rparr>"
    by (auto simp: grown_def)
  then have "s' = s\<lparr>my_disk := d, cur_part := (cur_part s)\<lparr>block_bitmap := bm\<rparr>, inodes := (inodes s)(a \<mapsto> i')\<rparr>"
    using assms(2) by simp
  then show ?thesis
    unfolding regrown_def using assms(1) grown_used [OF assms(1)] grown_part [OF assms(1)] by (auto simp: grown_def)
qed

lemma regrown_data:
  assumes "regrown a i' X s s'" "part_ok (cur_part s)" "data_sector (cur_part s) x" "block_used (cur_part s) x" "x \<notin> X"
  shows "my_disk s' x = my_disk s x"
  using assms data_sector_above by (auto simp: regrown_def)

lemma regrown_refl: "alloc_inv s \<Longrightarrow> inodes s a = Some i \<Longrightarrow> regrown a i X s s"
  using grown_regrown [OF grown_refl] by (simp add: alloc_inv_def)

lemma first_block_ok:
  assumes "alloc_inv s" "inodes s a = Some i" "file_ok (cur_part s) (my_disk s) i"
    and "i_sectors i ! 0 = 0 \<Longrightarrow> 0 < free_cnt (cur_part s)"
  obtains s' i' where "first_block a s = Inr (True, s')" "regrown a i' {} s s'" "inodes s' a = Some i'"
    "i_size i' = i_size i" "i_no i' = i_no i" "file_ok (cur_part s') (my_disk s') i'" "i_sectors i' ! 0 \<noteq> 0"
    "file_bytes (my_disk s') i' = file_bytes (my_disk s) i" "set (own_blocks (my_disk s') i') \<inter> {x. block_used (cur_part s) x} \<subseteq> set (own_blocks (my_disk s) i)"
    "free_cnt (cur_part s) = free_cnt (cur_part s') + (if i_sectors i ! 0 = 0 then 1 else 0)"
proof (cases "i_sectors i ! 0 = 0")
  case False
  then show ?thesis
    using assms by (intro that [of s i]) (auto simp: first_block_def run_simps regrown_refl)
next
  case True
  then have z: "i_size i = 0" "i_sectors i = replicate 13 0" using assms(3) by (simp_all add: file_ok_def)
  from alloc_block_ok [OF assms(1) assms(4) [OF True], of a] obtain lba bm where al:
    "block_bitmap_alloc s = Inr (lba, s\<lparr>cur_part := (cur_part s)\<lparr>block_bitmap := bm\<rparr>\<rparr>)" "lba \<noteq> -1"
    "lba - data_start_lba (sb (cur_part s)) \<noteq> 0" "lba - data_start_lba (sb (cur_part s)) \<noteq> -1"
    "\<And>j. grown a [lba] s (s\<lparr>cur_part := (cur_part s)\<lparr>block_bitmap := bm\<rparr>, inodes := (inodes s)(a := j)\<rparr>)"
    "\<And>j. \<exists>s'. bitmap_sync (lba - data_start_lba (sb (cur_part s))) BLOCK_BITMAP
            (s\<lparr>cur_part := (cur_part s)\<lparr>block_bitmap := bm\<rparr>, inodes := (inodes s)(a := j)\<rparr>) = Inr ((), s') \<and>
          grown a [lba] s s' \<and> inodes s' a = j" by blast
  let ?i = "i\<lparr>i_sectors := (replicate 13 0)[0 := lba]\<rparr>"
  from al(6) [of "Some ?i"] obtain s' where s':
    "bitmap_sync (lba - data_start_lba (sb (cur_part s))) BLOCK_BITMAP
       (s\<lparr>cur_part := (cur_part s)\<lparr>block_bitmap := bm\<rparr>, inodes := (inodes s)(a \<mapsto> ?i)\<rparr>) = Inr ((), s')"
    "grown a [lba] s s'" "inodes s' a = Some ?i" by blast
  have p: "part_ok (cur_part s)" using assms(1) by (simp add: alloc_inv_def)
  have lba: "data_sector (cur_part s) lba" "\<not> block_used (cur_part s) lba" "data_sector (cur_part s') = data_sector (cur_part s)"
    using s'(2) by (auto simp: grown_def)
  have own: "own_blocks (my_disk s') ?i = [lba]" using z(1) by (simp add: own_blocks_def top_block_def file_block_def)
  have "lba \<noteq> 0" using data_sector_nonzero [OF p lba(1)] .
  moreover have "i_sectors ?i ! k = 0" if "0 < k" "k \<le> 12" for k using that by simp
  ultimately have "file_ok (cur_part s') (my_disk s') ?i"
    using own z(1) lba grown_used [OF s'(2)] by (auto simp: file_ok_def top_block_def)
  moreover have "first_block a s = Inr (True, s')"
    using True assms(2) al(1,2,3) s'(1) z(2) by (simp add: first_block_def run_simps set_sector_def Let_def)
  moreover have "file_bytes (my_disk s') ?i = file_bytes (my_disk s) i" using z(1) by (simp add: file_bytes_def)
  ultimately show ?thesis
    using \<open>lba \<noteq> 0\<close> True s'(3) grown_regrown [OF s'(2,3) p] grown_part [OF s'(2)] lba(2) own
    by (intro that [of s' ?i]) simp_all
qed

lemma regrown_write:
  assumes "grown a new s s2" "inodes s2 a = Some i'" "part_ok (cur_part s)" "length b = 512"
    and "x0 \<in> X \<or> data_sector (cur_part s) x0 \<and> \<not> block_used (cur_part s) x0"
  shows "regrown a i' X s (s2\<lparr>my_disk := (my_disk s2)(x0 := b)\<rparr>)"
proof -
  note r = grown_regrown [OF assms(1-3), of X]
  then obtain d bm where
    s2: "s2 = s\<lparr>my_disk := d, cur_part := (cur_part s)\<lparr>block_bitmap := bm\<rparr>, inodes := (inodes s)(a \<mapsto> i')\<rparr>"
    by (auto simp: regrown_def)
  let ?s = "s2\<lparr>my_disk := (my_disk s2)(x0 := b)\<rparr>"
  show ?thesis
    unfolding regrown_def
  proof (intro conjI)
    have "?s = s\<lparr>my_disk := (my_disk s2)(x0 := b), cur_part := (cur_part s)\<lparr>block_bitmap := bm\<rparr>, inodes := (inodes s)(a \<mapsto> i')\<rparr>"
      by (subst (2) s2) simp
    then show "\<exists>d bm. ?s = s\<lparr>my_disk := d, cur_part := (cur_part s)\<lparr>block_bitmap := bm\<rparr>, inodes := (inodes s)(a \<mapsto> i')\<rparr>" by blast
    show "alloc_inv ?s" using r assms(4) by (simp add: regrown_def alloc_inv_def disk_ok_upd)
    show "\<forall>x. block_used (cur_part s) x \<longrightarrow> block_used (cur_part ?s) x" using r by (simp add: regrown_def)
    have "\<forall>x. unat (inode_bitmap_lba (sb (cur_part s))) \<le> unat x \<and> x \<notin> X \<and>
        (data_sector (cur_part s) x \<longrightarrow> block_used (cur_part s) x) \<longrightarrow> my_disk s2 x = my_disk s x"
      using r by (simp add: regrown_def)
    then show "\<forall>x. unat (inode_bitmap_lba (sb (cur_part s))) \<le> unat x \<and> x \<notin> X \<and>
        (data_sector (cur_part s) x \<longrightarrow> block_used (cur_part s) x) \<longrightarrow> my_disk ?s x = my_disk s x"
      using assms(5) by auto
  qed
qed

text \<open>What the collection of the addresses achieves, for a file that goes from block \<open>t\<close> to block \<open>w\<close>.\<close>

definition collected :: "u32 \<Rightarrow> inode \<Rightarrow> nat \<Rightarrow> nat \<Rightarrow> fstate \<Rightarrow> u32 list \<Rightarrow> u32 list \<Rightarrow> fstate \<Rightarrow> bool" where
  "collected a i t w s blocks sect s' \<longleftrightarrow>
     write_blocks a (Suc t) (Suc w) s = Inr (Some blocks, s') \<and> length blocks = 140 \<and>
     inodes s' a = Some (i\<lparr>i_sectors := sect\<rparr>) \<and>
     regrown a (i\<lparr>i_sectors := sect\<rparr>) (if 12 \<le> t then {i_sectors i ! 12} else {}) s s' \<and>
     blocks_ok (cur_part s') (my_disk s') (i\<lparr>i_sectors := sect\<rparr>) w \<and>
     (\<forall>k. t \<le> k \<and> k \<le> w \<longrightarrow> blocks ! k = file_block (my_disk s') (i\<lparr>i_sectors := sect\<rparr>) k) \<and>
     (\<forall>k \<le> t. file_block (my_disk s') (i\<lparr>i_sectors := sect\<rparr>) k = file_block (my_disk s) i k) \<and>
     (\<forall>k. t < k \<and> k \<le> w \<longrightarrow> \<not> block_used (cur_part s) (file_block (my_disk s') (i\<lparr>i_sectors := sect\<rparr>) k))"

lemma write_blocks_same:
  assumes "alloc_inv s" "inodes s a = Some i" "blocks_ok (cur_part s) (my_disk s) i t" "t < 140"
  shows "\<exists>blocks. collected a i t t s blocks (i_sectors i) s"
proof -
  have p: "part_ok (cur_part s)" "disk_ok (my_disk s)" using assms(1) by (simp_all add: alloc_inv_def)
  have len: "length (i_sectors i) = 13" using assms(3) by (simp add: blocks_ok_def)
  have same: "i\<lparr>i_sectors := i_sectors i\<rparr> = i" by simp
  show ?thesis
  proof (cases "t < 12")
    case True
    then show ?thesis
      using assms len unfolding collected_def same
      by (intro exI [of _ "(replicate 140 0)[t := i_sectors i ! t]"])
        (auto simp: write_blocks_def Let_def run_simps regrown_refl file_block_def)
  next
    case False
    then have tb: "i_sectors i ! 12 \<noteq> 0" "i_sectors i ! 12 \<le> max_lba" using blocks_okD(2) [OF p(1) assms(3)] by simp_all
    show ?thesis
      using False assms len p tb unfolding collected_def same
      by (intro exI [of _ "replicate 12 0 @ get32s 128 (my_disk s (i_sectors i ! 12))"])
        (auto simp: write_blocks_def Let_def run_simps regrown_refl file_block_def nth_append)
  qed
qed

lemma write_blocks_direct:
  assumes inv: "alloc_inv s" and i: "inodes s a = Some i" "blocks_ok (cur_part s) (my_disk s) i t"
    and tw: "t < w" "w < 12" and free: "w - t \<le> free_cnt (cur_part s)"
  shows "\<exists>blocks sect s'. collected a i t w s blocks sect s'"
proof -
  have p: "part_ok (cur_part s)" using inv by (simp add: alloc_inv_def)
  have len: "length (i_sectors i) = 13" and zero: "\<And>k. t < k \<Longrightarrow> k < 12 \<Longrightarrow> i_sectors i ! k = 0"
    using i(2) by (simp_all add: blocks_ok_def)
  have nz: "i_sectors i ! t \<noteq> 0"
    using blocks_okD(1) [OF p i(2), of t] data_sector_nonzero [OF p] tw by (simp add: file_block_def)
  let ?b = "(replicate 140 0)[t := i_sectors i ! t]"
  have "Suc w - Suc t \<le> free_cnt (cur_part s)" "length ?b = 140" "Suc w \<le> 140"
    "\<And>k. Suc t \<le> k \<Longrightarrow> k < Suc w \<Longrightarrow> k < 12 \<Longrightarrow> i_sectors i ! k = 0" using free tw zero by simp_all
  from add_blocks_loop_ok [OF inv this(1) i(1) len this(2-4), of "''file_write: block_bitmap_alloc for situation 1 failed''"]
  obtain new s' sect blocks where l:
    "add_blocks_loop ''file_write: block_bitmap_alloc for situation 1 failed'' a (Suc w) (Suc t) ?b s = Inr (Some blocks, s')"
    "length new = Suc w - Suc t" "grown a new s s'" "inodes s' a = Some (i\<lparr>i_sectors := sect\<rparr>)" "length sect = 13"
    "length blocks = 140"
    "\<forall>k < 13. sect ! k = (if Suc t \<le> k \<and> k < Suc w \<and> k < 12 then new ! (k - Suc t) else i_sectors i ! k)"
    "\<forall>k < 140. blocks ! k = (if Suc t \<le> k \<and> k < Suc w then new ! (k - Suc t) else ?b ! k)" by blast
  have run: "write_blocks a (Suc t) (Suc w) s = Inr (Some blocks, s')"
    using i(1) tw nz len l(1) by (simp add: write_blocks_def Let_def run_simps)
  have fr: "distinct new" "\<forall>b \<in> set new. data_sector (cur_part s) b \<and> \<not> block_used (cur_part s) b"
    "data_sector (cur_part s') = data_sector (cur_part s)" using l(3) by (auto simp: grown_def)
  note ext = blocks_extend [OF p i(2), of w new sect 0 "my_disk s'" "cur_part s'"]
  have ok: "blocks_ok (cur_part s') (my_disk s') (i\<lparr>i_sectors := sect\<rparr>) w"
    by (rule ext(1)) (use tw l(2,5,7) fr grown_used [OF l(3)] in auto)
  have fb: "file_block (my_disk s') (i\<lparr>i_sectors := sect\<rparr>) k = (if t < k then new ! (k - Suc t) else file_block (my_disk s) i k)"
    if "k \<le> w" for k
    by (rule ext(2)) (use that tw l(2,5,7) fr grown_used [OF l(3)] in auto)
  have nu: "\<not> block_used (cur_part s) (file_block (my_disk s') (i\<lparr>i_sectors := sect\<rparr>) k)" if "t < k" "k \<le> w" for k
  proof -
    have "new ! (k - Suc t) \<in> set new" using that l(2) by (intro nth_mem) simp
    then show ?thesis using fb [OF that(2)] that(1) fr(2) by simp
  qed
  have "blocks ! k = file_block (my_disk s') (i\<lparr>i_sectors := sect\<rparr>) k" if "t \<le> k" "k \<le> w" for k
    using that fb [OF that(2)] l(8) tw by (cases "k = t") (auto simp: file_block_def)
  then show ?thesis
    using run ok fb nu tw l(4,6) grown_regrown [OF l(3,4) p] unfolding collected_def
    by (intro exI [of _ blocks] exI [of _ sect] exI [of _ s']) auto
qed

text \<open>The table of the indirect blocks, as it is written, holds the addresses of the array from the twelfth on.\<close>

lemma table_written:
  "length blocks = 140 \<Longrightarrow> 12 \<le> k \<Longrightarrow> k < 140 \<Longrightarrow> get32s 128 (le32s (drop 12 blocks)) ! (k - 12) = blocks ! k"
  using get32s_le32s [of "drop 12 blocks" "[]"] by simp

lemma write_blocks_table:
  assumes inv: "alloc_inv s" and i: "inodes s a = Some i" "blocks_ok (cur_part s) (my_disk s) i t"
    and tw: "t < 12" "12 \<le> w" "w < 140" and free: "w - t < free_cnt (cur_part s)"
  shows "\<exists>blocks sect s'. collected a i t w s blocks sect s'"
proof -
  have p: "part_ok (cur_part s)" using inv by (simp add: alloc_inv_def)
  have len: "length (i_sectors i) = 13" and zero: "\<And>k. t < k \<Longrightarrow> k \<le> 12 \<Longrightarrow> i_sectors i ! k = 0"
    using i(2) tw(1) by (simp_all add: blocks_ok_def)
  have "0 < free_cnt (cur_part s)" using free by simp
  from alloc_block_ok [OF inv this, of a] obtain tb bm where al:
    "block_bitmap_alloc s = Inr (tb, s\<lparr>cur_part := (cur_part s)\<lparr>block_bitmap := bm\<rparr>\<rparr>)" "tb \<noteq> -1"
    "\<And>j. grown a [tb] s (s\<lparr>cur_part := (cur_part s)\<lparr>block_bitmap := bm\<rparr>, inodes := (inodes s)(a := j)\<rparr>)"
    by metis
  define i1 where "i1 = i\<lparr>i_sectors := (i_sectors i)[12 := tb]\<rparr>"
  define s1 where "s1 = s\<lparr>cur_part := (cur_part s)\<lparr>block_bitmap := bm\<rparr>, inodes := (inodes s)(a \<mapsto> i1)\<rparr>"
  have g1: "grown a [tb] s s1" using al(3) [of "Some i1"] by (simp add: s1_def)
  let ?b = "(replicate 140 0)[t := i_sectors i ! t]"
  have pre: "alloc_inv s1" "Suc w - Suc t \<le> free_cnt (cur_part s1)" "inodes s1 a = Some i1" "length (i_sectors i1) = 13"
    "length ?b = 140" "Suc w \<le> 140" "\<And>k. Suc t \<le> k \<Longrightarrow> k < Suc w \<Longrightarrow> k < 12 \<Longrightarrow> i_sectors i1 ! k = 0"
    using grown_part [OF g1] free tw zero len by (simp_all add: s1_def i1_def)
  from add_blocks_loop_ok [OF pre, of "''file_write: block_bitmap_alloc for situation 2 failed''"]
  obtain new s2 sect blocks where l:
    "add_blocks_loop ''file_write: block_bitmap_alloc for situation 2 failed'' a (Suc w) (Suc t) ?b s1 = Inr (Some blocks, s2)"
    "length new = Suc w - Suc t" "grown a new s1 s2" "inodes s2 a = Some (i1\<lparr>i_sectors := sect\<rparr>)" "length sect = 13"
    "length blocks = 140"
    "\<forall>k < 13. sect ! k = (if Suc t \<le> k \<and> k < Suc w \<and> k < 12 then new ! (k - Suc t) else i_sectors i1 ! k)"
    "\<forall>k < 140. blocks ! k = (if Suc t \<le> k \<and> k < Suc w then new ! (k - Suc t) else ?b ! k)" by blast
  note g = grown_trans [OF g1 l(3), simplified]
  have fr: "distinct (tb # new)" "\<forall>b \<in> set (tb # new). data_sector (cur_part s) b \<and> \<not> block_used (cur_part s) b"
    "data_sector (cur_part s2) = data_sector (cur_part s)" using g by (auto simp: grown_def)
  have tbm: "tb \<le> max_lba" using data_sector_max [OF p] fr(2) by simp
  let ?s = "s2\<lparr>my_disk := (my_disk s2)(tb := le32s (drop 12 blocks))\<rparr>"
  have i1s: "i1\<lparr>i_sectors := sect\<rparr> = i\<lparr>i_sectors := sect\<rparr>" by (simp add: i1_def)
  have sect: "sect ! k = (if t < k \<and> k \<le> w then new ! (k - Suc t) else i_sectors i ! k)" if "k < 12" for k
    using that l(7) by (auto simp: i1_def less_Suc_eq_le)
  have sect12: "sect ! 12 = tb" using l(7) len by (simp add: i1_def)
  have run: "write_blocks a (Suc t) (Suc w) s = Inr (Some blocks, ?s)"
    using i(1) tw len l(1,6) zero [of 12] al(1,2) tbm
    by (simp add: write_blocks_def Let_def run_simps set_sector_def s1_def i1_def)
  note ext = blocks_extend [OF p i(2), of w new sect tb "my_disk ?s" "cur_part ?s"]
  have tabk: "get32s 128 (my_disk ?s (sect ! 12)) ! (k - 12) = (if t < k then new ! (k - Suc t) else file_block (my_disk s) i k)"
    if "12 \<le> k" "k \<le> w" for k
    using that tw table_written [OF l(6) that(1)] l(8) by (simp add: sect12)
  have ok: "blocks_ok (cur_part ?s) (my_disk ?s) (i\<lparr>i_sectors := sect\<rparr>) w"
    by (rule ext(1)) (use tw l(2,5) sect sect12 tabk fr grown_used [OF g] in auto)
  have fb: "file_block (my_disk ?s) (i\<lparr>i_sectors := sect\<rparr>) k = (if t < k then new ! (k - Suc t) else file_block (my_disk s) i k)"
    if "k \<le> w" for k
    by (rule ext(2)) (use that tw l(2,5) sect sect12 tabk fr grown_used [OF g] in auto)
  have nu: "\<not> block_used (cur_part s) (file_block (my_disk ?s) (i\<lparr>i_sectors := sect\<rparr>) k)" if "t < k" "k \<le> w" for k
  proof -
    have "new ! (k - Suc t) \<in> set new" using that l(2) by (intro nth_mem) simp
    then show ?thesis using fb [OF that(2)] that(1) fr(2) by simp
  qed
  have "blocks ! k = file_block (my_disk ?s) (i\<lparr>i_sectors := sect\<rparr>) k" if "t \<le> k" "k \<le> w" for k
    using that fb [OF that(2)] l(8) tw by (cases "k = t") (auto simp: file_block_def)
  moreover have "regrown a (i\<lparr>i_sectors := sect\<rparr>) {} s ?s"
    by (rule regrown_write [OF g]) (use l(4,6) i1s p fr(2) in auto)
  ultimately show ?thesis
    using run ok fb nu tw l(4,6) i1s unfolding collected_def
    by (intro exI [of _ blocks] exI [of _ sect] exI [of _ ?s]) auto
qed

lemma write_blocks_indirect:
  assumes inv: "alloc_inv s" and i: "inodes s a = Some i" "blocks_ok (cur_part s) (my_disk s) i t"
    and tw: "12 \<le> t" "t < w" "w < 140" and free: "w - t \<le> free_cnt (cur_part s)"
  shows "\<exists>blocks sect s'. collected a i t w s blocks sect s'"
proof -
  have p: "part_ok (cur_part s)" "disk_ok (my_disk s)" using inv by (simp_all add: alloc_inv_def)
  have len: "length (i_sectors i) = 13" using i(2) by (simp add: blocks_ok_def)
  let ?tb = "i_sectors i ! 12"
  have tb: "?tb \<noteq> 0" "?tb \<le> max_lba" "block_used (cur_part s) ?tb" using blocks_okD(2) [OF p(1) i(2) tw(1)] by simp_all
  let ?b = "replicate 12 0 @ get32s 128 (my_disk s ?tb)"
  have pre: "Suc w - Suc t \<le> free_cnt (cur_part s)" "length ?b = 140" "Suc w \<le> 140"
    "\<And>k. Suc t \<le> k \<Longrightarrow> k < Suc w \<Longrightarrow> k < 12 \<Longrightarrow> i_sectors i ! k = 0" using free tw by simp_all
  from add_blocks_loop_ok [OF inv pre(1) i(1) len pre(2-4), of "''file_write: block_bitmap_alloc for situation 3 failed''"]
  obtain new s2 sect blocks where l:
    "add_blocks_loop ''file_write: block_bitmap_alloc for situation 3 failed'' a (Suc w) (Suc t) ?b s = Inr (Some blocks, s2)"
    "length new = Suc w - Suc t" "grown a new s s2" "inodes s2 a = Some (i\<lparr>i_sectors := sect\<rparr>)" "length sect = 13"
    "length blocks = 140"
    "\<forall>k < 13. sect ! k = (if Suc t \<le> k \<and> k < Suc w \<and> k < 12 then new ! (k - Suc t) else i_sectors i ! k)"
    "\<forall>k < 140. blocks ! k = (if Suc t \<le> k \<and> k < Suc w then new ! (k - Suc t) else ?b ! k)" by blast
  have sect: "sect ! k = i_sectors i ! k" if "k \<le> 12" for k using that l(7) tw(1) by simp
  have fr: "distinct new" "\<forall>b \<in> set new. data_sector (cur_part s) b \<and> \<not> block_used (cur_part s) b"
    "data_sector (cur_part s2) = data_sector (cur_part s)" using l(3) by (auto simp: grown_def)
  let ?s = "s2\<lparr>my_disk := (my_disk s2)(?tb := le32s (drop 12 blocks))\<rparr>"
  have run: "write_blocks a (Suc t) (Suc w) s = Inr (Some blocks, ?s)"
    using i(1) tw l(1,6) tb p(2) by (simp add: write_blocks_def Let_def run_simps)
  note ext = blocks_extend [OF p(1) i(2), of w new sect 0 "my_disk ?s" "cur_part ?s"]
  have old: "?b ! k = file_block (my_disk s) i k" if "12 \<le> k" for k
    using that by (simp add: file_block_def nth_append)
  have tabk: "get32s 128 (my_disk ?s (sect ! 12)) ! (k - 12) = (if t < k then new ! (k - Suc t) else file_block (my_disk s) i k)"
    if "12 \<le> k" "k \<le> w" for k
    using that tw table_written [OF l(6) that(1)] l(8) sect [of 12] old by simp
  have ok: "blocks_ok (cur_part ?s) (my_disk ?s) (i\<lparr>i_sectors := sect\<rparr>) w"
    by (rule ext(1)) (use tw l(2,5) sect tabk fr grown_used [OF l(3)] in auto)
  have fb: "file_block (my_disk ?s) (i\<lparr>i_sectors := sect\<rparr>) k = (if t < k then new ! (k - Suc t) else file_block (my_disk s) i k)"
    if "k \<le> w" for k
    by (rule ext(2)) (use that tw l(2,5) sect tabk fr grown_used [OF l(3)] in auto)
  have nu: "\<not> block_used (cur_part s) (file_block (my_disk ?s) (i\<lparr>i_sectors := sect\<rparr>) k)" if "t < k" "k \<le> w" for k
  proof -
    have "new ! (k - Suc t) \<in> set new" using that l(2) by (intro nth_mem) simp
    then show ?thesis using fb [OF that(2)] that(1) fr(2) by simp
  qed
  have "blocks ! k = file_block (my_disk ?s) (i\<lparr>i_sectors := sect\<rparr>) k" if "t \<le> k" "k \<le> w" for k
    using that fb [OF that(2)] l(8) tw old by auto
  moreover have "regrown a (i\<lparr>i_sectors := sect\<rparr>) {?tb} s ?s"
    by (rule regrown_write [OF l(3)]) (use l(4,6) p in auto)
  ultimately show ?thesis
    using run ok fb nu tw l(4,6) unfolding collected_def
    by (intro exI [of _ blocks] exI [of _ sect] exI [of _ ?s]) auto
qed

lemma write_blocks_ok:
  assumes "alloc_inv s" "inodes s a = Some i" "blocks_ok (cur_part s) (my_disk s) i t" "t \<le> w" "w < 140"
    and "w - t + (if t < 12 \<and> 12 \<le> w then 1 else 0) \<le> free_cnt (cur_part s)"
  obtains blocks sect s' where "collected a i t w s blocks sect s'"
proof -
  consider "t = w" | "t < w" "w < 12" | "t < 12" "12 \<le> w" | "12 \<le> t" "t < w" using assms(4) by linarith
  then have "\<exists>blocks sect s'. collected a i t w s blocks sect s'"
  proof cases
    case 1
    then show ?thesis using write_blocks_same [OF assms(1-3)] assms(5) by blast
  next
    case 2
    then show ?thesis using write_blocks_direct [OF assms(1-3)] assms(6) by simp
  next
    case 3
    then show ?thesis using write_blocks_table [OF assms(1-3) 3 assms(5)] assms(6) by simp
  next
    case 4
    then show ?thesis using write_blocks_indirect [OF assms(1-3) 4 assms(5)] assms(6) by simp
  qed
  then show ?thesis using that by blast
qed

end
