(* ===== verification/File_Write.thy ===== *)
theory File_Write
  imports File_Blocks
begin

text \<open>
  Writing a file appends: the loop over the sectors, the inode, and the theorems about the contents of the file and
  of all others.
\<close>

section \<open>The sectors\<close>

text \<open>
  \<open>wrote blk z r src d d'\<close>: the \<open>r\<close> bytes at position \<open>z\<close> of the file with the blocks \<open>blk\<close> are those of \<open>src\<close>, the bytes
  before them in the first block are kept, and no sector has changed but the blocks with these bytes.
\<close>

definition wrote :: "(nat \<Rightarrow> u32) \<Rightarrow> nat \<Rightarrow> nat \<Rightarrow> u8 list \<Rightarrow> (u32 \<Rightarrow> u8 list) \<Rightarrow> (u32 \<Rightarrow> u8 list) \<Rightarrow> bool" where
  "wrote blk z r src d d' \<longleftrightarrow> disk_ok d' \<and>
     (\<forall>x. x \<notin> (\<lambda>q. blk (q div 512)) ` {z..<z + r} \<longrightarrow> d' x = d x) \<and>
     (\<forall>q. z \<le> q \<and> q < z + r \<longrightarrow> byte_at d' blk q = src ! (q - z)) \<and>
     (\<forall>q. q < z \<and> q div 512 = z div 512 \<longrightarrow> byte_at d' blk q = byte_at d blk q)"

lemma wrote_nothing: "disk_ok d \<Longrightarrow> wrote blk z 0 src d d"
  by (auto simp: wrote_def)

lemma div_same_block: "z div 512 = q div 512 \<Longrightarrow> q < z \<Longrightarrow> q mod 512 < z mod (512 :: nat)"
  by (metis div_mult_mod_eq nat_add_left_cancel_less)

lemma wrote_chunk:
  assumes d: "disk_ok d" "length base = 512" and c: "0 < c" "c \<le> r" "c \<le> 512 - z mod 512" "c = r \<or> c = 512 - z mod 512"
    and src: "r \<le> length src"
    and base: "base = d (blk (z div 512)) \<or> z mod 512 = 0"
    and inj: "\<And>j k. z div 512 \<le> j \<Longrightarrow> z div 512 \<le> k \<Longrightarrow> 512 * j < z + r \<Longrightarrow> 512 * k < z + r \<Longrightarrow> blk j = blk k \<Longrightarrow> j = k"
    and rest: "wrote blk (z + c) (r - c) (drop c src) (d(blk (z div 512) := patch (z mod 512) (take c src) base)) d'"
  shows "wrote blk z r src d d'"
proof -
  let ?k = "z div 512" and ?o = "z mod 512"
  let ?d = "d(blk ?k := patch ?o (take c src) base)"
  have oc: "?o + c \<le> 512" using c(3) by (simp add: less_imp_le le_diff_conv2)
  have z: "z = 512 * ?k + ?o" by simp
  have later: "?k < q div 512" if "z + c \<le> q" "q < z + r" for q
  proof -
    have "c + ?o = 512" using that c(4) oc by linarith
    moreover have "z + c = 512 * Suc k" if "z = 512 * k + m" "c + m = 512" for k m using that by simp
    ultimately have "z + c = 512 * Suc ?k" using z by blast
    then have "512 * Suc ?k \<le> q" using that(1) by linarith
    then show ?thesis by (simp add: less_eq_div_iff_mult_less_eq less_eq_Suc_le mult.commute)
  qed
  have keep: "d' (blk ?k) = ?d (blk ?k)"
  proof -
    have "blk ?k \<notin> (\<lambda>q. blk (q div 512)) ` {z + c..<z + c + (r - c)}"
    proof
      assume "blk ?k \<in> (\<lambda>q. blk (q div 512)) ` {z + c..<z + c + (r - c)}"
      then obtain q where q: "blk ?k = blk (q div 512)" "q \<in> {z + c..<z + c + (r - c)}" by (rule imageE)
      then have qr: "z + c \<le> q" "q < z + r" using c(2) by simp_all
      then have "512 * (q div 512) < z + r" "512 * ?k < z + r"
        using times_div_less_eq_dividend [of 512 q] times_div_less_eq_dividend [of 512 z] by linarith+
      then have "?k = q div 512" using q(1) later [OF qr] by (intro inj) simp_all
      then show False using later [OF qr] by simp
    qed
    then show ?thesis using rest by (simp add: wrote_def)
  qed
  have own: "byte_at d' blk q = patch ?o (take c src) base ! (q mod 512)" if "q div 512 = ?k" for q
    using that keep by (simp add: byte_at_def)
  have len: "length (take c src) = c" using c(2) src by simp
  have "d' x = d x" if "x \<notin> (\<lambda>q. blk (q div 512)) ` {z..<z + r}" for x
  proof -
    have "x \<noteq> blk ?k" using that c(1,2) by (auto simp: image_iff)
    moreover have "x \<notin> (\<lambda>q. blk (q div 512)) ` {z + c..<z + c + (r - c)}" using that c(2) by auto
    ultimately show ?thesis using rest by (simp add: wrote_def)
  qed
  moreover have "byte_at d' blk q = src ! (q - z)" if "z \<le> q" "q < z + r" for q
  proof (cases "q < z + c")
    case True
    define j where "j = q - z"
    have j: "q = z + j" "?o + j < 512" "j < c" using that True oc by (simp_all add: j_def)
    have "q div 512 = ?k" "q mod 512 = ?o + j" using block_offset [OF j(2)] j(1) by simp_all
    moreover have "j < length src" using j(3) c(2) src by simp
    ultimately show ?thesis using own [of q] j(2,3) len d(2) oc by (simp add: nth_patch flip: j_def)
  next
    case False
    then have "byte_at d' blk q = drop c src ! (q - (z + c))" using rest that c(2) by (simp add: wrote_def)
    also have "\<dots> = src ! (q - z)" using False that src by (simp add: add.commute)
    finally show ?thesis .
  qed
  moreover have "byte_at d' blk q = byte_at d blk q" if "q < z" "q div 512 = ?k" for q
  proof -
    have lt: "q mod 512 < ?o" using div_same_block that by simp
    then have "base = d (blk ?k)" using base by auto
    then show ?thesis using own [OF that(2)] lt d(2) oc len that(2) by (simp add: nth_patch byte_at_def)
  qed
  ultimately show ?thesis using rest by (auto simp: wrote_def)
qed

lemma upd_order2:
  "s\<lparr>inodes := I, file_table := F\<rparr> = s\<lparr>file_table := F, inodes := I\<rparr>"
  "s\<lparr>klog := L, inodes := I\<rparr> = s\<lparr>inodes := I, klog := L\<rparr>"
  "s\<lparr>my_disk := D, file_table := F\<rparr> = s\<lparr>file_table := F, my_disk := D\<rparr>"
  "s\<lparr>klog := L, file_table := F\<rparr> = s\<lparr>file_table := F, klog := L\<rparr>"
  by simp_all

definition written_st :: "nat \<Rightarrow> u32 \<Rightarrow> inode \<Rightarrow> u32 \<Rightarrow> (u32 \<Rightarrow> u8 list) \<Rightarrow> (string \<times> fmt_arg list) list \<Rightarrow> fstate \<Rightarrow> fstate" where
  "written_st fl a i c d l s = s\<lparr>
     file_table := (file_table s)[fl := (file_table s ! fl)\<lparr>fd_pos := fd_pos (file_table s ! fl) + c\<rparr>],
     my_disk := d, inodes := (inodes s)(a \<mapsto> i\<lparr>i_size := i_size i + c\<rparr>), klog := l\<rparr>"

lemma written_st_zero: "inodes s a = Some i \<Longrightarrow> written_st fl a i 0 (my_disk s) (klog s) s = s"
proof -
  assume "inodes s a = Some i"
  moreover have "i\<lparr>i_size := i_size i + 0\<rparr> = i" by simp
  moreover have "(file_table s ! fl)\<lparr>fd_pos := fd_pos (file_table s ! fl) + 0\<rparr> = file_table s ! fl" by simp
  ultimately show ?thesis by (simp add: written_st_def fun_upd_idem)
qed

lemma written_st_twice:
  "fl < length (file_table s) \<Longrightarrow> written_st fl a (i\<lparr>i_size := i_size i + c\<rparr>) e d' l' (written_st fl a i c d l s) =
     written_st fl a i (c + e) d' l' s"
  by (simp add: written_st_def add.assoc)

lemma write_loop_ok:
  assumes "disk_ok (my_disk s)" "fl < length (file_table s)" "inodes s a = Some i" "n \<le> cnt" "length buf = 512"
    and "unat (i_size i) + unat (cnt - n) < 2 ^ 32" "unat (cnt - n) \<le> length src"
    and "first \<or> unat (i_size i) mod 512 = 0 \<or> n = cnt"
    and "\<And>k. unat (i_size i) div 512 \<le> k \<Longrightarrow> 512 * k < unat (i_size i) + unat (cnt - n) \<Longrightarrow>
           k < length blocks \<and> blocks ! k \<le> max_lba"
    and "\<And>j k. unat (i_size i) div 512 \<le> j \<Longrightarrow> unat (i_size i) div 512 \<le> k \<Longrightarrow>
           512 * j < unat (i_size i) + unat (cnt - n) \<Longrightarrow> 512 * k < unat (i_size i) + unat (cnt - n) \<Longrightarrow>
           blocks ! j = blocks ! k \<Longrightarrow> j = k"
  shows "\<exists>d l b. write_loop fl a blocks src cnt n first buf s = Inr (b, written_st fl a i (cnt - n) d l s) \<and>
           length b = 512 \<and> wrote ((!) blocks) (unat (i_size i)) (unat (cnt - n)) src (my_disk s) d"
  using assms
proof (induction "unat (cnt - n)" arbitrary: n s i src first buf rule: less_induct)
  case less
  show ?case
  proof (cases "n < cnt")
    case False
    then have "cnt - n = 0" using less.prems(4) by simp
    then show ?thesis
      using False less.prems
      by (subst write_loop.simps, intro exI [of _ "my_disk s"] exI [of _ "klog s"] exI [of _ buf])
        (simp add: run_simps wrote_nothing written_st_zero)
  next
    case True
    let ?z = "unat (i_size i)" and ?r = "unat (cnt - n)"
    define c where "c = chunk_size (i_size i) (cnt - n)"
    note ch = chunk_facts [OF True less.prems(6), folded c_def]
    define x where "x = blocks ! (?z div 512)"
    have x: "?z div 512 < length blocks" "x \<le> max_lba"
      using less.prems(9) [of "?z div 512"] ch(2,4) by (simp_all add: x_def)
    define base where "base = (if first then my_disk s x else replicate 512 0)"
    define b1 where "b1 = patch (?z mod 512) (take (unat c) src) base"
    have base: "length base = 512" using less.prems(1) by (simp add: base_def)
    have cl: "unat c \<le> length src" "?z mod 512 + unat c \<le> 512" using ch(1) less.prems(7) by auto
    have b1: "length b1 = 512" using base cl by (simp add: b1_def length_patch)
    define i1 where "i1 = i\<lparr>i_size := i_size i + c\<rparr>"
    define d1 where "d1 = (my_disk s)(x := b1)"
    define l1 where "l1 = (''file write at lba 0x%x'', [ArgWord x]) # klog s"
    define s1 where "s1 = written_st fl a i c d1 l1 s"
    have step: "write_loop fl a blocks src cnt n first buf s =
        write_loop fl a blocks (drop (unat c) src) cnt (n + c) False b1 s1"
    proof -
      have put: "put_bytes 0 (replicate 512 0) buf = Inr (replicate 512 0)" "put_bytes (?z mod 512) (take (unat c) src) base = Inr b1"
        "get_bytes 0 (unat c) src = Inr (take (unat c) src)"
        using less.prems(5) cl base by (simp_all add: put_bytes_def get_bytes_def patch_all b1_def sub_buf_def)
      show ?thesis
        using True less.prems(1,2,3) x b1 put
        by (subst write_loop.simps)
          (cases first, simp_all add: run_simps Let_def unat_mod_512 base_def s1_def written_st_def d1_def l1_def upd_order2 flip: c_def x_def)
    qed
    have i1: "unat (i_size i1) = ?z + unat c" using ch(5) by (simp add: i1_def)
    have rest: "?z + unat c + unat (cnt - (n + c)) = ?z + ?r" using ch(1,3) by simp
    have up: "?z div 512 \<le> (?z + unat c) div 512" by (simp add: div_le_mono)
    have "\<exists>d l b. write_loop fl a blocks (drop (unat c) src) cnt (n + c) False b1 s1 =
             Inr (b, written_st fl a i1 (cnt - (n + c)) d l s1) \<and> length b = 512 \<and>
           wrote ((!) blocks) (unat (i_size i1)) (unat (cnt - (n + c))) (drop (unat c) src) (my_disk s1) d"
    proof (rule less.hyps [OF ch(4)])
      show "disk_ok (my_disk s1)" using less.prems(1) b1 by (simp add: s1_def written_st_def d1_def disk_ok_upd)
      show "inodes s1 a = Some i1" by (simp add: s1_def written_st_def i1_def)
      show "fl < length (file_table s1)" using less.prems(2) by (simp add: s1_def written_st_def)
      show "False \<or> unat (i_size i1) mod 512 = 0 \<or> n + c = cnt"
      proof (cases "unat c = ?r")
        case True
        then have "cnt - (n + c) = 0" using ch(3) by (simp add: unat_eq_zero)
        then show ?thesis by simp
      next
        case False
        then have "?z mod 512 + unat c = 512" using ch(1) cl(2) by linarith
        then show ?thesis using i1 mod_add_left_eq [of ?z 512 "unat c"] by simp
      qed
      show "unat (i_size i1) + unat (cnt - (n + c)) < 2 ^ 32" using less.prems(6) i1 rest by simp
      show "unat (cnt - (n + c)) \<le> length (drop (unat c) src)" using ch(3) less.prems(7) by simp
      fix k assume "unat (i_size i1) div 512 \<le> k" "512 * k < unat (i_size i1) + unat (cnt - (n + c))"
      then show "k < length blocks \<and> blocks ! k \<le> max_lba" using up i1 rest by (intro less.prems(9)) simp_all
    next
      fix j k assume "unat (i_size i1) div 512 \<le> j" "unat (i_size i1) div 512 \<le> k" "blocks ! j = blocks ! k"
        "512 * j < unat (i_size i1) + unat (cnt - (n + c))" "512 * k < unat (i_size i1) + unat (cnt - (n + c))"
      then show "j = k" using up i1 rest by (intro less.prems(10)) simp_all
    qed (use ch(6) b1 in simp_all)
    then obtain d l b where IH:
      "write_loop fl a blocks (drop (unat c) src) cnt (n + c) False b1 s1 = Inr (b, written_st fl a i1 (cnt - (n + c)) d l s1)"
      "length b = 512" "wrote ((!) blocks) (?z + unat c) (?r - unat c) (drop (unat c) src) d1 d"
      using i1 ch(3) by (auto simp: s1_def written_st_def)
    have "wrote ((!) blocks) ?z ?r src (my_disk s) d"
    proof (rule wrote_chunk [OF less.prems(1) base ch(2)])
      show "wrote ((!) blocks) (?z + unat c) (?r - unat c) (drop (unat c) src)
          ((my_disk s)(blocks ! (?z div 512) := patch (?z mod 512) (take (unat c) src) base)) d"
        using IH(3) by (simp add: d1_def b1_def x_def)
      show "base = my_disk s (blocks ! (?z div 512)) \<or> ?z mod 512 = 0"
        using less.prems(8) True by (auto simp: base_def x_def)
    qed (use ch(1) less.prems(7,10) in auto)
    moreover have "written_st fl a i1 (cnt - (n + c)) d l s1 = written_st fl a i (cnt - n) d l s"
      using less.prems(2) by (simp add: s1_def i1_def written_st_twice)
    ultimately show ?thesis using step IH(1,2) by auto
  qed
qed

section \<open>The contents\<close>

lemma wrote_outside:
  assumes "wrote ((!) blocks) z r src d d'" "\<And>k. z div 512 \<le> k \<Longrightarrow> k \<le> (z + r) div 512 \<Longrightarrow> x \<noteq> blocks ! k"
  shows "d' x = d x"
proof -
  have "x \<notin> (\<lambda>q. blocks ! (q div 512)) ` {z..<z + r}"
  proof
    assume "x \<in> (\<lambda>q. blocks ! (q div 512)) ` {z..<z + r}"
    then obtain q where q: "x = blocks ! (q div 512)" "z \<le> q" "q \<le> z + r" by auto
    then show False using assms(2) [of "q div 512"] by (simp add: div_le_mono)
  qed
  then show ?thesis using assms(1) by (simp add: wrote_def)
qed

lemma contents_after_write:
  assumes p: "part_ok p" and ok: "blocks_ok p d i w" and w: "wrote ((!) blocks) z r src d d'"
    and z: "w = (z + r) div 512" "r \<le> length src" "unat (i_size i') = z + r" "i_sectors i' = i_sectors i"
    and all: "\<forall>k. z div 512 \<le> k \<and> k \<le> w \<longrightarrow> blocks ! k = file_block d i k"
  shows "k \<le> w \<Longrightarrow> file_block d' i' k = file_block d i k" "blocks_ok p d' i' w"
    "file_bytes d' i' = map (byte_at d (file_block d i)) [0..<z] @ take r src"
proof -
  note D = blocks_okD [OF p ok]
  have blocks: "blocks ! k = file_block d i k" if "z div 512 \<le> k" "k \<le> w" for k using that all by blast
  have tab: "d' (i_sectors i ! 12) = d (i_sectors i ! 12)" if "12 \<le> w"
    by (rule wrote_outside [OF w]) (use D(3) [OF that] blocks z(1) in metis)
  show fb: "file_block d' i' k = file_block d i k" if "k \<le> w" for k
    using that tab z(4) by (auto simp: file_block_def)
  have "own_upto d' i' w = own_upto d i w" using fb z(4) by (simp add: own_upto_def)
  then show "blocks_ok p d' i' w" using ok z(4) by (simp add: blocks_ok_def)
  show "file_bytes d' i' = map (byte_at d (file_block d i)) [0..<z] @ take r src"
  proof (rule nth_equalityI)
    show "length (file_bytes d' i') = length (map (byte_at d (file_block d i)) [0..<z] @ take r src)" using z(2,3) by simp
    fix q assume "q < length (file_bytes d' i')"
    then have q: "q < z + r" using z(3) by simp
    then have le: "q div 512 \<le> w" by (simp add: z(1) div_le_mono)
    have at: "file_bytes d' i' ! q = d' (file_block d i (q div 512)) ! (q mod 512)"
      using q z(3) fb [OF le] by (simp add: file_bytes_def byte_at_def)
    have cur: "file_bytes d' i' ! q = byte_at d' ((!) blocks) q" if "z div 512 \<le> q div 512"
      using at blocks [OF that le] by (simp add: byte_at_def)
    consider (old) "q div 512 < z div 512" | (first) "q div 512 = z div 512" "q < z" | (new) "z \<le> q"
      using div_le_mono [of q z 512] by linarith
    then show "file_bytes d' i' ! q = (map (byte_at d (file_block d i)) [0..<z] @ take r src) ! q"
    proof cases
      case old
      then have qz: "q < z" using div_le_mono [of z q 512] by linarith
      have "d' (file_block d i (q div 512)) = d (file_block d i (q div 512))"
      proof (rule wrote_outside [OF w])
        fix k assume k: "z div 512 \<le> k" "k \<le> (z + r) div 512"
        then show "file_block d i (q div 512) \<noteq> blocks ! k" using D(4) [OF le, of k] blocks z(1) old by simp
      qed
      then show ?thesis using at qz by (simp add: nth_append byte_at_def)
    next
      case first
      then have "byte_at d' ((!) blocks) q = byte_at d ((!) blocks) q" using w by (simp add: wrote_def)
      then show ?thesis using cur blocks [of "q div 512"] le first by (simp add: nth_append byte_at_def)
    next
      case new
      then show ?thesis using cur w q z(2) by (simp add: wrote_def nth_append div_le_mono)
    qed
  qed
qed

section \<open>Appending\<close>

text \<open>The number of blocks the file is given for \<open>cnt\<close> more bytes: data blocks and the table of the indirect ones.\<close>

definition blocks_needed :: "inode \<Rightarrow> u32 \<Rightarrow> nat" where
  "blocks_needed i cnt =
     (let w = (unat (i_size i) + unat cnt) div 512 in
      (if i_sectors i ! 0 = 0 then 1 else 0) + (w - top_block i) + (if top_block i < 12 \<and> 12 \<le> w then 1 else 0))"

text \<open>
  What a write does: the file at \<open>a\<close> has the new bytes behind the old ones, its blocks are in order, its inode is on the disk, and
  every other inode on the disk and every other block in use is as it was.
\<close>

definition appended :: "u32 \<Rightarrow> inode \<Rightarrow> u8 list \<Rightarrow> fstate \<Rightarrow> inode \<Rightarrow> fstate \<Rightarrow> bool" where
  "appended a i bs s i' s' \<longleftrightarrow>
     file_bytes (my_disk s') i' = file_bytes (my_disk s) i @ bs \<and>
     i_no i' = i_no i \<and> file_ok (cur_part s') (my_disk s') i' \<and> alloc_inv s' \<and>
     inode_table (cur_part s') (my_disk s') =
       patch (76 * sync_slot i) (inode_bytes (pure_inode i')) (inode_table (cur_part s) (my_disk s)) \<and>
     (\<forall>x. block_used (cur_part s) x \<longrightarrow> block_used (cur_part s') x) \<and>
     (\<forall>x. data_sector (cur_part s) x \<and> block_used (cur_part s) x \<and> x \<notin> set (own_blocks (my_disk s) i) \<longrightarrow>
        my_disk s' x = my_disk s x)"

lemma blocks_cong:
  assumes p: "part_ok p" and ok: "blocks_ok p d i w" and same: "\<forall>x. data_sector p x \<longrightarrow> d' x = d x"
  shows "k \<le> w \<Longrightarrow> file_block d' i k = file_block d i k" "blocks_ok p d' i w"
    "unat (i_size i) div 512 \<le> w \<Longrightarrow> file_bytes d' i = file_bytes d i"
proof -
  note D = blocks_okD [OF p ok]
  have "d' (i_sectors i ! 12) = d (i_sectors i ! 12)" if "12 \<le> w" using D(2) [OF that] same by blast
  then show fb: "file_block d' i k = file_block d i k" if "k \<le> w" for k
    using that by (auto simp: file_block_def)
  have "own_upto d' i w = own_upto d i w" using fb by (simp add: own_upto_def)
  then show "blocks_ok p d' i w" using ok by (simp add: blocks_ok_def)
  show "file_bytes d' i = file_bytes d i" if "unat (i_size i) div 512 \<le> w"
  proof -
    have "byte_at d' (file_block d' i) q = byte_at d (file_block d i) q" if "q < unat (i_size i)" for q
    proof -
      have "q div 512 \<le> w" using that \<open>unat (i_size i) div 512 \<le> w\<close> div_le_mono [of q "unat (i_size i)" 512] by linarith
      then show ?thesis using fb [of "q div 512"] D(1) [of "q div 512"] same by (simp add: byte_at_def)
    qed
    then show ?thesis by (simp add: file_bytes_def)
  qed
qed

lemma table_sector_places:
  assumes "part_ok p" "table_sector p x"
  shows "\<not> data_sector p x" "unat (inode_bitmap_lba (sb p)) \<le> unat x"
  using assms by (auto simp: part_ok_def table_sector_def data_sector_def)

lemma sectors_at_cong: "(\<And>k. k < n \<Longrightarrow> d' (b + of_nat k) = d (b + of_nat k)) \<Longrightarrow> sectors_at d' b n = sectors_at d b n"
  unfolding sectors_at_def by (intro arg_cong [of _ _ concat] map_cong refl) simp

lemma inode_table_cong:
  assumes "part_ok p" "\<And>x. table_sector p x \<Longrightarrow> d' x = d x"
  shows "inode_table p d' = inode_table p d"
proof -
  have "d' (inode_table_lba (sb p) + of_nat k) = d (inode_table_lba (sb p) + of_nat k)" if "k < 608" for k
  proof (rule assms(2))
    have "unat (inode_table_lba (sb p)) + 608 \<le> 163840" using assms(1) by (auto simp: part_ok_def)
    then have "unat (inode_table_lba (sb p) + of_nat k) = unat (inode_table_lba (sb p)) + k"
      using that by (simp add: unat_add_no_wrap32 unat_of_nat32)
    then show "table_sector p (inode_table_lba (sb p) + of_nat k)" using that by (simp add: table_sector_def)
  qed
  then show ?thesis unfolding inode_table_def by (rule sectors_at_cong)
qed

text \<open>The first half of a write: the blocks are there, and the contents are still the old ones.\<close>

definition prepared :: "u32 \<Rightarrow> inode \<Rightarrow> nat \<Rightarrow> fstate \<Rightarrow> u32 list \<Rightarrow> inode \<Rightarrow> fstate \<Rightarrow> bool" where
  "prepared a i w s blocks i' s' \<longleftrightarrow>
     (\<exists>d bm. s' = s\<lparr>my_disk := d, cur_part := (cur_part s)\<lparr>block_bitmap := bm\<rparr>, inodes := (inodes s)(a \<mapsto> i')\<rparr>) \<and>
     alloc_inv s' \<and> length blocks = 140 \<and> i_size i' = i_size i \<and> i_no i' = i_no i \<and> i_sectors i' ! 0 \<noteq> 0 \<and>
     blocks_ok (cur_part s') (my_disk s') i' w \<and>
     (\<forall>k. top_block i \<le> k \<and> k \<le> w \<longrightarrow> blocks ! k = file_block (my_disk s') i' k) \<and>
     map (byte_at (my_disk s') (file_block (my_disk s') i')) [0..<unat (i_size i)] = file_bytes (my_disk s) i \<and>
     (\<forall>x. block_used (cur_part s) x \<longrightarrow> block_used (cur_part s') x) \<and>
     (\<forall>x. table_sector (cur_part s) x \<longrightarrow> my_disk s' x = my_disk s x) \<and>
     (\<forall>x. data_sector (cur_part s) x \<and> block_used (cur_part s) x \<and> x \<notin> set (own_blocks (my_disk s) i) \<longrightarrow>
        my_disk s' x = my_disk s x \<and> (\<forall>k. top_block i \<le> k \<and> k \<le> w \<longrightarrow> x \<noteq> blocks ! k))"

lemma regrown_simps:
  assumes "regrown a i' X s s'"
  shows "alloc_inv s'" "data_sector (cur_part s') = data_sector (cur_part s)" "table_sector (cur_part s') = table_sector (cur_part s)"
    "block_used (cur_part s) x \<Longrightarrow> block_used (cur_part s') x" "sb (cur_part s') = sb (cur_part s)"
  using assms by (auto simp: regrown_def)

lemma regrown_table:
  assumes "regrown a i' X s s'" "part_ok (cur_part s)" "X \<subseteq> Collect (data_sector (cur_part s))" "table_sector (cur_part s) x"
  shows "my_disk s' x = my_disk s x"
  using assms table_sector_places [OF assms(2,4)] by (auto simp: regrown_def)

lemma append_prepare:
  assumes inv: "alloc_inv s" and i: "inodes s a = Some i" and ok: "file_ok (cur_part s) (my_disk s) i"
    and size: "unat (i_size i) + unat cnt < 71680" and free: "blocks_needed i cnt \<le> free_cnt (cur_part s)"
    and w: "w = (unat (i_size i) + unat cnt) div 512"
  obtains s1 s2 blocks i2 where "first_block a s = Inr (True, s1)"
    "write_blocks a (Suc (top_block i)) (Suc w) s1 = Inr (Some blocks, s2)" "prepared a i w s blocks i2 s2"
proof -
  let ?p = "cur_part s" and ?z = "unat (i_size i)" and ?t = "top_block i"
  have part: "part_ok ?p" "disk_ok (my_disk s)" using inv by (simp_all add: alloc_inv_def)
  have fc: "i_sectors i ! 0 = 0 \<Longrightarrow> 0 < free_cnt ?p" using free by (simp add: blocks_needed_def Let_def)
  from first_block_ok [OF inv i ok fc] obtain s1 i1 where s1: "first_block a s = Inr (True, s1)"
    "regrown a i1 {} s s1" "inodes s1 a = Some i1" "i_size i1 = i_size i" "i_no i1 = i_no i"
    "file_ok (cur_part s1) (my_disk s1) i1" "i_sectors i1 ! 0 \<noteq> 0" "file_bytes (my_disk s1) i1 = file_bytes (my_disk s) i"
    "set (own_blocks (my_disk s1) i1) \<inter> {x. block_used ?p x} \<subseteq> set (own_blocks (my_disk s) i)"
    "free_cnt ?p = free_cnt (cur_part s1) + (if i_sectors i ! 0 = 0 then 1 else 0)" by metis
  note r1 = regrown_simps [OF s1(2)]
  have part1: "part_ok (cur_part s1)" using r1(1) by (simp add: alloc_inv_def)
  have t1: "top_block i1 = ?t" using s1(4) by (simp add: top_block_def)
  have bo1: "blocks_ok (cur_part s1) (my_disk s1) i1 ?t" using file_ok_blocks [OF s1(7)] s1(6) t1 by simp
  note D1 = blocks_okD [OF part1 bo1]
  have tw: "?t \<le> w" "w < 140" using size by (simp_all add: w top_block_def div_le_mono less_mult_imp_div_less)
  have "w - ?t + (if ?t < 12 \<and> 12 \<le> w then 1 else 0) \<le> free_cnt (cur_part s1)"
    using free s1(10) by (simp add: blocks_needed_def Let_def w split: if_splits)
  from write_blocks_ok [OF r1(1) s1(3) bo1 tw this] obtain blocks sect s2 where c: "collected a i1 ?t w s1 blocks sect s2" .
  define i2 where "i2 = i1\<lparr>i_sectors := sect\<rparr>"
  define X where "X = (if 12 \<le> ?t then {i_sectors i1 ! 12} else {})"
  have s2: "write_blocks a (Suc ?t) (Suc w) s1 = Inr (Some blocks, s2)" "length blocks = 140" "inodes s2 a = Some i2"
    "regrown a i2 X s1 s2" "blocks_ok (cur_part s2) (my_disk s2) i2 w"
    "\<And>k. ?t \<le> k \<Longrightarrow> k \<le> w \<Longrightarrow> blocks ! k = file_block (my_disk s2) i2 k"
    "\<And>k. k \<le> ?t \<Longrightarrow> file_block (my_disk s2) i2 k = file_block (my_disk s1) i1 k"
    "\<And>k. ?t < k \<Longrightarrow> k \<le> w \<Longrightarrow> \<not> block_used (cur_part s1) (file_block (my_disk s2) i2 k)"
    using c by (simp_all add: collected_def i2_def X_def)
  note r2 = regrown_simps [OF s2(4)]
  have "byte_at (my_disk s2) (file_block (my_disk s2) i2) q = byte_at (my_disk s1) (file_block (my_disk s1) i1) q" if "q < ?z" for q
  proof -
    have le: "q div 512 \<le> ?t" using that by (simp add: top_block_def div_le_mono)
    then have "file_block (my_disk s1) i1 (q div 512) \<notin> X" using D1(3) by (auto simp: X_def)
    then have "my_disk s2 (file_block (my_disk s1) i1 (q div 512)) = my_disk s1 (file_block (my_disk s1) i1 (q div 512))"
      using regrown_data [OF s2(4) part1] D1(1) [OF le] by blast
    then show ?thesis using s2(7) [OF le] by (simp add: byte_at_def)
  qed
  then have old_bytes: "map (byte_at (my_disk s2) (file_block (my_disk s2) i2)) [0..<?z] = file_bytes (my_disk s) i"
    using s1(8) by (simp add: file_bytes_def s1(4))
  have "prepared a i w s blocks i2 s2"
    unfolding prepared_def
  proof (intro conjI allI impI)
    show "\<exists>d bm. s2 = s\<lparr>my_disk := d, cur_part := (cur_part s)\<lparr>block_bitmap := bm\<rparr>, inodes := (inodes s)(a \<mapsto> i2)\<rparr>"
    proof -
      obtain d bm where "s1 = s\<lparr>my_disk := d, cur_part := (cur_part s)\<lparr>block_bitmap := bm\<rparr>, inodes := (inodes s)(a \<mapsto> i1)\<rparr>"
        using s1(2) unfolding regrown_def by blast
      moreover obtain d' bm' where "s2 = s1\<lparr>my_disk := d', cur_part := (cur_part s1)\<lparr>block_bitmap := bm'\<rparr>, inodes := (inodes s1)(a \<mapsto> i2)\<rparr>"
        using s2(4) unfolding regrown_def by blast
      ultimately show ?thesis by (intro exI [of _ d'] exI [of _ bm']) simp
    qed
    show "i_size i2 = i_size i" "i_no i2 = i_no i" using s1(4,5) by (simp_all add: i2_def)
    show "i_sectors i2 ! 0 \<noteq> 0" using s2(7) [of 0] s1(7) by (simp add: file_block_def)
    show "map (byte_at (my_disk s2) (file_block (my_disk s2) i2)) [0..<?z] = file_bytes (my_disk s) i" using old_bytes .
    show "block_used (cur_part s2) x" if "block_used ?p x" for x using that r1(4) r2(4) by blast
  next
    fix x assume that: "table_sector ?p x"
    show "my_disk s2 x = my_disk s x"
    proof -
      have "my_disk s2 x = my_disk s1 x"
        by (rule regrown_table [OF s2(4) part1]) (use D1(2) that r1(3) in \<open>auto simp: X_def\<close>)
      also have "\<dots> = my_disk s x" by (rule regrown_table [OF s1(2) part(1)]) (use that in auto)
      finally show ?thesis .
    qed
  next
    fix x assume x: "data_sector ?p x \<and> block_used ?p x \<and> x \<notin> set (own_blocks (my_disk s) i)"
    then have x1: "x \<notin> set (own_blocks (my_disk s1) i1)" "block_used (cur_part s1) x" "data_sector (cur_part s1) x"
      using s1(9) r1(2,4) by auto
    then have nX: "x \<notin> X" by (auto simp: X_def own_blocks_def t1)
    show "my_disk s2 x = my_disk s x"
      using regrown_data [OF s2(4) part1 x1(3,2) nX] regrown_data [OF s1(2) part(1), of x] x by simp
    fix k assume k: "?t \<le> k \<and> k \<le> w"
    show "x \<noteq> blocks ! k"
    proof (cases "k = ?t")
      case True
      then have "blocks ! k \<in> set (own_blocks (my_disk s1) i1)"
        using s2(6) [of k] s2(7) [of k] k by (simp add: own_blocks_def t1 del: upt_Suc)
      then show ?thesis using x1(1) by blast
    next
      case False
      then show ?thesis using s2(6) [of k] s2(8) [of k] k x1(2) by auto
    qed
  qed (use s2 r2 in simp_all)
  then show thesis using that s1(1) s2(1) by blast
qed

text \<open>The second half: the bytes, and the inode on the disk.\<close>

lemma append_loop:
  assumes pre: "prepared a i w s blocks i2 s2" and fl: "fl < length (file_table s)"
    and size: "unat (i_size i) + unat cnt < 71680" "unat cnt \<le> length buf"
    and w: "w = (unat (i_size i) + unat cnt) div 512"
  obtains d3 l b where
    "write_loop fl a blocks buf cnt 0 True (replicate 512 0) (s2\<lparr>file_table := (file_table s)[fl := f]\<rparr>) =
       Inr (b, written_st fl a i2 cnt d3 l (s2\<lparr>file_table := (file_table s)[fl := f]\<rparr>))"
    "length b = 512" "wrote ((!) blocks) (unat (i_size i)) (unat cnt) buf (my_disk s2) d3"
proof -
  let ?p = "cur_part s" and ?z = "unat (i_size i)" and ?t = "top_block i"
  from pre obtain d2 bm where s2: "s2 = s\<lparr>my_disk := d2, cur_part := ?p\<lparr>block_bitmap := bm\<rparr>, inodes := (inodes s)(a \<mapsto> i2)\<rparr>"
    unfolding prepared_def by blast
  have P: "alloc_inv s2" "length blocks = 140" "i_size i2 = i_size i" "i_no i2 = i_no i" "i_sectors i2 ! 0 \<noteq> 0"
    "blocks_ok (cur_part s2) (my_disk s2) i2 w" "\<And>k. ?t \<le> k \<Longrightarrow> k \<le> w \<Longrightarrow> blocks ! k = file_block (my_disk s2) i2 k"
    "map (byte_at (my_disk s2) (file_block (my_disk s2) i2)) [0..<?z] = file_bytes (my_disk s) i"
    "\<And>x. block_used ?p x \<Longrightarrow> block_used (cur_part s2) x" "\<And>x. table_sector ?p x \<Longrightarrow> my_disk s2 x = my_disk s x"
    "\<And>x. data_sector ?p x \<Longrightarrow> block_used ?p x \<Longrightarrow> x \<notin> set (own_blocks (my_disk s) i) \<Longrightarrow>
       my_disk s2 x = my_disk s x \<and> (\<forall>k. ?t \<le> k \<and> k \<le> w \<longrightarrow> x \<noteq> blocks ! k)"
    using pre unfolding prepared_def by blast+
  have part2: "part_ok (cur_part s2)" "disk_ok (my_disk s2)" using P(1) by (simp_all add: alloc_inv_def)
  note D2 = blocks_okD [OF part2(1) P(6)]
  have tw: "?t \<le> w" "w < 140" using size by (simp_all add: w top_block_def div_le_mono less_mult_imp_div_less)
  let ?s2 = "s2\<lparr>file_table := (file_table s)[fl := f]\<rparr>"
  have tz: "?t = ?z div 512" by (simp add: top_block_def)
  have kw: "k \<le> w" if "512 * k < ?z + unat cnt" for k
    using that by (simp add: w less_eq_div_iff_mult_less_eq mult.commute)
  have "\<exists>d l b. write_loop fl a blocks buf cnt 0 True (replicate 512 0) ?s2 = Inr (b, written_st fl a i2 (cnt - 0) d l ?s2) \<and>
      length b = 512 \<and> wrote ((!) blocks) (unat (i_size i2)) (unat (cnt - 0)) buf (my_disk ?s2) d"
  proof (rule write_loop_ok)
    fix k assume "unat (i_size i2) div 512 \<le> k" "512 * k < unat (i_size i2) + unat (cnt - 0)"
    then show "k < length blocks \<and> blocks ! k \<le> max_lba"
      using kw [of k] tw(2) P(2) P(7) [of k] D2(1) [of k] P(3) tz by simp
  next
    fix j k assume jk: "unat (i_size i2) div 512 \<le> j" "unat (i_size i2) div 512 \<le> k" "blocks ! j = blocks ! k"
      "512 * j < unat (i_size i2) + unat (cnt - 0)" "512 * k < unat (i_size i2) + unat (cnt - 0)"
    then have le: "j \<le> w" "k \<le> w" "?t \<le> j" "?t \<le> k" using kw P(3) tz by simp_all
    have "file_block (my_disk s2) i2 j = file_block (my_disk s2) i2 k"
      unfolding P(7) [OF le(3,1), symmetric] P(7) [OF le(4,2), symmetric] by (rule jk(3))
    then show "j = k" using D2(4) [OF le(1,2)] by blast
  qed (use part2 fl size P(3) in \<open>simp_all add: s2\<close>)
  then obtain d3 l b where wl: "write_loop fl a blocks buf cnt 0 True (replicate 512 0) ?s2 = Inr (b, written_st fl a i2 cnt d3 l ?s2)"
    "length b = 512" "wrote ((!) blocks) ?z (unat cnt) buf (my_disk s2) d3" using P(3) by auto
  then show thesis by (rule that)
qed

text \<open>The loop leaves a buffer of one sector, which does not do for an inode across two sectors.\<close>

lemma append_overrun:
  assumes pre: "prepared a i w s blocks i2 s2" and fl: "fl < length (file_table s)"
    and size: "unat (i_size i) + unat cnt < 71680" "unat cnt \<le> length buf"
    and slot: "436 < 76 * sync_slot i mod 512" and w: "w = (unat (i_size i) + unat cnt) div 512"
  obtains b s3 i3 where
    "write_loop fl a blocks buf cnt 0 True (replicate 512 0) (s2\<lparr>file_table := (file_table s)[fl := f]\<rparr>) = Inr (b, s3)"
    "inodes s3 a = Some i3" "inode_sync i3 b s3 = Inl OutOfBounds"
proof -
  have i2: "i_no i2 = i_no i" "part_ok (cur_part s2)" using pre by (auto simp: prepared_def alloc_inv_def)
  let ?s2 = "s2\<lparr>file_table := (file_table s)[fl := f]\<rparr>"
  obtain d3 l b where wl: "write_loop fl a blocks buf cnt 0 True (replicate 512 0) ?s2 = Inr (b, written_st fl a i2 cnt d3 l ?s2)"
    "length b = 512" "wrote ((!) blocks) (unat (i_size i)) (unat cnt) buf (my_disk s2) d3"
    by (rule append_loop [OF pre fl size w])
  let ?s3 = "written_st fl a i2 cnt d3 l ?s2"
  have s3: "part_ok (cur_part ?s3)" "disk_ok (my_disk ?s3)" "inodes ?s3 a = Some (i2\<lparr>i_size := i_size i2 + cnt\<rparr>)"
    using i2(2) wl(3) by (simp_all add: written_st_def wrote_def)
  have "inode_sync (i2\<lparr>i_size := i_size i2 + cnt\<rparr>) b ?s3 = Inl OutOfBounds"
    using slot i2(1) by (intro inode_sync_overrun [OF s3(1,2) wl(2)]) (simp add: sync_slot_def)
  then show thesis using that wl(1) s3(3) by blast
qed

lemma append_finish:
  assumes pre: "prepared a i w s blocks i2 s2" and part: "part_ok (cur_part s)" and fl: "fl < length (file_table s)"
    and size: "unat (i_size i) + unat cnt < 71680" "unat cnt \<le> length buf"
    and slot: "76 * sync_slot i mod 512 \<le> 436" and w: "w = (unat (i_size i) + unat cnt) div 512"
  obtains b s3 i3 b' d bm l where
    "write_loop fl a blocks buf cnt 0 True (replicate 512 0) (s2\<lparr>file_table := (file_table s)[fl := f]\<rparr>) = Inr (b, s3)"
    "inodes s3 a = Some i3" "inode_sync i3 b s3 = Inr (b', s3\<lparr>my_disk := d\<rparr>)"
    "s3\<lparr>my_disk := d\<rparr> = s\<lparr>my_disk := d, cur_part := (cur_part s)\<lparr>block_bitmap := bm\<rparr>, inodes := (inodes s)(a \<mapsto> i3),
       file_table := (file_table s)[fl := f\<lparr>fd_pos := fd_pos f + cnt\<rparr>], klog := l\<rparr>"
    "i_size i3 = i_size i + cnt" "appended a i (take (unat cnt) buf) s i3 (s3\<lparr>my_disk := d\<rparr>)"
proof -
  let ?p = "cur_part s" and ?z = "unat (i_size i)" and ?t = "top_block i"
  from pre obtain d2 bm where s2: "s2 = s\<lparr>my_disk := d2, cur_part := ?p\<lparr>block_bitmap := bm\<rparr>, inodes := (inodes s)(a \<mapsto> i2)\<rparr>"
    unfolding prepared_def by blast
  have P: "alloc_inv s2" "length blocks = 140" "i_size i2 = i_size i" "i_no i2 = i_no i" "i_sectors i2 ! 0 \<noteq> 0"
    "blocks_ok (cur_part s2) (my_disk s2) i2 w" "\<And>k. ?t \<le> k \<Longrightarrow> k \<le> w \<Longrightarrow> blocks ! k = file_block (my_disk s2) i2 k"
    "map (byte_at (my_disk s2) (file_block (my_disk s2) i2)) [0..<?z] = file_bytes (my_disk s) i"
    "\<And>x. block_used ?p x \<Longrightarrow> block_used (cur_part s2) x" "\<And>x. table_sector ?p x \<Longrightarrow> my_disk s2 x = my_disk s x"
    "\<And>x. data_sector ?p x \<Longrightarrow> block_used ?p x \<Longrightarrow> x \<notin> set (own_blocks (my_disk s) i) \<Longrightarrow>
       my_disk s2 x = my_disk s x \<and> (\<forall>k. ?t \<le> k \<and> k \<le> w \<longrightarrow> x \<noteq> blocks ! k)"
    using pre unfolding prepared_def by blast+
  have part2: "part_ok (cur_part s2)" "disk_ok (my_disk s2)" using P(1) by (simp_all add: alloc_inv_def)
  note D2 = blocks_okD [OF part2(1) P(6)]
  have tw: "?t \<le> w" "w < 140" using size by (simp_all add: w top_block_def div_le_mono less_mult_imp_div_less)
  let ?s2 = "s2\<lparr>file_table := (file_table s)[fl := f]\<rparr>"
  have tz: "?t = ?z div 512" by (simp add: top_block_def)
  have kw: "k \<le> w" if "512 * k < ?z + unat cnt" for k
    using that by (simp add: w less_eq_div_iff_mult_less_eq mult.commute)
  obtain d3 l b where wl: "write_loop fl a blocks buf cnt 0 True (replicate 512 0) ?s2 = Inr (b, written_st fl a i2 cnt d3 l ?s2)"
    "length b = 512" "wrote ((!) blocks) ?z (unat cnt) buf (my_disk s2) d3"
    by (rule append_loop [OF pre fl size w])
  define s3 where "s3 = written_st fl a i2 cnt d3 l ?s2"
  define i3 where "i3 = i2\<lparr>i_size := i_size i + cnt\<rparr>"
  have i3: "i_sectors i3 = i_sectors i2" "i_no i3 = i_no i" "i_size i3 = i_size i + cnt" "unat (i_size i3) = ?z + unat cnt"
    using P(4) size(1) by (simp_all add: i3_def unat_add_no_wrap32)
  have s3: "cur_part s3 = cur_part s2" "my_disk s3 = d3" "inodes s3 a = Some i3"
    using P(3) by (simp_all add: s3_def written_st_def i3_def)
  have d3: "disk_ok d3" using wl(3) by (simp add: wrote_def)
  have "\<forall>k. ?z div 512 \<le> k \<and> k \<le> w \<longrightarrow> blocks ! k = file_block (my_disk s2) i2 k" using P(7) tz by simp
  note con = contents_after_write [OF part2(1) P(6) wl(3) w size(2) i3(4,1) this]
  have slot3: "sync_slot i3 = sync_slot i" using i3(2) by (simp add: sync_slot_def)
  have "part_ok (cur_part s3)" "disk_ok (my_disk s3)" "length (i_sectors i3) = 13"
    "1024 \<le> length b \<or> 512 \<le> length b \<and> 76 * sync_slot i3 mod 512 \<le> 436"
    using part2(1) d3 s3 slot wl(2) slot3 con(2) by (simp_all add: blocks_ok_def)
  from inode_sync_ok [OF this] obtain b' d where d: "inode_sync i3 b s3 = Inr (b', s3\<lparr>my_disk := d\<rparr>)" "disk_ok d"
    "inode_table (cur_part s3) d = patch (76 * sync_slot i3) (inode_bytes (pure_inode i3)) (inode_table (cur_part s3) (my_disk s3))"
    "\<And>x. \<not> table_sector (cur_part s3) x \<Longrightarrow> d x = my_disk s3 x" by blast
  have sim: "data_sector (cur_part s2) = data_sector ?p" "table_sector (cur_part s2) = table_sector ?p"
    "inode_table (cur_part s2) = inode_table ?p" by (simp_all add: s2)
  have dsame: "\<forall>x. data_sector ?p x \<longrightarrow> d x = d3 x"
    using d(4) table_sector_places(1) [OF part] s3(1,2) sim(2) by auto
  note cong = blocks_cong [OF part2(1) con(2), of d, unfolded sim(1), OF dsame]
  have tab: "inode_table ?p d3 = inode_table ?p (my_disk s)"
  proof (rule inode_table_cong [OF part])
    fix x assume x: "table_sector ?p x"
    have "d3 x = my_disk s2 x"
    proof (rule wrote_outside [OF wl(3)])
      fix k assume "?z div 512 \<le> k" "k \<le> (?z + unat cnt) div 512"
      then have "data_sector ?p (blocks ! k)" using P(7) [of k] D2(1) [of k] sim(1) tz w by simp
      then show "x \<noteq> blocks ! k" using table_sector_places(1) [OF part x] by blast
    qed
    then show "d3 x = my_disk s x" using P(10) [OF x] by simp
  qed
  have "appended a i (take (unat cnt) buf) s i3 (s3\<lparr>my_disk := d\<rparr>)"
    unfolding appended_def
  proof (intro conjI allI impI)
    show "file_bytes (my_disk (s3\<lparr>my_disk := d\<rparr>)) i3 = file_bytes (my_disk s) i @ take (unat cnt) buf"
      using cong(3) con(3) P(8) i3(4) w by simp
    have "i_sectors i3 ! 0 \<noteq> 0" "top_block i3 = w" using P(5) i3(1,4) w by (simp_all add: top_block_def)
    then show "file_ok (cur_part (s3\<lparr>my_disk := d\<rparr>)) (my_disk (s3\<lparr>my_disk := d\<rparr>)) i3"
      using file_ok_blocks cong(2) i3(4) size(1) s3(1) by simp
    show "alloc_inv (s3\<lparr>my_disk := d\<rparr>)" using P(1) d(2) s3(1) by (simp add: alloc_inv_def)
    show "inode_table (cur_part (s3\<lparr>my_disk := d\<rparr>)) (my_disk (s3\<lparr>my_disk := d\<rparr>)) =
        patch (76 * sync_slot i) (inode_bytes (pure_inode i3)) (inode_table ?p (my_disk s))"
      using d(3) s3(1,2) sim(3) tab slot3 by simp
    fix x assume x: "data_sector ?p x \<and> block_used ?p x \<and> x \<notin> set (own_blocks (my_disk s) i)"
    then have "d3 x = my_disk s2 x" using P(11) [of x] tz w by (intro wrote_outside [OF wl(3)]) auto
    then show "my_disk (s3\<lparr>my_disk := d\<rparr>) x = my_disk s x" using dsame P(11) [of x] x by simp
  qed (use i3(2) P(9) s3(1) in simp_all)
  moreover have "s3\<lparr>my_disk := d\<rparr> = s\<lparr>my_disk := d, cur_part := ?p\<lparr>block_bitmap := bm\<rparr>, inodes := (inodes s)(a \<mapsto> i3),
       file_table := (file_table s)[fl := f\<lparr>fd_pos := fd_pos f + cnt\<rparr>], klog := l\<rparr>"
    using fl P(3) by (simp add: s3_def written_st_def s2 i3_def)
  ultimately show thesis using that [of b s3 i3 b' d l bm] wl(1) s3(3) d(1) i3(3) by (simp add: s3_def)
qed

end
