(* ===== verification/Fs_Mount.thy ===== *)
theory Fs_Mount
  imports Fs_Format File_Write
begin

text \<open>
  Formatting and mounting: a partition that \<^verbatim>\<open>partition_format\<close> has written and \<^verbatim>\<open>mount_partition\<close> has read has the layout \<open>part_ok\<close> the
  other theorems on the file system assume, and its root directory. The lemmas give the numbers of the layout, the bits
  of the bitmap and the regions of the disk after the five writes.
\<close>

section \<open>The layout\<close>

definition round_up :: "nat \<Rightarrow> nat" where
  "round_up n = (n + 4095) div 4096"

lemma round_up_bounds: "n \<le> 4096 * round_up n" "4096 * round_up n < n + 4096"
  by (simp_all add: round_up_def)

text \<open>The number of blocks that are counted, and the sectors of their bitmap.\<close>

definition block_cnt :: "u32 \<Rightarrow> nat" where
  "block_cnt cnt = unat cnt - 611 - round_up (unat cnt - 611)"

definition map_sects :: "u32 \<Rightarrow> nat" where
  "map_sects cnt = round_up (block_cnt cnt)"

lemma layout_arith:
  assumes "620 \<le> unat cnt" "unat cnt < 163840"
  shows "8 \<le> block_cnt cnt" "block_cnt cnt \<le> 4096 * map_sects cnt" "0 < map_sects cnt" "map_sects cnt \<le> 40"
    "611 + map_sects cnt + block_cnt cnt \<le> unat cnt" "unat cnt \<le> 612 + map_sects cnt + block_cnt cnt"
    "4096 * map_sects cnt < block_cnt cnt + 4096"
proof -
  define F where "F = unat cnt - 611"
  define r where "r = round_up F"
  define B where "B = map_sects cnt"
  define L where "L = block_cnt cnt"
  have F: "9 \<le> F" "F < 163229" "unat cnt = F + 611" using assms by (simp_all add: F_def)
  have r: "F \<le> 4096 * r" "4096 * r < F + 4096" using round_up_bounds [of F] by (simp_all add: r_def)
  have L: "L + r = F" using r F by (simp add: L_def block_cnt_def flip: F_def r_def)
  have B: "L \<le> 4096 * B" "4096 * B < L + 4096" using round_up_bounds [of L] by (simp_all add: B_def map_sects_def L_def)
  have "8 \<le> L" "L \<le> 4096 * B" "0 < B" "B \<le> 40" "611 + B + L \<le> unat cnt" "unat cnt \<le> 612 + B + L" "4096 * B < L + 4096"
    using F r L B by linarith+
  then show "8 \<le> block_cnt cnt" "block_cnt cnt \<le> 4096 * map_sects cnt" "0 < map_sects cnt" "map_sects cnt \<le> 40"
    "611 + map_sects cnt + block_cnt cnt \<le> unat cnt" "unat cnt \<le> 612 + map_sects cnt + block_cnt cnt"
    "4096 * map_sects cnt < block_cnt cnt + 4096"
    by (simp_all only: L_def B_def)
qed

lemma unat_round_up: "unat x + 4096 < 2 ^ 32 \<Longrightarrow> unat (DIV_ROUND_UP x BITS_PER_SECTOR) = round_up (unat x)"
proof -
  assume "unat x + 4096 < 2 ^ 32"
  then have "unat (x + 4095) = unat x + 4095" by (subst unat_add_no_wrap32) simp_all
  moreover have "DIV_ROUND_UP x BITS_PER_SECTOR = (x + 4095) div 4096"
    by (simp add: DIV_ROUND_UP_def BITS_PER_SECTOR_def add.commute)
  ultimately show ?thesis by (simp only: unat_div round_up_def) simp
qed

text \<open>The superblock that \<open>format_layout\<close> computes, in numbers.\<close>

definition layout :: "u32 \<Rightarrow> u32 \<Rightarrow> super_block" where
  "layout start cnt = fst (format_layout start cnt)"

lemma layout_numbers:
  assumes c: "620 \<le> unat cnt" "unat start + unat cnt < 163840"
  shows "unat (snd (format_layout start cnt)) = block_cnt cnt" "unat (block_bitmap_sects (layout start cnt)) = map_sects cnt"
    "unat (block_bitmap_lba (layout start cnt)) = unat start + 2" "inode_bitmap_sects (layout start cnt) = 1"
    "unat (inode_bitmap_lba (layout start cnt)) = unat start + 2 + map_sects cnt"
    "unat (inode_table_lba (layout start cnt)) = unat start + 3 + map_sects cnt" "inode_table_sects (layout start cnt) = 608"
    "unat (data_start_lba (layout start cnt)) = unat start + 611 + map_sects cnt"
    "dir_entry_size (layout start cnt) = sizeof_dir_entry" "block_bitmap_lba (layout start cnt) = start + 2"
proof -
  have cl: "unat cnt < 163840" using c(2) by simp
  note a = layout_arith [OF c(1) cl]
  have F: "unat (cnt - 611) = unat cnt - 611" using c by (subst unat_sub_no_wrap32) (simp_all add: word_le_nat_alt)
  let ?r = "DIV_ROUND_UP (cnt - 611) BITS_PER_SECTOR"
  have r: "unat ?r = round_up (unat cnt - 611)" using F cl by (simp add: unat_round_up)
  have rl: "round_up (unat cnt - 611) \<le> unat cnt - 611" using a(1) by (simp add: block_cnt_def)
  let ?L = "cnt - 611 - ?r"
  have L: "unat ?L = block_cnt cnt" using F r rl by (subst unat_sub_no_wrap32) (simp_all add: word_le_nat_alt block_cnt_def)
  let ?B = "DIV_ROUND_UP ?L BITS_PER_SECTOR"
  have B: "unat ?B = map_sects cnt" using L a(5) cl by (simp add: unat_round_up map_sects_def)
  have k: "DIV_ROUND_UP MAX_FILES_PER_PART BITS_PER_SECTOR = 1" "DIV_ROUND_UP (sizeof_inode * MAX_FILES_PER_PART) SECTOR_SIZE = 608"
    by (simp_all add: DIV_ROUND_UP_def MAX_FILES_PER_PART_def BITS_PER_SECTOR_def sizeof_inode_def SECTOR_SIZE_def)
  have fl: "format_layout start cnt = (\<lparr>magic = SUPER_BLOCK_MAGIC, sb_sec_cnt = cnt, inode_cnt = MAX_FILES_PER_PART, part_lba_base = start,
           block_bitmap_lba = start + 2, block_bitmap_sects = ?B, inode_bitmap_lba = start + 2 + ?B, inode_bitmap_sects = 1,
           inode_table_lba = start + 2 + ?B + 1, inode_table_sects = 608, data_start_lba = start + 2 + ?B + 1 + 608,
           root_inode_no = 0, dir_entry_size = sizeof_dir_entry\<rparr>, ?L)"
    unfolding format_layout_def k Let_def by simp
  have u2: "unat (start + 2) = unat start + 2" using c by (subst unat_add_no_wrap32) simp_all
  have uB: "unat (start + 2 + ?B) = unat start + 2 + map_sects cnt" using c B u2 a(4) by (subst unat_add_no_wrap32) simp_all
  have u1: "unat (start + 2 + ?B + 1) = unat start + 3 + map_sects cnt" using c uB a(4) by (subst unat_add_no_wrap32) simp_all
  have ud: "unat (start + 2 + ?B + 1 + 608) = unat start + 611 + map_sects cnt" using c u1 a(4) by (subst unat_add_no_wrap32) simp_all
  show "unat (snd (format_layout start cnt)) = block_cnt cnt" using L by (simp add: fl)
  show "unat (block_bitmap_sects (layout start cnt)) = map_sects cnt"
    "unat (block_bitmap_lba (layout start cnt)) = unat start + 2" "inode_bitmap_sects (layout start cnt) = 1"
    "unat (inode_bitmap_lba (layout start cnt)) = unat start + 2 + map_sects cnt"
    "unat (inode_table_lba (layout start cnt)) = unat start + 3 + map_sects cnt" "inode_table_sects (layout start cnt) = 608"
    "unat (data_start_lba (layout start cnt)) = unat start + 611 + map_sects cnt"
    "dir_entry_size (layout start cnt) = sizeof_dir_entry" "block_bitmap_lba (layout start cnt) = start + 2"
    using B u2 uB u1 ud by (simp_all only: layout_def fl fst_conv super_block.simps)
qed

section \<open>The bitmap of the blocks\<close>

lemma bit_clear_low: "j < 8 \<Longrightarrow> n \<le> 8 \<Longrightarrow> bit (clear_low_bits n 0xff) j \<longleftrightarrow> n \<le> j"
proof (induction n)
  case 0
  then show ?case using u8_full_iff [of "0xff"] by simp
next
  case (Suc n)
  then show ?case by (auto simp: bit_simps)
qed

text \<open>
  Bit 0 is the root directory's; every bit behind bit \<open>block_cnt\<close> is set, and that bit itself is clear, although the blocks have
  the numbers below it.
\<close>

lemma block_bitmap_image_bits:
  assumes L: "8 \<le> L" "L \<le> 4096 * B" "4096 * B < L + 4096" and buf: "n = 512 * 608" "B \<le> 40"
  obtains img where "block_bitmap_image L (replicate n 0) = Inr img" "length img = n"
    "\<And>i. i < 4096 * B \<Longrightarrow> bit_at img i \<longleftrightarrow> i = 0 \<or> L < i"
proof -
  define q m z where "q = L div 8" and "m = L mod 8" and "z = 512 - q mod 512"
  have q: "0 < q" "q \<le> 512 * B" "m < 8" "L = 8 * q + m" using L by (auto simp: q_def m_def)
  have z: "q + z = 512 * (q div 512) + 512" "0 < z"
    using minus_mod_eq_mult_div [of q 512] mod_less_divisor [of 512 q] by (auto simp: z_def)
  have qB: "q div 512 \<le> B" using q(2) by (simp add: div_le_mono less_mult_imp_div_less order.trans [OF div_le_mono [OF q(2), of 512]])
  have zn: "q + z \<le> n" using z qB buf by simp
  have zn': "q + 512 - q mod 512 \<le> n" using zn by (simp add: z_def)
  define b1 where "b1 = (replicate n (0 :: u8))[0 := 1]"
  define b2 where "b2 = patch q (replicate z 0xff) b1"
  define img where "img = b2[q := clear_low_bits (m + 1) 0xff]"
  have l: "length b1 = n" "length b2 = n" "length img = n"
    using zn by (simp_all add: b1_def b2_def img_def length_patch)
  have n0: "0 < n" by (simp add: buf)
  have b2: "b2 ! j = (if q \<le> j \<and> j < q + z then 0xff else if j = 0 then 1 else 0)" if "j < n" for j
    using that zn l(1) by (simp add: b2_def nth_patch) (auto simp: b1_def nth_list_update)
  have img: "img ! j = (if j = q then clear_low_bits (m + 1) 0xff else if q \<le> j \<and> j < q + z then 0xff
      else if j = 0 then 1 else 0)" if "j < n" for j
    using that l(2) b2 [OF that] by (auto simp: img_def nth_list_update)
  have qn: "q < n" using zn z(2) by simp
  have "block_bitmap_image L (replicate n 0) = Inr img"
    using n0 zn' qn l b2 [OF qn] z(2)
    by (simp add: block_bitmap_image_def Let_def read_at_def write_at_def put_bytes_def b1_def [symmetric]
        b2_def [symmetric] img_def flip: q_def m_def z_def)
  moreover have "bit_at img i \<longleftrightarrow> i = 0 \<or> L < i" if i: "i < 4096 * B" for i
  proof -
    define k j where "k = i div 8" and "j = i mod 8"
    have ij: "i = 8 * k + j" "j < 8" "k < 512 * B" using i by (auto simp: k_def j_def)
    then have kn: "k < n" using buf by simp
    have bit: "bit_at img i = bit (img ! k) j" by (simp add: bit_at_def k_def j_def)
    consider "k = q" | "k < q" "k = 0" | "k < q" "0 < k" | "q < k" by linarith
    then show ?thesis
    proof cases
      case 1
      then show ?thesis using bit img [OF kn] bit_clear_low [OF ij(2), of "m + 1"] q ij by auto
    next
      case 2
      then show ?thesis using bit img [OF kn] q ij by (auto simp: bit_1_iff)
    next
      case 3
      then show ?thesis using bit img [OF kn] q ij by auto
    next
      case 4
      have "q div 512 < B"
      proof (rule ccontr)
        assume "\<not> q div 512 < B"
        then have "512 * B \<le> q" by (simp add: less_eq_div_iff_mult_less_eq mult.commute)
        then show False using 4 ij(3) by simp
      qed
      moreover have "B < q div 512 + 2"
      proof -
        have "4096 * B < 8 * q + 7 + 4096" using L(3) q by simp
        then have "512 * B < q + 513" by simp
        moreover have "q < 512 * (q div 512) + 512" using z by simp
        ultimately show ?thesis by linarith
      qed
      ultimately have "512 * B = q + z" using z(1) by simp
      then have "img ! k = 0xff" using 4 ij(3) img [OF kn] by simp
      moreover have "bit (0xff :: u8) j" using ij(2) u8_full_iff [of "0xff"] by simp
      ultimately show ?thesis using bit 4 q ij by simp
    qed
  qed
  ultimately show thesis using that l(3) by blast
qed

section \<open>The disk after formatting\<close>

definition format_bytes :: nat where
  "format_bytes = 512 * 608"

definition formatted :: "u32 \<Rightarrow> super_block \<Rightarrow> u8 list \<Rightarrow> u8 list \<Rightarrow> (u32 \<Rightarrow> u8 list) \<Rightarrow> u32 \<Rightarrow> u8 list" where
  "formatted start x img pad d =
     (put_sectors (inode_table_lba x) 608 (patch 0 (root_inode_image x) (replicate format_bytes 0))
       (put_sectors (inode_bitmap_lba x) 1 ((replicate format_bytes 0)[0 := 1])
         (put_sectors (block_bitmap_lba x) (unat (block_bitmap_sects x)) img (d(start + 1 := super_block_bytes x pad)))))
     (data_start_lba x := dot_sector 0 0)"

lemma format_bytes_le [simp]: "512 \<le> format_bytes" "76 \<le> format_bytes" "0 < format_bytes"
  by (simp_all add: format_bytes_def)

lemma length_super_block_bytes: "length pad = 460 \<Longrightarrow> length (super_block_bytes x pad) = 512"
  by (simp add: super_block_bytes_def)

lemma length_dot_sector [simp]: "length (dot_sector a b) = 512"
  by (simp add: dot_sector_def dir_entry_bytes_def dot_entry_def str_def)

lemma length_root_image [simp]: "length (root_inode_image x) = 76"
  by (simp add: root_inode_image_def)

lemma fs_ide_write_many:
  assumes "unat lba + n \<le> 163840" "0 < n" "512 * n \<le> length b"
  shows "fs_ide_write lba b n s = Inr ((), s\<lparr>my_disk := put_sectors lba n b (my_disk s)\<rparr>)"
proof -
  have "256 * ((n - 1) div 256) \<le> n - 1" by simp
  then have "in_range lba n" "lba \<le> max_lba" using assms(1,2) by (simp_all add: in_range_def unat_max_lba word_le_nat_alt)
  with assms show ?thesis by (simp add: fs_ide_write_def disk_write_def)
qed

lemma fs_ide_read_many:
  assumes "disk_ok (my_disk s)" "unat lba + n \<le> 163840" "0 < n" "512 * n = length b"
  shows "fs_ide_read lba n b s = Inr (sectors_at (my_disk s) lba n, s)"
proof -
  have "256 * ((n - 1) div 256) \<le> n - 1" by simp
  then have "in_range lba n" "lba \<le> max_lba" using assms(2,3) by (simp_all add: in_range_def unat_max_lba word_le_nat_alt)
  with assms show ?thesis by (simp add: fs_ide_read_def disk_read_def put_bytes_def patch_front)
qed

lemma format_run:
  assumes c: "620 \<le> unat (sec_cnt part)" "unat (start_lba part) + unat (sec_cnt part) < 163840"
    and pad: "length pad = 460" and mem: "allocator_ok s" "mem_for (Suc m) s"
    and img: "block_bitmap_image (block_cnt (sec_cnt part)) (replicate format_bytes 0) = Inr img" "length img = format_bytes"
  obtains s1 where "partition_format part pad s = Inr ((), s1)"
    "my_disk s1 = formatted (start_lba part) (layout (start_lba part) (sec_cnt part)) img pad (my_disk s)"
    "live s1 = live s" "allocator s1 = allocator s" "root_dir s1 = root_dir s"
proof -
  define x where "x = layout (start_lba part) (sec_cnt part)"
  obtain l where lay: "format_layout (start_lba part) (sec_cnt part) = (x, l)"
    by (cases "format_layout (start_lba part) (sec_cnt part)") (simp add: x_def layout_def)
  note n = layout_numbers [OF c, folded x_def]
  have cl: "unat (sec_cnt part) < 163840" using c(2) by simp
  note a = layout_arith [OF c(1) cl]
  have B: "\<not> (608 :: u32) \<le> block_bitmap_sects x" "(1 :: u32) \<le> block_bitmap_sects x"
    using n(2) a(3,4) by (simp_all add: word_le_nat_alt)
  have fs: "512 * format_sectors x = format_bytes" using B n(4,7) by (simp add: format_sectors_def Let_def format_bytes_def)
  have u1: "unat (start_lba part + 1) = unat (start_lba part) + 1" using c by (subst unat_add_no_wrap32) simp_all
  obtain m0 where m0: "fs_malloc (of_nat format_bytes) t = Inr (m0, t\<lparr>mallocs := Suc (mallocs t), live := m0 # live t\<rparr>)"
    "m0 \<noteq> 0" if "allocator t = allocator s" "mallocs t = mallocs s" "live t = live s" for t
    using mem(2) by (intro that [of "allocator s (mallocs s) (live s) (of_nat format_bytes)"]) (simp_all add: fs_malloc_def Let_def mem_for_def)
  have w: "fs_ide_write (start_lba part + 1) (super_block_bytes x pad) 1 t =
      Inr ((), t\<lparr>my_disk := (my_disk t)(start_lba part + 1 := super_block_bytes x pad)\<rparr>)" for t
    using u1 c length_super_block_bytes [OF pad, of x] by (subst fs_ide_write_1) (simp_all add: word_le_nat_alt unat_max_lba)
  have wb: "fs_ide_write (block_bitmap_lba x) img (unat (block_bitmap_sects x)) t =
      Inr ((), t\<lparr>my_disk := put_sectors (block_bitmap_lba x) (unat (block_bitmap_sects x)) img (my_disk t)\<rparr>)" for t
    using n a c img(2) by (intro fs_ide_write_many) (simp_all add: format_bytes_def)
  have wi: "fs_ide_write (inode_bitmap_lba x) b (unat (inode_bitmap_sects x)) t =
      Inr ((), t\<lparr>my_disk := put_sectors (inode_bitmap_lba x) 1 b (my_disk t)\<rparr>)" if "length b = format_bytes" for b t
    unfolding n(4) using n(5) a(5) c(2) that by (simp, intro fs_ide_write_many [of _ "Suc 0", simplified]) (simp_all add: format_bytes_def)
  have wt: "fs_ide_write (inode_table_lba x) b (unat (inode_table_sects x)) t =
      Inr ((), t\<lparr>my_disk := put_sectors (inode_table_lba x) 608 b (my_disk t)\<rparr>)" if "length b = format_bytes" for b t
    unfolding n(7) using n(6) a(5) c(2) that by (simp, intro fs_ide_write_many) (simp_all add: format_bytes_def)
  have wd: "fs_ide_write (data_start_lba x) (patch 0 (dot_sector 0 0) (replicate format_bytes 0)) 1 t =
      Inr ((), t\<lparr>my_disk := (my_disk t)(data_start_lba x := dot_sector 0 0)\<rparr>)" for t
    using n(8) a(1,5) c(2) by (subst fs_ide_write_1) (simp_all add: word_le_nat_alt unat_max_lba length_patch patch_front)
  have nz: "m0 \<noteq> 0" by (rule m0(2) [of s]) simp_all
  define ib tab dots where "ib = (replicate format_bytes (0 :: u8))[0 := 1]"
    and "tab = patch 0 (root_inode_image x) (replicate format_bytes 0)" and "dots = patch 0 (dot_sector 0 0) (replicate format_bytes 0)"
  have bufs: "write_at (replicate format_bytes 0) 0 1 = Inr ib" "put_bytes 0 (root_inode_image x) (replicate format_bytes 0) = Inr tab"
    "put_bytes 0 (dot_sector 0 0) (replicate format_bytes 0) = Inr dots" "length ib = format_bytes" "length tab = format_bytes"
    by (simp_all add: write_at_def put_bytes_def ib_def tab_def dots_def length_patch)
  have hb: "heap_buf m0 format_bytes t = Inr (replicate format_bytes 0, t)" for t using nz by (simp add: heap_buf_def run_simps)
  have l: "unat l = block_cnt (sec_cnt part)" using n(1) lay by simp
  have fd: "formatted (start_lba part) x img pad d =
     (put_sectors (inode_table_lba x) 608 tab (put_sectors (inode_bitmap_lba x) 1 ib
         (put_sectors (block_bitmap_lba x) (unat (block_bitmap_sects x)) img (d(start_lba part + 1 := super_block_bytes x pad)))))
     (data_start_lba x := dot_sector 0 0)" for d by (simp only: formatted_def ib_def tab_def)
  have "\<exists>s1. partition_format part pad s = Inr ((), s1) \<and> my_disk s1 = formatted (start_lba part) x img pad (my_disk s) \<and>
      live s1 = live s \<and> allocator s1 = allocator s \<and> root_dir s1 = root_dir s"
    unfolding partition_format_def lay Let_def prod.case fs l fd
    by (simp add: bindS_def thenS_def k_print_run fs_free_def m0(1) nz w [unfolded One_nat_def] wb wi wt wd [folded dots_def, unfolded One_nat_def] hb img(1) bufs liftS_def)
  then show thesis using that unfolding x_def by blast
qed

text \<open>Every region holds what was written there last.\<close>

lemma put_sectors_take: "512 * n \<le> length b \<Longrightarrow> put_sectors lba n b d = put_sectors lba n (take (512 * n) b) d"
proof
  fix x assume b: "512 * n \<le> length b"
  show "put_sectors lba n b d x = put_sectors lba n (take (512 * n) b) d x"
  proof (cases "unat (x - lba) < n")
    case True
    then have "512 * unat (x - lba) + 512 \<le> 512 * n" by linarith
    then show ?thesis using True by (simp add: put_sectors_def sub_buf_def drop_take min_def)
  qed (simp add: put_sectors_def)
qed

lemma sectors_at_put_self:
  assumes "disk_ok d" "unat lba + n \<le> 2 ^ 32" "512 * n \<le> length b"
  shows "sectors_at (put_sectors lba n b d) lba n = take (512 * n) b"
proof -
  have l: "length (take (512 * n) b) = 512 * n" using assms(3) by simp
  have "sectors_at (put_sectors lba n (take (512 * n) b) d) lba n = patch 0 (take (512 * n) b) (sectors_at d lba n)"
    using sectors_at_put [of d 0 n n lba "take (512 * n) b"] assms(1,2) l by simp
  also have "\<dots> = take (512 * n) b" using l assms(1) by (intro patch_all) (simp add: length_sectors_at)
  finally show ?thesis by (simp only: put_sectors_take [OF assms(3)])
qed

lemma unat_lba_plus: "unat (lba :: u32) + n \<le> 2 ^ 32 \<Longrightarrow> k < n \<Longrightarrow> unat (lba + of_nat k) = unat lba + k"
  by (subst unat_add_no_wrap32) (simp_all add: unat_of_nat32)

lemma formatted_regions:
  assumes c: "620 \<le> unat cnt" "unat start + unat cnt < 163840" and d: "disk_ok d"
    and len: "length pad = 460" "length img = format_bytes"
  defines "x \<equiv> layout start cnt"
  defines "D \<equiv> formatted start x img pad d"
  shows "disk_ok D" "D (start + 1) = super_block_bytes x pad"
    "sectors_at D (block_bitmap_lba x) (map_sects cnt) = take (512 * map_sects cnt) img"
    "D (inode_bitmap_lba x) = (replicate 512 0)[0 := 1]"
    "sectors_at D (inode_table_lba x) 608 = patch 0 (root_inode_image x) (replicate format_bytes 0)"
    "D (data_start_lba x) = dot_sector 0 0"
    "\<And>y. unat y \<le> unat start \<or> unat start + unat cnt \<le> unat y \<Longrightarrow> D y = d y"
proof -
  let ?B = "map_sects cnt"
  note n = layout_numbers [OF c, folded x_def]
  have cl: "unat cnt < 163840" using c(2) by simp
  note a = layout_arith [OF c(1) cl]
  define ib where "ib = (replicate format_bytes (0 :: u8))[0 := 1]"
  define tab where "tab = patch 0 (root_inode_image x) (replicate format_bytes 0)"
  have lb: "length ib = 512 * 608" "length tab = 512 * 608"
    by (simp_all add: ib_def tab_def length_patch) (simp_all add: format_bytes_def)
  define d1 where "d1 = d(start + 1 := super_block_bytes x pad)"
  define d2 where "d2 = put_sectors (block_bitmap_lba x) ?B img d1"
  define d3 where "d3 = put_sectors (inode_bitmap_lba x) 1 ib d2"
  define d4 where "d4 = put_sectors (inode_table_lba x) 608 tab d3"
  have D: "D = d4(data_start_lba x := dot_sector 0 0)"
    unfolding D_def formatted_def n(2) d1_def d2_def d3_def d4_def ib_def tab_def by simp
  have u1: "unat (start + 1) = unat start + 1" using c by (subst unat_add_no_wrap32) simp_all
  have fb: "512 * ?B \<le> length img" using a(4) len(2) by (simp add: format_bytes_def)
  have ok: "disk_ok d1" "disk_ok d2" "disk_ok d3" "disk_ok d4"
    using d length_super_block_bytes [OF len(1), of x] fb lb by (simp_all add: d1_def d2_def d3_def d4_def disk_ok_upd disk_ok_put)
  show "disk_ok D" using ok(4) by (simp add: D disk_ok_upd)
  have o4: "D y = d4 y" if "unat y \<noteq> unat start + 611 + ?B" for y using that n(8) by (auto simp: D)
  have o3: "d4 y = d3 y" if "unat y < unat start + 3 + ?B \<or> unat start + 611 + ?B \<le> unat y" for y
    unfolding d4_def using that n(6) c a(4) by (intro put_sectors_outside) auto
  have o2: "d3 y = d2 y" if "unat y \<noteq> unat start + 2 + ?B" for y
    unfolding d3_def using that n(5) c a(4) by (intro put_sectors_outside) auto
  have o1: "d2 y = d1 y" if "unat y < unat start + 2 \<or> unat start + 2 + ?B \<le> unat y" for y
    unfolding d2_def using that n(3) c a(4) by (intro put_sectors_outside) auto
  show "D (start + 1) = super_block_bytes x pad" using o4 o3 o2 o1 u1 by (simp add: d1_def)
  show "D (data_start_lba x) = dot_sector 0 0" by (simp add: D)
  show "D y = d y" if "unat y \<le> unat start \<or> unat start + unat cnt \<le> unat y" for y
  proof -
    have "y \<noteq> start + 1" using that u1 c by auto
    then show ?thesis using that o4 [of y] o3 [of y] o2 [of y] o1 [of y] a(1,5) by (auto simp: d1_def)
  qed
  have "sectors_at D (block_bitmap_lba x) ?B = sectors_at d2 (block_bitmap_lba x) ?B"
  proof (rule sectors_at_cong)
    fix k assume "k < ?B"
    then show "D (block_bitmap_lba x + of_nat k) = d2 (block_bitmap_lba x + of_nat k)"
      using n(3) c a(4) unat_lba_plus [of "block_bitmap_lba x" ?B k] by (simp add: o4 o3 o2)
  qed
  then show "sectors_at D (block_bitmap_lba x) ?B = take (512 * ?B) img"
    using ok(1) n(3) c a(4) fb by (simp add: d2_def sectors_at_put_self)
  have "D (inode_bitmap_lba x) = d3 (inode_bitmap_lba x)" using n(5) by (simp add: o4 o3)
  also have "\<dots> = take 512 ib"
    using sectors_at_put_self [OF ok(2), of "inode_bitmap_lba x" 1 ib] n(5) c a(4) lb by (simp add: d3_def)
  also have "\<dots> = (replicate 512 0)[0 := 1]" by (simp add: ib_def take_update_swap)
  finally show "D (inode_bitmap_lba x) = (replicate 512 0)[0 := 1]" .
  have "sectors_at D (inode_table_lba x) 608 = sectors_at d4 (inode_table_lba x) 608"
  proof (rule sectors_at_cong)
    fix k :: nat assume "k < 608"
    then show "D (inode_table_lba x + of_nat k) = d4 (inode_table_lba x + of_nat k)"
      using n(6) c a(4) unat_lba_plus [of "inode_table_lba x" 608 k] by (simp add: o4)
  qed
  also have "\<dots> = tab" using ok(3) n(6) c a(4) lb by (simp add: d4_def sectors_at_put_self)
  finally show "sectors_at D (inode_table_lba x) 608 = patch 0 (root_inode_image x) (replicate format_bytes 0)"
    by (simp add: tab_def)
qed

section \<open>Mounting\<close>

definition mounted :: "partition \<Rightarrow> super_block \<Rightarrow> u8 list \<Rightarrow> u8 list \<Rightarrow> partition" where
  "mounted part x bb ib = part\<lparr>sb := x, block_bitmap := \<lparr>bmap_bytes_len = block_bitmap_sects x * SECTOR_SIZE, bits = bb\<rparr>,
     inode_bitmap := \<lparr>bmap_bytes_len = inode_bitmap_sects x * SECTOR_SIZE, bits = ib\<rparr>, open_inodes := []\<rparr>"

text \<open>The name is the partition's, and the disk has a superblock and the bitmaps it points to.\<close>

lemma mount_run:
  assumes name: "part_name part = nm @ 0 # r" "nul_free nm" "length nm < 2 ^ 32"
    and mem: "allocator_ok s" "mem_for (Suc (Suc (Suc (Suc m)))) s"
    and disk: "disk_ok (my_disk s)" "unat (start_lba part + 1) < 163840" "my_disk s (start_lba part + 1) = super_block_bytes x pad"
    and lay: "0 < unat (block_bitmap_sects x)" "unat (block_bitmap_sects x) \<le> 40" "inode_bitmap_sects x = 1"
      "unat (block_bitmap_lba x) + unat (block_bitmap_sects x) \<le> 163840" "unat (inode_bitmap_lba x) < 163840"
  obtains as msgs where "length as = 4" "mount_partition part (nm @ 0 # r') s = Inr (True, s\<lparr>
     cur_part := mounted part x (sectors_at (my_disk s) (block_bitmap_lba x) (unat (block_bitmap_sects x))) (my_disk s (inode_bitmap_lba x)),
     live := as @ live s, mallocs := mallocs s + 4, klog := msgs\<rparr>)"
proof -
  have cmp: "strncmp (Some (part_name part)) (Some (nm @ 0 # r')) (of_nat (length nm)) = Inr 0"
    using strncmp_name_eq [OF name(2,2,3), of r r'] by (simp add: name(1))
  have len: "strlen (Some (nm @ 0 # r')) = Inr (of_nat (length nm))" using name(2) by simp
  from fs_malloc_ok [OF mem, of SECTOR_SIZE] obtain a1 where a1:
    "fs_malloc SECTOR_SIZE s = Inr (a1, s\<lparr>mallocs := Suc (mallocs s), live := a1 # live s\<rparr>)" "a1 \<noteq> 0"
    "mem_for (Suc (Suc (Suc m))) (s\<lparr>mallocs := Suc (mallocs s), live := a1 # live s\<rparr>)"
    "allocator_ok (s\<lparr>mallocs := Suc (mallocs s), live := a1 # live s\<rparr>)" by metis
  from fs_malloc_ok [OF a1(4,3), of 512] obtain a2 where a2:
    "fs_malloc 512 (s\<lparr>mallocs := Suc (mallocs s), live := a1 # live s\<rparr>) =
       Inr (a2, s\<lparr>mallocs := Suc (Suc (mallocs s)), live := a2 # a1 # live s\<rparr>)" "a2 \<noteq> 0"
    "mem_for (Suc (Suc m)) (s\<lparr>mallocs := Suc (Suc (mallocs s)), live := a2 # a1 # live s\<rparr>)"
    "allocator_ok (s\<lparr>mallocs := Suc (Suc (mallocs s)), live := a2 # a1 # live s\<rparr>)" by auto
  let ?n3 = "block_bitmap_sects x * SECTOR_SIZE" and ?n4 = "inode_bitmap_sects x * SECTOR_SIZE"
  from fs_malloc_ok [OF a2(4,3), of ?n3] obtain a3 where a3:
    "fs_malloc ?n3 (s\<lparr>mallocs := Suc (Suc (mallocs s)), live := a2 # a1 # live s\<rparr>) =
       Inr (a3, s\<lparr>mallocs := Suc (Suc (Suc (mallocs s))), live := a3 # a2 # a1 # live s\<rparr>)" "a3 \<noteq> 0"
    "mem_for (Suc m) (s\<lparr>mallocs := Suc (Suc (Suc (mallocs s))), live := a3 # a2 # a1 # live s\<rparr>)"
    "allocator_ok (s\<lparr>mallocs := Suc (Suc (Suc (mallocs s))), live := a3 # a2 # a1 # live s\<rparr>)" by auto
  from fs_malloc_ok [OF a3(4,3), of ?n4] obtain a4 where a4:
    "fs_malloc ?n4 (s\<lparr>mallocs := Suc (Suc (Suc (mallocs s))), live := a3 # a2 # a1 # live s\<rparr>) =
       Inr (a4, s\<lparr>mallocs := Suc (Suc (Suc (Suc (mallocs s)))), live := a4 # a3 # a2 # a1 # live s\<rparr>)" "a4 \<noteq> 0" by auto
  have n3: "unat ?n3 = 512 * unat (block_bitmap_sects x)"
    using lay(2) by (simp add: SECTOR_SIZE_def unat_word_ariths)
  have n4: "unat ?n4 = 512" by (simp add: lay(3) SECTOR_SIZE_def)
  have r1: "fs_ide_read (start_lba part + 1) 1 (replicate 512 0) t = Inr (super_block_bytes x pad, t)"
    if "my_disk t = my_disk s" for t
    using disk that by (subst fs_ide_read_1) (simp_all add: word_le_nat_alt unat_max_lba)
  have r2: "fs_ide_read (block_bitmap_lba x) (unat (block_bitmap_sects x)) (replicate (unat ?n3) 0) t =
      Inr (sectors_at (my_disk s) (block_bitmap_lba x) (unat (block_bitmap_sects x)), t)" if "my_disk t = my_disk s" for t
    using disk(1) lay that n3 by (subst fs_ide_read_many) simp_all
  have r3: "fs_ide_read (inode_bitmap_lba x) (unat (inode_bitmap_sects x)) (replicate (unat ?n4) 0) t =
      Inr (my_disk s (inode_bitmap_lba x), t)" if "my_disk t = my_disk s" for t
    unfolding lay(3) using disk(1) lay that n4 by (simp add: fs_ide_read_1 word_le_nat_alt unat_max_lba lay(3))
  show thesis
  proof (rule that [of "[a4, a3, a2, a1]" "(''mount %s done!'', [ArgStr (part_name part)]) # klog s"])
  qed (simp_all add: mount_partition_def run_simps len cmp a1(1,2) a2(1,2) a3(1,2) a4(1,2) r1 [unfolded One_nat_def] r2 r3
      super_block_of_bytes Let_def PANIC_if_def k_print_def mounted_def)
qed

lemma bits_first: "bit_at ((replicate n 0)[0 := 1]) i \<longleftrightarrow> i = 0" if "i < 8 * n"
proof -
  have "i div 8 < n" using that by simp
  moreover have "i div 8 = 0 \<Longrightarrow> (i mod 8 = 0) = (i = 0)" by presburger
  ultimately show ?thesis
    by (cases "i div 8 = 0") (auto simp: bit_at_def nth_list_update bit_1_iff)
qed

text \<open>The mounted partition has the layout the operations on files and directories need.\<close>

lemma mounted_ok:
  assumes c: "620 \<le> unat (sec_cnt part)" "unat (start_lba part) + unat (sec_cnt part) < 163840"
    and img: "length img = format_bytes" "\<And>i. i < 4096 * map_sects (sec_cnt part) \<Longrightarrow> bit_at img i \<longleftrightarrow> i = 0 \<or> block_cnt (sec_cnt part) < i"
  defines "x \<equiv> layout (start_lba part) (sec_cnt part)"
  defines "p \<equiv> mounted part x (take (512 * map_sects (sec_cnt part)) img) ((replicate 512 0)[0 := 1])"
  shows "part_ok p" "bit_used (inode_bitmap p) = {0}"
    "bit_used (block_bitmap p) = {i. i < nbits (block_bitmap p) \<and> (i = 0 \<or> block_cnt (sec_cnt part) < i)}"
    "nbits (block_bitmap p) = 4096 * map_sects (sec_cnt part)"
proof -
  let ?B = "map_sects (sec_cnt part)"
  note n = layout_numbers [OF c, folded x_def]
  have cl: "unat (sec_cnt part) < 163840" using c(2) by simp
  note a = layout_arith [OF c(1) cl]
  have lb: "unat (block_bitmap_sects x * SECTOR_SIZE) = 512 * ?B" "unat (inode_bitmap_sects x * SECTOR_SIZE) = 512"
    using n(2,4) a(4) by (simp_all add: SECTOR_SIZE_def unat_word_ariths)
  have li: "length (take (512 * ?B) img) = 512 * ?B" using img(1) a(4) by (simp add: format_bytes_def)
  show nb: "nbits (block_bitmap p) = 4096 * ?B" using lb by (simp add: nbits_def p_def mounted_def)
  have take: "bit_at (take (512 * ?B) img) i = bit_at img i" if "i < 4096 * ?B" for i
    using that by (simp add: bit_at_def less_mult_imp_div_less)
  show ub: "bit_used (block_bitmap p) = {i. i < nbits (block_bitmap p) \<and> (i = 0 \<or> block_cnt (sec_cnt part) < i)}"
    using img(2) take nb by (auto simp: bit_used_def) (auto simp: p_def mounted_def)
  show "bit_used (inode_bitmap p) = {0}"
    using bits_first [of _ 512] lb(2) by (auto simp: bit_used_def nbits_def p_def mounted_def)
  have ok: "bitmap_ok (block_bitmap p)" "bitmap_ok (inode_bitmap p)"
    using lb li a(4) by (simp_all add: bitmap_ok_def p_def mounted_def)
  have "i \<in> bit_used (block_bitmap p)" if "i < nbits (block_bitmap p)"
    "unat (start_lba p) + unat (sec_cnt p) < unat (data_start_lba (sb p)) + i" for i
    using that ub n(8) a(5,6) by (simp add: p_def mounted_def)
  then show "part_ok p"
    using ok lb li n c a(4,5,6) by (simp add: part_ok_def p_def mounted_def)
qed

lemma root_stored:
  assumes "dir_entry_size x = sizeof_dir_entry"
    and "inode_table (cur_part s) (my_disk s) = patch 0 (root_inode_image x) (replicate format_bytes 0)"
  shows "disk_inode 0 s =
     \<lparr>i_no = 0, i_size = 48, i_open_cnts = 0, write_deny = False, i_sectors = data_start_lba x # replicate 12 0\<rparr>"
proof -
  let ?i = "\<lparr>i_no = 0, i_size = 48, i_open_cnts = 0, write_deny = False, i_sectors = data_start_lba x # replicate 12 0\<rparr> :: inode"
  have im: "root_inode_image x = inode_bytes ?i"
    using assms(1) by (simp add: root_inode_image_def sizeof_dir_entry_def eval_nat_numeral)
  have "disk_inode 0 s = inode_of (root_inode_image x)"
    using assms(2) sub_buf_patch_same [of 0 "replicate format_bytes 0" "root_inode_image x"] by (simp add: disk_inode_def)
  then show ?thesis unfolding im using inode_of_bytes [of ?i "[]"] by simp
qed

text \<open>C8: a partition of at least 620 sectors that is formatted and then mounted under its name has the layout and the
  bitmaps that all operations on files and directories rely on (\<open>alloc_inv\<close>): of the blocks only the first is in
  use, of the inodes only the root's, whose data are the entries of the directory itself and its parent; the bits behind the
  last block are set, all but the first of them, which \<^verbatim>\<open>partition_format\<close> leaves clear and whose sector is the last
  sector of the partition or the one behind it; no other sector of the disk changes. The partition ends before the disk
  does, and the allocator has four blocks of memory.\<close>

theorem formatted_partition_mounts:
  assumes "620 \<le> unat (sec_cnt part)" "unat (start_lba part) + unat (sec_cnt part) < 163840" "length pad = 460"
    and "part_name part = nm @ 0 # r" "nul_free nm" "length nm < 2 ^ 32"
    and "disk_ok (my_disk s)" "allocator_ok s" "mem_for (m + 4) s"
  shows "\<exists>s'. thenS (partition_format part pad) (mount_partition part (nm @ 0 # r')) s = Inr (True, s') \<and>
     alloc_inv s' \<and> start_lba (cur_part s') = start_lba part \<and> sec_cnt (cur_part s') = sec_cnt part \<and>
     sb (cur_part s') = fst (format_layout (start_lba part) (sec_cnt part)) \<and> open_inodes (cur_part s') = [] \<and>
     bit_used (inode_bitmap (cur_part s')) = {0} \<and>
     bit_used (block_bitmap (cur_part s')) = {i. i < nbits (block_bitmap (cur_part s')) \<and>
        (i = 0 \<or> unat (snd (format_layout (start_lba part) (sec_cnt part))) < i)} \<and>
     unat (data_start_lba (sb (cur_part s'))) + unat (snd (format_layout (start_lba part) (sec_cnt part))) \<in>
        {unat (start_lba part) + unat (sec_cnt part) - 1, unat (start_lba part) + unat (sec_cnt part)} \<and>
     disk_inode 0 s' = \<lparr>i_no = 0, i_size = 48, i_open_cnts = 0, write_deny = False,
        i_sectors = data_start_lba (sb (cur_part s')) # replicate 12 0\<rparr> \<and>
     my_disk s' (data_start_lba (sb (cur_part s'))) = dot_sector 0 0 \<and>
     (\<forall>y. unat y \<le> unat (start_lba part) \<or> unat (start_lba part) + unat (sec_cnt part) \<le> unat y \<longrightarrow> my_disk s' y = my_disk s y)"
proof -
  let ?a = "start_lba part" and ?c = "sec_cnt part"
  define x where "x = layout ?a ?c"
  note n = layout_numbers [OF assms(1,2), folded x_def]
  have cl: "unat ?c < 163840" using assms(2) by simp
  note a = layout_arith [OF assms(1) cl]
  from block_bitmap_image_bits [OF a(1,2,7) format_bytes_def a(4)] obtain img where img:
    "block_bitmap_image (block_cnt ?c) (replicate format_bytes 0) = Inr img" "length img = format_bytes"
    "\<And>i. i < 4096 * map_sects ?c \<Longrightarrow> bit_at img i \<longleftrightarrow> i = 0 \<or> block_cnt ?c < i" by blast
  have m1: "mem_for (Suc (m + 3)) s" using assms(9) by (simp add: eval_nat_numeral)
  from format_run [OF assms(1,2,3,8) m1 img(1,2)] obtain s1 where s1: "partition_format part pad s = Inr ((), s1)"
    "my_disk s1 = formatted ?a x img pad (my_disk s)" "live s1 = live s" "allocator s1 = allocator s" "root_dir s1 = root_dir s"
    unfolding x_def by blast
  note D = formatted_regions [OF assms(1,2,7,3) img(2), folded x_def, folded s1(2)]
  have mem: "allocator_ok s1" "mem_for (Suc (Suc (Suc (Suc m)))) s1"
    using assms(8,9) s1(3-5) by (simp_all add: allocator_ok_def mem_for_def)
  have u1: "unat (?a + 1) < 163840" using assms(1,2) by (subst unat_add_no_wrap32) simp_all
  have lay: "0 < unat (block_bitmap_sects x)" "unat (block_bitmap_sects x) \<le> 40"
    "unat (block_bitmap_lba x) + unat (block_bitmap_sects x) \<le> 163840" "unat (inode_bitmap_lba x) < 163840"
    using n a assms(2) by simp_all
  let ?bb = "sectors_at (my_disk s1) (block_bitmap_lba x) (unat (block_bitmap_sects x))" and ?ib = "my_disk s1 (inode_bitmap_lba x)"
  from mount_run [OF assms(4,5,6) mem D(1) u1 D(2) lay(1,2) n(4) lay(3,4)] obtain as msgs where
    m: "mount_partition part (nm @ 0 # r') s1 = Inr (True, s1\<lparr>cur_part := mounted part x ?bb ?ib, live := as @ live s1,
      mallocs := mallocs s1 + 4, klog := msgs\<rparr>)" by blast
  let ?p = "mounted part x (take (512 * map_sects ?c) img) ((replicate 512 0)[0 := 1])"
  have bits: "?bb = take (512 * map_sects ?c) img" "?ib = (replicate 512 0)[0 := 1]" using D(3,4) n(2) by simp_all
  define s' where "s' = s1\<lparr>cur_part := ?p, live := as @ live s1, mallocs := mallocs s1 + 4, klog := msgs\<rparr>"
  have run: "thenS (partition_format part pad) (mount_partition part (nm @ 0 # r')) s = Inr (True, s')"
    by (simp add: thenS_def bindS_def s1(1) m [unfolded bits] s'_def)
  note p = mounted_ok [OF assms(1,2) img(2,3), folded x_def]
  have frame: "start_lba ?p = ?a" "sec_cnt ?p = ?c" "sb ?p = x" "open_inodes ?p = []" by (simp_all add: mounted_def)
  have used: "bit_used (block_bitmap ?p) = {i. i < nbits (block_bitmap ?p) \<and> (i = 0 \<or> unat (snd (format_layout ?a ?c)) < i)}"
    using p(3) n(1) by simp
  have "0 < nbits (block_bitmap ?p)" using p(4) a(3) by simp
  then have "0 \<in> bit_used (block_bitmap ?p)" unfolding used by simp
  then have inv: "alloc_inv s'" using p(1) D(1) by (simp add: alloc_inv_def s'_def)
  have "inode_table (cur_part s') (my_disk s') = patch 0 (root_inode_image x) (replicate format_bytes 0)"
    using D(5) by (simp add: inode_table_def s'_def frame)
  note root = root_stored [OF n(9) this]
  have last: "unat (data_start_lba x) + unat (snd (format_layout ?a ?c)) \<in> {unat ?a + unat ?c - 1, unat ?a + unat ?c}"
    using n(1,8) a(5,6) by auto
  show ?thesis
    using run inv frame p(2) used last root D(6,7) unfolding s'_def x_def layout_def by auto
qed

text \<open>A partition of 1000 sectors from sector 63 on: the first free bit behind its 388 blocks is the sector behind the partition.\<close>

definition new_part :: partition where
  "new_part = small_part\<lparr>start_lba := 63, sec_cnt := 1000\<rparr>"

lemma new_part_layout:
  "unat (snd (format_layout 63 1000)) = 388" "data_start_lba (fst (format_layout 63 1000)) = 675"
  by (simp_all add: format_layout_def Let_def DIV_ROUND_UP_def MAX_FILES_PER_PART_def BITS_PER_SECTOR_def sizeof_inode_def SECTOR_SIZE_def)

theorem formatted_partition_mounts_witness:
  "\<exists>s'. thenS (partition_format new_part (replicate 460 0)) (mount_partition new_part (str ''sdb1'' @ [0])) small_fs = Inr (True, s') \<and>
     alloc_inv s' \<and> disk_inode 0 s' = \<lparr>i_no = 0, i_size = 48, i_open_cnts = 0, write_deny = False, i_sectors = 675 # replicate 12 0\<rparr> \<and>
     388 \<notin> bit_used (block_bitmap (cur_part s')) \<and> unat (data_start_lba (sb (cur_part s'))) + 388 = 63 + 1000"
proof -
  have nm: "part_name new_part = str ''sdb1'' @ 0 # [0, 0, 0]" by (simp add: new_part_def small_part_def)
  have nf: "nul_free (str ''sdb1'')" "length (str ''sdb1'') < 2 ^ 32" by (simp_all add: str_def nul_free_def of_char_def)
  have cn: "start_lba new_part = 63" "sec_cnt new_part = 1000" by (simp_all add: new_part_def)
  have b: "620 \<le> unat (sec_cnt new_part)" "unat (start_lba new_part) + unat (sec_cnt new_part) < 163840" by (simp_all add: cn)
  have m: "mem_for (0 + 4) small_fs" by (rule small_fs_ok) simp
  from formatted_partition_mounts [OF b _ nm nf small_fs_ok(2,3) m, of "replicate 460 0" "[]"] show ?thesis
    unfolding cn by (fastforce simp: new_part_layout)
qed

end
