(* ===== verification/Dir_Search.thy ===== *)
theory Dir_Search
  imports Dir
begin

text \<open>
  The contents of a directory: the entries in its sectors. Searching finds the first entry with the name, and
  deleting the only entry of an indirect block does not end.
\<close>

section \<open>Entries\<close>

definition entry_name :: "dir_entry \<Rightarrow> u8 list" where
  "entry_name e = takeWhile (\<lambda>c. c \<noteq> 0) (filename e)"

definition sector_entries :: "u8 list \<Rightarrow> dir_entry list" where
  "sector_entries b = map (\<lambda>k. dir_entry_of (sub_buf (24 * k) 24 b)) [0..<21]"

definition dir_blocks :: "(u32 \<Rightarrow> u8 list) \<Rightarrow> inode \<Rightarrow> u32 list" where
  "dir_blocks d i = take 12 (i_sectors i) @
     (if i_sectors i ! 12 \<noteq> 0 then get32s 128 (d (i_sectors i ! 12)) else replicate 128 0)"

definition entries_of :: "(u32 \<Rightarrow> u8 list) \<Rightarrow> u32 list \<Rightarrow> dir_entry list" where
  "entries_of d bs = concat (map (\<lambda>b. sector_entries (d b)) (filter (\<lambda>b. b \<noteq> 0) bs))"

definition dir_entries :: "(u32 \<Rightarrow> u8 list) \<Rightarrow> inode \<Rightarrow> dir_entry list" where
  "dir_entries d i = entries_of d (dir_blocks d i)"

text \<open>Every name in the directory ends inside its array.\<close>

definition names_ok :: "dir_entry list \<Rightarrow> bool" where
  "names_ok es \<longleftrightarrow> (\<forall>e \<in> set es. 0 \<in> set (filename e))"

lemma strncmp_entry:
  assumes b: "length b = 512" "k < 21" and ok: "0 \<in> set (filename (dir_entry_of (sub_buf (24 * k) 24 b)))"
    and name: "nul_free name" "length name < 2 ^ 32"
  shows "\<exists>c. strncmp (Some (drop (24 * k) b)) (Some (name @ 0 # r)) (of_nat (length name)) = Inr c \<and>
           (c = 0 \<longleftrightarrow> entry_name (dir_entry_of (sub_buf (24 * k) 24 b)) = name)"
proof -
  let ?f = "filename (dir_entry_of (sub_buf (24 * k) 24 b))"
  define s where "s = takeWhile (\<lambda>c. c \<noteq> 0) ?f"
  have f: "?f = take 16 (drop (24 * k) b)" by (simp add: dir_entry_of_def sub_buf_def)
  have "nul_free s" unfolding s_def nul_free_def by (blast dest: set_takeWhileD)
  have ne: "dropWhile (\<lambda>c. c \<noteq> 0) ?f \<noteq> []" using ok by (simp add: dropWhile_eq_Nil_conv)
  then obtain r1 where r1: "dropWhile (\<lambda>c. c \<noteq> 0) ?f = 0 # r1"
    using hd_dropWhile [OF ne] by (cases "dropWhile (\<lambda>c. c \<noteq> 0) ?f") auto
  have "drop (24 * k) b = ?f @ drop 16 (drop (24 * k) b)"
    unfolding f by (rule append_take_drop_id [symmetric])
  also have "?f = s @ 0 # r1" using takeWhile_dropWhile_id [of "\<lambda>c. c \<noteq> 0" ?f] r1 by (simp add: s_def)
  finally obtain r2 where d: "drop (24 * k) b = s @ 0 # r2" by simp
  obtain c where c: "strncmp (Some (s @ 0 # r2)) (Some (name @ 0 # r)) (of_nat (length name)) = Inr c"
    using strncmp_loop_returns [of s r2 name r "unat (of_nat (length name) :: u32)"] by (auto simp: strncmp_def)
  then have "c = 0 \<longleftrightarrow> s = name" using strncmp_name_eq [OF \<open>nul_free s\<close> name, of r2 r] by auto
  then show ?thesis using c by (simp add: d entry_name_def s_def)
qed

lemma search_sector_run:
  assumes "length b = 512" "names_ok (sector_entries b)" "nul_free name" "length name < 2 ^ 32" "k + n \<le> 21"
  shows "search_sector (name @ 0 # r) b n k =
           Inr (find (\<lambda>j. entry_name (dir_entry_of (sub_buf (24 * j) 24 b)) = name) [k..<k + n])"
  using assms(5)
proof (induction n arbitrary: k)
  case (Suc n)
  have "0 \<in> set (filename (dir_entry_of (sub_buf (24 * k) 24 b)))"
    using assms(2) Suc.prems by (simp add: names_ok_def sector_entries_def)
  from strncmp_entry [OF assms(1) _ this assms(3,4), of r] Suc.prems obtain c where
    "strncmp (Some (drop (24 * k) b)) (Some (name @ 0 # r)) (of_nat (length name)) = Inr c"
    "c = 0 \<longleftrightarrow> entry_name (dir_entry_of (sub_buf (24 * k) 24 b)) = name" by auto
  moreover have "strlen (Some (name @ 0 # r)) = Inr (of_nat (length name))" using assms(3) by (simp add: strlen_def)
  moreover have "[k..<k + Suc n] = k # [Suc k..<Suc k + n]" by (simp add: upt_conv_Cons)
  ultimately show ?case using Suc.IH [of "Suc k"] Suc.prems by simp
qed simp

section \<open>Searching\<close>

lemma find_map: "find P (map f xs) = map_option f (find (P \<circ> f) xs)"
  by (induction xs) auto

lemma find_append: "find P (xs @ ys) = (case find P xs of None \<Rightarrow> find P ys | Some x \<Rightarrow> Some x)"
  by (induction xs) auto

lemma read_entry_run:
  "length b = 512 \<Longrightarrow> k < 21 \<Longrightarrow> read_entry sizeof_dir_entry b k = Inr (dir_entry_of (sub_buf (24 * k) 24 b))"
  by (simp add: read_entry_def get_bytes_def)

lemma search_blocks_run:
  assumes "disk_ok (my_disk s)" "part_ok (cur_part s)" "names_ok (entries_of (my_disk s) bs)" "nul_free name" "length name < 2 ^ 32"
    and "\<forall>b \<in> set bs. b \<le> max_lba" "length buf = 512"
  shows "search_blocks (name @ 0 # r) 21 bs buf s =
           Inr (find (\<lambda>e. entry_name e = name) (entries_of (my_disk s) bs), s)"
  using assms(3,6,7)
proof (induction bs arbitrary: buf)
  case (Cons b bs)
  show ?case
  proof (cases "b = 0")
    case True
    then show ?thesis using Cons by (simp add: entries_of_def)
  next
    case False
    let ?b = "my_disk s b" and ?P = "\<lambda>e. entry_name e = name"
    let ?j = "find (\<lambda>j. ?P (dir_entry_of (sub_buf (24 * j) 24 (my_disk s b)))) [0..<21]"
    have es: "entries_of (my_disk s) (b # bs) = sector_entries ?b @ entries_of (my_disk s) bs" using False by (simp add: entries_of_def)
    have ok: "names_ok (sector_entries ?b)" "names_ok (entries_of (my_disk s) bs)" using Cons.prems(1) by (auto simp: es names_ok_def)
    have sec: "search_sector (name @ 0 # r) ?b 21 0 = Inr ?j"
      using search_sector_run [OF _ ok(1) assms(4,5), of 0 21 r] assms(1) by simp
    have fe: "find ?P (sector_entries ?b) = map_option (\<lambda>j. dir_entry_of (sub_buf (24 * j) 24 ?b)) ?j"
      unfolding sector_entries_def find_map comp_def ..
    have rd: "fs_ide_read b 1 buf s = Inr (?b, s)" using Cons.prems(2,3) assms(1) by (simp add: run_simps)
    have des: "dir_entry_size (sb (cur_part s)) = sizeof_dir_entry" using assms(2) by (simp add: part_ok_def)
    show ?thesis
    proof (cases ?j)
      case None
      then show ?thesis
        using False rd sec fe Cons.IH [OF ok(2), of "replicate 512 0"] Cons.prems(2)
        by (simp add: es find_append run_simps)
    next
      case (Some j)
      then have "j < 21" by (auto dest: find_SomeD)
      then show ?thesis
        using False rd sec fe Some read_entry_run [of ?b j] assms(1) by (simp add: es find_append run_simps des)
    qed
  qed
qed (simp add: entries_of_def run_simps)

text \<open>
  C11: searching a directory is a search of its entries: \<^verbatim>\<open>search_dir_entry\<close> gives the first entry, in the order of the direct and
  then the indirect blocks, whose name is the one looked for, and reports that there is none exactly when there is none.
  The memory it took is given back and nothing else changes.
\<close>

theorem search_dir_entry_is_find:
  assumes "disk_ok (my_disk s)" "part_ok (cur_part s)" "heap_ok s" "mem_for 2 s"
    and "dirs s pdir = Some dd" "inodes s (dir_inode dd) = Some i" "length (i_sectors i) = 13"
    and "i_sectors i ! 12 \<le> max_lba" "\<forall>b \<in> set (dir_blocks (my_disk s) i). b \<le> max_lba"
    and "names_ok (dir_entries (my_disk s) i)" "nul_free name" "length name < 2 ^ 32"
  shows "search_dir_entry pdir (name @ 0 # r) s =
           Inr (find (\<lambda>e. entry_name e = name) (dir_entries (my_disk s) i), s\<lparr>mallocs := Suc (Suc (mallocs s))\<rparr>)"
proof -
  obtain a c where m: "fs_malloc (48 + 512) s = Inr (a, s\<lparr>mallocs := Suc (mallocs s), live := a # live s\<rparr>)"
    "fs_malloc SECTOR_SIZE (s\<lparr>mallocs := Suc (mallocs s), live := a # live s\<rparr>) =
       Inr (c, s\<lparr>mallocs := Suc (Suc (mallocs s)), live := c # a # live s\<rparr>)"
    "a \<noteq> 0" "c \<noteq> 0" "a \<noteq> c" "a \<notin> set (live s)" "c \<notin> set (live s)"
    "(inodes s)(a := None) = inodes s" "(dirs s)(a := None) = dirs s" "(inodes s)(c := None) = inodes s" "(dirs s)(c := None) = dirs s"
    by (rule two_mallocs [OF assms(3,4)])
  let ?s1 = "s\<lparr>mallocs := Suc (mallocs s), live := a # live s\<rparr>"
  let ?s2 = "s\<lparr>mallocs := Suc (Suc (mallocs s)), live := c # a # live s\<rparr>"
  have blocks: "collect_blocks i ?s1 = Inr (dir_blocks (my_disk s) i, ?s1)"
    using assms(1,8) by (simp add: collect_blocks_def dir_blocks_def read_table_def run_simps)
  have des: "dir_entry_size (sb (cur_part s)) = 24" using assms(2) by (simp add: part_ok_def sizeof_dir_entry_def)
  have per: "entries_per_sec ?s2 = Inr (21, ?s2)"
    by (simp add: entries_per_sec_def run_simps des SECTOR_SIZE_def)
  have srch: "search_blocks (name @ 0 # r) 21 (dir_blocks (my_disk s) i) (replicate 512 0) ?s2 =
      Inr (find (\<lambda>e. entry_name e = name) (dir_entries (my_disk s) i), ?s2)"
    using search_blocks_run [of ?s2 "dir_blocks (my_disk s) i" name "replicate 512 0" r] assms by (simp add: dir_entries_def)
  show ?thesis
    using m assms(5,6) by (simp add: search_dir_entry_def run_simps blocks per srch heap_buf_def fs_free_def)
qed

text \<open>A sector with given entries, and a directory with the entries \<^verbatim>\<open>.\<close>, \<^verbatim>\<open>a\<close> and \<^verbatim>\<open>b\<close> in its first block.\<close>

definition sample_entry :: "string \<Rightarrow> u32 \<Rightarrow> dir_entry" where
  "sample_entry n no = \<lparr>filename = str n @ replicate (16 - length n) 0, de_i_no = no, f_type = 1\<rparr>"

definition entry_sector :: "dir_entry list \<Rightarrow> u8 list" where
  "entry_sector es = concat (map dir_entry_bytes es) @ replicate 8 0"

definition dir_sample :: "dir_entry list \<Rightarrow> fstate" where
  "dir_sample es = small_fs\<lparr>my_disk := (\<lambda>_. replicate 512 0)(620 := entry_sector es),
     live := [1], inodes := [1 \<mapsto> \<lparr>i_no = 0, i_size = 72, i_open_cnts = 1, write_deny = False, i_sectors = 620 # replicate 12 0\<rparr>],
     dirs := [0x1000 \<mapsto> \<lparr>dir_inode = 1, dir_pos = 0, dir_buf = replicate 512 0\<rparr>]\<rparr>"

definition three_entries :: "dir_entry list" where
  "three_entries = [sample_entry ''.'' 0, sample_entry ''a'' 8, sample_entry ''b'' 9] @ replicate 18 blank_entry"

lemma sub_buf_entry:
  assumes "k < length es" "\<forall>e \<in> set es. length (filename e) = 16"
  shows "sub_buf (24 * k) 24 (concat (map dir_entry_bytes es) @ r) = dir_entry_bytes (es ! k)"
  using assms
proof (induction es arbitrary: k)
  case (Cons e es)
  have l: "length (dir_entry_bytes e) = 24" using Cons.prems(2) by (simp add: dir_entry_bytes_def)
  show ?case
  proof (cases k)
    case (Suc j)
    then have "drop (24 * k) (concat (map dir_entry_bytes (e # es)) @ r) = drop (24 * j) (concat (map dir_entry_bytes es) @ r)"
      using l by simp
    then show ?thesis using Cons Suc by (simp add: sub_buf_def)
  qed (use l in \<open>simp add: sub_buf_def\<close>)
qed simp

lemma entry_sector_entries:
  assumes "length es = 21" "\<forall>e \<in> set es. length (filename e) = 16"
  shows "sector_entries (entry_sector es) = es" "length (entry_sector es) = 512"
proof -
  have "dir_entry_of (dir_entry_bytes e) = e" if "e \<in> set es" for e
    using dir_entry_of_bytes [of e "[]"] assms(2) that by simp
  then show "sector_entries (entry_sector es) = es"
    using assms sub_buf_entry [OF _ assms(2)] unfolding sector_entries_def entry_sector_def
    by (intro nth_equalityI) simp_all
  have "length (concat (map dir_entry_bytes es)) = 24 * length es"
    using assms(2) by (induction es) (simp_all add: dir_entry_bytes_def)
  then show "length (entry_sector es) = 512" using assms(1) by (simp add: entry_sector_def)
qed

lemma dir_sample_ok:
  assumes "length es = 21" "\<forall>e \<in> set es. length (filename e) = 16"
  shows "disk_ok (my_disk (dir_sample es))" "part_ok (cur_part (dir_sample es))" "heap_ok (dir_sample es)" "mem_for 2 (dir_sample es)"
    "dir_blocks (my_disk (dir_sample es)) (the (inodes (dir_sample es) 1)) = 620 # replicate 139 0"
    "dir_entries (my_disk (dir_sample es)) (the (inodes (dir_sample es) 1)) = es"
proof -
  show "disk_ok (my_disk (dir_sample es))" using entry_sector_entries(2) [OF assms] by (simp add: disk_ok_def dir_sample_def)
  show "part_ok (cur_part (dir_sample es))" using small_fs_ok(1) by (simp add: dir_sample_def)
  show "heap_ok (dir_sample es)"
    using small_fs_ok(3) by (simp add: heap_ok_def dir_sample_def allocator_ok_def) (simp add: small_fs_def)
  show "mem_for 2 (dir_sample es)" using pick_addr_some by (simp add: mem_for_def dir_sample_def small_fs_def)
  show b: "dir_blocks (my_disk (dir_sample es)) (the (inodes (dir_sample es) 1)) = 620 # replicate 139 0"
    by (simp add: dir_blocks_def dir_sample_def flip: replicate_add)
  show "dir_entries (my_disk (dir_sample es)) (the (inodes (dir_sample es) 1)) = es"
    unfolding dir_entries_def b using entry_sector_entries(1) [OF assms] by (simp add: entries_of_def) (simp add: dir_sample_def)
qed

lemma three_entries_ok: "length three_entries = 21" "\<forall>e \<in> set three_entries. length (filename e) = 16" "names_ok three_entries"
  by (simp_all add: three_entries_def sample_entry_def blank_entry_def str_def names_ok_def)

theorem search_dir_entry_is_find_witness:
  "search_dir_entry 0x1000 (str ''b'' @ [0]) (dir_sample three_entries) =
     Inr (Some (sample_entry ''b'' 9), (dir_sample three_entries)\<lparr>mallocs := 2\<rparr>)"
proof -
  note ok = dir_sample_ok [OF three_entries_ok(1,2)]
  let ?s = "dir_sample three_entries" and ?i = "the (inodes (dir_sample three_entries) 1)"
  have i: "dirs ?s 0x1000 = Some \<lparr>dir_inode = 1, dir_pos = 0, dir_buf = replicate 512 0\<rparr>"
    "inodes ?s (dir_inode \<lparr>dir_inode = 1, dir_pos = 0, dir_buf = replicate 512 0\<rparr>) = Some ?i"
    "length (i_sectors ?i) = 13" "i_sectors ?i ! 12 \<le> max_lba" "mallocs ?s = 0" by (simp_all add: dir_sample_def small_fs_def)
  have b: "\<forall>b \<in> set (dir_blocks (my_disk ?s) ?i). b \<le> max_lba" unfolding ok(5) by (simp add: max_lba_def)
  have "find (\<lambda>e. entry_name e = str ''b'') three_entries = Some (sample_entry ''b'' 9)"
    by (simp add: three_entries_def sample_entry_def entry_name_def str_def of_char_def)
  then show ?thesis
    using search_dir_entry_is_find [OF ok(1-4) i(1-4) b, of "str ''b''" "[]"] three_entries_ok(3) i(5)
    unfolding ok(6) by (simp add: str_def nul_free_def of_char_def)
qed

section \<open>Deleting\<close>

lemma count_indirect_ends: "count_indirect bs idx n = Some y \<Longrightarrow> \<not> idx < 140"
  by (rule count_indirect.raw_induct [where P = "\<lambda>bs idx n y. \<not> idx < 140"]) (auto split: if_splits)

lemma count_indirect_diverges: "count_indirect bs 12 n = None"
  using count_indirect_ends [of bs 12 n] by (cases "count_indirect bs 12 n") auto

text \<open>
  C27: deleting the only entry of an indirect block of a directory never ends: \<^verbatim>\<open>delete_dir_entry\<close> counts the indirect blocks in a loop that
  does not advance its index. The bit of the block is cleared by then, in memory and on the disk.
\<close>

theorem delete_lone_indirect_entry_diverges:
  assumes "disk_ok (my_disk s)" "part_ok (cur_part s)" "12 \<le> idx" "idx < 140" "all_blocks ! idx = b" "b \<noteq> 0" "512 \<le> length io_buf"
    and "data_sector (cur_part s) b" "block_no (cur_part s) b < nbits (block_bitmap (cur_part s))"
    and "delete_scan (my_disk s b @ drop 512 io_buf) inode_no per_sec 0 (False, 0, None) = Inr (False, 1, Some k)"
  shows "delete_blocks a inode_no per_sec idx all_blocks io_buf s = Inl Diverges"
proof -
  let ?p = "cur_part s" and ?x = "b - data_start_lba (sb (cur_part s))"
  have bok: "bitmap_ok (block_bitmap ?p)" using assms(2) by (simp add: part_ok_def)
  have lt: "unat ?x < nbits (block_bitmap ?p)" using assms(9) by (simp add: block_no_def)
  from bitmap_set_0 [OF bok this] obtain bm where bm: "bitmap_set (block_bitmap ?p) ?x 0 = Inr bm" "bitmap_ok bm"
    "nbits bm = nbits (block_bitmap ?p)" "bmap_bytes_len bm = bmap_bytes_len (block_bitmap ?p)"
    "length (bits bm) = length (bits (block_bitmap ?p))" "bit_used bm = bit_used (block_bitmap ?p) - {unat ?x}" by blast
  have "unat ?x + unat (data_start_lba (sb ?p)) = unat b"
    using assms(8) by (simp add: data_sector_def unat_sub_no_wrap32 word_le_nat_alt)
  then have "part_ok (?p\<lparr>block_bitmap := bm\<rparr>)"
    using assms(2,8) bm by (auto simp: part_ok_def data_sector_def)
  then obtain s' where "bitmap_sync ?x BLOCK_BITMAP (s\<lparr>cur_part := ?p\<lparr>block_bitmap := bm\<rparr>\<rparr>) = Inr ((), s')"
    using bitmap_sync_block(1) [of "s\<lparr>cur_part := ?p\<lparr>block_bitmap := bm\<rparr>\<rparr>" ?x] lt bm(3) by simp
  then have drop: "drop_dir_block a idx all_blocks s = Inl Diverges"
    using assms(3,5) bm(1)
    by (simp add: drop_dir_block_def drop_indirect_def count_indirect_diverges block_bit_clear_def Let_def run_simps)
  have "b \<le> max_lba" using data_sector_max [OF assms(2,8)] .
  then have rd: "fs_ide_read b 1 (patch 0 (replicate 512 0) io_buf) s = Inr (my_disk s b @ drop 512 io_buf, s)"
    using assms(1,7) by (simp add: run_simps length_patch patch_def)
  show ?thesis
    using assms(4,5,6,7,10) rd drop by (subst delete_blocks.simps) (simp add: run_simps put_bytes_def)
qed

lemma entry_fields:
  assumes "k < length es" "\<forall>e \<in> set es. length (filename e) = 16" and b_def: "b = concat (map dir_entry_bytes es) @ r"
  shows "entry_type b k = Inr (f_type (es ! k))" "entry_ino b k = Inr (de_i_no (es ! k))"
proof -
  have sub: "sub_buf (24 * k) 24 b = dir_entry_bytes (es ! k)" unfolding b_def by (rule sub_buf_entry [OF assms(1,2)])
  have l: "length (filename (es ! k)) = 16" using assms(1,2) by simp
  then have "length (sub_buf (24 * k) 24 b) = 24" unfolding sub by (simp add: dir_entry_bytes_def)
  then have len: "24 * k + 24 \<le> length b" by (simp add: sub_buf_def)
  have "sub_buf (24 * k + 20) 4 b = sub_buf 20 4 (dir_entry_bytes (es ! k))"
    "sub_buf (24 * k + 16) 4 b = sub_buf 16 4 (dir_entry_bytes (es ! k))" unfolding sub [symmetric] by (simp_all add: sub_buf_sub_buf)
  then show "entry_type b k = Inr (f_type (es ! k))" "entry_ino b k = Inr (de_i_no (es ! k))"
    using len l by (simp_all add: entry_type_def entry_ino_def get_bytes_def dir_entry_bytes_def sub_buf_def)
qed

lemma delete_scan_free:
  "(\<And>j. j < n \<Longrightarrow> entry_type b (k + j) = Inr FT_UNKNOWN) \<Longrightarrow> delete_scan b no n k r = Inr r"
proof (induction n arbitrary: k)
  case (Suc n)
  obtain x y z where "r = (x, y, z)" by (cases r)
  moreover have "entry_type b k = Inr FT_UNKNOWN" using Suc.prems [of 0] by simp
  moreover have "delete_scan b no n (Suc k) r = Inr r" using Suc.prems [of "Suc j" for j] by (intro Suc.IH) simp
  ultimately show ?case by simp
qed simp

theorem delete_lone_indirect_entry_diverges_witness:
  "delete_blocks 1 9 21 20 ((replicate 140 0)[20 := 620]) (replicate 1024 0)
     (dir_sample (sample_entry ''b'' 9 # replicate 20 blank_entry)) = Inl Diverges"
proof -
  let ?es = "sample_entry ''b'' 9 # replicate 20 blank_entry"
  let ?s = "dir_sample (sample_entry ''b'' 9 # replicate 20 blank_entry)"
  have es: "length ?es = 21" "\<forall>e \<in> set ?es. length (filename e) = 16"
    by (simp_all add: sample_entry_def blank_entry_def str_def)
  note ok = dir_sample_ok [OF es]
  define b where "b = my_disk ?s 620 @ drop 512 (replicate 1024 0)"
  have b: "b = concat (map dir_entry_bytes ?es) @ (replicate 8 0 @ replicate 512 0)"
    by (simp add: b_def dir_sample_def entry_sector_def)
  note fields = entry_fields [OF _ es(2) b]
  have e0: "entry_type b 0 = Inr 1" "entry_ino b 0 = Inr 9"
    using fields [of 0] by (simp_all add: sample_entry_def)
  have "entry_type b (Suc 0 + j) = Inr FT_UNKNOWN" if "j < 20" for j
    using fields(1) [of "Suc j"] that by (simp add: blank_entry_def FT_UNKNOWN_def)
  then have rest: "delete_scan b 9 20 (Suc 0) r = Inr r" for r by (rule delete_scan_free)
  have two: "strncmp_loop (98 # x) [46, 46, 0] (Suc 1) = Inr 1" for x :: "u8 list" by simp
  have cmp: "strncmp (Some b) (Some (str ''.'' @ [0])) 1 = Inr 1" "strncmp (Some b) (Some (str ''..'' @ [0])) 2 = Inr 1"
    unfolding b by (simp_all add: dir_entry_bytes_def sample_entry_def str_def of_char_def strncmp_def two [unfolded Suc_1])
  have "delete_scan b 9 (Suc 20) 0 (False, 0, None) = Inr (False, 1, Some 0)"
    using e0 rest cmp unfolding delete_scan.simps by (simp add: FT_UNKNOWN_def)
  then have scan: "delete_scan (my_disk ?s 620 @ drop 512 (replicate 1024 0)) 9 21 0 (False, 0, None) = Inr (False, 1, Some 0)"
    by (simp add: b_def)
  show ?thesis
    by (rule delete_lone_indirect_entry_diverges [OF ok(1,2) _ _ _ _ _ _ _ scan])
      (simp_all add: dir_sample_def small_fs_def small_part_def small_sb_def data_sector_def block_no_def nbits_def)
qed

end
