(* ===== verification/File_Append.thy ===== *)
theory File_Append
  imports File_Write
begin

text \<open>
  The theorems about \<^verbatim>\<open>file_write\<close>: it appends to the contents of the file, changes no other file, and what was
  written is read back.
\<close>

text \<open>The call up to the loop over the sectors.\<close>

lemma file_write_steps:
  assumes inv: "alloc_inv s" "heap_ok s" "mem_for 2 s"
    and fl: "fl < length (file_table s)" "fd_inode (file_table s ! fl) = a" "inodes s a = Some i"
    and ok: "file_ok (cur_part s) (my_disk s) i" and size: "unat (i_size i) + unat cnt < 71680"
    and free: "blocks_needed i cnt \<le> free_cnt (cur_part s)" and w: "w = (unat (i_size i) + unat cnt) div 512"
  obtains m c t s2 blocks i2 where
    "t = s\<lparr>mallocs := Suc (Suc (mallocs s)), live := c # m # live s\<rparr>" "prepared a i w t blocks i2 s2"
    "m \<noteq> 0" "c \<noteq> 0" "m \<noteq> c" "m \<notin> set (live s)" "c \<notin> set (live s)"
    "(inodes s)(m := None) = inodes s" "(dirs s)(m := None) = dirs s" "(inodes s)(c := None) = inodes s" "(dirs s)(c := None) = dirs s"
    "file_write fl buf cnt s =
       bindS (write_loop fl a blocks buf cnt 0 True (replicate 512 0)) (\<lambda>io_buf.
       bindS (get_inode a) (\<lambda>i. bindS (inode_sync i io_buf) (\<lambda>_.
       thenS (fs_free c) (thenS (fs_free m) (retS cnt)))))
       (s2\<lparr>file_table := (file_table s)[fl := (file_table s ! fl)\<lparr>fd_pos := i_size i - 1\<rparr>]\<rparr>)"
proof -
  obtain m c where m: "fs_malloc BLOCK_SIZE s = Inr (m, s\<lparr>mallocs := Suc (mallocs s), live := m # live s\<rparr>)"
    "fs_malloc (BLOCK_SIZE + 48) (s\<lparr>mallocs := Suc (mallocs s), live := m # live s\<rparr>) =
       Inr (c, s\<lparr>mallocs := Suc (Suc (mallocs s)), live := c # m # live s\<rparr>)"
    "m \<noteq> 0" "c \<noteq> 0" "m \<noteq> c" "m \<notin> set (live s)" "c \<notin> set (live s)"
    "(inodes s)(m := None) = inodes s" "(dirs s)(m := None) = dirs s" "(inodes s)(c := None) = inodes s" "(dirs s)(c := None) = dirs s"
    by (rule two_mallocs [OF inv(2,3)])
  define t where "t = s\<lparr>mallocs := Suc (Suc (mallocs s)), live := c # m # live s\<rparr>"
  have t: "alloc_inv t" "inodes t a = Some i" "file_ok (cur_part t) (my_disk t) i" "blocks_needed i cnt \<le> free_cnt (cur_part t)"
    "file_table t = file_table s"
    using inv(1) fl(3) ok free by (simp_all add: t_def alloc_inv_def)
  obtain s1 s2 blocks i2 where p: "first_block a t = Inr (True, s1)"
    "write_blocks a (Suc (top_block i)) (Suc w) s1 = Inr (Some blocks, s2)" "prepared a i w t blocks i2 s2"
    by (rule append_prepare [OF t(1-3) size t(4) w])
  have ft2: "file_table s2 = file_table s" using p(3) t(5) by (auto simp: prepared_def)
  have ufit: "unat (i_size i + cnt) = unat (i_size i) + unat cnt" using size by (simp add: unat_add_no_wrap32)
  have fit: "\<not> i_size i + cnt > BLOCK_SIZE * 140"
    using size by (simp add: word_less_nat_alt ufit BLOCK_SIZE_def SECTOR_SIZE_def)
  have un: "unat (i_size i div BLOCK_SIZE + 1) = Suc (top_block i)" "unat ((i_size i + cnt) div BLOCK_SIZE + 1) = Suc w"
    "(i_size i + cnt) div BLOCK_SIZE + 1 \<le> 140"
  proof -
    have suc: "unat (x div BLOCK_SIZE + 1) = Suc (unat x div 512)" if "unat x < 71680" for x
      using that by (subst unat_add_no_wrap32) (simp_all add: unat_mod_512 div_le_mono)
    show "unat (i_size i div BLOCK_SIZE + 1) = Suc (top_block i)" "unat ((i_size i + cnt) div BLOCK_SIZE + 1) = Suc w"
      using suc size ufit by (simp_all add: top_block_def w)
    moreover have "w < 140" using size by (simp add: w less_mult_imp_div_less)
    ultimately show "(i_size i + cnt) div BLOCK_SIZE + 1 \<le> 140" by (simp add: word_le_nat_alt)
  qed
  have "file_write fl buf cnt s =
       bindS (write_loop fl a blocks buf cnt 0 True (replicate 512 0)) (\<lambda>io_buf.
       bindS (get_inode a) (\<lambda>i. bindS (inode_sync i io_buf) (\<lambda>_.
       thenS (fs_free c) (thenS (fs_free m) (retS cnt)))))
       (s2\<lparr>file_table := (file_table s)[fl := (file_table s ! fl)\<lparr>fd_pos := i_size i - 1\<rparr>]\<rparr>)"
    using m(1-4) fl fit un p(1,2) t(5) ft2
    by (simp add: file_write_def run_simps Let_def flip: t_def)
  with m(3-) p(3) t_def show thesis by (rule_tac that)
qed

lemma file_write_overrun:
  assumes inv: "alloc_inv s" "heap_ok s" "mem_for 2 s"
    and fl: "fl < length (file_table s)" "fd_inode (file_table s ! fl) = a" "inodes s a = Some i"
    and ok: "file_ok (cur_part s) (my_disk s) i" and size: "unat (i_size i) + unat cnt < 71680" "unat cnt \<le> length buf"
    and slot: "436 < 76 * sync_slot i mod 512" and free: "blocks_needed i cnt \<le> free_cnt (cur_part s)"
  shows "file_write fl buf cnt s = Inl OutOfBounds"
proof -
  define f where "f = (file_table s ! fl)\<lparr>fd_pos := i_size i - 1\<rparr>"
  obtain m c t s2 blocks i2 where q: "t = s\<lparr>mallocs := Suc (Suc (mallocs s)), live := c # m # live s\<rparr>"
    "prepared a i ((unat (i_size i) + unat cnt) div 512) t blocks i2 s2"
    "file_write fl buf cnt s =
       bindS (write_loop fl a blocks buf cnt 0 True (replicate 512 0)) (\<lambda>io_buf.
       bindS (get_inode a) (\<lambda>i. bindS (inode_sync i io_buf) (\<lambda>_.
       thenS (fs_free c) (thenS (fs_free m) (retS cnt)))))
       (s2\<lparr>file_table := (file_table s)[fl := f]\<rparr>)"
    unfolding f_def by (rule file_write_steps [OF inv fl ok size(1) free refl])
  have t: "fl < length (file_table t)" "file_table t = file_table s" using fl(1) by (simp_all add: q(1))
  obtain b s3 i3 where
    "write_loop fl a blocks buf cnt 0 True (replicate 512 0) (s2\<lparr>file_table := (file_table t)[fl := f]\<rparr>) = Inr (b, s3)"
    "inodes s3 a = Some i3" "inode_sync i3 b s3 = Inl OutOfBounds"
    by (rule append_overrun [OF q(2) t(1) size slot refl])
  then show ?thesis unfolding q(3) t(2) by (simp add: run_simps)
qed

lemma file_write_ok:
  assumes inv: "alloc_inv s" "heap_ok s" "mem_for 2 s"
    and fl: "fl < length (file_table s)" "fd_inode (file_table s ! fl) = a" "inodes s a = Some i"
    and ok: "file_ok (cur_part s) (my_disk s) i" and size: "unat (i_size i) + unat cnt < 71680" "unat cnt \<le> length buf"
    and slot: "76 * sync_slot i mod 512 \<le> 436" and free: "blocks_needed i cnt \<le> free_cnt (cur_part s)"
  obtains i' d bm l s' where "file_write fl buf cnt s = Inr (cnt, s')"
    "s' = s\<lparr>my_disk := d, cur_part := (cur_part s)\<lparr>block_bitmap := bm\<rparr>, inodes := (inodes s)(a \<mapsto> i'),
       file_table := (file_table s)[fl := (file_table s ! fl)\<lparr>fd_pos := i_size i - 1 + cnt\<rparr>], klog := l,
       mallocs := Suc (Suc (mallocs s))\<rparr>"
    "i_size i' = i_size i + cnt" "appended a i (take (unat cnt) buf) s i' s'"
proof -
  define f where "f = (file_table s ! fl)\<lparr>fd_pos := i_size i - 1\<rparr>"
  obtain m c t s2 blocks i2 where m: "t = s\<lparr>mallocs := Suc (Suc (mallocs s)), live := c # m # live s\<rparr>"
    "prepared a i ((unat (i_size i) + unat cnt) div 512) t blocks i2 s2"
    "m \<noteq> 0" "c \<noteq> 0" "m \<noteq> c" "m \<notin> set (live s)" "c \<notin> set (live s)"
    "(inodes s)(m := None) = inodes s" "(dirs s)(m := None) = dirs s" "(inodes s)(c := None) = inodes s" "(dirs s)(c := None) = dirs s"
    "file_write fl buf cnt s =
       bindS (write_loop fl a blocks buf cnt 0 True (replicate 512 0)) (\<lambda>io_buf.
       bindS (get_inode a) (\<lambda>i. bindS (inode_sync i io_buf) (\<lambda>_.
       thenS (fs_free c) (thenS (fs_free m) (retS cnt)))))
       (s2\<lparr>file_table := (file_table s)[fl := f]\<rparr>)"
    unfolding f_def by (rule file_write_steps [OF inv fl ok size(1) free refl])
  have t: "part_ok (cur_part t)" "fl < length (file_table t)" "file_table t = file_table s"
    using inv(1) fl(1) by (simp_all add: m(1) alloc_inv_def)
  obtain b s3 i3 b' d bm l where q:
    "write_loop fl a blocks buf cnt 0 True (replicate 512 0) (s2\<lparr>file_table := (file_table t)[fl := f]\<rparr>) = Inr (b, s3)"
    "inodes s3 a = Some i3" "inode_sync i3 b s3 = Inr (b', s3\<lparr>my_disk := d\<rparr>)"
    "s3\<lparr>my_disk := d\<rparr> = t\<lparr>my_disk := d, cur_part := (cur_part t)\<lparr>block_bitmap := bm\<rparr>, inodes := (inodes t)(a \<mapsto> i3),
       file_table := (file_table t)[fl := f\<lparr>fd_pos := fd_pos f + cnt\<rparr>], klog := l\<rparr>"
    "i_size i3 = i_size i + cnt" "appended a i (take (unat cnt) buf) t i3 (s3\<lparr>my_disk := d\<rparr>)"
    by (rule append_finish [OF m(2) t(1,2) size slot refl])
  have ma: "m \<noteq> a" "c \<noteq> a" using m(6,7) fl(3) inv(2) by (auto simp: heap_ok_def)
  let ?u = "\<lambda>lv. s\<lparr>my_disk := d, cur_part := (cur_part s)\<lparr>block_bitmap := bm\<rparr>, inodes := (inodes s)(a \<mapsto> i3),
       file_table := (file_table s)[fl := (file_table s ! fl)\<lparr>fd_pos := i_size i - 1 + cnt\<rparr>], klog := l,
       mallocs := Suc (Suc (mallocs s)), live := lv\<rparr>"
  have s3: "s3\<lparr>my_disk := d\<rparr> = ?u (c # m # live s)" unfolding q(4) by (simp add: m(1) f_def)
  have "(inodes s)(a \<mapsto> i3, m := None) = (inodes s)(a \<mapsto> i3)" "(inodes s)(a \<mapsto> i3, c := None) = (inodes s)(a \<mapsto> i3)"
    using ma m(8,10) by (simp_all add: fun_upd_twist)
  then have fr: "fs_free c (?u (c # m # live s)) = Inr ((), ?u (m # live s))" "fs_free m (?u (m # live s)) = Inr ((), ?u (live s))"
    using m(3-7,9,11) by (simp_all add: fs_free_def)
  have "file_write fl buf cnt s = Inr (cnt, ?u (live s))"
    unfolding m(12) using q(1-3) t(3) fr s3 by (simp add: run_simps)
  moreover have "appended a i (take (unat cnt) buf) s i3 (?u (live s))"
    using q(6) unfolding s3 by (simp add: appended_def m(1) alloc_inv_def)
  ultimately show thesis using q(5) by (intro that [of "?u (live s)" l i3 bm d]) simp_all
qed

text \<open>
  C1: writing to an open file appends. The file has an inode with a number below 256 (above, \<^verbatim>\<open>inode_sync\<close> writes over another inode, see
  \<open>inode_sync_truncates_number\<close>), its new size is below 71680, the bitmap has the blocks it needs and the allocator two buffers. When the
  inode lies in one sector of the table, \<^verbatim>\<open>file_write\<close> returns the count, the contents of the file are the old contents followed by
  the bytes of the buffer, the file has the blocks its new size needs, all different and marked in the bitmap, and its inode is in
  the table on the disk with the new size and blocks. No other inode, in memory or on the disk, and no block in use by
  anything else changes, and the memory the call took is free again. The file may go from no block to its first, stay in its
  last block, or grow into direct blocks, into indirect blocks, or both. When the inode lies across two sectors, which one in
  seven does, the call writes past the end of its buffer of one sector.
\<close>

theorem file_write_appends:
  assumes "alloc_inv s" "heap_ok s" "mem_for 2 s"
    and "fl < length (file_table s)" "fd_inode (file_table s ! fl) = a" "inodes s a = Some i"
    and "file_ok (cur_part s) (my_disk s) i" "unat (i_size i) + unat cnt < 71680" "unat cnt \<le> length buf"
    and "blocks_needed i cnt \<le> free_cnt (cur_part s)" "unat (i_no i) < 256"
  shows "if 76 * unat (i_no i) mod 512 \<le> 436 then
           \<exists>i' s'. file_write fl buf cnt s = Inr (cnt, s') \<and>
             inodes s' = (inodes s)(a \<mapsto> i') \<and> i_size i' = i_size i + cnt \<and> i_no i' = i_no i \<and>
             file_bytes (my_disk s') i' = file_bytes (my_disk s) i @ take (unat cnt) buf \<and>
             file_ok (cur_part s') (my_disk s') i' \<and> disk_inode (i_no i) s' = pure_inode i' \<and>
             (\<forall>no. unat no < 4096 \<and> no \<noteq> i_no i \<longrightarrow> disk_inode no s' = disk_inode no s) \<and>
             (\<forall>x. data_sector (cur_part s) x \<and> block_used (cur_part s) x \<and> x \<notin> set (own_blocks (my_disk s) i) \<longrightarrow>
                my_disk s' x = my_disk s x \<and> block_used (cur_part s') x) \<and>
             alloc_inv s' \<and> live s' = live s \<and> dirs s' = dirs s
         else file_write fl buf cnt s = Inl OutOfBounds"
proof (cases "76 * unat (i_no i) mod 512 \<le> 436")
  case True
  have slot: "sync_slot i = unat (i_no i)" using assms(11) by (simp add: sync_slot_def)
  have le: "76 * sync_slot i mod 512 \<le> 436" using True slot by simp
  obtain i' d bm l s' where w: "file_write fl buf cnt s = Inr (cnt, s')"
    "s' = s\<lparr>my_disk := d, cur_part := (cur_part s)\<lparr>block_bitmap := bm\<rparr>, inodes := (inodes s)(a \<mapsto> i'),
       file_table := (file_table s)[fl := (file_table s ! fl)\<lparr>fd_pos := i_size i - 1 + cnt\<rparr>], klog := l,
       mallocs := Suc (Suc (mallocs s))\<rparr>"
    "i_size i' = i_size i + cnt" "appended a i (take (unat cnt) buf) s i' s'"
    by (rule file_write_ok [OF assms(1-9) le assms(10)])
  have sel: "inodes s' = (inodes s)(a \<mapsto> i')" "live s' = live s" "dirs s' = dirs s" by (simp_all add: w(2))
  have ap: "file_ok (cur_part s') (my_disk s') i'" "disk_ok (my_disk s)"
    "inode_table (cur_part s') (my_disk s') =
       patch (76 * unat (i_no i)) (inode_bytes (pure_inode i')) (inode_table (cur_part s) (my_disk s))"
    using w(4) assms(1) slot by (simp_all add: appended_def alloc_inv_def)
  have len: "length (i_sectors (pure_inode i')) = 13"
    using ap(1) by (simp add: file_ok_def pure_inode_def)
  have dn: "disk_inode no s' = (if unat no = unat (i_no i) then pure_inode i' else disk_inode no s)" if "unat no < 4096" for no
  proof -
    have "disk_inode no s' = disk_inode no (s\<lparr>my_disk := d\<rparr>)" by (simp add: w(2) disk_inode_def inode_table_def)
    moreover have "inode_table (cur_part s) d =
        patch (76 * unat (i_no i)) (inode_bytes (pure_inode i')) (inode_table (cur_part s) (my_disk s))"
      using ap(3) by (simp add: w(2) inode_table_def)
    ultimately show ?thesis using disk_inode_patch [OF ap(2) len _ that, of "unat (i_no i)" d] assms(11)
      by (auto simp: pure_inode_def)
  qed
  have "disk_inode (i_no i) s' = pure_inode i'" using dn [of "i_no i"] assms(11) by simp
  moreover have "\<forall>no. unat no < 4096 \<and> no \<noteq> i_no i \<longrightarrow> disk_inode no s' = disk_inode no s"
    using dn by (auto dest: unsigned_word_eqI)
  ultimately show ?thesis using w(1,3,4) sel True unfolding appended_def by auto
next
  case False
  then have "436 < 76 * sync_slot i mod 512" using assms(11) by (simp add: sync_slot_def)
  from file_write_overrun [OF assms(1-9) this assms(10)] False show ?thesis by simp
qed

lemma file_fs_alloc: "1 \<le> free_cnt (cur_part file_fs)" "alloc_inv file_fs"
proof -
  have "100 \<in> {..<nbits (block_bitmap (cur_part file_fs))} - bit_used (block_bitmap (cur_part file_fs))"
    by (simp add: file_fs_def nbits_def bit_used_def bit_at_def)
  then have "{..<nbits (block_bitmap (cur_part file_fs))} - bit_used (block_bitmap (cur_part file_fs)) \<noteq> {}" by blast
  then show "1 \<le> free_cnt (cur_part file_fs)" unfolding free_cnt_def by (simp add: Suc_le_eq card_gt_0_iff)
  have "0 \<in> bit_used (block_bitmap (cur_part file_fs))" by (simp add: file_fs_def bit_used_def bit_at_def nbits_def)
  then show "alloc_inv file_fs" using file_fs_ok(1,2) by (simp add: alloc_inv_def)
qed

theorem file_write_appends_witness:
  "\<exists>i' s'. file_write 0 (replicate 400 5) 400 file_fs = Inr (400, s') \<and> inodes s' 1 = Some i' \<and> i_size i' = 1100 \<and>
     drop 700 (file_bytes (my_disk s') i') = replicate 400 5"
proof -
  let ?i = "(sample_inode 5)\<lparr>write_deny := False, i_open_cnts := 1\<rparr>"
  have fl: "0 < length (file_table file_fs)" "fd_inode (file_table file_fs ! 0) = 1" "inodes file_fs 1 = Some ?i"
    by (simp_all add: file_fs_def)
  have f: "blocks_needed ?i 400 \<le> free_cnt (cur_part file_fs)" "unat (i_no ?i) < 256" "76 * unat (i_no ?i) mod 512 \<le> 436"
    "unat (i_size ?i) + unat (400 :: u32) < 71680" "unat (400 :: u32) \<le> length (replicate 400 (5 :: u8))" "i_size ?i = 700"
    using file_fs_alloc(1) by (simp_all add: blocks_needed_def Let_def top_block_def sample_inode_def)
  from file_write_appends [OF file_fs_alloc(2) file_fs_ok(3,4) fl file_fs_ok(5) f(4,5,1,2)] f(3) obtain i' s' where
    "file_write 0 (replicate 400 5) 400 file_fs = Inr (400, s')" "inodes s' = (inodes file_fs)(1 \<mapsto> i')" "i_size i' = 700 + 400"
    "file_bytes (my_disk s') i' = file_bytes (my_disk file_fs) ?i @ take (unat (400 :: u32)) (replicate 400 5)"
    unfolding f(6) by auto
  moreover have "length (file_bytes (my_disk file_fs) ?i) = 700" using f(6) by simp
  ultimately show ?thesis by (intro exI [of _ i'] exI [of _ s']) simp
qed

end
