(* ===== verification/Fs_Calls.thy ===== *)
theory Fs_Calls
  imports Fs File_Append
begin

text \<open>
  The system calls on an open file, put together: positions stay inside the file, and what is written is read back.
\<close>

section \<open>Descriptors\<close>

text \<open>\<open>open_as fd fl s\<close>: the descriptor \<open>fd\<close> of the process stands for the entry \<open>fl\<close> of the global table.\<close>

definition open_as :: "u32 \<Rightarrow> nat \<Rightarrow> fstate \<Rightarrow> bool" where
  "open_as fd fl s \<longleftrightarrow> unat fd < length (fd_table s) \<and> length (fd_table s) = MAX_FILES_OPEN_PER_PROC \<and>
     fd_table s ! unat fd = of_nat fl \<and> fl < MAX_FILE_OPEN \<and> fl < length (file_table s)"

lemma uint_small: "unat (x :: u32) < 2 ^ 31 \<longleftrightarrow> uint x < 2 ^ 31"
  using of_nat_less_iff [where 'a = int, of "unat x" "2 ^ 31"] by simp

lemma sint_word_of_int_cases:
  assumes "- (2 ^ 31) \<le> k" "k < 2 ^ 32"
  shows "sint (word_of_int k :: u32) = (if k < 2 ^ 31 then k else k - 2 ^ 32)"
proof -
  have s: "sint (word_of_int j :: u32) = j" if "- (2 ^ 31) \<le> j" "j < 2 ^ 31" for j
    using that by (simp add: sint_sbintrunc' signed_take_bit_int_eq_self)
  have eq: "(word_of_int k :: u32) = word_of_int (k - 2 ^ 32)"
    by (simp add: word_of_int_eq_iff take_bit_eq_mod mod_diff_right_eq)
  show ?thesis
  proof (cases "k < 2 ^ 31")
    case False
    then have "sint (word_of_int (k - 2 ^ 32) :: u32) = k - 2 ^ 32" using assms(2) by (intro s) simp_all
    then show ?thesis using False unfolding eq [symmetric] by simp
  qed (use s assms(1) in simp)
qed

lemma sint_small: "unat (x :: u32) < 2 ^ 31 \<Longrightarrow> sint x = uint x"
proof -
  assume "unat x < 2 ^ 31"
  then have "uint x < 2 ^ 31" using uint_small by blast
  then show ?thesis using sint_word_of_int_cases [of "uint x"] uint_ge_0 [of x] by simp
qed

lemma fd_global_run:
  assumes "open_as fd fl s"
  shows "fd_local_to_global fd s = Inr (of_nat fl, s)" "unat (of_nat fl :: u32) = fl"
proof -
  have fl: "fl < 32" using assms by (simp add: open_as_def MAX_FILE_OPEN_def)
  then show u: "unat (of_nat fl :: u32) = fl" by (intro unat_of_nat32) simp
  then have "uint (of_nat fl :: u32) = int fl" by (metis uint_nat)
  then have "sint (of_nat fl :: u32) = int fl" using fl u sint_small [of "of_nat fl"] by simp
  then have "0 \<le>s (of_nat fl :: u32)" "(of_nat fl :: u32) <s 32"
    using fl by (simp_all add: word_sle_eq word_sless_alt)
  then show "fd_local_to_global fd s = Inr (of_nat fl, s)"
    using assms by (simp add: fd_local_to_global_def run_simps open_as_def MAX_FILE_OPEN_def)
qed

section \<open>Positions\<close>

text \<open>The position a call of \<^verbatim>\<open>sys_lseek\<close> asks for, as an integer.\<close>

definition seek_target :: "file_struct \<Rightarrow> inode \<Rightarrow> u32 \<Rightarrow> u8 \<Rightarrow> int" where
  "seek_target f i offset whence =
     (if whence = 1 then 0 else if whence = 2 then int (unat (fd_pos f)) else int (unat (i_size i))) + sint offset"

text \<open>
  C28: \<^verbatim>\<open>sys_lseek\<close> moves the position of an open file to the one asked for, counted from the start, the position or the end of the file,
  when it lies inside the file, and answers -1 and changes nothing when it does not; no sum that exceeds 32 bits is
  taken for a position inside.
\<close>

theorem sys_lseek_stays_inside:
  assumes "open_as fd fl s" "0 \<le>s fd" "whence \<in> {1, 2, 3}" "f = file_table s ! fl" "inodes s (fd_inode f) = Some i"
    and "unat (i_size i) < 2 ^ 31" "unat (fd_pos f) < 2 ^ 31" "n = seek_target f i offset whence"
  shows "sys_lseek fd offset whence s =
           (if 0 \<le> n \<and> n < int (unat (i_size i))
            then Inr (word_of_int n, s\<lparr>file_table := (file_table s)[fl := f\<lparr>fd_pos := word_of_int n\<rparr>]\<rparr>)
            else Inr (-1, s))"
proof -
  define np where "np = (if whence = 1 then offset else if whence = 2 then fd_pos f + offset else i_size i + offset)"
  have woi: "word_of_int (int (unat x)) = x" "word_of_int (sint x) = x" for x :: u32 by simp_all
  have np: "np = word_of_int n"
    using assms(3) by (auto simp: np_def assms(8) seek_target_def simp flip: wi_hom_syms)
  have "- (2 ^ 31) \<le> sint offset" "sint offset < 2 ^ 31" using sint_ge [of offset] sint_lt [of offset] by simp_all
  then have nr: "- (2 ^ 31) \<le> n" "n < 2 ^ 32"
    using assms(6,7) uint_ge_0 [of "fd_pos f"] uint_ge_0 [of "i_size i"] unfolding uint_small assms(8) seek_target_def
    by (auto intro: add_increasing)
  note sn = sint_word_of_int_cases [OF nr]
  have "i_size i - 1 = word_of_int (uint (i_size i) - 1)" by (simp flip: wi_hom_syms)
  then have "sint (i_size i - 1) = int (unat (i_size i)) - 1"
    using sint_word_of_int_cases [of "uint (i_size i) - 1"] uint_ge_0 [of "i_size i"] assms(6) unfolding uint_small by simp
  then have "np <s 0 \<or> i_size i - 1 <s np \<longleftrightarrow> \<not> (0 \<le> n \<and> n < int (unat (i_size i)))"
    using sn nr assms(6) unfolding uint_small by (auto simp: word_sless_alt np)
  moreover have "\<not> fd <s 0" using assms(2) by (simp add: word_sle_eq word_sless_alt)
  moreover have "0 < whence \<and> whence < 4" using assms(3) by auto
  ultimately show ?thesis
    using assms(1,5) fd_global_run [OF assms(1)] np
    by (simp add: sys_lseek_def run_simps Let_def open_as_def flip: assms(4) np_def)
qed


text \<open>A file of two blocks that the descriptor 3 opens, for reading and writing.\<close>

definition call_fs :: fstate where
  "call_fs = file_fs\<lparr>fd_table := [0, 1, 2, 0, -1, -1, -1, -1],
     file_table := (replicate 32 \<lparr>fd_pos = 0, fd_flag = 0, fd_inode = 0\<rparr>)[0 := \<lparr>fd_pos = 100, fd_flag = 2, fd_inode = 1\<rparr>]\<rparr>"

lemma call_fs_open:
  "open_as 3 0 call_fs" "file_table call_fs ! 0 = \<lparr>fd_pos = 100, fd_flag = 2, fd_inode = 1\<rparr>"
  "inodes call_fs 1 = Some ((sample_inode 5)\<lparr>write_deny := False, i_open_cnts := 1\<rparr>)"
  by (simp_all add: open_as_def call_fs_def file_fs_def MAX_FILES_OPEN_PER_PROC_def MAX_FILE_OPEN_def)

theorem sys_lseek_stays_inside_witness:
  "sys_lseek 3 (-50) 3 call_fs =
     Inr (650, call_fs\<lparr>file_table := (file_table call_fs)[0 := \<lparr>fd_pos = 650, fd_flag = 2, fd_inode = 1\<rparr>]\<rparr>) \<and>
   sys_lseek 3 0 3 call_fs = Inr (-1, call_fs) \<and> sys_lseek 3 0x7FFFFFFF 2 call_fs = Inr (-1, call_fs)"
  using sys_lseek_stays_inside [OF call_fs_open(1) _ _ refl, of 3 "(sample_inode 5)\<lparr>write_deny := False, i_open_cnts := 1\<rparr>" _ "-50"]
    sys_lseek_stays_inside [OF call_fs_open(1) _ _ refl, of 3 "(sample_inode 5)\<lparr>write_deny := False, i_open_cnts := 1\<rparr>" _ "0"]
    sys_lseek_stays_inside [OF call_fs_open(1) _ _ refl, of 2 "(sample_inode 5)\<lparr>write_deny := False, i_open_cnts := 1\<rparr>" _ "0x7FFFFFFF"]
  by (simp add: call_fs_open(2,3) seek_target_def sample_inode_def word_sle_eq)


section \<open>Writing and reading\<close>

lemma lseek_run:
  assumes "open_as fd fl s" "0 \<le>s fd" "inodes s (fd_inode (file_table s ! fl)) = Some i"
    and "unat pos < unat (i_size i)" "unat (i_size i) < 2 ^ 31"
  shows "sys_lseek fd pos 1 s = Inr (pos, upd_pos fl pos s)"
proof -
  have "sint pos = uint pos" using assms(4,5) by (intro sint_small) simp
  moreover have "i_size i - 1 = word_of_int (uint (i_size i) - 1)" by (simp flip: wi_hom_syms)
  moreover have "uint (i_size i) < 2 ^ 31" using assms(5) uint_small by blast
  moreover have "uint pos < uint (i_size i)" using assms(4) by (simp add: word_less_def [symmetric] word_less_nat_alt)
  ultimately have "\<not> pos <s 0" "\<not> i_size i - 1 <s pos"
    using sint_word_of_int_cases [of "uint (i_size i) - 1"] uint_ge_0 [of pos] by (simp_all add: word_sless_alt)
  moreover have "\<not> fd <s 0" using assms(2) by (simp add: word_sle_eq word_sless_alt)
  ultimately show ?thesis
    using assms(1,3) fd_global_run [OF assms(1)]
    by (simp add: sys_lseek_def run_simps Let_def open_as_def upd_pos_def)
qed

lemma write_read_run:
  assumes "alloc_inv s" "heap_ok s" "mem_for 2 s" "open_as fd fl s" "2 <s fd" "f = file_table s ! fl"
    and "fd_flag f AND 2 \<noteq> 0" "inodes s (fd_inode f) = Some i" "file_ok (cur_part s) (my_disk s) i"
    and "0 < cnt" "unat (i_size i) + unat cnt < 71168" "unat cnt \<le> length buf"
    and "76 * sync_slot i mod 512 \<le> 436" "blocks_needed i cnt \<le> free_cnt (cur_part s)"
  shows "\<exists>s'. bindS (sys_write fd buf cnt) (\<lambda>_. bindS (sys_lseek fd (i_size i) 1) (\<lambda>_. sys_read kbd fd cnt)) s =
           Inr ((cnt, take (unat cnt) buf), s')"
proof -
  have fl: "fl < length (file_table s)" "fd_inode (file_table s ! fl) = fd_inode f" "unat (i_size i) + unat cnt < 71680"
    using assms(4,6,11) by (simp_all add: open_as_def)
  obtain i' d bm l s1 where w: "file_write fl buf cnt s = Inr (cnt, s1)"
    "s1 = s\<lparr>my_disk := d, cur_part := (cur_part s)\<lparr>block_bitmap := bm\<rparr>, inodes := (inodes s)(fd_inode f \<mapsto> i'),
       file_table := (file_table s)[fl := (file_table s ! fl)\<lparr>fd_pos := i_size i - 1 + cnt\<rparr>], klog := l,
       mallocs := Suc (Suc (mallocs s))\<rparr>"
    "i_size i' = i_size i + cnt" "appended (fd_inode f) i (take (unat cnt) buf) s i' s1"
    by (rule file_write_ok [OF assms(1-3) fl(1,2) assms(8,9) fl(3) assms(12-14)])
  let ?s2 = "upd_pos fl (i_size i) s1"
  have sz: "unat (i_size i') = unat (i_size i) + unat cnt" using w(3) fl(3) by (simp add: unat_add_no_wrap32)
  have c0: "0 < unat cnt" using assms(10) by (simp add: word_less_nat_alt)
  have in1: "inodes s1 (fd_inode (file_table s1 ! fl)) = Some i'" "open_as fd fl s1" "fl < length (file_table s1)"
    using w(2) fl assms(4) by (simp_all add: open_as_def)
  have fd0: "0 \<le>s fd" "\<not> fd <s 0" "fd \<noteq> 0" "fd \<noteq> 1" "fd \<noteq> 2"
    using assms(5) by (auto simp: word_sle_eq word_sless_alt)
  have seek: "sys_lseek fd (i_size i) 1 s1 = Inr (i_size i, ?s2)"
    using lseek_run [OF in1(2) fd0(1) in1(1)] sz c0 fl(3) by simp
  have ok2: "part_ok (cur_part ?s2)" "disk_ok (my_disk ?s2)" "heap_ok ?s2" "mem_for 2 ?s2" "fl < length (file_table ?s2)"
    "inodes ?s2 (fd_inode (file_table ?s2 ! fl)) = Some i'" "file_ok (cur_part ?s2) (my_disk ?s2) i'"
    "fd_pos (file_table ?s2 ! fl) = i_size i"
  proof -
    show "part_ok (cur_part ?s2)" "disk_ok (my_disk ?s2)" "file_ok (cur_part ?s2) (my_disk ?s2) i'"
      using w(4) by (simp_all add: appended_def alloc_inv_def)
    show "heap_ok ?s2" using assms(2,8) by (auto simp: w(2) heap_ok_def upd_pos_def allocator_ok_def)
    show "mem_for 2 ?s2" using assms(3) by (simp add: w(2) mem_for_def upd_pos_def)
    show "fl < length (file_table ?s2)" "fd_pos (file_table ?s2 ! fl) = i_size i" using in1(3) by (simp_all add: upd_pos_def)
    show "inodes ?s2 (fd_inode (file_table ?s2 ! fl)) = Some i'" using in1(1,3) by (simp add: upd_pos_def)
  qed
  have n: "min (unat cnt) (unat (i_size i') - unat (i_size i)) = unat cnt" using sz by simp
  have "file_read fl cnt ?s2 = Inr ((cnt, take (unat cnt) buf), upd_pos fl (i_size i + of_nat (unat cnt)) (?s2\<lparr>mallocs := Suc (Suc (mallocs ?s2))\<rparr>))"
    using file_read_ok [OF ok2 _ _ _, of cnt] n sz c0 fl(3) assms(11) w(4) by (simp add: appended_def)
  moreover have "sys_write fd buf cnt s = Inr (cnt, s1)"
    using w(1) fd0 fd_global_run [OF assms(4)] fl(1) assms(6,7) by (simp add: sys_write_def run_simps O_RDWR_def)
  moreover have "open_as fd fl ?s2" using in1(2) by (simp add: open_as_def upd_pos_def)
  ultimately show ?thesis
    using seek fd0 fd_global_run [of fd fl ?s2] by (simp add: run_simps sys_read_def)
qed

text \<open>
  C9: what \<^verbatim>\<open>sys_write\<close> appends to an open file, \<^verbatim>\<open>sys_lseek\<close> to the old end and \<^verbatim>\<open>sys_read\<close> deliver again, byte for byte, whether the
  bytes went into the last block, into new blocks or into indirect ones, provided that the place of the inode in the table lies in one
  sector. When it lies across two, which one in seven does, \<^verbatim>\<open>sys_write\<close> overruns its buffer. The file may be written and read, its new size
  stays below 71168 (bytes from there on cannot be read, see \<open>file_read_last_block_panics\<close>), the bitmap has the blocks it needs
  and the allocator two buffers.
\<close>

theorem sys_write_read_roundtrip:
  assumes "alloc_inv s" "heap_ok s" "mem_for 2 s" "open_as fd fl s" "2 <s fd" "f = file_table s ! fl"
    and "fd_flag f AND 2 \<noteq> 0" "inodes s (fd_inode f) = Some i" "file_ok (cur_part s) (my_disk s) i"
    and "0 < cnt" "unat (i_size i) + unat cnt < 71168" "unat cnt \<le> length buf"
    and "blocks_needed i cnt \<le> free_cnt (cur_part s)"
  shows "if 76 * sync_slot i mod 512 \<le> 436 then
           \<exists>s'. bindS (sys_write fd buf cnt) (\<lambda>_. bindS (sys_lseek fd (i_size i) 1) (\<lambda>_. sys_read kbd fd cnt)) s =
             Inr ((cnt, take (unat cnt) buf), s')
         else sys_write fd buf cnt s = Inl OutOfBounds"
proof (cases "76 * sync_slot i mod 512 \<le> 436")
  case True
  then show ?thesis using write_read_run [OF assms(1-12) True assms(13)] by simp
next
  case False
  have fl: "fl < length (file_table s)" "fd_inode (file_table s ! fl) = fd_inode f" "unat (i_size i) + unat cnt < 71680"
    using assms(4,6,11) by (simp_all add: open_as_def)
  have "file_write fl buf cnt s = Inl OutOfBounds"
    using False by (intro file_write_overrun [OF assms(1-3) fl(1,2) assms(8,9) fl(3) assms(12) _ assms(13)]) simp
  moreover have "\<not> fd <s 0" "fd \<noteq> 0" "fd \<noteq> 1" "fd \<noteq> 2" using assms(5) by (auto simp: word_sless_alt)
  ultimately have "sys_write fd buf cnt s = Inl OutOfBounds"
    using fd_global_run [OF assms(4)] fl(1) assms(6,7) by (simp add: sys_write_def run_simps O_RDWR_def)
  with False show ?thesis by simp
qed


lemma call_fs_ok:
  "alloc_inv call_fs" "heap_ok call_fs" "mem_for 2 call_fs" "cur_part call_fs = cur_part file_fs" "my_disk call_fs = my_disk file_fs"
proof -
  show "alloc_inv call_fs" using file_fs_alloc(2) by (simp add: alloc_inv_def call_fs_def)
  show "heap_ok call_fs" "mem_for 2 call_fs"
    using file_fs_ok(3) file_fs_ok(4) [of 2] by (simp_all add: call_fs_def heap_ok_def allocator_ok_def mem_for_def)
qed (simp_all add: call_fs_def)

theorem sys_write_read_roundtrip_witness:
  "\<exists>s'. bindS (sys_write 3 (replicate 400 5) 400) (\<lambda>_. bindS (sys_lseek 3 700 1) (\<lambda>_. sys_read (\<lambda>_. 0) 3 400)) call_fs =
     Inr ((400, replicate 400 5), s')"
proof -
  let ?i = "(sample_inode 5)\<lparr>write_deny := False, i_open_cnts := 1\<rparr>"
  have fd: "2 <s (3 :: u32)" "fd_flag (file_table call_fs ! 0) AND 2 \<noteq> 0" "inodes call_fs (fd_inode (file_table call_fs ! 0)) = Some ?i"
    by (simp_all add: word_sless_alt call_fs_open(2,3))
  have f: "file_ok (cur_part call_fs) (my_disk call_fs) ?i" "blocks_needed ?i 400 \<le> free_cnt (cur_part call_fs)"
    "76 * sync_slot ?i mod 512 \<le> 436" "unat (i_size ?i) + unat (400 :: u32) < 71168"
    using file_fs_ok(5) file_fs_alloc(1) unfolding call_fs_ok(4,5)
    by (simp_all add: blocks_needed_def Let_def top_block_def sample_inode_def sync_slot_def)
  show ?thesis
    using sys_write_read_roundtrip [OF call_fs_ok(1-3) call_fs_open(1) fd(1) refl fd(2,3) f(1) _ f(4) _ f(2), of "replicate 400 5" "\<lambda>_. 0"] f(3)
    by (simp add: sample_inode_def)
qed

end
