(* ===== verification/Shell_Text.thy ===== *)
theory Shell_Text
  imports Fs_Path
begin

text \<open>
  The text handling of the shell: \<^verbatim>\<open>wash_path\<close> of \<^verbatim>\<open>shell/buildin_cmd.c\<close>, which takes the names \<^verbatim>\<open>.\<close> and
  \<^verbatim>\<open>..\<close> out of an absolute path, and \<^verbatim>\<open>cmd_parse\<close> and the editing of a line in \<^verbatim>\<open>readline\<close>, both of
  \<^verbatim>\<open>shell/shell.c\<close>. A pointer into the command line is its offset.
\<close>

section \<open>Clean paths\<close>

text \<open>One name of the loop of \<^verbatim>\<open>wash_path\<close>; \<open>new_abs_path\<close> is the array the result is built in.\<close>

definition wash_up :: "u8 list \<Rightarrow> u8 list res" where
  "wash_up new_abs_path =
     bindE (strrchr (Some new_abs_path) SLASH) (\<lambda>slash_ptr.
     bindE (deref slash_ptr) (\<lambda>k.
     if k \<noteq> 0 then write_at new_abs_path k 0 else write_at new_abs_path (k + 1) 0))"

definition wash_name :: "u8 list \<Rightarrow> u8 list \<Rightarrow> u8 list res" where
  "wash_name name new_abs_path =
     bindE (strncmp (Some (str ''..'' @ [0])) (Some name) 2) (\<lambda>up.
     if up = 0 then wash_up new_abs_path
     else
       bindE (strncmp (Some (str ''.'' @ [0])) (Some name) 1) (\<lambda>here.
       if here \<noteq> 0 then
         bindE (strncmp (Some new_abs_path) (Some (str ''/'' @ [0])) 1) (\<lambda>top.
         bindE (if top \<noteq> 0 then strcat (Some new_abs_path) (Some (str ''/'' @ [0])) else Inr new_abs_path) (\<lambda>p.
         strcat (Some p) (Some name)))
       else Inr new_abs_path))"

function wash_loop :: "u8 list option \<Rightarrow> u8 list \<Rightarrow> u8 list \<Rightarrow> u8 list res" where
  "wash_loop sub_path name new_abs_path =
     bindE (read_at name 0) (\<lambda>c.
     if c \<noteq> 0 then
       bindE (wash_name name new_abs_path) (\<lambda>new_abs_path.
       case sub_path of
         None \<Rightarrow> Inr new_abs_path
       | Some q \<Rightarrow> bindE (path_parse q (replicate 16 0)) (\<lambda>(sub_path, name). wash_loop sub_path name new_abs_path))
     else Inr new_abs_path)"
  by pat_completeness auto
termination
proof (relation "measure (\<lambda>(p, name, new). path_left p)", goal_cases)
  case (2 sub_path name new c new' q x p' name')
  then show ?case using path_parse_shorter [of q "replicate 16 0"] by (auto simp: path_left_def split: option.splits)
qed simp

declare wash_loop.simps [simp del]

definition wash_path :: "u8 list \<Rightarrow> u8 list \<Rightarrow> u8 list res" where
  "wash_path old_abs_path new_abs_path =
     bindE (read_at old_abs_path 0) (\<lambda>c.
     bindE (ASSERT (c = SLASH)) (\<lambda>_.
     bindE (path_parse old_abs_path (replicate 16 0)) (\<lambda>(sub_path, name).
     if name ! 0 = 0 then
       bindE (write_at new_abs_path 0 SLASH) (\<lambda>p. write_at p 1 0)
     else
       bindE (write_at new_abs_path 0 0) (\<lambda>p.
       bindE (strcat (Some p) (Some (str ''/'' @ [0]))) (\<lambda>p.
       wash_loop sub_path name p)))))"

section \<open>Words of a command line\<close>

definition MAX_ARG_NR :: nat where "MAX_ARG_NR = 16"

function skip_token :: "u8 list \<Rightarrow> u8 \<Rightarrow> nat \<Rightarrow> nat res" where
  "skip_token cmd tok i =
     (if i < length cmd then if cmd ! i = tok then skip_token cmd tok (Suc i) else Inr i else Inl OutOfBounds)"
  by pat_completeness auto
termination by (relation "measure (\<lambda>(cmd, tok, i). length cmd - i)") auto

function skip_word :: "u8 list \<Rightarrow> u8 \<Rightarrow> nat \<Rightarrow> nat res" where
  "skip_word cmd tok i =
     (if i < length cmd then if cmd ! i \<noteq> 0 \<and> cmd ! i \<noteq> tok then skip_word cmd tok (Suc i) else Inr i
      else Inl OutOfBounds)"
  by pat_completeness auto
termination by (relation "measure (\<lambda>(cmd, tok, i). length cmd - i)") auto

declare skip_token.simps [simp del] skip_word.simps [simp del]

lemma skip_token_end: "skip_token cmd tok i = Inr k \<Longrightarrow> i \<le> k \<and> k < length cmd \<and> cmd ! k \<noteq> tok"
proof (induction cmd tok i rule: skip_token.induct)
  case (1 cmd tok i)
  from 1(2) show ?case by (subst (asm) skip_token.simps) (auto split: if_splits dest: 1(1))
qed

lemma skip_word_end: "skip_word cmd tok i = Inr k \<Longrightarrow> i \<le> k \<and> k < length cmd \<and> (cmd ! k = 0 \<or> cmd ! k = tok)"
proof (induction cmd tok i rule: skip_word.induct)
  case (1 cmd tok i)
  from 1(2) show ?case by (subst (asm) skip_word.simps) (auto split: if_splits dest: 1(1))
qed

text \<open>
  The loop of \<^verbatim>\<open>cmd_parse\<close>. The test for too many words comes after the word was stored, so that
  it is never reached: the store of word number 17 is outside the array.
\<close>

function cmd_loop :: "u8 list \<Rightarrow> nat option list \<Rightarrow> u8 \<Rightarrow> nat \<Rightarrow> nat \<Rightarrow> (int \<times> u8 list \<times> nat option list) res" where
  "cmd_loop cmd argv tok argc i =
     bindE (read_at cmd i) (\<lambda>c.
     if c \<noteq> 0 then
       bindE (skip_token cmd tok i) (\<lambda>j.
       if cmd ! j = 0 then Inr (int argc, cmd, argv)
       else
         bindE (write_at argv argc (Some j)) (\<lambda>argv.
         bindE (skip_word cmd tok j) (\<lambda>k.
         let (cmd, k) = (if cmd ! k \<noteq> 0 then (cmd[k := 0], Suc k) else (cmd, k))
         in if argc > MAX_ARG_NR then Inr (-1, cmd, argv) else cmd_loop cmd argv tok (argc + 1) k)))
     else Inr (int argc, cmd, argv))"
  by pat_completeness auto
termination
proof (relation "measure (\<lambda>(cmd, argv, tok, argc, i). length cmd - i)", goal_cases)
  case (2 cmd argv tok argc i c j argv' k xa cmd' k')
  then have j: "i \<le> j" "j < length cmd" "cmd ! j \<noteq> tok" using skip_token_end by blast+
  have k: "j \<le> k" "k < length cmd" "cmd ! k = 0 \<or> cmd ! k = tok" using skip_word_end 2 by blast+
  have "j \<noteq> k" using k(3) j(3) 2(4) by metis
  then show ?case using j k 2 by (auto split: if_splits)
qed simp

declare cmd_loop.simps [simp del]

definition cmd_parse :: "u8 list \<Rightarrow> nat option list \<Rightarrow> u8 \<Rightarrow> (int \<times> u8 list \<times> nat option list) res" where
  "cmd_parse cmd_str argv tok =
     bindE (if MAX_ARG_NR \<le> length argv then Inr (replicate MAX_ARG_NR None @ drop MAX_ARG_NR argv) else Inl OutOfBounds) (\<lambda>argv.
     cmd_loop cmd_str argv tok 0 0)"

section \<open>What a clean path is\<close>

text \<open>
  For reference: the names that are left of a list of names, where \<^verbatim>\<open>..\<close> takes away the name before it,
  and the text of a list of names.
\<close>

definition clean_name :: "u8 list list \<Rightarrow> u8 list \<Rightarrow> u8 list list" where
  "clean_name ns n = (if n = str ''..'' then butlast ns else if n = str ''.'' then ns else ns @ [n])"

definition clean_names :: "u8 list list \<Rightarrow> u8 list list" where
  "clean_names ns = foldl clean_name [] ns"

definition name_text :: "u8 list list \<Rightarrow> u8 list" where
  "name_text ns = concat (map (Cons SLASH) ns)"

definition path_text :: "u8 list list \<Rightarrow> u8 list" where
  "path_text ns = (if ns = [] then [SLASH] else name_text ns)"

definition name_ok :: "u8 list \<Rightarrow> bool" where
  "name_ok n \<longleftrightarrow> n \<noteq> [] \<and> nul_free n \<and> SLASH \<notin> set n"

lemma SLASH_ne [simp]: "SLASH \<noteq> 0"
  by (simp add: SLASH_def)

lemma str_lits: "str ''/'' = [SLASH]" "str ''.'' = [46]" "str ''..'' = [46, 46]"
  by (simp_all add: str_def of_char_def SLASH_def)

lemma name_text_simps [simp]:
  "name_text [] = []" "name_text (n # ns) = SLASH # n @ name_text ns" "name_text (ms @ ns) = name_text ms @ name_text ns"
  by (simp_all add: name_text_def)

lemma nul_free_name_text [simp]: "\<forall>n \<in> set ns. name_ok n \<Longrightarrow> nul_free (name_text ns)"
  by (induction ns) (auto simp: name_ok_def)

lemma nul_free_path_text [simp]: "\<forall>n \<in> set ns. name_ok n \<Longrightarrow> nul_free (path_text ns)"
  by (simp add: path_text_def)

lemma clean_name_ok: "\<forall>n \<in> set ns. name_ok n \<Longrightarrow> name_ok n \<Longrightarrow> \<forall>m \<in> set (clean_name ns n). name_ok m"
  by (auto simp: clean_name_def dest: in_set_butlastD)

lemma clean_names_ok: "\<forall>n \<in> set ns. name_ok n \<Longrightarrow> \<forall>n \<in> set (clean_names ns). name_ok n"
proof (induction ns rule: rev_induct)
  case (snoc n ns)
  then show ?case using clean_name_ok [of "clean_names ns" n] by (simp add: clean_names_def)
qed (simp add: clean_names_def)

text \<open>The last name, which \<^verbatim>\<open>strrchr\<close> finds.\<close>

lemma strrchr_name_text:
  assumes "\<forall>n \<in> set ns. name_ok n" "name_ok n"
  shows "strrchr (Some (name_text (ns @ [n]) @ 0 # r)) SLASH = Inr (Some (length (name_text ns)))"
proof -
  have "char_is c SLASH \<longleftrightarrow> c = SLASH" for c by (rule char_is_ascii) (simp add: SLASH_def)
  then show ?thesis
    using assms strrchr_last [of "name_text ns" SLASH n SLASH r] by (auto simp: name_ok_def)
qed

lemma wash_up_run:
  assumes "\<forall>n \<in> set ns. name_ok n"
  obtains r' where "wash_up (path_text ns @ 0 # r) = Inr (path_text (butlast ns) @ 0 # r')"
    "length (path_text (butlast ns) @ 0 # r') = length (path_text ns @ 0 # r)"
proof (cases ns rule: rev_cases)
  case Nil
  have "strrchr (Some ([SLASH] @ 0 # r)) SLASH = Inr (Some 0)"
    using strrchr_last [of "[]" SLASH "[]" SLASH r] by (simp add: char_is_ascii SLASH_def)
  then have "wash_up (path_text ns @ 0 # r) = Inr (path_text (butlast ns) @ 0 # r)"
    using Nil by (simp add: wash_up_def path_text_def write_at_def)
  then show thesis using that Nil by auto
next
  case (snoc ms n)
  then have ok: "\<forall>m \<in> set ms. name_ok m" "name_ok n" using assms by auto
  note s = strrchr_name_text [OF ok, of r]
  show thesis
  proof (cases "ms = []")
    case True
    then have "wash_up (path_text ns @ 0 # r) = Inr (path_text (butlast ns) @ 0 # (tl n @ 0 # r))"
      using snoc s ok(2) by (cases n) (auto simp: wash_up_def path_text_def write_at_def name_ok_def)
    then show thesis using that snoc True ok(2) by (auto simp: path_text_def name_ok_def)
  next
    case False
    then have "name_text ms \<noteq> []" by (cases ms) auto
    then have "wash_up (path_text ns @ 0 # r) = Inr (path_text (butlast ns) @ 0 # (n @ 0 # r))"
      using snoc s False by (simp add: wash_up_def path_text_def write_at_def list_update_append)
    then show thesis using that snoc False by (auto simp: path_text_def)
  qed
qed

lemma wash_name_run:
  assumes "\<forall>n \<in> set ns. name_ok n" "name_ok n" "length (name_text ns) + length n + 1 < length (path_text ns @ 0 # r)"
  obtains r' where "wash_name (n @ 0 # z) (path_text ns @ 0 # r) = Inr (path_text (clean_name ns n) @ 0 # r')"
    "length (path_text (clean_name ns n) @ 0 # r') = length (path_text ns @ 0 # r)"
proof -
  have n: "nul_free n" using assms(2) by (simp add: name_ok_def)
  obtain up where up: "strncmp (Some (str ''..'' @ 0 # [])) (Some (n @ 0 # z)) 2 = Inr up" "up = 0 \<longleftrightarrow> str ''..'' = n"
    by (rule strncmp_is_eq [of "str ''..''" n 2 "[]" z]) (simp_all add: n str_lits)
  obtain here where here: "strncmp (Some (str ''.'' @ 0 # [])) (Some (n @ 0 # z)) 1 = Inr here" "here = 0 \<longleftrightarrow> str ''.'' = n"
    by (rule strncmp_is_eq [of "str ''.''" n 1 "[]" z]) (simp_all add: n str_lits)
  obtain top where top: "strncmp (Some (path_text ns @ 0 # r)) (Some (str ''/'' @ 0 # [])) 1 = Inr top"
      "top = 0 \<longleftrightarrow> path_text ns = str ''/''"
    by (rule strncmp_is_eq [of "path_text ns" "str ''/''" 1 r "[]"]) (simp_all add: str_lits assms(1))
  have single: "path_text ns = str ''/'' \<longleftrightarrow> ns = []"
    using assms(1) by (cases ns) (auto simp: path_text_def str_lits name_ok_def)
  consider "n = str ''..''" | "n = str ''.''" | "n \<noteq> str ''..''" "n \<noteq> str ''.''" by blast
  then show thesis
  proof cases
    case 1
    obtain r' where "wash_up (path_text ns @ 0 # r) = Inr (path_text (butlast ns) @ 0 # r')"
      "length (path_text (butlast ns) @ 0 # r') = length (path_text ns @ 0 # r)"
      by (rule wash_up_run [OF assms(1)])
    then show thesis using that 1 up by (simp add: wash_name_def clean_name_def)
  next
    case 2
    then show thesis using that [of r] up here by (simp add: wash_name_def clean_name_def str_lits)
  next
    case 3
    show thesis
    proof (cases "ns = []")
      case True
      then have "strcat (Some (path_text ns @ 0 # r)) (Some (n @ 0 # z)) = Inr (path_text ns @ n @ 0 # drop (length n) r)"
        using assms n by (intro strcat_cstr) (simp_all add: path_text_def)
      then show thesis
        using that [of "drop (length n) r"] 3 True up here top single assms(3)
        by (simp add: wash_name_def clean_name_def path_text_def str_lits)
    next
      case False
      have "strcat (Some (path_text ns @ 0 # r)) (Some ([SLASH] @ 0 # [])) = Inr (path_text ns @ [SLASH] @ 0 # drop 1 r)"
        using strcat_cstr [of "path_text ns" "[SLASH]" r "[]"] assms False by (simp add: path_text_def)
      moreover have "strcat (Some ((path_text ns @ [SLASH]) @ 0 # drop 1 r)) (Some (n @ 0 # z)) =
          Inr ((path_text ns @ [SLASH]) @ n @ 0 # drop (length n) (drop 1 r))"
        using assms n False by (intro strcat_cstr) (simp_all add: path_text_def)
      ultimately show thesis
        using that [of "drop (length n + 1) r"] 3 False up here top single assms(3)
        by (simp add: wash_name_def clean_name_def path_text_def str_lits)
    qed
  qed
qed

lemma length_clean_name: "length (name_text (clean_name ns n)) \<le> length (name_text ns) + length n + 1"
  by (cases ns rule: rev_cases) (auto simp: clean_name_def)

lemma name_text_fits: "t = [] \<or> hd t = SLASH \<Longrightarrow> length (name_text (path_names t)) \<le> length t"
proof (induction "length t" arbitrary: t rule: less_induct)
  case less
  show ?case
  proof (cases rule: pieces_split [of SLASH t])
    case 1
    then show ?thesis by (simp add: path_names_def)
  next
    case (2 m n t')
    have "m \<noteq> 0" using less.prems 2(1-3) by (cases n; cases m) auto
    moreover have "length (name_text (path_names t')) \<le> length t'"
      using 2(2,4) by (intro less.hyps) (simp_all add: 2(1))
    ultimately show ?thesis unfolding path_names_def 2(5) by (simp add: 2(1))
  qed
qed

text \<open>The array of a short name.\<close>

lemma name_in_array: "length n \<le> 15 \<Longrightarrow> patch 0 n (replicate 16 0) = n @ 0 # replicate (15 - length n) (0 :: u8)"
  by (simp add: patch_front Suc_diff_le flip: replicate_Suc)

lemma wash_loop_run:
  assumes "nul_free t" "\<forall>n \<in> set (path_names t). length n \<le> 15" "\<forall>n \<in> set ns. name_ok n" "name_ok n"
    "length (name_text ns) + length n + 1 + length (name_text (path_names t)) < length (path_text ns @ 0 # r)"
  shows "\<exists>r'. wash_loop (if t = [] then None else Some (t @ 0 # q)) (n @ 0 # z) (path_text ns @ 0 # r) =
           Inr (path_text (foldl clean_name ns (n # path_names t)) @ 0 # r') \<and>
         length (path_text (foldl clean_name ns (n # path_names t)) @ 0 # r') = length (path_text ns @ 0 # r)"
  using assms
proof (induction "length t" arbitrary: t ns n z r rule: less_induct)
  case less
  have fit: "length (name_text ns) + length n + 1 < length (path_text ns @ 0 # r)" using less.prems(5) by simp
  obtain r1 where r1: "wash_name (n @ 0 # z) (path_text ns @ 0 # r) = Inr (path_text (clean_name ns n) @ 0 # r1)"
      "length (path_text (clean_name ns n) @ 0 # r1) = length (path_text ns @ 0 # r)"
    by (rule wash_name_run [OF less.prems(3,4) fit])
  have ok: "\<forall>m \<in> set (clean_name ns n). name_ok m" using less.prems(3,4) by (rule clean_name_ok)
  have n0: "read_at (n @ 0 # z) 0 = Inr (hd n)" "hd n \<noteq> 0"
    using less.prems(4) by (cases n; simp add: read_at_def name_ok_def)+
  note w = wash_loop.simps [of _ "n @ 0 # z"]
  show ?case
  proof (cases "t = []")
    case True
    then show ?thesis using r1 n0 by (subst w) (simp add: path_names_def)
  next
    case False
    show ?thesis
    proof (cases rule: pieces_split [of SLASH t])
      case 1
      then have "path_parse (t @ 0 # q) (replicate 16 0) = Inr (None, replicate 16 0)" using path_parse_none by metis
      then show ?thesis
        using False r1 n0 1(1) by (subst w) (simp add: path_names_def wash_loop.simps [of None] read_at_def)
    next
      case (2 m n' t')
      have nf: "nul_free n'" "nul_free t'" using 2(1) less.prems(1) by simp_all
      have len: "length n' \<le> 15" "\<forall>n \<in> set (path_names t'). length n \<le> 15"
        using less.prems(2) 2(5) by (simp_all add: path_names_def)
      have parse: "path_parse (t @ 0 # q) (replicate 16 0) =
          Inr (if t' = [] then None else Some (t' @ 0 # q), n' @ 0 # replicate (15 - length n') 0)"
        unfolding 2(1) using path_parse_name [OF 2(3) nf(1) 2(2) nf(2) 2(4), of "replicate 16 0" m q] len(1)
        by (simp add: name_in_array)
      have ok': "name_ok n'" using 2(2,3) nf(1) by (simp add: name_ok_def)
      have "length t' < length t" unfolding 2(1) using 2(2) by simp
      moreover have "length (name_text (clean_name ns n)) + length n' + 1 + length (name_text (path_names t'))
          < length (path_text (clean_name ns n) @ 0 # r1)"
        using less.prems(5) length_clean_name [of ns n] 2(5) unfolding r1(2) by (simp add: path_names_def)
      ultimately obtain r2 where
        "wash_loop (if t' = [] then None else Some (t' @ 0 # q)) (n' @ 0 # replicate (15 - length n') 0)
           (path_text (clean_name ns n) @ 0 # r1) =
         Inr (path_text (foldl clean_name (clean_name ns n) (n' # path_names t')) @ 0 # r2)"
        "length (path_text (foldl clean_name (clean_name ns n) (n' # path_names t')) @ 0 # r2) =
         length (path_text (clean_name ns n) @ 0 # r1)"
        using less.hyps [OF _ nf(2) len(2) ok ok'] by blast
      then show ?thesis
        using False r1 n0 parse 2(5) by (subst w) (simp add: path_names_def)
    qed
  qed
qed

lemma wash_path_run:
  assumes "nul_free t" "t \<noteq> []" "hd t = SLASH" "\<forall>n \<in> set (path_names t). length n \<le> 15" "length t < length new"
  shows "\<exists>r'. wash_path (t @ 0 # r) new = Inr (path_text (clean_names (path_names t)) @ 0 # r') \<and>
           length (path_text (clean_names (path_names t)) @ 0 # r') = length new"
proof -
  have c: "read_at (t @ 0 # r) 0 = Inr SLASH" using assms(2,3) by (cases t) (simp_all add: read_at_def)
  obtain a b new' where new: "new = a # b # new'" using assms(2,5) by (cases t; cases new; cases "tl new") auto
  show ?thesis
  proof (cases rule: pieces_split [of SLASH t])
    case 1
    then have "path_parse (t @ 0 # r) (replicate 16 0) = Inr (None, replicate 16 0)" using path_parse_none by metis
    then show ?thesis
      using c 1(1) by (simp add: wash_path_def new write_at_def path_names_def clean_names_def path_text_def)
  next
    case (2 m n t')
    have nf: "nul_free n" "nul_free t'" using 2(1) assms(1) by simp_all
    have len: "length n \<le> 15" "\<forall>n \<in> set (path_names t'). length n \<le> 15"
      using assms(4) 2(5) by (simp_all add: path_names_def)
    have parse: "path_parse (t @ 0 # r) (replicate 16 0) =
        Inr (if t' = [] then None else Some (t' @ 0 # r), n @ 0 # replicate (15 - length n) 0)"
      unfolding 2(1) using path_parse_name [OF 2(3) nf(1) 2(2) nf(2) 2(4), of "replicate 16 0" m r] len(1)
      by (simp add: name_in_array)
    have ok: "name_ok n" "(n @ 0 # replicate (15 - length n) 0) ! 0 \<noteq> 0"
      using 2(2,3) nf(1) by (simp_all add: name_ok_def nth_append nul_free_def in_set_conv_nth)
    have start: "strcat (Some (0 # b # new')) (Some (str ''/'' @ [0])) = Inr (path_text [] @ 0 # new')"
      using strcat_cstr [of "[]" "[SLASH]" "b # new'" "[]"] by (simp add: str_lits path_text_def)
    have "length (name_text (path_names t)) < length new" using name_text_fits [of t] assms(3,5) by simp
    then have "length (name_text []) + length n + 1 + length (name_text (path_names t')) < length (path_text [] @ 0 # new')"
      using 2(5) by (simp add: new path_names_def path_text_def)
    from wash_loop_run [OF nf(2) len(2) _ ok(1) this, of r "replicate (15 - length n) 0"] obtain r' where
      "wash_loop (if t' = [] then None else Some (t' @ 0 # r)) (n @ 0 # replicate (15 - length n) 0) (path_text [] @ 0 # new') =
         Inr (path_text (clean_names (path_names t)) @ 0 # r')"
      "length (path_text (clean_names (path_names t)) @ 0 # r') = length new"
      using 2(5) by (auto simp: clean_names_def path_names_def new path_text_def)
    then show ?thesis
      using c parse ok(2) start by (auto simp: wash_path_def new write_at_def)
  qed
qed

section \<open>What the words are\<close>

text \<open>A word at an offset of a buffer, with the zero byte that ends it.\<close>

definition word_at :: "u8 list \<Rightarrow> nat \<Rightarrow> u8 list \<Rightarrow> bool" where
  "word_at b off w \<longleftrightarrow> take (Suc (length w)) (drop off b) = w @ [0]"

lemma word_at_skip [simp]: "word_at (pre @ b) (length pre + off) w = word_at b off w"
  by (simp add: word_at_def)

lemma word_at_drop: "word_at b off w \<Longrightarrow> \<exists>r. drop off b = w @ 0 # r"
  unfolding word_at_def by (metis append_Cons append_Nil append_assoc append_take_drop_id)

lemma skip_token_run:
  assumes "t = [] \<or> hd t \<noteq> tok" "tok \<noteq> 0"
  shows "skip_token (pre @ replicate m tok @ t @ 0 # r) tok (length pre) = Inr (length pre + m)"
proof (induction m arbitrary: pre)
  case 0
  show ?case using assms by (subst skip_token.simps) (cases t; auto simp: nth_append)
next
  case (Suc m)
  show ?case using Suc.IH [of "pre @ [tok]"] by (subst skip_token.simps) (simp add: nth_append)
qed

lemma skip_word_run:
  assumes "tok \<notin> set n" "nul_free n" "t = [] \<or> hd t = tok"
  shows "skip_word (pre @ n @ t @ 0 # r) tok (length pre) = Inr (length pre + length n)"
  using assms(1,2)
proof (induction n arbitrary: pre)
  case Nil
  show ?case using assms(3) by (subst skip_word.simps) (cases t; auto simp: nth_append)
next
  case (Cons c n)
  then show ?case using Cons.IH [of "pre @ [c]"] by (subst skip_word.simps) (auto simp: nth_append)
qed

text \<open>One word of the loop: what is behind it is parsed next, after its separator was replaced by a zero byte.\<close>

lemma cmd_loop_word:
  fixes pre :: "u8 list" and m :: nat
  assumes "n \<noteq> []" "tok \<notin> set n" "nul_free n" "tok \<noteq> 0" "t' = [] \<or> hd t' = tok" "argc \<le> MAX_ARG_NR"
  defines "front \<equiv> pre @ replicate m tok @ n @ (if t' = [] then [] else [0])"
  shows "cmd_loop (pre @ (replicate m tok @ n @ t') @ 0 # r) argv tok argc (length pre) =
           (if argc < length argv then cmd_loop (front @ tl t' @ 0 # r) (argv[argc := Some (length pre + m)]) tok (Suc argc) (length front)
            else Inl OutOfBounds)"
proof -
  define b where "b = pre @ (replicate m tok @ n @ t') @ 0 # r"
  have hd: "hd n \<noteq> tok" "hd n \<noteq> 0" using assms(1-3) by (cases n; auto)+
  have c: "read_at b (length pre) = Inr (if m = 0 then hd n else tok)"
    using assms(1) by (cases n; cases m) (simp_all add: b_def read_at_def nth_append)
  have j: "skip_token b tok (length pre) = Inr (length pre + m)"
    using skip_token_run [of "n @ t'" tok pre m r] assms(1,4) hd by (cases n) (auto simp: b_def)
  have bj: "b ! (length pre + m) = hd n" using assms(1) by (cases n) (simp_all add: b_def nth_append)
  have k: "skip_word b tok (length pre + m) = Inr (length pre + m + length n)"
    using skip_word_run [OF assms(2,3,5), of "pre @ replicate m tok" r] by (simp add: b_def add.assoc)
  have bk: "b ! (length pre + m + length n) = (if t' = [] then 0 else tok)"
    using assms(5) by (cases t') (auto simp: b_def nth_append)
  have rest: "cmd_loop (if t' = [] then b else b[length pre + m + length n := 0]) av tok (Suc argc)
        (if t' = [] then length pre + m + length n else Suc (length pre + m + length n)) =
      cmd_loop (front @ tl t' @ 0 # r) av tok (Suc argc) (length front)" for av
    by (cases t') (simp_all add: b_def front_def list_update_append add.assoc)
  show ?thesis
    unfolding b_def [symmetric] rest [symmetric]
    using assms(4,6) hd j k by (subst cmd_loop.simps) (auto simp: c bj bk write_at_def not_less)
qed

text \<open>
  The loop from an offset on: the buffer in front of it stays as it is, each word is one piece of the text, and as
  many entries of \<^verbatim>\<open>argv\<close> are written.
\<close>

lemma cmd_loop_run:
  assumes "nul_free t" "tok \<noteq> 0" "argc + length (pieces tok t) \<le> MAX_ARG_NR" "length argv = MAX_ARG_NR"
  shows "\<exists>u av. cmd_loop (pre @ t @ 0 # r) argv tok argc (length pre) = Inr (int (argc + length (pieces tok t)), pre @ u, av) \<and>
           (t = [] \<longrightarrow> u = 0 # r) \<and> length u = length (t @ 0 # r) \<and> length av = MAX_ARG_NR \<and>
           (\<forall>k < length (pieces tok t). \<exists>off. av ! (argc + k) = Some (length pre + off) \<and> word_at u off (pieces tok t ! k)) \<and>
           (\<forall>k. k < argc \<or> argc + length (pieces tok t) \<le> k \<longrightarrow> av ! k = argv ! k)"
  using assms
proof (induction "length t" arbitrary: t pre argv argc rule: less_induct)
  case less
  show ?case
  proof (cases rule: pieces_split [of tok t])
    case 1
    have "cmd_loop (pre @ t @ 0 # r) argv tok argc (length pre) = Inr (int argc, pre @ t @ 0 # r, argv)"
    proof (cases "t = []")
      case True
      then show ?thesis by (subst cmd_loop.simps) (simp add: read_at_def nth_append)
    next
      case False
      have "skip_token (pre @ t @ 0 # r) tok (length pre) = Inr (length pre + length t)"
        using skip_token_run [of "[]" tok pre "length t" r] less.prems(2) 1(2) by simp
      then show ?thesis
        using False less.prems(1) by (subst cmd_loop.simps) (cases t; auto simp: read_at_def nth_append)
    qed
    then show ?thesis using 1(1) less.prems(4) by (intro exI [of _ "t @ 0 # r"] exI [of _ argv]) simp
  next
    case (2 m n t')
    let ?f = "replicate m tok @ n @ (if t' = [] then [] else [0])"
    let ?argv = "argv[argc := Some (length pre + m)]"
    have nf: "nul_free n" "nul_free (tl t')" using 2(1) less.prems(1) by (cases t'; simp)+
    have ps: "pieces tok t = n # pieces tok (tl t')"
      using 2(4,5) pieces_skip_one [of tok "tl t'"] by (cases t') auto
    have "length (tl t') < length t" unfolding 2(1) using 2(2) by (cases t') simp_all
    moreover have "Suc argc + length (pieces tok (tl t')) \<le> MAX_ARG_NR" using less.prems(3) ps by simp
    ultimately obtain u av where IH:
      "cmd_loop ((pre @ ?f) @ tl t' @ 0 # r) ?argv tok (Suc argc) (length (pre @ ?f)) =
         Inr (int (Suc argc + length (pieces tok (tl t'))), (pre @ ?f) @ u, av)"
      "tl t' = [] \<longrightarrow> u = 0 # r" "length u = length (tl t' @ 0 # r)" "length av = MAX_ARG_NR"
      "\<forall>k < length (pieces tok (tl t')). \<exists>off. av ! (Suc argc + k) = Some (length (pre @ ?f) + off) \<and>
         word_at u off (pieces tok (tl t') ! k)"
      "\<forall>k. k < Suc argc \<or> Suc argc + length (pieces tok (tl t')) \<le> k \<longrightarrow> av ! k = ?argv ! k"
      using less.hyps [OF _ nf(2) less.prems(2), of "Suc argc" ?argv "pre @ ?f"] less.prems(4) by (metis length_list_update)
    have argc: "argc < MAX_ARG_NR" using less.prems(3) ps by simp
    have step: "cmd_loop (pre @ t @ 0 # r) argv tok argc (length pre) =
        Inr (int (argc + length (pieces tok t)), pre @ ?f @ u, av)"
      using cmd_loop_word [OF 2(2,3) nf(1) less.prems(2) 2(4), of argc pre m r argv] IH(1) argc less.prems(4) ps
      unfolding 2(1) by simp
    have first: "av ! argc = Some (length pre + m)" using IH(6) argc less.prems(4) by simp
    have "word_at (?f @ u) m n"
      using word_at_skip [of "replicate m tok" "n @ (if t' = [] then [] else [0]) @ u" 0 n] IH(2)
      by (simp add: word_at_def)
    moreover have "\<exists>off. av ! (Suc argc + k) = Some (length pre + off) \<and> word_at (?f @ u) off (pieces tok (tl t') ! k)"
      if "k < length (pieces tok (tl t'))" for k
    proof -
      from IH(5) that obtain off where "av ! (Suc argc + k) = Some (length (pre @ ?f) + off)" "word_at u off (pieces tok (tl t') ! k)"
        by blast
      then show ?thesis using word_at_skip [of ?f u off "pieces tok (tl t') ! k"] by (intro exI [of _ "length ?f + off"]) (simp add: add.assoc)
    qed
    ultimately have "\<forall>k < length (pieces tok t). \<exists>off. av ! (argc + k) = Some (length pre + off) \<and>
        word_at (?f @ u) off (pieces tok t ! k)"
      using first ps by (auto simp: less_Suc_eq_0_disj)
    moreover have "\<forall>k. k < argc \<or> argc + length (pieces tok t) \<le> k \<longrightarrow> av ! k = argv ! k" using IH(6) ps by auto
    moreover have "t \<noteq> []" "length (?f @ u) = length (t @ 0 # r)"
      unfolding 2(1) using IH(3) 2(2) by (cases t'; simp)+
    ultimately show ?thesis using step IH(4) by blast
  qed
qed

lemma cmd_loop_overrun:
  assumes "nul_free t" "tok \<noteq> 0" "argc + length (pieces tok t) > MAX_ARG_NR" "length argv = MAX_ARG_NR" "argc \<le> MAX_ARG_NR"
  shows "cmd_loop (pre @ t @ 0 # r) argv tok argc (length pre) = Inl OutOfBounds"
  using assms
proof (induction "length t" arbitrary: t pre argv argc rule: less_induct)
  case less
  show ?case
  proof (cases rule: pieces_split [of tok t])
    case 1
    then show ?thesis using less.prems by simp
  next
    case (2 m n t')
    have nf: "nul_free n" "nul_free (tl t')" using 2(1) less.prems(1) by (cases t'; simp)+
    have ps: "pieces tok t = n # pieces tok (tl t')"
      using 2(4,5) pieces_skip_one [of tok "tl t'"] by (cases t') auto
    have "length (tl t') < length t" unfolding 2(1) using 2(2) by (cases t') simp_all
    then have "cmd_loop (front @ tl t' @ 0 # r) av tok (Suc argc) (length front) = Inl OutOfBounds"
      if "length av = MAX_ARG_NR" "argc < MAX_ARG_NR" for front av
      using that less.prems(2,3) ps nf(2) by (intro less.hyps) simp_all
    then show ?thesis
      unfolding 2(1) cmd_loop_word [OF 2(2,3) nf(1) less.prems(2) 2(4) less.prems(5)] using less.prems(4)
      by (auto simp del: append_assoc length_append)
  qed
qed

text \<open>A piece is a part of the text.\<close>

lemma piece_of_text: "n \<in> set (split_on d t) \<Longrightarrow> length n \<le> length t \<and> set n \<subseteq> set t \<and> d \<notin> set n"
proof (induction t arbitrary: n)
  case (Cons c t)
  have "hd (split_on d t) \<in> set (split_on d t)" by (rule hd_in_set) simp
  moreover have "set (tl (split_on d t)) \<subseteq> set (split_on d t)" by (cases "split_on d t") auto
  ultimately have "n = [] \<or> n \<in> set (split_on d t) \<or> c \<noteq> d \<and> (\<exists>m \<in> set (split_on d t). n = c # m)"
    using Cons.prems by (auto split: if_splits)
  then show ?case using Cons.IH by fastforce
qed simp

lemma pieces_of_text: "n \<in> set (pieces d t) \<Longrightarrow> n \<noteq> [] \<and> d \<notin> set n \<and> length n \<le> length t \<and> (nul_free t \<longrightarrow> nul_free n)"
  using piece_of_text [of n d t] by (auto simp: pieces_def nul_free_def)

definition args_are :: "u8 list list \<Rightarrow> u8 list \<Rightarrow> nat option list \<Rightarrow> bool" where
  "args_are ws b av \<longleftrightarrow> length av = MAX_ARG_NR \<and>
     (\<forall>k < MAX_ARG_NR. case av ! k of None \<Rightarrow> length ws \<le> k | Some off \<Rightarrow> k < length ws \<and> word_at b off (ws ! k))"

lemma cmd_parse_run:
  assumes "nul_free t" "tok \<noteq> 0" "length argv = MAX_ARG_NR" "length (pieces tok t) \<le> MAX_ARG_NR"
  shows "\<exists>b av. cmd_parse (t @ 0 # r) argv tok = Inr (int (length (pieces tok t)), b, av) \<and>
           length b = length (t @ 0 # r) \<and> args_are (pieces tok t) b av"
proof -
  obtain b av where run: "cmd_loop ([] @ t @ 0 # r) (replicate MAX_ARG_NR None) tok 0 (length []) =
        Inr (int (0 + length (pieces tok t)), [] @ b, av)"
      "length b = length (t @ 0 # r)" "length av = MAX_ARG_NR"
      "\<forall>k < length (pieces tok t). \<exists>off. av ! (0 + k) = Some (length [] + off) \<and> word_at b off (pieces tok t ! k)"
      "\<forall>k. k < 0 \<or> 0 + length (pieces tok t) \<le> k \<longrightarrow> av ! k = replicate MAX_ARG_NR None ! k"
    using cmd_loop_run [OF assms(1,2), of 0 "replicate MAX_ARG_NR None" "[]" r] assms(4) by auto
  have "case av ! k of None \<Rightarrow> length (pieces tok t) \<le> k | Some off \<Rightarrow> k < length (pieces tok t) \<and> word_at b off (pieces tok t ! k)"
    if "k < MAX_ARG_NR" for k
    using that run(4) [rule_format, of k] run(5) [rule_format, of k] by (cases "k < length (pieces tok t)") auto
  then show ?thesis using assms(3) run(1-3) by (auto simp: cmd_parse_def args_are_def)
qed

section \<open>Properties\<close>

text \<open>
  C13: \<^verbatim>\<open>wash_path\<close> writes the clean form of an absolute path: the names that are left when \<^verbatim>\<open>.\<close> is
  dropped and \<^verbatim>\<open>..\<close> takes the name before it away (at the top it does nothing), each after one slash, and a
  single slash when no name is left. It stays inside an array that is longer than the path. The test for \<^verbatim>\<open>.\<close>
  and for the top both rest on \<^verbatim>\<open>strncmp\<close> comparing the byte behind its limit too.
\<close>

theorem wash_path_is_clean:
  assumes "nul_free t" "t \<noteq> []" "hd t = SLASH" "\<forall>n \<in> set (path_names t). length n \<le> 15" "length t < length new"
  shows "\<exists>r'. wash_path (t @ 0 # r) new = Inr (path_text (clean_names (path_names t)) @ 0 # r') \<and>
           length (path_text (clean_names (path_names t)) @ 0 # r') = length new"
  using assms by (rule wash_path_run)

theorem wash_path_is_clean_witness:
  "\<exists>r'. wash_path (str ''/a/./bc/..//../d/'' @ [0]) (replicate 512 7) = Inr (str ''/d'' @ 0 # r') \<and> length r' = 509"
proof -
  have n: "path_names (str ''/a/./bc/..//../d/'') = [str ''a'', str ''.'', str ''bc'', str ''..'', str ''..'', str ''d'']"
    by (simp add: path_names_def pieces_def str_def SLASH_def of_char_def)
  have c: "path_text (clean_names [str ''a'', str ''.'', str ''bc'', str ''..'', str ''..'', str ''d'']) = str ''/d''"
    by (simp add: path_text_def clean_names_def clean_name_def str_def SLASH_def of_char_def)
  show ?thesis
    using wash_path_is_clean [of "str ''/a/./bc/..//../d/''" "replicate 512 7" "[]"] unfolding n c
    by (auto simp: str_def nul_free_def of_char_def SLASH_def)
qed

text \<open>
  C14: \<^verbatim>\<open>cmd_parse\<close> splits a command line into its words: with at most 16 of them it returns their number, entry \<open>k\<close>
  of \<^verbatim>\<open>argv\<close> points to a string equal to word \<open>k\<close>, and the other entries are \<^verbatim>\<open>NULL\<close>. With more words it does not return
  -1, as it means to, but stores outside the array first.
\<close>

theorem cmd_parse_words:
  assumes "nul_free t" "tok \<noteq> 0" "length argv = MAX_ARG_NR"
  shows "if length (pieces tok t) \<le> MAX_ARG_NR
         then \<exists>b av. cmd_parse (t @ 0 # r) argv tok = Inr (int (length (pieces tok t)), b, av) \<and>
                length b = length (t @ 0 # r) \<and> args_are (pieces tok t) b av
         else cmd_parse (t @ 0 # r) argv tok = Inl OutOfBounds"
  using cmd_parse_run [OF assms, of r] cmd_loop_overrun [OF assms(1,2), of 0 "replicate MAX_ARG_NR None" "[]" r] assms(3)
  by (auto simp: cmd_parse_def)

theorem cmd_parse_words_witness:
  "\<exists>b av. cmd_parse (str '' ls  -l dir'' @ [0]) (replicate 16 (Some 3)) 32 = Inr (3, b, av) \<and>
     args_are [str ''ls'', str ''-l'', str ''dir''] b av"
proof -
  have n: "pieces 32 (str '' ls  -l dir'') = [str ''ls'', str ''-l'', str ''dir'']"
    by (simp add: pieces_def str_def of_char_def)
  show ?thesis
    using cmd_parse_words [of "str '' ls  -l dir''" 32 "replicate 16 (Some 3)" "[]"] unfolding n
    by (auto simp: MAX_ARG_NR_def nul_free_def str_def of_char_def)
qed

end
