(* ===== verification/Thread_Ps.thy ===== *)
theory Thread_Ps
  imports Thread Fs
begin

text \<open>
  The list of tasks that \<^verbatim>\<open>sys_ps\<close> of \<^verbatim>\<open>thread/thread.c\<close> prints: a line for every element of
  \<^verbatim>\<open>thread_all_list\<close>, with columns of 15 characters.
\<close>

section \<open>Columns\<close>

fun pad_loop :: "nat \<Rightarrow> nat \<Rightarrow> u8 list \<Rightarrow> u8 list res" where
  "pad_loop 0 i buf = Inr buf"
| "pad_loop (Suc n) i buf = bindE (write_at buf i 32) (\<lambda>buf. pad_loop n (Suc i) buf)"

text \<open>
  \<open>ptr\<close> is the bytes from the pointer on. A number is printed twice: the second, hexadecimal text
  replaces the decimal one. The count is kept in a \<^verbatim>\<open>uint8_t\<close>.
\<close>

definition pad_print :: "u8 list \<Rightarrow> nat \<Rightarrow> u8 list \<Rightarrow> char \<Rightarrow> u8 list fsm" where
  "pad_print buf buf_len ptr format =
     bindS (liftS (memset (Some buf) 0 (of_nat buf_len))) (\<lambda>buf.
     bindS (liftS
       (if format = CHR ''s'' then snprintf buf (of_nat buf_len) (str ''%s'' @ [0]) [ArgStr ptr]
        else if format = CHR ''d'' then
          bindE (snprintf buf (of_nat buf_len) (str ''%d'' @ [0]) [ArgWord (scast (ucast (get32 ptr) :: 16 word))]) (\<lambda>(_, buf).
          snprintf buf (of_nat buf_len) (str ''%x'' @ [0]) [ArgWord (get32 ptr)])
        else if format = CHR ''x'' then snprintf buf (of_nat buf_len) (str ''%x'' @ [0]) [ArgWord (get32 ptr)]
        else Inr (0, buf))) (\<lambda>(n, buf).
     let out_pad_0idx = unat (ucast n :: u8) in
     bindS (liftS (pad_loop (buf_len - out_pad_0idx) out_pad_0idx buf)) (\<lambda>buf.
     bindS (sys_write 1 buf (of_nat (buf_len - 1))) (\<lambda>_.
     retS buf))))"

text \<open>The two bytes behind \<^verbatim>\<open>pid\<close> and \<^verbatim>\<open>parent_pid\<close> are padding, cleared with the whole structure.\<close>

definition pid_field :: "16 word \<Rightarrow> u8 list" where
  "pid_field p = le32 (ucast p)"

fun status_name :: "task_status \<Rightarrow> string" where
  "status_name TASK_RUNNING = ''RUNNING''"
| "status_name TASK_READY = ''READY''"
| "status_name TASK_BLOCKED = ''BLOCKED''"
| "status_name TASK_WAITING = ''WAITING''"
| "status_name TASK_HANGING = ''HANGING''"
| "status_name TASK_DIED = ''DIED''"

definition thread_line :: "task_struct \<Rightarrow> bool fsm" where
  "thread_line t =
     bindS (pad_print (replicate 16 0) 16 (pid_field (pid t)) CHR ''d'') (\<lambda>out_pad.
     bindS (if parent_pid t = -1 then pad_print out_pad 16 (str ''NULL'' @ [0]) CHR ''s''
            else pad_print out_pad 16 (pid_field (parent_pid t)) CHR ''d'') (\<lambda>out_pad.
     bindS (pad_print out_pad 16 (str (status_name (status t)) @ [0]) CHR ''s'') (\<lambda>out_pad.
     bindS (pad_print out_pad 16 (le32 (elapsed_ticks t)) CHR ''x'') (\<lambda>out_pad.
     bindS (liftS (memset (Some out_pad) 0 16)) (\<lambda>out_pad.
     bindS (liftS (strlen (Some (tname t)))) (\<lambda>len.
     thenS (assertS (len < 17)) (
     bindS (liftS (memcpy (Some out_pad) (Some (tname t)) len)) (\<lambda>out_pad.
     bindS (liftS (strcat (Some out_pad) (Some [10, 0]))) (\<lambda>out_pad.
     bindS (liftS (strlen (Some out_pad))) (\<lambda>len.
     bindS (sys_write 1 out_pad len) (\<lambda>_.
     retS False)))))))))))"

definition elem2thread_info :: "tstate \<Rightarrow> u32 \<Rightarrow> bool fsm" where
  "elem2thread_info ts p_elem = bindS (liftS (get_task (elem2entry_all p_elem) ts)) thread_line"

definition ps_title :: "u8 list" where
  "ps_title = str ''PID            PPID           STAT           TICKS          COMMAND'' @ [10, 0]"

definition sys_ps :: "tstate \<Rightarrow> unit fsm" where
  "sys_ps ts =
     bindS (liftS (strlen (Some ps_title))) (\<lambda>len.
     bindS (sys_write 1 ps_title len) (\<lambda>_.
     (\<lambda>f. mapE (\<lambda>(_, f). ((), f)) (list_traversal (thread_all_list ts) (elem2thread_info ts) ts f))))"

end
