(* ===== verification/Shell.thy ===== *)
theory Shell
  imports Shell_Text Thread_Ps
begin

text \<open>
  The shell: reading a line, the built-in commands of \<^verbatim>\<open>shell/buildin_cmd.c\<close> and one round of the loop of
  \<^verbatim>\<open>my_shell\<close> in \<^verbatim>\<open>shell/shell.c\<close>. A system call of a user program (\<^verbatim>\<open>lib/user/syscall.c\<close>) runs the kernel function of the same
  name. What \<^verbatim>\<open>printf\<close> prints is logged with its format, without the line ends, and its arguments; clearing the screen is logged as a form feed.
\<close>

section \<open>State\<close>

text \<open>
  The kernel as the shell sees it, the characters that were typed and not read yet, and the global variables of the
  shell. A pointer in \<^verbatim>\<open>argv\<close> is an offset into \<^verbatim>\<open>cmd_line\<close>.
\<close>

record shell =
  kernel :: fstate
  scheduler :: tstate
  keys :: "u8 list"
  cmd_line :: "u8 list"
  final_path :: "u8 list"
  cwd_cache :: "u8 list"
  sh_argv :: "nat option list"
  sh_argc :: int

type_synonym 'a shm = "(shell, 'a) comp"

definition call :: "'a fsm \<Rightarrow> 'a shm" where
  "call m = (\<lambda>s. mapE (\<lambda>(x, f). (x, s\<lparr>kernel := f\<rparr>)) (m (kernel s)))"

definition say :: "string \<Rightarrow> fmt_arg list \<Rightarrow> unit shm" where
  "say fmt args = call (k_print fmt args)"

definition cls_screen :: "unit fsm" where
  "cls_screen = k_print [CHR 0x0C] []"

definition print_prompt :: "u8 list \<Rightarrow> unit fsm" where
  "print_prompt cwd = k_print ''[noahyzhang@localhost %s]$ '' [ArgStr cwd]"

section \<open>Reading a line\<close>

text \<open>
  The loop of \<^verbatim>\<open>readline\<close>: a character is read to the place \<open>pos\<close> before the place is tested. Without a character
  the thread waits in the kernel. At the front of the line a backspace is still in \<^verbatim>\<open>buf[0]\<close>, so that \<open>pos\<close> is never
  decremented there.
\<close>

fun erase_line :: "u8 list \<Rightarrow> nat \<Rightarrow> u8 list fsm" where
  "erase_line buf 0 = retS buf"
| "erase_line buf (Suc p) =
     thenS (sys_putchar 8) (
     bindS (liftS (write_at buf (Suc p) 0)) (\<lambda>buf.
     erase_line buf p))"

fun readline_loop :: "u8 list \<Rightarrow> u8 list \<Rightarrow> u8 list \<Rightarrow> nat \<Rightarrow> nat \<Rightarrow> (u8 list \<times> u8 list) fsm" where
  "readline_loop cwd [] buf pos n = liftS (Inl Blocks)"
| "readline_loop cwd (c # ks) buf pos n =
     bindS (sys_read (\<lambda>_. c) 0 1) (\<lambda>(got, bytes).
     bindS (liftS (put_bytes pos bytes buf)) (\<lambda>buf.
     if got \<noteq> -1 \<and> pos < n then
       let c = buf ! pos in
       if c = 10 \<or> c = 13 then
         bindS (liftS (write_at buf pos 0)) (\<lambda>buf.
         thenS (sys_putchar 10)
         (retS (buf, ks)))
       else if c = 8 then
         if buf ! 0 \<noteq> 8 then thenS (sys_putchar 8) (readline_loop cwd ks buf (pos - 1) n)
         else readline_loop cwd ks buf pos n
       else if c = 11 then
         bindS (liftS (write_at buf pos 0)) (\<lambda>buf.
         thenS cls_screen (
         thenS (print_prompt cwd) (
         thenS (k_print ''%s'' [ArgStr buf]) (
         readline_loop cwd ks buf pos n))))
       else if c = 20 then
         bindS (erase_line buf pos) (\<lambda>buf.
         readline_loop cwd ks buf 0 n)
       else
         thenS (sys_putchar c) (readline_loop cwd ks buf (Suc pos) n)
     else
       thenS (k_print ''readline: can`t find enter_key in the cmd_line, max num of char is 128'' [])
       (retS (buf, ks))))"

definition readline :: "unit shm" where
  "readline =
     bindS (getS cwd_cache) (\<lambda>cwd.
     bindS (getS keys) (\<lambda>ks.
     bindS (getS cmd_line) (\<lambda>buf.
     bindS (call (readline_loop cwd ks buf 0 (unat MAX_PATH_LEN))) (\<lambda>(buf, ks).
     updS (\<lambda>s. s\<lparr>cmd_line := buf, keys := ks\<rparr>)))))"

section \<open>Built-in commands\<close>

text \<open>The string an entry of \<^verbatim>\<open>argv\<close> points to, as the bytes from its pointer on.\<close>

definition arg :: "nat \<Rightarrow> u8 list option shm" where
  "arg i =
     bindS (getS sh_argv) (\<lambda>argv.
     bindS (getS cmd_line) (\<lambda>line.
     bindS (liftS (read_at argv i)) (\<lambda>p.
     retS (map_option (\<lambda>off. drop off line) p))))"

definition make_clear_abs_path :: "u8 list option \<Rightarrow> unit shm" where
  "make_clear_abs_path path =
     bindS (liftS (deref path)) (\<lambda>path.
     bindS (liftS (read_at path 0)) (\<lambda>c.
     bindS (if c \<noteq> SLASH then
              bindS (call (sys_getcwd (replicate (unat MAX_PATH_LEN) 0) MAX_PATH_LEN)) (\<lambda>cwd.
              case cwd of
                None \<Rightarrow> retS (replicate (unat MAX_PATH_LEN) 0)
              | Some b \<Rightarrow>
                  if \<not> (b ! 0 = SLASH \<and> b ! 1 = 0) then liftS (strcat (Some b) (Some (str ''/'' @ [0]))) else retS b)
            else retS (replicate (unat MAX_PATH_LEN) 0)) (\<lambda>abs_path.
     bindS (liftS (strcat (Some abs_path) (Some path))) (\<lambda>abs_path.
     bindS (getS final_path) (\<lambda>final.
     bindS (liftS (wash_path abs_path final)) (\<lambda>final.
     updS (\<lambda>s. s\<lparr>final_path := final\<rparr>)))))))"

text \<open>\<^verbatim>\<open>getcwd(final_path, MAX_PATH_LEN)\<close>: whether it was successful.\<close>

definition getcwd_final :: "bool shm" where
  "getcwd_final =
     bindS (getS final_path) (\<lambda>final.
     bindS (call (sys_getcwd final MAX_PATH_LEN)) (\<lambda>r.
     case r of
       None \<Rightarrow> retS False
     | Some b \<Rightarrow> thenS (updS (\<lambda>s. s\<lparr>final_path := b\<rparr>)) (retS True)))"

definition buildin_pwd :: "int \<Rightarrow> unit shm" where
  "buildin_pwd argc =
     (if argc \<noteq> 1 then say ''pwd: no argument support!'' []
      else
        bindS getcwd_final (\<lambda>ok.
        if ok then bindS (getS final_path) (\<lambda>final. say ''%s'' [ArgStr final])
        else say ''pwd: get current work directory failed'' []))"

text \<open>\<open>True\<close> stands for the pointer \<^verbatim>\<open>final_path\<close>, \<open>False\<close> for \<^verbatim>\<open>NULL\<close>.\<close>

definition buildin_cd :: "int \<Rightarrow> bool shm" where
  "buildin_cd argc =
     (if argc > 2 then thenS (say ''cd: only support 1 argument!'' []) (retS False)
      else
        thenS (if argc = 1 then
                 bindS (getS final_path) (\<lambda>final.
                 bindS (liftS (write_at final 0 SLASH)) (\<lambda>final.
                 bindS (liftS (write_at final 1 0)) (\<lambda>final.
                 updS (\<lambda>s. s\<lparr>final_path := final\<rparr>))))
               else bindS (arg 1) make_clear_abs_path) (
        bindS (getS final_path) (\<lambda>final.
        bindS (call (sys_chdir final)) (\<lambda>r.
        if r = -1 then thenS (say ''cd: no such directory %s'' [ArgStr final]) (retS False)
        else retS True))))"

definition buildin_ps :: "int \<Rightarrow> unit shm" where
  "buildin_ps argc =
     (if argc \<noteq> 1 then say ''ps: no argument support!'' []
      else bindS (getS scheduler) (\<lambda>ts. call (sys_ps ts)))"

definition buildin_clear :: "int \<Rightarrow> unit shm" where
  "buildin_clear argc = (if argc \<noteq> 1 then say ''clear: no argument support!'' [] else call cls_screen)"

text \<open>The shape that \<^verbatim>\<open>mkdir\<close>, \<^verbatim>\<open>rmdir\<close> and \<^verbatim>\<open>rm\<close> share: one path, which is not the root.\<close>

definition path_command :: "string \<Rightarrow> string \<Rightarrow> (u8 list \<Rightarrow> u32 fsm) \<Rightarrow> int \<Rightarrow> u32 shm" where
  "path_command usage failed syscall argc =
     (if argc \<noteq> 2 then thenS (say usage []) (retS (-1))
      else
        bindS (arg 1) (\<lambda>p.
        thenS (make_clear_abs_path p) (
        bindS (getS final_path) (\<lambda>final.
        bindS (liftS (strncmp (Some (str ''/'' @ [0])) (Some final) 1)) (\<lambda>c.
        if c \<noteq> 0 then
          bindS (call (syscall final)) (\<lambda>r.
          if r = 0 then retS 0
          else
            bindS (liftS (deref p)) (\<lambda>p.
            thenS (say failed [ArgStr p]) (retS (-1))))
        else retS (-1))))))"

definition buildin_mkdir :: "int \<Rightarrow> u32 shm" where
  "buildin_mkdir = path_command ''mkdir: only support 1 argument!'' ''mkdir: create directory %s failed.'' sys_mkdir"

definition buildin_rmdir :: "int \<Rightarrow> u32 shm" where
  "buildin_rmdir = path_command ''rmdir: only support 1 argument!'' ''rmdir: remove %s failed.'' sys_rmdir"

definition buildin_rm :: "int \<Rightarrow> u32 shm" where
  "buildin_rm = path_command ''rm: only support 1 argument!'' ''rm: delete %s failed.'' sys_unlink"

section \<open>Listing a directory\<close>

text \<open>
  The options and the path of \<^verbatim>\<open>ls\<close>, from argument \<open>i\<close> on: \<open>None\<close> when the command returns there. A path was
  given before when \<open>pathname\<close> is not \<^verbatim>\<open>NULL\<close>.
\<close>

fun ls_options :: "nat list \<Rightarrow> bool \<Rightarrow> u8 list option \<Rightarrow> (bool \<times> u8 list option) option shm" where
  "ls_options [] long_info pathname = retS (Some (long_info, pathname))"
| "ls_options (i # is) long_info pathname =
     bindS (arg i) (\<lambda>p.
     bindS (liftS (deref p)) (\<lambda>a.
     bindS (liftS (read_at a 0)) (\<lambda>c.
     if c = 45 then
       bindS (liftS (strncmp (Some (str ''-l'' @ [0])) (Some a) 2)) (\<lambda>l.
       if l = 0 then ls_options is True pathname
       else
         bindS (liftS (strncmp (Some (str ''-h'' @ [0])) (Some a) 2)) (\<lambda>h.
         if h = 0 then thenS (say ''usage: -l list all infomation about the file. -h for help list all files in the current dirctory if no option'' []) (retS None)
         else thenS (say ''ls: invalid option %s Try `ls -h for more information.'' [ArgStr a]) (retS None)))
     else if pathname = None then ls_options is long_info (Some a)
     else thenS (say ''ls: only support one path'' []) (retS None))))"

text \<open>The entry that \<^verbatim>\<open>readdir\<close> returned is in the buffer of the open directory.\<close>

definition next_entry :: "u32 \<Rightarrow> dir_entry option fsm" where
  "next_entry dirp =
     bindS (sys_readdir dirp) (\<lambda>r.
     case r of
       None \<Rightarrow> retS None
     | Some k \<Rightarrow>
         bindS (get_dir dirp) (\<lambda>d.
         bindS (liftS (get_bytes (24 * k) 24 (dir_buf d))) (\<lambda>b.
         retS (Some (dir_entry_of b)))))"

text \<open>
  The loops over the entries. Every entry moves \<^verbatim>\<open>dir_pos\<close> on by the size of an entry, up to the size of the directory,
  which bounds the number of rounds.
\<close>

fun ls_short :: "nat \<Rightarrow> u32 \<Rightarrow> unit fsm" where
  "ls_short 0 dirp = liftS (Inl Diverges)"
| "ls_short (Suc n) dirp =
     bindS (next_entry dirp) (\<lambda>r.
     case r of
       None \<Rightarrow> k_print [CHR 0x0A] []
     | Some e \<Rightarrow> thenS (k_print ''%s '' [ArgStr (filename e)]) (ls_short n dirp))"

text \<open>\<open>True\<close> when the listing was complete, so that the directory is closed.\<close>

fun ls_long :: "nat \<Rightarrow> u32 \<Rightarrow> u8 list \<Rightarrow> nat \<Rightarrow> bool fsm" where
  "ls_long 0 dirp sub_pathname pathname_len = liftS (Inl Diverges)"
| "ls_long (Suc n) dirp sub_pathname pathname_len =
     bindS (next_entry dirp) (\<lambda>r.
     case r of
       None \<Rightarrow> retS True
     | Some e \<Rightarrow>
         bindS (liftS (write_at sub_pathname pathname_len 0)) (\<lambda>sub_pathname.
         bindS (liftS (strcat (Some sub_pathname) (Some (filename e)))) (\<lambda>sub_pathname.
         bindS (sys_stat sub_pathname) (\<lambda>st.
         case st of
           None \<Rightarrow>
             thenS (k_print ''ls: cannot access %s: No such file or directory'' [ArgStr (filename e)]) (retS False)
         | Some file_stat \<Rightarrow>
             thenS (k_print ''%c  %d  %d  %s''
                      [ArgWord (if f_type e = FT_REGULAR then 45 else 100), ArgWord (de_i_no e),
                       ArgWord (st_size file_stat), ArgStr (filename e)])
             (ls_long n dirp sub_pathname pathname_len)))))"

definition ls_dir :: "bool \<Rightarrow> u8 list \<Rightarrow> stat \<Rightarrow> unit fsm" where
  "ls_dir long_info pathname file_stat =
     bindS (sys_opendir pathname) (\<lambda>dirp.
     bindS (liftS (strlen (Some pathname))) (\<lambda>len.
     bindS (liftS (memcpy (Some (replicate 512 0)) (Some pathname) len)) (\<lambda>sub.
     bindS (liftS (read_at sub (unat (len - 1)))) (\<lambda>c.
     bindS (if c \<noteq> SLASH then
              bindS (liftS (write_at sub (unat len) SLASH)) (\<lambda>sub. retS (sub, Suc (unat len)))
            else retS (sub, unat len)) (\<lambda>(sub, len).
     thenS (sys_rewinddir dirp) (
     let rounds = Suc (unat (st_size file_stat)) in
     bindS (if long_info then
              thenS (k_print ''total: %d'' [ArgWord (st_size file_stat)])
              (ls_long rounds dirp sub len)
            else thenS (ls_short rounds dirp) (retS True)) (\<lambda>complete.
     if complete then bindS (sys_closedir dirp) (\<lambda>_. retS ()) else retS ())))))))"

definition buildin_ls :: "int \<Rightarrow> unit shm" where
  "buildin_ls argc =
     bindS (ls_options [1..<nat argc] False None) (\<lambda>r.
     case r of
       None \<Rightarrow> retS ()
     | Some (long_info, pathname) \<Rightarrow>
         bindS (if pathname = None then
                  bindS getcwd_final (\<lambda>ok.
                  if ok then retS True
                  else thenS (say ''ls: getcwd for default path failed'' []) (retS False))
                else thenS (make_clear_abs_path pathname) (retS True)) (\<lambda>ok.
         if \<not> ok then retS ()
         else
           bindS (getS final_path) (\<lambda>pathname.
           bindS (call (sys_stat pathname)) (\<lambda>st.
           case st of
             None \<Rightarrow> say ''ls: cannot access %s: No such file or directory'' [ArgStr pathname]
           | Some file_stat \<Rightarrow>
               if st_filetype file_stat = FT_DIRECTORY then call (ls_dir long_info pathname file_stat)
               else if long_info then
                 say ''-  %d  %d  %s'' [ArgWord (st_ino file_stat), ArgWord (st_size file_stat), ArgStr pathname]
               else say ''%s'' [ArgStr pathname]))))"

section \<open>The loop of the shell\<close>

text \<open>
  How a round ends: the loop goes on, or the child process of an external command replaces itself by the
  program at a path. \<open>child\<close> tells whether \<^verbatim>\<open>fork\<close> returned 0. The parent process, and the child when
  there is no such program, spin for ever.
\<close>

datatype shell_next = Next_line | Execv "u8 list" "nat option list"

definition is_command :: "string \<Rightarrow> u8 list option \<Rightarrow> bool res" where
  "is_command name a = mapE (\<lambda>c. c = 0) (strncmp (Some (str name @ [0])) a (of_nat (length name)))"

definition run_external :: "bool \<Rightarrow> shell_next shm" where
  "run_external child =
     (if \<not> child then liftS (Inl Diverges)
      else
        bindS (arg 0) (\<lambda>a.
        thenS (make_clear_abs_path a) (
        bindS (getS final_path) (\<lambda>final.
        bindS (getS sh_argv) (\<lambda>argv.
        bindS (call (sys_stat final)) (\<lambda>st.
        if st = None then
          thenS (say ''my_shell: cannot access %s: No such file or directory'' [ArgStr final])
          (liftS (Inl Diverges))
        else retS (Execv final argv)))))))"

definition cd_and_cache :: "int \<Rightarrow> unit shm" where
  "cd_and_cache argc =
     bindS (buildin_cd argc) (\<lambda>ok.
     if ok then
       bindS (getS cwd_cache) (\<lambda>cache.
       bindS (getS final_path) (\<lambda>final.
       bindS (liftS (memset (Some cache) 0 MAX_PATH_LEN)) (\<lambda>cache.
       bindS (liftS (strncpy (Some cache) (Some final) 64)) (\<lambda>cache.
       updS (\<lambda>s. s\<lparr>cwd_cache := cache\<rparr>)))))
     else retS ())"

fun dispatch :: "(string \<times> (int \<Rightarrow> unit shm)) list \<Rightarrow> int \<Rightarrow> u8 list option \<Rightarrow> bool \<Rightarrow> shell_next shm" where
  "dispatch [] argc a child = run_external child"
| "dispatch ((name, cmd) # cmds) argc a child =
     bindS (liftS (is_command name a)) (\<lambda>hit.
     if hit then thenS (cmd argc) (retS Next_line) else dispatch cmds argc a child)"

definition ignore_result :: "(int \<Rightarrow> u32 shm) \<Rightarrow> int \<Rightarrow> unit shm" where
  "ignore_result f argc = bindS (f argc) (\<lambda>_. retS ())"

definition buildin_cmds :: "(string \<times> (int \<Rightarrow> unit shm)) list" where
  "buildin_cmds =
     [(''ls'', buildin_ls), (''cd'', cd_and_cache), (''pwd'', buildin_pwd), (''ps'', buildin_ps),
      (''clear'', buildin_clear), (''mkdir'', ignore_result buildin_mkdir), (''rmdir'', ignore_result buildin_rmdir),
      (''rm'', ignore_result buildin_rm)]"

definition my_shell_round :: "bool \<Rightarrow> shell_next shm" where
  "my_shell_round child =
     bindS (getS cwd_cache) (\<lambda>cwd.
     thenS (call (print_prompt cwd)) (
     bindS (getS final_path) (\<lambda>final.
     bindS (liftS (memset (Some final) 0 MAX_PATH_LEN)) (\<lambda>final.
     bindS (getS cmd_line) (\<lambda>line.
     bindS (liftS (memset (Some line) 0 MAX_PATH_LEN)) (\<lambda>line.
     thenS (updS (\<lambda>s. s\<lparr>final_path := final, cmd_line := line\<rparr>)) (
     thenS readline (
     bindS (getS cmd_line) (\<lambda>line.
     bindS (liftS (read_at line 0)) (\<lambda>c.
     if c = 0 then retS Next_line
     else
       bindS (getS sh_argv) (\<lambda>argv.
       bindS (liftS (cmd_parse line argv 32)) (\<lambda>(argc, line, argv).
       thenS (updS (\<lambda>s. s\<lparr>cmd_line := line, sh_argv := argv, sh_argc := argc\<rparr>)) (
       if argc = -1 then thenS (say ''num of arguments exceed %d'' [ArgWord (of_nat MAX_ARG_NR)]) (retS Next_line)
       else
         bindS (arg 0) (\<lambda>a.
         bindS (dispatch buildin_cmds argc a child) (\<lambda>r.
         thenS (case r of
                  Next_line \<Rightarrow> updS (\<lambda>s. s\<lparr>sh_argv := replicate MAX_ARG_NR None\<rparr>)
                | Execv _ _ \<Rightarrow> retS ())
         (retS r))))))))))))))))"

text \<open>The first rounds of the shell, as long as it stays in its loop.\<close>

fun my_shell_rounds :: "nat \<Rightarrow> bool \<Rightarrow> shell_next shm" where
  "my_shell_rounds 0 child = retS Next_line"
| "my_shell_rounds (Suc n) child =
     bindS (my_shell_round child) (\<lambda>r. case r of Next_line \<Rightarrow> my_shell_rounds n child | Execv _ _ \<Rightarrow> retS r)"

definition my_shell :: "nat \<Rightarrow> bool \<Rightarrow> shell_next shm" where
  "my_shell n child =
     bindS (getS cwd_cache) (\<lambda>cache.
     bindS (liftS (write_at cache 0 SLASH)) (\<lambda>cache.
     thenS (updS (\<lambda>s. s\<lparr>cwd_cache := cache\<rparr>))
     (my_shell_rounds n child)))"

text \<open>
  The first user process, \<^verbatim>\<open>init\<close> of \<^verbatim>\<open>kernel/main.c\<close>: \<open>ret_pid\<close> is what \<^verbatim>\<open>fork\<close> returned and \<open>own_pid\<close> what \<^verbatim>\<open>getpid\<close> returns.
  The parent spins for ever, the child is the shell, which does not return.
\<close>

definition init_process :: "u32 \<Rightarrow> u32 \<Rightarrow> nat \<Rightarrow> bool \<Rightarrow> shell_next shm" where
  "init_process ret_pid own_pid n child =
     (if ret_pid \<noteq> 0 then
        thenS (say ''I am father process, pid: %d, child pid: %d'' [ArgWord own_pid, ArgWord ret_pid]) (liftS (Inl Diverges))
      else
        thenS (say ''I am child process, pid: %d, res: %d'' [ArgWord own_pid, ArgWord ret_pid]) (my_shell n child))"

section \<open>What a typed line is\<close>

text \<open>
  For reference: the effect of one key on the line. Backspace takes the last character away, control-u all
  of them, control-l (which draws the screen again) none; every other key adds its character.
\<close>

definition edit_key :: "u8 list \<Rightarrow> u8 \<Rightarrow> u8 list" where
  "edit_key line c = (if c = 8 then butlast line else if c = 11 then line else if c = 20 then [] else line @ [c])"

definition edited :: "u8 list \<Rightarrow> u8 list" where
  "edited ks = foldl edit_key [] ks"

lemma edit_key_no_bs: "8 \<notin> set line \<Longrightarrow> 8 \<notin> set (edit_key line c)"
  by (auto simp: edit_key_def dest: in_set_butlastD)

lemma read_key [run_simps]: "sys_read (\<lambda>_. c) 0 1 s = Inr ((1, [c]), s)"
  by (simp add: sys_read_def run_simps)

lemma put_key: "r \<noteq> [] \<Longrightarrow> put_bytes (length line) [c] (line @ r) = Inr (line @ c # tl r)"
  by (cases r) (simp_all add: put_bytes_def patch_def)

lemma run_print [run_simps]: "k_print fmt args s = Inr ((), s\<lparr>klog := (fmt, args) # klog s\<rparr>)"
  by (simp add: k_print_def run_simps)

lemmas key_simps = run_simps put_key write_at_def sys_putchar_def cls_screen_def print_prompt_def Let_def

lemma erase_line_run: "pos < length buf \<Longrightarrow> \<exists>buf' log. erase_line buf pos s = Inr (buf', s\<lparr>klog := log\<rparr>) \<and> length buf' = length buf"
proof (induction pos arbitrary: buf s)
  case 0
  show ?case by (intro exI [of _ buf] exI [of _ "klog s"]) (simp add: run_simps)
next
  case (Suc p)
  let ?s = "s\<lparr>klog := (''%c'', [ArgWord (ucast (8 :: u8))]) # klog s\<rparr>"
  from Suc obtain buf' log where "erase_line (buf[Suc p := 0]) p ?s = Inr (buf', ?s\<lparr>klog := log\<rparr>)" "length buf' = length buf"
    using Suc.IH [of "buf[Suc p := 0]" ?s] by auto
  then show ?case using Suc.prems by (intro exI [of _ buf'] exI [of _ log]) (simp add: key_simps)
qed

lemma readline_loop_key:
  assumes "r \<noteq> []" "length line < n"
  shows "readline_loop cwd (c # ks) (line @ r) (length line) n s =
    (if c = 10 \<or> c = 13 then thenS (sys_putchar 10) (retS (line @ 0 # tl r, ks)) s
     else if c = 8 then
       if (line @ 8 # tl r) ! 0 \<noteq> 8 then thenS (sys_putchar 8) (readline_loop cwd ks (line @ 8 # tl r) (length line - 1) n) s
       else readline_loop cwd ks (line @ 8 # tl r) (length line) n s
     else if c = 11 then
       thenS cls_screen (thenS (print_prompt cwd) (thenS (k_print ''%s'' [ArgStr (line @ 0 # tl r)])
         (readline_loop cwd ks (line @ 0 # tl r) (length line) n))) s
     else if c = 20 then bindS (erase_line (line @ c # tl r) (length line)) (\<lambda>buf. readline_loop cwd ks buf 0 n) s
     else thenS (sys_putchar c) (readline_loop cwd ks (line @ c # tl r) (Suc (length line)) n) s)"
  using assms by (simp add: run_simps put_key write_at_def Let_def)

declare readline_loop.simps [simp del]

lemma readline_loop_run:
  assumes "\<forall>c \<in> set ks. c \<noteq> 10 \<and> c \<noteq> 13" "e = 10 \<or> e = 13" "8 \<notin> set line" "length (line @ r) = n"
    "\<forall>i \<le> length ks. length (foldl edit_key line (take i ks)) < n"
  shows "\<exists>r' log. readline_loop cwd (ks @ e # rest) (line @ r) (length line) n s =
           Inr ((foldl edit_key line ks @ 0 # r', rest), s\<lparr>klog := log\<rparr>) \<and> length (foldl edit_key line ks @ 0 # r') = n"
  using assms(1,3,4,5)
proof (induction ks arbitrary: line r s)
  case Nil
  then have "r \<noteq> []" by auto
  then show ?case
    using assms(2) Nil.prems(3,4) readline_loop_key [of r line n cwd e rest s]
    by (intro exI [of _ "tl r"] exI [of _ "(''%c'', [ArgWord (ucast (10 :: u8))]) # klog s"])
       (simp add: sys_putchar_def run_simps)
next
  case (Cons c ks)
  have r: "r \<noteq> []" "length line < n" using Cons.prems(3) Cons.prems(4) [rule_format, of 0] by auto
  have fit: "\<forall>i \<le> length ks. length (foldl edit_key (edit_key line c) (take i ks)) < n"
    using Cons.prems(4) by (auto dest: spec [of _ "Suc _"])
  have plain: "\<forall>c \<in> set ks. c \<noteq> 10 \<and> c \<noteq> 13" "c \<noteq> 10" "c \<noteq> 13" using Cons.prems(1) by auto
  note step = readline_loop_key [OF r, of cwd c "ks @ e # rest" s] plain(2,3)
  have "\<exists>r' log. length (edit_key line c @ r') = n \<and>
      readline_loop cwd (c # ks @ e # rest) (line @ r) (length line) n s =
      readline_loop cwd (ks @ e # rest) (edit_key line c @ r') (length (edit_key line c)) n (s\<lparr>klog := log\<rparr>)"
  proof -
    consider "c = 8" "line = []" | "c = 8" "line \<noteq> []" | "c = 11" | "c = 20" | "c \<noteq> 8" "c \<noteq> 11" "c \<noteq> 20" by blast
    then show ?thesis
    proof cases
      case 1
      then show ?thesis
        using step r Cons.prems(3) by (intro exI [of _ "8 # tl r"] exI [of _ "klog s"]) (simp add: edit_key_def)
    next
      case 2
      then obtain l x where l: "line = l @ [x]" by (cases line rule: rev_cases) auto
      have "(line @ 8 # tl r) ! 0 \<noteq> 8" using 2 Cons.prems(2) by (cases line) auto
      then show ?thesis
        using 2 r Cons.prems(3) step unfolding l
        by (intro exI [of _ "x # 8 # tl r"] exI [of _ "(''%c'', [ArgWord (ucast (8 :: u8))]) # klog s"])
           (simp add: edit_key_def sys_putchar_def run_simps)
    next
      case 3
      then show ?thesis
        using step r Cons.prems(3)
        by (intro exI [of _ "0 # tl r"] exI [of _ "(''%s'', [ArgStr (line @ 0 # tl r)]) #
              (''[noahyzhang@localhost %s]$ '', [ArgStr cwd]) # ([CHR 0x0C], []) # klog s"])
           (simp add: edit_key_def cls_screen_def print_prompt_def run_simps)
    next
      case 4
      obtain buf' log where "erase_line (line @ c # tl r) (length line) s = Inr (buf', s\<lparr>klog := log\<rparr>)"
          "length buf' = length (line @ c # tl r)"
        using erase_line_run [of "length line" "line @ c # tl r" s] by auto
      then show ?thesis
        using 4 step r Cons.prems(3) by (intro exI [of _ buf'] exI [of _ log]) (simp add: edit_key_def run_simps)
    next
      case 5
      then show ?thesis
        using step r Cons.prems(3)
        by (intro exI [of _ "tl r"] exI [of _ "(''%c'', [ArgWord (ucast c)]) # klog s"])
           (simp add: edit_key_def sys_putchar_def run_simps)
    qed
  qed
  then obtain r' log where g: "length (edit_key line c @ r') = n"
      "readline_loop cwd (c # ks @ e # rest) (line @ r) (length line) n s =
       readline_loop cwd (ks @ e # rest) (edit_key line c @ r') (length (edit_key line c)) n (s\<lparr>klog := log\<rparr>)"
    by blast
  from Cons.IH [OF plain(1) edit_key_no_bs [OF Cons.prems(2)] g(1) fit, of "s\<lparr>klog := log\<rparr>"] show ?case
    unfolding append_Cons g(2) foldl_Cons by simp
qed

text \<open>A line is typed when a line end follows its keys and it never has 512 characters.\<close>

definition line_typed :: "u8 list \<Rightarrow> u8 list \<Rightarrow> shell \<Rightarrow> bool" where
  "line_typed ks rest s \<longleftrightarrow>
     (\<forall>c \<in> set ks. c \<noteq> 10 \<and> c \<noteq> 13) \<and> (\<forall>i \<le> length ks. length (edited (take i ks)) < 512) \<and>
     (keys s = ks @ 10 # rest \<or> keys s = ks @ 13 # rest)"

definition shell_ok :: "shell \<Rightarrow> bool" where
  "shell_ok s \<longleftrightarrow>
     length (cmd_line s) = 512 \<and> length (final_path s) = 512 \<and> length (cwd_cache s) = 64 \<and> length (sh_argv s) = MAX_ARG_NR"

lemma readline_run:
  assumes "line_typed ks rest s" "length (cmd_line s) = 512"
  shows "\<exists>r log. readline s = Inr ((), s\<lparr>kernel := (kernel s)\<lparr>klog := log\<rparr>, keys := rest, cmd_line := edited ks @ 0 # r\<rparr>) \<and>
           length (edited ks @ 0 # r) = 512"
proof -
  obtain e where e: "e = 10 \<or> e = 13" "keys s = ks @ e # rest" and plain: "\<forall>c \<in> set ks. c \<noteq> 10 \<and> c \<noteq> 13"
    using assms(1) by (auto simp: line_typed_def)
  obtain r log where "readline_loop (cwd_cache s) (ks @ e # rest) ([] @ cmd_line s) (length []) 512 (kernel s) =
        Inr ((edited ks @ 0 # r, rest), (kernel s)\<lparr>klog := log\<rparr>)" "length (edited ks @ 0 # r) = 512"
    using readline_loop_run [OF plain e(1), of "[]" "cmd_line s" 512 "cwd_cache s" rest "kernel s"] assms
    by (auto simp: edited_def line_typed_def)
  then show ?thesis
    using e(2) by (intro exI [of _ r] exI [of _ log]) (simp add: readline_def call_def run_simps MAX_PATH_LEN_def)
qed

section \<open>From the line to the command\<close>

lemma is_command_run:
  assumes "nul_free w" "nul_free (str name)" "length name < 2 ^ 32"
  shows "is_command name (Some (w @ 0 # r)) = Inr (str name = w)"
proof -
  have "unat (of_nat (length name) :: u32) = length (str name)" using assms(3) by (simp add: unat_of_nat32 str_def)
  then obtain c where "strncmp (Some (str name @ 0 # [])) (Some (w @ 0 # r)) (of_nat (length name)) = Inr c" "c = 0 \<longleftrightarrow> str name = w"
    using strncmp_is_eq [OF assms(2,1), of "of_nat (length name)" "[]" r] by blast
  then show ?thesis by (simp add: is_command_def)
qed

text \<open>The first word selects the command of that name, exactly.\<close>

lemma dispatch_run:
  assumes "nul_free w" "\<forall>(n, c) \<in> set cmds. nul_free (str n) \<and> length n < 2 ^ 32"
  shows "dispatch cmds argc (Some (w @ 0 # r)) child =
           (case map_of (map (\<lambda>(n, c). (str n, c)) cmds) w of
              Some c \<Rightarrow> thenS (c argc) (retS Next_line)
            | None \<Rightarrow> run_external child)"
  using assms(2)
proof (induction cmds)
  case (Cons nc cmds)
  obtain n c where nc: "nc = (n, c)" by fastforce
  then have "is_command n (Some (w @ 0 # r)) = Inr (str n = w)" using is_command_run [OF assms(1)] Cons.prems by simp
  then show ?case using Cons by (auto simp: nc bindS_def liftS_def)
qed simp

lemma arg_run:
  assumes "args_are ws b av" "k < length ws" "length ws \<le> MAX_ARG_NR" "cmd_line s = b" "sh_argv s = av"
  shows "\<exists>r. arg k s = Inr (Some (ws ! k @ 0 # r), s)"
proof -
  have "case av ! k of None \<Rightarrow> length ws \<le> k | Some off \<Rightarrow> k < length ws \<and> word_at b off (ws ! k)" "k < length av"
    using assms(1-3) by (simp_all add: args_are_def)
  then obtain off where "av ! k = Some off" "word_at b off (ws ! k)" "k < length av" using assms(2) by (auto split: option.splits)
  then show ?thesis using word_at_drop [of b off "ws ! k"] assms(4,5) by (auto simp: arg_def run_simps read_at_def)
qed

definition finish_round :: "shell_next \<Rightarrow> shell_next shm" where
  "finish_round r =
     thenS (case r of
              Next_line \<Rightarrow> updS (\<lambda>s. s\<lparr>sh_argv := replicate MAX_ARG_NR None\<rparr>)
            | Execv _ _ \<Rightarrow> retS ())
     (retS r)"

lemma round_parsed:
  assumes "shell_ok s" "line_typed ks rest s" "nul_free (edited ks)" "pieces 32 (edited ks) = ws" "ws \<noteq> []" "length ws \<le> MAX_ARG_NR"
  shows "\<exists>b av log. args_are ws b av \<and> length b = 512 \<and>
    my_shell_round child s = bindS (arg 0) (\<lambda>a. bindS (dispatch buildin_cmds (int (length ws)) a child) finish_round)
      (s\<lparr>final_path := replicate 512 0, kernel := (kernel s)\<lparr>klog := log\<rparr>, keys := rest, cmd_line := b, sh_argv := av,
         sh_argc := int (length ws)\<rparr>)"
proof -
  have len: "length (cmd_line s) = 512" "length (final_path s) = 512" "length (sh_argv s) = MAX_ARG_NR"
    using assms(1) by (simp_all add: shell_ok_def)
  define s0 where "s0 = s\<lparr>kernel := (kernel s)\<lparr>klog := (''[noahyzhang@localhost %s]$ '', [ArgStr (cwd_cache s)]) # klog (kernel s)\<rparr>,
    final_path := replicate 512 0, cmd_line := replicate 512 0\<rparr>"
  have s0: "line_typed ks rest s0" "length (cmd_line s0) = 512" using assms(2) by (simp_all add: s0_def line_typed_def)
  obtain r log where rl: "readline s0 = Inr ((), s0\<lparr>kernel := (kernel s0)\<lparr>klog := log\<rparr>, keys := rest, cmd_line := edited ks @ 0 # r\<rparr>)"
      "length (edited ks @ 0 # r) = 512"
    using readline_run [OF s0] by blast
  obtain b av where p: "cmd_parse (edited ks @ 0 # r) (sh_argv s) 32 = Inr (int (length ws), b, av)" "length b = 512" "args_are ws b av"
    using cmd_parse_run [OF assms(3) _ len(3), of 32 r] assms(4,6) rl(2) by auto
  have "edited ks \<noteq> []" using assms(4,5) by auto
  then have c: "read_at (edited ks @ 0 # r) 0 = Inr (hd (edited ks))" "hd (edited ks) \<noteq> 0"
    using assms(3) by (cases "edited ks"; simp add: read_at_def)+
  have "my_shell_round child s = bindS (arg 0) (\<lambda>a. bindS (dispatch buildin_cmds (int (length ws)) a child) finish_round)
      (s\<lparr>final_path := replicate 512 0, kernel := (kernel s)\<lparr>klog := log\<rparr>, keys := rest, cmd_line := b, sh_argv := av,
         sh_argc := int (length ws)\<rparr>)"
    using rl(1) p(1) c len unfolding my_shell_round_def finish_round_def [abs_def]
    by (simp add: run_simps call_def print_prompt_def MAX_PATH_LEN_def s0_def)
  then show ?thesis using p(2,3) by blast
qed

text \<open>The commands that take one path, with the message of a failure and the system call.\<close>

definition path_cmds :: "(string \<times> string \<times> (u8 list \<Rightarrow> u32 fsm)) list" where
  "path_cmds =
     [(''mkdir'', ''mkdir: create directory %s failed.'', sys_mkdir), (''rmdir'', ''rmdir: remove %s failed.'', sys_rmdir),
      (''rm'', ''rm: delete %s failed.'', sys_unlink)]"

lemma path_cmd_of:
  assumes "(name, failed, syscall) \<in> set path_cmds"
  shows "\<exists>usage. map_of (map (\<lambda>(n, c). (str n, c)) buildin_cmds) (str name) = Some (ignore_result (path_command usage failed syscall))"
proof -
  consider "name = ''mkdir''" "failed = ''mkdir: create directory %s failed.''" "syscall = sys_mkdir"
    | "name = ''rmdir''" "failed = ''rmdir: remove %s failed.''" "syscall = sys_rmdir"
    | "name = ''rm''" "failed = ''rm: delete %s failed.''" "syscall = sys_unlink"
    using assms unfolding path_cmds_def by auto
  then show ?thesis
    unfolding buildin_cmds_def buildin_mkdir_def buildin_rmdir_def buildin_rm_def
    by cases (intro exI, simp add: str_eq_iff; fail)+
qed

lemma buildin_names_ok: "\<forall>(n, c) \<in> set buildin_cmds. nul_free (str n) \<and> length n < 2 ^ 32"
  by (simp add: buildin_cmds_def nul_free_str)

lemma make_clear_absolute:
  assumes "nul_free p" "p \<noteq> []" "hd p = SLASH" "length p < 512" "\<forall>n \<in> set (path_names p). length n \<le> 15" "length (final_path s) = 512"
  shows "\<exists>r'. make_clear_abs_path (Some (p @ 0 # r)) s = Inr ((), s\<lparr>final_path := path_text (clean_names (path_names p)) @ 0 # r'\<rparr>) \<and>
           length (path_text (clean_names (path_names p)) @ 0 # r') = 512"
proof -
  have c: "read_at (p @ 0 # r) 0 = Inr SLASH" using assms(2,3) by (cases p) (simp_all add: read_at_def)
  have "replicate 512 (0 :: u8) = [] @ 0 # replicate 511 0" by (simp flip: replicate_Suc)
  then have cat: "strcat (Some (replicate 512 0)) (Some (p @ 0 # r)) = Inr (p @ 0 # drop (length p) (replicate 511 0))"
    using strcat_cstr [of "[]" p "replicate 511 0" r] assms(1,4) by simp
  obtain r' where "wash_path (p @ 0 # drop (length p) (replicate 511 0)) (final_path s) =
        Inr (path_text (clean_names (path_names p)) @ 0 # r')" "length (path_text (clean_names (path_names p)) @ 0 # r') = 512"
    using wash_path_run [OF assms(1-3,5), of "final_path s" "drop (length p) (replicate 511 0)"] assms(4,6) by auto
  then show ?thesis
    using c cat by (intro exI [of _ r']) (simp add: make_clear_abs_path_def run_simps MAX_PATH_LEN_def)
qed

lemma names_of_path_ok: "nul_free p \<Longrightarrow> \<forall>n \<in> set (path_names p). name_ok n"
  by (auto simp: path_names_def name_ok_def dest: pieces_of_text)

text \<open>One round on a line that names a command with one path.\<close>

lemma path_command_run:
  assumes "args_are [w, p] b av" "cmd_line s = b" "sh_argv s = av" "nul_free p" "p \<noteq> []" "hd p = SLASH" "length p < 512"
    "\<forall>n \<in> set (path_names p). length n \<le> 15" "length (final_path s) = 512"
  shows "\<exists>q r. path_command usage failed syscall 2 s =
    (if clean_names (path_names p) = [] then Inr (-1, s\<lparr>final_path := path_text [] @ 0 # r\<rparr>)
     else mapE (\<lambda>(ret, k). (if ret = 0 then 0 else -1,
                 s\<lparr>final_path := path_text (clean_names (path_names p)) @ 0 # r,
                   kernel := (if ret = 0 then k else k\<lparr>klog := (failed, [ArgStr (p @ 0 # q)]) # klog k\<rparr>)\<rparr>))
            (syscall (path_text (clean_names (path_names p)) @ 0 # r) (kernel s)))"
proof -
  obtain q where q: "arg 1 s = Inr (Some (p @ 0 # q), s)"
    using arg_run [OF assms(1) _ _ assms(2,3), of 1] by (auto simp: MAX_ARG_NR_def)
  obtain r where r: "make_clear_abs_path (Some (p @ 0 # q)) s = Inr ((), s\<lparr>final_path := path_text (clean_names (path_names p)) @ 0 # r\<rparr>)"
    using make_clear_absolute [OF assms(4-9)] by blast
  let ?ns = "clean_names (path_names p)"
  have ok: "\<forall>n \<in> set ?ns. name_ok n" using clean_names_ok names_of_path_ok [OF assms(4)] by blast
  obtain c where c: "strncmp (Some (str ''/'' @ 0 # [])) (Some (path_text ?ns @ 0 # r)) 1 = Inr c" "c = 0 \<longleftrightarrow> str ''/'' = path_text ?ns"
    by (rule strncmp_is_eq [of "str ''/''" "path_text ?ns" 1 "[]" r]) (simp_all add: str_lits ok)
  have top: "str ''/'' = path_text ?ns \<longleftrightarrow> ?ns = []"
    using ok by (cases ?ns) (auto simp: path_text_def str_lits name_ok_def)
  show ?thesis
  proof (cases "?ns = []")
    case True
    then show ?thesis
      using q r c top by (intro exI [of _ q] exI [of _ r]) (simp add: path_command_def run_simps)
  next
    case False
    then show ?thesis
      using q r c top
      by (intro exI [of _ q] exI [of _ r], cases "syscall (path_text ?ns @ 0 # r) (kernel s)")
         (auto simp: path_command_def run_simps call_def say_def)
  qed
qed

text \<open>The root is a directory that is never closed, so that changing to it always succeeds.\<close>

lemma chdir_root: "sys_chdir (SLASH # 0 # r) f = Inr (0, f\<lparr>fstate.cwd_inode_nr := 0\<rparr>)"
proof -
  obtain c where "strncmp (Some ([SLASH] @ 0 # r)) (Some (str ''/'' @ 0 # [])) 1 = Inr c" "c = 0 \<longleftrightarrow> [SLASH] = str ''/''"
    by (rule strncmp_is_eq [of "[SLASH]" "str ''/''" 1 r "[]"]) (simp_all add: str_lits)
  then have "names_root (SLASH # 0 # r) = Inr True" by (simp add: names_root_def str_lits)
  then show ?thesis
    by (simp add: sys_chdir_def search_file_def blank_record_def run_simps write_at_def dir_close_def FT_DIRECTORY_def)
qed

section \<open>Properties\<close>

text \<open>
  C15: \<^verbatim>\<open>readline\<close> leaves the edited line in \<^verbatim>\<open>cmd_line\<close>, with a zero byte behind it: the keys before the
  line end act one after the other on an empty line. It consumes them and the line end and changes nothing else but
  the screen, as long as the line never has 512 characters.
\<close>

theorem readline_edits:
  assumes "line_typed ks rest s" "length (cmd_line s) = 512"
  shows "\<exists>r log. readline s = Inr ((), s\<lparr>kernel := (kernel s)\<lparr>klog := log\<rparr>, keys := rest, cmd_line := edited ks @ 0 # r\<rparr>) \<and>
           length (edited ks @ 0 # r) = 512"
  using assms by (rule readline_run)

definition typed_shell :: "fstate \<Rightarrow> tstate \<Rightarrow> u8 list \<Rightarrow> shell" where
  "typed_shell f t ks =
     \<lparr>kernel = f, scheduler = t, keys = ks, cmd_line = replicate 512 0, final_path = replicate 512 0,
      cwd_cache = SLASH # replicate 63 0, sh_argv = replicate 16 None, sh_argc = -1\<rparr>"

lemma typed_shell_ok [simp]: "shell_ok (typed_shell f t ks)"
  by (simp add: shell_ok_def typed_shell_def MAX_ARG_NR_def)

lemma edited_shorter: "length (edited ks) \<le> length ks"
proof (induction ks rule: rev_induct)
  case (snoc c ks)
  then show ?case by (auto simp: edited_def edit_key_def)
qed (simp add: edited_def)

lemma line_typedI:
  assumes "\<forall>c \<in> set ks. c \<noteq> 10 \<and> c \<noteq> 13" "length ks < 512"
  shows "line_typed ks rest (typed_shell f t (ks @ 10 # rest))"
  using assms edited_shorter [of "take _ ks"]
  by (auto simp: line_typed_def typed_shell_def intro: le_less_trans [OF edited_shorter])

theorem readline_edits_witness:
  "\<forall>f t. \<exists>r log. readline (typed_shell f t (str ''lx'' @ [8] @ str ''s'' @ [10])) =
     Inr ((), (typed_shell f t [])\<lparr>kernel := f\<lparr>klog := log\<rparr>, cmd_line := str ''ls'' @ 0 # r\<rparr>)"
proof (intro allI)
  fix f t
  let ?ks = "str ''lx'' @ [8] @ str ''s''"
  have "edited ?ks = str ''ls''" "\<forall>c \<in> set ?ks. c \<noteq> 10 \<and> c \<noteq> 13" "length ?ks < 512"
    by (simp_all add: edited_def edit_key_def str_def of_char_def)
  then show "\<exists>r log. readline (typed_shell f t (str ''lx'' @ [8] @ str ''s'' @ [10])) =
      Inr ((), (typed_shell f t [])\<lparr>kernel := f\<lparr>klog := log\<rparr>, cmd_line := str ''ls'' @ 0 # r\<rparr>)"
    using readline_edits [OF line_typedI [of ?ks "[]" f t]] by (auto simp: typed_shell_def)
qed

text \<open>
  C12: a line with the word \<^verbatim>\<open>mkdir\<close>, \<^verbatim>\<open>rmdir\<close> or \<^verbatim>\<open>rm\<close> and an absolute path makes the shell call \<^verbatim>\<open>sys_mkdir\<close>,
  \<^verbatim>\<open>sys_rmdir\<close> or \<^verbatim>\<open>sys_unlink\<close> once, on the clean form of the path, and print a message when the call fails. For the root
  there is no call. The kernel before the call differs from the one before the line only in what was printed.
\<close>

theorem shell_runs_path_command:
  assumes "shell_ok s" "line_typed ks rest s" "nul_free (edited ks)" "pieces 32 (edited ks) = [str name, p]"
    "(name, failed, syscall) \<in> set path_cmds" "hd p = SLASH" "\<forall>n \<in> set (path_names p). length n \<le> 15"
  shows "\<exists>q r b log. my_shell_round child s =
    (let k0 = (kernel s)\<lparr>klog := log\<rparr>; ns = clean_names (path_names p);
         done = (\<lambda>k. (Next_line, s\<lparr>final_path := path_text ns @ 0 # r, kernel := k, keys := rest, cmd_line := b,
                                   sh_argv := replicate MAX_ARG_NR None, sh_argc := 2\<rparr>))
     in if ns = [] then Inr (done k0)
        else mapE (\<lambda>(ret, k). done (if ret = 0 then k else k\<lparr>klog := (failed, [ArgStr (p @ 0 # q)]) # klog k\<rparr>))
               (syscall (path_text ns @ 0 # r) k0))"
proof -
  have ws: "[str name, p] \<noteq> []" "length [str name, p] \<le> MAX_ARG_NR" by (simp_all add: MAX_ARG_NR_def)
  obtain b av log where r: "args_are [str name, p] b av" "length b = 512" and
    round: "my_shell_round child s = bindS (arg 0) (\<lambda>a. bindS (dispatch buildin_cmds (int (length [str name, p])) a child) finish_round)
      (s\<lparr>final_path := replicate 512 0, kernel := (kernel s)\<lparr>klog := log\<rparr>, keys := rest, cmd_line := b, sh_argv := av,
         sh_argc := int (length [str name, p])\<rparr>)"
    using round_parsed [OF assms(1-4) ws, of child] by blast
  define s1 where "s1 = s\<lparr>final_path := replicate 512 0, kernel := (kernel s)\<lparr>klog := log\<rparr>, keys := rest, cmd_line := b, sh_argv := av,
         sh_argc := 2\<rparr>"
  have in_s1: "cmd_line s1 = b" "sh_argv s1 = av" "length (final_path s1) = 512" by (simp_all add: s1_def)
  obtain q0 where a0: "arg 0 s1 = Inr (Some (str name @ 0 # q0), s1)"
    using arg_run [OF r(1) _ ws(2) in_s1(1,2), of 0] by auto
  obtain usage where cmd: "map_of (map (\<lambda>(n, c). (str n, c)) buildin_cmds) (str name) = Some (ignore_result (path_command usage failed syscall))"
    using path_cmd_of [OF assms(5)] by blast
  have p: "nul_free p" "p \<noteq> []" "length p < 512" "nul_free (str name)"
    using pieces_of_text [of _ 32 "edited ks"] assms(2-4) by (fastforce simp: line_typed_def)+
  obtain q r' where run: "path_command usage failed syscall 2 s1 =
    (if clean_names (path_names p) = [] then Inr (-1, s1\<lparr>final_path := path_text [] @ 0 # r'\<rparr>)
     else mapE (\<lambda>(ret, k). (if ret = 0 then 0 else -1,
                 s1\<lparr>final_path := path_text (clean_names (path_names p)) @ 0 # r',
                   kernel := (if ret = 0 then k else k\<lparr>klog := (failed, [ArgStr (p @ 0 # q)]) # klog k\<rparr>)\<rparr>))
            (syscall (path_text (clean_names (path_names p)) @ 0 # r') (kernel s1)))"
    using path_command_run [OF r(1) in_s1(1,2) p(1,2) assms(6) p(3) assms(7) in_s1(3)] by blast
  have "my_shell_round child s = bindE (path_command usage failed syscall 2 s1)
      (\<lambda>(x, s). Inr (Next_line, s\<lparr>sh_argv := replicate MAX_ARG_NR None\<rparr>))"
    using a0 dispatch_run [OF p(4) buildin_names_ok, of 2 q0 child] cmd unfolding round
    by (cases "path_command usage failed syscall 2 s1")
       (simp_all add: s1_def [symmetric] run_simps ignore_result_def finish_round_def split: prod.split)
  then show ?thesis
    unfolding run
    by (intro exI [of _ q] exI [of _ r'] exI [of _ b] exI [of _ log],
        cases "syscall (path_text (clean_names (path_names p)) @ 0 # r') (kernel s1)")
       (auto simp: s1_def Let_def)
qed

theorem shell_runs_path_command_witness:
  "\<forall>f t. \<exists>q r b log. my_shell_round True (typed_shell f t (str ''mkdir /a/../b'' @ [10])) =
     mapE (\<lambda>(ret, k). (Next_line, (typed_shell f t [])
             \<lparr>final_path := str ''/b'' @ 0 # r,
              kernel := (if ret = 0 then k
                         else k\<lparr>klog := (''mkdir: create directory %s failed.'', [ArgStr (str ''/a/../b'' @ 0 # q)]) # klog k\<rparr>),
              keys := [], cmd_line := b, sh_argv := replicate MAX_ARG_NR None, sh_argc := 2\<rparr>))
       (sys_mkdir (str ''/b'' @ 0 # r) (f\<lparr>klog := log\<rparr>))"
proof (intro allI)
  fix f t
  let ?ks = "str ''mkdir /a/../b''" and ?p = "str ''/a/../b''"
  have keys: "edited ?ks = ?ks" "\<forall>c \<in> set ?ks. c \<noteq> 10 \<and> c \<noteq> 13" "length ?ks < 512" "nul_free ?ks"
    by (simp_all add: edited_def edit_key_def str_def of_char_def)
  have words: "pieces 32 ?ks = [str ''mkdir'', ?p]" by (simp add: pieces_def str_def of_char_def)
  have names: "path_names ?p = [str ''a'', str ''..'', str ''b'']"
    by (simp add: path_names_def pieces_def str_def SLASH_def of_char_def)
  have clean: "clean_names [str ''a'', str ''..'', str ''b''] = [str ''b'']" "path_text [str ''b''] = str ''/b''"
    by (simp_all add: path_text_def clean_names_def clean_name_def str_def SLASH_def of_char_def)
  have cmd: "(''mkdir'', ''mkdir: create directory %s failed.'', sys_mkdir) \<in> set path_cmds" by (simp add: path_cmds_def)
  note typed = line_typedI [OF keys(2,3), of "[]" f t]
  have slash: "hd ?p = SLASH" by (simp add: str_def of_char_def SLASH_def)
  have short: "\<forall>n \<in> set (path_names ?p). length n \<le> 15" unfolding names by (simp add: str_def)
  show "\<exists>q r b log. my_shell_round True (typed_shell f t (str ''mkdir /a/../b'' @ [10])) =
     mapE (\<lambda>(ret, k). (Next_line, (typed_shell f t [])
             \<lparr>final_path := str ''/b'' @ 0 # r,
              kernel := (if ret = 0 then k
                         else k\<lparr>klog := (''mkdir: create directory %s failed.'', [ArgStr (str ''/a/../b'' @ 0 # q)]) # klog k\<rparr>),
              keys := [], cmd_line := b, sh_argv := replicate MAX_ARG_NR None, sh_argc := 2\<rparr>))
       (sys_mkdir (str ''/b'' @ 0 # r) (f\<lparr>klog := log\<rparr>))"
    using shell_runs_path_command [OF typed_shell_ok typed, unfolded keys(1), OF keys(4) words cmd slash short, of True]
    unfolding names clean Let_def by (simp add: typed_shell_def)
qed

text \<open>
  C38: the line \<^verbatim>\<open>cd\<close> makes the shell write outside \<^verbatim>\<open>cwd_cache\<close>: after every successful change of the directory it clears
  512 bytes of an array of 64.
\<close>

theorem shell_cd_overruns:
  assumes "shell_ok s" "line_typed ks rest s" "nul_free (edited ks)" "pieces 32 (edited ks) = [str ''cd'']"
  shows "my_shell_round child s = Inl OutOfBounds"
proof -
  have ws: "[str ''cd''] \<noteq> []" "length [str ''cd''] \<le> MAX_ARG_NR" by (simp_all add: MAX_ARG_NR_def)
  obtain b av log where r: "args_are [str ''cd''] b av" "length b = 512" and
    round: "my_shell_round child s = bindS (arg 0) (\<lambda>a. bindS (dispatch buildin_cmds (int (length [str ''cd''])) a child) finish_round)
      (s\<lparr>final_path := replicate 512 0, kernel := (kernel s)\<lparr>klog := log\<rparr>, keys := rest, cmd_line := b, sh_argv := av,
         sh_argc := int (length [str ''cd''])\<rparr>)"
    using round_parsed [OF assms ws, of child] by blast
  define s1 where "s1 = s\<lparr>final_path := replicate 512 0, kernel := (kernel s)\<lparr>klog := log\<rparr>, keys := rest, cmd_line := b, sh_argv := av,
         sh_argc := 1\<rparr>"
  obtain q0 where a0: "arg 0 s1 = Inr (Some (str ''cd'' @ 0 # q0), s1)"
    using arg_run [OF r(1) _ ws(2), of 0 s1] by (auto simp: s1_def)
  have cmd: "map_of (map (\<lambda>(n, c). (str n, c)) buildin_cmds) (str ''cd'') = Some cd_and_cache"
    by (simp add: buildin_cmds_def str_eq_iff)
  have "replicate 512 (0 :: u8) = 0 # 0 # replicate 510 0" by (simp flip: replicate_Suc)
  then have final: "final_path s1 = 0 # 0 # replicate 510 0" by (simp add: s1_def)
  have "length (cwd_cache s1) = 64" using assms(1) by (simp add: s1_def shell_ok_def)
  then have "memset (Some (cwd_cache s1)) 0 MAX_PATH_LEN = Inl OutOfBounds"
    by (simp add: memset_def memset_loop_overrun MAX_PATH_LEN_def)
  then have "cd_and_cache 1 s1 = Inl OutOfBounds"
    using final by (simp add: cd_and_cache_def buildin_cd_def run_simps write_at_def call_def chdir_root)
  then show ?thesis
    using a0 dispatch_run [OF _ buildin_names_ok, of "str ''cd''" 1 q0 child] cmd unfolding round
    by (simp add: s1_def [symmetric] run_simps nul_free_str)
qed

theorem shell_cd_overruns_witness:
  "\<forall>f t. my_shell_round True (typed_shell f t (str ''cd'' @ [10])) = Inl OutOfBounds"
proof (intro allI)
  fix f t
  have keys: "edited (str ''cd'') = str ''cd''" "\<forall>c \<in> set (str ''cd''). c \<noteq> 10 \<and> c \<noteq> 13" "length (str ''cd'') < 512"
      "nul_free (str ''cd'')" "pieces 32 (str ''cd'') = [str ''cd'']"
    by (simp_all add: edited_def edit_key_def str_def of_char_def pieces_def)
  show "my_shell_round True (typed_shell f t (str ''cd'' @ [10])) = Inl OutOfBounds"
    using shell_cd_overruns [OF typed_shell_ok line_typedI [OF keys(2,3)], unfolded keys(1), OF keys(4,5)] .
qed

end
