(* ===== verification/Ide_Scan.thy ===== *)
theory Ide_Scan
  imports Ide Kernel_List
begin

text \<open>
  The start of the disk driver, the end of \<^verbatim>\<open>device/ide.c\<close>: setting up the channels, asking a disk for its
  parameters, and finding the partitions of a disk by walking through the partition tables. A \<^verbatim>\<open>struct disk\<close> is
  the number of its channel and its own number; \<^verbatim>\<open>partition_list\<close> is the sequence of the partitions in it, as
  they were appended (the list operations are those of \<^verbatim>\<open>list.c\<close>). Of the heap only the number of blocks of 512 bytes that
  are left is kept.
\<close>

section \<open>State\<close>

record part =
  pt_start :: u32
  pt_cnt :: u32
  pt_name :: "u8 list"

record disk =
  hd_name :: "u8 list"
  hd_dev_no :: u8
  prim_parts :: "part list"
  logic_parts :: "part list"

datatype part_ref = Prim nat nat nat | Logic nat nat nat

record ide_state =
  channels :: "ide_channel list"
  devices :: "nat \<Rightarrow> nat \<Rightarrow> disk"
  ext_lba_base :: u32
  p_no :: u8
  l_no :: u8
  partition_list :: "part_ref list"
  spare_blocks :: nat
  irq_handlers :: "u8 list"
  ide_log :: "(string \<times> fmt_arg list) list"

definition ide_print :: "string \<Rightarrow> fmt_arg list \<Rightarrow> ide_state \<Rightarrow> ide_state" where
  "ide_print fmt args s = s\<lparr>ide_log := (fmt, args) # ide_log s\<rparr>"

definition upd_disk :: "nat \<Rightarrow> nat \<Rightarrow> (disk \<Rightarrow> disk) \<Rightarrow> ide_state \<Rightarrow> ide_state" where
  "upd_disk c d f s = s\<lparr>devices := (devices s)(c := (devices s c)(d := f (devices s c d)))\<rparr>"

section \<open>Parameters of a disk\<close>

text \<open>\<^verbatim>\<open>idx\<close> is a \<^verbatim>\<open>uint8_t\<close>; the callers pass lengths of 20 and 40.\<close>

function swap_loop :: "u8 list \<Rightarrow> u8 list \<Rightarrow> nat \<Rightarrow> nat \<Rightarrow> u8 list res" where
  "swap_loop dst buf idx len =
     (if idx < len then
        bindE (read_at dst idx) (\<lambda>a.
        bindE (write_at buf (idx + 1) a) (\<lambda>buf.
        bindE (read_at dst (idx + 1)) (\<lambda>b.
        bindE (write_at buf idx b) (\<lambda>buf.
        swap_loop dst buf (idx + 2) len))))
      else write_at buf idx 0)"
  by pat_completeness auto
termination by (relation "measure (\<lambda>(d, b, i, n). n - i)") auto

definition swap_pairs_bytes :: "u8 list \<Rightarrow> u8 list \<Rightarrow> nat \<Rightarrow> u8 list res" where
  "swap_pairs_bytes dst buf len = swap_loop dst buf 0 len"

declare swap_loop.simps [simp del]

text \<open>\<open>junk\<close> is what the array for the texts holds before it is written.\<close>

definition identify_disk :: "nat \<Rightarrow> nat \<Rightarrow> u8 list \<Rightarrow> ide_state \<Rightarrow> ide_state res" where
  "identify_disk c d junk s =
     bindE (read_at (channels s) c) (\<lambda>ch.
     let hd = devices s c d; ch = cmd_out CMD_IDENTIFY (select_disk (hd_dev_no hd) ch) in
     bindE (wait_disk ch) (\<lambda>ch.
     let (ready, ch) = busy_wait ch in
     bindE (ASSERT ready) (\<lambda>_.
     bindE (read_from_sector 1 ch) (\<lambda>id_info.
     let s = s\<lparr>channels := (channels s)[c := ch]\<rparr> in
     bindE (swap_pairs_bytes (drop 20 id_info) junk 20) (\<lambda>sn.
     let s = ide_print ''   disk %s info: SN: %s'' [ArgStr (hd_name hd), ArgStr sn] s in
     bindE (memset (Some sn) 0 64) (\<lambda>buf.
     bindE (swap_pairs_bytes (drop 54 id_info) buf 40) (\<lambda>md.
     let sectors = get32 (sub_buf 120 4 id_info);
         s = ide_print ''      MODULE: %s'' [ArgStr md] s;
         s = ide_print ''      SECTORS: %d'' [ArgWord sectors] s
     in Inr (ide_print ''      CAPACITY: %dMB'' [ArgWord (sectors * 512 div 1024 div 1024)] s))))))))"

section \<open>Partition tables\<close>

record partition_table_entry =
  fs_type :: u8
  te_start :: u32
  te_cnt :: u32

definition partition_table :: "u8 list \<Rightarrow> nat \<Rightarrow> partition_table_entry" where
  "partition_table bs k =
     (let e = sub_buf (446 + 16 * k) 16 bs
      in \<lparr>fs_type = e ! 4, te_start = get32 (sub_buf 8 4 e), te_cnt = get32 (sub_buf 12 4 e)\<rparr>)"

text \<open>\<^verbatim>\<open>sys_malloc\<close> of a sector, which is not checked, and the transfer into it.\<close>

definition read_boot :: "nat \<Rightarrow> nat \<Rightarrow> u32 \<Rightarrow> ide_state \<Rightarrow> (u8 list \<times> ide_state) res" where
  "read_boot c d ext_lba s =
     (if spare_blocks s = 0 then Inl OutOfBounds
      else
        bindE (read_at (channels s) c) (\<lambda>ch.
        bindE (ide_read (hd_dev_no (devices s c d)) ext_lba 1 ch) (\<lambda>(bs, ch).
        Inr (bs, s\<lparr>spare_blocks := spare_blocks s - 1, channels := (channels s)[c := ch]\<rparr>))))"

definition part_of :: "u8 list \<Rightarrow> part \<Rightarrow> u32 \<Rightarrow> partition_table_entry \<Rightarrow> u32 \<Rightarrow> part res" where
  "part_of dname old ext_lba e n =
     bindE (snprintf (pt_name old) 7 (str ''%s%d'' @ [0]) [ArgStr dname, ArgWord n]) (\<lambda>(_, name).
     Inr \<lparr>pt_start = ext_lba + te_start e, pt_cnt = te_cnt e, pt_name = name\<rparr>)"

definition add_prim :: "nat \<Rightarrow> nat \<Rightarrow> u32 \<Rightarrow> partition_table_entry \<Rightarrow> ide_state \<Rightarrow> ide_state res" where
  "add_prim c d ext_lba e s =
     (let hd = devices s c d; i = unat (p_no s) in
      bindE (read_at (prim_parts hd) i) (\<lambda>old.
      bindE (part_of (hd_name hd) old ext_lba e (ucast (p_no s) + 1)) (\<lambda>new.
      let s = (upd_disk c d (\<lambda>hd. hd\<lparr>prim_parts := (prim_parts hd)[i := new]\<rparr>) s)
                \<lparr>partition_list := partition_list s @ [Prim c d i], p_no := p_no s + 1\<rparr>
      in bindE (ASSERT (p_no s < 4)) (\<lambda>_. Inr s))))"

definition add_logic :: "nat \<Rightarrow> nat \<Rightarrow> u32 \<Rightarrow> partition_table_entry \<Rightarrow> ide_state \<Rightarrow> ide_state res" where
  "add_logic c d ext_lba e s =
     (let hd = devices s c d; i = unat (l_no s) in
      bindE (read_at (logic_parts hd) i) (\<lambda>old.
      bindE (part_of (hd_name hd) old ext_lba e (ucast (l_no s) + 5)) (\<lambda>new.
      Inr ((upd_disk c d (\<lambda>hd. hd\<lparr>logic_parts := (logic_parts hd)[i := new]\<rparr>) s)
             \<lparr>partition_list := partition_list s @ [Logic c d i], l_no := l_no s + 1\<rparr>))))"

text \<open>Where the table of an extended partition is; the first one is the base of the others.\<close>

definition enter_ext :: "partition_table_entry \<Rightarrow> ide_state \<Rightarrow> u32 \<times> ide_state" where
  "enter_ext e s =
     (if ext_lba_base s \<noteq> 0 then (te_start e + ext_lba_base s, s)
      else (te_start e, s\<lparr>ext_lba_base := te_start e\<rparr>))"

text \<open>
  The loop of \<^verbatim>\<open>partition_scan\<close>, from entry \<open>k\<close> of the table on. An extended partition is scanned by a call of its own, which may
  never return when the tables point to each other in a circle. With eight logical partitions the function returns without
  freeing its sector.
\<close>

partial_function (option) scan_entries :: "nat \<Rightarrow> nat \<Rightarrow> u32 \<Rightarrow> u8 list \<Rightarrow> nat \<Rightarrow> ide_state \<Rightarrow> ide_state res option" where
  "scan_entries c d ext_lba bs k s =
     (if 4 \<le> k then Some (Inr (s\<lparr>spare_blocks := Suc (spare_blocks s)\<rparr>))
      else if fs_type (partition_table bs k) = 5 then
        (case read_boot c d (fst (enter_ext (partition_table bs k) s)) (snd (enter_ext (partition_table bs k) s)) of
           Inl err \<Rightarrow> Some (Inl err)
         | Inr (bs', s') \<Rightarrow>
             Option.bind (scan_entries c d (fst (enter_ext (partition_table bs k) s)) bs' 0 s') (\<lambda>r.
             case r of Inl err \<Rightarrow> Some (Inl err) | Inr s \<Rightarrow> scan_entries c d ext_lba bs (Suc k) s))
      else if fs_type (partition_table bs k) \<noteq> 0 then
        if ext_lba = 0 then
          (case add_prim c d ext_lba (partition_table bs k) s of
             Inl err \<Rightarrow> Some (Inl err)
           | Inr s \<Rightarrow> scan_entries c d ext_lba bs (Suc k) s)
        else
          (case add_logic c d ext_lba (partition_table bs k) s of
             Inl err \<Rightarrow> Some (Inl err)
           | Inr s \<Rightarrow> if l_no s \<ge> 8 then Some (Inr s) else scan_entries c d ext_lba bs (Suc k) s)
      else scan_entries c d ext_lba bs (Suc k) s)"

definition partition_scan :: "nat \<Rightarrow> nat \<Rightarrow> u32 \<Rightarrow> ide_state \<Rightarrow> ide_state res" where
  "partition_scan c d ext_lba s =
     bindE (read_boot c d ext_lba s) (\<lambda>(bs, s). run_loop (scan_entries c d ext_lba bs 0 s))"

definition the_part :: "part_ref \<Rightarrow> ide_state \<Rightarrow> part res" where
  "the_part r s = (case r of Prim c d i \<Rightarrow> read_at (prim_parts (devices s c d)) i | Logic c d i \<Rightarrow> read_at (logic_parts (devices s c d)) i)"

fun partition_info :: "part_ref list \<Rightarrow> ide_state \<Rightarrow> ide_state res" where
  "partition_info [] s = Inr s"
| "partition_info (r # rs) s =
     bindE (the_part r s) (\<lambda>p.
     partition_info rs (ide_print ''   %s start_lba:0x%x, sec_cnt:0x%x''
       [ArgStr (pt_name p), ArgWord (pt_start p), ArgWord (pt_cnt p)] s))"

section \<open>Start of the driver\<close>

definition init_channel :: "nat \<Rightarrow> ide_channel \<Rightarrow> ide_channel res" where
  "init_channel channel_no ch =
     bindE (strlen (Some (ch_name ch))) (\<lambda>len.
     bindE (snprintf (ch_name ch) len (str ''ide%d'' @ [0]) [ArgWord (of_nat channel_no)]) (\<lambda>(_, name).
     let ch = ch\<lparr>ch_name := name\<rparr>;
         ch = (if channel_no = 0 then ch\<lparr>port_base := 0x1f0, irq_no := 0x20 + 14\<rparr>
               else if channel_no = 1 then ch\<lparr>port_base := 0x170, irq_no := 0x20 + 15\<rparr> else ch)
     in Inr (ch\<lparr>expecting_intr := False, lock_held := False, disk_done := 0\<rparr>)))"

definition init_device :: "u8 list \<Rightarrow> nat \<Rightarrow> nat \<Rightarrow> ide_state \<Rightarrow> ide_state res" where
  "init_device junk c d s =
     bindE (snprintf (hd_name (devices s c d)) 7 (str ''sd%c'' @ [0]) [ArgWord (97 + of_nat c * 2 + of_nat d)]) (\<lambda>(_, name).
     let s = upd_disk c d (\<lambda>hd. hd\<lparr>hd_dev_no := of_nat d, hd_name := name\<rparr>) s in
     bindE (identify_disk c d junk s) (\<lambda>s.
     bindE (if d \<noteq> 0 then partition_scan c d 0 s else Inr s) (\<lambda>s.
     Inr (s\<lparr>p_no := 0, l_no := 0\<rparr>))))"

fun init_channels :: "u8 list \<Rightarrow> nat list \<Rightarrow> ide_state \<Rightarrow> ide_state res" where
  "init_channels junk [] s = Inr s"
| "init_channels junk (c # cs) s =
     bindE (read_at (channels s) c) (\<lambda>ch.
     bindE (init_channel c ch) (\<lambda>ch.
     let s = s\<lparr>channels := (channels s)[c := ch], irq_handlers := irq_no ch # irq_handlers s\<rparr> in
     bindE (init_device junk c 0 s) (\<lambda>s.
     bindE (init_device junk c 1 s) (\<lambda>s.
     init_channels junk cs s))))"

text \<open>\<open>hd_cnt\<close> is the number of disks that the BIOS left at address 0x475.\<close>

definition ide_init :: "u8 \<Rightarrow> u8 list \<Rightarrow> ide_state \<Rightarrow> ide_state res" where
  "ide_init hd_cnt junk s =
     (let s = ide_print ''    ide_init hd_cnt: %d'' [ArgWord (ucast hd_cnt)] (ide_print ''ide_init start'' [] s) in
      bindE (ASSERT (hd_cnt > 0)) (\<lambda>_.
      let channel_cnt = ucast (DIV_ROUND_UP (ucast hd_cnt) 2) :: u8 in
      bindE (init_channels junk [0..<unat channel_cnt] (s\<lparr>partition_list := []\<rparr>)) (\<lambda>s.
      bindE (partition_info (partition_list s) (ide_print ''  all partition info'' [] s)) (\<lambda>s.
      Inr (ide_print ''ide_init done'' [] s)))))"

section \<open>Names\<close>

lemma itoa_small: "n \<le> 12 \<Longrightarrow> \<exists>ds. itoa (of_nat n) 10 = Inr ds \<and> nul_free ds \<and> length ds \<le> 2 \<and> \<not> (of_nat n :: u32) <s 0"
proof -
  assume "n \<le> 12"
  then have "n \<in> {0, 1, 2, 3, 4, 5, 6, 7, 8, 9, 10, 11, 12}"
    by (simp, presburger)
  then show ?thesis
    by (elim insertE emptyE; simp add: itoa.simps [of 0] itoa.simps [of 1] itoa.simps [of "numeral _"] digit_char_def word_sless_alt)
qed

lemma part_of_ok:
  assumes "dname = nm @ 0 # r" "nul_free nm" "length nm \<le> 5" "pt_name old = replicate 8 0" "n \<le> 12"
  shows "\<exists>name. part_of dname old ext_lba e (of_nat n) = Inr \<lparr>pt_start = ext_lba + te_start e, pt_cnt = te_cnt e, pt_name = name\<rparr>"
proof -
  obtain ds where ds: "itoa (of_nat n) 10 = Inr ds" "nul_free ds" "length ds \<le> 2" "\<not> (of_nat n :: u32) <s 0" using itoa_small [OF assms(5)] by blast
  have "vsprintf_loop (str ''%s%d'' @ [0]) [ArgStr dname, ArgWord (of_nat n)] = Inr (nm @ ds)"
    using assms(1,2) ds(1,4) by (simp add: str_def asc_def of_char_def)
  then show ?thesis
    using vsprintf_zero_buffer [of "str ''%s%d'' @ [0]" _ "nm @ ds" 8] assms(2-4) ds(2,3) by (simp add: part_of_def snprintf_def)
qed


section \<open>What a scan finds\<close>

text \<open>The partitions of a disk that were found so far, as pairs of first sector and number of sectors.\<close>

definition extent :: "part \<Rightarrow> u32 \<times> u32" where
  "extent p = (pt_start p, pt_cnt p)"

definition prim_found :: "nat \<Rightarrow> nat \<Rightarrow> ide_state \<Rightarrow> (u32 \<times> u32) list" where
  "prim_found c d s = map extent (take (unat (p_no s)) (prim_parts (devices s c d)))"

definition logic_found :: "nat \<Rightarrow> nat \<Rightarrow> ide_state \<Rightarrow> (u32 \<times> u32) list" where
  "logic_found c d s = map extent (take (unat (l_no s)) (logic_parts (devices s c d)))"

text \<open>The driver in the middle of a scan: the channel works, and the entries that are not used yet are blank.\<close>

definition scan_ok :: "nat \<Rightarrow> nat \<Rightarrow> (u32 \<Rightarrow> u8 list) \<Rightarrow> ide_state \<Rightarrow> bool" where
  "scan_ok c d dk s \<longleftrightarrow>
     c < length (channels s) \<and> channel_ready (channels s ! c) \<and> \<not> lock_held (channels s ! c) \<and>
     media (channels s ! c) (hd_dev_no (devices s c d) = 1) = dk \<and>
     (\<exists>nm r. hd_name (devices s c d) = nm @ 0 # r \<and> nul_free nm \<and> length nm \<le> 5) \<and>
     length (prim_parts (devices s c d)) = 4 \<and> length (logic_parts (devices s c d)) = 8 \<and>
     (\<forall>j < 4. unat (p_no s) \<le> j \<longrightarrow> pt_name (prim_parts (devices s c d) ! j) = replicate 8 0) \<and>
     (\<forall>j < 8. unat (l_no s) \<le> j \<longrightarrow> pt_name (logic_parts (devices s c d) ! j) = replicate 8 0)"

lemma read_boot_ok:
  assumes "scan_ok c d dk s" "spare_blocks s \<noteq> 0" "lba \<le> max_lba"
  obtains s' where "read_boot c d lba s = Inr (dk lba, s')" "scan_ok c d dk s'" "spare_blocks s' = spare_blocks s - 1"
    "p_no s' = p_no s" "l_no s' = l_no s" "ext_lba_base s' = ext_lba_base s" "partition_list s' = partition_list s"
    "devices s' = devices s"
proof -
  let ?dev = "hd_dev_no (devices s c d)"
  have ok: "c < length (channels s)" "channel_ready (channels s ! c)" "\<not> lock_held (channels s ! c)" "media (channels s ! c) (?dev = 1) = dk"
    using assms(1) by (simp_all add: scan_ok_def)
  have "disk_read lba 1 (media (channels s ! c) (?dev = 1)) = Inr (dk lba)"
    using assms(3) ok(4) by (simp add: disk_read_def in_range_def sectors_at_def word_le_nat_alt)
  with ide_read_disk [OF ok(2,3), where lba = lba and n = 1 and dev = ?dev] obtain ch where ch: "ide_read ?dev lba 1 (channels s ! c) = Inr (dk lba, ch)"
      "media ch = media (channels s ! c)" "channel_ready ch" "\<not> lock_held ch" by auto
  then have "read_boot c d lba s = Inr (dk lba, s\<lparr>spare_blocks := spare_blocks s - 1, channels := (channels s)[c := ch]\<rparr>)"
    using assms(2) ok(1) by (simp add: read_boot_def read_at_def)
  then show thesis using that assms(1) ch ok(1) by (simp add: scan_ok_def)
qed

lemma take_update_snoc: "i < length xs \<Longrightarrow> take (Suc i) (xs[i := x]) = take i xs @ [x]"
  by (simp add: take_Suc_conv_app_nth)

lemma unat_suc8: "unat (n :: u8) < 255 \<Longrightarrow> unat (n + 1) = Suc (unat n)"
  by (simp add: unat_word_ariths)

lemma add_logic_ok:
  assumes "scan_ok c d dk s" "unat (l_no s) < 8"
  obtains s' where "add_logic c d lba e s = Inr s'" "scan_ok c d dk s'" "unat (l_no s') = Suc (unat (l_no s))" "p_no s' = p_no s"
    "ext_lba_base s' = ext_lba_base s" "spare_blocks s' = spare_blocks s"
    "partition_list s' = partition_list s @ [Logic c d (unat (l_no s))]" "prim_found c d s' = prim_found c d s"
    "logic_found c d s' = logic_found c d s @ [(lba + te_start e, te_cnt e)]"
proof -
  let ?hd = "devices s c d" and ?i = "unat (l_no s)"
  obtain nm r where nm: "hd_name ?hd = nm @ 0 # r" "nul_free nm" "length nm \<le> 5"
    using assms(1) unfolding scan_ok_def by blast
  have len: "length (logic_parts ?hd) = 8" and blank: "pt_name (logic_parts ?hd ! ?i) = replicate 8 0"
    using assms by (simp_all add: scan_ok_def)
  have n: "of_nat (?i + 5) = (ucast (l_no s) :: u32) + 5" and le: "?i + 5 \<le> 12" using assms(2) by simp_all
  obtain name where name: "part_of (hd_name ?hd) (logic_parts ?hd ! ?i) lba e (ucast (l_no s) + 5) =
      Inr \<lparr>pt_start = lba + te_start e, pt_cnt = te_cnt e, pt_name = name\<rparr>"
    using part_of_ok [OF nm blank le, of lba e] unfolding n by blast
  let ?new = "\<lparr>pt_start = lba + te_start e, pt_cnt = te_cnt e, pt_name = name\<rparr>"
  let ?s = "(upd_disk c d (\<lambda>hd. hd\<lparr>logic_parts := (logic_parts hd)[?i := ?new]\<rparr>) s)
     \<lparr>partition_list := partition_list s @ [Logic c d ?i], l_no := l_no s + 1\<rparr>"
  have i: "unat (l_no s + 1) = Suc ?i" using assms(2) by (simp add: unat_suc8)
  have "add_logic c d lba e s = Inr ?s" using name len assms(2) by (simp add: add_logic_def read_at_def Let_def)
  moreover have "scan_ok c d dk ?s" using assms(1) i unfolding scan_ok_def by (simp add: upd_disk_def)
  moreover have "logic_found c d ?s = logic_found c d s @ [(lba + te_start e, te_cnt e)]"
    using i len assms(2) by (simp add: logic_found_def upd_disk_def take_update_snoc extent_def)
  ultimately show thesis using that i by (simp add: prim_found_def upd_disk_def)
qed

lemma add_prim_ok:
  assumes "scan_ok c d dk s" "unat (p_no s) < 3"
  obtains s' where "add_prim c d lba e s = Inr s'" "scan_ok c d dk s'" "unat (p_no s') = Suc (unat (p_no s))" "l_no s' = l_no s"
    "ext_lba_base s' = ext_lba_base s" "spare_blocks s' = spare_blocks s"
    "partition_list s' = partition_list s @ [Prim c d (unat (p_no s))]" "logic_found c d s' = logic_found c d s"
    "prim_found c d s' = prim_found c d s @ [(lba + te_start e, te_cnt e)]"
proof -
  let ?hd = "devices s c d" and ?i = "unat (p_no s)"
  obtain nm r where nm: "hd_name ?hd = nm @ 0 # r" "nul_free nm" "length nm \<le> 5"
    using assms(1) unfolding scan_ok_def by blast
  have len: "length (prim_parts ?hd) = 4" and blank: "pt_name (prim_parts ?hd ! ?i) = replicate 8 0"
    using assms by (simp_all add: scan_ok_def)
  have n: "of_nat (?i + 1) = (ucast (p_no s) :: u32) + 1" and le: "?i + 1 \<le> 12" using assms(2) by simp_all
  obtain name where name: "part_of (hd_name ?hd) (prim_parts ?hd ! ?i) lba e (ucast (p_no s) + 1) =
      Inr \<lparr>pt_start = lba + te_start e, pt_cnt = te_cnt e, pt_name = name\<rparr>"
    using part_of_ok [OF nm blank le, of lba e] unfolding n by blast
  let ?new = "\<lparr>pt_start = lba + te_start e, pt_cnt = te_cnt e, pt_name = name\<rparr>"
  let ?s = "(upd_disk c d (\<lambda>hd. hd\<lparr>prim_parts := (prim_parts hd)[?i := ?new]\<rparr>) s)
     \<lparr>partition_list := partition_list s @ [Prim c d ?i], p_no := p_no s + 1\<rparr>"
  have i: "unat (p_no s + 1) = Suc ?i" using assms(2) by (simp add: unat_suc8)
  then have "p_no s + 1 < 4" using assms(2) by (simp add: word_less_nat_alt)
  then have "add_prim c d lba e s = Inr ?s" using name len assms(2) by (simp add: add_prim_def read_at_def Let_def)
  moreover have "scan_ok c d dk ?s" using assms(1) i unfolding scan_ok_def by (simp add: upd_disk_def)
  moreover have "prim_found c d ?s = prim_found c d s @ [(lba + te_start e, te_cnt e)]"
    using i len assms(2) by (simp add: prim_found_def upd_disk_def take_update_snoc extent_def)
  ultimately show thesis using that i by (simp add: logic_found_def upd_disk_def)
qed


text \<open>
  For reference, a disk with primary partitions \<open>ps\<close> and the chain of tables of its logical partitions. A link of the chain is
  the sector of the table and the extent of its partition, relative to that sector; the second entry of the table leads to the next link,
  relative to the first.
\<close>

definition in_use :: "partition_table_entry \<Rightarrow> bool" where
  "in_use e \<longleftrightarrow> fs_type e \<noteq> 0 \<and> fs_type e \<noteq> 5"

fun ebr_chain :: "(u32 \<Rightarrow> u8 list) \<Rightarrow> u32 \<Rightarrow> (u32 \<times> u32 \<times> u32) list \<Rightarrow> bool" where
  "ebr_chain dk base [] = True"
| "ebr_chain dk base ((l, st, n) # links) \<longleftrightarrow>
     (let t = partition_table (dk l) in
      l \<noteq> 0 \<and> l \<le> max_lba \<and> in_use (t 0) \<and> te_start (t 0) = st \<and> te_cnt (t 0) = n \<and> fs_type (t 2) = 0 \<and> fs_type (t 3) = 0 \<and>
      (case links of [] \<Rightarrow> fs_type (t 1) = 0 | link # _ \<Rightarrow> fs_type (t 1) = 5 \<and> te_start (t 1) + base = fst link) \<and>
      ebr_chain dk base links)"

definition disk_layout :: "(u32 \<Rightarrow> u8 list) \<Rightarrow> (u32 \<times> u32) list \<Rightarrow> (u32 \<times> u32 \<times> u32) list \<Rightarrow> bool" where
  "disk_layout dk ps links \<longleftrightarrow>
     (let t = partition_table (dk 0) in
      length ps \<le> 3 \<and> (\<forall>k < length ps. in_use (t k) \<and> (te_start (t k), te_cnt (t k)) = ps ! k) \<and>
      (\<forall>k < 4. length ps < k \<longrightarrow> fs_type (t k) = 0) \<and> length links \<le> 8 \<and>
      (case links of [] \<Rightarrow> fs_type (t (length ps)) = 0
       | link # _ \<Rightarrow> fs_type (t (length ps)) = 5 \<and> te_start (t (length ps)) = fst link \<and> ebr_chain dk (fst link) links))"

definition logic_extent :: "u32 \<times> u32 \<times> u32 \<Rightarrow> u32 \<times> u32" where
  "logic_extent = (\<lambda>(l, st, n). (l + st, n))"

lemma scan_ok_spare [simp]: "scan_ok c d dk (s\<lparr>spare_blocks := n\<rparr>) = scan_ok c d dk s"
  "scan_ok c d dk (s\<lparr>ext_lba_base := b\<rparr>) = scan_ok c d dk s"
  by (simp_all add: scan_ok_def)

lemma found_frame [simp]: "prim_found c d (s\<lparr>spare_blocks := n\<rparr>) = prim_found c d s" "logic_found c d (s\<lparr>spare_blocks := n\<rparr>) = logic_found c d s"
  "prim_found c d (s\<lparr>ext_lba_base := b\<rparr>) = prim_found c d s" "logic_found c d (s\<lparr>ext_lba_base := b\<rparr>) = logic_found c d s"
  by (simp_all add: prim_found_def logic_found_def)

lemma scan_blank:
  assumes "k \<le> 4" "\<forall>j < 4. k \<le> j \<longrightarrow> fs_type (partition_table bs j) = 0"
  shows "scan_entries c d lba bs k s = Some (Inr (s\<lparr>spare_blocks := Suc (spare_blocks s)\<rparr>))"
  using assms
proof (induction "4 - k" arbitrary: k)
  case 0
  then show ?case by (simp add: scan_entries.simps)
next
  case (Suc n)
  then have "scan_entries c d lba bs (Suc k) s = Some (Inr (s\<lparr>spare_blocks := Suc (spare_blocks s)\<rparr>))" by (intro Suc.hyps) auto
  moreover have "fs_type (partition_table bs k) = 0" "\<not> 4 \<le> k" using Suc by auto
  ultimately show ?case by (subst scan_entries.simps) simp
qed

lemma less4_cases: "(\<forall>j < 4. k \<le> j \<longrightarrow> P j) \<longleftrightarrow> (k \<le> 0 \<longrightarrow> P 0) \<and> (k \<le> 1 \<longrightarrow> P 1) \<and> (k \<le> 2 \<longrightarrow> P 2) \<and> (k \<le> (3 :: nat) \<longrightarrow> P 3)"
proof -
  have "(j :: nat) < 4 \<longleftrightarrow> j = 0 \<or> j = 1 \<or> j = 2 \<or> j = 3" for j by presburger
  then show ?thesis by metis
qed

text \<open>A chain is scanned to its end; with the eighth logical partition the sector of the last table is not freed.\<close>

lemma scan_chain:
  assumes "ebr_chain dk base ((l, st, n) # links)" "scan_ok c d dk s" "ext_lba_base s = base" "base \<noteq> 0"
    "unat (l_no s) + Suc (length links) \<le> 8" "length links \<le> spare_blocks s"
  shows "\<exists>s'. scan_entries c d l (dk l) 0 s = Some (Inr s') \<and> scan_ok c d dk s' \<and> ext_lba_base s' = base \<and>
    unat (l_no s') = unat (l_no s) + Suc (length links) \<and> prim_found c d s' = prim_found c d s \<and>
    logic_found c d s' = logic_found c d s @ map logic_extent ((l, st, n) # links) \<and>
    partition_list s' = partition_list s @ map (Logic c d) [unat (l_no s)..<unat (l_no s) + Suc (length links)] \<and>
    spare_blocks s' = (if unat (l_no s') = 8 then spare_blocks s else Suc (spare_blocks s))"
  using assms
proof (induction links arbitrary: l st n s)
  case Nil
  note t = Nil.prems(1) [simplified ebr_chain.simps Let_def list.case, unfolded in_use_def]
  have "unat (l_no s) < 8" using Nil.prems(5) by simp
  from add_logic_ok [OF Nil.prems(2) this, of l "partition_table (dk l) 0"] obtain s1 where s1:
    "add_logic c d l (partition_table (dk l) 0) s = Inr s1" "scan_ok c d dk s1" "unat (l_no s1) = Suc (unat (l_no s))"
    "ext_lba_base s1 = ext_lba_base s" "spare_blocks s1 = spare_blocks s" "partition_list s1 = partition_list s @ [Logic c d (unat (l_no s))]"
    "prim_found c d s1 = prim_found c d s" "logic_found c d s1 = logic_found c d s @ [(l + st, n)]"
    using t by metis
  have first: "scan_entries c d l (dk l) 0 s = (if l_no s1 \<ge> 8 then Some (Inr s1) else scan_entries c d l (dk l) (Suc 0) s1)"
    using t s1(1) by (subst scan_entries.simps) simp
  have rest: "scan_entries c d l (dk l) (Suc 0) s1 = Some (Inr (s1\<lparr>spare_blocks := Suc (spare_blocks s1)\<rparr>))"
    using t by (intro scan_blank) (simp_all add: less4_cases)
  have full: "l_no s1 \<ge> 8 \<longleftrightarrow> unat (l_no s1) = 8" using s1(3) Nil.prems(5) by (auto simp: word_le_nat_alt)
  show ?case
    using s1 first rest full Nil.prems(3)
    by (intro exI [of _ "if unat (l_no s1) = 8 then s1 else s1\<lparr>spare_blocks := Suc (spare_blocks s1)\<rparr>"])
       (auto simp: logic_extent_def)
next
  case (Cons link links)
  obtain l2 st2 n2 where link: "link = (l2, st2, n2)" by (cases link) auto
  note t = Cons.prems(1) [unfolded link, simplified ebr_chain.simps(2) [of dk base l] Let_def list.case fst_conv, unfolded in_use_def]
  have "unat (l_no s) < 8" using Cons.prems(5) by simp
  from add_logic_ok [OF Cons.prems(2) this, of l "partition_table (dk l) 0"] obtain s1 where s1:
    "add_logic c d l (partition_table (dk l) 0) s = Inr s1" "scan_ok c d dk s1" "unat (l_no s1) = Suc (unat (l_no s))"
    "ext_lba_base s1 = ext_lba_base s" "spare_blocks s1 = spare_blocks s" "partition_list s1 = partition_list s @ [Logic c d (unat (l_no s))]"
    "prim_found c d s1 = prim_found c d s" "logic_found c d s1 = logic_found c d s @ [(l + st, n)]"
    using t by metis
  have full: "\<not> l_no s1 \<ge> 8" using s1(3) Cons.prems(5) by (simp add: word_le_nat_alt)
  have first: "scan_entries c d l (dk l) 0 s = scan_entries c d l (dk l) (Suc 0) s1"
    using t s1(1) full by (subst scan_entries.simps) simp
  have l2: "l2 \<le> max_lba" using t by (simp add: Let_def)
  have "spare_blocks s1 \<noteq> 0" using Cons.prems(6) s1(5) by simp
  from read_boot_ok [OF s1(2) this l2] obtain s2 where s2: "read_boot c d l2 s1 = Inr (dk l2, s2)" "scan_ok c d dk s2"
    "spare_blocks s2 = spare_blocks s1 - 1" "p_no s2 = p_no s1" "l_no s2 = l_no s1" "ext_lba_base s2 = ext_lba_base s1"
    "partition_list s2 = partition_list s1" "devices s2 = devices s1" by metis
  have chain: "ebr_chain dk base ((l2, st2, n2) # links)" using t by blast
  have prems: "ext_lba_base s2 = base" "unat (l_no s2) + Suc (length links) \<le> 8" "length links \<le> spare_blocks s2"
    using s2(3,5,6) s1(3-5) Cons.prems(3,5,6) by simp_all
  obtain s3 where s3: "scan_entries c d l2 (dk l2) 0 s2 = Some (Inr s3)" "scan_ok c d dk s3" "ext_lba_base s3 = base"
    "unat (l_no s3) = unat (l_no s2) + Suc (length links)" "prim_found c d s3 = prim_found c d s2"
    "logic_found c d s3 = logic_found c d s2 @ map logic_extent ((l2, st2, n2) # links)"
    "partition_list s3 = partition_list s2 @ map (Logic c d) [unat (l_no s2)..<unat (l_no s2) + Suc (length links)]"
    "spare_blocks s3 = (if unat (l_no s3) = 8 then spare_blocks s2 else Suc (spare_blocks s2))"
    using Cons.IH [OF chain s2(2) prems(1) Cons.prems(4) prems(2,3)] by blast
  have same: "prim_found c d s2 = prim_found c d s1" "logic_found c d s2 = logic_found c d s1"
    using s2(4,5,8) by (simp_all add: prim_found_def logic_found_def)
  have enter: "enter_ext (partition_table (dk l) 1) s1 = (l2, s1)"
    using t s1(4) Cons.prems(3,4) by (simp add: enter_ext_def)
  have second: "scan_entries c d l (dk l) (Suc 0) s1 = scan_entries c d l (dk l) 2 s3"
    using t s2(1) s3(1) enter by (subst scan_entries.simps) (simp add: numeral_2_eq_2)
  have rest: "scan_entries c d l (dk l) 2 s3 = Some (Inr (s3\<lparr>spare_blocks := Suc (spare_blocks s3)\<rparr>))"
    using t by (intro scan_blank) (simp_all add: less4_cases)
  have range: "map (Logic c d) [unat (l_no s)..<unat (l_no s) + Suc (length (link # links))] =
      Logic c d (unat (l_no s)) # map (Logic c d) [unat (l_no s1)..<unat (l_no s1) + Suc (length links)]"
    using upt_conv_Cons [of "unat (l_no s)" "unat (l_no s) + Suc (length (link # links))"] s1(3)
    by (simp del: upt_Suc)
  have run: "scan_entries c d l (dk l) 0 s = Some (Inr (s3\<lparr>spare_blocks := Suc (spare_blocks s3)\<rparr>))"
    unfolding first second rest ..
  have count: "unat (l_no s3) = unat (l_no s) + Suc (length (link # links))" unfolding s3(4) s2(5) s1(3) by simp
  have logics: "logic_found c d s3 = logic_found c d s @ map logic_extent ((l, st, n) # link # links)"
    unfolding s3(6) same s1(8) by (simp add: logic_extent_def link)
  have listed: "partition_list s3 = partition_list s @ map (Logic c d) [unat (l_no s)..<unat (l_no s) + Suc (length (link # links))]"
    unfolding s3(7) s2(5,7) s1(6) range by (simp only: append_assoc append_Cons append_Nil)
  have spare: "Suc (spare_blocks s3) = (if unat (l_no s3) = 8 then spare_blocks s else Suc (spare_blocks s))"
    unfolding s3(8) s2(3) s1(5) using Cons.prems(6) by simp
  show ?case
    using run s3(2,3) count s3(5) same(1) s1(7) logics listed spare
    by (intro exI [of _ "s3\<lparr>spare_blocks := Suc (spare_blocks s3)\<rparr>"] conjI)
       (simp_all del: upt_Suc map_append list.map length_Cons)
qed


lemma scan_prims:
  assumes "\<forall>k < length ps. in_use (partition_table bs k) \<and> (te_start (partition_table bs k), te_cnt (partition_table bs k)) = ps ! k"
    "length ps \<le> 3" "unat (p_no s) \<le> length ps" "scan_ok c d dk s"
  shows "\<exists>s'. scan_entries c d 0 bs (unat (p_no s)) s = scan_entries c d 0 bs (length ps) s' \<and> scan_ok c d dk s' \<and>
    unat (p_no s') = length ps \<and> l_no s' = l_no s \<and> ext_lba_base s' = ext_lba_base s \<and> spare_blocks s' = spare_blocks s \<and>
    logic_found c d s' = logic_found c d s \<and> prim_found c d s' = prim_found c d s @ drop (unat (p_no s)) ps \<and>
    partition_list s' = partition_list s @ map (Prim c d) [unat (p_no s)..<length ps]"
  using assms(3,4)
proof (induction "length ps - unat (p_no s)" arbitrary: s)
  case 0
  then show ?case by (intro exI [of _ s]) simp
next
  case (Suc m)
  let ?k = "unat (p_no s)" and ?e = "partition_table bs (unat (p_no s))"
  have k: "?k < length ps" "?k < 3" using Suc.hyps(2) assms(2) by auto
  have e: "in_use ?e" "ps ! ?k = (0 + te_start ?e, te_cnt ?e)" using assms(1) k(1) by auto
  from add_prim_ok [OF Suc.prems(2) k(2), of 0 ?e] obtain s1 where s1: "add_prim c d 0 ?e s = Inr s1" "scan_ok c d dk s1"
    "unat (p_no s1) = Suc ?k" "l_no s1 = l_no s" "ext_lba_base s1 = ext_lba_base s" "spare_blocks s1 = spare_blocks s"
    "partition_list s1 = partition_list s @ [Prim c d ?k]" "logic_found c d s1 = logic_found c d s"
    "prim_found c d s1 = prim_found c d s @ [ps ! ?k]"
    unfolding e(2) by metis
  have step: "scan_entries c d 0 bs ?k s = scan_entries c d 0 bs (unat (p_no s1)) s1"
    using e(1) s1(1,3) k(2) by (subst scan_entries.simps) (simp add: in_use_def)
  have "m = length ps - unat (p_no s1)" "unat (p_no s1) \<le> length ps" using Suc.hyps(2) s1(3) k(1) by auto
  from Suc.hyps(1) [OF this s1(2)] obtain s2 where s2: "scan_entries c d 0 bs (unat (p_no s1)) s1 = scan_entries c d 0 bs (length ps) s2"
    "scan_ok c d dk s2" "unat (p_no s2) = length ps" "l_no s2 = l_no s1" "ext_lba_base s2 = ext_lba_base s1"
    "spare_blocks s2 = spare_blocks s1" "logic_found c d s2 = logic_found c d s1"
    "prim_found c d s2 = prim_found c d s1 @ drop (unat (p_no s1)) ps"
    "partition_list s2 = partition_list s1 @ map (Prim c d) [unat (p_no s1)..<length ps]" by blast
  have "prim_found c d s2 = prim_found c d s @ drop ?k ps" unfolding s2(8) s1(3,9) using k(1) by (simp add: Cons_nth_drop_Suc)
  moreover have "partition_list s2 = partition_list s @ map (Prim c d) [?k..<length ps]"
    unfolding s2(9) s1(3,7) using k(1) by (simp add: upt_conv_Cons)
  ultimately show ?case using step s1(4-6,8) s2(1-7) by (intro exI [of _ s2]) simp
qed

lemma partition_scan_run:
  assumes "scan_ok c d dk s" "disk_layout dk ps links" "p_no s = 0" "l_no s = 0" "ext_lba_base s = 0" "length links < spare_blocks s"
  shows "\<exists>s'. partition_scan c d 0 s = Inr s' \<and> prim_found c d s' = ps \<and> logic_found c d s' = map logic_extent links \<and>
    partition_list s' = partition_list s @ map (Prim c d) [0..<length ps] @ map (Logic c d) [0..<length links] \<and>
    spare_blocks s' = (if length links = 8 then spare_blocks s - 1 else spare_blocks s)"
proof -
  let ?t = "partition_table (dk 0)"
  have lay: "length ps \<le> 3" "\<forall>k < length ps. in_use (?t k) \<and> (te_start (?t k), te_cnt (?t k)) = ps ! k"
    "\<forall>k < 4. length ps < k \<longrightarrow> fs_type (?t k) = 0" "length links \<le> 8"
    using assms(2) by (simp_all add: disk_layout_def Let_def)
  have "spare_blocks s \<noteq> 0" "(0 :: u32) \<le> max_lba" using assms(6) by simp_all
  from read_boot_ok [OF assms(1) this] obtain s0 where s0: "read_boot c d 0 s = Inr (dk 0, s0)" "scan_ok c d dk s0"
    "spare_blocks s0 = spare_blocks s - 1" "p_no s0 = p_no s" "l_no s0 = l_no s" "ext_lba_base s0 = ext_lba_base s"
    "partition_list s0 = partition_list s" by metis
  have none: "prim_found c d s0 = []" "logic_found c d s0 = []" using s0(4,5) assms(3,4) by (simp_all add: prim_found_def logic_found_def)
  have "unat (p_no s0) \<le> length ps" using s0(4) assms(3) by simp
  from scan_prims [OF lay(2,1) this s0(2)] obtain s1 where s1: "scan_entries c d 0 (dk 0) 0 s0 = scan_entries c d 0 (dk 0) (length ps) s1"
    "scan_ok c d dk s1" "l_no s1 = 0" "ext_lba_base s1 = 0" "spare_blocks s1 = spare_blocks s - 1" "logic_found c d s1 = []" "prim_found c d s1 = ps"
    "partition_list s1 = partition_list s @ map (Prim c d) [0..<length ps]"
    using s0(3-7) assms(3-5) none by auto
  have scan: "partition_scan c d 0 s = run_loop (scan_entries c d 0 (dk 0) (length ps) s1)"
    using s0(1) s1(1) by (simp add: partition_scan_def)
  show ?thesis
  proof (cases links)
    case Nil
    then have "fs_type (?t (length ps)) = 0" using assms(2) by (simp add: disk_layout_def Let_def)
    then have "\<forall>j < 4. length ps \<le> j \<longrightarrow> fs_type (?t j) = 0" using lay(3) by (auto simp: le_less)
    then have "scan_entries c d 0 (dk 0) (length ps) s1 = Some (Inr (s1\<lparr>spare_blocks := Suc (spare_blocks s1)\<rparr>))"
      using lay(1) by (intro scan_blank) simp_all
    then show ?thesis
      using scan s1(5-8) Nil assms(6) by (intro exI [of _ "s1\<lparr>spare_blocks := Suc (spare_blocks s1)\<rparr>"]) simp
  next
    case (Cons link more)
    obtain l st n where link: "link = (l, st, n)" by (cases link) auto
    have ext: "fs_type (?t (length ps)) = 5" "te_start (?t (length ps)) = l" "ebr_chain dk l ((l, st, n) # more)"
      using assms(2) by (simp_all add: disk_layout_def Let_def Cons link)
    have l: "l \<noteq> 0" "l \<le> max_lba" using ext(3) by (simp_all add: Let_def)
    let ?s1 = "s1\<lparr>ext_lba_base := l\<rparr>"
    have "scan_ok c d dk ?s1" "spare_blocks ?s1 \<noteq> 0" using s1(2,5) assms(6) by (simp_all add: Cons)
    from read_boot_ok [OF this l(2)] obtain s2 where s2: "read_boot c d l ?s1 = Inr (dk l, s2)" "scan_ok c d dk s2"
      "spare_blocks s2 = spare_blocks s - 2" "p_no s2 = p_no s1" "l_no s2 = 0" "ext_lba_base s2 = l" "partition_list s2 = partition_list s1"
      "devices s2 = devices s1" using s1(3,5) by (auto simp: numeral_2_eq_2)
    have same: "prim_found c d s2 = ps" "logic_found c d s2 = []"
      using s2(4,5,8) s1(3,6,7) by (simp_all add: prim_found_def logic_found_def)
    have room: "unat (l_no s2) + Suc (length more) \<le> 8" "length more \<le> spare_blocks s2"
      using lay(4) s2(3,5) assms(6) by (simp_all add: Cons)
    from scan_chain [OF ext(3) s2(2,6) l(1) room] obtain s3 where s3: "scan_entries c d l (dk l) 0 s2 = Some (Inr s3)"
      "unat (l_no s3) = length links" "prim_found c d s3 = ps" "logic_found c d s3 = map logic_extent links"
      "partition_list s3 = partition_list s2 @ map (Logic c d) [0..<length links]"
      "spare_blocks s3 = (if length links = 8 then spare_blocks s2 else Suc (spare_blocks s2))"
      using s2(5) same unfolding Cons link by (auto simp del: upt_Suc)
    have "enter_ext (?t (length ps)) s1 = (l, ?s1)" using s1(4) ext(2) by (simp add: enter_ext_def)
    then have "scan_entries c d 0 (dk 0) (length ps) s1 = scan_entries c d 0 (dk 0) (Suc (length ps)) s3"
      using s2(1) s3(1) ext(1) lay(1) by (subst scan_entries.simps) simp
    also have "\<dots> = Some (Inr (s3\<lparr>spare_blocks := Suc (spare_blocks s3)\<rparr>))"
      using lay(1,3) by (intro scan_blank) auto
    finally show ?thesis
      using scan s3(3-6) s2(3,7) s1(8) assms(6) by (intro exI [of _ "s3\<lparr>spare_blocks := Suc (spare_blocks s3)\<rparr>"]) (auto simp: Cons)
  qed
qed


section \<open>Properties\<close>

text \<open>
  C16: on a disk with at most three primary partitions and a chain of at most eight logical ones, \<^verbatim>\<open>partition_scan\<close>
  returns and has found exactly these partitions: the primary ones as the table has them, the logical ones relative to their own
  tables, all of them in order in \<^verbatim>\<open>partition_list\<close>. With eight logical partitions one sector of memory is lost.
\<close>

theorem partition_scan_finds_partitions:
  assumes "scan_ok c d dk s" "disk_layout dk ps links" "p_no s = 0" "l_no s = 0" "ext_lba_base s = 0" "length links < spare_blocks s"
  shows "\<exists>s'. partition_scan c d 0 s = Inr s' \<and> prim_found c d s' = ps \<and> logic_found c d s' = map logic_extent links \<and>
    partition_list s' = partition_list s @ map (Prim c d) [0..<length ps] @ map (Logic c d) [0..<length links] \<and>
    spare_blocks s' = (if length links = 8 then spare_blocks s - 1 else spare_blocks s)"
  using assms by (rule partition_scan_run)

definition entry_bytes :: "u8 \<Rightarrow> u32 \<Rightarrow> u32 \<Rightarrow> u8 list" where
  "entry_bytes ty st n = [0, 0, 0, 0, ty, 0, 0, 0] @ le32 st @ le32 n"

definition boot_bytes :: "u8 list \<Rightarrow> u8 list \<Rightarrow> u8 list" where
  "boot_bytes e0 e1 = replicate 446 0 @ e0 @ e1 @ replicate 32 0 @ [0x55, 0xaa]"

definition sample_disk :: "u32 \<Rightarrow> u8 list" where
  "sample_disk lba =
     (if lba = 0 then boot_bytes (entry_bytes 0x83 63 900) (entry_bytes 5 1000 5000)
      else if lba = 1000 then boot_bytes (entry_bytes 0x83 63 700) (entry_bytes 5 2000 800)
      else if lba = 3000 then boot_bytes (entry_bytes 0x83 63 600) (replicate 16 0)
      else replicate 512 0)"

definition sample_ide :: ide_state where
  "sample_ide =
     (let p = \<lparr>pt_start = 0, pt_cnt = 0, pt_name = replicate 8 0\<rparr>
      in \<lparr>channels = [blank_channel\<lparr>media := (\<lambda>_. sample_disk)\<rparr>],
          devices = (\<lambda>c d. \<lparr>hd_name = str ''sdb'' @ replicate 5 0, hd_dev_no = of_nat d, prim_parts = replicate 4 p, logic_parts = replicate 8 p\<rparr>),
          ext_lba_base = 0, p_no = 0, l_no = 0, partition_list = [], spare_blocks = 5, irq_handlers = [], ide_log = []\<rparr>)"

lemma entry_bytes_length [simp]: "length (entry_bytes ty st n) = 16"
  by (simp add: entry_bytes_def le32_def)

lemma boot_tables:
  "length e0 = 16 \<Longrightarrow> length e1 = 16 \<Longrightarrow> sub_buf 446 16 (boot_bytes e0 e1) = e0"
  "length e0 = 16 \<Longrightarrow> length e1 = 16 \<Longrightarrow> sub_buf 462 16 (boot_bytes e0 e1) = e1"
  "length e0 = 16 \<Longrightarrow> length e1 = 16 \<Longrightarrow> sub_buf 478 16 (boot_bytes e0 e1) = replicate 16 0"
  "length e0 = 16 \<Longrightarrow> length e1 = 16 \<Longrightarrow> sub_buf 494 16 (boot_bytes e0 e1) = replicate 16 0"
  by (simp_all add: boot_bytes_def sub_buf_def min_def)

lemma table_entries:
  assumes "length e0 = 16" "length e1 = 16"
  shows "partition_table (boot_bytes e0 e1) 0 = \<lparr>fs_type = e0 ! 4, te_start = get32 (sub_buf 8 4 e0), te_cnt = get32 (sub_buf 12 4 e0)\<rparr>"
    "partition_table (boot_bytes e0 e1) (Suc 0) = \<lparr>fs_type = e1 ! 4, te_start = get32 (sub_buf 8 4 e1), te_cnt = get32 (sub_buf 12 4 e1)\<rparr>"
    "fs_type (partition_table (boot_bytes e0 e1) 2) = 0" "fs_type (partition_table (boot_bytes e0 e1) 3) = 0"
  using boot_tables [OF assms] by (simp_all add: partition_table_def Let_def)

lemma table_slot_fields: "entry_bytes ty st n ! 4 = ty" "get32 (sub_buf 8 4 (entry_bytes ty st n)) = st" "get32 (sub_buf 12 4 (entry_bytes ty st n)) = n"
  using get32_le32_Nil [of st] get32_le32_Nil [of n] by (simp_all add: entry_bytes_def sub_buf_def le32_def)

lemma sample_layout: "disk_layout sample_disk [(63, 900)] [(1000, 63, 700), (3000, 63, 600)]"
proof -
  have "\<forall>k < 4. Suc 0 < k \<longrightarrow> fs_type (partition_table (sample_disk 0) k) = 0"
    using less4_cases [of "Suc (Suc 0)" "\<lambda>k. fs_type (partition_table (sample_disk 0) k) = 0"]
    by (simp add: Suc_le_eq sample_disk_def table_entries)
  then show ?thesis
    by (simp add: disk_layout_def Let_def sample_disk_def table_entries table_slot_fields in_use_def max_lba_def)
qed

lemma sample_scan_ok: "scan_ok 0 1 sample_disk sample_ide"
proof -
  have "channel_ready (blank_channel\<lparr>media := (\<lambda>_. sample_disk)\<rparr>)"
    using blank_channel_ready by (auto simp: channel_ready_def sample_disk_def boot_bytes_def)
  moreover have "\<not> lock_held (blank_channel\<lparr>media := (\<lambda>_. sample_disk)\<rparr>)" by (simp add: blank_channel_def)
  moreover have "\<exists>nm r. str ''sdb'' @ replicate 5 0 = nm @ 0 # r \<and> nul_free nm \<and> length nm \<le> 5"
    by (intro exI [of _ "str ''sdb''"] exI [of _ "replicate 4 0"]) (simp add: nul_free_str, simp add: str_def flip: replicate_Suc)
  ultimately show ?thesis by (simp add: scan_ok_def sample_ide_def Let_def)
qed

theorem partition_scan_finds_partitions_witness:
  "\<exists>s'. partition_scan 0 1 0 sample_ide = Inr s' \<and> prim_found 0 1 s' = [(63, 900)] \<and> logic_found 0 1 s' = [(1063, 700), (3063, 600)] \<and>
     partition_list s' = [Prim 0 1 0, Logic 0 1 0, Logic 0 1 1]"
  using partition_scan_finds_partitions [OF sample_scan_ok sample_layout]
  by (auto simp: sample_ide_def Let_def logic_extent_def)


end
