(* ===== verification/Process.thy ===== *)
theory Process
  imports Memory
begin

text \<open>
  How threads and processes come into being: \<^verbatim>\<open>thread/thread.c\<close> from \<^verbatim>\<open>allocate_pid\<close> to
  \<^verbatim>\<open>thread_init\<close> and \<^verbatim>\<open>user_process/process.c\<close>. A thread's page holds its \<^verbatim>\<open>task_struct\<close> at the bottom,
  kept in \<open>tasks\<close>, and its kernel stack at the top, whose words are words of physical memory and
  are written through the page tables. The addresses of the functions the stacks return to are fields
  of the state.

  \<open>kernel_pages\<close> is \<^verbatim>\<open>get_kernel_pages\<close> with its \<^verbatim>\<open>memset\<close> on the words of the pages too, which the
  memory component leaves out.
\<close>

section \<open>State\<close>

record pstate = mstate +
  pid_lock :: u32
  next_pid :: "16 word"
  kernel_thread_ptr :: u32
  start_process_ptr :: u32
  intr_exit_ptr :: u32
  idle_ptr :: u32
  init_ptr :: u32

definition MAIN_THREAD_PRIO_VALUE :: u8 where "MAIN_THREAD_PRIO_VALUE = 31"
definition DEFAULT_PRIO :: u8 where "DEFAULT_PRIO = 31"
definition USER_STACK3_VADDR :: u32 where "USER_STACK3_VADDR = 0xc0000000 - 0x1000"
definition USER_VADDR_START :: u32 where "USER_VADDR_START = 0x8048000"
definition SELECTOR_U_CODE :: u32 where "SELECTOR_U_CODE = push_bit 3 5 + push_bit 2 0 + 3"
definition SELECTOR_U_DATA :: u32 where "SELECTOR_U_DATA = push_bit 3 6 + push_bit 2 0 + 3"
definition EFLAGS_MBS :: u32 where "EFLAGS_MBS = push_bit 1 1"
definition EFLAGS_IF_1 :: u32 where "EFLAGS_IF_1 = push_bit 9 1"
definition EFLAGS_IOPL_0 :: u32 where "EFLAGS_IOPL_0 = push_bit 12 0"
definition sizeof_task :: u32 where "sizeof_task = 280"
definition sizeof_intr_stack :: u32 where "sizeof_intr_stack = 76"
definition sizeof_thread_stack :: u32 where "sizeof_thread_stack = 32"

definition kernel_pages :: "u32 \<Rightarrow> ('z) mstate_scheme \<Rightarrow> (u32 \<times> ('z) mstate_scheme) res" where
  "kernel_pages pg_cnt s =
     bindE (get_kernel_pages pg_cnt s) (\<lambda>(v, s).
     if v = NULL then Inr (v, s) else mapE (Pair v) (zero_words (unat pg_cnt * 1024) v s))"

text \<open>\<^verbatim>\<open>memcpy(dst, src, 4 * n)\<close> between two places reached through the page tables.\<close>

fun copy_words :: "nat \<Rightarrow> u32 \<Rightarrow> u32 \<Rightarrow> ('z) cpu_scheme \<Rightarrow> ('z) cpu_scheme res" where
  "copy_words 0 dst src s = Inr s"
| "copy_words (Suc n) dst src s =
     bindE (load32 src s) (\<lambda>w.
     bindE (store32 dst w s) (copy_words n (dst + 4) (src + 4)))"

text \<open>Stores at offsets from one address, in order.\<close>

fun store_fields :: "u32 \<Rightarrow> (u32 \<times> u32) list \<Rightarrow> ('z) cpu_scheme \<Rightarrow> ('z) cpu_scheme res" where
  "store_fields a [] s = Inr s"
| "store_fields a ((off, w) # fs) s = bindE (store32 (a + off) w s) (store_fields a fs)"

section \<open>Threads\<close>

definition allocate_pid :: "('z) pstate_scheme \<Rightarrow> (16 word \<times> ('z) pstate_scheme) res" where
  "allocate_pid s =
     bindE (lock_acquire_now (pid_lock s) s) (\<lambda>s.
     let s = s\<lparr>next_pid := next_pid s + 1\<rparr> in
     bindE (lock_release (pid_lock s) s) (\<lambda>s. Inr (next_pid s, s)))"

definition fork_pid :: "('z) pstate_scheme \<Rightarrow> (16 word \<times> ('z) pstate_scheme) res" where
  "fork_pid s = allocate_pid s"

text \<open>
  The layout of \<^verbatim>\<open>struct thread_stack\<close>: \<^verbatim>\<open>ebp ebx edi esi eip unused_ret_addr function func_arg\<close>. The stack
  pointer is a \<^verbatim>\<open>uint32_t*\<close>, so that \<^verbatim>\<open>-= sizeof\<close> moves it by four times the size.
\<close>

definition thread_create :: "u32 \<Rightarrow> u32 \<Rightarrow> u32 \<Rightarrow> ('z) pstate_scheme \<Rightarrow> ('z) pstate_scheme res" where
  "thread_create pthread func func_arg s =
     bindE (upd_task pthread (\<lambda>t. t\<lparr>self_kernel_stack := self_kernel_stack t - 4 * sizeof_intr_stack\<rparr>) s) (\<lambda>s.
     bindE (upd_task pthread (\<lambda>t. t\<lparr>self_kernel_stack := self_kernel_stack t - 4 * sizeof_thread_stack\<rparr>) s) (\<lambda>s.
     bindE (get_task pthread s) (\<lambda>t.
     store_fields (self_kernel_stack t)
       [(16, kernel_thread_ptr s), (24, func), (28, func_arg), (0, 0), (4, 0), (12, 0), (8, 0)] s)))"

definition zero_task :: task_struct where
  "zero_task = \<lparr>self_kernel_stack = 0, pid = 0, status = TASK_RUNNING, tname = replicate 16 0, priority = 0,
     ticks = 0, elapsed_ticks = 0, pg_dir = NULL,
     user_process_vaddr = \<lparr>vaddr_bitmap = \<lparr>bmap_bytes_len = 0, bits = []\<rparr>, vaddr_start = 0\<rparr>,
     fd_table = replicate 8 0, cwd_inode_nr = 0, parent_pid = 0, stack_magic = 0\<rparr>"

definition task_descs :: "u32 \<Rightarrow> u32 list" where
  "task_descs p = map (\<lambda>k. u_block_desc p + sizeof_desc * of_nat k) [0..<DESC_CNT]"

text \<open>\<^verbatim>\<open>memset(pthread, 0, sizeof(*pthread))\<close>: the structure, the links of its tags and its block descriptors.\<close>

definition clear_task :: "u32 \<Rightarrow> ('z) pstate_scheme \<Rightarrow> ('z) pstate_scheme" where
  "clear_task p s = zero_heap p sizeof_task
     (s\<lparr>tasks := (tasks s)(p \<mapsto> zero_task),
        mdescs := (\<lambda>d. if d \<in> set (task_descs p) then Some \<lparr>block_size = 0, blocks_per_arena = 0\<rparr>
                       else mdescs s d)\<rparr>)"

definition init_thread :: "u32 \<Rightarrow> u8 list \<Rightarrow> u8 \<Rightarrow> ('z) pstate_scheme \<Rightarrow> ('z) pstate_scheme res" where
  "init_thread pthread name prio s =
     bindE (ASSERT (pthread \<noteq> NULL)) (\<lambda>_.
     bindE (allocate_pid (clear_task pthread s)) (\<lambda>(n, s).
     bindE (strlen (Some name)) (\<lambda>len.
     bindE (strncpy (Some (replicate 16 0)) (Some name) len) (\<lambda>nm.
     upd_task pthread (\<lambda>t. t\<lparr>self_kernel_stack := pthread + PAGE_SIZE, pid := n,
         status := (if pthread = main_thread s then TASK_RUNNING else TASK_READY), tname := nm,
         priority := prio, ticks := prio, elapsed_ticks := 0, pg_dir := NULL,
         fd_table := [0, 1, 2, -1, -1, -1, -1, -1], cwd_inode_nr := 0, parent_pid := -1,
         stack_magic := TASK_STACK_MAGIC_VALUE\<rparr>) s))))"

text \<open>A new thread goes to the end of the list of all threads.\<close>

definition list_all :: "u32 \<Rightarrow> ('z) tstate_scheme \<Rightarrow> ('z) tstate_scheme res" where
  "list_all p s =
     bindE (elem_find (thread_all_list s) (all_list_tag p) s) (\<lambda>found.
     bindE (ASSERT (\<not> found)) (\<lambda>_.
     list_append (thread_all_list s) (all_list_tag p) s))"

text \<open>The lines that \<^verbatim>\<open>thread_start\<close>, \<^verbatim>\<open>process_execute\<close> and \<^verbatim>\<open>sys_fork\<close> share.\<close>

definition enlist :: "u32 \<Rightarrow> ('z) tstate_scheme \<Rightarrow> ('z) tstate_scheme res" where
  "enlist p s =
     bindE (elem_find (thread_ready_list s) (general_tag p) s) (\<lambda>found.
     bindE (ASSERT (\<not> found)) (\<lambda>_.
     bindE (list_append (thread_ready_list s) (general_tag p) s) (list_all p)))"

definition thread_start ::
  "u8 list \<Rightarrow> u8 \<Rightarrow> u32 \<Rightarrow> u32 \<Rightarrow> ('z) pstate_scheme \<Rightarrow> (u32 \<times> ('z) pstate_scheme) res" where
  "thread_start name prio func func_arg s =
     bindE (kernel_pages 1 s) (\<lambda>(thread, s).
     bindE (init_thread thread name prio s) (\<lambda>s.
     bindE (thread_create thread func func_arg s) (\<lambda>s.
     bindE (enlist thread s) (\<lambda>s. Inr (thread, s)))))"

text \<open>Where a new thread goes on: \<^verbatim>\<open>func\<close> is what the function does to the state.\<close>

definition kernel_thread ::
  "(u32 \<Rightarrow> ('z) pstate_scheme \<Rightarrow> ('z) pstate_scheme res) \<Rightarrow> u32 \<Rightarrow> ('z) pstate_scheme \<Rightarrow> ('z) pstate_scheme res" where
  "kernel_thread func func_arg s = func func_arg (s\<lparr>eflags := snd (intr_enable (eflags s))\<rparr>)"

definition make_main_thread :: "('z) pstate_scheme \<Rightarrow> ('z) pstate_scheme res" where
  "make_main_thread s =
     (let s = s\<lparr>main_thread := running_thread s\<rparr> in
      bindE (init_thread (main_thread s) (str ''main'' @ [0]) MAIN_THREAD_PRIO_VALUE s) (\<lambda>s.
      list_all (main_thread s) s))"

section \<open>Processes\<close>

definition create_page_dir :: "('z) mstate_scheme \<Rightarrow> (u32 \<times> ('z) mstate_scheme) res" where
  "create_page_dir s =
     bindE (kernel_pages 1 s) (\<lambda>(page_dir_vaddr, s).
     if page_dir_vaddr = NULL then
       mapE (Pair NULL) (console_put_str (str ''create_page_dir: get_kernel_page failed!'' @ [0]) s)
     else
       bindE (copy_words 256 (page_dir_vaddr + 0x300 * 4) (0xfffff000 + 0x300 * 4) s) (\<lambda>s.
       bindE (addr_v2p page_dir_vaddr s) (\<lambda>new_page_dir_phy_addr.
       mapE (Pair page_dir_vaddr)
         (store32 (page_dir_vaddr + 1023 * 4) (entry_bits new_page_dir_phy_addr) s))))"

definition user_bitmap_len :: u32 where
  "user_bitmap_len = (0xc0000000 - USER_VADDR_START) div PAGE_SIZE div 8"

definition create_user_vaddr_bitmap :: "u32 \<Rightarrow> ('z) pstate_scheme \<Rightarrow> ('z) pstate_scheme res" where
  "create_user_vaddr_bitmap user_prog s =
     bindE (kernel_pages (DIV_ROUND_UP user_bitmap_len PAGE_SIZE) s) (\<lambda>(bits, s).
     bindE (ASSERT (bits \<noteq> NULL)) (\<lambda>_.
     upd_task user_prog (\<lambda>t. t\<lparr>user_process_vaddr :=
       \<lparr>vaddr_bitmap = fresh_bitmap user_bitmap_len, vaddr_start = USER_VADDR_START\<rparr>\<rparr>) s))"

definition process_execute :: "u32 \<Rightarrow> u8 list \<Rightarrow> ('z) pstate_scheme \<Rightarrow> ('z) pstate_scheme res" where
  "process_execute process_name name s =
     bindE (kernel_pages 1 s) (\<lambda>(thread, s).
     bindE (init_thread thread name DEFAULT_PRIO s) (\<lambda>s.
     bindE (create_user_vaddr_bitmap thread s) (\<lambda>s.
     bindE (thread_create thread (start_process_ptr s) process_name s) (\<lambda>s.
     bindE (create_page_dir s) (\<lambda>(dir, s).
     bindE (upd_task thread (\<lambda>t. t\<lparr>pg_dir := dir\<rparr>) s) (\<lambda>s.
     let s = block_desc_init (u_block_desc thread) s;
         (old_status, f) = intr_disable (eflags s) in
     bindE (enlist thread (s\<lparr>eflags := f\<rparr>)) (\<lambda>s.
     Inr (s\<lparr>eflags := snd (intr_set_status old_status (eflags s))\<rparr>))))))))"

text \<open>
  The words of \<^verbatim>\<open>struct intr_stack\<close>: \<^verbatim>\<open>vec_no edi esi ebp esp_dummy ebx edx ecx eax gs fs es ds err_code eip cs
  eflags esp ss\<close>. \<^verbatim>\<open>start_process\<close> ends with a jump to \<^verbatim>\<open>intr_exit\<close>; the result is the state there.
\<close>

definition start_process :: "u32 \<Rightarrow> ('z) pstate_scheme \<Rightarrow> ('z) pstate_scheme res" where
  "start_process process_name s =
     (let cur = running_thread s in
      bindE (upd_task cur (\<lambda>t. t\<lparr>self_kernel_stack := self_kernel_stack t + 4 * sizeof_thread_stack\<rparr>) s) (\<lambda>s.
      bindE (get_task cur s) (\<lambda>t.
      let proc_stack = self_kernel_stack t in
      bindE (store_fields proc_stack [(16, 0), (12, 0), (8, 0), (4, 0), (32, 0), (28, 0), (24, 0), (20, 0),
          (36, 0), (40, SELECTOR_U_DATA), (44, SELECTOR_U_DATA), (48, SELECTOR_U_DATA), (56, process_name),
          (60, SELECTOR_U_CODE), (64, EFLAGS_IOPL_0 OR EFLAGS_MBS OR EFLAGS_IF_1)] s) (\<lambda>s.
      bindE (get_a_page PF_USER USER_STACK3_VADDR s) (\<lambda>(page, s).
      bindE (store_fields proc_stack [(68, page + PAGE_SIZE), (72, SELECTOR_U_DATA)] s) (\<lambda>s.
      Inr (s\<lparr>esp := proc_stack\<rparr>)))))))"

text \<open>
  \<^verbatim>\<open>intr_exit\<close> of \<^verbatim>\<open>kernel/kernel.s\<close> and the \<^verbatim>\<open>iretd\<close> at its end: the registers the stack at \<open>a\<close> gives.
\<close>

record user_context =
  r_edi :: u32
  r_esi :: u32
  r_ebp :: u32
  r_ebx :: u32
  r_edx :: u32
  r_ecx :: u32
  r_eax :: u32
  r_gs :: u32
  r_fs :: u32
  r_es :: u32
  r_ds :: u32
  r_eip :: u32
  r_cs :: u32
  r_eflags :: u32
  r_esp :: u32
  r_ss :: u32

fun load_words :: "nat \<Rightarrow> u32 \<Rightarrow> ('z) cpu_scheme \<Rightarrow> u32 list res" where
  "load_words 0 a s = Inr []"
| "load_words (Suc n) a s =
     bindE (load32 a s) (\<lambda>w. mapE (Cons w) (load_words n (a + 4) s))"

definition context_of :: "u32 list \<Rightarrow> user_context" where
  "context_of ws = \<lparr>r_edi = ws ! 1, r_esi = ws ! 2, r_ebp = ws ! 3, r_ebx = ws ! 5, r_edx = ws ! 6, r_ecx = ws ! 7,
     r_eax = ws ! 8, r_gs = ws ! 9, r_fs = ws ! 10, r_es = ws ! 11, r_ds = ws ! 12, r_eip = ws ! 14, r_cs = ws ! 15,
     r_eflags = ws ! 16, r_esp = ws ! 17, r_ss = ws ! 18\<rparr>"

definition intr_exit :: "u32 \<Rightarrow> ('z) cpu_scheme \<Rightarrow> user_context res" where
  "intr_exit a s = mapE context_of (load_words 19 a s)"

text \<open>
  The \<^verbatim>\<open>ret\<close> at the end of \<^verbatim>\<open>switch_to\<close>, after it has popped four registers from the stack at \<open>a\<close>: the address it returns
  to, and the words a C function finds there as its arguments.
\<close>

definition switch_return :: "u32 \<Rightarrow> ('z) cpu_scheme \<Rightarrow> (u32 \<times> u32 \<times> u32) res" where
  "switch_return a s =
     bindE (load32 (a + 16) s) (\<lambda>eip.
     bindE (load32 (a + 24) s) (\<lambda>arg1.
     bindE (load32 (a + 28) s) (\<lambda>arg2. Inr (eip, arg1, arg2))))"

definition thread_init :: "('z) pstate_scheme \<Rightarrow> ('z) pstate_scheme res" where
  "thread_init s =
     (let s = put_str (''thread_init start'' @ [CHR 0x0A]) s;
          s = list_init (thread_ready_list s) s;
          s = list_init (thread_all_list s) s;
          s = lock_init (pid_lock s) s in
      bindE (process_execute (init_ptr s) (str ''init'' @ [0]) s) (\<lambda>s.
      bindE (make_main_thread s) (\<lambda>s.
      bindE (thread_start (str ''idle'' @ [0]) 10 (idle_ptr s) NULL s) (\<lambda>(idle, s).
      Inr (put_str (''thread_init end'' @ [CHR 0x0A]) (s\<lparr>idle_thread := idle\<rparr>))))))"

section \<open>Pages that are no page tables\<close>

text \<open>\<open>apart s f\<close>: the frame \<open>f\<close> is neither the directory nor one of the kernel's page tables.\<close>

definition apart :: "('z) cpu_scheme \<Rightarrow> u32 \<Rightarrow> bool" where
  "apart s f \<longleftrightarrow> f \<noteq> page_frame (cr3 s) \<and> (\<forall>v. kernel_addr v \<longrightarrow> f \<noteq> page_frame (pmem s (pde_phys s v)))"

definition same_but :: "u32 \<Rightarrow> (u32 \<Rightarrow> u32) \<Rightarrow> (u32 \<Rightarrow> u32) \<Rightarrow> bool" where
  "same_but f pm pm' \<longleftrightarrow> (\<forall>a. page_frame a \<noteq> f \<longrightarrow> pm' a = pm a)"

lemma same_but_refl [simp]: "same_but f pm pm"
  by (simp add: same_but_def)

lemma same_but_upd [simp]: "page_frame a = f \<Longrightarrow> same_but f pm (pm'(a := w)) = same_but f pm pm'"
  by (auto simp: same_but_def)

lemma same_but_trans: "same_but f pm pm' \<Longrightarrow> same_but f pm' pm'' \<Longrightarrow> same_but f pm pm''"
  by (simp add: same_but_def)

lemma writes_apart:
  assumes ok: "tables_ok s" and f: "apart s f" and pm: "same_but f (pmem s) pm"
  shows "tables_ok (s\<lparr>pmem := pm\<rparr>)" "apart (s\<lparr>pmem := pm\<rparr>) g = apart s g"
    "kernel_addr v \<Longrightarrow> translate (s\<lparr>pmem := pm\<rparr>) v = translate s v"
proof -
  let ?s = "s\<lparr>pmem := pm\<rparr>"
  have pde: "pde_phys ?s v = pde_phys s v" for v by (simp add: pde_phys_def)
  have "page_frame (pde_phys s v) \<noteq> f" for v using f by (auto simp: pde_phys_def entry_frame apart_def)
  then have e: "pm (pde_phys s v) = pmem s (pde_phys s v)" for v using pm by (simp add: same_but_def)
  have top: "page_frame (cr3 s) + 4092 = pde_phys s 0xffffffff" by (simp add: pde_phys_def PDE_IDX_def)
  then have "self_mapped ?s = self_mapped s" using e [of "0xffffffff"] by (simp add: self_mapped_def)
  moreover have mem: "pmem ?s (pde_phys ?s v) = pmem s (pde_phys s v)" and cr: "cr3 ?s = cr3 s" for v
    using e by (simp_all add: pde)
  ultimately show "tables_ok ?s" using ok unfolding tables_ok_def mem cr by blast
  show "apart ?s g = apart s g" unfolding apart_def mem cr ..
  assume v: "kernel_addr v"
  have pte: "pte_phys ?s v = pte_phys s v" by (simp add: pte_phys_def pde e)
  have "page_frame (pte_phys s v) \<noteq> f" using f v by (auto simp: pte_phys_def entry_frame apart_def)
  then have "pm (pte_phys s v) = pmem s (pte_phys s v)" using pm by (simp add: same_but_def)
  then show "translate ?s v = translate s v" unfolding translate_def pde pte by (simp add: e)
qed

text \<open>The page \<open>p\<close> of the kernel is mapped to the frame \<open>f\<close>, which is not part of the page tables.\<close>

definition plain :: "('z) cpu_scheme \<Rightarrow> u32 \<Rightarrow> u32 \<Rightarrow> bool" where
  "plain s p f \<longleftrightarrow> tables_ok s \<and> kernel_addr p \<and> page_off p = 0 \<and> page_off f = 0 \<and>
     translate s p = Some f \<and> apart s f"

lemma off_small: "k < 4096 \<Longrightarrow> page_off k = (k :: u32)"
  by (simp add: word_unat_eq_iff unat_page_off word_less_nat_alt)

lemma frame_word:
  assumes "page_off p = 0" "k < (4096 :: u32)"
  shows "page_frame (p + k) = p" "page_off (p + k) = k"
proof -
  have po: "p + k = page_frame p + page_off k" using assms by (simp add: aligned_frame off_small)
  have "page_frame (p + k) = page_frame p" unfolding po by (rule bit_word_eqI) (auto simp: page_bits)
  then show "page_frame (p + k) = p" using assms(1) by (simp add: aligned_frame)
  have "page_off (p + k) = page_off k" unfolding po by (rule bit_word_eqI) (auto simp: page_bits)
  then show "page_off (p + k) = k" using assms(2) by (simp add: off_small)
qed

lemma plain_word:
  assumes "plain s p f" "k < 4096"
  shows "translate s (p + k) = Some (f + k)"
proof -
  have p: "page_off p = 0" "page_off f = 0" "translate s p = Some f" using assms(1) by (auto simp: plain_def)
  have fr: "page_frame (p + k) = p" "page_off (p + k) = k" using frame_word [OF p(1) assms(2)] by simp_all
  have i: "PDE_IDX (p + k) = PDE_IDX p" "PTE_IDX (p + k) = PTE_IDX p"
    using PDE_IDX_page_frame [of "p + k"] PTE_IDX_page_frame [of "p + k"] fr(1) by simp_all
  show ?thesis using p fr i by (auto simp: translate_def pde_phys_def pte_phys_def split: if_splits)
qed

lemma plain_writes:
  assumes "plain s p f" "same_but g (pmem s) pm" "apart s g"
  shows "plain (s\<lparr>pmem := pm\<rparr>) p f"
  using assms writes_apart [OF _ assms(3,2)] by (auto simp: plain_def)

lemma plain_access:
  assumes "plain s p f" "k < 4096"
  shows "load32 (p + k) s = Inr (pmem s (f + k))"
    "store32 (p + k) w s = Inr (s\<lparr>pmem := (pmem s)(f + k := w)\<rparr>)"
    "plain (s\<lparr>pmem := (pmem s)(f + k := w)\<rparr>) p f" "page_frame (f + k) = f"
proof -
  have f: "page_off f = 0" "apart s f" using assms(1) by (auto simp: plain_def)
  show fr: "page_frame (f + k) = f" using frame_word [OF f(1) assms(2)] by simp
  show "load32 (p + k) s = Inr (pmem s (f + k))"
    "store32 (p + k) w s = Inr (s\<lparr>pmem := (pmem s)(f + k := w)\<rparr>)"
    using plain_word [OF assms] by (simp_all add: load32_def store32_def)
  show "plain (s\<lparr>pmem := (pmem s)(f + k := w)\<rparr>) p f"
    by (rule plain_writes [OF assms(1) _ f(2)]) (simp add: fr)
qed

text \<open>A run of stores into a page, as one update of its frame.\<close>

fun put_fields :: "u32 \<Rightarrow> (u32 \<times> u32) list \<Rightarrow> (u32 \<Rightarrow> u32) \<Rightarrow> u32 \<Rightarrow> u32" where
  "put_fields a [] pm = pm"
| "put_fields a ((off, w) # fs) pm = put_fields a fs (pm(a + off := w))"

lemma store_fields_plain:
  assumes "plain s p f" "\<And>off w. (off, w) \<in> set fs \<Longrightarrow> b + off < 4096"
  shows "store_fields (p + b) fs s = Inr (s\<lparr>pmem := put_fields (f + b) fs (pmem s)\<rparr>) \<and>
         same_but f (pmem s) (put_fields (f + b) fs (pmem s))"
  using assms
proof (induction fs arbitrary: s)
  case (Cons x fs)
  obtain off w where x: "x = (off, w)" by force
  have off: "b + off < 4096" using Cons.prems(2) x by auto
  note acc = plain_access [OF Cons.prems(1) off]
  let ?s = "s\<lparr>pmem := (pmem s)(f + (b + off) := w)\<rparr>"
  have "plain ?s p f" by (rule acc(3))
  moreover have "\<And>off w. (off, w) \<in> set fs \<Longrightarrow> b + off < 4096" using Cons.prems(2) by auto
  ultimately have ih: "store_fields (p + b) fs ?s = Inr (?s\<lparr>pmem := put_fields (f + b) fs (pmem ?s)\<rparr>)"
    "same_but f (pmem ?s) (put_fields (f + b) fs (pmem ?s))" using Cons.IH [of ?s] by blast+
  have "same_but f (pmem s) (pmem ?s)" using acc(4) by simp
  with ih(2) have "same_but f (pmem s) (put_fields (f + b) fs (pmem ?s))" by (rule same_but_trans [rotated])
  with ih(1) acc(2) show ?case by (simp add: x add.assoc)
qed simp

section \<open>A page for the kernel\<close>

text \<open>
  The kernel can hand out pages: its address space is consistent, the free frames of its pool are no
  page tables, nobody uses the pool's lock, and no list runs through a free page. \<open>F\<close> is
  the contents of all lists.
\<close>

definition pages_ready :: "family \<Rightarrow> ('z) mstate_scheme \<Rightarrow> bool" where
  "pages_ready F s \<longleftrightarrow> kmem_ok s \<and>
     (\<forall>i < pool_pages (kernel_pool s). i \<notin> pool_used (kernel_pool s) \<longrightarrow> apart s (pool_page (kernel_pool s) i)) \<and>
     lock_idle (pool_lock (kernel_pool s)) s \<and> running_thread s \<noteq> NULL \<and> lists_at (lmem s) F \<and>
     F (sema_waiters (lock_sem (pool_lock (kernel_pool s)))) = Some [] \<and>
     (\<forall>i < nbits (vaddr_bitmap (kernel_vaddr s)). i \<notin> bit_used (vaddr_bitmap (kernel_vaddr s)) \<longrightarrow>
        (\<forall>l xs x. F l = Some xs \<longrightarrow> x \<in> nodes l xs \<longrightarrow> \<not> in_block (heap_page s i) 4096 x))"

text \<open>The page the next request for one page gets.\<close>

definition next_page :: "('z) mstate_scheme \<Rightarrow> u32" where
  "next_page s = heap_page s (first_free (vaddr_bitmap (kernel_vaddr s)))"

definition page_left :: "('z) mstate_scheme \<Rightarrow> bool" where
  "page_left s \<longleftrightarrow> first_free (vaddr_bitmap (kernel_vaddr s)) < nbits (vaddr_bitmap (kernel_vaddr s)) \<and>
     card (pool_used (kernel_pool s)) < pool_pages (kernel_pool s)"

lemma walk_cong:
  assumes "cr3 s = cr3 s'" "pmem s = pmem s'"
  shows "translate s v = translate s' v" "tables_ok s = tables_ok s'" "apart s f = apart s' f"
  using assms by (simp_all add: translate_def pde_phys_def pte_phys_def tables_ok_def self_mapped_def apart_def)

lemma kmem_ok_cong:
  assumes "cr3 s = cr3 s'" "pmem s = pmem s'" "kernel_pool s = kernel_pool s'" "kernel_vaddr s = kernel_vaddr s'"
  shows "kmem_ok s = kmem_ok s'"
  using walk_cong [OF assms(1,2)] assms(3,4) by (simp add: kmem_ok_def heap_page_def)

lemma zero_words_plain:
  assumes "plain s p f" "b + 4 * n \<le> 4096"
  shows "\<exists>pm. zero_words n (p + of_nat b) s = Inr (s\<lparr>pmem := pm\<rparr>) \<and> same_but f (pmem s) pm \<and>
           (\<forall>k<n. pm (f + of_nat (b + 4 * k)) = 0) \<and>
           (\<forall>a. (\<forall>k<n. a \<noteq> f + of_nat (b + 4 * k)) \<longrightarrow> pm a = pmem s a)"
  using assms
proof (induction n arbitrary: s b)
  case 0
  then show ?case by (intro exI [of _ "pmem s"]) simp
next
  case (Suc n)
  have b: "of_nat b < (4096 :: u32)" using Suc.prems(2) by (simp add: word_less_nat_alt unat_of_nat32)
  note acc = plain_access [OF Suc.prems(1) b]
  let ?s = "s\<lparr>pmem := (pmem s)(f + of_nat b := 0)\<rparr>"
  have "plain ?s p f" by (rule acc(3))
  moreover have "b + 4 + 4 * n \<le> 4096" using Suc.prems(2) by simp
  ultimately obtain pm where
    pm: "zero_words n (p + of_nat (b + 4)) ?s = Inr (?s\<lparr>pmem := pm\<rparr>)" "same_but f (pmem ?s) pm"
    "\<forall>k<n. pm (f + of_nat (b + 4 + 4 * k)) = 0"
    "\<forall>a. (\<forall>k<n. a \<noteq> f + of_nat (b + 4 + 4 * k)) \<longrightarrow> pm a = pmem ?s a" using Suc.IH [of ?s "b + 4"] by blast
  have z: "pm (f + of_nat b) = 0"
  proof (cases "\<exists>k<n. f + of_nat b = f + of_nat (b + 4 + 4 * k)")
    case True
    with pm(3) show ?thesis by metis
  next
    case False
    with pm(4) show ?thesis by simp
  qed
  have "zero_words (Suc n) (p + of_nat b) s = Inr (s\<lparr>pmem := pm\<rparr>)"
    using acc(2) pm(1) by (simp add: add.assoc add.commute)
  moreover have "same_but f (pmem s) pm" using pm(2) acc(4) by (auto simp: same_but_def)
  moreover have "pm (f + of_nat (b + 4 * k)) = 0" if "k < Suc n" for k
    using that z pm(3) by (cases k) (simp_all add: algebra_simps)
  moreover have "pm a = pmem s a" if a: "\<forall>k<Suc n. a \<noteq> f + of_nat (b + 4 * k)" for a
  proof -
    have "a \<noteq> f + of_nat b" using a by (metis add_0_right mult_0_right zero_less_Suc)
    moreover have "a \<noteq> f + of_nat (b + 4 + 4 * k)" if "k < n" for k
      using a [rule_format, of "Suc k"] that by (simp add: algebra_simps)
    ultimately show ?thesis using pm(4) by simp
  qed
  ultimately show ?case by blast
qed

lemma malloc_one_page:
  assumes ok: "kmem_ok s" and left: "page_left s"
  shows "\<exists>k pm p bm. let s' = s\<lparr>kernel_vaddr := (kernel_vaddr s)\<lparr>vaddr_bitmap := bm\<rparr>, kernel_pool := p, pmem := pm\<rparr> in
           malloc_page PF_KERNEL 1 s = Inr (next_page s, s') \<and> kmem_ok s' \<and>
           k \<notin> pool_used (kernel_pool s) \<and> k < pool_pages (kernel_pool s) \<and> pool_grows (kernel_pool s) {k} p \<and>
           nbits bm = nbits (vaddr_bitmap (kernel_vaddr s)) \<and>
           bit_used bm = insert (first_free (vaddr_bitmap (kernel_vaddr s))) (bit_used (vaddr_bitmap (kernel_vaddr s))) \<and>
           translate s' (next_page s) = Some (pool_page (kernel_pool s) k) \<and>
           same_elsewhere s s' (next_page s) 1"
proof -
  let ?bm = "vaddr_bitmap (kernel_vaddr s)"
  let ?i = "first_free ?bm"
  have bm: "bitmap_ok ?bm" using ok by (simp add: kmem_ok_def)
  have ff: "?i < nbits ?bm" and room: "card (pool_used (kernel_pool s)) < pool_pages (kernel_pool s)"
    using left by (simp_all add: page_left_def)
  have lt: "?i < 2 ^ 31" using bitmap_ok_index [OF bm ff] by simp
  then have u: "unat (of_nat ?i :: u32) = ?i" by (intro unat_of_nat32) simp
  have ne: "(of_nat ?i :: u32) \<noteq> - 1" using lt u by (intro unat_lt_not_minus_1) simp
  have dis: "{?i..<?i + 1} \<inter> bit_used ?bm = {}" using first_free_notin [of ?bm] by auto
  have c: "0 < (1 :: u32)" "(1 :: u32) < 3840" by simp_all
  have scan: "bitmap_scan ?bm 1 = Inr (of_nat ?i)" by (rule bitmap_scan_one [OF bm ff])
  have le: "?i + 1 \<le> nbits ?bm" and room': "card (pool_used (kernel_pool s)) + 1 \<le> pool_pages (kernel_pool s)"
    using ff room by simp_all
  obtain ks pm p bm' where m: "let s' = s\<lparr>kernel_vaddr := (kernel_vaddr s)\<lparr>vaddr_bitmap := bm'\<rparr>, kernel_pool := p, pmem := pm\<rparr> in
           malloc_page PF_KERNEL 1 s = Inr (heap_page s ?i, s') \<and> kmem_ok s' \<and>
           length ks = 1 \<and> distinct ks \<and> set ks \<inter> pool_used (kernel_pool s) = {} \<and>
           set ks \<subseteq> {..<pool_pages (kernel_pool s)} \<and> pool_grows (kernel_pool s) (set ks) p \<and>
           nbits bm' = nbits ?bm \<and> bit_used bm' = bit_used ?bm \<union> {?i..<?i + 1} \<and>
           maps_run s' (heap_page s ?i) ks \<and> same_elsewhere s s' (heap_page s ?i) 1"
    using malloc_page_kernel [OF ok, of 1 "of_nat ?i", unfolded u unat_1, OF c scan ne le dis room']
    by (elim exE)
  obtain k where k: "ks = [k]" using m by (auto simp: Let_def length_Suc_conv)
  have "bit_used ?bm \<union> {?i..<?i + 1} = insert ?i (bit_used ?bm)" by auto
  with m k show ?thesis unfolding Let_def next_page_def maps_run_def
    by (intro exI [of _ k] exI [of _ pm] exI [of _ p] exI [of _ bm']) (simp add: pool_becomes_def)
qed

text \<open>The directory entries of the kernel do not change when kernel pages are mapped.\<close>

definition same_dir :: "('z) cpu_scheme \<Rightarrow> ('z) cpu_scheme \<Rightarrow> bool" where
  "same_dir s s' \<longleftrightarrow> cr3 s' = cr3 s \<and> (\<forall>v. pmem s' (pde_phys s v) = pmem s (pde_phys s v))"

lemma same_dir_apart: "same_dir s s' \<Longrightarrow> apart s' f = apart s f"
  by (simp add: same_dir_def apart_def pde_phys_def)

lemma same_dir_trans: "same_dir s s' \<Longrightarrow> same_dir s' s'' \<Longrightarrow> same_dir s s''"
  by (simp add: same_dir_def pde_phys_def)

lemma same_dir_cong: "cr3 s' = cr3 s \<Longrightarrow> pmem s' = pmem s \<Longrightarrow> same_dir s s'"
  by (simp add: same_dir_def)

lemma page_table_add_pte:
  assumes ok: "tables_ok s" "kernel_addr v" and add: "page_table_add v p s = Inr s'"
  shows "tables_ok s'" "same_dir s s'"
proof -
  have "\<exists>w. s' = s\<lparr>pmem := (pmem s)(pte_phys s v := w)\<rparr>"
    using tables_entry(1,2) [OF ok] add
    by (auto simp: page_table_add_def window present_def [symmetric] split: if_splits)
  then obtain w where w: "s' = s\<lparr>pmem := (pmem s)(pte_phys s v := w)\<rparr>" ..
  show "tables_ok s'" unfolding w by (rule tables_ok_pte(1) [OF ok])
  have "pde_phys s u \<noteq> pte_phys s v" for u using tables_entry(3) [OF ok, of u] by simp
  then show "same_dir s s'" by (simp add: w same_dir_def)
qed

lemma palloc_walk: "palloc pf s = Inr (a, s') \<Longrightarrow> cr3 s' = cr3 s \<and> pmem s' = pmem s"
  by (auto simp: palloc_def set_pool_def res_simps)

lemma map_pages_dir:
  assumes "tables_ok s" "\<And>k. k < n \<Longrightarrow> kernel_addr (page_at v k)" "map_pages pf n v s = Inr (b, s')"
  shows "same_dir s s'"
  using assms
proof (induction n arbitrary: v s)
  case (Suc n)
  obtain a s1 where a: "palloc pf s = Inr (a, s1)" using Suc.prems(3) by (auto simp: res_simps)
  note w = palloc_walk [OF a]
  show ?case
  proof (cases "a = NULL")
    case True
    then show ?thesis using Suc.prems(3) a w by (auto intro: same_dir_cong)
  next
    case False
    then obtain s2 where s2: "page_table_add v a s1 = Inr s2" "map_pages pf n (v + PAGE_SIZE) s2 = Inr (b, s')"
      using Suc.prems(3) a by (auto simp: res_simps)
    have t: "tables_ok s1" using walk_cong(2) [of s1 s] w Suc.prems(1) by simp
    have v: "kernel_addr v" using Suc.prems(2) [of 0] by simp
    note add = page_table_add_pte [OF t v s2(1)]
    have "kernel_addr (page_at (v + PAGE_SIZE) k)" if "k < n" for k using Suc.prems(2) [of "Suc k"] that by simp
    then have "same_dir s2 s'" using Suc.IH [OF add(1) _ s2(2)] by blast
    moreover have "same_dir s s1" using w by (intro same_dir_cong) simp_all
    ultimately show ?thesis using add(2) by (blast intro: same_dir_trans)
  qed
qed (simp add: same_dir_def)

lemma malloc_page_dir:
  assumes ok: "kmem_ok s" and left: "page_left s" and m: "malloc_page PF_KERNEL 1 s = Inr (v, s')"
    and v: "kernel_addr (next_page s)" "v = next_page s"
  shows "same_dir s s'"
proof -
  from m obtain u s1 where u: "vaddr_get PF_KERNEL 1 s = Inr (u, s1)" by (auto simp: malloc_page_def res_simps)
  then have w: "cr3 s1 = cr3 s" "pmem s1 = pmem s"
    by (auto simp: vaddr_get_def res_simps Let_def split: if_splits)
  have "same_dir s1 s'"
  proof (cases "u = NULL")
    case True
    then show ?thesis using m u by (auto simp: malloc_page_def res_simps intro: same_dir_cong)
  next
    case False
    then obtain b where b: "map_pages PF_KERNEL 1 u s1 = Inr (b, s')" "v = (if b then u else NULL)"
      using m u by (auto simp: malloc_page_def res_simps)
    moreover have "next_page s \<noteq> NULL" using v(1) by (auto simp: kernel_addr_def NULL_def)
    ultimately have "u = next_page s" using v(2) by (auto split: if_splits)
    moreover have "tables_ok s1" using walk_cong(2) [OF w] ok by (simp add: kmem_ok_def)
    ultimately show ?thesis using b(1) v(1) by (intro map_pages_dir [of s1 1 u PF_KERNEL b s']) simp_all
  qed
  moreover have "same_dir s s1" using w by (intro same_dir_cong) simp_all
  ultimately show ?thesis by (blast intro: same_dir_trans)
qed

lemma kmem_writes:
  assumes "kmem_ok s" "apart s f" "same_but f (pmem s) pm"
  shows "kmem_ok (s\<lparr>pmem := pm\<rparr>)"
proof -
  have t: "tables_ok s" using assms(1) by (simp add: kmem_ok_def)
  have h: "heap_page (s\<lparr>pmem := pm\<rparr>) i = heap_page s i" for i by (simp add: heap_page_def)
  show ?thesis using assms(1) writes_apart(1,3) [OF t assms(2,3)] unfolding kmem_ok_def h by simp
qed

lemma same_dir_writes:
  assumes "apart s f" "same_but f (pmem s) pm"
  shows "same_dir s (s\<lparr>pmem := pm\<rparr>)"
proof -
  have "page_frame (pde_phys s v) \<noteq> f" for v using assms(1) by (auto simp: apart_def pde_phys_def entry_frame)
  with assms(2) show ?thesis by (simp add: same_dir_def same_but_def)
qed

text \<open>What one page from the kernel is: mapped to a frame \<open>f\<close> of its own, and all zero.\<close>

definition page_given :: "family \<Rightarrow> ('z) mstate_scheme \<Rightarrow> ('z) mstate_scheme \<Rightarrow> u32 \<Rightarrow> bool" where
  "page_given F s s' f \<longleftrightarrow> pages_ready F s' \<and> plain s' (next_page s) f \<and>
     (\<forall>k<1024. pmem s' (f + of_nat (4 * k)) = 0) \<and>
     (\<forall>x. lmem s' x = (if in_block (next_page s) 4096 x then Some \<lparr>le_prev = 0, le_next = 0\<rparr> else lmem s x)) \<and>
     same_dir s s' \<and> same_elsewhere s s' (next_page s) 1 \<and>
     s' = s\<lparr>lmem := lmem s', pmem := pmem s', kernel_pool := kernel_pool s', kernel_vaddr := kernel_vaddr s'\<rparr>"

lemma pages_readyI:
  assumes old: "pages_ready F s" and k: "kmem_ok s'" "same_dir s s'"
    and pool: "pool_becomes (kernel_pool s) U (kernel_pool s')" "pool_used (kernel_pool s) \<subseteq> U"
    and map: "vaddr_start (kernel_vaddr s') = vaddr_start (kernel_vaddr s)"
      "nbits (vaddr_bitmap (kernel_vaddr s')) = nbits (vaddr_bitmap (kernel_vaddr s))"
      "bit_used (vaddr_bitmap (kernel_vaddr s)) \<subseteq> bit_used (vaddr_bitmap (kernel_vaddr s'))"
    and rest: "lists_at (lmem s') F" "locks s' = locks s" "sem_value s' = sem_value s" "esp s' = esp s"
  shows "pages_ready F s'"
proof -
  have h: "heap_page s' i = heap_page s i" for i using map(1) by (simp add: heap_page_def)
  have p: "pool_lock (kernel_pool s') = pool_lock (kernel_pool s)" "pool_used (kernel_pool s') = U"
    "pool_pages (kernel_pool s') = pool_pages (kernel_pool s)" "pool_page (kernel_pool s') = pool_page (kernel_pool s)"
    using pool(1) by (simp_all add: pool_becomes_def)
  have lk: "lock_idle (pool_lock (kernel_pool s)) s' = lock_idle (pool_lock (kernel_pool s)) s"
    using rest by (simp add: lock_idle_def)
  show ?thesis
    using old pool(2) map(2,3) k(1) rest unfolding pages_ready_def p h lk same_dir_apart [OF k(2)]
    by (auto simp: running_thread_def)
qed

lemma in_page_4096: "in_block p (1 * PAGE_SIZE) x = in_block p 4096 x"
  by (simp add: PAGE_SIZE_def)

lemma get_one_page:
  assumes rdy: "pages_ready F s" and left: "page_left s"
  shows "\<exists>s' k. get_kernel_pages 1 s = Inr (next_page s, s') \<and> pages_ready F s' \<and> k < pool_pages (kernel_pool s) \<and>
           k \<notin> pool_used (kernel_pool s) \<and> translate s' (next_page s) = Some (pool_page (kernel_pool s) k) \<and>
           lmem s' = lmem (zero_heap (next_page s) 4096 s) \<and> same_dir s s' \<and> same_elsewhere s s' (next_page s) 1 \<and>
           s' = s\<lparr>lmem := lmem s', pmem := pmem s', kernel_pool := kernel_pool s', kernel_vaddr := kernel_vaddr s'\<rparr>"
proof -
  let ?lk = "pool_lock (kernel_pool s)"
  let ?h = "held ?lk s"
  have ok: "kmem_ok s" and idle: "lock_idle ?lk s" and run: "running_thread s \<noteq> NULL" and F: "lists_at (lmem s) F"
    and w: "F (sema_waiters (lock_sem ?lk)) = Some []"
    and pg: "\<And>i l xs x. i < nbits (vaddr_bitmap (kernel_vaddr s)) \<Longrightarrow> i \<notin> bit_used (vaddr_bitmap (kernel_vaddr s)) \<Longrightarrow>
        F l = Some xs \<Longrightarrow> x \<in> nodes l xs \<Longrightarrow> \<not> in_block (heap_page s i) 4096 x"
    using rdy unfolding pages_ready_def by blast+
  have h: "cr3 ?h = cr3 s" "pmem ?h = pmem s" "kernel_pool ?h = kernel_pool s" "kernel_vaddr ?h = kernel_vaddr s"
    "lmem ?h = lmem s" "running_thread ?h = running_thread s" "next_page ?h = next_page s"
    by (simp_all add: held_def running_thread_def next_page_def heap_page_def)
  have hk: "kmem_ok ?h" using kmem_ok_cong [of ?h s] h(1-4) ok by simp
  have hl: "page_left ?h" using left h(3,4) by (simp add: page_left_def)
  obtain k pm p bm where m: "let s' = ?h\<lparr>kernel_vaddr := (kernel_vaddr ?h)\<lparr>vaddr_bitmap := bm\<rparr>, kernel_pool := p, pmem := pm\<rparr> in
           malloc_page PF_KERNEL 1 ?h = Inr (next_page ?h, s') \<and> kmem_ok s' \<and>
           k \<notin> pool_used (kernel_pool ?h) \<and> k < pool_pages (kernel_pool ?h) \<and> pool_grows (kernel_pool ?h) {k} p \<and>
           nbits bm = nbits (vaddr_bitmap (kernel_vaddr ?h)) \<and>
           bit_used bm = insert (first_free (vaddr_bitmap (kernel_vaddr ?h))) (bit_used (vaddr_bitmap (kernel_vaddr ?h))) \<and>
           translate s' (next_page ?h) = Some (pool_page (kernel_pool ?h) k) \<and>
           same_elsewhere ?h s' (next_page ?h) 1"
    using malloc_one_page [OF hk hl] by (elim exE)
  let ?s1 = "?h\<lparr>kernel_vaddr := (kernel_vaddr s)\<lparr>vaddr_bitmap := bm\<rparr>, kernel_pool := p, pmem := pm\<rparr>"
  have m: "malloc_page PF_KERNEL 1 ?h = Inr (next_page s, ?s1)" "kmem_ok ?s1" "k \<notin> pool_used (kernel_pool s)"
    "k < pool_pages (kernel_pool s)" "pool_grows (kernel_pool s) {k} p" "nbits bm = nbits (vaddr_bitmap (kernel_vaddr s))"
    "bit_used bm = insert (first_free (vaddr_bitmap (kernel_vaddr s))) (bit_used (vaddr_bitmap (kernel_vaddr s)))"
    "translate ?s1 (next_page s) = Some (pool_page (kernel_pool s) k)" "same_elsewhere ?h ?s1 (next_page s) 1"
    using m unfolding Let_def h by blast+
  have ff: "first_free (vaddr_bitmap (kernel_vaddr s)) < nbits (vaddr_bitmap (kernel_vaddr s))"
    using left by (simp add: page_left_def)
  then have ka: "kernel_addr (next_page s)" using ok by (simp add: kmem_ok_def next_page_def)
  have nn: "next_page s \<noteq> NULL" using ka by (auto simp: kernel_addr_def NULL_def)
  have dir: "same_dir ?h ?s1" by (rule malloc_page_dir [OF hk hl m(1)]) (simp_all add: h(7) ka)
  let ?s2 = "zero_heap (next_page s) 4096 ?s1"
  have "\<not> in_block (next_page s) 4096 x" if "F l = Some xs" "x \<in> nodes l xs" for l xs x
    unfolding next_page_def using pg [OF ff first_free_notin that] .
  then have F2: "lists_at (lmem ?s2) F" using F h(5) by (intro zero_heap_lists) simp_all
  have pl: "pool_lock p = ?lk" using m(5) by (simp add: pool_becomes_def)
  have rel: "lock_release ?lk ?s2 = Inr (?s2\<lparr>sem_value := (sem_value ?s2)(lock_sem ?lk \<mapsto> 1),
      locks := (locks ?s2)(?lk \<mapsto> \<lparr>holder = NULL, holder_repeat_nr = 0\<rparr>)\<rparr>)"
    by (rule release_held [OF _ _ F2 w]) (simp_all add: zero_heap_def held_def running_thread_def)
  let ?s3 = "s\<lparr>lmem := lmem ?s2, pmem := pm, kernel_pool := p, kernel_vaddr := (kernel_vaddr s)\<lparr>vaddr_bitmap := bm\<rparr>\<rparr>"
  have eq: "?s2\<lparr>sem_value := (sem_value ?s2)(lock_sem ?lk \<mapsto> 1),
      locks := (locks ?s2)(?lk \<mapsto> \<lparr>holder = NULL, holder_repeat_nr = 0\<rparr>)\<rparr> = ?s3"
    using unheld [OF idle] by (simp add: zero_heap_def held_def)
  have "get_kernel_pages 1 s = Inr (next_page s, ?s3)"
    using acquire_idle [OF idle run] m(1) nn rel pl eq
    by (simp add: get_kernel_pages_def PAGE_SIZE_def) (simp add: zero_heap_def)
  moreover have walk: "cr3 ?s1 = cr3 ?s3" "pmem ?s1 = pmem ?s3" using h(1) by simp_all
  moreover have "kmem_ok ?s3"
    using m(2) kmem_ok_cong [of ?s3 ?s1] h(1) by simp
  moreover have "same_dir s ?s3" using dir h(1,2) by (simp add: same_dir_def pde_phys_def)
  moreover have "translate ?s3 (next_page s) = Some (pool_page (kernel_pool s) k)"
    using m(8) walk_cong(1) [OF walk] by simp
  moreover have "same_elsewhere s ?s3 (next_page s) 1"
    using m(9) walk_cong(1) [OF walk] walk_cong(1) [OF h(1,2)] by (simp add: same_elsewhere_def)
  moreover have "pages_ready F ?s3"
    using m(5,6,7) F2 by (intro pages_readyI [OF rdy calculation(4,5)]) auto
  moreover have "lmem ?s2 = lmem (zero_heap (next_page s) 4096 s)" using h(5) by (simp add: zero_heap_def cong: if_cong)
  ultimately show ?thesis using m(3,4) by (intro exI [of _ ?s3] exI [of _ k]) simp
qed

lemma pool_page_off: "pool_ok p \<Longrightarrow> page_off (pool_page p k) = 0"
  by (simp add: pool_page_def page_off_add pool_ok_def)

lemma pages_ready_writes:
  assumes "pages_ready F s" "apart s f" "same_but f (pmem s) pm"
  shows "pages_ready F (s\<lparr>pmem := pm\<rparr>)"
proof -
  have "pool_ok (kernel_pool s)" "kmem_ok s" using assms(1) by (simp_all add: pages_ready_def kmem_ok_def)
  then show ?thesis
    using assms by (intro pages_readyI [OF assms(1) kmem_writes [OF _ assms(2,3)] same_dir_writes [OF assms(2,3)],
        of "pool_used (kernel_pool s)"]) (simp_all add: pool_becomes_def pages_ready_def)
qed

lemma kernel_page_given:
  assumes rdy: "pages_ready F s" and left: "page_left s"
  shows "\<exists>s' f. kernel_pages 1 s = Inr (next_page s, s') \<and> page_given F s s' f"
proof -
  let ?p = "next_page s"
  obtain s1 k where s1: "get_kernel_pages 1 s = Inr (?p, s1)" "pages_ready F s1" "k < pool_pages (kernel_pool s)"
    "k \<notin> pool_used (kernel_pool s)" "translate s1 ?p = Some (pool_page (kernel_pool s) k)"
    "lmem s1 = lmem (zero_heap ?p 4096 s)" "same_dir s s1" "same_elsewhere s s1 ?p 1"
    "s1 = s\<lparr>lmem := lmem s1, pmem := pmem s1, kernel_pool := kernel_pool s1, kernel_vaddr := kernel_vaddr s1\<rparr>"
    using get_one_page [OF assms] by blast
  let ?f = "pool_page (kernel_pool s) k"
  have ok: "kmem_ok s" "first_free (vaddr_bitmap (kernel_vaddr s)) < nbits (vaddr_bitmap (kernel_vaddr s))"
    using rdy left by (simp_all add: pages_ready_def page_left_def)
  then have p: "kernel_addr ?p" "page_off ?p = 0" by (simp_all add: kmem_ok_def next_page_def heap_page_def)
  then have nn: "?p \<noteq> NULL" by (auto simp: kernel_addr_def NULL_def)
  have "apart s ?f" using rdy s1(3,4) by (simp add: pages_ready_def)
  then have ap: "apart s1 ?f" using same_dir_apart [OF s1(7)] by simp
  have "page_off ?f = 0" using ok by (intro pool_page_off) (simp add: kmem_ok_def)
  then have pl: "plain s1 ?p ?f" using s1(2,5) p ap by (simp add: plain_def pages_ready_def kmem_ok_def)
  from zero_words_plain [OF pl, of 0 1024] obtain pm where
    pm: "zero_words 1024 ?p s1 = Inr (s1\<lparr>pmem := pm\<rparr>)" "same_but ?f (pmem s1) pm"
      "\<forall>k<1024. pm (?f + of_nat (4 * k)) = 0" by auto
  let ?s = "s1\<lparr>pmem := pm\<rparr>"
  have "plain ?s ?p ?f" by (rule plain_writes [OF pl pm(2) ap])
  moreover have "pages_ready F ?s" by (rule pages_ready_writes [OF s1(2) ap pm(2)])
  moreover have "same_dir s ?s" using same_dir_trans [OF s1(7) same_dir_writes [OF ap pm(2)]] .
  moreover have "same_elsewhere s ?s ?p 1"
    using s1(8) writes_apart(3) [OF _ ap pm(2)] pl by (simp add: same_elsewhere_def plain_def)
  moreover have "?s = s\<lparr>lmem := lmem ?s, pmem := pmem ?s, kernel_pool := kernel_pool ?s, kernel_vaddr := kernel_vaddr ?s\<rparr>"
    using arg_cong [OF s1(9), of "\<lambda>s. s\<lparr>pmem := pm\<rparr>"] by simp
  moreover have "lmem ?s x = (if in_block ?p 4096 x then Some \<lparr>le_prev = 0, le_next = 0\<rparr> else lmem s x)" for x
    by (simp add: s1(6) zero_heap_def in_block_def)
  ultimately have "page_given F s ?s ?f" using pm(3) unfolding page_given_def by simp
  moreover have "kernel_pages 1 s = Inr (?p, ?s)" using s1(1) nn pm(1) by (simp add: kernel_pages_def)
  ultimately show ?thesis by blast
qed

section \<open>A new thread\<close>

text \<open>Nobody uses the lock of the process numbers.\<close>

definition pids_ready :: "family \<Rightarrow> ('z) pstate_scheme \<Rightarrow> bool" where
  "pids_ready F s \<longleftrightarrow> lock_idle (pid_lock s) s \<and> running_thread s \<noteq> NULL \<and> lists_at (lmem s) F \<and>
     F (sema_waiters (lock_sem (pid_lock s))) = Some []"

lemma allocate_pid_ok:
  assumes "pids_ready F s"
  shows "allocate_pid s = Inr (next_pid s + 1, s\<lparr>next_pid := next_pid s + 1\<rparr>)"
proof -
  let ?lk = "pid_lock s" and ?s = "(held (pid_lock s) s)\<lparr>next_pid := next_pid s + 1\<rparr>"
  have idle: "lock_idle ?lk s" and run: "running_thread s \<noteq> NULL"
    and F: "lists_at (lmem ?s) F" "F (sema_waiters (lock_sem ?lk)) = Some []"
    using assms by (simp_all add: pids_ready_def held_def)
  have "lock_release ?lk ?s = Inr (?s\<lparr>sem_value := (sem_value ?s)(lock_sem ?lk \<mapsto> 1),
      locks := (locks ?s)(?lk \<mapsto> \<lparr>holder = NULL, holder_repeat_nr = 0\<rparr>)\<rparr>)"
    by (rule release_held [OF _ _ F]) (simp_all add: held_def running_thread_def)
  then show ?thesis
    using acquire_idle [OF idle run] unheld [OF idle] by (simp add: allocate_pid_def held_def)
qed

definition new_task :: "u32 \<Rightarrow> 16 word \<Rightarrow> u8 list \<Rightarrow> u8 \<Rightarrow> task_status \<Rightarrow> task_struct" where
  "new_task p n name prio st = zero_task\<lparr>self_kernel_stack := p + 4096, pid := n, status := st,
     tname := name @ replicate (16 - length name) 0, priority := prio, ticks := prio,
     fd_table := [0, 1, 2, -1, -1, -1, -1, -1], parent_pid := -1, stack_magic := TASK_STACK_MAGIC_VALUE\<rparr>"

lemma copy_task_name:
  assumes "nul_free name" "length name \<le> 16"
  shows "strlen (Some (name @ [0])) = Inr (of_nat (length name))"
    "strncpy (Some (replicate 16 0)) (Some (name @ [0])) (of_nat (length name)) =
       Inr (name @ replicate (16 - length name) 0)"
  using assms strncpy_loop_cstr [of name "length name" "replicate 16 0" "[0]"]
  by (simp_all add: strncpy_def unat_of_nat32)

lemma init_thread_ok:
  assumes p: "p \<noteq> NULL" and rdy: "pids_ready F s" and name: "nul_free name" "length name \<le> 16"
    and fresh: "\<And>l xs x. F l = Some xs \<Longrightarrow> x \<in> nodes l xs \<Longrightarrow> \<not> in_block p sizeof_task x"
  shows "init_thread p (name @ [0]) prio s =
           Inr ((clear_task p s)\<lparr>tasks := (tasks s)(p \<mapsto> new_task p (next_pid s + 1) name prio
                  (if p = main_thread s then TASK_RUNNING else TASK_READY)), next_pid := next_pid s + 1\<rparr>)"
proof -
  let ?c = "clear_task p s"
  have c: "pid_lock ?c = pid_lock s" "next_pid ?c = next_pid s" "main_thread ?c = main_thread s"
    "running_thread ?c = running_thread s" "lock_idle l ?c = lock_idle l s" "tasks ?c = (tasks s)(p \<mapsto> zero_task)" for l
    by (simp_all add: clear_task_def zero_heap_def running_thread_def lock_idle_def)
  have "lists_at (lmem ?c) F"
    unfolding clear_task_def using rdy by (intro zero_heap_lists) (simp_all add: pids_ready_def fresh del: nodes_simps)
  then have "pids_ready F ?c" using rdy by (simp add: pids_ready_def c)
  from allocate_pid_ok [OF this] show ?thesis
    using p copy_task_name [OF name]
    by (simp add: init_thread_def c upd_task_def get_task_def new_task_def zero_task_def PAGE_SIZE_def)
qed

text \<open>The stack of a new thread lies 432 bytes below the end of its page.\<close>

definition first_frame :: "u32 \<Rightarrow> u32 \<Rightarrow> u32 \<Rightarrow> (u32 \<times> u32) list" where
  "first_frame k func arg = [(16, k), (24, func), (28, arg), (0, 0), (4, 0), (12, 0), (8, 0)]"

lemma thread_create_ok:
  assumes t: "tasks s p = Some t" "self_kernel_stack t = p + 4096" and pl: "plain s p f"
    and pm_def: "pm = put_fields (f + 3664) (first_frame (kernel_thread_ptr s) func arg) (pmem s)"
  shows "thread_create p func arg s =
           Inr (s\<lparr>tasks := (tasks s)(p \<mapsto> t\<lparr>self_kernel_stack := p + 3664\<rparr>), pmem := pm\<rparr>)"
    "same_but f (pmem s) pm" "switch_return (p + 3664) (s\<lparr>pmem := pm\<rparr>) = Inr (kernel_thread_ptr s, func, arg)"
proof -
  let ?fs = "first_frame (kernel_thread_ptr s) func arg"
  let ?s = "s\<lparr>tasks := (tasks s)(p \<mapsto> t\<lparr>self_kernel_stack := p + 3664\<rparr>)\<rparr>"
  have w: "cr3 ?s = cr3 s" "pmem ?s = pmem s" by simp_all
  have off: "3664 + off < 4096" if "(off, w) \<in> set ?fs" for off w using that by (auto simp: first_frame_def)
  have "plain ?s p f" using pl walk_cong [OF w] by (simp add: plain_def)
  from store_fields_plain [OF this off]
  have st: "store_fields (p + 3664) ?fs ?s = Inr (?s\<lparr>pmem := pm\<rparr>)" and sb: "same_but f (pmem s) pm"
    by (simp_all add: pm_def)
  show "thread_create p func arg s =
           Inr (s\<lparr>tasks := (tasks s)(p \<mapsto> t\<lparr>self_kernel_stack := p + 3664\<rparr>), pmem := pm\<rparr>)"
    using st t by (simp add: thread_create_def upd_task_def get_task_def sizeof_intr_stack_def
        sizeof_thread_stack_def first_frame_def add.commute [of p] del: store_fields.simps)
  show "same_but f (pmem s) pm" by (rule sb)
  have "plain (s\<lparr>pmem := pm\<rparr>) p f" using pl sb by (intro plain_writes [OF pl sb]) (simp add: plain_def)
  from plain_access(1) [OF this, of "3680"] plain_access(1) [OF this, of "3688"] plain_access(1) [OF this, of "3692"]
  show "switch_return (p + 3664) (s\<lparr>pmem := pm\<rparr>) = Inr (kernel_thread_ptr s, func, arg)"
    by (simp add: switch_return_def add.assoc pm_def first_frame_def)
qed

lemma enlist_ok:
  assumes F: "lists_at (lmem s) F" "F (thread_ready_list s) = Some rs" "F (thread_all_list s) = Some ts"
      "thread_ready_list s \<noteq> thread_all_list s"
    and tags: "unlisted F (general_tag p)" "unlisted F (all_list_tag p)" "general_tag p \<in> dom (lmem s)"
      "all_list_tag p \<in> dom (lmem s)"
  shows "\<exists>m. enlist p s = Inr (s\<lparr>lmem := m\<rparr>) \<and> dom m = dom (lmem s) \<and>
           lists_at m (F(thread_ready_list s \<mapsto> rs @ [general_tag p], thread_all_list s \<mapsto> ts @ [all_list_tag p]))"
proof -
  let ?F = "F(thread_ready_list s \<mapsto> rs @ [general_tag p])"
  obtain m1 where m1: "list_append (thread_ready_list s) (general_tag p) s = Inr (s\<lparr>lmem := m1\<rparr>)"
    "lists_at m1 ?F" "dom m1 = dom (lmem s)" using list_append_family [OF F(1,2) tags(1,3)] by blast
  have ne: "all_list_tag p \<noteq> general_tag p" by (simp add: all_list_tag_def general_tag_def)
  have un: "unlisted ?F (all_list_tag p)"
    using tags(2) F(2) ne unfolding unlisted_def by (auto simp: fun_upd_apply split: if_splits)
  obtain m2 where m2: "list_append (thread_all_list s) (all_list_tag p) (s\<lparr>lmem := m1\<rparr>) = Inr (s\<lparr>lmem := m2\<rparr>)"
    "lists_at m2 (?F(thread_all_list s \<mapsto> ts @ [all_list_tag p]))" "dom m2 = dom (lmem s)"
    using list_append_family [of "s\<lparr>lmem := m1\<rparr>" ?F "thread_all_list s" ts "all_list_tag p"] m1 un F(3,4) tags(4) by auto
  have "elem_find (thread_ready_list s) (general_tag p) s = Inr False"
    using elem_find_family [OF F(1,2)] tags(1) F(2) by (fastforce simp: unlisted_def)
  moreover have "elem_find (thread_all_list s) (all_list_tag p) (s\<lparr>lmem := m1\<rparr>) = Inr False"
    using elem_find_family [of "s\<lparr>lmem := m1\<rparr>" ?F "thread_all_list s" ts] m1(2) tags(2) F(3,4)
    by (fastforce simp: unlisted_def)
  ultimately show ?thesis using m1(1) m2 by (intro exI [of _ m2]) (simp add: enlist_def list_all_def)
qed

definition task_ok :: "u32 \<Rightarrow> task_struct \<Rightarrow> bool" where
  "task_ok p t \<longleftrightarrow> length (tname t) = 16 \<and> 0 \<in> set (tname t) \<and> length (fd_table t) = 8 \<and>
     take 3 (fd_table t) = [0, 1, 2] \<and> stack_magic t = TASK_STACK_MAGIC_VALUE \<and>
     page_frame (self_kernel_stack t + 16) = p"

lemma new_task_ok:
  assumes "page_off p = 0" "length name < 16"
  shows "task_ok p ((new_task p n name prio st)\<lparr>self_kernel_stack := p + 3664\<rparr>)"
  using assms frame_word(1) [OF assms(1), of 3680] by (simp add: task_ok_def new_task_def add.assoc add.commute [of p])

lemma next_page_fresh:
  assumes "pages_ready F s" "page_left s" "F l = Some xs" "x \<in> nodes l xs"
  shows "\<not> in_block (next_page s) 4096 x"
  using assms first_free_notin [of "vaddr_bitmap (kernel_vaddr s)"]
  unfolding pages_ready_def page_left_def next_page_def by blast

lemma tags_in_page: "in_block p 4096 (general_tag p)" "in_block p 4096 (all_list_tag p)"
  by (simp_all add: in_block_def general_tag_def all_list_tag_def)

text \<open>The new page of a thread with its structure filled in, before its stack is built.\<close>

lemma thread_page:
  assumes rdy: "pages_ready F s" "page_left s" and pids: "pids_ready F s"
    and name: "nul_free name" "length name < 16" and main: "next_page s \<noteq> main_thread s"
  shows "\<exists>s1 s2 f. kernel_pages 1 s = Inr (next_page s, s1) \<and> page_given F s s1 f \<and>
           init_thread (next_page s) (name @ [0]) prio s1 = Inr s2 \<and> plain s2 (next_page s) f \<and>
           pages_ready F s2 \<and> lmem s2 = lmem s1 \<and>
           tasks s2 = (tasks s)(next_page s \<mapsto> new_task (next_page s) (next_pid s + 1) name prio TASK_READY) \<and>
           s2 = s1\<lparr>tasks := tasks s2, mdescs := mdescs s2, next_pid := next_pid s + 1\<rparr>"
proof -
  let ?p = "next_page s"
  obtain s1 f where s1: "kernel_pages 1 s = Inr (?p, s1)" "page_given F s s1 f" using kernel_page_given [OF rdy] by blast
  have keep: "s1 = s\<lparr>lmem := lmem s1, pmem := pmem s1, kernel_pool := kernel_pool s1, kernel_vaddr := kernel_vaddr s1\<rparr>"
    and pl: "plain s1 ?p f" and rd: "pages_ready F s1"
    and m: "lmem s1 x = (if in_block ?p 4096 x then Some \<lparr>le_prev = 0, le_next = 0\<rparr> else lmem s x)" for x
    using s1(2) unfolding page_given_def by blast+
  have eqs: "tasks s1 = tasks s" "next_pid s1 = next_pid s" "main_thread s1 = main_thread s" "pid_lock s1 = pid_lock s"
    "running_thread s1 = running_thread s" "lock_idle l s1 = lock_idle l s" for l
    by (subst keep; simp add: running_thread_def lock_idle_def)+
  have p: "?p \<noteq> NULL" using pl by (auto simp: plain_def kernel_addr_def NULL_def)
  have pids1: "pids_ready F s1" using pids rd by (simp add: pids_ready_def eqs pages_ready_def)
  have fresh: "\<not> in_block ?p sizeof_task x" if "F l = Some xs" "x \<in> nodes l xs" for l xs x
    using next_page_fresh [OF rdy that] by (auto simp: in_block_def sizeof_task_def word_less_nat_alt)
  let ?c = "clear_task ?p s1"
  have lm: "lmem ?c = lmem s1"
    using m by (auto simp: clear_task_def zero_heap_def in_block_def sizeof_task_def word_less_nat_alt fun_eq_iff)
  let ?s2 = "?c\<lparr>tasks := (tasks s)(?p \<mapsto> new_task ?p (next_pid s + 1) name prio TASK_READY), next_pid := next_pid s + 1\<rparr>"
  have "init_thread ?p (name @ [0]) prio s1 = Inr ?s2"
    using init_thread_ok [OF p pids1 name(1) _ fresh] name(2) main by (simp add: eqs)
  moreover have "?s2 = s1\<lparr>tasks := tasks ?s2, mdescs := mdescs ?s2, next_pid := next_pid s + 1\<rparr>"
    using lm unfolding clear_task_def zero_heap_def by simp
  moreover have w: "cr3 ?s2 = cr3 s1" "pmem ?s2 = pmem s1" "lmem ?s2 = lmem s1"
    using lm by (simp_all add: clear_task_def zero_heap_def)
  moreover have "plain ?s2 ?p f" using pl walk_cong [OF w(1,2)] by (simp add: plain_def)
  moreover have "pages_ready F ?s2"
  proof (rule pages_readyI [OF rd])
    show "kmem_ok ?s2"
      using rd kmem_ok_cong [of ?s2 s1] w(1,2) by (simp add: pages_ready_def clear_task_def zero_heap_def)
    show "same_dir s1 ?s2" using w(1,2) by (rule same_dir_cong)
    show "pool_becomes (kernel_pool s1) (pool_used (kernel_pool s1)) (kernel_pool ?s2)"
      using rd by (simp add: pool_becomes_def clear_task_def zero_heap_def pages_ready_def kmem_ok_def)
    show "lists_at (lmem ?s2) F" using rd w(3) by (simp add: pages_ready_def)
  qed (simp_all add: clear_task_def zero_heap_def)
  moreover have "tasks ?s2 = (tasks s)(?p \<mapsto> new_task ?p (next_pid s + 1) name prio TASK_READY)" by simp
  ultimately show ?thesis using s1 by (intro exI [of _ s1] exI [of _ ?s2] exI [of _ f] conjI)
qed

lemma thread_start_ok:
  assumes rdy: "pages_ready F s" "page_left s" and pids: "pids_ready F s"
    and rel: "sched_rel F s a" "F (thread_all_list s) = Some ts" "thread_ready_list s \<noteq> thread_all_list s"
    and name: "nul_free name" "length name < 16" and main: "next_page s \<noteq> main_thread s" and p: "p = next_page s"
    and F': "F' = F(thread_ready_list s \<mapsto> map general_tag (aready a @ [p]), thread_all_list s \<mapsto> ts @ [all_list_tag p])"
  shows "\<exists>s' t. thread_start (name @ [0]) prio func arg s = Inr (p, s') \<and>
           sched_rel F' s' (a\<lparr>aready := aready a @ [p], astat := (astat a)(p \<mapsto> TASK_READY)\<rparr>) \<and>
           tasks s' = (tasks s)(p \<mapsto> t) \<and> task_ok p t \<and> pid t = next_pid s + 1 \<and> pg_dir t = NULL \<and> kmem_ok s' \<and>
           switch_return (self_kernel_stack t) s' = Inr (kernel_thread_ptr s, func, arg) \<and> same_elsewhere s s' p 1"
proof -
  obtain s1 s2 f where s2: "kernel_pages 1 s = Inr (p, s1)" "page_given F s s1 f"
    "init_thread p (name @ [0]) prio s1 = Inr s2" "plain s2 p f" "pages_ready F s2" "lmem s2 = lmem s1"
    "tasks s2 = (tasks s)(p \<mapsto> new_task p (next_pid s + 1) name prio TASK_READY)"
    "s2 = s1\<lparr>tasks := tasks s2, mdescs := mdescs s2, next_pid := next_pid s + 1\<rparr>"
    using thread_page [OF rdy pids name main] unfolding p by blast
  let ?t = "new_task p (next_pid s + 1) name prio TASK_READY"
  have off: "page_off p = 0" and ap: "apart s2 f" and tb: "tables_ok s2" using s2(4) by (simp_all add: plain_def)
  have k: "kernel_thread_ptr s2 = kernel_thread_ptr s" "running_thread s2 = running_thread s"
    "thread_ready_list s2 = thread_ready_list s" "thread_all_list s2 = thread_all_list s" "cr3 s2 = cr3 s" "cr3 s1 = cr3 s"
    "kernel_pool s2 = kernel_pool s1" "kernel_vaddr s2 = kernel_vaddr s1" "pmem s2 = pmem s1"
  proof -
    have keep: "s1 = s\<lparr>lmem := lmem s1, pmem := pmem s1, kernel_pool := kernel_pool s1, kernel_vaddr := kernel_vaddr s1\<rparr>"
      using s2(2) unfolding page_given_def by blast
    show k1: "cr3 s1 = cr3 s" by (subst keep) simp
    show "kernel_pool s2 = kernel_pool s1" "kernel_vaddr s2 = kernel_vaddr s1" "pmem s2 = pmem s1"
      by (subst s2(8); simp)+
    show "kernel_thread_ptr s2 = kernel_thread_ptr s" "running_thread s2 = running_thread s"
      "thread_ready_list s2 = thread_ready_list s" "thread_all_list s2 = thread_all_list s" "cr3 s2 = cr3 s"
      by (subst s2(8), subst keep, simp add: running_thread_def)+
  qed
  define pm where "pm = put_fields (f + 3664) (first_frame (kernel_thread_ptr s2) func arg) (pmem s2)"
  let ?s3 = "s2\<lparr>tasks := (tasks s2)(p \<mapsto> ?t\<lparr>self_kernel_stack := p + 3664\<rparr>), pmem := pm\<rparr>"
  have t2: "tasks s2 p = Some ?t" "self_kernel_stack ?t = p + 4096" using s2(7) by (simp_all add: new_task_def)
  note cr = thread_create_ok [OF t2 s2(4) pm_def]
  have m: "lmem s2 x = (if in_block p 4096 x then Some \<lparr>le_prev = 0, le_next = 0\<rparr> else lmem s x)" for x
    using s2(2,6) p by (simp add: page_given_def)
  have dom: "general_tag p \<in> dom (lmem ?s3)" "all_list_tag p \<in> dom (lmem ?s3)" using m tags_in_page [of p] by auto
  have un: "unlisted F (general_tag p)" "unlisted F (all_list_tag p)"
    using next_page_fresh [OF rdy] tags_in_page [of p] unfolding unlisted_def p by blast+
  have F3: "lists_at (lmem ?s3) F" "F (thread_ready_list ?s3) = Some (map general_tag (aready a))"
    "F (thread_all_list ?s3) = Some ts" "thread_ready_list ?s3 \<noteq> thread_all_list ?s3"
    using s2(5) rel k(3,4) by (simp_all add: pages_ready_def sched_rel_def)
  obtain mm where mm: "enlist p ?s3 = Inr (?s3\<lparr>lmem := mm\<rparr>)"
    "lists_at mm (F(thread_ready_list ?s3 \<mapsto> map general_tag (aready a) @ [general_tag p], thread_all_list ?s3 \<mapsto> ts @ [all_list_tag p]))"
    using enlist_ok [OF F3 un dom] by blast
  let ?s4 = "?s3\<lparr>lmem := mm\<rparr>" and ?t' = "?t\<lparr>self_kernel_stack := p + 3664\<rparr>"
  have run: "thread_start (name @ [0]) prio func arg s = Inr (p, ?s4)"
    using s2(1,3) cr(1) mm(1) by (simp add: thread_start_def)
  have w: "cr3 ?s4 = cr3 (s2\<lparr>pmem := pm\<rparr>)" "pmem ?s4 = pmem (s2\<lparr>pmem := pm\<rparr>)" by simp_all
  have "sched_rel F' ?s4 (a\<lparr>aready := aready a @ [p], astat := (astat a)(p \<mapsto> TASK_READY)\<rparr>)"
    using rel(1) mm(2) k(2-4) s2(7) unfolding sched_rel_def F'
    by (auto simp: running_thread_def new_task_def fun_eq_iff rel(3))
  moreover have "kmem_ok (s2\<lparr>pmem := pm\<rparr>)" using s2(5) kmem_writes [OF _ ap cr(2)] by (simp add: pages_ready_def)
  then have "kmem_ok ?s4" using kmem_ok_cong [OF w] by simp
  moreover have "switch_return (p + 3664) ?s4 = Inr (kernel_thread_ptr s, func, arg)"
    using cr(3) walk_cong(1) [OF w] k(1) by (simp add: switch_return_def load32_def)
  moreover have "same_elsewhere s ?s4 p 1"
    using s2(2) walk_cong(1) [OF w] writes_apart(3) [OF tb ap cr(2)] walk_cong(1) [of s2 s1] k(5,6,9) p
    by (simp add: page_given_def same_elsewhere_def)
  moreover have "tasks ?s4 = (tasks s)(p \<mapsto> ?t')" using s2(7) by simp
  moreover have "task_ok p ?t'" by (rule new_task_ok [OF off name(2)])
  ultimately show ?thesis using run
    by (intro exI [of _ ?s4] exI [of _ ?t'] conjI) (simp_all add: new_task_def zero_task_def)
qed

section \<open>A new page directory\<close>

lemma word_off_inj:
  assumes "f + of_nat i = f + (of_nat j :: u32)" "i < 4096" "j < 4096"
  shows "i = j"
proof -
  have "unat (of_nat i :: u32) = unat (of_nat j :: u32)" using assms(1) by simp
  then show ?thesis using assms(2,3) by (simp add: unat_of_nat32)
qed

text \<open>Copying words into a page \<open>p\<close> from a place that the writes to \<open>p\<close> do not touch.\<close>

lemma copy_words_page:
  assumes "plain s p f" "b + 4 * n \<le> 4096"
    and "\<And>k. k < 4096 \<Longrightarrow> page_frame (g + of_nat k) \<noteq> f"
    and "\<And>pm k. k < 4096 \<Longrightarrow> same_but f (pmem s) pm \<Longrightarrow> load32 (q + of_nat k) (s\<lparr>pmem := pm\<rparr>) = Inr (pm (g + of_nat k))"
  shows "\<exists>pm. copy_words n (p + of_nat b) (q + of_nat b) s = Inr (s\<lparr>pmem := pm\<rparr>) \<and> same_but f (pmem s) pm \<and>
           (\<forall>k<n. pm (f + of_nat (b + 4 * k)) = pmem s (g + of_nat (b + 4 * k))) \<and>
           (\<forall>a. (\<forall>k<n. a \<noteq> f + of_nat (b + 4 * k)) \<longrightarrow> pm a = pmem s a)"
  using assms
proof (induction n arbitrary: s b)
  case 0
  then show ?case by (intro exI [of _ "pmem s"]) simp
next
  case (Suc n)
  have b: "of_nat b < (4096 :: u32)" "b < 4096"
    using Suc.prems(2) by (simp_all add: word_less_nat_alt unat_of_nat32)
  note acc = plain_access [OF Suc.prems(1) b(1)]
  let ?w = "pmem s (g + of_nat b)"
  have ld: "load32 (q + of_nat b) s = Inr ?w" using Suc.prems(4) [OF b(2) same_but_refl] by simp
  let ?s = "s\<lparr>pmem := (pmem s)(f + of_nat b := ?w)\<rparr>"
  have sb: "same_but f (pmem s) (pmem ?s)" using acc(4) by simp
  have src: "load32 (q + of_nat k) (?s\<lparr>pmem := pm\<rparr>) = Inr (pm (g + of_nat k))"
    if "k < 4096" "same_but f (pmem ?s) pm" for pm k
    using Suc.prems(4) [OF that(1) same_but_trans [OF sb that(2)]] by simp
  have le: "b + 4 + 4 * n \<le> 4096" using Suc.prems(2) by simp
  obtain pm where
    pm: "copy_words n (p + of_nat (b + 4)) (q + of_nat (b + 4)) ?s = Inr (?s\<lparr>pmem := pm\<rparr>)" "same_but f (pmem ?s) pm"
    "\<forall>k<n. pm (f + of_nat (b + 4 + 4 * k)) = pmem ?s (g + of_nat (b + 4 + 4 * k))"
    "\<forall>a. (\<forall>k<n. a \<noteq> f + of_nat (b + 4 + 4 * k)) \<longrightarrow> pm a = pmem ?s a"
    using Suc.IH [OF acc(3) le Suc.prems(3) src] by blast
  have old: "pmem ?s (g + of_nat k) = pmem s (g + of_nat k)" if "k < 4096" for k
    using Suc.prems(3) [OF that] acc(4) by auto
  have z: "pm (f + of_nat b) = ?w"
  proof -
    have "f + of_nat b \<noteq> f + of_nat (b + 4 + 4 * k)" if "k < n" for k
    proof
      assume "f + of_nat b = f + of_nat (b + 4 + 4 * k)"
      then have "b = b + 4 + 4 * k" using that Suc.prems(2) by (intro word_off_inj) auto
      then show False by simp
    qed
    then show ?thesis using pm(4) by simp
  qed
  have "copy_words (Suc n) (p + of_nat b) (q + of_nat b) s = Inr (s\<lparr>pmem := pm\<rparr>)"
    using ld acc(2) [of ?w] pm(1) by (simp add: add.assoc add.commute [of 4])
  moreover have "same_but f (pmem s) pm" by (rule same_but_trans [OF sb pm(2)])
  moreover have "pm (f + of_nat (b + 4 * k)) = pmem s (g + of_nat (b + 4 * k))" if k: "k < Suc n" for k
  proof (cases k)
    case 0
    then show ?thesis using z by simp
  next
    case (Suc j)
    then have "pm (f + of_nat (b + 4 + 4 * j)) = pmem ?s (g + of_nat (b + 4 + 4 * j))" using pm(3) k by simp
    then show ?thesis using old [of "b + 4 + 4 * j"] Suc k Suc.prems(2) by (simp add: add.assoc)
  qed
  moreover have "pm a = pmem s a" if a: "\<forall>k<Suc n. a \<noteq> f + of_nat (b + 4 * k)" for a
  proof -
    have "a \<noteq> f + of_nat b" using a by (metis add_0_right mult_0_right zero_less_Suc)
    moreover have "a \<noteq> f + of_nat (b + 4 + 4 * k)" if "k < n" for k
      using a [rule_format, of "Suc k"] that by (simp add: algebra_simps)
    ultimately show ?thesis using pm(4) by simp
  qed
  ultimately show ?case by blast
qed

lemma load_window:
  assumes "self_mapped s" "k < 4096"
  shows "load32 (0xfffff000 + of_nat k) s = Inr (pmem s (page_frame (cr3 s) + of_nat k))"
proof -
  have k: "of_nat k < (4096 :: u32)" using assms(2) by (simp add: word_less_nat_alt unat_of_nat32)
  have off: "page_off 0xfffff000 = 0" by (simp add: page_off_def)
  note fw = frame_word [OF off k]
  have "PDE_IDX (0xfffff000 + of_nat k) = 0x3ff" "PTE_IDX (0xfffff000 + of_nat k) = 0x3ff"
    using PDE_IDX_page_frame [of "0xfffff000 + of_nat k"] PTE_IDX_page_frame [of "0xfffff000 + of_nat k"] fw(1)
    by (simp_all add: PDE_IDX_def PTE_IDX_def)
  then show ?thesis
    using assms(1) fw(2) by (simp add: load32_def translate_def pde_phys_def pte_phys_def self_mapped_def Let_def)
qed

lemma self_mapped_writes:
  assumes "self_mapped s" "f \<noteq> page_frame (cr3 s)" "same_but f (pmem s) pm"
  shows "self_mapped (s\<lparr>pmem := pm\<rparr>)"
proof -
  have "page_frame (page_frame (cr3 s) + 0x3ff * 4) = page_frame (cr3 s)"
    using entry_frame(2) [of "cr3 s" "0xffffffff"] by (simp add: PDE_IDX_def)
  then show ?thesis using assms by (simp add: self_mapped_def same_but_def)
qed

lemma create_page_dir_ok:
  assumes rdy: "pages_ready F s" and left: "page_left s"
  shows "\<exists>s1 f pm. create_page_dir s = Inr (next_page s, s1\<lparr>pmem := pm\<rparr>) \<and> page_given F s s1 f \<and>
           same_but f (pmem s1) pm \<and> (\<forall>k<768. pm (f + of_nat (4 * k)) = 0) \<and> pm (f + of_nat (4 * 1023)) = entry_bits f \<and>
           (\<forall>k. 768 \<le> k \<longrightarrow> k < 1023 \<longrightarrow> pm (f + of_nat (4 * k)) = pmem s1 (page_frame (cr3 s) + of_nat (4 * k)))"
proof -
  let ?p = "next_page s"
  obtain s1 f where s1: "kernel_pages 1 s = Inr (?p, s1)" "page_given F s s1 f"
    using kernel_page_given [OF rdy left] by blast
  have pl: "plain s1 ?p f" and zero: "\<forall>k<1024. pmem s1 (f + of_nat (4 * k)) = 0" and cr: "cr3 s1 = cr3 s"
    using s1(2) unfolding page_given_def same_dir_def by blast+
  have sm: "self_mapped s1" and ap: "apart s1 f" and nn: "?p \<noteq> NULL" and off: "page_off f = 0"
    using pl by (auto simp: plain_def tables_ok_def kernel_addr_def NULL_def)
  have ne: "f \<noteq> page_frame (cr3 s1)" using ap by (simp add: apart_def)
  have fr: "page_frame (page_frame (cr3 s1) + of_nat k) = page_frame (cr3 s1)" if "k < 4096" for k
    using that by (intro frame_word) (auto simp: word_less_nat_alt unat_of_nat32 intro!: bit_word_eqI simp: page_bits)
  have src: "load32 (0xfffff000 + of_nat k) (s1\<lparr>pmem := pm\<rparr>) = Inr (pm (page_frame (cr3 s1) + of_nat k))"
    if "k < 4096" "same_but f (pmem s1) pm" for pm k
    using load_window [OF self_mapped_writes [OF sm ne that(2)] that(1)] by simp
  have ne': "page_frame (page_frame (cr3 s1) + of_nat k) \<noteq> f" if "k < 4096" for k using fr [OF that] ne by simp
  have b: "3072 + 4 * 256 \<le> (4096 :: nat)" by simp
  obtain pm where pm: "copy_words 256 (?p + of_nat 3072) (0xfffff000 + of_nat 3072) s1 = Inr (s1\<lparr>pmem := pm\<rparr>)"
    "same_but f (pmem s1) pm"
    "\<forall>k<256. pm (f + of_nat (3072 + 4 * k)) = pmem s1 (page_frame (cr3 s1) + of_nat (3072 + 4 * k))"
    "\<forall>a. (\<forall>k<256. a \<noteq> f + of_nat (3072 + 4 * k)) \<longrightarrow> pm a = pmem s1 a"
    using copy_words_page [OF pl b ne' src] by blast
  let ?s2 = "s1\<lparr>pmem := pm\<rparr>" and ?pm = "pm(f + of_nat (4 * 1023) := entry_bits f)"
  have pl2: "plain ?s2 ?p f" by (rule plain_writes [OF pl pm(2) ap])
  then have v2p: "addr_v2p ?p ?s2 = Inr f" using addr_v2p_translate [of ?s2 ?p f] by (simp add: plain_def tables_ok_def)
  have lt: "(4092 :: u32) < 4096" by simp
  have run: "create_page_dir s = Inr (?p, s1\<lparr>pmem := ?pm\<rparr>)"
    using s1(1) nn pm(1) v2p plain_access(2) [OF pl2 lt] by (simp add: create_page_dir_def add.commute)
  have "page_frame (f + of_nat (4 * 1023)) = f" using plain_access(4) [OF pl2 lt] by simp
  then have sb: "same_but f (pmem s1) ?pm" using pm(2) by simp
  have "?pm (f + of_nat (4 * k)) = 0" if k: "k < 768" for k
  proof -
    have "f + of_nat (4 * k) \<noteq> f + of_nat (3072 + 4 * j)" if "j < 256" for j
      using word_off_inj [of f "4 * k" "3072 + 4 * j"] k that by auto
    moreover have "f + of_nat (4 * k) \<noteq> f + of_nat (4 * 1023)" using word_off_inj [of f "4 * k" "4 * 1023"] k by auto
    ultimately show ?thesis using pm(4) zero k by simp
  qed
  moreover have "?pm (f + of_nat (4 * k)) = pmem s1 (page_frame (cr3 s) + of_nat (4 * k))" if k: "768 \<le> k" "k < 1023" for k
  proof -
    have "f + of_nat (4 * k) \<noteq> f + of_nat (4 * 1023)" using word_off_inj [of f "4 * k" "4 * 1023"] k by auto
    moreover have "4 * k = 3072 + 4 * (k - 768)" using k by simp
    ultimately show ?thesis using pm(3) [rule_format, of "k - 768"] k cr by simp
  qed
  ultimately show ?thesis using run s1(2) sb by (intro exI [of _ s1] exI [of _ f] exI [of _ ?pm]) simp
qed

lemma page_dir_walk:
  assumes rdy: "pages_ready F s" and left: "page_left s"
  shows "\<exists>s' f. create_page_dir s = Inr (next_page s, s') \<and> addr_v2p (next_page s) s' = Inr f \<and>
           self_mapped (s'\<lparr>cr3 := f\<rparr>) \<and> (\<forall>v. kernel_addr v \<longrightarrow> translate (s'\<lparr>cr3 := f\<rparr>) v = translate s' v) \<and>
           (\<forall>v < 0xc0000000. translate (s'\<lparr>cr3 := f\<rparr>) v = None) \<and> pages_ready F s' \<and>
           same_elsewhere s s' (next_page s) 1"
proof -
  let ?p = "next_page s"
  obtain s1 f pm where c: "create_page_dir s = Inr (?p, s1\<lparr>pmem := pm\<rparr>)" "page_given F s s1 f"
    "same_but f (pmem s1) pm" "\<forall>k<768. pm (f + of_nat (4 * k)) = 0" "pm (f + of_nat (4 * 1023)) = entry_bits f"
    "\<forall>k. 768 \<le> k \<longrightarrow> k < 1023 \<longrightarrow> pm (f + of_nat (4 * k)) = pmem s1 (page_frame (cr3 s) + of_nat (4 * k))"
    using create_page_dir_ok [OF assms] by blast
  let ?s = "s1\<lparr>pmem := pm\<rparr>" and ?u = "s1\<lparr>pmem := pm, cr3 := f\<rparr>"
  have pl: "plain s1 ?p f" and rd: "pages_ready F s1" and cr: "cr3 s1 = cr3 s"
    and se: "same_elsewhere s s1 ?p 1" using c(2) unfolding page_given_def same_dir_def by blast+
  have ap: "apart s1 f" and tb: "tables_ok s1" and off: "page_off f = 0" using pl by (simp_all add: plain_def)
  have ff: "page_frame f = f" by (rule aligned_frame [OF off])
  have idx: "PDE_IDX v * 4 = of_nat (4 * unat (PDE_IDX v))" for v by (simp add: mult.commute)
  have "plain ?s ?p f" by (rule plain_writes [OF pl c(3) ap])
  then have "addr_v2p ?p ?s = Inr f" using addr_v2p_translate [of ?s ?p f] by (simp add: plain_def tables_ok_def)
  moreover have "self_mapped ?u" using c(5) ff by (simp add: self_mapped_def Let_def)
  moreover have "translate ?u v = translate ?s v" if v: "kernel_addr v" for v
  proof -
    have i: "768 \<le> unat (PDE_IDX v)" "unat (PDE_IDX v) < 1023"
      using v unfolding unat_PDE_IDX kernel_addr_def word_le_nat_alt word_less_nat_alt
      by (simp_all add: less_eq_div_iff_mult_less_eq div_less_iff_less_mult)
    have "pm (pde_phys ?u v) = pmem s1 (pde_phys s1 v)"
      using c(6) [rule_format, OF i] cr ff by (simp add: pde_phys_def idx)
    moreover have "pmem s1 (pde_phys s1 v) = pm (pde_phys ?s v)"
      using same_dir_writes [OF ap c(3)] by (simp add: same_dir_def pde_phys_def)
    ultimately have e: "pm (pde_phys ?u v) = pm (pde_phys ?s v)" by simp
    then have "pte_phys ?u v = pte_phys ?s v" by (simp add: pte_phys_def)
    with e show ?thesis by (simp add: translate_def)
  qed
  moreover have "translate ?u v = None" if v: "v < 0xc0000000" for v
  proof -
    have "unat (PDE_IDX v) < 768" using v unfolding unat_PDE_IDX word_less_nat_alt by (simp add: div_less_iff_less_mult)
    from c(4) [rule_format, OF this] have "pm (pde_phys ?u v) = 0" using ff by (simp add: pde_phys_def idx)
    then show ?thesis by (simp add: translate_def present_def)
  qed
  moreover have "pages_ready F ?s" by (rule pages_ready_writes [OF rd ap c(3)])
  moreover have "same_elsewhere s ?s ?p 1" using se writes_apart(3) [OF tb ap c(3)] by (simp add: same_elsewhere_def)
  ultimately show ?thesis using c(1) by (intro exI [of _ ?s] exI [of _ f]) simp
qed

section \<open>A kernel that starts\<close>

text \<open>The main thread runs in the memory the loader left, with empty queues and free locks.\<close>

definition boot_threads :: pstate where
  "boot_threads = \<lparr>eflags = 0x002,
     lmem = [0xc0010000 \<mapsto> \<lparr>le_prev = 0, le_next = 0xc0010008\<rparr>, 0xc0010008 \<mapsto> \<lparr>le_prev = 0xc0010000, le_next = 0\<rparr>,
             0xc0010010 \<mapsto> \<lparr>le_prev = 0, le_next = 0xc0010018\<rparr>, 0xc0010018 \<mapsto> \<lparr>le_prev = 0xc0010010, le_next = 0\<rparr>,
             0xc0050008 \<mapsto> \<lparr>le_prev = 0, le_next = 0xc0050010\<rparr>, 0xc0050010 \<mapsto> \<lparr>le_prev = 0xc0050008, le_next = 0\<rparr>,
             0xc0070008 \<mapsto> \<lparr>le_prev = 0, le_next = 0xc0070010\<rparr>, 0xc0070010 \<mapsto> \<lparr>le_prev = 0xc0070008, le_next = 0\<rparr>],
     cr3 = 0x100000, pmem = loader_pmem, invlpgs = [], esp = 0xc009ee00, tss_esp0 = 0,
     tasks = [0xc009e000 \<mapsto> sample_task TASK_RUNNING 0], main_thread = 0xc009e000, idle_thread = 0,
     thread_ready_list = 0xc0010000, thread_all_list = 0xc0010010, saved_intr = (\<lambda>_. INTR_ON),
     sem_value = [0xc0050004 \<mapsto> 1, 0xc0070004 \<mapsto> 1],
     locks = [0xc0050000 \<mapsto> \<lparr>holder = NULL, holder_repeat_nr = 0\<rparr>, 0xc0070000 \<mapsto> \<lparr>holder = NULL, holder_repeat_nr = 0\<rparr>],
     ioqs = Map.empty, idt_table = [], intr_name = [], port_writes = [], screen = [],
     kbd = \<lparr>ctrl_status = False, shift_status = False, alt_status = False,
            caps_lock_status = False, ext_scan_code = False\<rparr>,
     kbd_buf = 0xc0030000, ticks_now = 0, console_lock = 0xc0040000,
     kernel_pool = kernel_pool boot_memory, user_pool = user_pool boot_memory, kernel_vaddr = kernel_vaddr boot_memory,
     k_block_descs = 0xc0060000, mdescs = Map.empty, arenas = Map.empty,
     pid_lock = 0xc0070000, next_pid = 0, kernel_thread_ptr = 0xc0001800, start_process_ptr = 0xc0001900,
     intr_exit_ptr = 0xc0001a00, idle_ptr = 0xc0001b00, init_ptr = 0xc0001c00\<rparr>"

definition boot_family :: family where
  "boot_family = [0xc0010000 \<mapsto> [], 0xc0010010 \<mapsto> [], 0xc0050008 \<mapsto> [], 0xc0070008 \<mapsto> []]"

lemma in_block_frame: "page_off b = 0 \<Longrightarrow> in_block b 4096 x \<Longrightarrow> page_frame x = b"
  using frame_word(1) [of b "x - b"] by (simp add: in_block_def)

lemma boot_family_lists: "lists_at (lmem boot_threads) boot_family"
  by (auto simp: lists_at_def dlist_def linked_def boot_threads_def boot_family_def
      list_head_def list_tail_def split: if_splits)

lemma boot_walk: "cr3 boot_threads = cr3 boot_memory" "pmem boot_threads = pmem boot_memory"
  "kernel_pool boot_threads = kernel_pool boot_memory" "kernel_vaddr boot_threads = kernel_vaddr boot_memory"
  by (simp_all add: boot_threads_def boot_memory_def)

lemma boot_heap_page:
  assumes "i < 16"
  shows "unat (heap_page boot_threads i) = 0xc0100000 + i * 4096" "page_off (heap_page boot_threads i) = 0"
proof -
  have "unat (of_nat i * PAGE_SIZE :: u32) = i * 4096"
    using assms by (subst unat_mult_no_wrap32) (simp_all add: unat_of_nat32 PAGE_SIZE_def)
  then show "unat (heap_page boot_threads i) = 0xc0100000 + i * 4096"
    using assms by (simp add: heap_page_def boot_walk(4) page_at_def boot_memory_def K_HEAP_START_def unat_add_no_wrap32)
  show "page_off (heap_page boot_threads i) = 0"
    unfolding heap_page_def page_at_off by (simp add: boot_walk(4) boot_memory_def K_HEAP_START_def page_off_def)
qed

lemma boot_frames_apart:
  assumes "i < 16"
  shows "apart boot_memory (pool_page (kernel_pool boot_memory) i)"
proof -
  let ?f = "pool_page (kernel_pool boot_memory) i"
  have "unat (of_nat i * PAGE_SIZE :: u32) = i * 4096"
    using assms by (subst unat_mult_no_wrap32) (simp_all add: unat_of_nat32 PAGE_SIZE_def)
  then have f: "unat ?f = 0x200000 + i * 4096" using assms by (simp add: pool_page_def boot_memory_def unat_add_no_wrap32)
  have "unat (page_frame (cr3 boot_memory)) = 0x100000" by (simp add: boot_memory_def page_frame_def)
  then have "unat ?f \<noteq> unat (page_frame (cr3 boot_memory))" using f by simp
  then have "?f \<noteq> page_frame (cr3 boot_memory)" by metis
  moreover have "?f \<noteq> page_frame (pmem boot_memory (pde_phys boot_memory v))" if v: "kernel_addr v" for v
  proof -
    note e = loader_entry [OF v]
    let ?k = "unat (PDE_IDX v) - 768"
    have k: "?k < 255" using e(3) by simp
    have "page_frame (pmem boot_memory (pde_phys boot_memory v)) = page_at 0x101000 ?k"
      unfolding e(1) entry_bits_frame by (rule page_at_frame) (simp add: page_off_def)
    moreover have "unat (of_nat ?k * PAGE_SIZE :: u32) = ?k * 4096"
      using k by (subst unat_mult_no_wrap32) (simp_all add: unat_of_nat32 PAGE_SIZE_def)
    then have "unat (page_at 0x101000 ?k) = 0x101000 + ?k * 4096" using k by (simp add: page_at_def unat_add_no_wrap32)
    ultimately show ?thesis using f k by auto
  qed
  ultimately show ?thesis by (simp add: apart_def)
qed

lemma boot_pages_ready: "pages_ready boot_family boot_threads" "page_left boot_threads" "next_page boot_threads = 0xc0100000"
proof -
  have k: "kmem_ok boot_threads" using kmem_ok_cong [OF boot_walk] boot_kmem_ok by simp
  have n: "nbits (vaddr_bitmap (kernel_vaddr boot_threads)) = 16" "bit_used (vaddr_bitmap (kernel_vaddr boot_threads)) = {}"
    "pool_used (kernel_pool boot_threads) = {}" "pool_pages (kernel_pool boot_threads) = 16"
    by (simp_all add: boot_walk boot_maps)
  have ap: "apart boot_threads (pool_page (kernel_pool boot_threads) i)" if "i < 16" for i
    using boot_frames_apart [OF that] walk_cong(3) [OF boot_walk(1,2)] boot_walk(3) by metis
  have far: "\<not> in_block (heap_page boot_threads i) 4096 x"
    if i: "i < 16" and x: "boot_family l = Some xs" "x \<in> nodes l xs" for i l xs x
  proof
    assume "in_block (heap_page boot_threads i) 4096 x"
    then have "page_frame x = heap_page boot_threads i" using boot_heap_page(2) [OF i] by (rule in_block_frame [rotated])
    then have "0xc0100000 \<le> unat (page_frame x)" using boot_heap_page(1) [OF i] by simp
    moreover have "unat (page_frame x) < 0xc0100000"
      using x by (auto simp: boot_family_def list_head_def list_tail_def page_frame_def split: if_splits)
    ultimately show False by simp
  qed
  have lk: "pool_lock (kernel_pool boot_threads) = 0xc0050000" by (simp add: boot_walk boot_memory_def)
  have "lock_idle 0xc0050000 boot_threads" by (simp add: lock_idle_def boot_threads_def lock_sem_def)
  moreover have "running_thread boot_threads \<noteq> NULL" by (simp add: running_thread_def boot_threads_def NULL_def)
  moreover have "boot_family (sema_waiters (lock_sem 0xc0050000)) = Some []"
    by (simp add: boot_family_def sema_waiters_def lock_sem_def)
  ultimately show "pages_ready boot_family boot_threads"
    unfolding pages_ready_def n lk using k ap far boot_family_lists by blast
  have ff: "first_free (vaddr_bitmap (kernel_vaddr boot_threads)) = 0" by (simp add: first_free_def n(2))
  show "page_left boot_threads" unfolding page_left_def ff n by simp
  show "next_page boot_threads = 0xc0100000" unfolding next_page_def ff by (simp add: heap_page_def boot_walk boot_memory_def K_HEAP_START_def)
qed

lemma boot_pids_ready: "pids_ready boot_family boot_threads"
proof -
  have "pid_lock boot_threads = 0xc0070000" by (simp add: boot_threads_def)
  then show ?thesis unfolding pids_ready_def using boot_family_lists
    by (simp add: lock_idle_def lock_sem_def sema_waiters_def running_thread_def NULL_def)
       (simp add: boot_threads_def boot_family_def NULL_def)
qed

definition boot_sched :: sched where
  "boot_sched = \<lparr>acur = 0xc009e000, aready = [], astat = [0xc009e000 \<mapsto> TASK_RUNNING]\<rparr>"

lemma boot_sched_rel: "sched_rel boot_family boot_threads boot_sched"
proof -
  have "running_thread boot_threads = 0xc009e000" by (simp add: running_thread_def boot_threads_def)
  then show ?thesis unfolding sched_rel_def using boot_family_lists
    by (auto simp: boot_family_def boot_sched_def boot_threads_def sample_task_def)
qed

section \<open>Properties\<close>

text \<open>
  C6: \<^verbatim>\<open>thread_start\<close> makes a thread that can be scheduled. When the kernel can hand out a page and the two locks are
  free, the call returns that page; the scheduler, seen from above, has one more ready thread, at the
  end of the queue; the thread's structure is well formed (a terminated name of 16 bytes, the three standard
  descriptors, the magic number, a stack inside its page), has the next process number, and is in the list of all
  threads; the first switch to it returns to \<^verbatim>\<open>kernel_thread\<close> with the function and its argument; no
  other thread and no other mapping of the kernel changes.
\<close>

theorem thread_start_adds_ready_thread:
  assumes "pages_ready F s" "page_left s" "pids_ready F s" "sched_rel F s a" "F (thread_all_list s) = Some ts"
    and "thread_ready_list s \<noteq> thread_all_list s" "nul_free name" "length name < 16" "next_page s \<noteq> main_thread s"
  shows "\<exists>s' t. thread_start (name @ [0]) prio func arg s = Inr (next_page s, s') \<and>
           sched_rel (F(thread_ready_list s \<mapsto> map general_tag (aready a @ [next_page s]),
                        thread_all_list s \<mapsto> ts @ [all_list_tag (next_page s)])) s'
             (a\<lparr>aready := aready a @ [next_page s], astat := (astat a)(next_page s \<mapsto> TASK_READY)\<rparr>) \<and>
           tasks s' = (tasks s)(next_page s \<mapsto> t) \<and> task_ok (next_page s) t \<and> pid t = next_pid s + 1 \<and>
           pg_dir t = NULL \<and> kmem_ok s' \<and>
           switch_return (self_kernel_stack t) s' = Inr (kernel_thread_ptr s, func, arg) \<and>
           same_elsewhere s s' (next_page s) 1"
  by (rule thread_start_ok [OF assms refl refl])

theorem thread_start_adds_ready_thread_witness:
  "\<exists>s' t. thread_start (str ''idle'' @ [0]) 10 0xc0001b00 0 boot_threads = Inr (0xc0100000, s') \<and>
     tasks s' 0xc0100000 = Some t \<and> task_ok 0xc0100000 t \<and> pid t = 1 \<and>
     switch_return (self_kernel_stack t) s' = Inr (0xc0001800, 0xc0001b00, 0)"
proof -
  have "boot_family (thread_all_list boot_threads) = Some []" "thread_ready_list boot_threads \<noteq> thread_all_list boot_threads"
    "next_page boot_threads \<noteq> main_thread boot_threads" "kernel_thread_ptr boot_threads = 0xc0001800" "next_pid boot_threads = 0"
    unfolding boot_pages_ready(3) by (simp_all add: boot_threads_def boot_family_def)
  moreover have "nul_free (str ''idle'')" "length (str ''idle'') < 16" by (simp_all add: nul_free_str) (simp add: str_def)
  ultimately show ?thesis
    using thread_start_adds_ready_thread [OF boot_pages_ready(1,2) boot_pids_ready boot_sched_rel, of "[]" "str ''idle''" 10 "0xc0001b00" 0]
    unfolding boot_pages_ready(3) by fastforce
qed

text \<open>
  C7: \<^verbatim>\<open>create_page_dir\<close> makes an address space. The directory it returns, loaded into \<^verbatim>\<open>cr3\<close> by its physical
  address, maps every kernel address as the current one does, maps nothing below \<open>0xc0000000\<close>, and is reached through its own last
  entry, so that the kernel can change the tables of the new process; no other kernel mapping changes, and the kernel can hand out
  pages as before.
\<close>

theorem create_page_dir_shares_kernel:
  assumes "pages_ready F s" "page_left s"
  shows "\<exists>s' f. create_page_dir s = Inr (next_page s, s') \<and> addr_v2p (next_page s) s' = Inr f \<and>
           self_mapped (s'\<lparr>cr3 := f\<rparr>) \<and> (\<forall>v. kernel_addr v \<longrightarrow> translate (s'\<lparr>cr3 := f\<rparr>) v = translate s' v) \<and>
           (\<forall>v < 0xc0000000. translate (s'\<lparr>cr3 := f\<rparr>) v = None) \<and> pages_ready F s' \<and>
           same_elsewhere s s' (next_page s) 1"
  using assms by (rule page_dir_walk)

theorem create_page_dir_shares_kernel_witness:
  "\<exists>s' f. create_page_dir boot_threads = Inr (0xc0100000, s') \<and> addr_v2p 0xc0100000 s' = Inr f \<and>
     translate (s'\<lparr>cr3 := f\<rparr>) 0x8048000 = None"
  using create_page_dir_shares_kernel [OF boot_pages_ready(1,2)] unfolding boot_pages_ready(3) by fastforce

end
