(* ===== verification/Fork.thy ===== *)
theory Fork
  imports Process Fs
begin

text \<open>
  \<^verbatim>\<open>user_process/fork.c\<close>: a process is copied. The state has the file system beside the rest of the
  kernel. The pages of a process are copied word by word through the page tables, by way of a
  page of the kernel, because only one address space is active at a time.

  \<^verbatim>\<open>copy_pcb_vaddrbitmap_stack0\<close> copies the whole page of the parent: its structure, the links
  of its tags, its block descriptors and the words of its stack. The bitmap of a process is part of its structure here,
  so that the copy of the structure has its own.
\<close>

section \<open>State\<close>

record ustate = pstate +
  filesys :: fstate

text \<open>A computation of the file system, for the process that runs: the file system sees its descriptors.\<close>

definition fs_run :: "'a fsm \<Rightarrow> ('z) ustate_scheme \<Rightarrow> ('a \<times> ('z) ustate_scheme) res" where
  "fs_run m s =
     (let cur = running_thread s in
      bindE (get_task cur s) (\<lambda>t.
      bindE (m ((filesys s)\<lparr>Fs_State.fd_table := Thread.fd_table t,
                            Fs_State.cwd_inode_nr := Thread.cwd_inode_nr t\<rparr>)) (\<lambda>(x, f).
      bindE (upd_task cur (\<lambda>t. t\<lparr>Thread.fd_table := Fs_State.fd_table f,
                                Thread.cwd_inode_nr := Fs_State.cwd_inode_nr f\<rparr>) (s\<lparr>filesys := f\<rparr>)) (\<lambda>s.
      Inr (x, s)))))"

section \<open>Copying a process\<close>

text \<open>\<^verbatim>\<open>memcpy(child_thread, parent_thread, PAGE_SIZE)\<close>.\<close>

definition copy_pcb_page :: "u32 \<Rightarrow> u32 \<Rightarrow> ('z) ustate_scheme \<Rightarrow> ('z) ustate_scheme res" where
  "copy_pcb_page child parent s =
     bindE (get_task parent s) (\<lambda>t.
     bindE (copy_words 1024 child parent s) (\<lambda>s.
     Inr (s\<lparr>lmem := (\<lambda>x. if x - child < PAGE_SIZE then lmem s (x - child + parent) else lmem s x),
           tasks := (tasks s)(child \<mapsto> t),
           mdescs := (\<lambda>d. if d \<in> set (task_descs child) then mdescs s (d - child + parent) else mdescs s d)\<rparr>)))"

definition no_links :: list_elem where
  "no_links = \<lparr>le_prev = NULL, le_next = NULL\<rparr>"

definition copy_pcb_vaddrbitmap_stack0 ::
  "u32 \<Rightarrow> u32 \<Rightarrow> ('z) ustate_scheme \<Rightarrow> (u32 \<times> ('z) ustate_scheme) res" where
  "copy_pcb_vaddrbitmap_stack0 child_thread parent_thread s =
     bindE (copy_pcb_page child_thread parent_thread s) (\<lambda>s.
     bindE (fork_pid s) (\<lambda>(n, s).
     bindE (get_task parent_thread s) (\<lambda>p.
     bindE (upd_task child_thread (\<lambda>t. t\<lparr>pid := n, status := TASK_READY, ticks := priority t, elapsed_ticks := 0,
                                         parent_pid := pid p\<rparr>) s) (\<lambda>s.
     let s = s\<lparr>lmem := (lmem s)(general_tag child_thread \<mapsto> no_links, all_list_tag child_thread \<mapsto> no_links)\<rparr>;
         s = block_desc_init (u_block_desc child_thread) s in
     bindE (kernel_pages (DIV_ROUND_UP user_bitmap_len PAGE_SIZE) s) (\<lambda>(vaddr_btmp, s).
     if vaddr_btmp = NULL then Inr (-1, s)
     else
       bindE (get_task child_thread s) (\<lambda>t.
       bindE (strlen (Some (tname t))) (\<lambda>len.
       bindE (ASSERT (len < 11)) (\<lambda>_.
       bindE (strcat (Some (tname t)) (Some (str ''_fork'' @ [0]))) (\<lambda>nm.
       bindE (upd_task child_thread (\<lambda>t. t\<lparr>tname := nm\<rparr>) s) (\<lambda>s.
       Inr (0, s)))))))))))"

text \<open>One page of the parent, as the inner loop of \<^verbatim>\<open>copy_body_stack3\<close> copies it.\<close>

definition copy_user_page ::
  "u32 \<Rightarrow> u32 \<Rightarrow> u32 \<Rightarrow> u32 \<Rightarrow> ('z) ustate_scheme \<Rightarrow> ('z) ustate_scheme res" where
  "copy_user_page child_thread parent_thread buf_page process_vaddr s =
     bindE (copy_words 1024 buf_page process_vaddr s) (\<lambda>s.
     bindE (page_dir_activate child_thread s) (\<lambda>s.
     bindE (get_a_page_without_opvaddrbitmap PF_USER process_vaddr s) (\<lambda>(_, s).
     bindE (copy_words 1024 process_vaddr buf_page s)
     (page_dir_activate parent_thread))))"

text \<open>The loops over the bits of a byte and over the bytes of the bitmap; \<open>n\<close> counts what is left.\<close>

fun copy_bits ::
  "nat \<Rightarrow> u32 \<Rightarrow> (u32 \<Rightarrow> ('z) ustate_scheme \<Rightarrow> ('z) ustate_scheme res) \<Rightarrow> u8 \<Rightarrow> u32 \<Rightarrow> ('z) ustate_scheme \<Rightarrow>
     ('z) ustate_scheme res" where
  "copy_bits 0 idx_bit f byte base s = Inr s"
| "copy_bits (Suc n) idx_bit f byte base s =
     bindE (if push_bit (unat idx_bit) 1 AND (ucast byte :: u32) \<noteq> 0 then f ((base + idx_bit) * PAGE_SIZE) s
            else Inr s)
     (copy_bits n (idx_bit + 1) f byte base)"

fun copy_bytes ::
  "nat \<Rightarrow> u32 \<Rightarrow> (u32 \<Rightarrow> ('z) ustate_scheme \<Rightarrow> ('z) ustate_scheme res) \<Rightarrow> u8 list \<Rightarrow> ('z) ustate_scheme \<Rightarrow>
     ('z) ustate_scheme res" where
  "copy_bytes 0 idx_byte f vaddr_btmp s = Inr s"
| "copy_bytes (Suc n) idx_byte f vaddr_btmp s =
     bindE (read_at vaddr_btmp (unat idx_byte)) (\<lambda>byte.
     bindE (if byte \<noteq> 0 then copy_bits 8 0 f byte (idx_byte * 8) s else Inr s)
     (copy_bytes n (idx_byte + 1) f vaddr_btmp))"

definition copy_body_stack3 :: "u32 \<Rightarrow> u32 \<Rightarrow> u32 \<Rightarrow> ('z) ustate_scheme \<Rightarrow> ('z) ustate_scheme res" where
  "copy_body_stack3 child_thread parent_thread buf_page s =
     bindE (get_task parent_thread s) (\<lambda>t.
     let va = user_process_vaddr t in
     copy_bytes (unat (bmap_bytes_len (vaddr_bitmap va))) 0
       (\<lambda>a. copy_user_page child_thread parent_thread buf_page (a + vaddr_start va))
       (bits (vaddr_bitmap va)) s)"

definition build_child_stack :: "u32 \<Rightarrow> ('z) ustate_scheme \<Rightarrow> (u32 \<times> ('z) ustate_scheme) res" where
  "build_child_stack child_thread s =
     (let intr_0_stack = child_thread + PAGE_SIZE - sizeof_intr_stack in
      bindE (store_fields intr_0_stack [(32, 0), (-4, intr_exit_ptr s), (-16, 0), (-20, 0), (-8, 0), (-12, 0)] s) (\<lambda>s.
      bindE (upd_task child_thread (\<lambda>t. t\<lparr>self_kernel_stack := intr_0_stack - 20\<rparr>) s) (\<lambda>s.
      Inr (0, s))))"

fun open_cnts_loop :: "u32 list \<Rightarrow> unit fsm" where
  "open_cnts_loop [] = retS ()"
| "open_cnts_loop (global_fd # fds) =
     thenS (assertS (global_fd <s of_nat MAX_FILE_OPEN)) (
     thenS (if global_fd \<noteq> -1 then
              bindS (get_file (unat global_fd)) (\<lambda>fl.
              bindS (get_inode (fd_inode fl)) (\<lambda>i.
              set_inode (fd_inode fl) (i\<lparr>i_open_cnts := i_open_cnts i + 1\<rparr>)))
            else retS ())
     (open_cnts_loop fds))"

definition update_inode_open_cnts :: "u32 \<Rightarrow> ('z) ustate_scheme \<Rightarrow> ('z) ustate_scheme res" where
  "update_inode_open_cnts thread s =
     bindE (get_task thread s) (\<lambda>t.
     bindE (open_cnts_loop (drop 3 (Thread.fd_table t)) (filesys s)) (\<lambda>(_, f).
     Inr (s\<lparr>filesys := f\<rparr>)))"

definition copy_process :: "u32 \<Rightarrow> u32 \<Rightarrow> ('z) ustate_scheme \<Rightarrow> (u32 \<times> ('z) ustate_scheme) res" where
  "copy_process child_thread parent_thread s =
     bindE (kernel_pages 1 s) (\<lambda>(buf_page, s).
     if buf_page = NULL then Inr (-1, s)
     else
       bindE (copy_pcb_vaddrbitmap_stack0 child_thread parent_thread s) (\<lambda>(r, s).
       if r = -1 then Inr (-1, s)
       else
         bindE (create_page_dir s) (\<lambda>(dir, s).
         bindE (upd_task child_thread (\<lambda>t. t\<lparr>pg_dir := dir\<rparr>) s) (\<lambda>s.
         if dir = NULL then Inr (-1, s)
         else
           bindE (copy_body_stack3 child_thread parent_thread buf_page s) (\<lambda>s.
           bindE (build_child_stack child_thread s) (\<lambda>(_, s).
           bindE (update_inode_open_cnts child_thread s) (\<lambda>s.
           bindE (mfree_page PF_KERNEL buf_page 1 s) (\<lambda>s.
           Inr (0, s)))))))))"

definition sys_fork :: "('z) ustate_scheme \<Rightarrow> (16 word \<times> ('z) ustate_scheme) res" where
  "sys_fork s =
     (let parent_thread = running_thread s in
      bindE (kernel_pages 1 s) (\<lambda>(child_thread, s).
      if child_thread = NULL then Inr (-1, s)
      else
        bindE (get_task parent_thread s) (\<lambda>t.
        bindE (ASSERT (INTR_OFF = intr_get_status (eflags s) \<and> pg_dir t \<noteq> NULL)) (\<lambda>_.
        bindE (copy_process child_thread parent_thread s) (\<lambda>(r, s).
        if r = -1 then Inr (-1, s)
        else
          bindE (enlist child_thread s) (\<lambda>s.
          bindE (get_task child_thread s) (\<lambda>t. Inr (pid t, s))))))))"


section \<open>The child's first return\<close>

lemma load_words_plain:
  assumes "plain s p f" "b + 4 * n \<le> 4096"
  shows "load_words n (p + of_nat b) s = Inr (map (\<lambda>k. pmem s (f + of_nat (b + 4 * k))) [0..<n])"
  using assms(2)
proof (induction n arbitrary: b)
  case (Suc n)
  have "of_nat b < (4096 :: u32)" using Suc.prems by (simp add: word_less_nat_alt unat_of_nat32)
  note acc = plain_access(1) [OF assms(1) this]
  have ih: "load_words n (p + of_nat (b + 4)) s = Inr (map (\<lambda>k. pmem s (f + of_nat (b + 4 + 4 * k))) [0..<n])"
    using Suc by (intro Suc.IH) simp
  have "map (\<lambda>k. pmem s (f + of_nat (b + 4 * k))) [0..<Suc n] =
        pmem s (f + of_nat b) # map (\<lambda>k. pmem s (f + of_nat (b + 4 + 4 * k))) [0..<n]"
    unfolding upt_conv_Cons [OF zero_less_Suc] map_Suc_upt [symmetric] list.map map_map o_def
    by (simp add: algebra_simps)
  with acc ih show ?case by (simp add: add.assoc add.commute [of 4] del: upt_Suc)
qed simp

text \<open>The user registers that an interrupt left at the top of the page of a thread, in the frame \<open>f\<close>.\<close>

definition frame_context :: "u32 \<Rightarrow> (u32 \<Rightarrow> u32) \<Rightarrow> user_context" where
  "frame_context f pm = context_of (map (\<lambda>k. pm (f + of_nat (4020 + 4 * k))) [0..<19])"

lemma intr_exit_plain: "plain s p f \<Longrightarrow> intr_exit (p + 4020) s = Inr (frame_context f (pmem s))"
  using load_words_plain [of s p f 4020 19] by (simp add: intr_exit_def frame_context_def del: upt_Suc load_words.simps)

definition child_frame :: "u32 \<Rightarrow> (u32 \<times> u32) list" where
  "child_frame exit = [(32, 0), (-4, exit), (-16, 0), (-20, 0), (-8, 0), (-12, 0)]"

lemma child_frame_context:
  "frame_context f (put_fields (f + 4020) (child_frame e) pm) = (frame_context f pm)\<lparr>r_eax := 0\<rparr>"
  "put_fields (f + 4020) (child_frame e) pm (f + 4016) = e"
  by (simp_all add: frame_context_def child_frame_def context_of_def add.assoc nth_append)

lemma build_child_stack_ok:
  assumes pl: "plain s p f" and t: "tasks s p = Some t"
  shows "\<exists>s'. build_child_stack p s = Inr (0, s') \<and> tasks s' = (tasks s)(p \<mapsto> t\<lparr>self_kernel_stack := p + 4000\<rparr>) \<and>
           load32 (p + 4016) s' = Inr (intr_exit_ptr s) \<and> intr_exit (p + 4020) s' = Inr ((frame_context f (pmem s))\<lparr>r_eax := 0\<rparr>) \<and>
           same_but f (pmem s) (pmem s')"
proof -
  let ?fs = "child_frame (intr_exit_ptr s)"
  let ?pm = "put_fields (f + 4020) ?fs (pmem s)"
  have off: "4020 + off < 4096" if "(off, w) \<in> set ?fs" for off w using that by (auto simp: child_frame_def)
  from store_fields_plain [OF pl off]
  have st: "store_fields (p + 4020) ?fs s = Inr (s\<lparr>pmem := ?pm\<rparr>)" and sb: "same_but f (pmem s) ?pm" by simp_all
  let ?s = "s\<lparr>pmem := ?pm, tasks := (tasks s)(p \<mapsto> t\<lparr>self_kernel_stack := p + 4000\<rparr>)\<rparr>"
  have pl1: "plain (s\<lparr>pmem := ?pm\<rparr>) p f" using pl by (intro plain_writes [OF pl sb]) (simp add: plain_def)
  have w: "cr3 ?s = cr3 (s\<lparr>pmem := ?pm\<rparr>)" "pmem ?s = pmem (s\<lparr>pmem := ?pm\<rparr>)" by simp_all
  have pl2: "plain ?s p f" using pl1 walk_cong [OF w] by (simp add: plain_def)
  have "build_child_stack p s = Inr (0, ?s)"
    using st t by (simp add: build_child_stack_def child_frame_def PAGE_SIZE_def sizeof_intr_stack_def upd_task_def
        get_task_def add.commute [of p] del: store_fields.simps)
  moreover have "load32 (p + 4016) ?s = Inr (intr_exit_ptr s)"
    using plain_access(1) [OF pl2, of 4016] child_frame_context(2) by simp
  moreover have "intr_exit (p + 4020) ?s = Inr ((frame_context f (pmem s))\<lparr>r_eax := 0\<rparr>)"
    using intr_exit_plain [OF pl2] child_frame_context(1) by simp
  ultimately show ?thesis using sb by (intro exI [of _ ?s]) simp
qed

lemma copy_pcb_page_ok:
  assumes c: "plain s child f" and p: "plain s parent g" and fg: "f \<noteq> g" and t: "tasks s parent = Some t"
  shows "\<exists>s'. copy_pcb_page child parent s = Inr s' \<and> tasks s' = (tasks s)(child \<mapsto> t) \<and>
           same_but f (pmem s) (pmem s') \<and> cr3 s' = cr3 s \<and> intr_exit_ptr s' = intr_exit_ptr s \<and>
           (\<forall>k<1024. pmem s' (f + of_nat (4 * k)) = pmem s (g + of_nat (4 * k)))"
proof -
  have ap: "apart s f" and off: "page_off g = 0" using c p by (simp_all add: plain_def)
  have fr: "page_frame (g + of_nat k) \<noteq> f" if "k < 4096" for k
    using frame_word(1) [OF off, of "of_nat k"] that fg by (simp add: word_less_nat_alt unat_of_nat32)
  have src: "load32 (parent + of_nat k) (s\<lparr>pmem := pm\<rparr>) = Inr (pm (g + of_nat k))"
    if "k < 4096" "same_but f (pmem s) pm" for pm k
    using plain_access(1) [OF plain_writes [OF p that(2) ap], of "of_nat k"] that(1)
    by (simp add: word_less_nat_alt unat_of_nat32)
  have b: "0 + 4 * 1024 \<le> (4096 :: nat)" by simp
  obtain pm where pm: "copy_words 1024 (child + of_nat 0) (parent + of_nat 0) s = Inr (s\<lparr>pmem := pm\<rparr>)"
    "same_but f (pmem s) pm" "\<forall>k<1024. pm (f + of_nat (0 + 4 * k)) = pmem s (g + of_nat (0 + 4 * k))"
    using copy_words_page [OF c b fr src] by blast
  then show ?thesis using t by (simp add: copy_pcb_page_def get_task_def)
qed

section \<open>A process that forks\<close>

text \<open>The parent's page is \<open>0xc0100000\<close>, in frame \<open>0x200000\<close>, the child's \<open>0xc0101000\<close>, in frame \<open>0x201000\<close>; the parent trapped with 4 in \<^verbatim>\<open>eax\<close>.\<close>

definition two_pages :: "u32 \<Rightarrow> u32" where
  "two_pages = loader_pmem(0x101400 := 0x200007, 0x101404 := 0x201007)"

definition fork_state :: ustate where
  "fork_state = pstate.extend (boot_threads\<lparr>pmem := two_pages(0x200fd4 := 4),
     tasks := [0xc0100000 \<mapsto> sample_task TASK_RUNNING 0]\<rparr>) \<lparr>filesys = small_fs\<rparr>"

lemma two_pages_walk:
  fixes s :: mstate
  assumes s: "s = boot_memory\<lparr>pmem := two_pages\<rparr>"
  shows "tables_ok s" "apart s 0x200000" "apart s 0x201000" "translate s 0xc0100000 = Some 0x200000"
    "translate s 0xc0101000 = Some 0x201000"
proof -
  have a: "kernel_addr 0xc0100000" "kernel_addr 0xc0101000" by (simp_all add: kernel_addr_def)
  have p: "pte_phys boot_memory 0xc0100000 = 0x101400" "pte_phys boot_memory 0xc0101000 = 0x101404"
    by (simp_all add: pte_phys_def pde_phys_def boot_memory_def loader_pmem_def PDE_IDX_def PTE_IDX_def
        page_frame_def entry_bits_def PG_US_U_def PG_RW_W_def PG_P_1_def)
  let ?s1 = "boot_memory\<lparr>pmem := (pmem boot_memory)(0x101400 := 0x200007)\<rparr>"
  have t1: "tables_ok ?s1" using tables_ok_pte(1) [OF boot_tables_ok a(1)] by (simp only: p)
  have p1: "pte_phys ?s1 0xc0101000 = 0x101404" using tables_ok_pte(3) [OF boot_tables_ok a(1)] by (simp only: p)
  have s1: "s = ?s1\<lparr>pmem := (pmem ?s1)(0x101404 := 0x201007)\<rparr>"
    by (simp add: s two_pages_def boot_memory_def)
  show "tables_ok s" using tables_ok_pte(1) [OF t1 a(2)] unfolding p1 s1 by simp
  have "pde_phys boot_memory v \<noteq> 0x101400" "pde_phys boot_memory v \<noteq> 0x101404" for v
    using tables_entry(3) [OF boot_tables_ok a(1), of v] tables_entry(3) [OF boot_tables_ok a(2), of v] p by metis+
  then have "same_dir boot_memory s" by (simp add: same_dir_def s two_pages_def) (simp add: boot_memory_def)
  then have ap: "apart s f = apart boot_memory f" for f by (rule same_dir_apart)
  show "apart s 0x200000" "apart s 0x201000"
    using boot_frames_apart [of 0] boot_frames_apart [of 1] unfolding ap
    by (simp_all add: pool_page_def boot_memory_def PAGE_SIZE_def)
  show "translate s 0xc0100000 = Some 0x200000" "translate s 0xc0101000 = Some 0x201000"
    by (simp_all add: s two_pages_def boot_memory_def translate_def pte_phys_def pde_phys_def loader_pmem_def
        PDE_IDX_def PTE_IDX_def page_frame_def page_off_def entry_bits_def PG_US_U_def PG_RW_W_def PG_P_1_def present_def)
qed

lemma fork_pages: "plain fork_state 0xc0101000 0x201000" "plain fork_state 0xc0100000 0x200000"
proof -
  define s :: mstate where "s = boot_memory\<lparr>pmem := two_pages\<rparr>"
  note w = two_pages_walk [OF s_def]
  have sb: "same_but 0x200000 (pmem s) (two_pages(0x200fd4 := 4))" by (simp add: s_def page_frame_def)
  have ka: "kernel_addr 0xc0100000" "kernel_addr 0xc0101000" by (simp_all add: kernel_addr_def)
  have "plain s 0xc0101000 0x201000" "plain s 0xc0100000 0x200000"
    using w ka by (simp_all add: plain_def page_off_def)
  then have "plain (s\<lparr>pmem := two_pages(0x200fd4 := 4)\<rparr>) 0xc0101000 0x201000"
    "plain (s\<lparr>pmem := two_pages(0x200fd4 := 4)\<rparr>) 0xc0100000 0x200000"
    using plain_writes [OF _ sb w(2)] by blast+
  moreover have "cr3 fork_state = cr3 (s\<lparr>pmem := two_pages(0x200fd4 := 4)\<rparr>)"
    "pmem fork_state = pmem (s\<lparr>pmem := two_pages(0x200fd4 := 4)\<rparr>)"
    by (simp_all add: fork_state_def s_def pstate.defs boot_threads_def boot_memory_def)
  ultimately show "plain fork_state 0xc0101000 0x201000" "plain fork_state 0xc0100000 0x200000"
    unfolding plain_def using walk_cong [of fork_state "s\<lparr>pmem := two_pages(0x200fd4 := 4)\<rparr>"] by simp_all
qed

section \<open>Properties\<close>

text \<open>
  C5: the child of a fork returns 0. The page of the parent, with the registers \<open>c\<close> it trapped with, is copied to the page of
  the child; whatever happens in between, as long as the words of the child's page and its structure stay, \<^verbatim>\<open>build_child_stack\<close> leaves a stack
  from which the first switch to the child returns to \<^verbatim>\<open>intr_exit\<close>, at the child's own copy of the trap frame, which
  gives the child the registers of the parent with \<^verbatim>\<open>eax\<close> 0; the parent's page is not changed by the copy.
\<close>

theorem fork_child_returns_zero:
  fixes s :: "('a) ustate_scheme"
  assumes "plain s child f" "plain s parent g" "f \<noteq> g" "tasks s parent = Some t" "intr_exit (parent + 4020) s = Inr c"
  shows "\<exists>s1. copy_pcb_page child parent s = Inr s1 \<and> tasks s1 child = Some t \<and> intr_exit (parent + 4020) s1 = Inr c \<and>
           plain s1 child f \<and> intr_exit_ptr s1 = intr_exit_ptr s \<and>
           (\<forall>(s2 :: ('a) ustate_scheme) t2. plain s2 child f \<longrightarrow> (\<forall>k<1024. pmem s2 (f + of_nat (4 * k)) = pmem s1 (f + of_nat (4 * k))) \<longrightarrow>
              tasks s2 child = Some t2 \<longrightarrow>
              (\<exists>s3 t3. build_child_stack child s2 = Inr (0, s3) \<and> tasks s3 = (tasks s2)(child \<mapsto> t3) \<and>
                 load32 (self_kernel_stack t3 + 16) s3 = Inr (intr_exit_ptr s2) \<and>
                 intr_exit (self_kernel_stack t3 + 20) s3 = Inr (c\<lparr>r_eax := 0\<rparr>)))"
proof -
  obtain s1 where s1: "copy_pcb_page child parent s = Inr s1" "tasks s1 = (tasks s)(child \<mapsto> t)"
    "same_but f (pmem s) (pmem s1)" "cr3 s1 = cr3 s" "intr_exit_ptr s1 = intr_exit_ptr s"
    "\<forall>k<1024. pmem s1 (f + of_nat (4 * k)) = pmem s (g + of_nat (4 * k))"
    using copy_pcb_page_ok [OF assms(1-4)] by blast
  have c: "c = frame_context g (pmem s)" using assms(5) intr_exit_plain [OF assms(2)] by simp
  have words: "frame_context h pm = frame_context h' pm'"
    if e: "\<forall>k<1024. pm (h + of_nat (4 * k)) = pm' (h' + of_nat (4 * k))" for h h' pm pm'
  proof -
    have "pm (h + of_nat (4020 + 4 * k)) = pm' (h' + of_nat (4020 + 4 * k))" if k: "k < 19" for k
      using k e [rule_format, of "1005 + k"] by simp
    then show ?thesis unfolding frame_context_def by (intro arg_cong [of _ _ context_of] map_cong) auto
  qed
  have ap: "apart s f" using assms(1) by (simp add: plain_def)
  have fr: "page_frame (g + of_nat (4 * k)) \<noteq> f" if "k < 1024" for k
  proof -
    have "of_nat (4 * k) < (4096 :: u32)"
      using that unat_of_nat32 [of "4 * k"] by (simp only: word_less_nat_alt) simp
    with plain_access(4) [OF assms(2)] assms(3) show ?thesis by metis
  qed
  have pp: "plain s1 parent g" "plain s1 child f"
    using plain_writes [OF assms(2) s1(3) ap] plain_writes [OF assms(1) s1(3) ap] walk_cong [of s1 "s\<lparr>pmem := pmem s1\<rparr>"] s1(4) by (simp_all add: plain_def)
  have "frame_context g (pmem s1) = c" unfolding c using s1(3) fr by (intro words) (simp add: same_but_def)
  then have "intr_exit (parent + 4020) s1 = Inr c" using intr_exit_plain [OF pp(1)] by simp
  moreover have "\<exists>s3 t3. build_child_stack child s2 = Inr (0, s3) \<and> tasks s3 = (tasks s2)(child \<mapsto> t3) \<and>
      load32 (self_kernel_stack t3 + 16) s3 = Inr (intr_exit_ptr s2) \<and>
      intr_exit (self_kernel_stack t3 + 20) s3 = Inr (c\<lparr>r_eax := 0\<rparr>)"
    if s2: "plain s2 child f" "\<forall>k<1024. pmem s2 (f + of_nat (4 * k)) = pmem s1 (f + of_nat (4 * k))" "tasks s2 child = Some t2"
    for s2 :: "'a ustate_scheme" and t2
  proof -
    have "frame_context f (pmem s2) = c" unfolding c using s2(2) s1(6) by (intro words) simp
    moreover obtain s3 where "build_child_stack child s2 = Inr (0, s3)"
      "tasks s3 = (tasks s2)(child \<mapsto> t2\<lparr>self_kernel_stack := child + 4000\<rparr>)"
      "load32 (child + 4016) s3 = Inr (intr_exit_ptr s2)"
      "intr_exit (child + 4020) s3 = Inr ((frame_context f (pmem s2))\<lparr>r_eax := 0\<rparr>)"
      using build_child_stack_ok [OF s2(1,3)] by blast
    ultimately show ?thesis
      by (intro exI [of _ s3] exI [of _ "t2\<lparr>self_kernel_stack := child + 4000\<rparr>"]) (simp add: add.commute [of child])
  qed
  ultimately show ?thesis using s1(1,2,5) pp(2) by - (rule exI [of _ s1], intro conjI allI impI, auto)
qed

theorem fork_child_returns_zero_witness:
  "\<exists>s1 s3 t3 c. copy_pcb_page 0xc0101000 0xc0100000 fork_state = Inr s1 \<and> build_child_stack 0xc0101000 s1 = Inr (0, s3) \<and>
     tasks s3 0xc0101000 = Some t3 \<and> load32 (self_kernel_stack t3 + 16) s3 = Inr 0xc0001a00 \<and>
     intr_exit (self_kernel_stack t3 + 20) s3 = Inr c \<and> r_eax c = 0"
proof -
  have t: "tasks fork_state 0xc0100000 = Some (sample_task TASK_RUNNING 0)" "intr_exit_ptr fork_state = 0xc0001a00"
    by (simp_all add: fork_state_def pstate.defs boot_threads_def)
  have ne: "0x201000 \<noteq> (0x200000 :: u32)" by simp
  show ?thesis
    using fork_child_returns_zero [OF fork_pages ne t(1) intr_exit_plain [OF fork_pages(2)]] t(2)
    by (fastforce simp del: upt_Suc)
qed

end
