(* ===== verification/Exec.thy ===== *)
theory Exec
  imports Fork
begin

text \<open>
  \<^verbatim>\<open>user_process/exec.c\<close>: a program from the file system replaces the process that runs. The headers are
  read from their bytes; a segment is read into the pages of the process, byte by byte into the words of
  physical memory. \<open>keys\<close> is what the keyboard would give to a read of descriptor 0, as for \<^verbatim>\<open>sys_read\<close>.
\<close>

section \<open>Headers\<close>

definition get16 :: "u8 list \<Rightarrow> u16" where
  "get16 b = ucast (b ! 0) OR push_bit 8 (ucast (b ! 1))"

record Elf32_Ehdr =
  e_ident :: "u8 list"
  e_type :: u16
  e_machine :: u16
  e_version :: u32
  e_entry :: u32
  e_phoff :: u32
  e_phentsize :: u16
  e_phnum :: u16

record Elf32_Phdr =
  p_type :: u32
  p_offset :: u32
  p_vaddr :: u32
  p_filesz :: u32
  p_memsz :: u32

definition ehdr_of :: "u8 list \<Rightarrow> Elf32_Ehdr" where
  "ehdr_of b = \<lparr>e_ident = take 16 b, e_type = get16 (drop 16 b), e_machine = get16 (drop 18 b),
     e_version = get32 (drop 20 b), e_entry = get32 (drop 24 b), e_phoff = get32 (drop 28 b),
     e_phentsize = get16 (drop 42 b), e_phnum = get16 (drop 44 b)\<rparr>"

definition phdr_of :: "u8 list \<Rightarrow> Elf32_Phdr" where
  "phdr_of b = \<lparr>p_type = get32 b, p_offset = get32 (drop 4 b), p_vaddr = get32 (drop 8 b),
     p_filesz = get32 (drop 16 b), p_memsz = get32 (drop 20 b)\<rparr>"

definition sizeof_Ehdr :: u32 where "sizeof_Ehdr = 52"
definition sizeof_Phdr :: u32 where "sizeof_Phdr = 32"
definition PT_LOAD :: u32 where "PT_LOAD = 1"
definition SEEK_SET :: u8 where "SEEK_SET = 1"
definition O_RDONLY :: u8 where "O_RDONLY = 0"

definition elf_magic :: "u8 list" where
  "elf_magic = [0x7f, 0x45, 0x4c, 0x46, 1, 1, 1]"

definition ehdr_ok :: "Elf32_Ehdr \<Rightarrow> bool res" where
  "ehdr_ok h =
     bindE (memcmp (Some (e_ident h)) (Some elf_magic) 7) (\<lambda>d.
     Inr (\<not> (d \<noteq> 0 \<or> e_type h \<noteq> 2 \<or> e_machine h \<noteq> 3 \<or> e_version h \<noteq> 1 \<or> e_phnum h > 1024 \<or>
             e_phentsize h \<noteq> ucast sizeof_Phdr)))"

section \<open>Memory of the process\<close>

definition set_byte :: "nat \<Rightarrow> u8 \<Rightarrow> u32 \<Rightarrow> u32" where
  "set_byte k b w = (w AND NOT (push_bit (8 * k) 0xff)) OR push_bit (8 * k) (ucast b)"

definition store8 :: "u32 \<Rightarrow> u8 \<Rightarrow> ('z) cpu_scheme \<Rightarrow> ('z) cpu_scheme res" where
  "store8 v b s =
     (let a = v AND NOT 3 in
      bindE (load32 a s) (\<lambda>w. store32 a (set_byte (unat (v AND 3)) b w) s))"

fun store_bytes :: "u32 \<Rightarrow> u8 list \<Rightarrow> ('z) cpu_scheme \<Rightarrow> ('z) cpu_scheme res" where
  "store_bytes v [] s = Inr s"
| "store_bytes v (b # bs) s = bindE (store8 v b s) (store_bytes (v + 1) bs)"

section \<open>Loading\<close>

definition occupy_pages :: "u32 \<Rightarrow> u32 \<Rightarrow> u32" where
  "occupy_pages filesz vaddr =
     (let size_in_first_page = PAGE_SIZE - (vaddr AND 0x00000fff) in
      if filesz > size_in_first_page then
        let left_size = filesz - size_in_first_page in DIV_ROUND_UP left_size PAGE_SIZE + 1
      else 1)"

text \<open>The loop that gives the segment its pages; the result says whether there was memory.\<close>

fun segment_pages :: "nat \<Rightarrow> u32 \<Rightarrow> ('z) ustate_scheme \<Rightarrow> (bool \<times> ('z) ustate_scheme) res" where
  "segment_pages 0 vaddr_page s = Inr (True, s)"
| "segment_pages (Suc n) vaddr_page s =
     bindE (load32 (pde_ptr vaddr_page) s) (\<lambda>pde.
     bindE (if pde AND 1 = 0 then Inr True
            else mapE (\<lambda>pte. pte AND 1 = 0) (load32 (pte_ptr vaddr_page) s)) (\<lambda>missing.
     if missing then
       bindE (get_a_page PF_USER vaddr_page s) (\<lambda>(a, s).
       if a = NULL then Inr (False, s) else segment_pages n (vaddr_page + PAGE_SIZE) s)
     else segment_pages n (vaddr_page + PAGE_SIZE) s))"

definition segment_load ::
  "(nat \<Rightarrow> u8) \<Rightarrow> u32 \<Rightarrow> u32 \<Rightarrow> u32 \<Rightarrow> u32 \<Rightarrow> ('z) ustate_scheme \<Rightarrow> (bool \<times> ('z) ustate_scheme) res" where
  "segment_load keys fd offset filesz vaddr s =
     bindE (segment_pages (unat (occupy_pages filesz vaddr)) (vaddr AND 0xfffff000) s) (\<lambda>(ok, s).
     if \<not> ok then Inr (False, s)
     else
       bindE (fs_run (sys_lseek fd offset SEEK_SET) s) (\<lambda>(_, s).
       bindE (fs_run (sys_read keys fd filesz) s) (\<lambda>((_, bytes), s).
       bindE (store_bytes vaddr bytes s) (\<lambda>s. Inr (True, s)))))"

text \<open>The loop over the program headers; \<open>n\<close> counts the headers left. The result says whether all were loaded.\<close>

fun load_segments ::
  "(nat \<Rightarrow> u8) \<Rightarrow> u32 \<Rightarrow> u32 \<Rightarrow> nat \<Rightarrow> u32 \<Rightarrow> ('z) ustate_scheme \<Rightarrow> (bool \<times> ('z) ustate_scheme) res" where
  "load_segments keys fd hsize 0 prog_header_offset s = Inr (True, s)"
| "load_segments keys fd hsize (Suc n) prog_header_offset s =
     bindE (fs_run (sys_lseek fd prog_header_offset SEEK_SET) s) (\<lambda>(_, s).
     bindE (fs_run (sys_read keys fd hsize) s) (\<lambda>((got, bytes), s).
     if got \<noteq> hsize then Inr (False, s)
     else
       let prog_header = phdr_of bytes in
       bindE (if p_type prog_header = PT_LOAD
              then segment_load keys fd (p_offset prog_header) (p_filesz prog_header) (p_vaddr prog_header) s
              else Inr (True, s)) (\<lambda>(ok, s).
       if \<not> ok then Inr (False, s)
       else load_segments keys fd hsize n (prog_header_offset + hsize) s)))"

definition load_file :: "(nat \<Rightarrow> u8) \<Rightarrow> u32 \<Rightarrow> ('z) ustate_scheme \<Rightarrow> (u32 \<times> ('z) ustate_scheme) res" where
  "load_file keys fd s =
     bindE (fs_run (sys_read keys fd sizeof_Ehdr) s) (\<lambda>((got, bytes), s).
     if got \<noteq> sizeof_Ehdr then Inr (-1, s)
     else
       let h = ehdr_of bytes in
       bindE (ehdr_ok h) (\<lambda>ok.
       if \<not> ok then Inr (-1, s)
       else
         bindE (load_segments keys fd (ucast (e_phentsize h)) (unat (e_phnum h)) (e_phoff h) s) (\<lambda>(ok, s).
         Inr (if ok then e_entry h else -1, s))))"

definition load :: "(nat \<Rightarrow> u8) \<Rightarrow> u8 list \<Rightarrow> ('z) ustate_scheme \<Rightarrow> (u32 \<times> ('z) ustate_scheme) res" where
  "load keys pathname s =
     bindE (fs_run (sys_open pathname O_RDONLY) s) (\<lambda>(fd, s).
     if fd = -1 then Inr (-1, s)
     else
       bindE (load_file keys fd s) (\<lambda>(ret, s).
       bindE (fs_run (sys_close fd) s) (\<lambda>(_, s). Inr (ret, s))))"

section \<open>Replacing the program\<close>

text \<open>The count of the arguments; the address comes round after \<open>2 ^ 30\<close> words.\<close>

fun count_args :: "nat \<Rightarrow> u32 \<Rightarrow> u32 \<Rightarrow> ('z) cpu_scheme \<Rightarrow> u32 res" where
  "count_args 0 argv argc s = Inl Diverges"
| "count_args (Suc n) argv argc s =
     bindE (load32 (argv + 4 * argc) s) (\<lambda>w.
     if w = 0 then Inr argc else count_args n argv (argc + 1) s)"

text \<open>
  What follows when the program has been loaded: the call does not return, the processor goes on at \<^verbatim>\<open>intr_exit\<close> with the
  stack pointer on the trap frame. The result is \<open>None\<close> then.
\<close>

definition exec_enter ::
  "u8 list \<Rightarrow> u32 \<Rightarrow> u32 \<Rightarrow> u32 \<Rightarrow> ('z) ustate_scheme \<Rightarrow> (u32 option \<times> ('z) ustate_scheme) res" where
  "exec_enter path argv argc entry_point s =
     (let cur = running_thread s in
      bindE (get_task cur s) (\<lambda>t.
      bindE (memcpy (Some (tname t)) (Some path) 16) (\<lambda>nm.
      bindE (write_at nm 15 0) (\<lambda>nm.
      bindE (upd_task cur (\<lambda>t. t\<lparr>tname := nm\<rparr>) s) (\<lambda>s.
      let intr_0_stack = cur + PAGE_SIZE - sizeof_intr_stack in
      bindE (store_fields intr_0_stack [(20, argv), (28, argc), (56, entry_point), (68, 0xc0000000)] s) (\<lambda>s.
      Inr (None, s\<lparr>esp := intr_0_stack\<rparr>)))))))"

definition sys_execv ::
  "(nat \<Rightarrow> u8) \<Rightarrow> u8 list \<Rightarrow> u32 \<Rightarrow> ('z) ustate_scheme \<Rightarrow> (u32 option \<times> ('z) ustate_scheme) res" where
  "sys_execv keys path argv s =
     bindE (count_args (2 ^ 30) argv 0 s) (\<lambda>argc.
     bindE (load keys path s) (\<lambda>(entry_point, s).
     if entry_point = -1 then Inr (Some (-1), s)
     else exec_enter path argv argc entry_point s))"

section \<open>The pages of a segment\<close>

lemma div_image:
  assumes "0 < n" "0 < (m :: nat)"
  shows "(\<lambda>a. a div m) ` {v..<v + n} = {v div m..(v + n - 1) div m}"
proof (intro equalityI subsetI)
  fix q assume q: "q \<in> {v div m..(v + n - 1) div m}"
  let ?a = "max v (q * m)"
  have "?a < v + n"
  proof -
    have "q * m \<le> (v + n - 1) div m * m" using q by simp
    also have "\<dots> \<le> v + n - 1" by (rule div_times_less_eq_dividend)
    finally show ?thesis using assms(1) by auto
  qed
  moreover have "?a div m = q"
  proof (cases "v \<le> q * m")
    case True
    then show ?thesis using assms(2) by (simp add: max_def)
  next
    case False
    then have "q \<le> v div m" using assms(2) by (simp add: less_eq_div_iff_mult_less_eq)
    then show ?thesis using q False by (simp add: max_def)
  qed
  ultimately show "q \<in> (\<lambda>a. a div m) ` {v..<v + n}" by (intro image_eqI [of _ _ ?a]) auto
qed (auto intro!: div_le_mono)

lemma unat_low_bits: "unat (v AND 0x00000fff :: u32) = unat v mod 4096"
  using unat_page_off [of v] by (simp add: page_off_def)

lemma occupy_pages_count:
  assumes sz: "0 < filesz" and lim: "unat vaddr + unat filesz \<le> 2 ^ 32 - 4096"
  shows "unat (occupy_pages filesz vaddr) = (unat vaddr + unat filesz - 1) div 4096 - unat vaddr div 4096 + 1"
proof -
  let ?v = "unat vaddr" and ?n = "unat filesz" and ?r = "unat vaddr mod 4096"
  have n: "0 < ?n" using sz by (simp add: unat_gt_0)
  have r: "?r < 4096" by simp
  have first: "unat (PAGE_SIZE - (vaddr AND 0x00000fff)) = 4096 - ?r"
    using r by (subst unat_sub) (simp_all add: PAGE_SIZE_def word_le_nat_alt unat_low_bits)
  have v: "?v = 4096 * (?v div 4096) + ?r" by simp
  have last: "(?v + ?n - 1) div 4096 = ?v div 4096 + (?r + ?n - 1) div 4096"
  proof -
    have "?v + ?n - 1 = 4096 * (?v div 4096) + (?r + ?n - 1)" using v n by linarith
    then show ?thesis by (metis div_mult_self4 zero_neq_numeral)
  qed
  show ?thesis
  proof (cases "?n \<le> 4096 - ?r")
    case True
    then have "(?r + ?n - 1) div 4096 = 0" using r n by simp
    moreover have "occupy_pages filesz vaddr = 1"
      using True by (simp add: occupy_pages_def Let_def word_less_nat_alt first)
    ultimately show ?thesis using last by simp
  next
    case False
    then have big: "PAGE_SIZE - (vaddr AND 0x00000fff) < filesz" by (simp add: word_less_nat_alt first)
    define l where "l = filesz - (PAGE_SIZE - (vaddr AND 0x00000fff))"
    have l: "unat l = ?n - (4096 - ?r)" using big unfolding l_def by (subst unat_sub) (simp_all add: first)
    have up: "unat (l + PAGE_SIZE - 1) = unat l + 4095"
    proof -
      have "l + PAGE_SIZE - 1 = l + 4095" by (simp add: PAGE_SIZE_def)
      moreover have "unat (l + 4095) = unat l + 4095" using l lim by (subst unat_add_no_wrap32) auto
      ultimately show ?thesis by (simp only:)
    qed
    have d: "unat (DIV_ROUND_UP l PAGE_SIZE) = (unat l + 4095) div 4096"
      unfolding DIV_ROUND_UP_def unat_div up by (simp add: PAGE_SIZE_def)
    have e: "(unat l + 4095) div 4096 = (?r + ?n - 1) div 4096" using l r False by (simp add: add.commute)
    have "unat (DIV_ROUND_UP l PAGE_SIZE + 1) = (?r + ?n - 1) div 4096 + 1"
    proof -
      have "?r \<le> ?v" by (rule mod_less_eq_dividend)
      then have "(?r + ?n - 1) div 4096 < 2 ^ 32 - 1"
        using div_le_dividend [of "?r + ?n - 1" 4096] lim n by linarith
      then show ?thesis using d e by (subst unat_add_no_wrap32) simp_all
    qed
    then show ?thesis using big last by (simp add: occupy_pages_def Let_def l_def)
  qed
qed

text \<open>The number of pages \<^verbatim>\<open>segment_load\<close> looks at is the number of different pages that hold a byte of the segment.\<close>

lemma occupy_pages_is_pages_touched:
  assumes "0 < filesz" "unat vaddr + unat filesz \<le> 2 ^ 32 - 4096"
  shows "unat (occupy_pages filesz vaddr) = card ((\<lambda>a. a div 4096) ` {unat vaddr..<unat vaddr + unat filesz})"
proof -
  have "0 < unat filesz" using assms(1) by (simp add: unat_gt_0)
  moreover have "unat vaddr div 4096 \<le> (unat vaddr + unat filesz - 1) div 4096"
    using calculation by (intro div_le_mono) simp
  ultimately show ?thesis using occupy_pages_count [OF assms] by (simp add: div_image Suc_diff_le)
qed

section \<open>The new program\<close>

lemma count_args_from:
  assumes "k \<le> n" "n < 2 ^ 32" "n - k < fuel" "load32 (argv + 4 * of_nat n) s = Inr 0"
    "\<And>j. j < n \<Longrightarrow> \<exists>w. load32 (argv + 4 * of_nat j) s = Inr w \<and> w \<noteq> 0"
  shows "count_args fuel argv (of_nat k) s = Inr (of_nat n)"
  using assms(1,3)
proof (induction fuel arbitrary: k)
  case (Suc fuel)
  show ?case
  proof (cases "k = n")
    case False
    then obtain w where w: "load32 (argv + 4 * of_nat k) s = Inr w" "w \<noteq> 0" using assms(5) [of k] Suc.prems(1) by auto
    have "count_args fuel argv (of_nat (Suc k)) s = Inr (of_nat n)" using False Suc.prems by (intro Suc.IH) auto
    then show ?thesis using w by (simp add: add.commute)
  qed (simp add: assms(4))
qed simp

definition exec_frame :: "u32 \<Rightarrow> u32 \<Rightarrow> u32 \<Rightarrow> (u32 \<times> u32) list" where
  "exec_frame argv argc entry = [(20, argv), (28, argc), (56, entry), (68, 0xc0000000)]"

lemma exec_frame_context:
  "frame_context f (put_fields (f + 4020) (exec_frame argv argc entry) pm) =
     (frame_context f pm)\<lparr>r_ebx := argv, r_ecx := argc, r_eip := entry, r_esp := 0xc0000000\<rparr>"
  by (simp add: frame_context_def exec_frame_def context_of_def add.assoc nth_append)

lemma exec_enter_ok:
  fixes s :: "('a) ustate_scheme"
  assumes pl: "plain s (running_thread s) f" and t: "tasks s (running_thread s) = Some t"
    and len: "length (tname t) = 16" "16 \<le> length path"
  shows "\<exists>s'. exec_enter path argv argc entry s = Inr (None, s') \<and> esp s' = running_thread s + 4020 \<and>
     intr_exit (esp s') s' = Inr ((frame_context f (pmem s))\<lparr>r_ebx := argv, r_ecx := argc, r_eip := entry, r_esp := 0xc0000000\<rparr>) \<and>
     tasks s' = (tasks s)(running_thread s \<mapsto> t\<lparr>tname := take 15 path @ [0]\<rparr>) \<and>
     filesys s' = filesys s \<and> same_but f (pmem s) (pmem s')"
proof -
  let ?p = "running_thread s" and ?fs = "exec_frame argv argc entry"
  let ?s1 = "s\<lparr>tasks := (tasks s)(running_thread s \<mapsto> t\<lparr>tname := take 15 path @ [0]\<rparr>)\<rparr>"
  let ?pm = "put_fields (f + 4020) ?fs (pmem s)"
  have nm: "memcpy (Some (tname t)) (Some path) 16 = Inr (take 16 path)" using len by simp
  have wr: "write_at (take 16 path) 15 0 = Inr (take 15 path @ [0])"
  proof -
    have "take 16 path = take 15 path @ [path ! 15]" using len(2) take_Suc_conv_app_nth [of 15 path] by (simp add: eval_nat_numeral)
    then show ?thesis using len(2) by (simp add: write_at_def list_update_append)
  qed
  have w: "cr3 ?s1 = cr3 s" "pmem ?s1 = pmem s" by simp_all
  have pl1: "plain ?s1 ?p f" using pl walk_cong [OF w] by (simp add: plain_def)
  have off: "4020 + off < 4096" if "(off, v) \<in> set ?fs" for off v using that by (auto simp: exec_frame_def)
  from store_fields_plain [OF pl1 off]
  have st: "store_fields (?p + 4020) ?fs ?s1 = Inr (?s1\<lparr>pmem := ?pm\<rparr>)" and sb: "same_but f (pmem s) ?pm" by simp_all
  let ?s2 = "?s1\<lparr>pmem := ?pm, esp := ?p + 4020\<rparr>"
  have "plain (s\<lparr>pmem := ?pm\<rparr>) ?p f" using pl by (intro plain_writes [OF pl sb]) (simp add: plain_def)
  moreover have "cr3 ?s2 = cr3 (s\<lparr>pmem := ?pm\<rparr>)" "pmem ?s2 = pmem (s\<lparr>pmem := ?pm\<rparr>)" by simp_all
  ultimately have pl2: "plain ?s2 ?p f" using walk_cong [of ?s2 "s\<lparr>pmem := ?pm\<rparr>"] by (simp add: plain_def)
  have off2: "?p + PAGE_SIZE - sizeof_intr_stack = ?p + 4020" by (simp add: PAGE_SIZE_def sizeof_intr_stack_def)
  have "exec_enter path argv argc entry s = Inr (None, ?s2)"
    using st t unfolding exec_enter_def Let_def off2 exec_frame_def
    by (simp add: nm wr upd_task_def get_task_def del: store_fields.simps)
  moreover have "intr_exit (?p + 4020) ?s2 =
      Inr ((frame_context f (pmem s))\<lparr>r_ebx := argv, r_ecx := argc, r_eip := entry, r_esp := 0xc0000000\<rparr>)"
    using intr_exit_plain [OF pl2] exec_frame_context by simp
  ultimately show ?thesis using sb by (intro exI [of _ ?s2]) simp
qed

section \<open>Properties\<close>

text \<open>
  C39: \<^verbatim>\<open>sys_execv\<close> replaces the program of the process. The arguments are counted up to the null pointer, \<open>n\<close> of them. When the
  program is loaded, with its entry point, and the page of the process is mapped to the frame \<open>f\<close>, where it trapped with the registers \<open>c\<close>, the call
  does not return: \<^verbatim>\<open>intr_exit\<close>, from the stack the call leaves, gives the processor the registers \<open>c\<close> with the entry point in
  \<^verbatim>\<open>eip\<close>, the end of the user space in \<^verbatim>\<open>esp\<close>, \<^verbatim>\<open>argv\<close> in \<^verbatim>\<open>ebx\<close> and the count in \<^verbatim>\<open>ecx\<close>; the name of the process is the
  first 15 bytes of the path, and nothing else of it, of the files or of the memory outside the frame changes. When
  loading fails, the call returns -1 and leaves the process and its trap frame as \<^verbatim>\<open>load\<close> left them. The path is in a buffer of at least 16 bytes.
\<close>

theorem execv_enters_program:
  fixes s s1 :: "('a) ustate_scheme"
  assumes "n < 2 ^ 30" "\<And>k. k < n \<Longrightarrow> \<exists>w. load32 (argv + 4 * of_nat k) s = Inr w \<and> w \<noteq> 0" "load32 (argv + 4 * of_nat n) s = Inr 0"
    and "plain s1 (running_thread s1) f" "tasks s1 (running_thread s1) = Some t" "length (tname t) = 16" "16 \<le> length path"
    and "intr_exit (running_thread s1 + 4020) s1 = Inr c"
  shows "(\<forall>keys s'. load keys path s = Inr (-1, s') \<longrightarrow> sys_execv keys path argv s = Inr (Some (-1), s')) \<and>
     (\<exists>s2. exec_enter path argv (of_nat n) entry s1 = Inr (None, s2) \<and>
        (\<forall>keys. entry \<noteq> -1 \<and> load keys path s = Inr (entry, s1) \<longrightarrow> sys_execv keys path argv s = Inr (None, s2)) \<and>
        intr_exit (esp s2) s2 = Inr (c\<lparr>r_ebx := argv, r_ecx := of_nat n, r_eip := entry, r_esp := 0xc0000000\<rparr>) \<and>
        tasks s2 = (tasks s1)(running_thread s1 \<mapsto> t\<lparr>tname := take 15 path @ [0]\<rparr>) \<and>
        filesys s2 = filesys s1 \<and> same_but f (pmem s1) (pmem s2))"
proof -
  have "count_args (2 ^ 30) argv (of_nat 0) s = Inr (of_nat n)"
    using assms(1) by (intro count_args_from assms(2,3)) simp_all
  then have cnt: "count_args (2 ^ 30) argv 0 s = Inr (of_nat n)" by simp
  have c: "c = frame_context f (pmem s1)" using assms(8) intr_exit_plain [OF assms(4)] by simp
  from exec_enter_ok [OF assms(4-7), of argv "of_nat n" entry] show ?thesis
    unfolding sys_execv_def cnt c by auto
qed

text \<open>A process with one argument, whose page is \<open>0xc0100000\<close>.\<close>

definition exec_state :: ustate where
  "exec_state = fork_state\<lparr>esp := 0xc0100f80\<rparr>"

theorem execv_enters_program_witness:
  "\<exists>s2 c. count_args (2 ^ 30) 0xc0100fd4 0 exec_state = Inr 1 \<and>
     exec_enter (str ''/bin/cat'' @ replicate 8 0) 0xc0100fd4 1 0x8048000 exec_state = Inr (None, s2) \<and>
     intr_exit (esp s2) s2 = Inr c \<and> r_eip c = 0x8048000 \<and> r_esp c = 0xc0000000 \<and> r_ecx c = 1 \<and>
     map_option tname (tasks s2 0xc0100000) = Some (str ''/bin/cat'' @ replicate 8 0)"
proof -
  have r: "running_thread exec_state = 0xc0100000" by (simp add: running_thread_def exec_state_def)
  have same: "cr3 exec_state = cr3 fork_state" "pmem exec_state = pmem fork_state" by (simp_all add: exec_state_def)
  have pl: "plain exec_state 0xc0100000 0x200000" using fork_pages(2) walk_cong [OF same] by (simp add: plain_def)
  have t: "tasks exec_state 0xc0100000 = Some (sample_task TASK_RUNNING 0)"
    by (simp add: exec_state_def fork_state_def pstate.defs boot_threads_def)
  have pm: "pmem exec_state 0x200fd4 = 4" "pmem exec_state 0x200fd8 = 0"
    by (simp_all add: same fork_state_def pstate.defs two_pages_def loader_pmem_def)
  have args: "load32 0xc0100fd4 exec_state = Inr 4" "load32 0xc0100fd8 exec_state = Inr 0"
    using plain_access(1) [OF pl, of "0xfd4"] plain_access(1) [OF pl, of "0xfd8"] pm by simp_all
  have "count_args (2 ^ 30) 0xc0100fd4 (of_nat 0) exec_state = Inr (of_nat 1)"
    by (rule count_args_from) (use args in \<open>auto simp: less_Suc_eq\<close>)
  moreover have path: "16 \<le> length (str ''/bin/cat'' @ replicate 8 0)" "length (tname (sample_task TASK_RUNNING 0)) = 16"
    by (simp_all add: str_def sample_task_def)
  moreover have "take 15 (str ''/bin/cat'' @ replicate 8 0) @ [0] = str ''/bin/cat'' @ replicate 8 0"
    by (simp add: str_def eval_nat_numeral)
  ultimately show ?thesis
    using execv_enters_program [of 1 "0xc0100fd4" exec_state exec_state "0x200000" _ "str ''/bin/cat'' @ replicate 8 0" _ "0x8048000"]
      intr_exit_plain [OF pl] pl t args unfolding r by fastforce
qed

end
