(* ===== verification/Syscall.thy ===== *)
theory Syscall
  imports Process
begin

text \<open>
  The way from user code into the kernel: the task state segment and the descriptors of \<^verbatim>\<open>user_process/tss.c\<close>, the table of
  \<^verbatim>\<open>user_process/syscall-init.c\<close>, the calls of \<^verbatim>\<open>lib/user/syscall.c\<close> and the entry \<^verbatim>\<open>syscall_handler\<close>
  of \<^verbatim>\<open>kernel/kernel.s\<close>. An entry of the table is the name of the kernel function it points to.
\<close>

section \<open>Segments\<close>

record gdt_desc =
  limit_low_word :: u16
  base_low_word :: u16
  base_mid_byte :: u8
  attr_low_byte :: u8
  limit_high_attr_high :: u8
  base_high_byte :: u8

definition make_gdt_desc :: "u32 \<Rightarrow> u32 \<Rightarrow> u8 \<Rightarrow> u8 \<Rightarrow> gdt_desc" where
  "make_gdt_desc desc_addr limit attr_low attr_high =
     \<lparr>limit_low_word = ucast (limit AND 0x0000ffff),
      base_low_word = ucast (desc_addr AND 0x0000ffff),
      base_mid_byte = ucast (drop_bit 16 (desc_addr AND 0x00ff0000)),
      attr_low_byte = attr_low,
      limit_high_attr_high = ucast (drop_bit 16 (limit AND 0x000f0000) + ucast attr_high),
      base_high_byte = ucast (drop_bit 24 desc_addr)\<rparr>"

definition GDT_ATTR_HIGH :: u8 where
  "GDT_ATTR_HIGH = push_bit 7 1 + push_bit 6 1 + push_bit 5 0 + push_bit 4 0"

definition GDT_CODE_ATTR_LOW_DPL3 :: u8 where
  "GDT_CODE_ATTR_LOW_DPL3 = push_bit 7 1 + push_bit 5 3 + push_bit 4 1 + 8"

definition GDT_DATA_ATTR_LOW_DPL3 :: u8 where
  "GDT_DATA_ATTR_LOW_DPL3 = push_bit 7 1 + push_bit 5 3 + push_bit 4 1 + 2"

definition TSS_ATTR_HIGH :: u8 where
  "TSS_ATTR_HIGH = push_bit 7 1 + push_bit 6 0 + push_bit 5 0 + push_bit 4 0 + 0"

definition TSS_ATTR_LOW :: u8 where
  "TSS_ATTR_LOW = push_bit 7 1 + push_bit 5 0 + push_bit 4 0 + 9"

definition SELECTOR_TSS :: u16 where "SELECTOR_TSS = push_bit 3 4 + push_bit 2 0 + 0"
definition SELECTOR_K_STACK :: u32 where "SELECTOR_K_STACK = push_bit 3 2 + push_bit 2 0 + 0"

text \<open>What the processor reads from a descriptor.\<close>

definition desc_base :: "gdt_desc \<Rightarrow> u32" where
  "desc_base d = ucast (base_low_word d) OR push_bit 16 (ucast (base_mid_byte d)) OR push_bit 24 (ucast (base_high_byte d))"

definition desc_limit :: "gdt_desc \<Rightarrow> u32" where
  "desc_limit d = ucast (limit_low_word d) OR push_bit 16 (ucast (limit_high_attr_high d) AND 0xf)"

definition desc_dpl :: "gdt_desc \<Rightarrow> u8" where
  "desc_dpl d = drop_bit 5 (attr_low_byte d) AND 3"

section \<open>The table of system calls\<close>

datatype SYSCALL_NR =
  SYS_GETPID | SYS_WRITE | SYS_MALLOC | SYS_FREE | SYS_FORK | SYS_READ | SYS_PUTCHAR | SYS_CLEAR | SYS_GETCWD
| SYS_OPEN | SYS_CLOSE | SYS_LSEEK | SYS_UNLINK | SYS_MKDIR | SYS_OPENDIR | SYS_CLOSEDIR | SYS_CHDIR | SYS_RMDIR
| SYS_READDIR | SYS_REWINDDIR | SYS_STAT | SYS_PS | SYS_EXECV

fun nr :: "SYSCALL_NR \<Rightarrow> nat" where
  "nr SYS_GETPID = 0" | "nr SYS_WRITE = 1" | "nr SYS_MALLOC = 2" | "nr SYS_FREE = 3" | "nr SYS_FORK = 4"
| "nr SYS_READ = 5" | "nr SYS_PUTCHAR = 6" | "nr SYS_CLEAR = 7" | "nr SYS_GETCWD = 8" | "nr SYS_OPEN = 9"
| "nr SYS_CLOSE = 10" | "nr SYS_LSEEK = 11" | "nr SYS_UNLINK = 12" | "nr SYS_MKDIR = 13" | "nr SYS_OPENDIR = 14"
| "nr SYS_CLOSEDIR = 15" | "nr SYS_CHDIR = 16" | "nr SYS_RMDIR = 17" | "nr SYS_READDIR = 18" | "nr SYS_REWINDDIR = 19"
| "nr SYS_STAT = 20" | "nr SYS_PS = 21" | "nr SYS_EXECV = 22"

text \<open>The kernel functions in the table.\<close>

datatype kernel_fn =
  Sys_getpid | Sys_malloc | Sys_free | Sys_fork | Sys_read | Sys_write | Sys_putchar | Cls_screen | Sys_getcwd
| Sys_open | Sys_close | Sys_lseek | Sys_unlink | Sys_mkdir | Sys_opendir | Sys_closedir | Sys_chdir | Sys_rmdir
| Sys_readdir | Sys_rewinddir | Sys_stat | Sys_ps | Sys_execv

text \<open>The number of words a kernel function takes from the stack.\<close>

fun arity :: "kernel_fn \<Rightarrow> nat" where
  "arity Sys_getpid = 0" | "arity Sys_malloc = 1" | "arity Sys_free = 1" | "arity Sys_fork = 0" | "arity Sys_read = 3"
| "arity Sys_write = 3" | "arity Sys_putchar = 1" | "arity Cls_screen = 0" | "arity Sys_getcwd = 2" | "arity Sys_open = 2"
| "arity Sys_close = 1" | "arity Sys_lseek = 3" | "arity Sys_unlink = 1" | "arity Sys_mkdir = 1" | "arity Sys_opendir = 1"
| "arity Sys_closedir = 1" | "arity Sys_chdir = 1" | "arity Sys_rmdir = 1" | "arity Sys_readdir = 1"
| "arity Sys_rewinddir = 1" | "arity Sys_stat = 2" | "arity Sys_ps = 0" | "arity Sys_execv = 2"

definition syscall_nr :: nat where "syscall_nr = 32"

definition sys_getpid :: "('z) tstate_scheme \<Rightarrow> u32 res" where
  "sys_getpid s = mapE (\<lambda>t. scast (pid t)) (get_task (running_thread s) s)"

definition syscall_entries :: "(SYSCALL_NR \<times> kernel_fn) list" where
  "syscall_entries = [(SYS_GETPID, Sys_getpid), (SYS_MALLOC, Sys_malloc), (SYS_FREE, Sys_free), (SYS_FORK, Sys_fork),
     (SYS_READ, Sys_read), (SYS_WRITE, Sys_write), (SYS_PUTCHAR, Sys_putchar), (SYS_CLEAR, Cls_screen),
     (SYS_GETCWD, Sys_getcwd), (SYS_OPEN, Sys_open), (SYS_CLOSE, Sys_close), (SYS_LSEEK, Sys_lseek),
     (SYS_UNLINK, Sys_unlink), (SYS_MKDIR, Sys_mkdir), (SYS_OPENDIR, Sys_opendir), (SYS_CLOSEDIR, Sys_closedir),
     (SYS_CHDIR, Sys_chdir), (SYS_RMDIR, Sys_rmdir), (SYS_READDIR, Sys_readdir), (SYS_REWINDDIR, Sys_rewinddir),
     (SYS_STAT, Sys_stat), (SYS_PS, Sys_ps), (SYS_EXECV, Sys_execv)]"

definition fill_table :: "kernel_fn option list \<Rightarrow> kernel_fn option list" where
  "fill_table tab = fold (\<lambda>(n, f) tab. tab[nr n := Some f]) syscall_entries tab"

section \<open>The calls of a program\<close>

text \<open>The registers at \<^verbatim>\<open>int $0x80\<close>; the ones a call does not name keep what they had, \<open>r\<close>.\<close>

record trap_regs =
  t_eax :: u32
  t_ebx :: u32
  t_ecx :: u32
  t_edx :: u32

definition syscall0 :: "SYSCALL_NR \<Rightarrow> trap_regs \<Rightarrow> trap_regs" where
  "syscall0 number r = r\<lparr>t_eax := of_nat (nr number)\<rparr>"

definition syscall1 :: "SYSCALL_NR \<Rightarrow> u32 \<Rightarrow> trap_regs \<Rightarrow> trap_regs" where
  "syscall1 number arg1 r = r\<lparr>t_eax := of_nat (nr number), t_ebx := arg1\<rparr>"

definition syscall2 :: "SYSCALL_NR \<Rightarrow> u32 \<Rightarrow> u32 \<Rightarrow> trap_regs \<Rightarrow> trap_regs" where
  "syscall2 number arg1 arg2 r = r\<lparr>t_eax := of_nat (nr number), t_ebx := arg1, t_ecx := arg2\<rparr>"

definition syscall3 :: "SYSCALL_NR \<Rightarrow> u32 \<Rightarrow> u32 \<Rightarrow> u32 \<Rightarrow> trap_regs \<Rightarrow> trap_regs" where
  "syscall3 number arg1 arg2 arg3 r = r\<lparr>t_eax := of_nat (nr number), t_ebx := arg1, t_ecx := arg2, t_edx := arg3\<rparr>"

definition getpid_call :: "trap_regs \<Rightarrow> trap_regs" where "getpid_call = syscall0 SYS_GETPID"
definition malloc_call :: "u32 \<Rightarrow> trap_regs \<Rightarrow> trap_regs" where "malloc_call sz = syscall1 SYS_MALLOC sz"
definition free_call :: "u32 \<Rightarrow> trap_regs \<Rightarrow> trap_regs" where "free_call ptr = syscall1 SYS_FREE ptr"
definition fork_call :: "trap_regs \<Rightarrow> trap_regs" where "fork_call = syscall0 SYS_FORK"
definition read_call :: "u32 \<Rightarrow> u32 \<Rightarrow> u32 \<Rightarrow> trap_regs \<Rightarrow> trap_regs" where
  "read_call fd p n = syscall3 SYS_READ fd p n"
definition write_call :: "u32 \<Rightarrow> u32 \<Rightarrow> u32 \<Rightarrow> trap_regs \<Rightarrow> trap_regs" where
  "write_call fd p n = syscall3 SYS_WRITE fd p n"
definition putchar_call :: "u8 \<Rightarrow> trap_regs \<Rightarrow> trap_regs" where "putchar_call c = syscall1 SYS_PUTCHAR (scast c)"
definition clear_call :: "trap_regs \<Rightarrow> trap_regs" where "clear_call = syscall0 SYS_CLEAR"
definition getcwd_call :: "u32 \<Rightarrow> u32 \<Rightarrow> trap_regs \<Rightarrow> trap_regs" where "getcwd_call p sz = syscall2 SYS_GETCWD p sz"
definition open_call :: "u32 \<Rightarrow> u8 \<Rightarrow> trap_regs \<Rightarrow> trap_regs" where "open_call path flag = syscall2 SYS_OPEN path (ucast flag)"
definition close_call :: "u32 \<Rightarrow> trap_regs \<Rightarrow> trap_regs" where "close_call fd = syscall1 SYS_CLOSE fd"
definition lseek_call :: "u32 \<Rightarrow> u32 \<Rightarrow> u8 \<Rightarrow> trap_regs \<Rightarrow> trap_regs" where
  "lseek_call fd offset whence = syscall3 SYS_LSEEK fd offset (ucast whence)"
definition unlink_call :: "u32 \<Rightarrow> trap_regs \<Rightarrow> trap_regs" where "unlink_call path = syscall1 SYS_UNLINK path"
definition mkdir_call :: "u32 \<Rightarrow> trap_regs \<Rightarrow> trap_regs" where "mkdir_call path = syscall1 SYS_MKDIR path"
definition opendir_call :: "u32 \<Rightarrow> trap_regs \<Rightarrow> trap_regs" where "opendir_call name = syscall1 SYS_OPENDIR name"
definition closedir_call :: "u32 \<Rightarrow> trap_regs \<Rightarrow> trap_regs" where "closedir_call dir = syscall1 SYS_CLOSEDIR dir"
definition rmdir_call :: "u32 \<Rightarrow> trap_regs \<Rightarrow> trap_regs" where "rmdir_call path = syscall1 SYS_RMDIR path"
definition readdir_call :: "u32 \<Rightarrow> trap_regs \<Rightarrow> trap_regs" where "readdir_call dir = syscall1 SYS_READDIR dir"
definition rewinddir_call :: "u32 \<Rightarrow> trap_regs \<Rightarrow> trap_regs" where "rewinddir_call dir = syscall1 SYS_REWINDDIR dir"
definition stat_call :: "u32 \<Rightarrow> u32 \<Rightarrow> trap_regs \<Rightarrow> trap_regs" where "stat_call path p = syscall2 SYS_STAT path p"
definition chdir_call :: "u32 \<Rightarrow> trap_regs \<Rightarrow> trap_regs" where "chdir_call path = syscall1 SYS_CHDIR path"
definition ps_call :: "trap_regs \<Rightarrow> trap_regs" where "ps_call = syscall0 SYS_PS"
definition execv_call :: "u32 \<Rightarrow> u32 \<Rightarrow> trap_regs \<Rightarrow> trap_regs" where "execv_call path argv = syscall2 SYS_EXECV path argv"

text \<open>
  \<^verbatim>\<open>syscall_handler\<close>: the three argument registers go on the stack, the first on top, and the entry of the table is
  called. There is no check of the number.
\<close>

definition syscall_handler :: "kernel_fn option list \<Rightarrow> trap_regs \<Rightarrow> (kernel_fn \<times> u32 list) res" where
  "syscall_handler tab r =
     bindE (read_at tab (unat (t_eax r))) (\<lambda>e.
     bindE (deref e) (\<lambda>f. Inr (f, take (arity f) [t_ebx r, t_ecx r, t_edx r])))"

section \<open>Descriptors\<close>

lemma desc_masks:
  "(0x0000ffff :: u32) = mask 16" "(0x00ff0000 :: u32) = push_bit 16 (mask 8)" "(0x000f0000 :: u32) = push_bit 16 (mask 4)"
  "(0xf :: u32) = mask 4" "(0xfffff :: u32) = mask 20" "(0xf0 :: u8) = push_bit 4 (mask 4)" "(0xf :: u8) = mask 4"
  by (simp_all add: mask_eq_exp_minus_1 push_bit_eq_mult)

lemma high_attr_bits:
  assumes "attr_high AND 0xf = (0 :: u8)" "k < 4"
  shows "\<not> bit attr_high k"
proof -
  have "bit (attr_high AND mask 4) k = bit (0 :: u8) k" using assms(1) by (simp only: desc_masks)
  then show ?thesis using assms(2) by (simp add: bit_and_iff bit_mask_iff)
qed

lemma bit_high_byte:
  assumes "attr_high AND 0xf = (0 :: u8)"
  shows "bit (limit_high_attr_high (make_gdt_desc a limit lo attr_high)) n \<longleftrightarrow>
           (if n < 4 then bit limit (n + 16) else bit attr_high n)"
proof -
  note hi = high_attr_bits [OF assms]
  have lo: "bit (drop_bit 16 (limit AND 0x000f0000)) k \<longleftrightarrow> k < 4 \<and> bit limit (k + 16)" for k
    unfolding desc_masks by (auto simp: bit_simps ac_simps dest: bit_imp_le_length)
  have "bit (drop_bit 16 (limit AND 0x000f0000) + ucast attr_high :: u32) k \<longleftrightarrow>
          (k < 4 \<and> bit limit (k + 16)) \<or> bit attr_high k" for k
    by (subst add_disjoint_bits; unfold lo; auto simp: bit_ucast_iff hi dest: bit_imp_le_length)
  then show ?thesis
    using hi by (auto simp: make_gdt_desc_def bit_ucast_iff dest: bit_imp_le_length)
qed

section \<open>Properties\<close>

text \<open>
  C40: every call of the user library ends in the kernel function of its name, with its arguments in their order: for
  each call, the trap it makes, dispatched through the table \<^verbatim>\<open>syscall_init\<close> builds, gives that function and
  those arguments, whatever the other registers hold.
\<close>

theorem user_calls_reach_kernel:
  fixes r :: trap_regs
  defines "k \<equiv> syscall_handler (fill_table (replicate syscall_nr None))"
  shows "k (getpid_call r) = Inr (Sys_getpid, []) \<and> k (malloc_call a r) = Inr (Sys_malloc, [a]) \<and>
         k (free_call a r) = Inr (Sys_free, [a]) \<and> k (fork_call r) = Inr (Sys_fork, []) \<and>
         k (read_call a b c r) = Inr (Sys_read, [a, b, c]) \<and> k (write_call a b c r) = Inr (Sys_write, [a, b, c]) \<and>
         k (putchar_call x r) = Inr (Sys_putchar, [scast x]) \<and> k (clear_call r) = Inr (Cls_screen, []) \<and>
         k (getcwd_call a b r) = Inr (Sys_getcwd, [a, b]) \<and> k (open_call a x r) = Inr (Sys_open, [a, ucast x]) \<and>
         k (close_call a r) = Inr (Sys_close, [a]) \<and> k (lseek_call a b x r) = Inr (Sys_lseek, [a, b, ucast x]) \<and>
         k (unlink_call a r) = Inr (Sys_unlink, [a]) \<and> k (mkdir_call a r) = Inr (Sys_mkdir, [a]) \<and>
         k (opendir_call a r) = Inr (Sys_opendir, [a]) \<and> k (closedir_call a r) = Inr (Sys_closedir, [a]) \<and>
         k (rmdir_call a r) = Inr (Sys_rmdir, [a]) \<and> k (readdir_call a r) = Inr (Sys_readdir, [a]) \<and>
         k (rewinddir_call a r) = Inr (Sys_rewinddir, [a]) \<and> k (stat_call a b r) = Inr (Sys_stat, [a, b]) \<and>
         k (chdir_call a r) = Inr (Sys_chdir, [a]) \<and> k (ps_call r) = Inr (Sys_ps, []) \<and>
         k (execv_call a b r) = Inr (Sys_execv, [a, b])"
proof -
  note defs = getpid_call_def malloc_call_def free_call_def fork_call_def read_call_def write_call_def putchar_call_def
    clear_call_def getcwd_call_def open_call_def close_call_def lseek_call_def unlink_call_def mkdir_call_def
    opendir_call_def closedir_call_def rmdir_call_def readdir_call_def rewinddir_call_def stat_call_def chdir_call_def
    ps_call_def execv_call_def syscall0_def syscall1_def syscall2_def syscall3_def
  have "fill_table (replicate syscall_nr None) = map Some [Sys_getpid, Sys_write, Sys_malloc, Sys_free, Sys_fork, Sys_read,
      Sys_putchar, Cls_screen, Sys_getcwd, Sys_open, Sys_close, Sys_lseek, Sys_unlink, Sys_mkdir, Sys_opendir,
      Sys_closedir, Sys_chdir, Sys_rmdir, Sys_readdir, Sys_rewinddir, Sys_stat, Sys_ps, Sys_execv] @ replicate 9 None"
    by (simp add: fill_table_def syscall_entries_def syscall_nr_def numeral_eq_Suc)
  then show ?thesis
    unfolding k_def by (intro conjI) (simp_all add: defs syscall_handler_def read_at_def nth_append)
qed

text \<open>
  A segment descriptor says what it was made from. For attributes that leave the four bits of the limit free, the base and the limit
  the processor reads from the descriptor of \<^verbatim>\<open>make_gdt_desc\<close> are the address and the low 20 bits of the limit, and the
  attributes are where they belong.
\<close>

theorem gdt_desc_roundtrip:
  assumes "attr_high AND 0xf = 0"
  shows "desc_base (make_gdt_desc a limit attr_low attr_high) = a \<and>
         desc_limit (make_gdt_desc a limit attr_low attr_high) = limit AND 0xfffff \<and>
         attr_low_byte (make_gdt_desc a limit attr_low attr_high) = attr_low \<and>
         limit_high_attr_high (make_gdt_desc a limit attr_low attr_high) AND 0xf0 = attr_high"
proof (intro conjI)
  let ?d = "make_gdt_desc a limit attr_low attr_high"
  have b: "bit (base_low_word ?d) n \<longleftrightarrow> n < 16 \<and> bit a n" "bit (base_mid_byte ?d) n \<longleftrightarrow> n < 8 \<and> bit a (n + 16)"
    "bit (base_high_byte ?d) n \<longleftrightarrow> n < 8 \<and> bit a (n + 24)" "bit (limit_low_word ?d) n \<longleftrightarrow> n < 16 \<and> bit limit n" for n
    unfolding make_gdt_desc_def desc_masks by (auto simp: bit_simps ac_simps dest: bit_imp_le_length)
  show "desc_base ?d = a"
    unfolding desc_base_def
  proof (rule bit_word_eqI)
    fix n assume "n < LENGTH(32)"
    then show "bit (ucast (base_low_word ?d) OR push_bit 16 (ucast (base_mid_byte ?d)) OR
                    push_bit 24 (ucast (base_high_byte ?d)) :: u32) n = bit a n"
      by (cases "n < 16"; cases "n < 24") (auto simp: bit_simps b)
  qed
  show "desc_limit ?d = limit AND 0xfffff"
    unfolding desc_limit_def desc_masks by (rule bit_word_eqI) (auto simp: bit_simps b bit_high_byte [OF assms])
  show "attr_low_byte ?d = attr_low" by (simp add: make_gdt_desc_def)
  note hi = high_attr_bits [OF assms]
  show "limit_high_attr_high ?d AND 0xf0 = attr_high"
    unfolding desc_masks
  proof (rule bit_word_eqI)
    fix n assume "n < LENGTH(8)"
    then show "bit (limit_high_attr_high ?d AND push_bit 4 (mask 4)) n = bit attr_high n"
      using hi by (cases "n < 4") (auto simp: bit_simps bit_high_byte [OF assms])
  qed
qed

theorem gdt_desc_roundtrip_witness:
  "desc_base (make_gdt_desc 0xc0012340 107 TSS_ATTR_LOW TSS_ATTR_HIGH) = 0xc0012340 \<and>
   desc_limit (make_gdt_desc 0xc0012340 107 TSS_ATTR_LOW TSS_ATTR_HIGH) = 107"
  using gdt_desc_roundtrip [of TSS_ATTR_HIGH "0xc0012340" 107 TSS_ATTR_LOW] by (simp add: TSS_ATTR_HIGH_def)

end
