(* ===== verification/Startup.thy ===== *)
theory Startup
  imports Exec Syscall Ide_Scan Fs_Format
begin

text \<open>
  How the kernel starts: \<^verbatim>\<open>init_all\<close> of \<^verbatim>\<open>kernel/init.c\<close> and \<^verbatim>\<open>main\<close> of \<^verbatim>\<open>kernel/main.c\<close>, with \<^verbatim>\<open>idt_init\<close>, \<^verbatim>\<open>tss_init\<close> and
  \<^verbatim>\<open>syscall_init\<close>, which write tables the processor reads. The state of the whole system has these tables, the disk driver and the
  file system beside the rest of the kernel.

  What the machine provides is a parameter: the size of the memory and the number of disks, which the loader and the BIOS left in
  memory, and the bytes of buffers that are not initialised. The addresses of static data and of assembly entries are fields.
\<close>

section \<open>State\<close>

record system = ustate +
  idt :: "gate_desc list"
  idtr :: "64 word"
  gdt :: "u32 \<rightharpoonup> gdt_desc"
  gdtr :: "64 word"
  task_reg :: u16
  tss_ss0 :: u32
  tss_io_base :: u32
  syscall_table :: "kernel_fn option list"
  ide :: ide_state
  idt_ptr :: u32
  tss_ptr :: u32
  syscall_handler_ptr :: u32
  intr_entry_table :: "u32 list"
  data_behind :: "nat \<Rightarrow> u32"

section \<open>Tables\<close>

definition idt_init :: "('z) system_scheme \<Rightarrow> ('z) system_scheme" where
  "idt_init s =
     (let s = put_str (''idt_init start'' @ [CHR 0x0A]) s;
          s = s\<lparr>idt := idt_desc_init (intr_entry_table s) (data_behind s) (syscall_handler_ptr s)\<rparr>;
          s = put_str (''   idt_desc_init done'' @ [CHR 0x0A]) s;
          s = exception_init s;
          s = pic_init s;
          idt_operand = (of_nat (IDT_DESC_CNT * 8) - 1) OR push_bit 16 (ucast (idt_ptr s) :: 64 word)
      in put_str (''idt_init done'' @ [CHR 0x0A]) (s\<lparr>idtr := idt_operand\<rparr>))"

definition tss_init :: "('z) system_scheme \<Rightarrow> ('z) system_scheme" where
  "tss_init s =
     (let s = put_str (''tss_init start'' @ [CHR 0x0A]) s;
          tss_size = 108 :: u32;
          s = s\<lparr>tss_esp0 := 0, tss_ss0 := SELECTOR_K_STACK, tss_io_base := tss_size\<rparr>;
          s = s\<lparr>gdt := (gdt s)
               (0xc0000920 \<mapsto> make_gdt_desc (tss_ptr s) (tss_size - 1) TSS_ATTR_LOW TSS_ATTR_HIGH,
                0xc0000928 \<mapsto> make_gdt_desc 0 0xfffff GDT_CODE_ATTR_LOW_DPL3 GDT_ATTR_HIGH,
                0xc0000930 \<mapsto> make_gdt_desc 0 0xfffff GDT_DATA_ATTR_LOW_DPL3 GDT_ATTR_HIGH)\<rparr>;
          gdt_operand = (8 * 7 - 1) OR push_bit 16 (0xc0000900 :: 64 word)
      in put_str (''tss_init and ltr done'' @ [CHR 0x0A]) (s\<lparr>gdtr := gdt_operand, task_reg := SELECTOR_TSS\<rparr>))"

definition syscall_init :: "('z) system_scheme \<Rightarrow> ('z) system_scheme" where
  "syscall_init s =
     (let s = put_str (''syscall_init start'' @ [CHR 0x0A]) s
      in put_str (''syscall_init done'' @ [CHR 0x0A]) (s\<lparr>syscall_table := fill_table (syscall_table s)\<rparr>))"

text \<open>The state in which a failed assertion leaves the machine: \<^verbatim>\<open>panic_spin\<close> reports where it is and spins.\<close>

definition panic_spin :: "string \<Rightarrow> u32 \<Rightarrow> string \<Rightarrow> string \<Rightarrow> ('z) system_scheme \<Rightarrow> ('z) system_scheme" where
  "panic_spin fname line func condition s =
     (let lf = [CHR 0x0A];
          s = s\<lparr>eflags := snd (intr_disable (eflags s))\<rparr>;
          s = put_str (lf @ lf @ lf @ ''!!!!! error !!!!!'' @ lf) s;
          s = put_str lf (put_str fname (put_str ''filename:'' s));
          s = put_str lf (put_screen (Put_Int line) (put_str ''line:0x'' s));
          s = put_str lf (put_str func (put_str ''function:'' s))
      in put_str lf (put_str condition (put_str ''condition:'' s)))"

section \<open>Disk and file system\<close>

text \<open>The file system's view of a partition the driver found; what it fills in itself is zero.\<close>

definition fs_partition :: "part \<Rightarrow> partition" where
  "fs_partition p = \<lparr>start_lba = pt_start p, sec_cnt = pt_cnt p, part_name = pt_name p,
     sb = super_block_of (replicate 512 0), block_bitmap = \<lparr>bmap_bytes_len = 0, bits = []\<rparr>,
     inode_bitmap = \<lparr>bmap_bytes_len = 0, bits = []\<rparr>, open_inodes = []\<rparr>"

fun listed_parts :: "part_ref list \<Rightarrow> ide_state \<Rightarrow> partition list res" where
  "listed_parts [] d = Inr []"
| "listed_parts (r # rs) d =
     bindE (the_part r d) (\<lambda>p. mapE (Cons (fs_partition p)) (listed_parts rs d))"

text \<open>\<^verbatim>\<open>filesys_init\<close> on the partitions of the second disk of the first channel and on the list of all partitions.\<close>

definition mount_root :: "u8 list \<Rightarrow> ('z) system_scheme \<Rightarrow> ('z) system_scheme res" where
  "mount_root pad s =
     (let d = devices (ide s) 0 1 in
      bindE (listed_parts (partition_list (ide s)) (ide s)) (\<lambda>plist.
      bindE (fs_run (filesys_init (map fs_partition (prim_parts d @ logic_parts d)) plist pad) s) (\<lambda>(_, s).
      Inr s)))"

section \<open>Start\<close>

definition init_all ::
  "u32 \<Rightarrow> u8 \<Rightarrow> u8 list \<Rightarrow> u8 list \<Rightarrow> ('z) system_scheme \<Rightarrow> ('z) system_scheme res" where
  "init_all mem_bytes_total hd_cnt junk pad s =
     (let s = put_str (''init_all'' @ [CHR 0x0A]) s;
          s = idt_init s in
      bindE (timer_init s) (\<lambda>s.
      let s = mem_init mem_bytes_total s in
      bindE (thread_init s) (\<lambda>s.
      let s = console_init s in
      bindE (keyboard_init s) (\<lambda>s.
      let s = syscall_init (tss_init s);
          s = s\<lparr>eflags := snd (intr_enable (eflags s))\<rparr> in
      bindE (ide_init hd_cnt junk (ide s)) (\<lambda>d.
      mount_root pad (s\<lparr>ide := d\<rparr>))))))"

text \<open>\<^verbatim>\<open>main\<close> up to its endless loop; \<^verbatim>\<open>cls_screen\<close> takes everything off the screen.\<close>

definition kernel_main ::
  "u32 \<Rightarrow> u8 \<Rightarrow> u8 list \<Rightarrow> u8 list \<Rightarrow> ('z) system_scheme \<Rightarrow> ('z) system_scheme res" where
  "kernel_main mem_bytes_total hd_cnt junk pad s =
     bindE (init_all mem_bytes_total hd_cnt junk pad (put_str (''I am kernel'' @ [CHR 0x0A]) s)) (\<lambda>s.
     console_put_str (str ''[noahyzhang@localhost /]$ '' @ [0]) (s\<lparr>screen := []\<rparr>))"

end
