(* ===== verification/Spec2Isabelle.thy ===== *)
theory Spec2Isabelle
  imports Memory Fs_Mount Dir_Search Fs_Calls Shell Ide_Scan Startup
begin

text \<open>
  Verification of zy_os, a small operating system for 32-bit x86: threads and user processes, a
  memory manager, drivers, a file system and a shell.

  \<^bold>\<open>The program.\<close> The kernel (\<^verbatim>\<open>src/kernel\<close>) owns the interrupt table and physical memory; \<^verbatim>\<open>src/thread\<close> schedules threads
  round robin and builds semaphores and locks on blocking them; \<^verbatim>\<open>src/device\<close> holds the drivers, which talk to their hardware
  through ports, wake threads from interrupt handlers, and serialise their users with locks; \<^verbatim>\<open>src/fs\<close> is an
  inode file system over the disk driver; \<^verbatim>\<open>src/user_process\<close> makes processes, forks them, loads programs into them and lets them
  call the kernel through a table of system calls; \<^verbatim>\<open>src/shell\<close> is a user program on these calls. The libraries under
  \<^verbatim>\<open>src/lib\<close> (strings, formatted output, bitmaps, linked lists) serve all of them.

  \<^bold>\<open>Conventions.\<close> Machine integers are words of their width, so that sums wrap as in C; signed comparisons are
  written with \<open><s\<close> and \<open>\<le>s\<close>. A routine that can fail has a result \<open>err + 'a\<close> (type \<open>res\<close> of \<open>Kernel_Prelude\<close>): \<open>Panic\<close> is a failed
  \<^verbatim>\<open>ASSERT\<close> or a \<^verbatim>\<open>PANIC\<close>, \<open>OutOfBounds\<close> an access outside an object or through \<^verbatim>\<open>NULL\<close>, \<open>Diverges\<close> a loop that
  does not end. Stateful code is a function on a record of the state; the file system uses the
  computations of \<open>Fs_State\<close> (\<open>retS\<close>, \<open>bindS\<close>, \<open>thenS\<close>), whose simplification rules \<open>run_simps\<close> execute a call step by step. A
  message is logged without the line feed that ends it in the source.

  \<^bold>\<open>The theories\<close>, in the order of the layers.

  \<^item> \<open>Kernel_Prelude\<close>: words, results, byte buffers, the collections of simplification rules.
  \<^item> \<open>Lib_String\<close> (\<^verbatim>\<open>lib/string.c\<close>), \<open>Lib_Stdio\<close> (\<^verbatim>\<open>lib/stdio.c\<close>, \<^verbatim>\<open>lib/kernel/stdio_kernel.c\<close>), \<open>Bitmap\<close> (\<^verbatim>\<open>lib/kernel/bitmap.c\<close>), \<open>Kernel_List\<close>
    (\<^verbatim>\<open>lib/kernel/list.c\<close>, \<^verbatim>\<open>list.h\<close>): the libraries. Lists are kept in an explicit store of links and refine sequences;
    bitmaps refine sets of bit numbers; strings are compared and printed as their definition says.
  \<^item> \<open>Interrupt\<close> (\<^verbatim>\<open>kernel/interrupt.c\<close>): the interrupt flag and the gates.
  \<^item> \<open>Paging\<close>, \<open>Memory\<close> (\<^verbatim>\<open>kernel/memory.c\<close>): the page walk of the processor and the routines that read and write its
    tables, and the requests to flush the translation cache, which is not itself part of the state; the pools of frames and addresses, \<^verbatim>\<open>malloc_page\<close> and \<^verbatim>\<open>mfree_page\<close>, the arenas of \<^verbatim>\<open>sys_malloc\<close>. A mapping is fresh,
    changes no other, and is undone by the routine that frees it.
  \<^item> \<open>Thread\<close>, \<open>Sync\<close> (\<^verbatim>\<open>thread/thread.c\<close>, \<^verbatim>\<open>thread/sync.c\<close>): the scheduler on its lists, and semaphores and locks as a step relation of
    threads that interleave; mutual exclusion, absence of panics and of lost wakeups are invariants of the
    reachable states.
  \<^item> \<open>Io_Queue\<close>, \<open>Devices\<close> (\<^verbatim>\<open>device/io_queue.c\<close>, \<^verbatim>\<open>keyboard.c\<close>, \<^verbatim>\<open>timer.c\<close>, \<^verbatim>\<open>console.c\<close>): the ring buffer refines a queue; the
    keyboard's state machine; the time slice.
  \<^item> \<open>Ide\<close> (\<^verbatim>\<open>device/ide.c\<close>): the driver over a model of the controller's registers; \<^verbatim>\<open>ide_read\<close> and \<^verbatim>\<open>ide_write\<close> refine
    \<open>disk_read\<close> and \<open>disk_write\<close> on a disk of sectors, which is the interface the file system uses.
  \<^item> \<open>Fs_State\<close>, \<open>Fs_Alloc\<close>, \<open>Inode\<close>, \<open>Dir\<close>, \<open>File\<close>, \<open>Fs_Path\<close>, \<open>Fs\<close>, \<open>Fs_Format\<close> (\<^verbatim>\<open>fs/\<close>): the structures and their bytes on the disk;
    descriptors, block and inode bitmaps; the inode table and cache; directories; files; paths; the
    system calls; formatting and mounting. Each routine of the sources is one computation, with its failure
    paths and messages.
  \<^item> \<open>File_Data\<close>, \<open>File_Grow\<close>, \<open>File_Blocks\<close>, \<open>File_Write\<close>, \<open>File_Append\<close>: the contents of a file as a list of bytes, and the proofs that
    \<^verbatim>\<open>file_read\<close> delivers a part of it and \<^verbatim>\<open>file_write\<close> appends to it: allocation (\<open>grown\<close>), the five ways to collect the blocks
    (\<open>collected\<close>), the loop over the sectors (\<open>wrote\<close>), the inode on the disk (\<open>appended\<close>).
  \<^item> \<open>Dir_Search\<close>, \<open>Fs_Calls\<close>: searching a directory is a search of its list of entries; the calls on an open file together.
  \<^item> \<open>Fs_Mount\<close>: the numbers of the layout \<^verbatim>\<open>partition_format\<close> computes, the bits of its bitmaps and the regions of the disk after its
    writes. A formatted and mounted partition satisfies \<open>alloc_inv\<close>, the invariant the theorems on files start from.
  \<^item> \<open>Ide_Scan\<close> (\<^verbatim>\<open>device/ide.c\<close>): identification of the disks, the scan of the partition tables with its recursion through extended
    partitions, the start of the driver. The scan of a disk finds the partitions its tables describe.
  \<^item> \<open>Process\<close> (\<^verbatim>\<open>thread/thread.c\<close>, \<^verbatim>\<open>user_process/process.c\<close>): process numbers, task structures and first stacks, page
    directories, the frame from which a process enters user mode, and the instructions of \<^verbatim>\<open>switch_to\<close> and \<^verbatim>\<open>intr_exit\<close> that
    consume these stacks. A new thread is one more ready thread of the abstract scheduler.
  \<^item> \<open>Fork\<close>, \<open>Exec\<close> (\<^verbatim>\<open>user_process/fork.c\<close>, \<^verbatim>\<open>exec.c\<close>): the copy of a process with its pages and trap frame; the ELF headers, the
    segments and the replacement of a program, up to the registers with which the new program starts.
  \<^item> \<open>Syscall\<close> (\<^verbatim>\<open>user_process/tss.c\<close>, \<^verbatim>\<open>syscall-init.c\<close>, \<^verbatim>\<open>lib/user/syscall.c\<close>): segment descriptors, the calls of the user library and
    their dispatch. \<open>Startup\<close> (\<^verbatim>\<open>kernel/init.c\<close>, \<^verbatim>\<open>main.c\<close>) composes the initialisation of all parts in the order of \<^verbatim>\<open>init_all\<close>.
  \<^item> \<open>Shell_Text\<close>, \<open>Thread_Ps\<close>, \<open>Shell\<close> (\<^verbatim>\<open>shell/shell.c\<close>, \<^verbatim>\<open>buildin_cmd.c\<close>, \<^verbatim>\<open>sys_ps\<close> of \<^verbatim>\<open>thread.c\<close>): line editing, splitting a line into
    words, clean absolute paths, the built-in commands and the loop of the shell.

  \<^bold>\<open>Hypotheses.\<close> \<open>part_ok\<close>, \<open>disk_ok\<close>, \<open>heap_ok\<close>, \<open>cache_ok\<close>, \<open>file_ok\<close> and \<open>alloc_inv\<close> are invariants of a mounted partition, its cache and a
  file. \<open>part_ok\<close> (with \<open>alloc_inv\<close>) is proved of every partition that \<^verbatim>\<open>partition_format\<close> makes and \<^verbatim>\<open>mount_partition\<close> mounts
  (\<open>Fs_Mount\<close>, for partitions of 620 sectors or more that end before the disk does). The bit behind the last block is clear
  there, and its sector is often the one behind the partition: \<open>part_ok\<close> and \<open>data_sector\<close> include that sector. The allocator of the file
  system is a parameter; \<open>allocator_ok\<close> and \<open>mem_for\<close> state that it hands out new blocks and that it has memory left.

  \<^bold>\<open>Bounds.\<close> Loops are recursive functions with a measure. A loop that can run forever in the source is either a
  \<open>partial_function\<close> (\<open>count_indirect\<close>) or has the bound the source gives it: 29999 polls in \<open>busy_loop\<close>, the 512 bytes of a path
  in \<open>walk_up\<close>. The scan of a chain of extended partitions that runs in a circle is \<open>Diverges\<close>; the loop over the arguments of
  \<^verbatim>\<open>sys_execv\<close> stops after \<open>2 ^ 30\<close> words, when it has read the whole address space.

  \<^bold>\<open>Not modelled.\<close> The boot loader and the assembly files (\<^verbatim>\<open>boot/\<close>, \<^verbatim>\<open>lib/kernel/print.s\<close>) are not C, but for \<^verbatim>\<open>switch_to\<close>, \<^verbatim>\<open>intr_exit\<close> and
  \<^verbatim>\<open>syscall_handler\<close>, which the C code relies on. The test threads of \<^verbatim>\<open>kernel/main.c\<close> are started by nothing. The idle thread is a loop
  around a halt instruction. A failed assertion of the kernel is the result \<open>Panic\<close> wherever it can occur; what \<^verbatim>\<open>kernel/debug.c\<close> prints then is \<open>panic_spin\<close>
  of \<open>Startup\<close>. \<^verbatim>\<open>lib/user/assert.c\<close> does the same for user programs, and the program under \<^verbatim>\<open>command/\<close> prints one line.
\<close>

end
